(* ===== verification/Prelude.thy ===== *)
theory Prelude
  imports Main "HOL-Library.AList" "HOL-Library.Code_Target_Nat"
begin

text \<open>
  Shared vocabulary of the development: the result type of a fallible Go function, the error
  values of the server, instants and durations, and the lemmas on association lists that every
  component uses for Go's maps.
\<close>

named_theorems store_simps \<open>characteristic equations of the storage operations\<close>
named_theorems addr_simps \<open>address arithmetic\<close>

section \<open>Errors and results\<close>

text \<open>
  The sentinel errors of the packages, an error built with \<^verbatim>\<open>errors.New\<close> or \<^verbatim>\<open>fmt.Errorf\<close>
  (\<open>Err\<close>), a \<^verbatim>\<open>ValidationError\<close> whose message is meant for the user (\<open>Invalid\<close>) and an
  error wrapped with \<^verbatim>\<open>%w\<close> (\<open>Wrap\<close>).  A panic is the value \<open>Panic\<close>: it passes through every
  caller as it is, so wrapping leaves it alone (\<open>wrap_err\<close>).
\<close>

datatype sentinel =
    ErrUserNotFound | ErrTokenNotFound | ErrSessionNotFound | ErrPasskeyNotFound | ErrPasskeyTaken
  | ErrTokenInvalid | ErrTokenExpired | ErrSessionInvalid
  | ErrWrongPassword | ErrNoPasswordHere | ErrTooManyAttempts
  | ErrNoTwoFactor | ErrTwoFactorSet | ErrWrongCode
  | ErrNoPasskey | ErrNoChallenge | ErrPasskeyExists

datatype go_error =
    Err string
  | Sentinel sentinel
  | Invalid string
  | Wrap string go_error
  | Panic string

type_synonym 'a res = "go_error + 'a"

fun wrap_err :: "string \<Rightarrow> go_error \<Rightarrow> go_error" where
  "wrap_err m (Panic p) = Panic p"
| "wrap_err m e = Wrap m e"

text \<open>\<^verbatim>\<open>errors.Is\<close> against a sentinel and \<^verbatim>\<open>errors.As\<close> against a validation error both walk the
  chain of wrapped errors.\<close>

fun err_is :: "go_error \<Rightarrow> sentinel \<Rightarrow> bool" where
  "err_is (Sentinel s) t = (s = t)"
| "err_is (Wrap m e) t = err_is e t"
| "err_is _ t = False"

fun as_validation :: "go_error \<Rightarrow> string option" where
  "as_validation (Invalid m) = Some m"
| "as_validation (Wrap m e) = as_validation e"
| "as_validation _ = None"

definition is_ok :: "'a res \<Rightarrow> bool" where
  "is_ok r = (case r of Inl _ \<Rightarrow> False | Inr _ \<Rightarrow> True)"

lemma is_ok_simps [simp]: "is_ok (Inr x)" "\<not> is_ok (Inl e)"
  by (simp_all add: is_ok_def)

section \<open>Instants and durations\<close>

text \<open>
  A \<^verbatim>\<open>time.Time\<close> is its distance from the Unix epoch in nanoseconds, a \<^verbatim>\<open>*time.Time\<close> an option.
  The zero \<^verbatim>\<open>time.Time\<close> is the first instant of the year 1.  A \<^verbatim>\<open>time.Duration\<close> is a signed 64-bit
  number of nanoseconds: \<^verbatim>\<open>Sub\<close> saturates at its ends.
\<close>

type_synonym instant = int
type_synonym duration = int

definition zero_time :: instant where
  "zero_time = - 62135596800 * 1000000000"

definition second :: duration where "second = 1000000000"
definition minute :: duration where "minute = 60 * second"
definition hour :: duration where "hour = 60 * minute"

definition max_duration :: duration where "max_duration = 2 ^ 63 - 1"
definition min_duration :: duration where "min_duration = - (2 ^ 63)"

definition time_sub :: "instant \<Rightarrow> instant \<Rightarrow> duration" where
  "time_sub t u = max min_duration (min max_duration (t - u))"

lemmas duration_defs = second_def minute_def hour_def max_duration_def min_duration_def

lemma time_sub_gt:
  "min_duration \<le> d \<Longrightarrow> d < max_duration \<Longrightarrow> time_sub t u > d \<longleftrightarrow> t - u > d"
  by (auto simp: time_sub_def max_def min_def)

lemma time_sub_ge:
  "min_duration < d \<Longrightarrow> d \<le> max_duration \<Longrightarrow> time_sub t u \<ge> d \<longleftrightarrow> t - u \<ge> d"
  by (auto simp: time_sub_def max_def min_def)

lemma time_sub_self [simp]: "time_sub t t = 0"
  by (simp add: time_sub_def duration_defs)

section \<open>Maps as association lists\<close>

text \<open>
  A Go map is an association list with distinct keys.  Its order is the order in which a \<^verbatim>\<open>range\<close>
  loop visits the entries; the theorems hold for every list, so for every order.
\<close>

type_synonym ('k, 'v) amap = "('k \<times> 'v) list"

definition amap_ok :: "('k, 'v) amap \<Rightarrow> bool" where
  "amap_ok m = distinct (map fst m)"

lemma amap_ok_Nil [simp]: "amap_ok []"
  by (simp add: amap_ok_def)

lemma amap_ok_update [intro]: "amap_ok m \<Longrightarrow> amap_ok (AList.update k v m)"
  by (simp add: amap_ok_def distinct_update)

lemma amap_ok_delete [intro]: "amap_ok m \<Longrightarrow> amap_ok (AList.delete k m)"
  by (simp add: amap_ok_def distinct_delete)

lemma amap_ok_filter [intro]: "amap_ok m \<Longrightarrow> amap_ok (filter P m)"
  by (induction m) (auto simp: amap_ok_def)

lemma amap_ok_map_snd [intro]: "amap_ok m \<Longrightarrow> amap_ok (map (\<lambda>(k, v). (k, f k v)) m)"
  by (simp add: amap_ok_def comp_def case_prod_beta)

lemma map_of_iff: "amap_ok m \<Longrightarrow> map_of m k = Some v \<longleftrightarrow> (k, v) \<in> set m"
  by (auto simp: amap_ok_def map_of_eq_Some_iff)

lemma mem_update_iff:
  "amap_ok m \<Longrightarrow> (j, w) \<in> set (AList.update k v m) \<longleftrightarrow>
     (if j = k then w = v else (j, w) \<in> set m)"
  by (auto simp: map_of_iff [symmetric] update_conv' amap_ok_update split: if_splits)

lemma mem_delete_iff:
  "(j, w) \<in> set (AList.delete k m) \<longleftrightarrow> j \<noteq> k \<and> (j, w) \<in> set m"
  by (auto simp: AList.delete_eq)

lemma amap_ok_inj:
  "amap_ok m \<Longrightarrow> (k, v) \<in> set m \<Longrightarrow> (k, w) \<in> set m \<Longrightarrow> v = w"
  by (simp add: amap_ok_def eq_key_imp_eq_value)

lemma map_of_filter_snd:
  "amap_ok m \<Longrightarrow>
     map_of (filter (\<lambda>(k, v). P k v) m) k =
       (case map_of m k of None \<Rightarrow> None | Some v \<Rightarrow> if P k v then Some v else None)"
  by (induction m) (auto simp: amap_ok_def map_of_eq_None_iff split: option.splits
      dest: map_of_SomeD)

lemma map_of_map_snd:
  "map_of (map (\<lambda>(k, v). (k, f k v)) m) k = map_option (f k) (map_of m k)"
  by (induction m) auto

section \<open>Loops\<close>

lemma foldl_invariant: "P a \<Longrightarrow> (\<And>b x. x \<in> set xs \<Longrightarrow> P b \<Longrightarrow> P (f b x)) \<Longrightarrow> P (foldl f a xs)"
  by (induction xs arbitrary: a) auto

end
