(* ===== verification/Go_Strings.thy ===== *)
theory Go_Strings
  imports Prelude "HOL-Library.List_Lexorder" "HOL-Library.Char_ord"
begin

text \<open>
  What the server uses of Go's \<^verbatim>\<open>strings\<close>, \<^verbatim>\<open>unicode\<close>, \<^verbatim>\<open>utf8\<close> and \<^verbatim>\<open>strconv\<close> packages.  A Go string is
  a sequence of bytes, which is what Isabelle's \<open>string\<close> is: a \<open>char\<close> is one of 256 bytes.
\<close>

section \<open>Bytes and runes\<close>

definition byte :: "char \<Rightarrow> nat" where
  "byte c = of_char c"

lemma byte_less [simp]: "byte c < 256"
  by (simp add: byte_def)

lemma byte_inj [simp]: "byte c = byte d \<longleftrightarrow> c = d"
  by (simp add: byte_def)

text \<open>A continuation byte of UTF-8, with the narrower bounds some first bytes put on the second.\<close>

definition cont :: "nat \<Rightarrow> nat \<Rightarrow> nat \<Rightarrow> bool" where
  "cont lo hi b = (lo \<le> b \<and> b \<le> hi)"

definition rune_error :: nat where "rune_error = 0xFFFD"

text \<open>\<^verbatim>\<open>utf8.DecodeRuneInString\<close>: the rune a byte sequence starts with and its width.  A sequence that
  is not UTF-8 yields the error rune and a width of one.\<close>

fun decode_rune :: "nat list \<Rightarrow> nat \<times> nat" where
  "decode_rune [] = (rune_error, 0)"
| "decode_rune (a # bs) =
     (if a < 0x80 then (a, 1)
      else if 0xC2 \<le> a \<and> a \<le> 0xDF then
        (case bs of
           b # _ \<Rightarrow> if cont 0x80 0xBF b then ((a - 0xC0) * 64 + (b - 0x80), 2) else (rune_error, 1)
         | [] \<Rightarrow> (rune_error, 1))
      else if 0xE0 \<le> a \<and> a \<le> 0xEF then
        (case bs of
           b # c # _ \<Rightarrow>
             if cont (if a = 0xE0 then 0xA0 else 0x80) (if a = 0xED then 0x9F else 0xBF) b
               \<and> cont 0x80 0xBF c
             then ((a - 0xE0) * 4096 + (b - 0x80) * 64 + (c - 0x80), 3) else (rune_error, 1)
         | _ \<Rightarrow> (rune_error, 1))
      else if 0xF0 \<le> a \<and> a \<le> 0xF4 then
        (case bs of
           b # c # d # _ \<Rightarrow>
             if cont (if a = 0xF0 then 0x90 else 0x80) (if a = 0xF4 then 0x8F else 0xBF) b
               \<and> cont 0x80 0xBF c \<and> cont 0x80 0xBF d
             then ((a - 0xF0) * 262144 + (b - 0x80) * 4096 + (c - 0x80) * 64 + (d - 0x80), 4)
             else (rune_error, 1)
         | _ \<Rightarrow> (rune_error, 1))
      else (rune_error, 1))"

lemma decode_rune_width:
  "bs \<noteq> [] \<Longrightarrow> 0 < snd (decode_rune bs) \<and> snd (decode_rune bs) \<le> length bs"
  by (cases bs rule: decode_rune.cases) (auto split: list.splits)

text \<open>The runes a \<^verbatim>\<open>range\<close> loop over a string visits; their number is \<^verbatim>\<open>utf8.RuneCountInString\<close>.\<close>

function runes_of :: "nat list \<Rightarrow> nat list" where
  "runes_of bs =
     (if bs = [] then []
      else fst (decode_rune bs) # runes_of (drop (snd (decode_rune bs)) bs))"
  by pat_completeness auto
termination
  by (relation "measure length") (use decode_rune_width in fastforce)+

declare runes_of.simps [simp del]

definition runes :: "string \<Rightarrow> nat list" where
  "runes s = runes_of (map byte s)"

definition rune_count :: "string \<Rightarrow> nat" where
  "rune_count s = length (runes s)"

lemma runes_of_Nil [simp]: "runes_of [] = []"
  by (simp add: runes_of.simps)

lemma runes_of_ascii: "a < 0x80 \<Longrightarrow> runes_of (a # bs) = a # runes_of bs"
  by (subst runes_of.simps) simp

lemma runes_ascii: "list_all (\<lambda>c. byte c < 0x80) s \<Longrightarrow> runes s = map byte s"
  by (induction s) (simp_all add: runes_def runes_of_ascii)

lemma length_runes_of: "length (runes_of bs) \<le> length bs"
proof (induction bs rule: runes_of.induct)
  case (1 bs)
  show ?case
  proof (cases "bs = []")
    case False
    then show ?thesis
      using 1 decode_rune_width [of bs] by (subst runes_of.simps) auto
  qed simp
qed

text \<open>\<^verbatim>\<open>unicode.IsControl\<close>.\<close>

definition is_control :: "nat \<Rightarrow> bool" where
  "is_control r = (r < 0x20 \<or> (0x7F \<le> r \<and> r < 0xA0))"

section \<open>Trimming\<close>

text \<open>
  \<^verbatim>\<open>strings.TrimSpace\<close> removes the runes of \<^verbatim>\<open>unicode.IsSpace\<close> from both ends.  They are listed by their
  encodings: UTF-8 is prefix free, so a string starts (ends) with such a rune exactly when it
  starts (ends) with its bytes.
\<close>

definition space_encodings :: "string list" where
  "space_encodings =
     [[CHR 0x20], [CHR 0x09], [CHR 0x0A], [CHR 0x0B], [CHR 0x0C], [CHR 0x0D],
      [CHR 0xC2, CHR 0x85], [CHR 0xC2, CHR 0xA0],
      [CHR 0xE1, CHR 0x9A, CHR 0x80],
      [CHR 0xE2, CHR 0x80, CHR 0x80], [CHR 0xE2, CHR 0x80, CHR 0x81],
      [CHR 0xE2, CHR 0x80, CHR 0x82], [CHR 0xE2, CHR 0x80, CHR 0x83],
      [CHR 0xE2, CHR 0x80, CHR 0x84], [CHR 0xE2, CHR 0x80, CHR 0x85],
      [CHR 0xE2, CHR 0x80, CHR 0x86], [CHR 0xE2, CHR 0x80, CHR 0x87],
      [CHR 0xE2, CHR 0x80, CHR 0x88], [CHR 0xE2, CHR 0x80, CHR 0x89],
      [CHR 0xE2, CHR 0x80, CHR 0x8A],
      [CHR 0xE2, CHR 0x80, CHR 0xA8], [CHR 0xE2, CHR 0x80, CHR 0xA9],
      [CHR 0xE2, CHR 0x80, CHR 0xAF], [CHR 0xE2, CHR 0x81, CHR 0x9F],
      [CHR 0xE3, CHR 0x80, CHR 0x80]]"

definition starts_with :: "string \<Rightarrow> string \<Rightarrow> bool" where
  "starts_with s p = (take (length p) s = p)"

function strip_front :: "string list \<Rightarrow> string \<Rightarrow> string" where
  "strip_front ps s =
     (case find (\<lambda>p. p \<noteq> [] \<and> starts_with s p) ps of
        None \<Rightarrow> s
      | Some p \<Rightarrow> strip_front ps (drop (length p) s))"
  by pat_completeness auto
termination
proof (relation "measure (\<lambda>(ps, s). length s)", simp)
  fix ps :: "string list" and s p
  assume "find (\<lambda>p. p \<noteq> [] \<and> starts_with s p) ps = Some p"
  then have "p \<noteq> []" and "take (length p) s = p"
    by (auto simp: find_Some_iff starts_with_def)
  then show "((ps, drop (length p) s), (ps, s)) \<in> measure (\<lambda>(ps, s). length s)"
    by (cases s) auto
qed

declare strip_front.simps [simp del]

definition trim_space :: "string \<Rightarrow> string" where
  "trim_space s = rev (strip_front (map rev space_encodings) (rev (strip_front space_encodings s)))"

text \<open>A byte that is neither white space nor part of the encoding of any: every printable ASCII byte.\<close>

definition graphic :: "char \<Rightarrow> bool" where
  "graphic c = (0x20 < byte c \<and> byte c < 0x7F)"

lemma strip_front_none: "(\<And>p. p \<in> set ps \<Longrightarrow> \<not> starts_with s p \<or> p = []) \<Longrightarrow> strip_front ps s = s"
proof -
  assume "\<And>p. p \<in> set ps \<Longrightarrow> \<not> starts_with s p \<or> p = []"
  then have "find (\<lambda>p. p \<noteq> [] \<and> starts_with s p) ps = None"
    by (auto simp: find_None_iff)
  then show ?thesis by (subst strip_front.simps) simp
qed

lemma starts_with_Cons: "starts_with (c # s) (d # p) = (c = d \<and> starts_with s p)"
  by (auto simp: starts_with_def)

lemma starts_with_Nil [simp]: "starts_with s []"
  by (simp add: starts_with_def)

lemma starts_with_append [simp]: "starts_with (p @ s) p"
  by (simp add: starts_with_def)

lemma space_encodings_ends:
  "list_all (\<lambda>p. p \<noteq> [] \<and> \<not> graphic (hd p) \<and> \<not> graphic (last p)) space_encodings"
  by code_simp

lemma starts_with_hd: "p \<noteq> [] \<Longrightarrow> starts_with (c # s) p \<Longrightarrow> hd p = c"
  by (cases p) (auto simp: starts_with_Cons)

lemma graphic_not_space:
  assumes "graphic c"
  shows "p \<in> set space_encodings \<Longrightarrow> \<not> starts_with (c # s) p"
    and "p \<in> set (map rev space_encodings) \<Longrightarrow> \<not> starts_with (c # s) p"
proof -
  have ends: "q \<noteq> []" "\<not> graphic (hd q)" "\<not> graphic (last q)" if "q \<in> set space_encodings" for q
    using space_encodings_ends that by (simp_all add: list_all_iff)
  show "p \<in> set space_encodings \<Longrightarrow> \<not> starts_with (c # s) p"
    using ends assms starts_with_hd by blast
  show "p \<in> set (map rev space_encodings) \<Longrightarrow> \<not> starts_with (c # s) p"
  proof
    assume "p \<in> set (map rev space_encodings)" and st: "starts_with (c # s) p"
    then obtain q where q: "q \<in> set space_encodings" "p = rev q" by auto
    with ends have "hd p = last q" "p \<noteq> []" by (auto simp: hd_rev)
    with st ends(3) [OF q(1)] assms show False using starts_with_hd by metis
  qed
qed

lemma strip_front_graphic [simp]:
  assumes "graphic c"
  shows "strip_front space_encodings (c # s) = c # s"
    and "strip_front (map rev space_encodings) (c # s) = c # s"
  using graphic_not_space [OF assms] by (blast intro!: strip_front_none)+

lemma strip_front_Nil [simp]: "strip_front ps [] = []"
  by (rule strip_front_none) (auto simp: starts_with_def)

text \<open>A string that starts and ends with a graphic byte is left alone, and so is its inside.\<close>

lemma trim_space_graphic:
  assumes "s = [] \<or> (graphic (hd s) \<and> graphic (last s))"
  shows "trim_space s = s"
proof (cases s rule: rev_cases)
  case Nil
  then show ?thesis by (simp add: trim_space_def)
next
  case (snoc t d)
  with assms have g: "graphic (hd s)" "graphic d" by auto
  then have "strip_front space_encodings (hd s # tl s) = hd s # tl s" by simp
  with snoc have "strip_front space_encodings s = s" by simp
  with g snoc show ?thesis by (simp add: trim_space_def)
qed

lemma trim_space_Nil [simp]: "trim_space [] = []"
  by (simp add: trim_space_graphic)

lemma strip_front_space: "strip_front space_encodings (CHR '' '' # s) = strip_front space_encodings s"
proof -
  have "find (\<lambda>p. p \<noteq> [] \<and> starts_with (CHR '' '' # s) p) space_encodings = Some [CHR '' '']"
    by (simp add: space_encodings_def starts_with_def)
  then show ?thesis by (subst strip_front.simps) simp
qed

lemma trim_space_blank: "trim_space (CHR '' '' # s) = trim_space s"
  by (simp add: trim_space_def strip_front_space)

text \<open>What is left has no white space at its front; trimming twice is trimming once where the
  result starts and ends with a graphic byte.\<close>

lemma strip_front_suffix: "\<exists>p. s = p @ strip_front ps s"
proof (induction ps s rule: strip_front.induct)
  case (1 ps s)
  show ?case
  proof (cases "find (\<lambda>p. p \<noteq> [] \<and> starts_with s p) ps")
    case None
    then show ?thesis by (subst strip_front.simps) simp
  next
    case (Some p)
    with 1 obtain q where "drop (length p) s = q @ strip_front ps (drop (length p) s)" by blast
    then have "s = (take (length p) s @ q) @ strip_front ps (drop (length p) s)"
      by (metis append_take_drop_id append_assoc)
    moreover have "strip_front ps s = strip_front ps (drop (length p) s)"
      using Some by (subst strip_front.simps) simp
    ultimately show ?thesis by metis
  qed
qed

lemma strip_front_set: "set (strip_front ps s) \<subseteq> set s"
  using strip_front_suffix [of s ps] by (metis set_append Un_upper2)

lemma trim_space_set: "set (trim_space s) \<subseteq> set s"
  unfolding trim_space_def using strip_front_set set_rev by (metis subset_trans)

lemma strip_front_fixed: "p \<in> set ps \<Longrightarrow> p \<noteq> [] \<Longrightarrow> \<not> starts_with (strip_front ps s) p"
proof (induction ps s rule: strip_front.induct)
  case (1 ps s)
  show ?case
  proof (cases "find (\<lambda>p. p \<noteq> [] \<and> starts_with s p) ps")
    case None
    then have "strip_front ps s = s" by (subst strip_front.simps) simp
    then show ?thesis using None 1(2,3) by (auto simp: find_None_iff)
  next
    case (Some q)
    then have "strip_front ps s = strip_front ps (drop (length q) s)" by (subst strip_front.simps) simp
    then show ?thesis using 1(1) [OF Some 1(2,3)] by simp
  qed
qed

lemma starts_with_iff: "starts_with s p \<longleftrightarrow> (\<exists>t. s = p @ t)"
  by (auto simp: starts_with_def) (metis append_take_drop_id)

lemma starts_with_longer: "starts_with s p \<Longrightarrow> starts_with (s @ t) p"
  by (auto simp: starts_with_iff)

lemma trim_space_idem [simp]: "trim_space (trim_space s) = trim_space s"
proof -
  let ?f = "strip_front space_encodings" and ?b = "strip_front (map rev space_encodings)"
  obtain t where t: "rev (?f s) = t @ ?b (rev (?f s))" using strip_front_suffix by blast
  then have fs: "?f s = trim_space s @ rev t" unfolding trim_space_def by (metis rev_append rev_rev_ident)
  have "?f (trim_space s) = trim_space s"
  proof (rule strip_front_none)
    show "\<not> starts_with (trim_space s) p \<or> p = []" if "p \<in> set space_encodings" for p
      using strip_front_fixed [OF that, of s] starts_with_longer [of "trim_space s" p "rev t"] unfolding fs by blast
  qed
  moreover have "?b (rev (trim_space s)) = rev (trim_space s)"
    unfolding trim_space_def rev_rev_ident
    by (rule strip_front_none) (use strip_front_fixed [of _ "map rev space_encodings"] in blast)
  ultimately show ?thesis by (simp add: trim_space_def)
qed

section \<open>Splitting and joining\<close>

text \<open>\<^verbatim>\<open>strings.Split\<close> at a single byte, \<^verbatim>\<open>strings.Join\<close>, \<^verbatim>\<open>strings.Cut\<close>.\<close>

fun split_byte :: "char \<Rightarrow> string \<Rightarrow> string list" where
  "split_byte c [] = [[]]"
| "split_byte c (x # xs) =
     (if x = c then [] # split_byte c xs
      else (case split_byte c xs of [] \<Rightarrow> [[x]] | y # ys \<Rightarrow> (x # y) # ys))"

fun go_join :: "string \<Rightarrow> string list \<Rightarrow> string" where
  "go_join sep [] = []"
| "go_join sep [x] = x"
| "go_join sep (x # y # ys) = x @ sep @ go_join sep (y # ys)"

fun cut_byte :: "char \<Rightarrow> string \<Rightarrow> (string \<times> string) option" where
  "cut_byte c [] = None"
| "cut_byte c (x # xs) =
     (if x = c then Some ([], xs)
      else (case cut_byte c xs of None \<Rightarrow> None | Some (a, b) \<Rightarrow> Some (x # a, b)))"

text \<open>A value between single quotes, as the messages of the server show it.\<close>

definition quoted :: "string \<Rightarrow> string" where
  "quoted s = CHR 0x27 # s @ [CHR 0x27]"

definition has_prefix :: "string \<Rightarrow> string \<Rightarrow> bool" where
  "has_prefix s p = starts_with s p"

lemma split_byte_ne [simp]: "split_byte c s \<noteq> []"
  by (induction s) (auto split: list.splits)

lemma split_byte_free: "c \<notin> set s \<Longrightarrow> split_byte c s = [s]"
  by (induction s) auto

lemma split_byte_append: "c \<notin> set s \<Longrightarrow> split_byte c (s @ c # t) = s # split_byte c t"
  by (induction s) auto

lemma split_byte_pieces: "x \<in> set (split_byte c s) \<Longrightarrow> c \<notin> set x"
  by (induction s arbitrary: x) (auto split: list.splits if_splits)

lemma split_byte_join: "go_join [c] (split_byte c s) = s"
proof (induction s)
  case (Cons x xs)
  obtain y ys where ys: "split_byte c xs = y # ys"
    by (meson list.exhaust split_byte_ne)
  with Cons show ?case by (cases ys) auto
qed simp

lemma cut_byte_append: "c \<notin> set a \<Longrightarrow> cut_byte c (a @ c # b) = Some (a, b)"
  by (induction a) auto

lemma cut_byte_SomeD: "cut_byte c s = Some (a, b) \<Longrightarrow> s = a @ c # b \<and> c \<notin> set a"
  by (induction s arbitrary: a) (auto split: if_splits option.splits)

lemma cut_byte_None: "cut_byte c s = None \<longleftrightarrow> c \<notin> set s"
  by (induction s) (auto split: option.splits)

text \<open>
  Splitting a joined list at the comma and trimming the pieces gives the list back, when no entry
  holds a comma and every entry is trimmed already: how addresses and routes are stored and read.
\<close>

definition clean_entry :: "string \<Rightarrow> bool" where
  "clean_entry s = (s \<noteq> [] \<and> list_all (\<lambda>c. graphic c \<and> c \<noteq> CHR '','') s)"

lemma clean_entryD:
  assumes "clean_entry s"
  shows "s \<noteq> []" "CHR '','' \<notin> set s" "trim_space s = s"
proof -
  show ne: "s \<noteq> []" using assms by (simp add: clean_entry_def)
  show "CHR '','' \<notin> set s" using assms by (auto simp: clean_entry_def list_all_iff)
  have "graphic (hd s) \<and> graphic (last s)"
    using assms ne by (simp add: clean_entry_def list_all_iff)
  then show "trim_space s = s" by (intro trim_space_graphic disjI2)
qed

lemma split_comma_join:
  assumes "xs \<noteq> []" "\<And>x. x \<in> set xs \<Longrightarrow> clean_entry x"
  shows "map trim_space (split_byte CHR '','' (go_join '', '' xs)) = xs"
  using assms
proof (induction xs rule: induct_list012)
  case (2 x)
  then show ?case by (auto simp: split_byte_free clean_entryD)
next
  case (3 x y zs)
  define t where "t = go_join '', '' (y # zs)"
  obtain u us where u: "split_byte CHR '','' t = u # us" by (meson list.exhaust split_byte_ne)
  have IH: "map trim_space (split_byte CHR '','' t) = y # zs"
    unfolding t_def by (rule "3.IH"(2)) (use "3.prems" in auto)
  have x: "CHR '','' \<notin> set x" "trim_space x = x" using "3.prems"(2) [of x] by (simp_all add: clean_entryD)
  have "go_join '', '' (x # y # zs) = x @ CHR '','' # CHR '' '' # t" by (simp add: t_def)
  then have "split_byte CHR '','' (go_join '', '' (x # y # zs)) = x # (CHR '' '' # u) # us"
    by (simp only: split_byte_append [OF x(1)] split_byte.simps u) simp
  then show ?case using IH u x by (simp add: trim_space_blank)
qed simp

section \<open>Decimal and hexadecimal numbers\<close>

definition digit :: "nat \<Rightarrow> char" where
  "digit n = (if n < 10 then char_of (48 + n) else char_of (87 + n))"

fun to_base :: "nat \<Rightarrow> nat \<Rightarrow> string" where
  "to_base b n = (if n < b \<or> b < 2 then [digit n] else to_base b (n div b) @ [digit (n mod b)])"

declare to_base.simps [simp del]

definition itoa :: "nat \<Rightarrow> string" where "itoa n = to_base 10 n"
definition hex_of :: "nat \<Rightarrow> string" where "hex_of n = to_base 16 n"

definition is_dec :: "char \<Rightarrow> bool" where
  "is_dec c = (48 \<le> byte c \<and> byte c \<le> 57)"

definition dec_val :: "char \<Rightarrow> nat" where "dec_val c = byte c - 48"

definition hex_val :: "char \<Rightarrow> nat option" where
  "hex_val c =
     (if 48 \<le> byte c \<and> byte c \<le> 57 then Some (byte c - 48)
      else if 97 \<le> byte c \<and> byte c \<le> 102 then Some (byte c - 87)
      else if 65 \<le> byte c \<and> byte c \<le> 70 then Some (byte c - 55)
      else None)"

lemma byte_char_of [simp]: "n < 256 \<Longrightarrow> byte (char_of n) = n"
  by (simp add: byte_def)

lemma byte_digit:
  "n < 10 \<Longrightarrow> byte (digit n) = 48 + n" "10 \<le> n \<Longrightarrow> n < 16 \<Longrightarrow> byte (digit n) = 87 + n"
  by (simp_all add: digit_def)

lemma digit_dec [simp]:
  "n < 10 \<Longrightarrow> is_dec (digit n)" "n < 10 \<Longrightarrow> dec_val (digit n) = n"
  by (simp_all add: is_dec_def dec_val_def byte_digit)

lemma digit_hex [simp]: "n < 16 \<Longrightarrow> hex_val (digit n) = Some n"
  by (cases "n < 10") (simp_all add: hex_val_def byte_digit)

lemma digit_graphic [simp]: "n < 16 \<Longrightarrow> graphic (digit n)"
  by (cases "n < 10") (simp_all add: graphic_def byte_digit)

lemma to_base_ne [simp]: "to_base b n \<noteq> []"
  by (subst to_base.simps) simp

lemma to_base_digits:
  "2 \<le> b \<Longrightarrow> c \<in> set (to_base b n) \<Longrightarrow> \<exists>d < b. c = digit d"
proof (induction b n rule: to_base.induct)
  case (1 b n)
  show ?case
  proof (cases "n < b")
    case True
    with "1.prems" show ?thesis by (auto simp: to_base.simps [of b n])
  next
    case False
    with "1.prems" have "c \<in> set (to_base b (n div b)) \<or> c = digit (n mod b)"
      by (auto simp: to_base.simps [of b n])
    then show ?thesis
    proof
      assume "c = digit (n mod b)"
      moreover have "n mod b < b" using "1.prems" by simp
      ultimately show ?thesis by blast
    qed (use False "1.IH" "1.prems" in auto)
  qed
qed

end
