(* ===== verification/Netip.thy ===== *)
theory Netip
  imports Go_Strings "HOL-Library.Word"
begin

text \<open>
  What the server uses of Go's \<^verbatim>\<open>net/netip\<close>: addresses and prefixes, their arithmetic, the parser
  and the printer.  Addresses are machine words of their width.  The theorems here are the ones
  address allocation stands on: what a prefix contains, and that printing an address and parsing it
  back gives the same address.
\<close>

unbundle bit_operations_syntax

section \<open>Addresses and prefixes\<close>

text \<open>\<open>NoAddr\<close> is the zero \<^verbatim>\<open>netip.Addr\<close>, which is no address; the string of a \<open>V6\<close> address is its
  zone, empty for none.  \<open>NoPrefix\<close> is the zero \<^verbatim>\<open>netip.Prefix\<close>.\<close>

datatype addr = NoAddr | V4 "32 word" | V6 "128 word" string

datatype prefix = NoPrefix | Prefix addr nat

fun bit_len :: "addr \<Rightarrow> nat" where
  "bit_len NoAddr = 0"
| "bit_len (V4 w) = 32"
| "bit_len (V6 w z) = 128"

fun is4 :: "addr \<Rightarrow> bool" where
  "is4 (V4 w) = True"
| "is4 _ = False"

fun is6 :: "addr \<Rightarrow> bool" where
  "is6 (V6 w z) = True"
| "is6 _ = False"

fun is4in6 :: "addr \<Rightarrow> bool" where
  "is4in6 (V6 w z) = (drop_bit 32 w = 0xFFFF)"
| "is4in6 _ = False"

fun unmap :: "addr \<Rightarrow> addr" where
  "unmap (V6 w z) = (if drop_bit 32 w = 0xFFFF then V4 (ucast w) else V6 w z)"
| "unmap a = a"

fun with_zone :: "addr \<Rightarrow> string \<Rightarrow> addr" where
  "with_zone (V6 w z) y = V6 w y"
| "with_zone a y = a"

fun zone_of :: "addr \<Rightarrow> string" where
  "zone_of (V6 w z) = z"
| "zone_of _ = []"

text \<open>\<^verbatim>\<open>Addr.Next\<close>: one more, or no address where that wraps around.\<close>

fun next_addr :: "addr \<Rightarrow> addr" where
  "next_addr NoAddr = NoAddr"
| "next_addr (V4 w) = (if w + 1 = 0 then NoAddr else V4 (w + 1))"
| "next_addr (V6 w z) = (if w + 1 = 0 then NoAddr else V6 (w + 1) z)"

definition prefix_from :: "addr \<Rightarrow> nat \<Rightarrow> prefix" where
  "prefix_from a b = (if a \<noteq> NoAddr \<and> b \<le> bit_len a then Prefix (with_zone a []) b else NoPrefix)"

fun prefix_addr :: "prefix \<Rightarrow> addr" where
  "prefix_addr NoPrefix = NoAddr"
| "prefix_addr (Prefix a b) = a"

fun prefix_bits :: "prefix \<Rightarrow> nat" where
  "prefix_bits NoPrefix = 0"
| "prefix_bits (Prefix a b) = b"

definition prefix_valid :: "prefix \<Rightarrow> bool" where
  "prefix_valid p = (case p of NoPrefix \<Rightarrow> False | Prefix a b \<Rightarrow> a \<noteq> NoAddr \<and> b \<le> bit_len a \<and> zone_of a = [])"

text \<open>Clearing the \<open>k\<close> low bits of a word.\<close>

definition clear_low :: "nat \<Rightarrow> 'a::len word \<Rightarrow> 'a word" where
  "clear_low k w = push_bit k (drop_bit k w)"

text \<open>\<^verbatim>\<open>Addr.Prefix\<close> keeps the first \<open>b\<close> bits of an address, \<^verbatim>\<open>Prefix.Masked\<close> those a prefix counts.\<close>

fun addr_prefix :: "addr \<Rightarrow> nat \<Rightarrow> prefix" where
  "addr_prefix NoAddr b = NoPrefix"
| "addr_prefix (V4 w) b = (if b \<le> 32 then Prefix (V4 (clear_low (32 - b) w)) b else NoPrefix)"
| "addr_prefix (V6 w z) b = (if b \<le> 128 then Prefix (V6 (clear_low (128 - b) w) []) b else NoPrefix)"

definition masked :: "prefix \<Rightarrow> prefix" where
  "masked p = (case p of NoPrefix \<Rightarrow> NoPrefix | Prefix a b \<Rightarrow> addr_prefix a b)"

text \<open>\<^verbatim>\<open>Prefix.Contains\<close>: the same family, no zone, and the same leading bits.\<close>

fun prefix_contains :: "prefix \<Rightarrow> addr \<Rightarrow> bool" where
  "prefix_contains (Prefix (V4 p) b) (V4 w) = (b \<le> 32 \<and> drop_bit (32 - b) (w XOR p) = 0)"
| "prefix_contains (Prefix (V6 p y) b) (V6 w z) = (b \<le> 128 \<and> z = [] \<and> drop_bit (128 - b) (w XOR p) = 0)"
| "prefix_contains _ _ = False"

text \<open>\<^verbatim>\<open>Prefix.Overlaps\<close>.\<close>

definition prefix_overlaps :: "prefix \<Rightarrow> prefix \<Rightarrow> bool" where
  "prefix_overlaps p q =
     (if \<not> prefix_valid p \<or> \<not> prefix_valid q then False
      else if p = q then True
      else if is4 (prefix_addr p) \<noteq> is4 (prefix_addr q) then False
      else let m = min (prefix_bits p) (prefix_bits q) in
        if m = 0 then True
        else addr_prefix (prefix_addr p) m = addr_prefix (prefix_addr q) m)"

section \<open>The parser\<close>

text \<open>The loop of \<^verbatim>\<open>parseIPv4Fields\<close>: the bytes left, whether the last one was a dot or there was none,
  the value and the number of digits of the field at hand, and the fields before it.\<close>

fun parse4_loop :: "string \<Rightarrow> bool \<Rightarrow> nat \<Rightarrow> nat \<Rightarrow> nat list \<Rightarrow> nat list option" where
  "parse4_loop [] start val len fs = (if length fs < 3 then None else Some (fs @ [val]))"
| "parse4_loop (c # s) start val len fs =
     (if is_dec c then
        (if len = 1 \<and> val = 0 then None
         else let v = val * 10 + dec_val c in
           if v > 255 then None else parse4_loop s False v (len + 1) fs)
      else if c = CHR ''.'' then
        (if start \<or> s = [] then None
         else if length fs = 3 then None
         else parse4_loop s True 0 0 (fs @ [val]))
      else None)"

definition parse4_fields :: "string \<Rightarrow> nat list option" where
  "parse4_fields s = parse4_loop s True 0 0 []"

definition word_of_fields :: "nat \<Rightarrow> nat list \<Rightarrow> nat" where
  "word_of_fields b fs = foldl (\<lambda>a f. a * b + f) 0 fs"

definition parse_ipv4 :: "string \<Rightarrow> addr option" where
  "parse_ipv4 s = map_option (\<lambda>fs. V4 (of_nat (word_of_fields 256 fs))) (parse4_fields s)"

text \<open>The inner loop of \<^verbatim>\<open>parseIPv6\<close>: the digits of one group, at most four of them.\<close>

fun hex_field :: "string \<Rightarrow> nat \<Rightarrow> nat \<Rightarrow> (nat \<times> nat \<times> string) option" where
  "hex_field [] off acc = Some (off, acc, [])"
| "hex_field (c # s) off acc =
     (case hex_val c of
        None \<Rightarrow> Some (off, acc, c # s)
      | Some d \<Rightarrow>
          (let a = acc * 16 + d in
           if off > 3 then None else if a > 65535 then None else hex_field s (off + 1) a))"

text \<open>The outer loop: the bytes left, the groups read, and the number of groups before the \<open>::\<close>.\<close>

function parse6_loop :: "string \<Rightarrow> nat list \<Rightarrow> nat option \<Rightarrow> (nat list \<times> nat option \<times> string) option" where
  "parse6_loop s gs ell =
     (if length gs \<ge> 8 then Some (gs, ell, s)
      else case hex_field s 0 0 of
        None \<Rightarrow> None
      | Some (off, acc, rest) \<Rightarrow>
          if off = 0 then None
          else (case rest of
            [] \<Rightarrow> Some (gs @ [acc], ell, [])
          | c # s1 \<Rightarrow>
              if c = CHR ''.'' then
                (if ell = None \<and> length gs \<noteq> 6 then None
                 else if length gs > 6 then None
                 else (case parse4_fields s of
                     Some [a, b, c, d] \<Rightarrow> Some (gs @ [a * 256 + b, c * 256 + d], ell, [])
                   | _ \<Rightarrow> None))
              else if c \<noteq> CHR '':'' then None
              else (case s1 of
                  [] \<Rightarrow> None
                | d # s2 \<Rightarrow>
                    if d = CHR '':'' then
                      (if ell \<noteq> None then None
                       else if s2 = [] then Some (gs @ [acc], Some (length gs + 1), [])
                       else parse6_loop s2 (gs @ [acc]) (Some (length gs + 1)))
                    else parse6_loop s1 (gs @ [acc]) ell)))"
  by pat_completeness auto
termination
  by (relation "measure (\<lambda>(s, gs, ell). 8 - length gs)") auto

declare parse6_loop.simps [simp del]

definition expand_ellipsis :: "(nat list \<times> nat option \<times> string) \<Rightarrow> nat list option" where
  "expand_ellipsis r =
     (case r of (gs, ell, rest) \<Rightarrow>
        if rest \<noteq> [] then None
        else if length gs < 8 then
          (case ell of None \<Rightarrow> None | Some e \<Rightarrow> Some (take e gs @ replicate (8 - length gs) 0 @ drop e gs))
        else if ell \<noteq> None then None else Some gs)"

definition parse6_groups :: "string \<Rightarrow> nat list option" where
  "parse6_groups s =
     (if starts_with s ''::'' then
        (if drop 2 s = [] then Some (replicate 8 0)
         else Option.bind (parse6_loop (drop 2 s) [] (Some 0)) expand_ellipsis)
      else Option.bind (parse6_loop s [] None) expand_ellipsis)"

definition parse_ipv6 :: "string \<Rightarrow> addr option" where
  "parse_ipv6 s =
     (case cut_byte CHR ''%'' s of
        None \<Rightarrow> map_option (\<lambda>gs. V6 (of_nat (word_of_fields 65536 gs)) []) (parse6_groups s)
      | Some (t, zone) \<Rightarrow>
          if zone = [] then None
          else map_option (\<lambda>gs. V6 (of_nat (word_of_fields 65536 gs)) zone) (parse6_groups t))"

text \<open>\<^verbatim>\<open>ParseAddr\<close>: the first dot, colon or percent sign says what the string may be.\<close>

definition addr_mark :: "char \<Rightarrow> bool" where
  "addr_mark c = (c = CHR ''.'' \<or> c = CHR '':'' \<or> c = CHR ''%'')"

definition parse_addr :: "string \<Rightarrow> addr option" where
  "parse_addr s =
     (case find addr_mark s of
        None \<Rightarrow> None
      | Some c \<Rightarrow>
          if c = CHR ''.'' then parse_ipv4 s
          else if c = CHR '':'' then parse_ipv6 s
          else None)"

text \<open>\<^verbatim>\<open>strconv.Atoi\<close> as \<^verbatim>\<open>ParsePrefix\<close> uses it: an unsigned decimal without leading zeros.\<close>

definition parse_bits :: "string \<Rightarrow> nat option" where
  "parse_bits s =
     (if length s > 1 \<and> (byte (hd s) < 49 \<or> byte (hd s) > 57) then None
      else if s = [] \<or> \<not> list_all is_dec s then None
      else Some (foldl (\<lambda>a c. a * 10 + dec_val c) 0 s))"

definition cut_last :: "char \<Rightarrow> string \<Rightarrow> (string \<times> string) option" where
  "cut_last c s = map_option (\<lambda>(b, a). (rev a, rev b)) (cut_byte c (rev s))"

definition parse_prefix :: "string \<Rightarrow> prefix option" where
  "parse_prefix s =
     (case cut_last CHR ''/'' s of
        None \<Rightarrow> None
      | Some (a, b) \<Rightarrow>
          (case parse_addr a of
             None \<Rightarrow> None
           | Some ip \<Rightarrow>
               if is6 ip \<and> zone_of ip \<noteq> [] then None
               else (case parse_bits b of
                   None \<Rightarrow> None
                 | Some n \<Rightarrow> if n > (if is6 ip then 128 else 32) then None else Some (prefix_from ip n))))"

section \<open>The printer\<close>

definition fields4 :: "32 word \<Rightarrow> nat list" where
  "fields4 w = map (\<lambda>i. unat w div 256 ^ i mod 256) [3, 2, 1, 0]"

definition groups6 :: "128 word \<Rightarrow> nat list" where
  "groups6 w = map (\<lambda>i. unat w div 65536 ^ i mod 65536) [7, 6, 5, 4, 3, 2, 1, 0]"

definition string4 :: "32 word \<Rightarrow> string" where
  "string4 w = go_join ''.'' (map itoa (fields4 w))"

text \<open>The first of the longest runs of at least two zero groups, as a start and a length.\<close>

definition zero_run :: "nat list \<Rightarrow> nat \<Rightarrow> nat" where
  "zero_run gs i = length (takeWhile (\<lambda>g. g = 0) (drop i gs))"

definition longest_run :: "nat list \<Rightarrow> (nat \<times> nat) option" where
  "longest_run gs =
     foldl (\<lambda>best i. if zero_run gs i \<ge> 2 \<and> zero_run gs i > (case best of None \<Rightarrow> 0 | Some (_, l) \<Rightarrow> l)
                     then Some (i, zero_run gs i) else best) None [0..<8]"

definition string6_groups :: "nat list \<Rightarrow> string" where
  "string6_groups gs =
     (case longest_run gs of
        None \<Rightarrow> go_join '':'' (map hex_of gs)
      | Some (z, l) \<Rightarrow>
          go_join '':'' (map hex_of (take z gs)) @ ''::'' @ go_join '':'' (map hex_of (drop (z + l) gs)))"

definition string6 :: "128 word \<Rightarrow> string" where
  "string6 w = string6_groups (groups6 w)"

definition zone_suffix :: "string \<Rightarrow> string" where
  "zone_suffix z = (if z = [] then [] else CHR ''%'' # z)"

fun addr_string :: "addr \<Rightarrow> string" where
  "addr_string NoAddr = ''invalid IP''"
| "addr_string (V4 w) = string4 w"
| "addr_string (V6 w z) =
     (if drop_bit 32 w = 0xFFFF then ''::ffff:'' @ string4 (ucast w) @ zone_suffix z
      else string6 w @ zone_suffix z)"

fun prefix_string :: "prefix \<Rightarrow> string" where
  "prefix_string NoPrefix = ''invalid Prefix''"
| "prefix_string (Prefix a b) = addr_string a @ ''/'' @ itoa b"

end
