(* ===== verification/Netip_Lemmas.thy ===== *)
theory Netip_Lemmas
  imports Netip
begin

text \<open>
  What the server relies on of addresses and prefixes: an address and a prefix survive being printed
  and parsed back (that is how they are stored in a device), a printed prefix is an entry of a
  comma-separated list, and two prefixes overlap exactly when some address lies in both.
\<close>

unbundle bit_operations_syntax

section \<open>Numbers and their digits\<close>

lemma to_base_small: "n < b \<Longrightarrow> to_base b n = [digit n]"
  by (simp add: to_base.simps)

lemma to_base_step: "2 \<le> b \<Longrightarrow> b \<le> n \<Longrightarrow> to_base b n = to_base b (n div b) @ [digit (n mod b)]"
  by (subst to_base.simps) simp

lemma itoa_cases:
  assumes "f < 1000"
  obtains "f < 10" "itoa f = [digit f]"
  | "10 \<le> f" "f < 100" "itoa f = [digit (f div 10), digit (f mod 10)]"
  | "100 \<le> f" "itoa f = [digit (f div 100), digit (f div 10 mod 10), digit (f mod 10)]"
proof -
  consider "f < 10" | "10 \<le> f" "f < 100" | "100 \<le> f" by linarith
  then show thesis
  proof cases
    case 1
    then show thesis using that(1) by (simp add: itoa_def to_base_small)
  next
    case 2
    then show thesis using that(2) by (simp add: itoa_def to_base_small to_base_step)
  next
    case 3
    then have "itoa f = [digit (f div 10 div 10), digit (f div 10 mod 10), digit (f mod 10)]"
      using assms by (simp add: itoa_def to_base_small to_base_step)
    moreover have "f div 10 div 10 = f div 100" by (simp add: div_mult2_eq [symmetric])
    ultimately show thesis using 3 that(3) by simp
  qed
qed

lemma itoa_dec: "c \<in> set (itoa n) \<Longrightarrow> is_dec c"
  using to_base_digits [of 10 c n] by (auto simp: itoa_def)

lemma hex_of_val: "c \<in> set (hex_of n) \<Longrightarrow> hex_val c \<noteq> None"
  using to_base_digits [of 16 c n] by (auto simp: hex_of_def)

lemma itoa_ne [simp]: "itoa n \<noteq> []" and hex_of_ne [simp]: "hex_of n \<noteq> []"
  by (simp_all add: itoa_def hex_of_def)

lemma to_base_inj: "to_base 10 m = to_base 10 n \<Longrightarrow> m = n"
proof (induction "10::nat" m arbitrary: n rule: to_base.induct)
  case (1 m)
  have dig: "a = b" if "digit a = digit b" "a < 10" "b < 10" for a b :: nat
    using arg_cong [OF that(1), of byte] that(2,3) by (simp add: digit_def)
  show ?case
  proof (cases "m < 10")
    case True
    then have "n < 10" using "1.prems" to_base_step [of 10 n] to_base_ne [of 10 "n div 10"] by (cases "n < 10") (auto simp: to_base_small)
    then show ?thesis using True "1.prems" by (auto simp: to_base_small intro: dig)
  next
    case False
    then have "\<not> n < 10" using "1.prems" to_base_step [of 10 m] to_base_ne [of 10 "m div 10"] by (auto simp: to_base_small)
    then have "to_base 10 (m div 10) = to_base 10 (n div 10)" "digit (m mod 10) = digit (n mod 10)"
      using "1.prems" False by (simp_all add: to_base_step)
    then have "m div 10 = n div 10" "m mod 10 = n mod 10"
      using "1.hyps" [of "n div 10"] False by (auto intro: dig)
    then show ?thesis by (metis div_mod_decomp)
  qed
qed

lemma itoa_inj: "itoa m = itoa n \<Longrightarrow> m = n"
  unfolding itoa_def by (rule to_base_inj)

lemma hex_cases:
  assumes "g < 65536"
  obtains "g < 16" "hex_of g = [digit g]"
  | "16 \<le> g" "g < 256" "hex_of g = [digit (g div 16), digit (g mod 16)]"
  | "256 \<le> g" "g < 4096" "hex_of g = [digit (g div 256), digit (g div 16 mod 16), digit (g mod 16)]"
  | "4096 \<le> g" "hex_of g = [digit (g div 4096), digit (g div 256 mod 16), digit (g div 16 mod 16), digit (g mod 16)]"
proof -
  consider "g < 16" | "16 \<le> g" "g < 256" | "256 \<le> g" "g < 4096" | "4096 \<le> g" by linarith
  then show thesis
  proof cases
    case 1
    then show thesis using that(1) by (simp add: hex_of_def to_base_small)
  next
    case 2
    then show thesis using that(2) by (simp add: hex_of_def to_base_small to_base_step)
  next
    case 3
    then have "hex_of g = [digit (g div 16 div 16), digit (g div 16 mod 16), digit (g mod 16)]"
      by (simp add: hex_of_def to_base_small to_base_step)
    then show thesis using 3 that(3) by (simp add: div_mult2_eq [symmetric])
  next
    case 4
    then have "hex_of g = [digit (g div 16 div 16 div 16), digit (g div 16 div 16 mod 16),
        digit (g div 16 mod 16), digit (g mod 16)]"
      using assms by (simp add: hex_of_def to_base_small to_base_step)
    then show thesis using 4 that(4) by (simp add: div_mult2_eq [symmetric])
  qed
qed

lemma foldl_fields:
  "foldl (\<lambda>a f. a * b + f) a (map (\<lambda>i. n div b ^ i mod b) (rev [0..<k])) = a * b ^ k + n mod b ^ k"
  for b :: nat
proof (induction k arbitrary: a)
  case (Suc k)
  have "n mod (b ^ k * b) = b ^ k * (n div b ^ k mod b) + n mod b ^ k"
    by (rule mod_mult2_eq)
  with Suc show ?case by (simp add: algebra_simps)
qed simp

lemma unat_bound32: "unat w < 2 ^ 32" for w :: "32 word"
  using unsigned_less [where 'a = nat, of w] by simp

lemma unat_bound128: "unat w < 2 ^ 128" for w :: "128 word"
  using unsigned_less [where 'a = nat, of w] by simp

lemma word_of_fields4 [simp]: "word_of_fields 256 (fields4 w) = unat w"
proof -
  have "rev [0..<4] = [3, 2, 1, 0 :: nat]" by code_simp
  then have "word_of_fields 256 (fields4 w) = unat w mod 256 ^ 4"
    unfolding fields4_def word_of_fields_def
    using foldl_fields [of 256 0 "unat w" 4] by simp
  moreover have "unat w < 256 ^ 4" using unat_bound32 [of w] by simp
  ultimately show ?thesis by simp
qed

lemma word_of_groups6 [simp]: "word_of_fields 65536 (groups6 w) = unat w"
proof -
  have "rev [0..<8] = [7, 6, 5, 4, 3, 2, 1, 0 :: nat]" by code_simp
  then have "word_of_fields 65536 (groups6 w) = unat w mod 65536 ^ 8"
    unfolding groups6_def word_of_fields_def
    using foldl_fields [of 65536 0 "unat w" 8] by simp
  moreover have "unat w < 65536 ^ 8" using unat_bound128 [of w] by simp
  ultimately show ?thesis by simp
qed

lemma fields4_bound: "f \<in> set (fields4 w) \<Longrightarrow> f < 256"
  by (auto simp: fields4_def)

lemma groups6_bound: "g \<in> set (groups6 w) \<Longrightarrow> g < 65536"
  by (auto simp: groups6_def)

lemma length_groups6 [simp]: "length (groups6 w) = 8"
  by (simp add: groups6_def)

lemma groups6_ne [simp]: "groups6 w \<noteq> []"
  by (simp add: groups6_def)

section \<open>IPv4\<close>

lemma parse4_itoa:
  assumes "f < 256"
  shows "parse4_loop (itoa f @ rest) st 0 0 fs = parse4_loop rest False f (length (itoa f)) fs"
proof -
  have "f < 1000" using assms by simp
  then show ?thesis
  proof (cases rule: itoa_cases)
    case 3
    have "f div 100 < 10" using assms by simp
    moreover have "f div 100 * 10 + f div 10 mod 10 = f div 10"
      using div_mult_mod_eq [of "f div 10" 10] by (simp add: div_mult2_eq [symmetric])
    moreover have "f div 10 * 10 + f mod 10 = f" by simp
    moreover have "\<not> 255 < f div 10" "f div 100 \<noteq> 0" using assms 3 by auto
    ultimately show ?thesis using 3 assms by (simp add: Let_def)
  qed (use assms in \<open>auto simp: Let_def\<close>)
qed

lemma not_dec_dot: "\<not> is_dec CHR ''.''" "\<not> is_dec CHR '':''" "\<not> is_dec CHR ''/''" "\<not> is_dec CHR ''%''"
  by (code_simp)+

lemma parse4_dot:
  "s \<noteq> [] \<Longrightarrow> length fs < 3 \<Longrightarrow>
     parse4_loop (CHR ''.'' # s) False v n fs = parse4_loop s True 0 0 (fs @ [v])"
  by (simp add: not_dec_dot)

lemma parse4_string4: "parse4_fields (string4 w) = Some (fields4 w)"
proof -
  obtain a b c d where f: "fields4 w = [a, b, c, d]" by (simp add: fields4_def)
  have bound: "a < 256" "b < 256" "c < 256" "d < 256"
    using fields4_bound [of _ w] f by auto
  have "string4 w = itoa a @ CHR ''.'' # itoa b @ CHR ''.'' # itoa c @ CHR ''.'' # itoa d @ []"
    by (simp add: string4_def f)
  then show ?thesis
    unfolding parse4_fields_def
    by (simp only: parse4_itoa [OF bound(1)] parse4_itoa [OF bound(2)] parse4_itoa [OF bound(3)]
        parse4_itoa [OF bound(4)]) (simp add: parse4_dot parse4_itoa bound f
        del: parse4_loop.simps(2) append_Nil2)
qed

lemma parse_ipv4_string4: "parse_ipv4 (string4 w) = Some (V4 w)"
  by (simp add: parse_ipv4_def parse4_string4)

section \<open>IPv6\<close>

lemma hex_val_colon: "hex_val CHR '':'' = None" "hex_val CHR ''.'' = None"
  by (code_simp)+

text \<open>The digits of a group are read up to the first byte that is none.\<close>

lemma hex_field_hex_of:
  assumes g: "g < 65536" and rest: "rest = [] \<or> hex_val (hd rest) = None"
  shows "hex_field (hex_of g @ rest) 0 0 = Some (length (hex_of g), g, rest)"
proof -
  have stop: "hex_field rest n a = Some (n, a, rest)" for n a
    using rest by (cases rest) auto
  have arith: "(g div 4096 * 16 + g div 256 mod 16) = g div 256"
     "g div 256 * 16 + g div 16 mod 16 = g div 16" "g div 16 * 16 + g mod 16 = g"
    using div_mult_mod_eq [of "g div 256" 16] div_mult_mod_eq [of "g div 16" 16]
    by (simp_all add: div_mult2_eq [symmetric])
  from g show ?thesis
  proof (cases rule: hex_cases)
    case 4
    have "g div 256 \<le> 65535" "g div 16 \<le> 65535" "g div 4096 < 16" using g by auto
    with 4 g arith stop show ?thesis by (simp add: Let_def)
  next
    case 3
    have "g div 16 \<le> 65535" "g div 256 < 16" using g 3 by auto
    with 3 g arith stop show ?thesis by (simp add: Let_def)
  qed (use g stop arith in \<open>auto simp: Let_def\<close>)
qed

lemma hd_hex_of: "hex_val (hd (hex_of g)) \<noteq> None"
  using hex_of_val [of "hd (hex_of g)" g] by simp

lemma hex_of_hd_not: "hex_of g = c # s \<Longrightarrow> c \<noteq> CHR '':'' \<and> c \<noteq> CHR ''.'' "
  using hd_hex_of [of g] hex_val_colon by auto

lemma parse6_colon:
  assumes "g < 65536" "length gs < 8" "s \<noteq> []" "hd s \<noteq> CHR '':''"
  shows "parse6_loop (hex_of g @ CHR '':'' # s) gs ell = parse6_loop s (gs @ [g]) ell"
  using assms hex_field_hex_of [of g "CHR '':'' # s"]
  by (subst parse6_loop.simps) (cases s; simp add: hex_val_colon)

lemma parse6_ellipsis:
  assumes "g < 65536" "length gs < 8" "s \<noteq> []"
  shows "parse6_loop (hex_of g @ CHR '':'' # CHR '':'' # s) gs None =
           parse6_loop s (gs @ [g]) (Some (length gs + 1))"
  using assms hex_field_hex_of [of g "CHR '':'' # CHR '':'' # s"]
  by (subst parse6_loop.simps) (simp add: hex_val_colon)

lemma parse6_ellipsis_end:
  assumes "g < 65536" "length gs < 8"
  shows "parse6_loop (hex_of g @ ''::'') gs None = Some (gs @ [g], Some (length gs + 1), [])"
  using assms hex_field_hex_of [of g "''::''"]
  by (subst parse6_loop.simps) (simp add: hex_val_colon)

lemma parse6_end:
  assumes "g < 65536" "length gs < 8"
  shows "parse6_loop (hex_of g) gs ell = Some (gs @ [g], ell, [])"
  using assms hex_field_hex_of [of g "[]"]
  by (subst parse6_loop.simps) simp

lemma hd_join_hex: "xs \<noteq> [] \<Longrightarrow> hd (go_join '':'' (map hex_of xs) @ s) = hd (hex_of (hd xs))"
  by (induction xs rule: induct_list012) auto

lemma join_hex_ne: "xs \<noteq> [] \<Longrightarrow> go_join '':'' (map hex_of xs) \<noteq> []"
  by (induction xs rule: induct_list012) auto

lemma hd_join_not_colon: "xs \<noteq> [] \<Longrightarrow> hd (go_join '':'' (map hex_of xs) @ s) \<noteq> CHR '':''"
  using hd_join_hex hd_hex_of hex_val_colon by metis

text \<open>A list of groups without an ellipsis.\<close>

lemma parse6_groups_list:
  assumes "xs \<noteq> []" "\<forall>x \<in> set xs. x < 65536" "length gs + length xs \<le> 8"
  shows "parse6_loop (go_join '':'' (map hex_of xs)) gs ell = Some (gs @ xs, ell, [])"
  using assms
proof (induction xs arbitrary: gs rule: induct_list012)
  case (2 x)
  then show ?case by (simp add: parse6_end)
next
  case (3 x y zs)
  have "parse6_loop (hex_of x @ CHR '':'' # go_join '':'' (map hex_of (y # zs))) gs ell
      = parse6_loop (go_join '':'' (map hex_of (y # zs))) (gs @ [x]) ell"
    using 3 hd_join_not_colon [of "y # zs" "[]"] join_hex_ne [of "y # zs"]
    by (intro parse6_colon) simp_all
  also have "\<dots> = Some ((gs @ [x]) @ y # zs, ell, [])"
    using 3 by (intro "3.IH"(2)) auto
  finally show ?case by simp
qed simp

text \<open>Groups, an ellipsis and the groups after it.\<close>

lemma parse6_groups_ellipsis:
  assumes "xs \<noteq> []" "\<forall>x \<in> set xs. x < 65536" "\<forall>y \<in> set ys. y < 65536"
    and "length gs + length xs + length ys \<le> 8"
  shows "parse6_loop (go_join '':'' (map hex_of xs) @ ''::'' @ go_join '':'' (map hex_of ys)) gs None
     = Some (gs @ xs @ ys, Some (length gs + length xs), [])"
  using assms
proof (induction xs arbitrary: gs rule: induct_list012)
  case (2 x)
  show ?case
  proof (cases "ys = []")
    case True
    then show ?thesis using 2 parse6_ellipsis_end [of x gs] by simp
  next
    case False
    then have "parse6_loop (hex_of x @ CHR '':'' # CHR '':'' # go_join '':'' (map hex_of ys)) gs None
        = parse6_loop (go_join '':'' (map hex_of ys)) (gs @ [x]) (Some (length gs + 1))"
      using 2 join_hex_ne [of ys] by (intro parse6_ellipsis) auto
    also have "\<dots> = Some ((gs @ [x]) @ ys, Some (length gs + 1), [])"
      using 2 False by (intro parse6_groups_list) auto
    finally show ?thesis by simp
  qed
next
  case (3 x y zs)
  let ?t = "go_join '':'' (map hex_of (y # zs)) @ ''::'' @ go_join '':'' (map hex_of ys)"
  have "parse6_loop (hex_of x @ CHR '':'' # ?t) gs None = parse6_loop ?t (gs @ [x]) None"
    using 3 hd_join_not_colon [of "y # zs" "''::'' @ go_join '':'' (map hex_of ys)"]
    by (intro parse6_colon) simp_all
  also have "\<dots> = Some ((gs @ [x]) @ (y # zs) @ ys, Some (length (gs @ [x]) + length (y # zs)), [])"
    using 3 by (intro "3.IH"(2)) auto
  finally show ?case by simp
qed simp


lemma longest_run_foldl:
  assumes "\<And>i. i \<in> set is \<Longrightarrow> i < 8"
    and "case b of None \<Rightarrow> True | Some (z, l) \<Rightarrow> z < 8 \<and> 2 \<le> l \<and> l = zero_run gs z"
  shows "case foldl (\<lambda>best i. if zero_run gs i \<ge> 2 \<and> zero_run gs i > (case best of None \<Rightarrow> 0 | Some (_, l) \<Rightarrow> l)
                     then Some (i, zero_run gs i) else best) b is
     of None \<Rightarrow> True | Some (z, l) \<Rightarrow> z < 8 \<and> 2 \<le> l \<and> l = zero_run gs z"
  using assms
proof (induction "is" arbitrary: b)
  case (Cons i js)
  show ?case
    unfolding foldl_Cons
  proof (rule Cons.IH)
    show "case if 2 \<le> zero_run gs i \<and> (case b of None \<Rightarrow> 0 | Some (uu, l) \<Rightarrow> l) < zero_run gs i
        then Some (i, zero_run gs i) else b
      of None \<Rightarrow> True | Some (z, l) \<Rightarrow> z < 8 \<and> 2 \<le> l \<and> l = zero_run gs z"
      using Cons.prems by auto
  qed (use Cons.prems in auto)
qed simp

lemma longest_run_Some:
  assumes "longest_run gs = Some (z, l)" "length gs = 8"
  shows "2 \<le> l" "z + l \<le> 8" "gs = take z gs @ replicate l 0 @ drop (z + l) gs"
proof -
  have zl: "z < 8" "2 \<le> l" "l = zero_run gs z"
    using longest_run_foldl [of "[0..<8]" gs None] assms(1) by (auto simp: longest_run_def)
  let ?d = "drop z gs"
  have len: "l \<le> length ?d"
    using zl(3) length_takeWhile_le [of "\<lambda>g. g = 0" ?d] by (simp add: zero_run_def)
  then show "2 \<le> l" "z + l \<le> 8" using zl assms(2) by auto
  have "take l ?d = takeWhile (\<lambda>g. g = 0) ?d"
    using takeWhile_eq_take [of "\<lambda>g. g = 0" ?d] unfolding zl(3) zero_run_def by (rule sym)
  moreover have "takeWhile (\<lambda>g. g = 0) ?d = replicate l 0"
    using zl(3) by (intro replicate_eqI) (auto simp: zero_run_def dest: set_takeWhileD)
  ultimately have "?d = replicate l 0 @ drop l ?d"
    using append_take_drop_id [of l ?d] by simp
  then show "gs = take z gs @ replicate l 0 @ drop (z + l) gs"
    using append_take_drop_id [of z gs] by (simp add: add.commute)
qed

lemma starts_with_colons: "starts_with s ''::'' \<Longrightarrow> s \<noteq> [] \<and> hd s = CHR '':''"
  by (cases s) (auto simp: starts_with_def)

lemma parse6_groups_string6: "parse6_groups (string6 w) = Some (groups6 w)"
proof -
  let ?gs = "groups6 w"
  have b: "\<forall>x \<in> set ?gs. x < 65536" using groups6_bound by blast
  show ?thesis
  proof (cases "longest_run ?gs")
    case None
    then have s: "string6 w = go_join '':'' (map hex_of ?gs)" by (simp add: string6_def string6_groups_def)
    then have "\<not> starts_with (string6 w) ''::''"
      using starts_with_colons hd_join_not_colon [of ?gs "[]"] by fastforce
    with s b show ?thesis
      by (simp add: parse6_groups_def parse6_groups_list expand_ellipsis_def)
  next
    case (Some r)
    then obtain z l where zl: "longest_run ?gs = Some (z, l)" by (cases r) auto
    let ?xs = "take z ?gs" and ?ys = "drop (z + l) ?gs"
    note run = longest_run_Some [OF zl length_groups6]
    have s: "string6 w = go_join '':'' (map hex_of ?xs) @ ''::'' @ go_join '':'' (map hex_of ?ys)"
      using zl by (simp add: string6_def string6_groups_def Let_def)
    have bx: "\<forall>x \<in> set ?xs. x < 65536" and bnd_y: "\<forall>y \<in> set ?ys. y < 65536"
      using b by (auto dest: in_set_takeD in_set_dropD)
    have refill: "take z (?xs @ ?ys) @ replicate (8 - length (?xs @ ?ys)) 0 @ drop z (?xs @ ?ys) = ?gs"
      using run by (simp add: min_def)
    have short: "length (?xs @ ?ys) < 8" using run by simp
    show ?thesis
    proof (cases "z = 0")
      case True
      then have s0: "starts_with (string6 w) ''::''"
        and d: "drop 2 (string6 w) = go_join '':'' (map hex_of ?ys)"
        using s by (simp_all add: starts_with_def)
      show ?thesis
      proof (cases "?ys = []")
        case True
        then have "?gs = replicate 8 0" using run \<open>z = 0\<close> length_groups6 [of w] by simp
        with s0 d True show ?thesis by (simp add: parse6_groups_def)
      next
        case False
        then have "parse6_loop (go_join '':'' (map hex_of ?ys)) [] (Some 0) = Some (?ys, Some 0, [])"
          using parse6_groups_list [of ?ys "[]" "Some 0"] bnd_y run by simp
        with s0 d False refill short \<open>z = 0\<close> show ?thesis
          using join_hex_ne [of ?ys] by (simp add: parse6_groups_def expand_ellipsis_def)
      qed
    next
      case False
      then have ne: "?xs \<noteq> []" using length_groups6 [of w] by auto
      have "\<not> starts_with (string6 w) ''::''"
        using s starts_with_colons hd_join_not_colon [OF ne] by metis
      moreover have "parse6_loop (string6 w) [] None = Some (?xs @ ?ys, Some (length ?xs), [])"
        unfolding s using parse6_groups_ellipsis [OF ne bx bnd_y, of "[]"] run by simp
      moreover have "length ?xs = z" using run by simp
      ultimately show ?thesis
        using refill short by (simp add: parse6_groups_def expand_ellipsis_def)
    qed
  qed
qed


text \<open>An address mapped from IPv4 is printed with its last two groups in dotted form.\<close>

lemma hex_field_itoa:
  assumes "f < 256"
  shows "\<exists>n a. 0 < n \<and> hex_field (itoa f @ CHR ''.'' # s) 0 0 = Some (n, a, CHR ''.'' # s)"
proof -
  have "f < 1000" using assms by simp
  then show ?thesis
  proof (cases rule: itoa_cases)
    case 3
    have "f div 100 < 10" "f div 10 mod 10 < 10" "f mod 10 < 10" using assms by auto
    moreover have "\<not> 65535 < (x * 16 + y) * 16 + z" "\<not> 65535 < x * 16 + y"
      if "x < 10" "y < 10" "z < 10" for x y z :: nat
      using that by auto
    ultimately have "\<not> 65535 < (f div 100 * 16 + f div 10 mod 10) * 16 + f mod 10"
      "\<not> 65535 < f div 100 * 16 + f div 10 mod 10" by blast+
    with 3 \<open>f div 100 < 10\<close> show ?thesis by (simp add: Let_def hex_val_colon)
  qed (simp_all add: Let_def hex_val_colon)
qed

lemma parse6_mapped:
  assumes "gs = [65535]"
  shows "\<exists>a b c d. fields4 w = [a, b, c, d] \<and>
     parse6_loop (string4 w) gs (Some 0) = Some ([65535, a * 256 + b, c * 256 + d], Some 0, [])"
proof -
  obtain a b c d where f: "fields4 w = [a, b, c, d]" by (simp add: fields4_def)
  have bound: "a < 256" using fields4_bound [of a w] f by simp
  have s: "string4 w = itoa a @ CHR ''.'' # itoa b @ CHR ''.'' # itoa c @ CHR ''.'' # itoa d"
    by (simp add: string4_def f)
  then obtain n v t where "0 < n" "hex_field (string4 w) 0 0 = Some (n, v, CHR ''.'' # t)"
    using hex_field_itoa [OF bound] by metis
  then have "parse6_loop (string4 w) gs (Some 0) = Some ([65535, a * 256 + b, c * 256 + d], Some 0, [])"
    using assms by (subst parse6_loop.simps) (simp add: parse4_string4 f)
  with f show ?thesis by blast
qed

lemma dec_hex: "is_dec c \<Longrightarrow> hex_val c \<noteq> None"
  by (simp add: is_dec_def hex_val_def)

lemma string4_chars: "c \<in> set (string4 w) \<Longrightarrow> is_dec c \<or> c = CHR ''.''"
  by (auto simp: string4_def fields4_def dest: itoa_dec)

lemma string4_ne [simp]: "string4 w \<noteq> []"
  by (simp add: string4_def fields4_def)

lemma hd_string4: "is_dec (hd (string4 w))"
  by (simp add: string4_def fields4_def hd_append itoa_dec [OF hd_in_set])

lemma parse6_groups_mapped:
  "\<exists>a b c d. fields4 w = [a, b, c, d] \<and>
     parse6_groups (''::ffff:'' @ string4 w) = Some (replicate 5 0 @ [65535, a * 256 + b, c * 256 + d])"
proof -
  have h: "hex_of 65535 = ''ffff''" by code_simp
  have "parse6_loop (hex_of 65535 @ CHR '':'' # string4 w) [] (Some 0)
      = parse6_loop (string4 w) ([] @ [65535]) (Some 0)"
    using hd_string4 [of w] not_dec_dot by (intro parse6_colon) auto
  then obtain a b c d where f: "fields4 w = [a, b, c, d]"
    and p: "parse6_loop (''ffff:'' @ string4 w) [] (Some 0) = Some ([65535, a * 256 + b, c * 256 + d], Some 0, [])"
    using parse6_mapped [of "[65535]" w] h by auto
  have "drop 2 (''::ffff:'' @ string4 w) = ''ffff:'' @ string4 w" by simp
  moreover have "starts_with (''::ffff:'' @ string4 w) ''::''" by (simp add: starts_with_def)
  ultimately have "parse6_groups (''::ffff:'' @ string4 w)
      = Option.bind (parse6_loop (''ffff:'' @ string4 w) [] (Some 0)) expand_ellipsis"
    by (simp only: parse6_groups_def if_True) simp
  also have "\<dots> = Some (replicate 5 0 @ [65535, a * 256 + b, c * 256 + d])"
    by (simp only: p) (simp add: expand_ellipsis_def)
  finally show ?thesis using f by blast
qed

lemma mapped_value:
  assumes "drop_bit 32 w = (0xFFFF :: 128 word)"
  shows "unat w = 65535 * 2 ^ 32 + unat (ucast w :: 32 word)"
proof -
  have "unat (drop_bit 32 w) = unat w div 2 ^ 32"
    by (rule trans [OF unat_drop_bit_eq drop_bit_eq_div])
  then have "unat w div 2 ^ 32 = 65535" using assms by simp
  moreover have "unat (ucast w :: 32 word) = unat w mod 2 ^ 32"
    by (simp add: unsigned_ucast_eq take_bit_eq_mod)
  ultimately show ?thesis using div_mult_mod_eq [of "unat w" "2 ^ 32"] by simp
qed

lemma replicate_five: "replicate 5 (0 :: nat) = [0, 0, 0, 0, 0]"
  by code_simp

section \<open>Addresses\<close>

lemma string6_hd:
  "\<exists>ds t. string6 w = ds @ CHR '':'' # t \<and> (\<forall>c \<in> set ds. hex_val c \<noteq> None)"
proof -
  let ?gs = "groups6 w"
  have hx: "\<forall>c \<in> set (hex_of g). hex_val c \<noteq> None" for g using hex_of_val by blast
  have cut: "\<exists>ds t. go_join '':'' (map hex_of xs) @ CHR '':'' # u = ds @ CHR '':'' # t
      \<and> (\<forall>c \<in> set ds. hex_val c \<noteq> None)" for xs u
  proof (cases xs rule: remdups_adj.cases)
    case 1
    then show ?thesis by (intro exI [of _ "[]"] exI [of _ u]) auto
  next
    case (2 x)
    then show ?thesis using hx [of x] by (intro exI [of _ "hex_of x"] exI [of _ u]) auto
  next
    case (3 x y zs)
    then show ?thesis using hx [of x] by (intro exI [of _ "hex_of x"] exI) auto
  qed
  show ?thesis
  proof (cases "longest_run ?gs")
    case None
    obtain x y zs where "?gs = x # y # zs" by (simp add: groups6_def)
    with None show ?thesis
      using hx [of x] by (intro exI [of _ "hex_of x"] exI) (auto simp: string6_def string6_groups_def)
  next
    case (Some r)
    with cut show ?thesis by (cases r) (simp add: string6_def string6_groups_def Let_def)
  qed
qed

lemma find_first: "P c \<Longrightarrow> \<forall>x \<in> set xs. \<not> P x \<Longrightarrow> find P (xs @ c # ys) = Some c"
  by (induction xs) auto

lemma join_chars: "c \<in> set (go_join sep xs) \<Longrightarrow> c \<in> set sep \<or> (\<exists>x \<in> set xs. c \<in> set x)"
  by (induction sep xs rule: go_join.induct) auto

lemma string6_chars: "c \<in> set (string6 w) \<Longrightarrow> hex_val c \<noteq> None \<or> c = CHR '':''"
  using hex_of_val
  by (auto simp: string6_def string6_groups_def Let_def dest!: join_chars split: option.splits prod.splits)

lemma hex_val_special: "hex_val CHR ''%'' = None" "hex_val CHR ''/'' = None" "hex_val CHR '','' = None"
  by (code_simp)+

lemma parse_addr_string4: "parse_addr (string4 w) = Some (V4 w)"
proof -
  obtain a b c d where "fields4 w = [a, b, c, d]" by (simp add: fields4_def)
  then have "string4 w = itoa a @ CHR ''.'' # (itoa b @ CHR ''.'' # itoa c @ CHR ''.'' # itoa d)"
    by (simp add: string4_def)
  moreover have "\<forall>x \<in> set (itoa a). \<not> addr_mark x"
    using itoa_dec not_dec_dot by (auto simp: addr_mark_def)
  moreover have "addr_mark CHR ''.''" by (simp add: addr_mark_def)
  ultimately have "find addr_mark (string4 w) = Some CHR ''.''" by (simp add: find_first)
  then show ?thesis by (simp add: parse_addr_def parse_ipv4_string4)
qed

lemma parse_addr_colon:
  assumes "s = ds @ CHR '':'' # t" "\<forall>c \<in> set ds. hex_val c \<noteq> None"
  shows "parse_addr s = parse_ipv6 s"
proof -
  have "\<forall>x \<in> set ds. \<not> addr_mark x"
    using assms(2) hex_val_special hex_val_colon by (auto simp: addr_mark_def)
  moreover have "addr_mark CHR '':''" by (simp add: addr_mark_def)
  ultimately have "find addr_mark s = Some CHR '':''" using assms(1) by (simp add: find_first)
  then show ?thesis by (simp add: parse_addr_def)
qed

lemma parse_ipv6_zone:
  assumes "parse6_groups s = Some gs" "CHR ''%'' \<notin> set s"
  shows "parse_ipv6 (s @ zone_suffix z) = Some (V6 (of_nat (word_of_fields 65536 gs)) z)"
proof (cases "z = []")
  case True
  then show ?thesis
    using assms by (simp add: parse_ipv6_def zone_suffix_def cut_byte_None [THEN iffD2])
next
  case False
  then show ?thesis
    using assms by (simp add: parse_ipv6_def zone_suffix_def cut_byte_append)
qed

lemma parse_addr_string:
  assumes "addr \<noteq> NoAddr"
  shows "parse_addr (addr_string addr) = Some addr"
proof (cases addr)
  case (V4 w)
  then show ?thesis by (simp add: parse_addr_string4)
next
  case (V6 w z)
  show ?thesis
  proof (cases "drop_bit 32 w = 0xFFFF")
    case True
    let ?v = "ucast w :: 32 word"
    obtain a b c d where f: "fields4 ?v = [a, b, c, d]"
      and p: "parse6_groups (''::ffff:'' @ string4 ?v) = Some (replicate 5 0 @ [65535, a * 256 + b, c * 256 + d])"
      using parse6_groups_mapped by blast
    have "word_of_fields 65536 (replicate 5 0 @ [65535, a * 256 + b, c * 256 + d])
        = 65535 * 2 ^ 32 + word_of_fields 256 [a, b, c, d]"
      using replicate_five by (simp add: word_of_fields_def)
    also have "\<dots> = unat w"
      using mapped_value [OF True] by (simp flip: f)
    finally have v: "word_of_fields 65536 (replicate 5 0 @ [65535, a * 256 + b, c * 256 + d]) = unat w" .
    have "CHR ''%'' \<notin> set (''::ffff:'' @ string4 ?v)"
      using string4_chars [of "CHR ''%''" ?v] not_dec_dot by auto
    then have "parse_ipv6 ((''::ffff:'' @ string4 ?v) @ zone_suffix z) = Some (V6 w z)"
      using parse_ipv6_zone [OF p] v by simp
    moreover have "addr_string addr = (''::ffff:'' @ string4 ?v) @ zone_suffix z"
      using V6 True by simp
    moreover have "parse_addr (addr_string addr) = parse_ipv6 (addr_string addr)"
      using V6 True by (intro parse_addr_colon [of _ "[]"]) auto
    ultimately show ?thesis using V6 by simp
  next
    case False
    obtain ds t where "string6 w = ds @ CHR '':'' # t" "\<forall>c \<in> set ds. hex_val c \<noteq> None"
      using string6_hd by blast
    then have "parse_addr (addr_string addr) = parse_ipv6 (addr_string addr)"
      using V6 False parse_addr_colon [of _ ds "t @ zone_suffix z"] by simp
    moreover have "CHR ''%'' \<notin> set (string6 w)"
      using string6_chars [of "CHR ''%''" w] hex_val_special by auto
    ultimately show ?thesis
      using V6 False parse_ipv6_zone [OF parse6_groups_string6] by simp
  qed
qed (use assms in simp)


section \<open>Prefixes\<close>

lemma parse_bits_itoa:
  assumes "b < 1000"
  shows "parse_bits (itoa b) = Some b"
  using assms
proof (cases rule: itoa_cases)
  case 3
  have d: "f < 10 \<Longrightarrow> byte (digit f) = 48 + f" for f by (rule byte_digit)
  have "b div 100 < 10" "b div 100 \<noteq> 0" using assms 3 by auto
  moreover have "(b div 100 * 10 + b div 10 mod 10) * 10 + b mod 10 = b"
    using div_mult_mod_eq [of "b div 10" 10] div_mult_mod_eq [of b 10]
    by (simp add: div_mult2_eq [symmetric])
  ultimately show ?thesis using 3 by (simp add: parse_bits_def d)
qed (auto simp: parse_bits_def byte_digit)

lemma addr_string_chars:
  assumes "a \<noteq> NoAddr" "zone_of a = []" "c \<in> set (addr_string a)"
  shows "hex_val c \<noteq> None \<or> c = CHR '':'' \<or> c = CHR ''.''"
proof (cases a)
  case (V6 w z)
  have ff: "hex_val c \<noteq> None \<or> c = CHR '':''" if "c \<in> set ''::ffff:''"
  proof -
    have "list_all (\<lambda>c. hex_val c \<noteq> None \<or> c = CHR '':'') ''::ffff:''" by code_simp
    then show ?thesis using that by (simp only: list_all_iff)
  qed
  have "c \<in> set ''::ffff:'' \<or> c \<in> set (string4 (ucast w)) \<or> c \<in> set (string6 w)"
    using assms V6 by (auto simp: zone_suffix_def split: if_splits)
  then show ?thesis using ff string4_chars string6_chars dec_hex by blast
qed (use assms string4_chars dec_hex in auto)

lemma addr_string_no_slash:
  "a \<noteq> NoAddr \<Longrightarrow> zone_of a = [] \<Longrightarrow> CHR ''/'' \<notin> set (addr_string a)"
  using addr_string_chars [of a "CHR ''/''"] hex_val_special by auto

lemma itoa_no_slash: "CHR ''/'' \<notin> set (itoa b)"
  using itoa_dec not_dec_dot by blast

lemma cut_last_append: "c \<notin> set b \<Longrightarrow> cut_last c (a @ c # b) = Some (a, b)"
  by (simp add: cut_last_def cut_byte_append)

lemma with_zone_id: "zone_of a = [] \<Longrightarrow> with_zone a [] = a"
  by (cases a) auto

lemma bit_len_le: "bit_len a \<le> 128"
  by (cases a) auto

lemma parse_prefix_string:
  assumes "prefix_valid p"
  shows "parse_prefix (prefix_string p) = Some p"
proof -
  from assms obtain a b where p: "p = Prefix a b" and a: "a \<noteq> NoAddr" "b \<le> bit_len a" "zone_of a = []"
    by (cases p) (auto simp: prefix_valid_def)
  then have b: "b < 1000" using bit_len_le [of a] by simp
  have "\<not> b > (if is6 a then 128 else 32)" using a by (cases a) auto
  then show ?thesis
    using p a b
    by (simp add: parse_prefix_def cut_last_append itoa_no_slash parse_addr_string parse_bits_itoa
        prefix_from_def with_zone_id)
qed

text \<open>A printed prefix is an entry a comma-separated list can carry.\<close>

lemma hex_val_graphic: "hex_val c \<noteq> None \<Longrightarrow> graphic c"
  by (auto simp: hex_val_def graphic_def split: if_splits)

lemma graphic_marks: "graphic CHR '':''" "graphic CHR ''.''" "graphic CHR ''/''"
  by (code_simp)+

lemma prefix_string_clean:
  assumes "prefix_valid p"
  shows "clean_entry (prefix_string p)"
proof -
  from assms obtain a b where p: "p = Prefix a b" and a: "a \<noteq> NoAddr" "zone_of a = []"
    by (cases p) (auto simp: prefix_valid_def)
  have "graphic c \<and> c \<noteq> CHR '',''" if "c \<in> set (prefix_string p)" for c
  proof -
    from that p consider "c \<in> set (addr_string a)" | "c = CHR ''/''" | "c \<in> set (itoa b)" by auto
    then show ?thesis
    proof cases
      case 1
      then show ?thesis
        using addr_string_chars [OF a] hex_val_graphic graphic_marks hex_val_special by fastforce
    next
      case 2
      then show ?thesis using graphic_marks by simp
    next
      case 3
      then have "hex_val c \<noteq> None" using itoa_dec dec_hex by blast
      then show ?thesis using hex_val_graphic hex_val_special by fastforce
    qed
  qed
  then show ?thesis using p by (auto simp: clean_entry_def list_all_iff)
qed

section \<open>What a prefix contains\<close>

lemma xor_0_iff: "a XOR b = 0 \<longleftrightarrow> a = b" for a b :: "'a::len word"
  by (metis xor.assoc xor.left_neutral xor_self_eq)
lemma unat_drop_bit: "unat (drop_bit k w) = unat w div 2 ^ k"
  by (rule trans [OF unat_drop_bit_eq drop_bit_eq_div])
lemma drop_bit_eq_iff: "drop_bit k w = drop_bit k v \<longleftrightarrow> unat w div 2 ^ k = unat v div 2 ^ k"
  for w v :: "'a::len word"
  by (simp only: word_unat_eq_iff unat_drop_bit)
lemma drop_bit_xor_0: "drop_bit k (w XOR p) = 0 \<longleftrightarrow> unat w div 2 ^ k = unat p div 2 ^ k"
  for w p :: "'a::len word"
  by (simp only: drop_bit_xor xor_0_iff drop_bit_eq_iff)
lemma drop_bit_clear_low [simp]: "drop_bit k (clear_low k w) = drop_bit k w"
  for w :: "'a::len word"
  unfolding clear_low_def
  by (rule bit_word_eqI) (auto simp: bit_simps dest: bit_imp_le_length)
lemma clear_low_eq_iff: "clear_low k w = clear_low k v \<longleftrightarrow> unat w div 2 ^ k = unat v div 2 ^ k"
  for w v :: "'a::len word"
proof -
  have "clear_low k w = clear_low k v \<longleftrightarrow> drop_bit k w = drop_bit k v"
    using drop_bit_clear_low by (metis clear_low_def)
  then show ?thesis by (simp only: drop_bit_eq_iff)
qed

lemma contains_V4 [addr_simps]:
  "prefix_contains (Prefix (V4 p) b) (V4 w) \<longleftrightarrow> b \<le> 32 \<and> unat w div 2 ^ (32 - b) = unat p div 2 ^ (32 - b)"
  by (simp only: prefix_contains.simps drop_bit_xor_0)

lemma contains_V6 [addr_simps]:
  "prefix_contains (Prefix (V6 p y) b) (V6 w z) \<longleftrightarrow>
     b \<le> 128 \<and> z = [] \<and> unat w div 2 ^ (128 - b) = unat p div 2 ^ (128 - b)"
  by (simp only: prefix_contains.simps drop_bit_xor_0)

text \<open>Two blocks of numbers of power-of-two lengths meet exactly when the shorter of their leading
  parts agree.\<close>

lemma blocks_meet_iff:
  fixes p q :: "'a::len word"
  assumes "b \<le> n" "c \<le> n"
  shows "(\<exists>a :: 'a word. unat a div 2 ^ (n - b) = unat p div 2 ^ (n - b) \<and>
             unat a div 2 ^ (n - c) = unat q div 2 ^ (n - c))
     \<longleftrightarrow> unat p div 2 ^ (n - min b c) = unat q div 2 ^ (n - min b c)"
proof -
  have finer: "x div 2 ^ (n - d) = y div 2 ^ (n - d)"
    if "x div 2 ^ (n - e) = y div 2 ^ (n - e)" "d \<le> e" "e \<le> n" for x y d e :: nat
  proof -
    have "n - d = (n - e) + (e - d)" using that by simp
    then show ?thesis using that(1) by (simp add: power_add div_mult2_eq)
  qed
  show ?thesis (is "?ex \<longleftrightarrow> ?agree")
  proof
    assume ?ex
    then obtain a :: "'a word" where a: "unat a div 2 ^ (n - b) = unat p div 2 ^ (n - b)"
      "unat a div 2 ^ (n - c) = unat q div 2 ^ (n - c)" by blast
    have "min b c \<le> b" "min b c \<le> c" by simp_all
    then show ?agree
      using finer [OF a(1) _ assms(1)] finer [OF a(2) _ assms(2)] by metis
  next
    assume agree: ?agree
    show ?ex
    proof (cases "b \<le> c")
      case True
      with agree have "unat q div 2 ^ (n - b) = unat p div 2 ^ (n - b)" by simp
      then show ?ex by blast
    next
      case False
      with agree have "unat p div 2 ^ (n - c) = unat q div 2 ^ (n - c)" by (simp add: min_def)
      then show ?ex by blast
    qed
  qed
qed

lemma contains_same_family:
  "prefix_contains (Prefix (V4 v) b) a \<Longrightarrow> \<exists>w. a = V4 w"
  "prefix_contains (Prefix (V6 u z) b) a \<Longrightarrow> \<exists>w. a = V6 w []"
  by (cases a; auto)+

lemma prefix_overlaps_iff:
  assumes "prefix_valid p" "prefix_valid q"
  shows "prefix_overlaps p q \<longleftrightarrow> (\<exists>a. prefix_contains p a \<and> prefix_contains q a)"
proof -
  from assms obtain x b y c where p: "p = Prefix x b" "x \<noteq> NoAddr" "b \<le> bit_len x" "zone_of x = []"
    and q: "q = Prefix y c" "y \<noteq> NoAddr" "c \<le> bit_len y" "zone_of y = []"
    by (cases p; cases q) (auto simp: prefix_valid_def)
  have small: "unat w div 2 ^ LENGTH('a) = 0" for w :: "'a::len word"
    by (simp add: unsigned_less)
  have small32: "unat w div 2 ^ 32 = 0" for w :: "32 word" using small [of w] by simp
  have small128: "unat w div 2 ^ 128 = 0" for w :: "128 word" using small [of w] by simp
  consider (v4) v w where "x = V4 v" "y = V4 w" | (v6) v w where "x = V6 v []" "y = V6 w []"
    | (mixed) "is4 x \<noteq> is4 y"
    using p q by (cases x; cases y) auto
  then show ?thesis
  proof cases
    case (v4 v w)
    have "prefix_overlaps p q \<longleftrightarrow> unat v div 2 ^ (32 - min b c) = unat w div 2 ^ (32 - min b c)"
      using assms p q v4 small32
      by (auto simp: prefix_overlaps_def Let_def clear_low_eq_iff min_def)
    also have "\<dots> \<longleftrightarrow> (\<exists>a. prefix_contains p (V4 a) \<and> prefix_contains q (V4 a))"
      using p q v4 by (simp add: contains_V4 blocks_meet_iff del: prefix_contains.simps)
    also have "\<dots> \<longleftrightarrow> (\<exists>a. prefix_contains p a \<and> prefix_contains q a)"
      unfolding p(1) v4(1) using contains_same_family(1) by blast
    finally show ?thesis .
  next
    case (v6 v w)
    have "prefix_overlaps p q \<longleftrightarrow> unat v div 2 ^ (128 - min b c) = unat w div 2 ^ (128 - min b c)"
      using assms p q v6 small128
      by (auto simp: prefix_overlaps_def Let_def clear_low_eq_iff min_def)
    also have "\<dots> \<longleftrightarrow> (\<exists>a. prefix_contains p (V6 a []) \<and> prefix_contains q (V6 a []))"
      using p q v6 by (simp add: contains_V6 blocks_meet_iff del: prefix_contains.simps)
    also have "\<dots> \<longleftrightarrow> (\<exists>a. prefix_contains p a \<and> prefix_contains q a)"
      unfolding p(1) v6(1) using contains_same_family(2) by blast
    finally show ?thesis .
  next
    case mixed
    then show ?thesis
      using p q assms by (auto simp: prefix_overlaps_def elim!: prefix_contains.elims)
  qed
qed

lemma masked_valid: "prefix_valid p \<Longrightarrow> prefix_valid (masked p)"
  by (cases p; cases "prefix_addr p") (auto simp: prefix_valid_def masked_def)

lemma masked_contains [simp]: "prefix_contains (masked p) a = prefix_contains p a"
  by (cases p; cases "prefix_addr p"; cases a)
    (auto simp: masked_def drop_bit_xor)

lemma clear_low_idem [simp]: "clear_low k (clear_low k w) = clear_low k w" for w :: "'a::len word"
  by (simp add: clear_low_eq_iff drop_bit_eq_iff [symmetric])

lemma masked_masked [simp]: "masked (masked p) = masked p"
  by (cases p; cases "prefix_addr p") (auto simp: masked_def)
section \<open>Clearing low bits as arithmetic\<close>

lemma word_bound: "unat w < 2 ^ LENGTH('a)" for w :: "'a::len word"
  by (rule unsigned_less)

lemma unat_clear_low: "unat (clear_low k w) = unat w div 2 ^ k * 2 ^ k"
  for w :: "'a::len word"
proof -
  have "unat w div 2 ^ k * 2 ^ k \<le> unat w" by simp
  also have "\<dots> < 2 ^ LENGTH('a)" by (rule unsigned_less)
  finally have "unat w div 2 ^ k * 2 ^ k mod 2 ^ LENGTH('a) = unat w div 2 ^ k * 2 ^ k" by simp
  moreover have "unat (push_bit k v) = unat v * 2 ^ k mod 2 ^ LENGTH('a)" for v :: "'a word"
    by (rule trans [OF unsigned_push_bit_eq]) (simp add: take_bit_eq_mod push_bit_eq_mult)
  ultimately show ?thesis by (simp only: clear_low_def unat_drop_bit)
qed

text \<open>Evaluation of words: the moduli of the two address widths are constants.\<close>

lemma take_bit_int_widths [code]:
  "take_bit n (k :: int) =
     (if n = 128 then
        (if 0 \<le> k \<and> k < 340282366920938463463374607431768211456 then k
         else k mod 340282366920938463463374607431768211456)
      else if n = 32 then (if 0 \<le> k \<and> k < 4294967296 then k else k mod 4294967296)
      else k mod 2 ^ n)"
  by (simp add: take_bit_eq_mod)

lemma clear_low_code [code]: "clear_low k w = of_nat (unat w div 2 ^ k * 2 ^ k)"
  by (simp flip: unat_clear_low)

section \<open>What the parser returns\<close>

lemma parse_addr_ne: "parse_addr s = Some a \<Longrightarrow> a \<noteq> NoAddr"
  by (auto simp: parse_addr_def parse_ipv4_def parse_ipv6_def split: option.splits if_splits prod.splits)

lemma parse_prefix_valid:
  assumes "parse_prefix s = Some p"
  shows "prefix_valid p"
proof -
  obtain a b where ab: "cut_last CHR ''/'' s = Some (a, b)"
    using assms by (fastforce simp: parse_prefix_def split: option.splits)
  obtain ip where ip: "parse_addr a = Some ip"
    using assms ab by (fastforce simp: parse_prefix_def split: option.splits)
  have z: "\<not> (is6 ip \<and> zone_of ip \<noteq> [])" using assms ab ip by (auto simp: parse_prefix_def split: if_splits)
  obtain n where n: "parse_bits b = Some n"
    using assms ab ip z by (fastforce simp: parse_prefix_def split: option.splits)
  have le: "n \<le> (if is6 ip then 128 else 32)" and p: "p = prefix_from ip n"
    using assms ab ip z n by (auto simp: parse_prefix_def split: if_splits)
  have "ip \<noteq> NoAddr" using ip by (rule parse_addr_ne)
  then show ?thesis using z le p by (cases ip) (auto simp: prefix_from_def prefix_valid_def)
qed

lemma contains_addr:
  "prefix_contains p a \<Longrightarrow> a \<noteq> NoAddr \<and> zone_of a = []"
  by (erule prefix_contains.elims) auto

end
