(* ===== verification/Storage_Contracts.thy ===== *)
theory Storage_Contracts
  imports Netip_Lemmas
begin

text \<open>
  The records the storage keeps (\<^verbatim>\<open>internal/storage/contracts.go\<close>, \<^verbatim>\<open>tokens.go\<close>, \<^verbatim>\<open>sessions.go\<close>,
  \<^verbatim>\<open>passkeys.go\<close>) and what they say of themselves: the comma-separated lists, when access has run
  out, when a second factor is asked for.
\<close>

section \<open>Records\<close>

text \<open>A Go \<^verbatim>\<open>int64\<close> is a word of its width, read with \<open>sint\<close>.\<close>

type_synonym int64 = "64 word"

record device =
  devOwner :: string
  devOwnerName :: string
  devOwnerEmail :: string
  devOwnerProvider :: string
  devName :: string
  devPublicKey :: string
  devPresharedKey :: string
  devAddress :: string
  devCreatedAt :: instant
  devDisabled :: bool
  devExpiresAt :: "instant option"
  devRoutes :: string
  devLastHandshakeTime :: "instant option"
  devReceiveBytes :: int64
  devTransmitBytes :: int64
  devEndpoint :: string

record totp_state =
  totpSecret :: string
  totpEnabledAt :: "instant option"
  totpRecovery :: string
  totpLastStep :: int64

record user =
  usrSubject :: string
  usrProvider :: string
  usrName :: string
  usrEmail :: string
  usrPolicies :: string
  usrLastLogin :: instant
  usrPasswordHash :: string
  usrWebauthnChallenge :: string
  usrWebauthnChallengeUntil :: "instant option"
  usrTotpSecret :: string
  usrTotpEnabledAt :: "instant option"
  usrTotpRecovery :: string
  usrTotpLastStep :: int64
  usrPasswordFrom :: string

record api_token =
  tokID :: string
  tokOwner :: string
  tokName :: string
  tokHash :: string
  tokIdentity :: string
  tokCreatedAt :: instant
  tokExpiresAt :: "instant option"
  tokLastUsedAt :: "instant option"

record session =
  sesID :: string
  sesOwner :: string
  sesHash :: string
  sesIdentity :: string
  sesUserAgent :: string
  sesRemoteAddr :: string
  sesCreatedAt :: instant
  sesExpiresAt :: instant
  sesLastSeenAt :: instant

record passkey =
  pkID :: string
  pkOwner :: string
  pkName :: string
  pkData :: string
  pkCreatedAt :: instant
  pkLastUsedAt :: "instant option"

record peer_connection =
  connEndpoint :: string
  connLastHandshakeTime :: instant

record metadata_update =
  updPublicKey :: string
  updReceiveBytes :: int64
  updTransmitBytes :: int64
  updConnection :: "peer_connection option"

section \<open>Methods\<close>

definition splitList :: "string \<Rightarrow> string list" where
  "splitList value =
     (if trim_space value = [] then []
      else filter (\<lambda>part. part \<noteq> []) (map trim_space (split_byte CHR '','' value)))"

definition AllowedIPs :: "device \<Rightarrow> string list" where
  "AllowedIPs d = splitList (devAddress d) @ splitList (devRoutes d)"

definition RouteList :: "device \<Rightarrow> string list" where
  "RouteList d = splitList (devRoutes d)"

definition PolicyList :: "user \<Rightarrow> string list" where
  "PolicyList u = splitList (usrPolicies u)"

text \<open>\<^verbatim>\<open>a.After(b)\<close> is \<open>b < a\<close>, \<^verbatim>\<open>a.Before(b)\<close> is \<open>a < b\<close>.\<close>

definition device_Expired :: "device \<Rightarrow> instant \<Rightarrow> bool" where
  "device_Expired d at = (case devExpiresAt d of None \<Rightarrow> False | Some e \<Rightarrow> \<not> at < e)"

definition AccessAllowed :: "device \<Rightarrow> instant \<Rightarrow> bool" where
  "AccessAllowed d at = (\<not> devDisabled d \<and> \<not> device_Expired d at)"

definition user_TOTP :: "user \<Rightarrow> totp_state" where
  "user_TOTP u =
     \<lparr>totpSecret = usrTotpSecret u, totpEnabledAt = usrTotpEnabledAt u,
      totpRecovery = usrTotpRecovery u, totpLastStep = usrTotpLastStep u\<rparr>"

definition TwoFactorEnabled :: "user \<Rightarrow> bool" where
  "TwoFactorEnabled u = (usrTotpSecret u \<noteq> [] \<and> usrTotpEnabledAt u \<noteq> None)"

definition token_Expired :: "api_token \<Rightarrow> instant \<Rightarrow> bool" where
  "token_Expired t now = (case tokExpiresAt t of None \<Rightarrow> False | Some e \<Rightarrow> \<not> now < e)"

definition session_Expired :: "session \<Rightarrow> instant \<Rightarrow> bool" where
  "session_Expired s now = (\<not> now < sesExpiresAt s)"

section \<open>Lists of entries\<close>

lemma splitList_Nil [simp]: "splitList [] = []"
  by (simp add: splitList_def)

lemma join_clean_ends:
  assumes "xs \<noteq> []" "\<And>x. x \<in> set xs \<Longrightarrow> clean_entry x"
  shows "go_join '', '' xs \<noteq> [] \<and> graphic (hd (go_join '', '' xs)) \<and> graphic (last (go_join '', '' xs))"
  using assms
proof (induction xs rule: induct_list012)
  case (2 x)
  then have "clean_entry x" by simp
  then show ?case by (auto simp: clean_entry_def list_all_iff)
next
  case (3 x y zs)
  then have "clean_entry x" and "go_join '', '' (y # zs) \<noteq> [] \<and> graphic (last (go_join '', '' (y # zs)))"
    by simp_all
  then show ?case by (auto simp: clean_entry_def list_all_iff hd_append)
qed simp

lemma splitList_join:
  assumes "\<And>x. x \<in> set xs \<Longrightarrow> clean_entry x"
  shows "splitList (go_join '', '' xs) = xs"
proof (cases "xs = []")
  case False
  note ends = join_clean_ends [OF False assms]
  then have "trim_space (go_join '', '' xs) = go_join '', '' xs" by (intro trim_space_graphic) auto
  moreover have "filter (\<lambda>part. part \<noteq> []) xs = xs"
    using assms by (auto intro: filter_True dest: clean_entryD)
  ultimately show ?thesis
    using ends split_comma_join [OF False assms] by (simp add: splitList_def)
qed simp

lemma splitList_pieces: "x \<in> set (splitList s) \<Longrightarrow> x \<noteq> [] \<and> CHR '','' \<notin> set x"
  using trim_space_set split_byte_pieces by (fastforce simp: splitList_def split: if_splits)

section \<open>Access\<close>

text \<open>Once a device has expired it stays so, and so does a token and a session.\<close>

lemma device_Expired_mono: "device_Expired d t \<Longrightarrow> t \<le> u \<Longrightarrow> device_Expired d u"
  by (auto simp: device_Expired_def split: option.splits)

lemma AccessAllowed_mono: "AccessAllowed d u \<Longrightarrow> t \<le> u \<Longrightarrow> AccessAllowed d t"
  using device_Expired_mono by (auto simp: AccessAllowed_def)

lemma token_Expired_mono: "token_Expired d t \<Longrightarrow> t \<le> u \<Longrightarrow> token_Expired d u"
  by (auto simp: token_Expired_def split: option.splits)

lemma session_Expired_mono: "session_Expired d t \<Longrightarrow> t \<le> u \<Longrightarrow> session_Expired d u"
  by (auto simp: session_Expired_def)

end
