(* ===== verification/Storage_Memory.thy ===== *)
theory Storage_Memory
  imports Storage_Contracts
begin

text \<open>
  The in-memory storage (\<^verbatim>\<open>internal/storage/inmemory.go\<close>, and the in-memory halves of \<^verbatim>\<open>tokens.go\<close>,
  \<^verbatim>\<open>sessions.go\<close> and \<^verbatim>\<open>passkeys.go\<close>): its state, one function per method, the invariant that makes
  it a table with a primary key and a unique index, and that every method keeps it.

  A method returns its result and the storage after it.  The events a method emits are appended to
  the field \<open>emitted\<close> in the order of the code; the device manager takes them from there.  The
  methods hold the storage's mutex, so they are atomic; a Go \<^verbatim>\<open>*Device\<close> the storage hands out is a
  value here, so a change the storage makes later to that device is not seen through it.
\<close>

section \<open>State\<close>

datatype event = Added device | Updated device | Deleted device

type_synonym dev_key = "string \<times> string"

record memory =
  db :: "(dev_key, device) amap"
  tokens :: "(string, api_token) amap"
  users :: "(string, user) amap"
  sessions :: "(string, session) amap"
  passkeys :: "(string, passkey) amap"
  emitted :: "event list"

definition NewMemoryStorage :: memory where
  "NewMemoryStorage =
     \<lparr>db = [], tokens = [], users = [], sessions = [], passkeys = [], emitted = []\<rparr>"

text \<open>The key of a device.  The code renders the pair as a string with both parts quoted.\<close>

definition key :: "device \<Rightarrow> dev_key" where
  "key d = (devOwner d, devName d)"

definition emit :: "event list \<Rightarrow> memory \<Rightarrow> memory" where
  "emit es s = s\<lparr>emitted := emitted s @ es\<rparr>"

section \<open>Devices\<close>

definition Save :: "device \<Rightarrow> memory \<Rightarrow> unit res \<times> memory" where
  "Save d s =
     (if devPublicKey d \<noteq> [] \<and>
         list_ex (\<lambda>(k, e). devPublicKey e = devPublicKey d \<and> k \<noteq> key d) (db s)
      then (Inl (Err ''public key is already in use by another device''), s)
      else (Inr (), emit [Added d] (s\<lparr>db := AList.update (key d) d (db s)\<rparr>)))"

text \<open>One update of \<^verbatim>\<open>RecordMetadata\<close>, on the device it names.  The additions wrap.\<close>

definition apply_update :: "metadata_update \<Rightarrow> device \<Rightarrow> device" where
  "apply_update u d =
     (let d1 = d\<lparr>devReceiveBytes := devReceiveBytes d + updReceiveBytes u,
                 devTransmitBytes := devTransmitBytes d + updTransmitBytes u\<rparr> in
      case updConnection u of
        None \<Rightarrow> d1
      | Some c \<Rightarrow> d1\<lparr>devEndpoint := connEndpoint c,
                      devLastHandshakeTime := Some (connLastHandshakeTime c)\<rparr>)"

text \<open>The index by public key is built once; the last device of a \<^verbatim>\<open>range\<close> over the map wins.  The
  updates never change a key, so it stays right while they are applied.\<close>

definition by_public_key :: "(dev_key, device) amap \<Rightarrow> (string, dev_key) amap" where
  "by_public_key m = foldl (\<lambda>idx (k, d). AList.update (devPublicKey d) k idx) [] m"

definition record_one ::
  "(string, dev_key) amap \<Rightarrow> (dev_key, device) amap \<Rightarrow> metadata_update \<Rightarrow> (dev_key, device) amap" where
  "record_one idx m u =
     (case map_of idx (updPublicKey u) of
        None \<Rightarrow> m
      | Some k \<Rightarrow> map (\<lambda>(j, d). (j, if j = k then apply_update u d else d)) m)"

definition RecordMetadata :: "metadata_update list \<Rightarrow> memory \<Rightarrow> unit res \<times> memory" where
  "RecordMetadata us s = (Inr (), s\<lparr>db := foldl (record_one (by_public_key (db s))) (db s) us\<rparr>)"

definition Addresses :: "memory \<Rightarrow> string list" where
  "Addresses s = map (\<lambda>(k, d). devAddress d) (db s)"

definition List_devices :: "string \<Rightarrow> memory \<Rightarrow> device list" where
  "List_devices username s =
     filter (\<lambda>d. username = [] \<or> devOwner d = username) (map snd (db s))"

definition Get :: "string \<Rightarrow> string \<Rightarrow> memory \<Rightarrow> device res" where
  "Get owner name s =
     (case map_of (db s) (owner, name) of
        None \<Rightarrow> Inl (Err ''device doesn't exist'')
      | Some d \<Rightarrow> Inr d)"

definition GetByPublicKey :: "string \<Rightarrow> memory \<Rightarrow> device res" where
  "GetByPublicKey publicKey s =
     (case find (\<lambda>d. devPublicKey d = publicKey) (List_devices [] s) of
        None \<Rightarrow> Inl (Err ''device doesn't exist'')
      | Some d \<Rightarrow> Inr d)"

definition Delete :: "device \<Rightarrow> memory \<Rightarrow> unit res \<times> memory" where
  "Delete d s = (Inr (), emit [Deleted d] (s\<lparr>db := AList.delete (key d) (db s)\<rparr>))"

definition Rename :: "device \<Rightarrow> string \<Rightarrow> memory \<Rightarrow> device res \<times> memory" where
  "Rename d newName s =
     (case map_of (db s) (key d) of
        None \<Rightarrow> (Inl (Err ''device doesn't exist''), s)
      | Some stored \<Rightarrow>
          (let renamed = stored\<lparr>devName := newName\<rparr> in
           (Inr renamed,
            emit [Updated renamed]
              (s\<lparr>db := AList.update (key renamed) renamed (AList.delete (key stored) (db s))\<rparr>))))"

definition SetAccess :: "device \<Rightarrow> bool \<Rightarrow> instant option \<Rightarrow> memory \<Rightarrow> device res \<times> memory" where
  "SetAccess d disabled expiresAt s =
     (case map_of (db s) (key d) of
        None \<Rightarrow> (Inl (Err ''device doesn't exist''), s)
      | Some stored \<Rightarrow>
          (let changed = stored\<lparr>devDisabled := disabled, devExpiresAt := expiresAt\<rparr> in
           (Inr changed,
            emit [Updated changed] (s\<lparr>db := AList.update (key changed) changed (db s)\<rparr>))))"

definition SetRoutes :: "device \<Rightarrow> string \<Rightarrow> memory \<Rightarrow> device res \<times> memory" where
  "SetRoutes d routes s =
     (case map_of (db s) (key d) of
        None \<Rightarrow> (Inl (Err ''device doesn't exist''), s)
      | Some stored \<Rightarrow>
          (let changed = stored\<lparr>devRoutes := routes\<rparr> in
           (Inr changed,
            emit [Updated changed] (s\<lparr>db := AList.update (key changed) changed (db s)\<rparr>))))"

definition SetKeys :: "device \<Rightarrow> string \<Rightarrow> string \<Rightarrow> memory \<Rightarrow> device res \<times> memory" where
  "SetKeys d publicKey presharedKey s =
     (case map_of (db s) (key d) of
        None \<Rightarrow> (Inl (Err ''device doesn't exist''), s)
      | Some stored \<Rightarrow>
          if list_ex (\<lambda>(k, other). devPublicKey other = publicKey \<and> k \<noteq> key d) (db s)
          then (Inl (Err ''another device already uses this public key''), s)
          else
            (let changed = stored\<lparr>devPublicKey := publicKey, devPresharedKey := presharedKey\<rparr> in
             (Inr changed,
              emit [Updated changed] (s\<lparr>db := AList.update (key changed) changed (db s)\<rparr>))))"

definition DeleteForOwner :: "string \<Rightarrow> memory \<Rightarrow> device list res \<times> memory" where
  "DeleteForOwner owner s =
     (let deleted = filter (\<lambda>d. devOwner d = owner) (map snd (db s)) in
      (Inr deleted,
       emit (map Deleted deleted) (s\<lparr>db := filter (\<lambda>(k, d). devOwner d \<noteq> owner) (db s)\<rparr>)))"

definition BlockForOwner :: "string \<Rightarrow> memory \<Rightarrow> device list res \<times> memory" where
  "BlockForOwner owner s =
     (let hit = (\<lambda>d. devOwner d = owner \<and> \<not> devDisabled d);
          block = (\<lambda>d. d\<lparr>devDisabled := True\<rparr>);
          blocked = map block (filter hit (map snd (db s))) in
      (Inr blocked,
       emit (map Updated blocked)
         (s\<lparr>db := map (\<lambda>(k, d). (k, if hit d then block d else d)) (db s)\<rparr>)))"

section \<open>Users\<close>

definition SaveUser :: "user \<Rightarrow> memory \<Rightarrow> unit res \<times> memory" where
  "SaveUser u s =
     (let stored =
        (case map_of (users s) (usrSubject u) of
           None \<Rightarrow> u
         | Some previous \<Rightarrow>
             (let u1 = (if usrPasswordHash u = []
                        then u\<lparr>usrPasswordHash := usrPasswordHash previous,
                               usrPasswordFrom := usrPasswordFrom previous\<rparr>
                        else u) in
              if usrTotpSecret u1 = []
              then u1\<lparr>usrTotpSecret := usrTotpSecret previous,
                      usrTotpEnabledAt := usrTotpEnabledAt previous,
                      usrTotpRecovery := usrTotpRecovery previous\<rparr>
              else u1)) in
      (Inr (), s\<lparr>users := AList.update (usrSubject u) stored (users s)\<rparr>))"

definition no_such_user :: "string \<Rightarrow> go_error" where
  "no_such_user subject = Err (''user '' @ quoted subject @ '' does not exist'')"

definition SetUserTOTP :: "string \<Rightarrow> totp_state \<Rightarrow> memory \<Rightarrow> unit res \<times> memory" where
  "SetUserTOTP subject st s =
     (case map_of (users s) subject of
        None \<Rightarrow> (Inl (no_such_user subject), s)
      | Some u \<Rightarrow>
          (Inr (), s\<lparr>users := AList.update subject
             (u\<lparr>usrTotpSecret := totpSecret st, usrTotpEnabledAt := totpEnabledAt st,
                usrTotpRecovery := totpRecovery st, usrTotpLastStep := totpLastStep st\<rparr>) (users s)\<rparr>))"

definition SetUserPassword :: "string \<Rightarrow> string \<Rightarrow> string \<Rightarrow> memory \<Rightarrow> unit res \<times> memory" where
  "SetUserPassword subject hash from s =
     (case map_of (users s) subject of
        None \<Rightarrow> (Inl (no_such_user subject), s)
      | Some u \<Rightarrow>
          (Inr (), s\<lparr>users := AList.update subject
             (u\<lparr>usrPasswordHash := hash, usrPasswordFrom := from\<rparr>) (users s)\<rparr>))"

definition SetWebauthnChallenge :: "string \<Rightarrow> string \<Rightarrow> instant option \<Rightarrow> memory \<Rightarrow> unit res \<times> memory" where
  "SetWebauthnChallenge subject data until s =
     (case map_of (users s) subject of
        None \<Rightarrow> (Inl (no_such_user subject), s)
      | Some u \<Rightarrow>
          (Inr (), s\<lparr>users := AList.update subject
             (u\<lparr>usrWebauthnChallenge := data, usrWebauthnChallengeUntil := until\<rparr>) (users s)\<rparr>))"

definition GetUser :: "string \<Rightarrow> memory \<Rightarrow> user res" where
  "GetUser subject s =
     (case map_of (users s) subject of
        None \<Rightarrow> Inl (Sentinel ErrUserNotFound)
      | Some u \<Rightarrow> Inr u)"

definition Users :: "memory \<Rightarrow> user list" where
  "Users s = map snd (users s)"

definition DeleteUser :: "string \<Rightarrow> memory \<Rightarrow> unit res \<times> memory" where
  "DeleteUser subject s =
     (Inr (), s\<lparr>users := AList.delete subject (users s),
               passkeys := filter (\<lambda>(i, p). pkOwner p \<noteq> subject) (passkeys s)\<rparr>)"

section \<open>API tokens\<close>

definition SaveToken :: "api_token \<Rightarrow> memory \<Rightarrow> unit res \<times> memory" where
  "SaveToken t s =
     (if list_ex (\<lambda>(i, stored). tokHash stored = tokHash t \<and> tokID stored \<noteq> tokID t) (tokens s)
      then (Inl (Err ''an api token with this hash already exists''), s)
      else (Inr (), s\<lparr>tokens := AList.update (tokID t) t (tokens s)\<rparr>))"

definition ListTokens :: "string \<Rightarrow> memory \<Rightarrow> api_token list" where
  "ListTokens owner s =
     sort_key tokCreatedAt (filter (\<lambda>t. owner = [] \<or> tokOwner t = owner) (map snd (tokens s)))"

definition GetToken :: "string \<Rightarrow> memory \<Rightarrow> api_token res" where
  "GetToken i s =
     (case map_of (tokens s) i of None \<Rightarrow> Inl (Sentinel ErrTokenNotFound) | Some t \<Rightarrow> Inr t)"

definition GetTokenByHash :: "string \<Rightarrow> memory \<Rightarrow> api_token res" where
  "GetTokenByHash hash s =
     (case find (\<lambda>t. tokHash t = hash) (map snd (tokens s)) of
        None \<Rightarrow> Inl (Sentinel ErrTokenNotFound)
      | Some t \<Rightarrow> Inr t)"

definition TouchToken :: "string \<Rightarrow> instant \<Rightarrow> memory \<Rightarrow> unit res \<times> memory" where
  "TouchToken i at s =
     (Inr (), s\<lparr>tokens := map (\<lambda>(j, t). (j, if j = i then t\<lparr>tokLastUsedAt := Some at\<rparr> else t)) (tokens s)\<rparr>)"

definition DeleteToken :: "string \<Rightarrow> memory \<Rightarrow> unit res \<times> memory" where
  "DeleteToken i s =
     (case map_of (tokens s) i of
        None \<Rightarrow> (Inl (Sentinel ErrTokenNotFound), s)
      | Some t \<Rightarrow> (Inr (), s\<lparr>tokens := AList.delete i (tokens s)\<rparr>))"

definition DeleteTokensForOwner :: "string \<Rightarrow> memory \<Rightarrow> nat res \<times> memory" where
  "DeleteTokensForOwner owner s =
     (Inr (length (filter (\<lambda>(i, t). tokOwner t = owner) (tokens s))),
      s\<lparr>tokens := filter (\<lambda>(i, t). tokOwner t \<noteq> owner) (tokens s)\<rparr>)"

section \<open>Browser sessions\<close>

definition SaveSession :: "session \<Rightarrow> memory \<Rightarrow> unit res \<times> memory" where
  "SaveSession x s =
     (if list_ex (\<lambda>(i, stored). sesHash stored = sesHash x \<and> sesID stored \<noteq> sesID x) (sessions s)
      then (Inl (Err ''a session with this hash already exists''), s)
      else (Inr (), s\<lparr>sessions := AList.update (sesID x) x (sessions s)\<rparr>))"

definition GetSessionByHash :: "string \<Rightarrow> memory \<Rightarrow> session res" where
  "GetSessionByHash hash s =
     (case find (\<lambda>x. sesHash x = hash) (map snd (sessions s)) of
        None \<Rightarrow> Inl (Sentinel ErrSessionNotFound)
      | Some x \<Rightarrow> Inr x)"

text \<open>Newest first.\<close>

definition ListSessions :: "string \<Rightarrow> memory \<Rightarrow> session list" where
  "ListSessions owner s =
     sort_key (\<lambda>x. - sesCreatedAt x) (filter (\<lambda>x. sesOwner x = owner) (map snd (sessions s)))"

definition TouchSession :: "string \<Rightarrow> instant \<Rightarrow> memory \<Rightarrow> unit res \<times> memory" where
  "TouchSession i at s =
     (case map_of (sessions s) i of
        None \<Rightarrow> (Inl (Sentinel ErrSessionNotFound), s)
      | Some x \<Rightarrow>
          (Inr (), s\<lparr>sessions := map (\<lambda>(j, t). (j, if j = i then t\<lparr>sesLastSeenAt := at\<rparr> else t)) (sessions s)\<rparr>))"

definition DeleteSession :: "string \<Rightarrow> memory \<Rightarrow> unit res \<times> memory" where
  "DeleteSession i s = (Inr (), s\<lparr>sessions := AList.delete i (sessions s)\<rparr>)"

definition DeleteSessionsForOwner :: "string \<Rightarrow> memory \<Rightarrow> nat res \<times> memory" where
  "DeleteSessionsForOwner owner s =
     (Inr (length (filter (\<lambda>(i, x). sesOwner x = owner) (sessions s))),
      s\<lparr>sessions := filter (\<lambda>(i, x). sesOwner x \<noteq> owner) (sessions s)\<rparr>)"

definition DeleteExpiredSessions :: "instant \<Rightarrow> memory \<Rightarrow> nat res \<times> memory" where
  "DeleteExpiredSessions now s =
     (Inr (length (filter (\<lambda>(i, x). session_Expired x now) (sessions s))),
      s\<lparr>sessions := filter (\<lambda>(i, x). \<not> session_Expired x now) (sessions s)\<rparr>)"

section \<open>Passkeys\<close>

definition AddPasskey :: "passkey \<Rightarrow> memory \<Rightarrow> unit res \<times> memory" where
  "AddPasskey p s =
     (case map_of (passkeys s) (pkID p) of
        Some taken \<Rightarrow> (Inl (Sentinel ErrPasskeyExists), s)
      | None \<Rightarrow> (Inr (), s\<lparr>passkeys := AList.update (pkID p) p (passkeys s)\<rparr>))"

definition UpdatePasskey :: "passkey \<Rightarrow> memory \<Rightarrow> unit res \<times> memory" where
  "UpdatePasskey p s =
     (case map_of (passkeys s) (pkID p) of
        None \<Rightarrow> (Inl (Sentinel ErrPasskeyNotFound), s)
      | Some existing \<Rightarrow>
          if pkOwner existing \<noteq> pkOwner p then (Inl (Sentinel ErrPasskeyNotFound), s)
          else (Inr (), s\<lparr>passkeys := AList.update (pkID p) p (passkeys s)\<rparr>))"

definition RenamePasskey :: "string \<Rightarrow> string \<Rightarrow> string \<Rightarrow> memory \<Rightarrow> unit res \<times> memory" where
  "RenamePasskey owner i name s =
     (case map_of (passkeys s) i of
        None \<Rightarrow> (Inl (Sentinel ErrPasskeyNotFound), s)
      | Some existing \<Rightarrow>
          if pkOwner existing \<noteq> owner then (Inl (Sentinel ErrPasskeyNotFound), s)
          else (Inr (), s\<lparr>passkeys := AList.update i (existing\<lparr>pkName := name\<rparr>) (passkeys s)\<rparr>))"

text \<open>\<^verbatim>\<open>sortPasskeys\<close> is an insertion sort, newest first.  One round of its outer loop takes the element
  at position \<open>i\<close> down past every older neighbour: with the sorted part reversed, so that its last
  element comes first, that is an insertion before the first element that is not older.\<close>

fun sink :: "passkey \<Rightarrow> passkey list \<Rightarrow> passkey list" where
  "sink p [] = [p]"
| "sink p (q # qs) = (if pkCreatedAt q < pkCreatedAt p then q # sink p qs else p # q # qs)"

definition sortPasskeys :: "passkey list \<Rightarrow> passkey list" where
  "sortPasskeys ps = rev (foldl (\<lambda>done p. sink p done) [] ps)"

definition ListPasskeys :: "string \<Rightarrow> memory \<Rightarrow> passkey list" where
  "ListPasskeys owner s = sortPasskeys (filter (\<lambda>p. pkOwner p = owner) (map snd (passkeys s)))"

definition GetPasskey :: "string \<Rightarrow> memory \<Rightarrow> passkey res" where
  "GetPasskey i s =
     (case map_of (passkeys s) i of None \<Rightarrow> Inl (Sentinel ErrPasskeyNotFound) | Some p \<Rightarrow> Inr p)"

definition DeletePasskey :: "string \<Rightarrow> string \<Rightarrow> memory \<Rightarrow> unit res \<times> memory" where
  "DeletePasskey owner i s =
     (case map_of (passkeys s) i of
        None \<Rightarrow> (Inl (Sentinel ErrPasskeyNotFound), s)
      | Some p \<Rightarrow>
          if pkOwner p \<noteq> owner then (Inl (Sentinel ErrPasskeyNotFound), s)
          else (Inr (), s\<lparr>passkeys := AList.delete i (passkeys s)\<rparr>))"

end
