(* ===== verification/Storage_Laws.thy ===== *)
theory Storage_Laws
  imports Storage_Memory "HOL-Library.Multiset"
begin

text \<open>
  What the storage promises: its tables have a primary key and a unique index, every method keeps
  that, and a credential (an API token, a browser session) is found by its hash exactly as long as
  it was saved and not removed.
\<close>

section \<open>Tables\<close>

text \<open>
  A table: every row stands under its own primary key, no key twice, and no two rows agree on the
  attribute that carries a unique index.  A row whose attribute is \<open>None\<close> is not indexed.
\<close>

definition table_ok :: "('v \<Rightarrow> 'k) \<Rightarrow> ('v \<Rightarrow> 'u option) \<Rightarrow> ('k, 'v) amap \<Rightarrow> bool" where
  "table_ok kf uf m \<longleftrightarrow>
     amap_ok m \<and> (\<forall>(k, v) \<in> set m. k = kf v) \<and>
     (\<forall>(k, v) \<in> set m. \<forall>(j, w) \<in> set m. uf v \<noteq> None \<longrightarrow> uf v = uf w \<longrightarrow> k = j)"

lemma table_okI:
  assumes "amap_ok m" "\<And>k v. (k, v) \<in> set m \<Longrightarrow> k = kf v"
    and "\<And>k v j w. (k, v) \<in> set m \<Longrightarrow> (j, w) \<in> set m \<Longrightarrow> uf v \<noteq> None \<Longrightarrow> uf v = uf w \<Longrightarrow> k = j"
  shows "table_ok kf uf m"
  using assms unfolding table_ok_def by blast

lemma table_okD:
  assumes "table_ok kf uf m"
  shows "amap_ok m" and "(k, v) \<in> set m \<Longrightarrow> k = kf v"
    and "(k, v) \<in> set m \<Longrightarrow> (j, w) \<in> set m \<Longrightarrow> uf v \<noteq> None \<Longrightarrow> uf v = uf w \<Longrightarrow> k = j \<and> v = w"
proof -
  show ok: "amap_ok m" using assms by (simp add: table_ok_def)
  show "(k, v) \<in> set m \<Longrightarrow> k = kf v" using assms by (auto simp: table_ok_def)
  show "k = j \<and> v = w" if h: "(k, v) \<in> set m" "(j, w) \<in> set m" "uf v \<noteq> None" "uf v = uf w"
  proof
    show "k = j" using assms h unfolding table_ok_def by blast
    then show "v = w" using amap_ok_inj [OF ok] h by blast
  qed
qed

lemma table_ok_Nil [simp]: "table_ok kf uf []"
  by (simp add: table_ok_def)

lemma table_ok_update [intro]:
  assumes ok: "table_ok kf uf m"
    and free: "\<And>k w. (k, w) \<in> set m \<Longrightarrow> uf w = uf v \<Longrightarrow> uf v \<noteq> None \<Longrightarrow> k = kf v"
    and i: "i = kf v"
  shows "table_ok kf uf (AList.update i v m)"
proof (rule table_okI)
  note am = table_okD(1) [OF ok]
  show "amap_ok (AList.update i v m)" using am by (rule amap_ok_update)
  show "k = kf x" if "(k, x) \<in> set (AList.update i v m)" for k x
    using that table_okD(2) [OF ok] i by (auto simp: mem_update_iff [OF am] split: if_splits)
  show "k = j" if "(k, x) \<in> set (AList.update i v m)" "(j, y) \<in> set (AList.update i v m)"
    and u: "uf x \<noteq> None" "uf x = uf y" for k x j y
  proof -
    have x: "k = i \<and> x = v \<or> (k, x) \<in> set m" and y: "j = i \<and> y = v \<or> (j, y) \<in> set m"
      using that by (simp_all add: mem_update_iff [OF am] split: if_splits)
    from x y consider "k = i" "j = i" | "x = v" "k = i" "(j, y) \<in> set m"
      | "y = v" "j = i" "(k, x) \<in> set m" | "(k, x) \<in> set m" "(j, y) \<in> set m" by blast
    then show "k = j"
    proof cases
      case 2
      then show ?thesis using free [of j y] u i by simp
    next
      case 3
      then show ?thesis using free [of k x] u i by simp
    next
      case 4
      then show ?thesis using table_okD(3) [OF ok] u by blast
    qed simp
  qed
qed

lemma table_ok_subset:
  assumes "table_ok kf uf m" "amap_ok n" "set n \<subseteq> set m"
  shows "table_ok kf uf n"
  using assms unfolding table_ok_def by blast

lemma table_ok_filter [intro]: "table_ok kf uf m \<Longrightarrow> table_ok kf uf (filter P m)"
  by (rule table_ok_subset) (auto dest: table_okD(1))

lemma table_ok_delete [intro]: "table_ok kf uf m \<Longrightarrow> table_ok kf uf (AList.delete k m)"
  by (simp add: AList.delete_eq table_ok_filter)

lemma table_ok_map [intro]:
  assumes ok: "table_ok kf uf m" and f: "\<And>k v. kf (f k v) = kf v" "\<And>k v. uf (f k v) = uf v"
  shows "table_ok kf uf (map (\<lambda>(k, v). (k, f k v)) m)"
proof (rule table_okI)
  show "amap_ok (map (\<lambda>(k, v). (k, f k v)) m)" using table_okD(1) [OF ok] by (rule amap_ok_map_snd)
  show "k = kf v" if "(k, v) \<in> set (map (\<lambda>(k, v). (k, f k v)) m)" for k v
    using that table_okD(2) [OF ok] f(1) by auto
  show "k = j" if "(k, v) \<in> set (map (\<lambda>(k, v). (k, f k v)) m)"
    "(j, w) \<in> set (map (\<lambda>(k, v). (k, f k v)) m)" "uf v \<noteq> None" "uf v = uf w" for k v j w
    using that table_okD(3) [OF ok, of k _ j] f(2) by auto
qed

text \<open>Replacing a row by one with the same key and the same indexed attribute.\<close>

lemma table_ok_replace:
  assumes ok: "table_ok kf uf m" and k: "map_of m k = Some v" and w: "kf w = kf v" "uf w = uf v"
    and i: "i = kf w"
  shows "table_ok kf uf (AList.update i w m)"
proof (rule table_ok_update [OF ok _ i])
  fix j x
  assume h: "(j, x) \<in> set m" "uf x = uf w" "uf w \<noteq> None"
  have "(k, v) \<in> set m" using k by (rule map_of_SomeD)
  then have "k = kf v" "j = k" using table_okD(2,3) [OF ok] h w by auto
  then show "j = kf w" using w by simp
qed

lemma table_ok_key: "table_ok kf uf m \<Longrightarrow> map_of m k = Some v \<Longrightarrow> kf v = k"
  using table_okD(2) map_of_SomeD by fastforce

section \<open>The invariant of the storage\<close>

text \<open>The index on the public key of a device leaves out the empty one.\<close>

definition pub_index :: "device \<Rightarrow> string option" where
  "pub_index d = (if devPublicKey d = [] then None else Some (devPublicKey d))"

abbreviation db_ok :: "(dev_key, device) amap \<Rightarrow> bool" where
  "db_ok \<equiv> table_ok key pub_index"

definition store_ok :: "memory \<Rightarrow> bool" where
  "store_ok s \<longleftrightarrow>
     db_ok (db s) \<and>
     table_ok usrSubject (\<lambda>_. None :: unit option) (users s) \<and>
     table_ok pkID (\<lambda>_. None :: unit option) (passkeys s) \<and>
     table_ok tokID (\<lambda>t. Some (tokHash t)) (tokens s) \<and>
     table_ok sesID (\<lambda>x. Some (sesHash x)) (sessions s)"

lemma store_okD:
  assumes "store_ok s"
  shows "db_ok (db s)" "table_ok usrSubject (\<lambda>_. None :: unit option) (users s)"
    "table_ok pkID (\<lambda>_. None :: unit option) (passkeys s)"
    "table_ok tokID (\<lambda>t. Some (tokHash t)) (tokens s)"
    "table_ok sesID (\<lambda>x. Some (sesHash x)) (sessions s)"
  using assms by (simp_all add: store_ok_def)

lemma pub_unique:
  assumes "db_ok m" "(k, d) \<in> set m" "(j, e) \<in> set m" "devPublicKey d = devPublicKey e" "devPublicKey d \<noteq> []"
  shows "k = j \<and> d = e"
  using table_okD(3) [OF assms(1-3)] assms(4,5) by (simp add: pub_index_def)

lemma key_simps [simp]:
  "key (d\<lparr>devDisabled := b\<rparr>) = key d" "key (d\<lparr>devExpiresAt := x\<rparr>) = key d"
  "key (d\<lparr>devRoutes := r\<rparr>) = key d" "key (d\<lparr>devPublicKey := p\<rparr>) = key d"
  "key (d\<lparr>devPresharedKey := p\<rparr>) = key d" "key (d\<lparr>devName := n\<rparr>) = (devOwner d, n)"
  "key (apply_update u d) = key d" "devPublicKey (apply_update u d) = devPublicKey d"
  "pub_index (apply_update u d) = pub_index d" "pub_index (d\<lparr>devDisabled := b\<rparr>) = pub_index d"
  "pub_index (d\<lparr>devExpiresAt := x\<rparr>) = pub_index d" "pub_index (d\<lparr>devRoutes := r\<rparr>) = pub_index d"
  "pub_index (d\<lparr>devName := n\<rparr>) = pub_index d" "pub_index (d\<lparr>devPresharedKey := p\<rparr>) = pub_index d"
  by (simp_all add: pub_index_def key_def apply_update_def Let_def split: option.splits)

lemma db_ok_record_one: "db_ok m \<Longrightarrow> db_ok (record_one idx m u)"
  by (auto simp: record_one_def split: option.splits)

lemma db_ok_record: "db_ok m \<Longrightarrow> db_ok (foldl (record_one idx) m us)"
  by (induction us arbitrary: m) (auto intro: db_ok_record_one)

lemma emit_simps [simp]:
  "db (emit es s) = db s" "tokens (emit es s) = tokens s" "users (emit es s) = users s"
  "sessions (emit es s) = sessions s" "passkeys (emit es s) = passkeys s"
  "emitted (emit es s) = emitted s @ es"
  by (simp_all add: emit_def)

section \<open>Every method keeps the invariant\<close>

lemma store_ok_new [simp]: "store_ok NewMemoryStorage"
  by (simp add: store_ok_def NewMemoryStorage_def)

lemma store_ok_emit [simp]: "store_ok (emit es s) = store_ok s"
  by (simp add: store_ok_def)

lemma store_ok_drain [simp]: "store_ok (s\<lparr>emitted := es\<rparr>) = store_ok s"
  by (simp add: store_ok_def)

lemma db_ok_save:
  assumes "db_ok m" "devPublicKey d \<noteq> [] \<longrightarrow> \<not> list_ex (\<lambda>(k, e). devPublicKey e = devPublicKey d \<and> k \<noteq> key d) m"
  shows "db_ok (AList.update (key d) d m)"
proof (rule table_ok_update [OF assms(1)])
  fix k e
  assume "(k, e) \<in> set m" "pub_index e = pub_index d" "pub_index d \<noteq> None"
  then show "k = key d" using assms(2) by (auto simp: pub_index_def list_ex_iff split: if_splits)
qed simp

lemma db_ok_rename:
  assumes ok: "db_ok m" and d: "map_of m k = Some d"
  shows "db_ok (AList.update (devOwner d, n) (d\<lparr>devName := n\<rparr>) (AList.delete (key d) m))"
proof (rule table_ok_update)
  show "db_ok (AList.delete (key d) m)" using ok by (rule table_ok_delete)
  show "(devOwner d, n) = key (d\<lparr>devName := n\<rparr>)" by simp
next
  fix j e
  assume h: "(j, e) \<in> set (AList.delete (key d) m)" "pub_index e = pub_index (d\<lparr>devName := n\<rparr>)"
    "pub_index (d\<lparr>devName := n\<rparr>) \<noteq> None"
  then have "j = k" using table_okD(3) [OF ok, of j e k d] map_of_SomeD [OF d]
    by (auto simp: mem_delete_iff)
  moreover have "key d = k" using ok d by (rule table_ok_key)
  ultimately show "j = key (d\<lparr>devName := n\<rparr>)" using h by (simp add: mem_delete_iff)
qed

lemma dev_key: "db_ok m \<Longrightarrow> map_of m k = Some d \<Longrightarrow> key d = k"
  by (rule table_ok_key)

lemma store_keys:
  assumes "store_ok s"
  shows "map_of (db s) k = Some d \<Longrightarrow> key d = k" "map_of (users s) i = Some u \<Longrightarrow> usrSubject u = i"
    "map_of (passkeys s) i = Some p \<Longrightarrow> pkID p = i" "map_of (tokens s) i = Some t \<Longrightarrow> tokID t = i"
    "map_of (sessions s) i = Some x \<Longrightarrow> sesID x = i"
  using store_okD [OF assms] table_ok_key by metis+

lemma store_ok_Save: "store_ok s \<Longrightarrow> store_ok (snd (Save d s))"
  by (auto simp: Save_def store_ok_def intro!: db_ok_save)

lemma store_ok_RecordMetadata: "store_ok s \<Longrightarrow> store_ok (snd (RecordMetadata us s))"
  by (auto simp: RecordMetadata_def store_ok_def intro: db_ok_record)

lemma store_ok_Delete: "store_ok s \<Longrightarrow> store_ok (snd (Delete d s))"
  by (auto simp: Delete_def store_ok_def)

lemma store_ok_Rename: "store_ok s \<Longrightarrow> store_ok (snd (Rename d n s))"
  by (auto simp: Rename_def store_ok_def Let_def dev_key intro: db_ok_rename split: option.splits)

lemma store_ok_SetAccess: "store_ok s \<Longrightarrow> store_ok (snd (SetAccess d b x s))"
  by (auto simp: SetAccess_def store_ok_def Let_def intro: table_ok_replace split: option.splits)

lemma store_ok_SetRoutes: "store_ok s \<Longrightarrow> store_ok (snd (SetRoutes d r s))"
  by (auto simp: SetRoutes_def store_ok_def Let_def intro: table_ok_replace split: option.splits)

lemma db_ok_set_keys:
  assumes "db_ok m" "map_of m (key d) = Some e"
    and "\<not> list_ex (\<lambda>(k, other). devPublicKey other = p \<and> k \<noteq> key d) m"
  shows "db_ok (AList.update (key e) (e\<lparr>devPublicKey := p, devPresharedKey := q\<rparr>) m)"
proof -
  have "key e = key d" using assms(1,2) by (rule dev_key)
  then show ?thesis
    using assms db_ok_save [of m "e\<lparr>devPublicKey := p, devPresharedKey := q\<rparr>"] by simp
qed

lemma store_ok_SetKeys: "store_ok s \<Longrightarrow> store_ok (snd (SetKeys d p q s))"
  by (auto simp: SetKeys_def store_ok_def Let_def intro!: db_ok_set_keys split: option.splits)

lemma store_ok_DeleteForOwner: "store_ok s \<Longrightarrow> store_ok (snd (DeleteForOwner own s))"
  by (auto simp: DeleteForOwner_def store_ok_def Let_def)

lemma store_ok_BlockForOwner: "store_ok s \<Longrightarrow> store_ok (snd (BlockForOwner own s))"
  by (auto simp: BlockForOwner_def store_ok_def Let_def)

lemma store_ok_users:
  assumes "store_ok s" "usrSubject u = i"
  shows "store_ok (s\<lparr>users := AList.update i u (users s)\<rparr>)"
  using assms by (auto simp: store_ok_def)

lemma store_ok_SaveUser: "store_ok s \<Longrightarrow> store_ok (snd (SaveUser u s))"
  by (auto simp: SaveUser_def Let_def intro!: store_ok_users split: option.splits)

lemma store_ok_SetUserTOTP: "store_ok s \<Longrightarrow> store_ok (snd (SetUserTOTP i t s))"
  by (auto simp: SetUserTOTP_def store_keys intro!: store_ok_users split: option.splits)

lemma store_ok_SetUserPassword: "store_ok s \<Longrightarrow> store_ok (snd (SetUserPassword i h f s))"
  by (auto simp: SetUserPassword_def store_keys intro!: store_ok_users split: option.splits)

lemma store_ok_SetWebauthnChallenge: "store_ok s \<Longrightarrow> store_ok (snd (SetWebauthnChallenge i c t s))"
  by (auto simp: SetWebauthnChallenge_def store_keys intro!: store_ok_users split: option.splits)

lemma store_ok_DeleteUser: "store_ok s \<Longrightarrow> store_ok (snd (DeleteUser i s))"
  by (auto simp: DeleteUser_def store_ok_def)

lemma creds_save:
  assumes ok: "table_ok cid (\<lambda>c. Some (hash c)) m"
    and free: "\<not> list_ex (\<lambda>(i, e). hash e = hash c \<and> cid e \<noteq> cid c) m"
  shows "table_ok cid (\<lambda>c. Some (hash c)) (AList.update (cid c) c m)"
proof (rule table_ok_update [OF ok])
  fix i e
  assume "(i, e) \<in> set m" "Some (hash e) = Some (hash c)"
  then show "i = cid c" using free table_okD(2) [OF ok] by (auto simp: list_ex_iff)
qed simp

lemma store_ok_SaveToken: "store_ok s \<Longrightarrow> store_ok (snd (SaveToken t s))"
  by (auto simp: SaveToken_def store_ok_def intro!: creds_save)

lemma store_ok_TouchToken: "store_ok s \<Longrightarrow> store_ok (snd (TouchToken i at s))"
  by (auto simp: TouchToken_def store_ok_def)

lemma store_ok_DeleteToken: "store_ok s \<Longrightarrow> store_ok (snd (DeleteToken i s))"
  by (auto simp: DeleteToken_def store_ok_def split: option.splits)

lemma store_ok_DeleteTokensForOwner: "store_ok s \<Longrightarrow> store_ok (snd (DeleteTokensForOwner own s))"
  by (auto simp: DeleteTokensForOwner_def store_ok_def)

lemma store_ok_SaveSession: "store_ok s \<Longrightarrow> store_ok (snd (SaveSession x s))"
  by (auto simp: SaveSession_def store_ok_def intro!: creds_save)

lemma store_ok_TouchSession: "store_ok s \<Longrightarrow> store_ok (snd (TouchSession i at s))"
  by (auto simp: TouchSession_def store_ok_def split: option.splits)

lemma store_ok_DeleteSession: "store_ok s \<Longrightarrow> store_ok (snd (DeleteSession i s))"
  by (auto simp: DeleteSession_def store_ok_def)

lemma store_ok_DeleteSessionsForOwner: "store_ok s \<Longrightarrow> store_ok (snd (DeleteSessionsForOwner own s))"
  by (auto simp: DeleteSessionsForOwner_def store_ok_def)

lemma store_ok_DeleteExpiredSessions: "store_ok s \<Longrightarrow> store_ok (snd (DeleteExpiredSessions now s))"
  by (auto simp: DeleteExpiredSessions_def store_ok_def)

lemma store_ok_AddPasskey: "store_ok s \<Longrightarrow> store_ok (snd (AddPasskey p s))"
  by (auto simp: AddPasskey_def store_ok_def split: option.splits)

lemma store_ok_UpdatePasskey: "store_ok s \<Longrightarrow> store_ok (snd (UpdatePasskey p s))"
  by (auto simp: UpdatePasskey_def store_ok_def split: option.splits)

lemma store_ok_RenamePasskey: "store_ok s \<Longrightarrow> store_ok (snd (RenamePasskey own i n s))"
  using store_keys(3) [of s i]
  by (auto simp: RenamePasskey_def store_ok_def intro!: table_ok_update split: option.splits)

lemma store_ok_DeletePasskey: "store_ok s \<Longrightarrow> store_ok (snd (DeletePasskey own i s))"
  by (auto simp: DeletePasskey_def store_ok_def split: option.splits)

lemmas store_ok_methods =
  store_ok_Save store_ok_RecordMetadata store_ok_Delete store_ok_Rename store_ok_SetAccess
  store_ok_SetRoutes store_ok_SetKeys store_ok_DeleteForOwner store_ok_BlockForOwner
  store_ok_SaveUser store_ok_SetUserTOTP store_ok_SetUserPassword store_ok_SetWebauthnChallenge
  store_ok_DeleteUser store_ok_SaveToken store_ok_TouchToken store_ok_DeleteToken
  store_ok_DeleteTokensForOwner store_ok_SaveSession store_ok_TouchSession store_ok_DeleteSession
  store_ok_DeleteSessionsForOwner store_ok_DeleteExpiredSessions store_ok_AddPasskey
  store_ok_UpdatePasskey store_ok_RenamePasskey store_ok_DeletePasskey

section \<open>Any sequence of calls\<close>

datatype storage_call =
    CSave device | CRecordMetadata "metadata_update list" | CDelete device | CRename device string
  | CSetAccess device bool "instant option" | CSetRoutes device string | CSetKeys device string string
  | CDeleteForOwner string | CBlockForOwner string
  | CSaveUser user | CSetUserTOTP string totp_state | CSetUserPassword string string string
  | CSetWebauthnChallenge string string "instant option" | CDeleteUser string
  | CSaveToken api_token | CTouchToken string instant | CDeleteToken string | CDeleteTokensForOwner string
  | CSaveSession session | CTouchSession string instant | CDeleteSession string
  | CDeleteSessionsForOwner string | CDeleteExpiredSessions instant
  | CAddPasskey passkey | CUpdatePasskey passkey | CRenamePasskey string string string
  | CDeletePasskey string string

fun storage_step :: "memory \<Rightarrow> storage_call \<Rightarrow> memory" where
  "storage_step s (CSave d) = snd (Save d s)"
| "storage_step s (CRecordMetadata us) = snd (RecordMetadata us s)"
| "storage_step s (CDelete d) = snd (Delete d s)"
| "storage_step s (CRename d n) = snd (Rename d n s)"
| "storage_step s (CSetAccess d b x) = snd (SetAccess d b x s)"
| "storage_step s (CSetRoutes d r) = snd (SetRoutes d r s)"
| "storage_step s (CSetKeys d p q) = snd (SetKeys d p q s)"
| "storage_step s (CDeleteForOwner own) = snd (DeleteForOwner own s)"
| "storage_step s (CBlockForOwner own) = snd (BlockForOwner own s)"
| "storage_step s (CSaveUser u) = snd (SaveUser u s)"
| "storage_step s (CSetUserTOTP i t) = snd (SetUserTOTP i t s)"
| "storage_step s (CSetUserPassword i h f) = snd (SetUserPassword i h f s)"
| "storage_step s (CSetWebauthnChallenge i c t) = snd (SetWebauthnChallenge i c t s)"
| "storage_step s (CDeleteUser i) = snd (DeleteUser i s)"
| "storage_step s (CSaveToken t) = snd (SaveToken t s)"
| "storage_step s (CTouchToken i at) = snd (TouchToken i at s)"
| "storage_step s (CDeleteToken i) = snd (DeleteToken i s)"
| "storage_step s (CDeleteTokensForOwner own) = snd (DeleteTokensForOwner own s)"
| "storage_step s (CSaveSession x) = snd (SaveSession x s)"
| "storage_step s (CTouchSession i at) = snd (TouchSession i at s)"
| "storage_step s (CDeleteSession i) = snd (DeleteSession i s)"
| "storage_step s (CDeleteSessionsForOwner own) = snd (DeleteSessionsForOwner own s)"
| "storage_step s (CDeleteExpiredSessions now) = snd (DeleteExpiredSessions now s)"
| "storage_step s (CAddPasskey p) = snd (AddPasskey p s)"
| "storage_step s (CUpdatePasskey p) = snd (UpdatePasskey p s)"
| "storage_step s (CRenamePasskey own i n) = snd (RenamePasskey own i n s)"
| "storage_step s (CDeletePasskey own i) = snd (DeletePasskey own i s)"

definition run_storage :: "storage_call list \<Rightarrow> memory" where
  "run_storage cs = foldl storage_step NewMemoryStorage cs"

lemma storage_step_ok: "store_ok s \<Longrightarrow> store_ok (storage_step s c)"
  by (cases c) (simp_all add: store_ok_methods)

lemma run_storage_ok: "store_ok (run_storage cs)"
proof -
  have "store_ok s \<Longrightarrow> store_ok (foldl storage_step s cs)" for s
    by (induction cs arbitrary: s) (simp_all add: storage_step_ok)
  then show ?thesis by (simp add: run_storage_def)
qed

section \<open>Metadata\<close>

text \<open>What the updates of one sync do to one device: those that name its key, in their order.\<close>

definition metadata_of :: "metadata_update list \<Rightarrow> device \<Rightarrow> device" where
  "metadata_of us d = foldl (\<lambda>d u. apply_update u d) d (filter (\<lambda>u. updPublicKey u = devPublicKey d) us)"

lemma record_one_map:
  "record_one idx m u =
     map (\<lambda>(j, d). (j, if map_of idx (updPublicKey u) = Some j then apply_update u d else d)) m"
  by (auto simp: record_one_def split: option.splits)

lemma record_all_map:
  "foldl (record_one idx) m us =
     map (\<lambda>(j, d). (j, foldl (\<lambda>d u. apply_update u d) d
                           (filter (\<lambda>u. map_of idx (updPublicKey u) = Some j) us))) m"
  by (induction us arbitrary: m) (auto simp: record_one_map)

lemma by_public_key_iff:
  assumes "db_ok m" "p \<noteq> []"
  shows "map_of (by_public_key m) p = Some k \<longleftrightarrow> (\<exists>d. (k, d) \<in> set m \<and> devPublicKey d = p)"
  using assms(1)
proof (induction m rule: rev_induct)
  case (snoc x m)
  obtain j e where x: "x = (j, e)" by fastforce
  have ok: "db_ok m"
    using snoc.prems by (rule table_ok_subset) (use table_okD(1) [OF snoc.prems] in \<open>auto simp: amap_ok_def\<close>)
  have step: "map_of (by_public_key (m @ [x])) p = (if devPublicKey e = p then Some j else map_of (by_public_key m) p)"
    by (simp add: by_public_key_def x update_conv')
  show ?case
  proof (cases "devPublicKey e = p")
    case True
    have "k = j" if "(k, d) \<in> set m" "devPublicKey d = p" for d
      using that pub_unique [OF snoc.prems, of k d j e] True assms(2) x by simp
    with True show ?thesis using x step by auto
  next
    case False
    then show ?thesis using x step snoc.IH [OF ok] by auto
  qed
qed (simp add: by_public_key_def)

lemma RecordMetadata_db:
  assumes ok: "store_ok s" and us: "\<And>u. u \<in> set us \<Longrightarrow> updPublicKey u \<noteq> []"
  shows "db (snd (RecordMetadata us s)) = map (\<lambda>(k, d). (k, metadata_of us d)) (db s)"
proof -
  have "filter (\<lambda>u. map_of (by_public_key (db s)) (updPublicKey u) = Some k) us
      = filter (\<lambda>u. updPublicKey u = devPublicKey d) us" if kd: "(k, d) \<in> set (db s)" for k d
  proof (rule filter_cong [OF refl])
    fix u
    assume "u \<in> set us"
    then have ne: "updPublicKey u \<noteq> []" by (rule us)
    have "e = d" if "(k, e) \<in> set (db s)" for e
      using amap_ok_inj [OF table_okD(1) [OF store_okD(1) [OF ok]] that kd] .
    then show "map_of (by_public_key (db s)) (updPublicKey u) = Some k \<longleftrightarrow> updPublicKey u = devPublicKey d"
      unfolding by_public_key_iff [OF store_okD(1) [OF ok] ne] using kd by metis
  qed
  then show ?thesis
    by (auto simp: RecordMetadata_def record_all_map metadata_of_def intro!: map_cong)
qed

section \<open>Credentials found by their hash\<close>

text \<open>
  What the token and the session service rely on: a credential that was saved is found by its hash,
  one that was removed, or whose owner was purged, is not, and nothing else changes what is found.
\<close>

locale credential_store =
  fixes inv :: "'s \<Rightarrow> bool"
    and found :: "string \<Rightarrow> 's \<Rightarrow> 'c option"
    and save :: "'c \<Rightarrow> 's \<Rightarrow> unit res \<times> 's"
    and remove :: "string \<Rightarrow> 's \<Rightarrow> 's"
    and purge :: "string \<Rightarrow> 's \<Rightarrow> 's"
    and cid :: "'c \<Rightarrow> string" and owner :: "'c \<Rightarrow> string" and hash :: "'c \<Rightarrow> string"
  assumes inv_save: "inv s \<Longrightarrow> inv (snd (save c s))"
    and inv_remove: "inv s \<Longrightarrow> inv (remove i s)"
    and inv_purge: "inv s \<Longrightarrow> inv (purge u s)"
    and found_hash: "found h s = Some c \<Longrightarrow> hash c = h"
    and found_save: "inv s \<Longrightarrow> fst (save c s) = Inr () \<Longrightarrow> found (hash c) (snd (save c s)) = Some c"
    and found_remove: "inv s \<Longrightarrow> found h (remove i s) =
          (case found h s of None \<Rightarrow> None | Some c \<Rightarrow> if cid c = i then None else Some c)"
    and found_purge: "inv s \<Longrightarrow> found h (purge u s) =
          (case found h s of None \<Rightarrow> None | Some c \<Rightarrow> if owner c = u then None else Some c)"
begin

lemma removed_not_found: "inv s \<Longrightarrow> found h s = Some c \<Longrightarrow> found h (remove (cid c) s) = None"
  by (simp add: found_remove)

lemma purged_not_found: "inv s \<Longrightarrow> found h (purge (owner c) s) \<noteq> Some c"
  by (auto simp: found_purge split: option.splits)

lemma not_found_stays:
  "inv s \<Longrightarrow> found h s = None \<Longrightarrow> found h (remove i s) = None \<and> found h (purge u s) = None"
  by (simp add: found_remove found_purge)

lemma others_kept:
  assumes "inv s" "found h s = Some c"
  shows "cid c \<noteq> i \<Longrightarrow> found h (remove i s) = Some c" "owner c \<noteq> u \<Longrightarrow> found h (purge u s) = Some c"
  using assms by (simp_all add: found_remove found_purge)

lemma save_remove:
  "inv s \<Longrightarrow> fst (save c s) = Inr () \<Longrightarrow> found (hash c) (remove (cid c) (snd (save c s))) = None"
  by (simp add: found_remove found_save inv_save)

end

definition res_option :: "'a res \<Rightarrow> 'a option" where
  "res_option r = (case r of Inl _ \<Rightarrow> None | Inr x \<Rightarrow> Some x)"

lemma res_option_simps [simp]: "res_option (Inl e) = None" "res_option (Inr x) = Some x"
  by (simp_all add: res_option_def)

lemma find_unique:
  assumes "\<And>x y. x \<in> set xs \<Longrightarrow> y \<in> set xs \<Longrightarrow> P x \<Longrightarrow> P y \<Longrightarrow> x = y"
  shows "find P xs = Some x \<longleftrightarrow> x \<in> set xs \<and> P x"
proof
  assume "find P xs = Some x"
  then show "x \<in> set xs \<and> P x" by (auto simp: find_Some_iff)
next
  assume x: "x \<in> set xs \<and> P x"
  then obtain y where "find P xs = Some y" by (metis find_None_iff not_None_eq)
  then show "find P xs = Some x" using x assms by (auto simp: find_Some_iff)
qed

text \<open>In a table with a unique hash, looking up by hash finds the one row with it.\<close>

lemma find_by_hash:
  assumes "table_ok cid (\<lambda>c. Some (hash c)) m"
  shows "find (\<lambda>c. hash c = h) (map snd m) = Some c \<longleftrightarrow> (cid c, c) \<in> set m \<and> hash c = h"
proof -
  have "find (\<lambda>c. hash c = h) (map snd m) = Some c \<longleftrightarrow> c \<in> set (map snd m) \<and> hash c = h"
    using table_okD(3) [OF assms] by (intro find_unique) fastforce
  also have "\<dots> \<longleftrightarrow> (cid c, c) \<in> set m \<and> hash c = h"
    using table_okD(2) [OF assms] by force
  finally show ?thesis .
qed

lemma option_eq_iff: "(\<And>y. x = Some y \<longleftrightarrow> z = Some y) \<Longrightarrow> x = z"
  by (cases x; cases z) auto

lemma kept_Some: "(case x of None \<Rightarrow> None | Some c \<Rightarrow> if P c then Some c else None) = Some c \<longleftrightarrow> x = Some c \<and> P c"
  by (cases x) auto

lemma find_by_hash_keep:
  assumes ok: "table_ok cid (\<lambda>c. Some (hash c)) m" and keep: "\<And>i c. (i, c) \<in> set m \<Longrightarrow> Q i c = P c"
  shows "find (\<lambda>c. hash c = h) (map snd (filter (\<lambda>(i, c). Q i c) m)) =
     (case find (\<lambda>c. hash c = h) (map snd m) of None \<Rightarrow> None | Some c \<Rightarrow> if P c then Some c else None)"
proof (rule option_eq_iff)
  fix c
  have ok': "table_ok cid (\<lambda>c. Some (hash c)) (filter (\<lambda>(i, c). Q i c) m)" using ok by blast
  show "find (\<lambda>c. hash c = h) (map snd (filter (\<lambda>(i, c). Q i c) m)) = Some c \<longleftrightarrow>
     (case find (\<lambda>c. hash c = h) (map snd m) of None \<Rightarrow> None | Some c \<Rightarrow> if P c then Some c else None) = Some c"
    unfolding find_by_hash [OF ok'] kept_Some find_by_hash [OF ok]
    using keep by auto
qed

lemma find_by_hash_save:
  assumes ok: "table_ok cid (\<lambda>c. Some (hash c)) m"
    and free: "\<not> list_ex (\<lambda>(i, e). hash e = hash c \<and> cid e \<noteq> cid c) m"
  shows "find (\<lambda>e. hash e = hash c) (map snd (AList.update (cid c) c m)) = Some c"
  using find_by_hash [OF creds_save [OF ok free]] mem_update_iff [OF table_okD(1) [OF ok]] by metis

lemma delete_as_filter: "AList.delete i m = filter (\<lambda>(j, c). j \<noteq> i) m"
  by (auto simp: AList.delete_eq case_prod_beta' intro: filter_cong)

lemma res_option_lookup:
  "res_option (case x of None \<Rightarrow> Inl e | Some c \<Rightarrow> Inr c) = x"
  by (cases x) simp_all

interpretation tok: credential_store store_ok "\<lambda>h s. res_option (GetTokenByHash h s)" SaveToken
  "\<lambda>i s. snd (DeleteToken i s)" "\<lambda>u s. snd (DeleteTokensForOwner u s)" tokID tokOwner tokHash
proof unfold_locales
  fix s :: memory and c h i u
  show "store_ok s \<Longrightarrow> store_ok (snd (SaveToken c s))" by (rule store_ok_SaveToken)
  show "store_ok s \<Longrightarrow> store_ok (snd (DeleteToken i s))" by (rule store_ok_DeleteToken)
  show "store_ok s \<Longrightarrow> store_ok (snd (DeleteTokensForOwner u s))" by (rule store_ok_DeleteTokensForOwner)
  show "res_option (GetTokenByHash h s) = Some c \<Longrightarrow> tokHash c = h"
    by (auto simp: GetTokenByHash_def find_Some_iff split: option.splits)
  show "store_ok s \<Longrightarrow> fst (SaveToken c s) = Inr () \<Longrightarrow>
      res_option (GetTokenByHash (tokHash c) (snd (SaveToken c s))) = Some c"
    using store_okD(4) [of s]
    by (auto simp: SaveToken_def GetTokenByHash_def find_by_hash_save split: if_splits)
  assume ok: "store_ok s"
  have "tokID t = j" if "(j, t) \<in> set (tokens s)" for j t
    using table_okD(2) [OF store_okD(4) [OF ok] that] by simp
  moreover have "filter (\<lambda>(j, c). j \<noteq> i) (tokens s) = tokens s" if "map_of (tokens s) i = None"
    using that by (force simp: map_of_eq_None_iff intro!: filter_True)
  ultimately show "res_option (GetTokenByHash h (snd (DeleteToken i s))) =
     (case res_option (GetTokenByHash h s) of None \<Rightarrow> None | Some c \<Rightarrow> if tokID c = i then None else Some c)"
    using find_by_hash_keep [OF store_okD(4) [OF ok], of "\<lambda>j c. j \<noteq> i" "\<lambda>c. tokID c \<noteq> i" h]
    by (auto simp: DeleteToken_def GetTokenByHash_def delete_as_filter res_option_lookup
        split: option.splits)
  show "res_option (GetTokenByHash h (snd (DeleteTokensForOwner u s))) =
     (case res_option (GetTokenByHash h s) of None \<Rightarrow> None | Some c \<Rightarrow> if tokOwner c = u then None else Some c)"
    using find_by_hash_keep [OF store_okD(4) [OF ok], of "\<lambda>j c. tokOwner c \<noteq> u" "\<lambda>c. tokOwner c \<noteq> u" h]
    by (auto simp: DeleteTokensForOwner_def GetTokenByHash_def res_option_lookup split: option.splits)
qed

interpretation ses: credential_store store_ok "\<lambda>h s. res_option (GetSessionByHash h s)" SaveSession
  "\<lambda>i s. snd (DeleteSession i s)" "\<lambda>u s. snd (DeleteSessionsForOwner u s)" sesID sesOwner sesHash
proof unfold_locales
  fix s :: memory and c h i u
  show "store_ok s \<Longrightarrow> store_ok (snd (SaveSession c s))" by (rule store_ok_SaveSession)
  show "store_ok s \<Longrightarrow> store_ok (snd (DeleteSession i s))" by (rule store_ok_DeleteSession)
  show "store_ok s \<Longrightarrow> store_ok (snd (DeleteSessionsForOwner u s))" by (rule store_ok_DeleteSessionsForOwner)
  show "res_option (GetSessionByHash h s) = Some c \<Longrightarrow> sesHash c = h"
    by (auto simp: GetSessionByHash_def find_Some_iff split: option.splits)
  show "store_ok s \<Longrightarrow> fst (SaveSession c s) = Inr () \<Longrightarrow>
      res_option (GetSessionByHash (sesHash c) (snd (SaveSession c s))) = Some c"
    using store_okD(5) [of s]
    by (auto simp: SaveSession_def GetSessionByHash_def find_by_hash_save split: if_splits)
  assume ok: "store_ok s"
  have "sesID t = j" if "(j, t) \<in> set (sessions s)" for j t
    using table_okD(2) [OF store_okD(5) [OF ok] that] by simp
  then show "res_option (GetSessionByHash h (snd (DeleteSession i s))) =
     (case res_option (GetSessionByHash h s) of None \<Rightarrow> None | Some c \<Rightarrow> if sesID c = i then None else Some c)"
    using find_by_hash_keep [OF store_okD(5) [OF ok], of "\<lambda>j c. j \<noteq> i" "\<lambda>c. sesID c \<noteq> i" h]
    by (auto simp: DeleteSession_def GetSessionByHash_def delete_as_filter res_option_lookup
        split: option.splits)
  show "res_option (GetSessionByHash h (snd (DeleteSessionsForOwner u s))) =
     (case res_option (GetSessionByHash h s) of None \<Rightarrow> None | Some c \<Rightarrow> if sesOwner c = u then None else Some c)"
    using find_by_hash_keep [OF store_okD(5) [OF ok], of "\<lambda>j c. sesOwner c \<noteq> u" "\<lambda>c. sesOwner c \<noteq> u" h]
    by (auto simp: DeleteSessionsForOwner_def GetSessionByHash_def res_option_lookup split: option.splits)
qed

section \<open>The order of passkeys\<close>

lemma mset_sink [simp]: "mset (sink p ps) = add_mset p (mset ps)"
  by (induction ps) auto

lemma sorted_sink: "sorted (map pkCreatedAt ps) \<Longrightarrow> sorted (map pkCreatedAt (sink p ps))"
proof (induction ps)
  case (Cons q qs)
  have "set (sink p qs) = insert p (set qs)" by (metis mset_sink set_mset_add_mset_insert set_mset_mset)
  with Cons show ?case by auto
qed simp

lemma sortPasskeys_sorted: "sorted (rev (map pkCreatedAt (sortPasskeys ps)))"
proof -
  have "sorted (map pkCreatedAt acc) \<Longrightarrow> sorted (map pkCreatedAt (foldl (\<lambda>done p. sink p done) acc ps))" for acc
    by (induction ps arbitrary: acc) (auto intro: sorted_sink)
  then show ?thesis by (simp add: sortPasskeys_def rev_map)
qed

lemma sortPasskeys_mset: "mset (sortPasskeys ps) = mset ps"
proof -
  have "mset (foldl (\<lambda>done p. sink p done) acc ps) = mset acc + mset ps" for acc
    by (induction ps arbitrary: acc) auto
  then show ?thesis by (simp add: sortPasskeys_def)
qed

end
