(* ===== verification/Network.thy ===== *)
theory Network
  imports Storage_Laws
begin

text \<open>
  The addresses of the VPN (\<^verbatim>\<open>internal/network/network.go\<close>): the server's own addresses, and the
  comma-separated form a device keeps its addresses in.
\<close>

section \<open>Server addresses\<close>

text \<open>One half of \<^verbatim>\<open>ServerVPNIPs\<close>: the first usable address of a network; no prefix for no network.\<close>

definition server_prefix :: "string \<Rightarrow> prefix res" where
  "server_prefix cidr =
     (if cidr = [] then Inr NoPrefix
      else case parse_prefix cidr of
        None \<Rightarrow> Inl (Err ''netip.ParsePrefix'')
      | Some p \<Rightarrow> Inr (prefix_from (next_addr (prefix_addr (masked p))) (prefix_bits p)))"

definition ServerVPNIPs :: "string \<Rightarrow> string \<Rightarrow> (prefix \<times> prefix) res" where
  "ServerVPNIPs cidr cidr6 =
     (case server_prefix cidr of
        Inl e \<Rightarrow> Inl e
      | Inr ipv4 \<Rightarrow>
          (case server_prefix cidr6 of
             Inl e \<Rightarrow> Inl e
           | Inr ipv6 \<Rightarrow> Inr (ipv4, ipv6)))"

definition StringJoinIPNets :: "prefix \<Rightarrow> prefix \<Rightarrow> string" where
  "StringJoinIPNets a b =
     (if prefix_valid a \<and> prefix_valid b then go_join '', '' [prefix_string a, prefix_string b]
      else if prefix_valid a then prefix_string a
      else if prefix_valid b then prefix_string b
      else [])"

definition StringJoinIPs :: "prefix \<Rightarrow> prefix \<Rightarrow> string" where
  "StringJoinIPs a b =
     (if prefix_valid a \<and> prefix_valid b
      then go_join '', '' [addr_string (prefix_addr a), addr_string (prefix_addr b)]
      else if prefix_valid a then addr_string (prefix_addr a)
      else if prefix_valid b then addr_string (prefix_addr b)
      else [])"

section \<open>Addresses of a device\<close>

definition SplitAddresses :: "string \<Rightarrow> string list" where
  "SplitAddresses addresses = map trim_space (split_byte CHR '','' addresses)"

text \<open>An entry is a prefix or a bare address; what is neither is set aside.\<close>

definition parse_entry :: "string \<Rightarrow> addr option" where
  "parse_entry s =
     (case parse_prefix s of
        Some p \<Rightarrow> Some (prefix_addr p)
      | None \<Rightarrow> parse_addr s)"

definition ParseAddresses :: "string \<Rightarrow> addr list \<times> string list" where
  "ParseAddresses addresses =
     (let split = SplitAddresses addresses in
      (List.map_filter parse_entry split, filter (\<lambda>s. parse_entry s = None) split))"

section \<open>Networks of the standard library\<close>

text \<open>\<^verbatim>\<open>net.ParseCIDR\<close>: the address and the number of leading bits.  Unlike \<^verbatim>\<open>netip.ParsePrefix\<close> it cuts at
  the first slash and takes leading zeros in the number.\<close>

definition parse_mask :: "string \<Rightarrow> nat option" where
  "parse_mask s =
     (if s = [] \<or> \<not> list_all is_dec s then None
      else Some (foldl (\<lambda>a c. a * 10 + dec_val c) 0 s))"

definition ParseCIDR :: "string \<Rightarrow> (addr \<times> nat) option" where
  "ParseCIDR s =
     (case cut_byte CHR ''/'' s of
        None \<Rightarrow> None
      | Some (a, m) \<Rightarrow>
          (case parse_addr a of
             None \<Rightarrow> None
           | Some ip \<Rightarrow>
               if zone_of ip \<noteq> [] then None
               else (case parse_mask m of
                   None \<Rightarrow> None
                 | Some n \<Rightarrow> if n > bit_len ip then None else Some (ip, n))))"

text \<open>\<^verbatim>\<open>IPNet.String\<close> of an address with the mask of a network: an IPv4-mapped address is printed as the
  IPv4 address it holds, with the last 32 bits of the mask.\<close>

definition ipnet_string :: "addr \<Rightarrow> nat \<Rightarrow> string" where
  "ipnet_string a n =
     (if is4in6 a then addr_string (unmap a) @ ''/'' @ itoa (n - 96) else addr_string a @ ''/'' @ itoa n)"

text \<open>The network \<^verbatim>\<open>ParseCIDR\<close> returns, printed.\<close>

definition cidr_network :: "string \<Rightarrow> string option" where
  "cidr_network s =
     (case ParseCIDR s of
        None \<Rightarrow> None
      | Some (ip, n) \<Rightarrow> Some (ipnet_string (prefix_addr (addr_prefix ip n)) n))"

section \<open>What was joined is read back\<close>

text \<open>Both forms of splitting read back a list of prefixes that was joined for storing.\<close>

lemma parse_entry_prefix: "prefix_valid p \<Longrightarrow> parse_entry (prefix_string p) = Some (prefix_addr p)"
  by (simp add: parse_entry_def parse_prefix_string)

lemma SplitAddresses_join:
  assumes "ps \<noteq> []" "\<And>p. p \<in> set ps \<Longrightarrow> prefix_valid p"
  shows "SplitAddresses (go_join '', '' (map prefix_string ps)) = map prefix_string ps"
  unfolding SplitAddresses_def
  by (rule split_comma_join) (use assms prefix_string_clean in auto)

lemma map_filter_Some: "(\<And>x. x \<in> set xs \<Longrightarrow> f x = Some (g x)) \<Longrightarrow> List.map_filter f xs = map g xs"
  by (induction xs) (auto simp: List.map_filter_def)

lemma ParseAddresses_join:
  assumes "ps \<noteq> []" "\<And>p. p \<in> set ps \<Longrightarrow> prefix_valid p"
  shows "ParseAddresses (go_join '', '' (map prefix_string ps)) = (map prefix_addr ps, [])"
proof -
  have "List.map_filter parse_entry (map prefix_string ps) = map prefix_addr ps"
    using assms(2) parse_entry_prefix by (induction ps) (auto simp: List.map_filter_def)
  moreover have "filter (\<lambda>s. parse_entry s = None) (map prefix_string ps) = []"
    using assms(2) parse_entry_prefix by (auto simp: filter_empty_conv)
  ultimately show ?thesis
    by (simp add: ParseAddresses_def SplitAddresses_join [OF assms])
qed

lemma splitList_prefixes:
  "(\<And>p. p \<in> set ps \<Longrightarrow> prefix_valid p) \<Longrightarrow>
     splitList (go_join '', '' (map prefix_string ps)) = map prefix_string ps"
  by (rule splitList_join) (use prefix_string_clean in auto)

text \<open>The client and the server side agree on which address is the server's.\<close>

lemma server_prefix_addr:
  assumes "parse_prefix cidr = Some p" "cidr \<noteq> []" "next_addr (prefix_addr (masked p)) \<noteq> NoAddr"
    and "prefix_valid p"
  shows "\<exists>q. server_prefix cidr = Inr q \<and> prefix_valid q \<and> prefix_addr q = next_addr (prefix_addr (masked p))"
proof -
  let ?n = "next_addr (prefix_addr (masked p))"
  have "prefix_bits p \<le> bit_len ?n \<and> zone_of ?n = []"
    using assms(3,4)
    by (cases p; cases "prefix_addr p") (auto simp: masked_def prefix_valid_def split: if_splits)
  then show ?thesis
    using assms by (simp add: server_prefix_def prefix_from_def prefix_valid_def with_zone_id)
qed

end
