(* ===== verification/Claims.thy ===== *)
theory Claims
  imports Go_Strings
begin

text \<open>
  Who a request acts as (\<^verbatim>\<open>internal/authnz/authsession\<close>): the identity and its claims, a login that
  waits for its second factor, and what the context of a request says of its caller.
\<close>

section \<open>Claims\<close>

record claim =
  claimName :: string
  claimValue :: string

type_synonym claims = "claim list"

definition AdminClaim :: string where "AdminClaim = ''admin''"
definition PolicyClaim :: string where "PolicyClaim = ''policy''"

definition claims_Add :: "string \<Rightarrow> string \<Rightarrow> claims \<Rightarrow> claims" where
  "claims_Add name value c = c @ [\<lparr>claimName = name, claimValue = value\<rparr>]"

definition claims_Contains :: "claims \<Rightarrow> string \<Rightarrow> bool" where
  "claims_Contains c name = list_ex (\<lambda>curr. claimName curr = name) c"

definition claims_Has :: "claims \<Rightarrow> string \<Rightarrow> string \<Rightarrow> bool" where
  "claims_Has c name value = list_ex (\<lambda>curr. claimName curr = name \<and> claimValue curr = value) c"

definition claims_Values :: "claims \<Rightarrow> string \<Rightarrow> string list" where
  "claims_Values c name = map claimValue (filter (\<lambda>curr. claimName curr = name) c)"

definition IsAdmin :: "claims \<Rightarrow> bool" where
  "IsAdmin c = claims_Has c AdminClaim ''true''"

definition MakeAdmin :: "claims \<Rightarrow> claims" where
  "MakeAdmin c = claims_Add AdminClaim ''true'' c"

section \<open>Identities and sessions\<close>

record identity =
  idProvider :: string
  idSubject :: string
  idName :: string
  idEmail :: string
  idClaims :: claims

record pending_login =
  pendSubject :: string
  pendProvider :: string
  pendUntil :: instant

definition pending_Valid :: "pending_login option \<Rightarrow> instant \<Rightarrow> bool" where
  "pending_Valid p now =
     (case p of None \<Rightarrow> False | Some q \<Rightarrow> pendSubject q \<noteq> [] \<and> now < pendUntil q)"

text \<open>What the context of a request carries: nothing, or a session.\<close>

record auth_session =
  asState :: "string option"
  asNonce :: "string option"
  asVerifier :: "string option"
  asID :: string
  asIdentity :: "identity option"
  asAPIToken :: string
  asPending :: "pending_login option"

type_synonym ctx = "auth_session option"

definition CurrentSessionID :: "ctx \<Rightarrow> string" where
  "CurrentSessionID ctx = (case ctx of None \<Rightarrow> [] | Some s \<Rightarrow> asID s)"

definition CurrentUser :: "ctx \<Rightarrow> identity res" where
  "CurrentUser ctx =
     (case ctx of
        None \<Rightarrow> Inl (Err ''Unauthenticated'')
      | Some s \<Rightarrow>
          (case asIdentity s of
             None \<Rightarrow> Inl (Err ''Unauthenticated'')
           | Some i \<Rightarrow> Inr i))"

definition APIToken :: "ctx \<Rightarrow> string" where
  "APIToken ctx = (case ctx of None \<Rightarrow> [] | Some s \<Rightarrow> asAPIToken s)"

definition Authenticated :: "ctx \<Rightarrow> bool" where
  "Authenticated ctx = is_ok (CurrentUser ctx)"

lemma IsAdmin_MakeAdmin [simp]: "IsAdmin (MakeAdmin c)"
  by (simp add: IsAdmin_def MakeAdmin_def claims_Has_def claims_Add_def)

lemma claims_Has_Values: "claims_Has c n v \<longleftrightarrow> v \<in> set (claims_Values c n)"
  by (auto simp: claims_Has_def claims_Values_def list_ex_iff)

lemma IsAdmin_iff: "IsAdmin c \<longleftrightarrow> ''true'' \<in> set (claims_Values c AdminClaim)"
  by (simp add: IsAdmin_def claims_Has_Values)

end
