(* ===== verification/Device_Manager.thy ===== *)
theory Device_Manager
  imports Network Claims
begin

text \<open>
  The device manager (\<^verbatim>\<open>internal/devices/devices.go\<close>): which names, keys and addresses a device may
  have, the walk that finds a free address, and the operations the API calls.

  The WireGuard interface is code of another package, so it is a parameter (\<open>'w wireguard\<close>): adding
  and removing a peer and listing the peers, over a state the manager only hands on.  A storage method
  reports what it changed to the callbacks \<^verbatim>\<open>StartSync\<close> registers; \<open>deliver\<close> is their work, and it
  follows every call of a method that emits events.
\<close>

section \<open>Names and keys\<close>

definition maxDeviceNameLength :: nat where "maxDeviceNameLength = 100"

definition validateDeviceName :: "string \<Rightarrow> unit res" where
  "validateDeviceName name =
     (if trim_space name = [] then Inl (Invalid ''Device name must not be empty.'')
      else if rune_count name > maxDeviceNameLength
        then Inl (Invalid (''Device name must be at most '' @ itoa maxDeviceNameLength @ '' characters long.''))
      else if list_ex is_control (runes name)
        then Inl (Invalid ''Device name must not contain control characters.'')
      else Inr ())"

definition base64_char :: "char \<Rightarrow> bool" where
  "base64_char c =
     ((65 \<le> byte c \<and> byte c \<le> 90) \<or> (97 \<le> byte c \<and> byte c \<le> 122) \<or> is_dec c \<or> c = CHR ''+'' \<or> c = CHR ''/'')"

text \<open>\<^verbatim>\<open>wgKeyRegex\<close>: 42 base64 characters, one that leaves the last two bits clear, and the padding.\<close>

definition wgKey :: "string \<Rightarrow> bool" where
  "wgKey s =
     (length s = 44 \<and> list_all base64_char (take 42 s) \<and>
      s ! 42 \<in> set ''AEIMQUYcgkosw048'' \<and> s ! 43 = CHR ''='')"

section \<open>State\<close>

record peer =
  peerPublicKey :: string
  peerPresharedKey :: string
  peerAllowedIPs :: "string list"
  peerEndpoint :: "string option"
  peerLastHandshakeTime :: instant
  peerReceiveBytes :: int64
  peerTransmitBytes :: int64

text \<open>What the manager calls of \<^verbatim>\<open>wgembed.WireGuardInterface\<close>, and of \<^verbatim>\<open>wgtypes\<close> the parser of keys:
  the result is the key printed back.\<close>

record 'w wireguard =
  AddPeer :: "string \<Rightarrow> string \<Rightarrow> string list \<Rightarrow> 'w \<Rightarrow> go_error option \<times> 'w"
  RemovePeer :: "string \<Rightarrow> 'w \<Rightarrow> go_error option \<times> 'w"
  ListPeers :: "'w \<Rightarrow> peer list res"
  ParseKey :: "string \<Rightarrow> string option"

record firewall_state =
  Routed :: "string list"
  Policies :: "(string, string list) amap"

text \<open>The manager.  \<open>firewall\<close> is what \<^verbatim>\<open>firewallSync\<close> was told last, \<open>resync\<close> whether the one slot of
  the channel is taken.\<close>

record 'w manager =
  storage :: memory
  wg :: 'w
  cidr :: string
  cidrv6 :: string
  maxDevicesPerUser :: int
  firewall :: firewall_state
  resync :: bool

definition Resync :: "'w manager \<Rightarrow> 'w manager" where
  "Resync d = d\<lparr>resync := True\<rparr>"

definition applyPeer :: "'w wireguard \<Rightarrow> instant \<Rightarrow> device \<Rightarrow> 'w manager \<Rightarrow> go_error option \<times> 'w manager" where
  "applyPeer W now dev d =
     (if \<not> AccessAllowed dev now then
        (case RemovePeer W (devPublicKey dev) (wg d) of
           (None, w) \<Rightarrow> (None, d\<lparr>wg := w\<rparr>)
         | (Some e, w) \<Rightarrow>
             (Some (wrap_err ''failed to remove the peer of a device that may not connect'' e), d\<lparr>wg := w\<rparr>))
      else
        (case AddPeer W (devPublicKey dev) (devPresharedKey dev) (AllowedIPs dev) (wg d) of
           (e, w) \<Rightarrow> (e, d\<lparr>wg := w\<rparr>)))"

text \<open>The callbacks of \<^verbatim>\<open>StartSync\<close>.  An error is logged and nothing else.\<close>

fun on_event :: "'w wireguard \<Rightarrow> instant \<Rightarrow> 'w manager \<Rightarrow> event \<Rightarrow> 'w manager" where
  "on_event W now d (Added dev) = Resync (snd (applyPeer W now dev d))"
| "on_event W now d (Updated dev) = Resync (snd (applyPeer W now dev d))"
| "on_event W now d (Deleted dev) = Resync (d\<lparr>wg := snd (RemovePeer W (devPublicKey dev) (wg d))\<rparr>)"

definition deliver :: "'w wireguard \<Rightarrow> instant \<Rightarrow> 'w manager \<Rightarrow> 'w manager" where
  "deliver W now d =
     foldl (on_event W now) (d\<lparr>storage := (storage d)\<lparr>emitted := []\<rparr>\<rparr>) (emitted (storage d))"

text \<open>Calling a storage method and handling the events it emits.\<close>

definition call :: "'w wireguard \<Rightarrow> instant \<Rightarrow> (memory \<Rightarrow> 'a res \<times> memory) \<Rightarrow> 'w manager \<Rightarrow> 'a res \<times> 'w manager" where
  "call W now f d = (case f (storage d) of (r, s) \<Rightarrow> (r, deliver W now (d\<lparr>storage := s\<rparr>)))"

section \<open>Addresses\<close>

text \<open>The keys of the two maps \<^verbatim>\<open>usedAddresses\<close> returns.\<close>

definition all_addresses :: "memory \<Rightarrow> addr list" where
  "all_addresses s = concat (map (\<lambda>a. fst (ParseAddresses a)) (Addresses s))"

definition usedAddresses :: "memory \<Rightarrow> addr list \<times> addr list" where
  "usedAddresses s = (filter is4 (all_addresses s), filter (\<lambda>a. \<not> is4 a) (all_addresses s))"

text \<open>How many addresses are left from an address on: the walk ends.\<close>

fun addr_left :: "addr \<Rightarrow> nat" where
  "addr_left NoAddr = 0"
| "addr_left (V4 w) = 2 ^ 32 - unat w"
| "addr_left (V6 w z) = 2 ^ 128 - unat w"

lemma unat_succ: "w + 1 \<noteq> 0 \<Longrightarrow> unat (w + 1) = unat w + 1" for w :: "'a::len word"
  by (metis Suc_eq_plus1 unatSuc add.commute)

lemma addr_left_next: "a \<noteq> NoAddr \<Longrightarrow> addr_left (next_addr a) < addr_left a"
proof (cases a)
  case (V4 w)
  then show ?thesis using unat_bound32 [of w] by (auto simp: unat_succ)
next
  case (V6 w z)
  then show ?thesis using unat_bound128 [of w] by (auto simp: unat_succ)
qed simp

lemma not_contains_NoAddr [simp]: "\<not> prefix_contains p NoAddr"
  by (cases p rule: prefix.exhaust) (auto elim: prefix_contains.elims)

function first_free :: "prefix \<Rightarrow> addr list \<Rightarrow> addr \<Rightarrow> addr option" where
  "first_free p used ip =
     (if \<not> prefix_contains p ip then None
      else if \<not> List.member used ip then Some ip
      else first_free p used (next_addr ip))"
  by pat_completeness auto

termination
  by (relation "measure (\<lambda>(p, used, ip). addr_left ip)") (auto intro!: addr_left_next)

declare first_free.simps [simp del]

section \<open>Choosing an address\<close>

text \<open>One family of \<^verbatim>\<open>nextClientAddressLocked\<close>: the string of the first free address as a prefix of
  one address, empty when there is none.  \<^verbatim>\<open>MustParsePrefix\<close> panics on what is not a prefix.\<close>

definition host_prefix :: "addr \<Rightarrow> prefix" where
  "host_prefix a = prefix_from a (bit_len a)"

definition next_in :: "string \<Rightarrow> addr list \<Rightarrow> string res" where
  "next_in net used =
     (if net = [] then Inr []
      else case parse_prefix net of
        None \<Rightarrow> Inl (Panic ''netip.MustParsePrefix'')
      | Some subnet \<Rightarrow>
          (let start = prefix_addr (masked subnet);
               used' = next_addr start # start # used in
           case first_free subnet used' (next_addr (next_addr start)) of
             None \<Rightarrow> Inr []
           | Some ip \<Rightarrow> Inr (prefix_string (host_prefix ip))))"

definition nextClientAddressLocked :: "'w manager \<Rightarrow> string res" where
  "nextClientAddressLocked d =
     (case usedAddresses (storage d) of (usedIPv4s, usedIPv6s) \<Rightarrow>
      (case next_in (cidr d) usedIPv4s of
         Inl e \<Rightarrow> Inl e
       | Inr ipv4 \<Rightarrow>
      (case next_in (cidrv6 d) usedIPv6s of
         Inl e \<Rightarrow> Inl e
       | Inr ipv6 \<Rightarrow>
          if ipv4 \<noteq> [] then
            (if ipv6 \<noteq> [] then Inr (ipv4 @ '', '' @ ipv6)
             else if cidrv6 d \<noteq> [] then
               Inl (Err (''there are no free IP addresses in the vpn subnet: '' @ quoted (cidrv6 d)))
             else Inr ipv4)
          else if ipv6 \<noteq> [] then
            (if cidr d \<noteq> [] then
               Inl (Err (''there are no free IP addresses in the vpn subnet: '' @ quoted (cidr d)))
             else Inr ipv6)
          else
            Inl (Err (''there are no free IP addresses in the vpn subnets: '' @ quoted (cidr d)
                      @ '', '' @ quoted (cidrv6 d))))))"

text \<open>One family of the manual assignment in \<^verbatim>\<open>addDeviceLocked\<close>, with the words its messages use.  The
  result is empty when no address was asked for.\<close>

definition manual_in :: "string \<Rightarrow> (addr \<Rightarrow> bool) \<Rightarrow> string \<Rightarrow> string \<Rightarrow> addr list \<Rightarrow> string res" where
  "manual_in fam is_fam net manual used =
     (if manual = [] then Inr []
      else if net = [] then
        Inl (Invalid (''Manual '' @ fam @ '' assignment not possible, '' @ fam @ '' subnet is not configured.''))
      else case parse_addr manual of
        None \<Rightarrow> Inl (Invalid (''Manual '' @ fam @ '' address is not a valid address.''))
      | Some ip \<Rightarrow>
          if \<not> is_fam ip then
            Inl (Invalid (''Manual '' @ fam @ '' address is not a valid '' @ fam @ '' address.''))
          else (case parse_prefix net of
            None \<Rightarrow> Inl (Panic ''netip.MustParsePrefix'')
          | Some subnet \<Rightarrow>
              if \<not> prefix_contains subnet ip then
                Inl (Invalid (''Manual '' @ fam @ '' address '' @ manual @ '' is not in the configured subnet '' @ net @ ''.''))
              else (let start = prefix_addr (masked subnet) in
                if ip = start \<or> ip = next_addr start then
                  Inl (Invalid (''Manual '' @ fam @ '' address '' @ manual @ '' is reserved.''))
                else if List.member used ip then
                  Inl (Invalid (''Manual '' @ fam @ '' address '' @ manual @ '' is already in use.''))
                else Inr (prefix_string (host_prefix ip)))))"

definition manualAddress :: "string \<Rightarrow> string \<Rightarrow> 'w manager \<Rightarrow> string res" where
  "manualAddress manualIPv4 manualIPv6 d =
     (if manualIPv4 = [] \<and> manualIPv6 = [] then
        Inl (Invalid ''Manual IP assignment enabled but no IP address provided.'')
      else
      (case usedAddresses (storage d) of (usedIPv4s, usedIPv6s) \<Rightarrow>
      (case manual_in ''IPv4'' is4 (cidr d) manualIPv4 usedIPv4s of
         Inl e \<Rightarrow> Inl e
       | Inr ipv4Addr \<Rightarrow>
      (case manual_in ''IPv6'' is6 (cidrv6 d) manualIPv6 usedIPv6s of
         Inl e \<Rightarrow> Inl e
       | Inr ipv6Addr \<Rightarrow>
          Inr (if ipv4Addr \<noteq> [] \<and> ipv6Addr \<noteq> [] then ipv4Addr @ '', '' @ ipv6Addr
               else if ipv4Addr \<noteq> [] then ipv4Addr
               else ipv6Addr)))))"

section \<open>Adding a device\<close>

record add_request =
  reqName :: string
  reqPublicKey :: string
  reqPresharedKey :: string
  reqManualIPAssignment :: bool
  reqManualIPv4Address :: string
  reqManualIPv6Address :: string

definition new_device :: "identity \<Rightarrow> add_request \<Rightarrow> string \<Rightarrow> instant \<Rightarrow> device" where
  "new_device ident r address now =
     \<lparr>devOwner = idSubject ident, devOwnerName = idName ident, devOwnerEmail = idEmail ident,
      devOwnerProvider = idProvider ident, devName = reqName r, devPublicKey = reqPublicKey r,
      devPresharedKey = reqPresharedKey r, devAddress = address, devCreatedAt = now,
      devDisabled = False, devExpiresAt = None, devRoutes = [], devLastHandshakeTime = None,
      devReceiveBytes = 0, devTransmitBytes = 0, devEndpoint = []\<rparr>"

definition clientAddress :: "add_request \<Rightarrow> 'w manager \<Rightarrow> string res" where
  "clientAddress r d =
     (if reqManualIPAssignment r
      then manualAddress (reqManualIPv4Address r) (reqManualIPv6Address r) d
      else (case nextClientAddressLocked d of
          Inl e \<Rightarrow> Inl (wrap_err ''failed to generate an ip address for device'' e)
        | Inr a \<Rightarrow> Inr a))"

definition addDeviceLocked ::
  "'w wireguard \<Rightarrow> instant \<Rightarrow> identity \<Rightarrow> add_request \<Rightarrow> 'w manager \<Rightarrow> device res \<times> 'w manager" where
  "addDeviceLocked W now ident r d =
     (let devices = List_devices (idSubject ident) (storage d) in
      if list_ex (\<lambda>x. devName x = reqName r) devices then
        (Inl (Invalid ''Device name already taken.''), d)
      else if maxDevicesPerUser d > 0 \<and> int (length devices) \<ge> maxDevicesPerUser d then
        (Inl (Invalid (''You already have '' @ itoa (nat (maxDevicesPerUser d))
            @ '' devices, which is the maximum allowed. Delete one to add another.'')), d)
      else (case clientAddress r d of
          Inl e \<Rightarrow> (Inl e, d)
        | Inr clientAddr \<Rightarrow>
            (let dev = new_device ident r clientAddr now in
             case call W now (Save dev) d of
               (Inl e, d') \<Rightarrow> (Inl (wrap_err ''failed to save the new device'' e), d')
             | (Inr _, d') \<Rightarrow> (Inr dev, d'))))"

definition AddDevice ::
  "'w wireguard \<Rightarrow> instant \<Rightarrow> identity \<Rightarrow> add_request \<Rightarrow> 'w manager \<Rightarrow> device res \<times> 'w manager" where
  "AddDevice W now ident r d =
     (case validateDeviceName (reqName r) of
        Inl e \<Rightarrow> (Inl e, d)
      | Inr _ \<Rightarrow>
          if \<not> wgKey (reqPublicKey r) then (Inl (Invalid ''Public key has invalid format.''), d)
          else if reqPresharedKey r \<noteq> [] \<and> \<not> wgKey (reqPresharedKey r) then
            (Inl (Invalid ''Pre-shared key has invalid format.''), d)
          else addDeviceLocked W now ident r d)"

section \<open>Changing and removing devices\<close>

definition get_device :: "string \<Rightarrow> string \<Rightarrow> memory \<Rightarrow> device res" where
  "get_device user name s =
     (case Get user name s of
        Inl e \<Rightarrow> Inl (wrap_err ''failed to retrieve device'' e)
      | Inr dev \<Rightarrow> Inr dev)"

definition RenameDevice ::
  "'w wireguard \<Rightarrow> instant \<Rightarrow> string \<Rightarrow> string \<Rightarrow> string \<Rightarrow> 'w manager \<Rightarrow> device res \<times> 'w manager" where
  "RenameDevice W now user name newName d =
     (case validateDeviceName newName of
        Inl e \<Rightarrow> (Inl e, d)
      | Inr _ \<Rightarrow>
          if name = newName then (Get user name (storage d), d)
          else (case get_device user name (storage d) of
              Inl e \<Rightarrow> (Inl e, d)
            | Inr dev \<Rightarrow>
                if list_ex (\<lambda>x. devName x = newName) (List_devices user (storage d)) then
                  (Inl (Invalid ''Device name already taken.''), d)
                else call W now (Rename dev newName) d))"

definition RotateDeviceKey ::
  "'w wireguard \<Rightarrow> instant \<Rightarrow> string \<Rightarrow> string \<Rightarrow> string \<Rightarrow> string \<Rightarrow> 'w manager \<Rightarrow> device res \<times> 'w manager" where
  "RotateDeviceKey W now user name publicKey presharedKey d =
     (if \<not> wgKey publicKey then (Inl (Invalid ''Public key has invalid format.''), d)
      else if presharedKey \<noteq> [] \<and> \<not> wgKey presharedKey then
        (Inl (Invalid ''Pre-shared key has invalid format.''), d)
      else (case get_device user name (storage d) of
          Inl e \<Rightarrow> (Inl e, d)
        | Inr dev \<Rightarrow>
            if devPublicKey dev = publicKey then
              (Inl (Invalid ''This is the key the device already uses.''), d)
            else if is_ok (GetByPublicKey publicKey (storage d)) then
              (Inl (Invalid ''Another device already uses this key.''), d)
            else (case call W now (SetKeys dev publicKey presharedKey) d of
                (Inl e, d') \<Rightarrow> (Inl (wrap_err ''failed to change the keys of the device'' e), d')
              | (Inr changed, d') \<Rightarrow>
                  (let d'' = d'\<lparr>wg := snd (RemovePeer W (devPublicKey dev) (wg d'))\<rparr> in
                   (Inr changed, snd (applyPeer W now changed d''))))))"

record access_change =
  chDisabled :: "bool option"
  chExpiresAt :: "instant option"
  chClearExpiresAt :: bool

definition SetDeviceAccess ::
  "'w wireguard \<Rightarrow> instant \<Rightarrow> string \<Rightarrow> string \<Rightarrow> access_change \<Rightarrow> 'w manager \<Rightarrow> device res \<times> 'w manager" where
  "SetDeviceAccess W now user name change d =
     (case get_device user name (storage d) of
        Inl e \<Rightarrow> (Inl e, d)
      | Inr dev \<Rightarrow>
          (let disabled = (case chDisabled change of None \<Rightarrow> devDisabled dev | Some b \<Rightarrow> b);
               set = (\<lambda>expiresAt.
                 case call W now (SetAccess dev disabled expiresAt) d of
                   (Inl e, d') \<Rightarrow> (Inl (wrap_err ''failed to change the access of the device'' e), d')
                 | (Inr changed, d') \<Rightarrow> (Inr changed, d')) in
           if chClearExpiresAt change then set None
           else (case chExpiresAt change of
               None \<Rightarrow> set (devExpiresAt dev)
             | Some e \<Rightarrow>
                 if \<not> now < e then
                   (Inl (Invalid ''The expiry date must be in the future. Disable the device to end its access now.''), d)
                 else set (Some e))))"

definition DeleteDevice ::
  "'w wireguard \<Rightarrow> instant \<Rightarrow> string \<Rightarrow> string \<Rightarrow> 'w manager \<Rightarrow> unit res \<times> 'w manager" where
  "DeleteDevice W now user name d =
     (case get_device user name (storage d) of
        Inl e \<Rightarrow> (Inl e, d)
      | Inr dev \<Rightarrow> call W now (Delete dev) d)"

definition DeleteDevicesForUser ::
  "'w wireguard \<Rightarrow> instant \<Rightarrow> string \<Rightarrow> 'w manager \<Rightarrow> unit res \<times> 'w manager" where
  "DeleteDevicesForUser W now user d =
     (case call W now (DeleteForOwner user) d of
        (Inl e, d') \<Rightarrow> (Inl (wrap_err (''failed to delete the devices of user '' @ quoted user) e), d')
      | (Inr _, d') \<Rightarrow> (Inr (), d'))"

definition BlockDevicesForUser ::
  "'w wireguard \<Rightarrow> instant \<Rightarrow> string \<Rightarrow> 'w manager \<Rightarrow> nat res \<times> 'w manager" where
  "BlockDevicesForUser W now user d =
     (case call W now (BlockForOwner user) d of
        (Inl e, d') \<Rightarrow> (Inl (wrap_err (''failed to block the devices of user '' @ quoted user) e), d')
      | (Inr blocked, d') \<Rightarrow> (Inr (length blocked), d'))"

definition ForgetUser :: "'w wireguard \<Rightarrow> instant \<Rightarrow> string \<Rightarrow> 'w manager \<Rightarrow> unit res \<times> 'w manager" where
  "ForgetUser W now subject d =
     (case call W now (DeleteUser subject) d of
        (Inl e, d') \<Rightarrow> (Inl (wrap_err (''failed to forget the user '' @ quoted subject) e), d')
      | (Inr _, d') \<Rightarrow> (Inr (), d'))"

section \<open>Listing\<close>

definition fill_owner :: "(string, user) amap \<Rightarrow> device \<Rightarrow> device" where
  "fill_owner known dev =
     (case map_of known (devOwner dev) of
        None \<Rightarrow> dev
      | Some u \<Rightarrow>
          if devOwnerName dev \<noteq> [] \<and> devOwnerEmail dev \<noteq> [] then dev
          else (let d1 = (if devOwnerName dev = [] then dev\<lparr>devOwnerName := usrName u\<rparr> else dev) in
                if devOwnerEmail d1 = [] then d1\<lparr>devOwnerEmail := usrEmail u\<rparr> else d1))"

text \<open>The map of the known users is built from the list; a later entry of a subject replaces an
  earlier one.\<close>

definition withOwnerNames :: "memory \<Rightarrow> device list \<Rightarrow> device list" where
  "withOwnerNames s devices =
     (if \<not> list_ex (\<lambda>dev. devOwnerName dev = [] \<or> devOwnerEmail dev = []) devices then devices
      else map (fill_owner (foldl (\<lambda>m u. AList.update (usrSubject u) u m) [] (Users s))) devices)"

definition ListAllDevices :: "memory \<Rightarrow> device list" where
  "ListAllDevices s = withOwnerNames s (List_devices [] s)"

record listed_user =
  luName :: string
  luDisplayName :: string
  luLastLogin :: "instant option"
  luPolicies :: "string list"
  luTwoFactor :: bool

definition list_stored :: "user \<Rightarrow> listed_user" where
  "list_stored u =
     \<lparr>luName = usrSubject u, luDisplayName = usrName u, luLastLogin = Some (usrLastLogin u),
      luPolicies = PolicyList u, luTwoFactor = TwoFactorEnabled u\<rparr>"

text \<open>One round of the loop over the devices.  The listed users are found by name through pointers, so
  the entry in the list is the one that is changed.\<close>

definition list_owner :: "listed_user list \<Rightarrow> device \<Rightarrow> listed_user list" where
  "list_owner us dev =
     (if list_ex (\<lambda>u. luName u = devOwner dev) us
      then map (\<lambda>u. if luName u = devOwner dev \<and> luDisplayName u = []
                    then u\<lparr>luDisplayName := devOwnerName dev\<rparr> else u) us
      else us @ [\<lparr>luName = devOwner dev, luDisplayName = devOwnerName dev, luLastLogin = None,
                  luPolicies = [], luTwoFactor = False\<rparr>])"

definition ListUsers :: "memory \<Rightarrow> listed_user list" where
  "ListUsers s = sort_key luName (foldl list_owner (map list_stored (Users s)) (List_devices [] s))"

definition IsConnected :: "instant \<Rightarrow> instant \<Rightarrow> bool" where
  "IsConnected now lastHandshake = (now + (- 3 * minute) < lastHandshake)"

end
