(* ===== verification/Device_Alloc.thy ===== *)
theory Device_Alloc
  imports Device_Manager
begin

text \<open>
  The address a new device gets: what the walk of \<^verbatim>\<open>nextClientAddressLocked\<close> finds is the lowest
  address of the subnet that is neither reserved nor taken, and it reports the subnet as full only
  when there is no such address.
\<close>

unbundle bit_operations_syntax

section \<open>Address families\<close>

fun addr_num :: "addr \<Rightarrow> nat" where
  "addr_num NoAddr = 0"
| "addr_num (V4 w) = unat w"
| "addr_num (V6 w z) = unat w"

text \<open>An address the manager may hand out: in the subnet, not the network address, not the server's,
  and not taken.\<close>

definition assignable :: "prefix \<Rightarrow> addr list \<Rightarrow> addr \<Rightarrow> bool" where
  "assignable p used a =
     (prefix_contains p a \<and> a \<noteq> prefix_addr (masked p) \<and> a \<noteq> next_addr (prefix_addr (masked p)) \<and>
      \<not> List.member used a)"

definition lowest_assignable :: "prefix \<Rightarrow> addr list \<Rightarrow> addr \<Rightarrow> bool" where
  "lowest_assignable p used a \<longleftrightarrow>
     assignable p used a \<and> (\<forall>b. assignable p used b \<longrightarrow> addr_num a \<le> addr_num b)"

lemma succ_nonzero:
  fixes x v :: "'a::len word"
  assumes "unat x < unat v"
  shows "x + 1 \<noteq> 0"
proof
  assume "x + 1 = 0"
  then have "(unat x + 1) mod 2 ^ LENGTH('a) = 0" using unat_word_ariths(1) [of x 1] by simp
  moreover have "unat x + 1 < 2 ^ LENGTH('a)" using assms word_bound [of v] by linarith
  ultimately show False by (metis mod_less add_is_0 one_neq_zero)
qed

lemma unat_succ2: "x + 1 \<noteq> 0 \<Longrightarrow> x + 1 + 1 \<noteq> 0 \<Longrightarrow> unat (x + 1 + 1) = unat x + 2" for x :: "'a::len word"
  using unat_succ [of x] unat_succ [of "x + 1"] by linarith

text \<open>What IPv4 and IPv6 have in common: addresses are numbers of a fixed width, the next one is one
  more unless that wraps, and a prefix is a block of numbers that agree above some bit.\<close>

locale address_family =
  fixes mk :: "'a::len word \<Rightarrow> addr"
  assumes mk_inj: "mk v = mk w \<longleftrightarrow> v = w"
    and mk_addr: "mk w \<noteq> NoAddr"
    and mk_num: "addr_num (mk w) = unat w"
    and mk_next: "next_addr (mk w) = (if w + 1 = 0 then NoAddr else mk (w + 1))"
    and mk_contains: "prefix_contains (Prefix (mk p) b) (mk w) \<longleftrightarrow>
          b \<le> LENGTH('a) \<and> unat w div 2 ^ (LENGTH('a) - b) = unat p div 2 ^ (LENGTH('a) - b)"
    and mk_family: "prefix_contains (Prefix (mk p) b) a \<Longrightarrow> \<exists>w. a = mk w"
    and mk_masked: "b \<le> LENGTH('a) \<Longrightarrow>
          prefix_addr (masked (Prefix (mk p) b)) = mk (clear_low (LENGTH('a) - b) p)"
begin

lemma contains_convex:
  assumes "prefix_contains (Prefix (mk p) b) (mk u)" "prefix_contains (Prefix (mk p) b) (mk v)"
    and "unat u \<le> unat m" "unat m \<le> unat v"
  shows "prefix_contains (Prefix (mk p) b) (mk m)"
  using assms div_le_mono [OF assms(3), of "2 ^ (LENGTH('a) - b)"]
    div_le_mono [OF assms(4), of "2 ^ (LENGTH('a) - b)"]
  by (simp add: mk_contains)

text \<open>The walk finds the lowest address from its start on that is in the block and not taken.\<close>

lemma walk_Some:
  "first_free (Prefix (mk p) b) used (mk w) = Some a \<Longrightarrow>
     prefix_contains (Prefix (mk p) b) a \<and> \<not> List.member used a \<and>
     (\<forall>v. unat w \<le> unat v \<longrightarrow> prefix_contains (Prefix (mk p) b) (mk v) \<longrightarrow> \<not> List.member used (mk v) \<longrightarrow>
          addr_num a \<le> unat v) \<and> unat w \<le> addr_num a"
proof (induction "2 ^ LENGTH('a) - unat w" arbitrary: w rule: less_induct)
  case less
  let ?P = "Prefix (mk p) b"
  have c: "prefix_contains ?P (mk w)"
    using less.prems by (subst (asm) first_free.simps) (auto split: if_splits)
  show ?case
  proof (cases "List.member used (mk w)")
    case False
    then have "a = mk w" using less.prems c by (subst (asm) first_free.simps) simp
    then show ?thesis using c False by (simp add: mk_num)
  next
    case True
    then have step: "first_free ?P used (next_addr (mk w)) = Some a"
      using less.prems c by (subst (asm) first_free.simps) simp
    then have w: "w + 1 \<noteq> 0" by (auto simp: mk_next first_free.simps [of _ _ NoAddr] split: if_splits)
    have "2 ^ LENGTH('a) - unat (w + 1) < 2 ^ LENGTH('a) - unat w"
      using word_bound [of "w + 1"] by (simp add: unat_succ [OF w])
    moreover have "first_free ?P used (mk (w + 1)) = Some a" using step w by (simp add: mk_next)
    ultimately have IH: "prefix_contains ?P a" "\<not> List.member used a" "unat (w + 1) \<le> addr_num a"
      "\<And>v. unat (w + 1) \<le> unat v \<Longrightarrow> prefix_contains ?P (mk v) \<Longrightarrow> \<not> List.member used (mk v) \<Longrightarrow> addr_num a \<le> unat v"
      using less.hyps [of "w + 1"] by blast+
    have "addr_num a \<le> unat v"
      if "unat w \<le> unat v" "prefix_contains ?P (mk v)" "\<not> List.member used (mk v)" for v
    proof -
      have "v \<noteq> w" using that True by auto
      then have "unat w \<noteq> unat v" by (simp add: word_unat_eq_iff)
      then show ?thesis using IH(4) [of v] that by (simp add: unat_succ [OF w])
    qed
    then show ?thesis using IH by (simp add: unat_succ [OF w])
  qed
qed

lemma walk_None:
  "first_free (Prefix (mk p) b) used (mk w) = None \<Longrightarrow> prefix_contains (Prefix (mk p) b) (mk w) \<Longrightarrow>
     unat w \<le> unat v \<Longrightarrow> prefix_contains (Prefix (mk p) b) (mk v) \<Longrightarrow> List.member used (mk v)"
proof (induction "2 ^ LENGTH('a) - unat w" arbitrary: w rule: less_induct)
  case less
  let ?P = "Prefix (mk p) b"
  have m: "List.member used (mk w)" and step: "first_free ?P used (next_addr (mk w)) = None"
    using less.prems(1,2) by (auto simp: first_free.simps [of _ _ "mk w"] split: if_splits)
  show ?case
  proof (cases "v = w")
    case False
    then have lt: "unat w < unat v" using less.prems(3) by (simp add: word_unat_eq_iff)
    have w: "w + 1 \<noteq> 0" using lt by (rule succ_nonzero)
    then have le: "unat (w + 1) \<le> unat v" using lt by (simp add: unat_succ)
    have "prefix_contains ?P (mk (w + 1))"
      using contains_convex [OF less.prems(2,4), of "w + 1"] le w by (simp add: unat_succ)
    moreover have "2 ^ LENGTH('a) - unat (w + 1) < 2 ^ LENGTH('a) - unat w"
      using word_bound [of "w + 1"] by (simp add: unat_succ [OF w])
    moreover have "first_free ?P used (mk (w + 1)) = None" using step w by (simp add: mk_next)
    ultimately show ?thesis using less.hyps [of "w + 1"] le less.prems(4) by blast
  qed (use m in simp)
qed

lemma block_start:
  assumes "b \<le> LENGTH('a)"
  shows "prefix_contains (Prefix (mk p) b) (mk (clear_low (LENGTH('a) - b) p))"
    and "prefix_contains (Prefix (mk p) b) (mk w) \<Longrightarrow> unat (clear_low (LENGTH('a) - b) p) \<le> unat w"
proof -
  let ?k = "LENGTH('a) - b"
  have u: "unat (clear_low ?k p) = unat p div 2 ^ ?k * 2 ^ ?k" by (simp add: unat_clear_low)
  then show "prefix_contains (Prefix (mk p) b) (mk (clear_low ?k p))"
    using assms by (simp add: mk_contains)
  assume "prefix_contains (Prefix (mk p) b) (mk w)"
  then have "unat p div 2 ^ ?k = unat w div 2 ^ ?k" by (simp add: mk_contains)
  then show "unat (clear_low ?k p) \<le> unat w" using u by simp
qed

text \<open>Starting two addresses after the network address, the walk covers everything assignable.\<close>

lemma walk_start:
  assumes b: "b \<le> LENGTH('a)" and a: "assignable (Prefix (mk p) b) used a"
  defines "s \<equiv> clear_low (LENGTH('a) - b) p"
  shows "\<exists>v. a = mk v \<and> unat s + 2 \<le> unat v \<and> s + 1 \<noteq> 0 \<and> s + 1 + 1 \<noteq> 0 \<and>
     prefix_contains (Prefix (mk p) b) (mk (s + 1 + 1))"
proof -
  let ?P = "Prefix (mk p) b"
  have "prefix_contains ?P a" using a by (simp add: assignable_def)
  then obtain v where v: "a = mk v" using mk_family by blast
  have c: "prefix_contains ?P (mk v)" using a v by (simp add: assignable_def)
  have ne: "v \<noteq> s" and ne1: "s + 1 \<noteq> 0 \<Longrightarrow> v \<noteq> s + 1"
    using a v mk_masked [OF b] by (auto simp: assignable_def mk_inj mk_next s_def)
  have "unat s \<le> unat v" using block_start(2) [OF b c] by (simp add: s_def)
  with ne have lt: "unat s < unat v" by (simp add: word_unat_eq_iff)
  have s1: "s + 1 \<noteq> 0" using lt by (rule succ_nonzero)
  have "unat (s + 1) \<noteq> unat v" using ne1 [OF s1] by (simp add: word_unat_eq_iff)
  then have lt2: "unat (s + 1) < unat v" using lt by (simp add: unat_succ [OF s1])
  have s2: "s + 1 + 1 \<noteq> 0" using lt2 by (rule succ_nonzero)
  have le: "unat s + 2 \<le> unat v" using lt2 by (simp add: unat_succ [OF s1])
  have "prefix_contains ?P (mk s)" using block_start(1) [OF b] by (simp add: s_def)
  then have "prefix_contains ?P (mk (s + 1 + 1))"
    using c by (rule contains_convex) (use le unat_succ2 [OF s1 s2] in simp_all)
  then show ?thesis using v le s1 s2 by blast
qed

lemma first_free_lowest:
  fixes p :: "'a word" and used :: "addr list"
  assumes b: "b \<le> LENGTH('a)"
  defines "s \<equiv> prefix_addr (masked (Prefix (mk p) b))"
  defines "r \<equiv> first_free (Prefix (mk p) b) (next_addr s # s # used) (next_addr (next_addr s))"
  shows "case r of Some a \<Rightarrow> lowest_assignable (Prefix (mk p) b) used a
                 | None \<Rightarrow> \<forall>a. \<not> assignable (Prefix (mk p) b) used a"
proof -
  let ?P = "Prefix (mk p) b" and ?s = "clear_low (LENGTH('a) - b) p"
  let ?used = "next_addr s # s # used"
  have s: "s = mk ?s" using mk_masked [OF b] by (simp add: s_def)
  have mem: "assignable ?P used a \<longleftrightarrow> prefix_contains ?P a \<and> \<not> List.member ?used a" for a
    by (auto simp: assignable_def s_def)
  have wrap: "r = None" if "next_addr (next_addr s) = NoAddr"
    using that by (simp add: r_def first_free.simps)
  show ?thesis
  proof (cases "next_addr (next_addr s) = mk (?s + 1 + 1)")
    case False
    have "\<not> assignable ?P used a" for a
      using walk_start [OF b, of p used a] False by (auto simp: s mk_next)
    moreover have "next_addr (next_addr s) = NoAddr" using False by (auto simp: s mk_next split: if_splits)
    ultimately show ?thesis using wrap by simp
  next
    case True
    then have r: "r = first_free ?P ?used (mk (?s + 1 + 1))" by (simp add: r_def)
    have num: "unat (?s + 1 + 1) = unat ?s + 2" if "assignable ?P used a" for a
      using walk_start [OF b that] unat_succ2 by blast
    show ?thesis
    proof (cases r)
      case None
      have "\<not> assignable ?P used a" for a
      proof
        assume a: "assignable ?P used a"
        obtain v where "a = mk v" "unat ?s + 2 \<le> unat v" "prefix_contains ?P (mk (?s + 1 + 1))"
          using walk_start [OF b a] by blast
        then show False
          using walk_None [OF None [unfolded r]] a num [OF a] mem by auto
      qed
      then show ?thesis using None by simp
    next
      case (Some a)
      note found = walk_Some [OF Some [unfolded r]]
      have "addr_num a \<le> addr_num c" if c: "assignable ?P used c" for c
      proof -
        obtain v where "c = mk v" "unat ?s + 2 \<le> unat v" using walk_start [OF b c] by blast
        then show ?thesis using found num [OF c] c mem [of c] by (auto simp: mk_num)
      qed
      moreover have "assignable ?P used a" using found mem [of a] by blast
      ultimately show ?thesis using Some by (auto simp: lowest_assignable_def)
    qed
  qed
qed

end

interpretation v4: address_family V4
  by unfold_locales
    (auto simp: contains_V4 masked_def simp del: prefix_contains.simps dest: contains_same_family)

interpretation v6: address_family "\<lambda>w. V6 w []"
  by unfold_locales
    (auto simp: contains_V6 masked_def simp del: prefix_contains.simps dest: contains_same_family)

section \<open>The next free address\<close>

text \<open>A valid prefix is one of the two families.\<close>

lemma prefix_family_cases:
  assumes "prefix_valid p"
  obtains (ip4) w b where "p = Prefix (V4 w) b" "b \<le> 32"
  | (ip6) w b where "p = Prefix (V6 w []) b" "b \<le> 128"
  using assms by (cases p; cases "prefix_addr p") (auto simp: prefix_valid_def)

lemma first_free_correct:
  assumes "prefix_valid p" "start = prefix_addr (masked p)"
    and "r = first_free p (next_addr start # start # used) (next_addr (next_addr start))"
  shows "case r of Some a \<Rightarrow> lowest_assignable p used a | None \<Rightarrow> \<forall>a. \<not> assignable p used a"
  using assms(1)
proof (cases rule: prefix_family_cases)
  case (ip4 w b)
  then show ?thesis using v4.first_free_lowest [of b w used] unfolding assms(2,3) ip4(1) by simp
next
  case (ip6 w b)
  then show ?thesis using v6.first_free_lowest [of b w used] unfolding assms(2,3) ip6(1) by simp
qed

lemma host_prefix_valid:
  assumes "prefix_contains p a"
  shows "prefix_valid (host_prefix a)" "prefix_addr (host_prefix a) = a"
  using contains_addr [OF assms]
  by (auto simp: host_prefix_def prefix_from_def prefix_valid_def with_zone_id)

lemma prefix_string_ne [simp]: "prefix_string p \<noteq> []"
  by (cases p) auto

lemma next_in_correct:
  assumes "parse_prefix net = Some p" "net \<noteq> []"
  shows "(next_in net used = Inr [] \<and> (\<forall>a. \<not> assignable p used a)) \<or>
         (\<exists>a. next_in net used = Inr (prefix_string (host_prefix a)) \<and> lowest_assignable p used a)"
proof -
  define start where "start = prefix_addr (masked p)"
  define r where "r = first_free p (next_addr start # start # used) (next_addr (next_addr start))"
  have "next_in net used = Inr (case r of None \<Rightarrow> [] | Some a \<Rightarrow> prefix_string (host_prefix a))"
    using assms by (simp add: next_in_def Let_def r_def start_def split: option.splits)
  then show ?thesis
    using first_free_correct [OF parse_prefix_valid [OF assms(1)] start_def r_def]
    by (cases r) auto
qed

text \<open>The configured network of a family: none, or the prefix its string names.\<close>

definition subnet :: "string \<Rightarrow> prefix option" where
  "subnet net = (if net = [] then None else parse_prefix net)"

text \<open>Every network that is configured is a prefix of its family.\<close>

definition vpn_ok :: "'w manager \<Rightarrow> bool" where
  "vpn_ok d \<longleftrightarrow>
     (cidr d \<noteq> [] \<longrightarrow> (\<exists>p. parse_prefix (cidr d) = Some p \<and> is4 (prefix_addr p))) \<and>
     (cidrv6 d \<noteq> [] \<longrightarrow> (\<exists>p. parse_prefix (cidrv6 d) = Some p \<and> is6 (prefix_addr p)))"

text \<open>What the manager promises of an automatically chosen address: the host prefixes of the lowest
  assignable address of every configured family.\<close>

definition chosen :: "prefix option \<Rightarrow> addr list \<Rightarrow> addr list \<Rightarrow> bool" where
  "chosen net used as \<longleftrightarrow>
     (case net of
        None \<Rightarrow> as = []
      | Some p \<Rightarrow> \<exists>a. as = [a] \<and> lowest_assignable p used a)"

definition exhausted :: "prefix option \<Rightarrow> addr list \<Rightarrow> bool" where
  "exhausted net used \<longleftrightarrow> (case net of None \<Rightarrow> False | Some p \<Rightarrow> \<forall>a. \<not> assignable p used a)"

definition address_list :: "addr list \<Rightarrow> string" where
  "address_list as = go_join '', '' (map (\<lambda>a. prefix_string (host_prefix a)) as)"

lemma next_in_cases:
  assumes "net \<noteq> [] \<longrightarrow> (\<exists>p. parse_prefix net = Some p)"
  obtains (unconfigured) "net = []" "next_in net used = Inr []" "subnet net = None"
  | (full) "net \<noteq> []" "next_in net used = Inr []" "exhausted (subnet net) used"
  | (free) a where "net \<noteq> []" "next_in net used = Inr (prefix_string (host_prefix a))"
      "chosen (subnet net) used [a]"
proof (cases "net = []")
  case True
  then show thesis using unconfigured by (simp add: next_in_def subnet_def)
next
  case False
  then obtain p where p: "parse_prefix net = Some p" using assms by blast
  show thesis
    using next_in_correct [OF p False, of used] full free False p
    by (auto simp: subnet_def exhausted_def chosen_def)
qed

lemma nextClientAddress_cases:
  assumes "vpn_ok d" and used: "usedAddresses (storage d) = (u4, u6)"
  shows "(\<exists>as bs. nextClientAddressLocked d = Inr (address_list (as @ bs)) \<and> as @ bs \<noteq> [] \<and>
            chosen (subnet (cidr d)) u4 as \<and> chosen (subnet (cidrv6 d)) u6 bs) \<or>
         (\<exists>m. nextClientAddressLocked d = Inl (Err m) \<and>
            (exhausted (subnet (cidr d)) u4 \<or> exhausted (subnet (cidrv6 d)) u6 \<or>
             (cidr d = [] \<and> cidrv6 d = [])))"
proof -
  have p4: "cidr d \<noteq> [] \<longrightarrow> (\<exists>p. parse_prefix (cidr d) = Some p)"
    and p6: "cidrv6 d \<noteq> [] \<longrightarrow> (\<exists>p. parse_prefix (cidrv6 d) = Some p)"
    using assms(1) by (auto simp: vpn_ok_def)
  note net4 = next_in_cases [where net = "cidr d" and used = u4, OF p4]
    and net6 = next_in_cases [where net = "cidrv6 d" and used = u6, OF p6]
  note defs = nextClientAddressLocked_def used address_list_def chosen_def
  show ?thesis
  proof (cases rule: net4)
    case u4: 1
    show ?thesis
    proof (cases rule: net6)
      case u: 1
      with u4 show ?thesis by (simp add: defs)
    next
      case f: 2
      with u4 show ?thesis by (simp add: defs)
    next
      case free: (3 c)
      have "nextClientAddressLocked d = Inr (address_list ([] @ [c]))"
        using free u4 by (simp add: defs)
      moreover have "chosen (subnet (cidr d)) u4 []" using u4 by (simp add: chosen_def)
      ultimately show ?thesis using free by blast
    qed
  next
    case f4: 2
    then show ?thesis by (cases rule: net6) (auto simp: defs)
  next
    case f4: (3 a)
    show ?thesis
    proof (cases rule: net6)
      case u: 1
      have "nextClientAddressLocked d = Inr (address_list ([a] @ []))"
        using u f4 by (simp add: defs)
      moreover have "chosen (subnet (cidrv6 d)) u6 []" using u by (simp add: chosen_def)
      ultimately show ?thesis using f4 by blast
    next
      case f: 2
      then show ?thesis using f4 by (simp add: defs)
    next
      case free: (3 c)
      have "nextClientAddressLocked d = Inr (address_list ([a] @ [c]))"
        using free f4 by (simp add: defs)
      then show ?thesis using free f4 by blast
    qed
  qed
qed

end
