(* ===== verification/Device_Routes.thy ===== *)
theory Device_Routes
  imports Device_Manager
begin

text \<open>
  Networks behind devices and the firewall state (\<^verbatim>\<open>internal/devices/routes.go\<close>).  The addresses of
  the host's interfaces are read from the operating system, so they are a parameter: what
  \<^verbatim>\<open>net.InterfaceAddrs\<close> returned, with \<open>None\<close> for an address that is no network.
\<close>

section \<open>Normalizing\<close>

definition maxRoutesPerDevice :: nat where "maxRoutesPerDevice = 25"

definition hostNetworks :: "string option list res \<Rightarrow> prefix list res" where
  "hostNetworks addrs =
     (case addrs of
        Inl e \<Rightarrow> Inl (wrap_err ''failed to read the addresses of this host'' e)
      | Inr as \<Rightarrow>
          Inr (List.map_filter
            (\<lambda>a. case a of None \<Rightarrow> None | Some ipnet \<Rightarrow> map_option masked (parse_prefix ipnet)) as))"

fun normalize_loop :: "string list \<Rightarrow> prefix list \<Rightarrow> prefix list res" where
  "normalize_loop [] normalized = Inr normalized"
| "normalize_loop (r # rs) normalized =
     (let route = trim_space r in
      if route = [] then normalize_loop rs normalized
      else case parse_prefix route of
        None \<Rightarrow> Inl (Invalid (quoted route @ '' is not a network in CIDR notation, like '' @ quoted ''192.168.5.0/24'' @ ''.''))
      | Some p \<Rightarrow>
          if prefix_bits p = 0 then
            Inl (Invalid (quoted route @ '' is a default route. Name the networks behind the device instead.''))
          else if List.member normalized (masked p) then normalize_loop rs normalized
          else normalize_loop rs (normalized @ [masked p]))"

definition normalizeRoutes :: "string list \<Rightarrow> prefix list res" where
  "normalizeRoutes routes =
     (if length routes > maxRoutesPerDevice then
        Inl (Invalid (''A device may have at most '' @ itoa maxRoutesPerDevice @ '' networks behind it.''))
      else normalize_loop routes [])"

definition routeStrings :: "prefix list \<Rightarrow> string list" where
  "routeStrings routes = map prefix_string routes"

section \<open>Checking\<close>

text \<open>The configured networks of the VPN.\<close>

fun vpn_networks :: "string list \<Rightarrow> prefix list res" where
  "vpn_networks [] = Inr []"
| "vpn_networks (c # cs) =
     (if c = [] then vpn_networks cs
      else case parse_prefix c of
        None \<Rightarrow> Inl (Err (''the configured vpn network '' @ quoted c @ '' is not a network''))
      | Some p \<Rightarrow>
          (case vpn_networks cs of Inl e \<Rightarrow> Inl e | Inr ps \<Rightarrow> Inr (masked p # ps)))"

text \<open>The networks of one other device, as prefixes; an entry that is none is skipped.\<close>

definition taken_routes :: "device \<Rightarrow> prefix list" where
  "taken_routes dev = List.map_filter parse_prefix (RouteList dev)"

definition conflict_with :: "prefix list \<Rightarrow> prefix \<Rightarrow> prefix option" where
  "conflict_with ps route = find (\<lambda>p. prefix_overlaps p route) ps"

fun device_conflict :: "device list \<Rightarrow> device \<Rightarrow> prefix \<Rightarrow> go_error option" where
  "device_conflict [] dev route = None"
| "device_conflict (other # os) dev route =
     (if devOwner other = devOwner dev \<and> devName other = devName dev then device_conflict os dev route
      else case conflict_with (taken_routes other) route of
        Some p \<Rightarrow> Some (Invalid (quoted (prefix_string route) @ '' overlaps '' @ quoted (prefix_string p)
                     @ '', which is already routed to the device '' @ quoted (devName other) @ ''.''))
      | None \<Rightarrow> device_conflict os dev route)"

fun check_loop :: "prefix list \<Rightarrow> prefix list \<Rightarrow> device list \<Rightarrow> device \<Rightarrow> prefix list \<Rightarrow> unit res" where
  "check_loop vpn host devices dev [] = Inr ()"
| "check_loop vpn host devices dev (route # rs) =
     (case conflict_with vpn route of
        Some p \<Rightarrow> Inl (Invalid (quoted (prefix_string route) @ '' overlaps the VPN network ''
                     @ quoted (prefix_string p) @ '', which the server hands out itself.''))
      | None \<Rightarrow>
     (case conflict_with host route of
        Some p \<Rightarrow> Inl (Invalid (quoted (prefix_string route) @ '' overlaps '' @ quoted (prefix_string p)
                     @ '', a network this server is in - routing it would cut the server off.''))
      | None \<Rightarrow>
     (case device_conflict devices dev route of
        Some e \<Rightarrow> Inl e
      | None \<Rightarrow> check_loop vpn host devices dev rs)))"

definition checkRoutes :: "string option list res \<Rightarrow> prefix list \<Rightarrow> device \<Rightarrow> 'w manager \<Rightarrow> unit res" where
  "checkRoutes ifaddrs routes dev d =
     (if routes = [] then Inr ()
      else (case vpn_networks [cidr d, cidrv6 d] of
          Inl e \<Rightarrow> Inl e
        | Inr vpn \<Rightarrow>
        (case hostNetworks ifaddrs of
          Inl e \<Rightarrow> Inl e
        | Inr host \<Rightarrow> check_loop vpn host (ListAllDevices (storage d)) dev routes)))"

definition SetDeviceRoutes ::
  "'w wireguard \<Rightarrow> instant \<Rightarrow> string option list res \<Rightarrow> string \<Rightarrow> string \<Rightarrow> string list \<Rightarrow> 'w manager
     \<Rightarrow> device res \<times> 'w manager" where
  "SetDeviceRoutes W now ifaddrs user name routes d =
     (case normalizeRoutes routes of
        Inl e \<Rightarrow> (Inl e, d)
      | Inr normalized \<Rightarrow>
      (case get_device user name (storage d) of
        Inl e \<Rightarrow> (Inl e, d)
      | Inr dev \<Rightarrow>
      (case checkRoutes ifaddrs normalized dev d of
        Inl e \<Rightarrow> (Inl e, d)
      | Inr _ \<Rightarrow>
      (case call W now (SetRoutes dev (go_join '', '' (routeStrings normalized))) d of
        (Inl e, d') \<Rightarrow> (Inl (wrap_err ''failed to change the routes of the device'' e), d')
      | (Inr changed, d') \<Rightarrow> (Inr changed, d')))))"

section \<open>The firewall state\<close>

definition key_FirewallState :: "firewall_state \<Rightarrow> string" where
  "key_FirewallState s =
     go_join '','' (Routed s) @
     concat (map (\<lambda>name. ''|'' @ name @ ''='' @ go_join '','' (case map_of (Policies s) name of
                                                            None \<Rightarrow> [] | Some as \<Rightarrow> as))
              (sort (map fst (Policies s))))"

definition policies_of :: "user list \<Rightarrow> (string, string list) amap" where
  "policies_of us =
     foldl (\<lambda>m u. if PolicyList u = [] then m else AList.update (usrSubject u) (PolicyList u) m) [] us"

definition add_member :: "string list \<Rightarrow> (string, string list) amap \<Rightarrow> string \<Rightarrow> (string, string list) amap" where
  "add_member as m policy =
     AList.update policy ((case map_of m policy of None \<Rightarrow> [] | Some xs \<Rightarrow> xs) @ as) m"

definition add_device :: "instant \<Rightarrow> (string, string list) amap \<Rightarrow> firewall_state \<Rightarrow> device \<Rightarrow> firewall_state" where
  "add_device now policiesOf st dev =
     (let st1 = st\<lparr>Routed := Routed st @ RouteList dev\<rparr> in
      if \<not> AccessAllowed dev now then st1
      else st1\<lparr>Policies := foldl (add_member (SplitAddresses (devAddress dev))) (Policies st1)
                            (case map_of policiesOf (devOwner dev) of None \<Rightarrow> [] | Some ps \<Rightarrow> ps)\<rparr>)"

definition firewallState :: "instant \<Rightarrow> device list \<Rightarrow> memory \<Rightarrow> firewall_state" where
  "firewallState now devices s =
     (let st = foldl (add_device now (policies_of (Users s))) \<lparr>Routed = [], Policies = []\<rparr> devices in
      \<lparr>Routed = sort (Routed st), Policies = map (\<lambda>(n, as). (n, sort as)) (Policies st)\<rparr>)"

text \<open>\<^verbatim>\<open>firewallSync\<close> is set by the server; it returns an error or nothing.  The second result says which
  state it was called with, if it was called.\<close>

definition syncFirewallState ::
  "(firewall_state \<Rightarrow> go_error option) option \<Rightarrow> instant \<Rightarrow> device list \<Rightarrow> 'w manager
     \<Rightarrow> 'w manager \<times> firewall_state option" where
  "syncFirewallState fs now devices d =
     (case fs of
        None \<Rightarrow> (d, None)
      | Some f \<Rightarrow>
          (let st = firewallState now devices (storage d) in
           if key_FirewallState st = key_FirewallState (firewall d) then (d, None)
           else (case f st of
               Some e \<Rightarrow> (d, Some st)
             | None \<Rightarrow> (d\<lparr>firewall := st\<rparr>, Some st))))"

definition RoutedNetworks :: "'w manager \<Rightarrow> string list" where
  "RoutedNetworks d = Routed (firewall d)"

end
