(* ===== verification/Device_Sync.thy ===== *)
theory Device_Sync
  imports Device_Routes
begin

text \<open>
  Keeping the WireGuard interface and the storage in line: the synchronization of the peers
  (\<^verbatim>\<open>devices.go\<close>), the access check (\<^verbatim>\<open>access.go\<close>), the collection of metadata (\<^verbatim>\<open>metadata.go\<close>) and the
  removal of inactive devices (\<^verbatim>\<open>inactive.go\<close>).  One round of a background loop is one function.
\<close>

section \<open>Peers\<close>

text \<open>The key of all zeroes, printed.\<close>

definition zero_key :: string where
  "zero_key = replicate 43 CHR ''A'' @ ''=''"

definition presharedKeyOf :: "'w wireguard \<Rightarrow> device \<Rightarrow> string" where
  "presharedKeyOf W dev =
     (if devPresharedKey dev = [] then zero_key
      else case ParseKey W (devPresharedKey dev) of None \<Rightarrow> [] | Some k \<Rightarrow> k)"

text \<open>The allowed IPs of a peer are networks as the interface reports them, printed.\<close>

definition peerMatches :: "'w wireguard \<Rightarrow> peer \<Rightarrow> device \<Rightarrow> bool" where
  "peerMatches W p dev =
     (if peerPresharedKey p \<noteq> presharedKeyOf W dev then False
      else let stored = AllowedIPs dev in
        if length (peerAllowedIPs p) \<noteq> length stored then False
        else list_all (\<lambda>address. case cidr_network address of
                           None \<Rightarrow> False
                         | Some n \<Rightarrow> List.member (peerAllowedIPs p) n) stored)"

text \<open>The two loops of \<^verbatim>\<open>sync\<close>.\<close>

definition remove_strangers :: "'w wireguard \<Rightarrow> string list \<Rightarrow> peer list \<Rightarrow> 'w \<Rightarrow> 'w" where
  "remove_strangers W allowed peers w =
     foldl (\<lambda>w p. if List.member allowed (peerPublicKey p) then w
                  else snd (RemovePeer W (peerPublicKey p) w)) w peers"

definition add_missing :: "'w wireguard \<Rightarrow> string list \<Rightarrow> (string, peer) amap \<Rightarrow> device list \<Rightarrow> 'w \<Rightarrow> 'w" where
  "add_missing W allowed configured devices w =
     foldl (\<lambda>w dev.
        if \<not> List.member allowed (devPublicKey dev) then w
        else if (case map_of configured (devPublicKey dev) of None \<Rightarrow> False | Some p \<Rightarrow> peerMatches W p dev) then w
        else snd (AddPeer W (devPublicKey dev) (devPresharedKey dev) (AllowedIPs dev) w)) w devices"

definition allowed_keys :: "instant \<Rightarrow> device list \<Rightarrow> string list" where
  "allowed_keys now devices = map devPublicKey (filter (\<lambda>dev. AccessAllowed dev now) devices)"

definition configured_peers :: "peer list \<Rightarrow> (string, peer) amap" where
  "configured_peers peers = foldl (\<lambda>m p. AList.update (peerPublicKey p) p m) [] peers"

definition sync ::
  "'w wireguard \<Rightarrow> (firewall_state \<Rightarrow> go_error option) option \<Rightarrow> instant \<Rightarrow> 'w manager \<Rightarrow> unit res \<times> 'w manager" where
  "sync W fs now d =
     (let devices = ListAllDevices (storage d) in
      case ListPeers W (wg d) of
        Inl e \<Rightarrow> (Inl (wrap_err ''failed to list peers'' e), d)
      | Inr peers \<Rightarrow>
          (let allowed = allowed_keys now devices;
               w1 = remove_strangers W allowed peers (wg d);
               w2 = add_missing W allowed (configured_peers peers) devices w1 in
           (Inr (), fst (syncFirewallState fs now devices (d\<lparr>wg := w2\<rparr>)))))"

text \<open>One round of \<^verbatim>\<open>resyncLoop\<close>: the slot of the channel is emptied, then everything is synchronized.\<close>

definition resync_round ::
  "'w wireguard \<Rightarrow> (firewall_state \<Rightarrow> go_error option) option \<Rightarrow> instant \<Rightarrow> 'w manager \<Rightarrow> 'w manager" where
  "resync_round W fs now d = (if resync d then snd (sync W fs now (d\<lparr>resync := False\<rparr>)) else d)"

section \<open>The access check\<close>

definition blocked_devices :: "instant \<Rightarrow> device list \<Rightarrow> (string, device) amap" where
  "blocked_devices now devices =
     foldl (\<lambda>m dev. if AccessAllowed dev now then m else AList.update (devPublicKey dev) dev m) [] devices"

text \<open>The removal of the peers of blocked devices, with the devices an expiry is recorded for.\<close>

definition remove_blocked ::
  "'w wireguard \<Rightarrow> instant \<Rightarrow> (string, device) amap \<Rightarrow> peer list \<Rightarrow> 'w \<Rightarrow> 'w \<times> device list" where
  "remove_blocked W now blocked peers w =
     foldl (\<lambda>(w, audited) p.
        case map_of blocked (peerPublicKey p) of
          None \<Rightarrow> (w, audited)
        | Some dev \<Rightarrow>
            (case RemovePeer W (devPublicKey dev) w of
               (Some e, w') \<Rightarrow> (w', audited)
             | (None, w') \<Rightarrow> (w', if device_Expired dev now then audited @ [dev] else audited)))
       (w, []) peers"

definition removeBlockedPeers :: "'w wireguard \<Rightarrow> instant \<Rightarrow> 'w manager \<Rightarrow> 'w manager \<times> device list" where
  "removeBlockedPeers W now d =
     (let blocked = blocked_devices now (ListAllDevices (storage d)) in
      if blocked = [] then (d, [])
      else (case ListPeers W (wg d) of
          Inl e \<Rightarrow> (d, [])
        | Inr peers \<Rightarrow>
            (case remove_blocked W now blocked peers (wg d) of (w, audited) \<Rightarrow> (d\<lparr>wg := w\<rparr>, audited))))"

section \<open>Metadata\<close>

text \<open>The byte counters of every peer as of the previous round.\<close>

type_synonym tracker = "(string, int64 \<times> int64) amap"

definition counterDelta :: "int64 \<Rightarrow> int64 \<Rightarrow> int64" where
  "counterDelta previous current = (if current <s previous then current else current - previous)"

definition observe :: "tracker \<Rightarrow> string \<Rightarrow> int64 \<Rightarrow> int64 \<Rightarrow> (int64 \<times> int64) \<times> tracker" where
  "observe t k receive transmit =
     (let previous = (case map_of t k of None \<Rightarrow> (0, 0) | Some p \<Rightarrow> p) in
      ((counterDelta (fst previous) receive, counterDelta (snd previous) transmit),
       AList.update k (receive, transmit) t))"

definition forgetAllBut :: "tracker \<Rightarrow> peer list \<Rightarrow> tracker" where
  "forgetAllBut t peers = filter (\<lambda>(k, c). List.member (map peerPublicKey peers) k) t"

definition peer_update :: "instant \<Rightarrow> peer \<Rightarrow> int64 \<times> int64 \<Rightarrow> metadata_update" where
  "peer_update now p delta =
     \<lparr>updPublicKey = peerPublicKey p, updReceiveBytes = fst delta, updTransmitBytes = snd delta,
      updConnection =
        (case peerEndpoint p of
           None \<Rightarrow> None
         | Some ep \<Rightarrow>
             if IsConnected now (peerLastHandshakeTime p)
             then Some \<lparr>connEndpoint = ep, connLastHandshakeTime = peerLastHandshakeTime p\<rparr>
             else None)\<rparr>"

definition collect_one :: "instant \<Rightarrow> tracker \<times> metadata_update list \<Rightarrow> peer \<Rightarrow> tracker \<times> metadata_update list" where
  "collect_one now acc p =
     (case acc of (t, us) \<Rightarrow>
      (case observe t (peerPublicKey p) (peerReceiveBytes p) (peerTransmitBytes p) of (delta, t') \<Rightarrow>
       (let u = peer_update now p delta in
        if updReceiveBytes u = 0 \<and> updTransmitBytes u = 0 \<and> updConnection u = None then (t', us)
        else (t', us @ [u]))))"

definition collectMetadata :: "instant \<Rightarrow> peer list \<Rightarrow> tracker \<Rightarrow> tracker \<times> metadata_update list" where
  "collectMetadata now peers t = foldl (collect_one now) (forgetAllBut t peers, []) peers"

definition syncMetrics :: "'w wireguard \<Rightarrow> instant \<Rightarrow> 'w manager \<Rightarrow> tracker \<Rightarrow> 'w manager \<times> tracker" where
  "syncMetrics W now d t =
     (case ListPeers W (wg d) of
        Inl e \<Rightarrow> (d, t)
      | Inr peers \<Rightarrow>
          (case collectMetadata now peers t of (t', us) \<Rightarrow>
            (snd (call W now (RecordMetadata us) d), t')))"

section \<open>Inactive devices\<close>

definition elapsed :: "instant \<Rightarrow> device \<Rightarrow> duration" where
  "elapsed now dev =
     (case devLastHandshakeTime dev of
        None \<Rightarrow> time_sub now (devCreatedAt dev)
      | Some t \<Rightarrow> if t = zero_time then time_sub now (devCreatedAt dev) else time_sub now t)"

text \<open>The result carries the devices whose removal is recorded.\<close>

definition checkAndRemove :: "'w wireguard \<Rightarrow> instant \<Rightarrow> duration \<Rightarrow> 'w manager \<Rightarrow> 'w manager \<times> device list" where
  "checkAndRemove W now grace d =
     foldl (\<lambda>(d, audited) dev.
        if elapsed now dev > grace then
          (case DeleteDevice W now (devOwner dev) (devName dev) d of
             (Inl e, d') \<Rightarrow> (d', audited)
           | (Inr _, d') \<Rightarrow> (d', audited @ [dev]))
        else (d, audited)) (d, []) (ListAllDevices (storage d))"

end
