(* ===== verification/Device_Invariants.thy ===== *)
theory Device_Invariants
  imports Device_Alloc Device_Sync
begin

text \<open>
  What holds of the devices in every state the manager can reach: no address is given to two devices,
  every address lies in a configured subnet and is neither the network's nor the server's, keys and
  names are well formed, and nobody has more devices than the limit.
\<close>

section \<open>A new address is free\<close>

definition reserved :: "prefix \<Rightarrow> addr \<Rightarrow> bool" where
  "reserved p a = (a = prefix_addr (masked p) \<or> a = next_addr (prefix_addr (masked p)))"

definition handed_in :: "prefix option \<Rightarrow> addr \<Rightarrow> bool" where
  "handed_in net a \<longleftrightarrow> (case net of None \<Rightarrow> False | Some p \<Rightarrow> prefix_contains p a \<and> \<not> reserved p a)"

definition handed_out :: "'w manager \<Rightarrow> addr \<Rightarrow> bool" where
  "handed_out d a \<longleftrightarrow>
     (is4 a \<and> handed_in (subnet (cidr d)) a) \<or> (is6 a \<and> handed_in (subnet (cidrv6 d)) a)"

definition device_addrs :: "device \<Rightarrow> addr list" where
  "device_addrs dev = fst (ParseAddresses (devAddress dev))"

lemma all_addresses_db: "all_addresses s = concat (map (device_addrs \<circ> snd) (db s))"
  by (simp add: all_addresses_def Addresses_def device_addrs_def comp_def case_prod_beta')

lemma usedAddresses_mem:
  "usedAddresses s = (u4, u6) \<Longrightarrow> List.member u4 a \<longleftrightarrow> is4 a \<and> a \<in> set (all_addresses s)"
  "usedAddresses s = (u4, u6) \<Longrightarrow> List.member u6 a \<longleftrightarrow> \<not> is4 a \<and> a \<in> set (all_addresses s)"
  by (auto simp: usedAddresses_def)

lemma is6_not_is4: "is6 a \<Longrightarrow> \<not> is4 a"
  by (cases a) auto

lemma contains_is4: "prefix_contains p a \<Longrightarrow> is4 (prefix_addr p) = is4 a \<and> is6 (prefix_addr p) = is6 a"
  by (erule prefix_contains.elims) auto

text \<open>The addresses one family contributes to a new device: none, or one that is free.\<close>

definition fresh_in :: "prefix option \<Rightarrow> addr list \<Rightarrow> addr list \<Rightarrow> bool" where
  "fresh_in net used as \<longleftrightarrow>
     as = [] \<or> (\<exists>a p. as = [a] \<and> net = Some p \<and> assignable p used a)"

lemma chosen_fresh: "chosen net used as \<Longrightarrow> fresh_in net used as"
  by (auto simp: chosen_def fresh_in_def lowest_assignable_def split: option.splits)

lemma manual_in_fresh:
  assumes "manual_in fam is_fam net manual used = Inr s"
  shows "\<exists>as. s = address_list as \<and> fresh_in (subnet net) used as \<and> (\<forall>a \<in> set as. is_fam a) \<and>
     (manual \<noteq> [] \<longrightarrow> as \<noteq> [])"
proof (cases "manual = []")
  case True
  then show ?thesis
    using assms by (intro exI [of _ "[]"]) (simp add: manual_in_def address_list_def fresh_in_def)
next
  case False
  with assms obtain ip p where "s = prefix_string (host_prefix ip)" "net \<noteq> []" "parse_prefix net = Some p"
    "is_fam ip" "prefix_contains p ip" "\<not> List.member used ip"
    "ip \<noteq> prefix_addr (masked p)" "ip \<noteq> next_addr (prefix_addr (masked p))"
    by (auto simp: manual_in_def Let_def split: if_splits option.splits)
  then show ?thesis
    by (intro exI [of _ "[ip]"]) (simp add: address_list_def fresh_in_def subnet_def assignable_def)
qed

lemma address_list_empty [simp]: "address_list as = [] \<longleftrightarrow> as = []"
  by (cases as rule: remdups_adj.cases) (simp_all add: address_list_def)

lemma address_list_append:
  "as \<noteq> [] \<Longrightarrow> bs \<noteq> [] \<Longrightarrow> address_list (as @ bs) = address_list as @ '', '' @ address_list bs"
proof -
  have "go_join sep (xs @ ys) = go_join sep xs @ sep @ go_join sep ys" if "xs \<noteq> []" "ys \<noteq> []" for sep xs ys
    using that by (induction sep xs rule: go_join.induct) (auto simp: neq_Nil_conv)
  then show "as \<noteq> [] \<Longrightarrow> bs \<noteq> [] \<Longrightarrow> ?thesis" by (simp add: address_list_def)
qed

lemma manualAddress_fresh:
  assumes "manualAddress m4 m6 d = Inr s" and used: "usedAddresses (storage d) = (u4, u6)"
  shows "\<exists>as bs. s = address_list (as @ bs) \<and> as @ bs \<noteq> [] \<and>
     fresh_in (subnet (cidr d)) u4 as \<and> fresh_in (subnet (cidrv6 d)) u6 bs \<and>
     (\<forall>a \<in> set as. is4 a) \<and> (\<forall>b \<in> set bs. is6 b)"
proof -
  from assms obtain s4 s6 where ne: "m4 \<noteq> [] \<or> m6 \<noteq> []"
    and s4: "manual_in ''IPv4'' is4 (cidr d) m4 u4 = Inr s4"
    and s6: "manual_in ''IPv6'' is6 (cidrv6 d) m6 u6 = Inr s6"
    and s: "s = (if s4 \<noteq> [] \<and> s6 \<noteq> [] then s4 @ '', '' @ s6 else if s4 \<noteq> [] then s4 else s6)"
    by (auto simp: manualAddress_def split: if_splits sum.splits)
  obtain as where as: "s4 = address_list as" "fresh_in (subnet (cidr d)) u4 as" "\<forall>a \<in> set as. is4 a"
    "m4 \<noteq> [] \<longrightarrow> as \<noteq> []" using manual_in_fresh [OF s4] by blast
  obtain bs where bs: "s6 = address_list bs" "fresh_in (subnet (cidrv6 d)) u6 bs" "\<forall>b \<in> set bs. is6 b"
    "m6 \<noteq> [] \<longrightarrow> bs \<noteq> []" using manual_in_fresh [OF s6] by blast
  have "s = address_list (as @ bs)" using s as(1) bs(1) by (auto simp: address_list_append)
  then show ?thesis using as bs ne by blast
qed

lemma fresh_family:
  assumes "fresh_in net used as" "\<And>p. net = Some p \<Longrightarrow> is4 (prefix_addr p)" "a \<in> set as"
  shows "is4 a"
  using assms contains_is4 by (fastforce simp: fresh_in_def assignable_def)

lemma fresh_family6:
  assumes "fresh_in net used as" "\<And>p. net = Some p \<Longrightarrow> is6 (prefix_addr p)" "a \<in> set as"
  shows "is6 a"
  using assms contains_is4 by (fastforce simp: fresh_in_def assignable_def)

text \<open>However the address of a new device was chosen, nobody has it.\<close>

lemma clientAddress_fresh:
  assumes ok: "vpn_ok d" and a: "clientAddress r d = Inr s"
  shows "\<exists>as. s = address_list as \<and> as \<noteq> [] \<and> distinct as \<and>
     (\<forall>x \<in> set as. x \<notin> set (all_addresses (storage d)) \<and> handed_out d x)"
proof -
  obtain u4 u6 where used: "usedAddresses (storage d) = (u4, u6)" by fastforce
  have net4: "is4 (prefix_addr p)" if "subnet (cidr d) = Some p" for p
    using ok that by (auto simp: vpn_ok_def subnet_def split: if_splits)
  have net6: "is6 (prefix_addr p)" if "subnet (cidrv6 d) = Some p" for p
    using ok that by (auto simp: vpn_ok_def subnet_def split: if_splits)
  have "\<exists>as bs. s = address_list (as @ bs) \<and> as @ bs \<noteq> [] \<and>
     fresh_in (subnet (cidr d)) u4 as \<and> fresh_in (subnet (cidrv6 d)) u6 bs"
  proof (cases "reqManualIPAssignment r")
    case True
    then show ?thesis using a manualAddress_fresh [OF _ used] by (fastforce simp: clientAddress_def)
  next
    case False
    then have "nextClientAddressLocked d = Inr s"
      using a by (auto simp: clientAddress_def split: sum.splits)
    then show ?thesis using nextClientAddress_cases [OF ok used] chosen_fresh by fastforce
  qed
  then obtain as bs where s: "s = address_list (as @ bs)" "as @ bs \<noteq> []"
    and as: "fresh_in (subnet (cidr d)) u4 as" and bs: "fresh_in (subnet (cidrv6 d)) u6 bs" by blast
  have is4: "is4 x" if "x \<in> set as" for x using fresh_family [OF as net4 that] .
  have is6: "is6 x" if "x \<in> set bs" for x using fresh_family6 [OF bs net6 that] .
  have free: "x \<notin> set (all_addresses (storage d)) \<and> handed_out d x" if "x \<in> set (as @ bs)" for x
    using that as bs is4 [of x] is6 [of x] is6_not_is4 [of x] usedAddresses_mem [OF used, of x]
    by (auto simp: fresh_in_def assignable_def handed_out_def handed_in_def reserved_def)
  have "distinct as" "distinct bs" using as bs by (auto simp: fresh_in_def)
  moreover have "set as \<inter> set bs = {}" using is4 is6 is6_not_is4 by blast
  ultimately show ?thesis using s free by (intro exI [of _ "as @ bs"]) auto
qed

text \<open>What was stored is read back.\<close>

lemma ParseAddresses_list:
  assumes "as \<noteq> []" "\<And>a. a \<in> set as \<Longrightarrow> a \<noteq> NoAddr \<and> zone_of a = []"
  shows "ParseAddresses (address_list as) = (as, [])"
proof -
  have v: "prefix_valid (host_prefix a) \<and> prefix_addr (host_prefix a) = a" if "a \<in> set as" for a
    using assms(2) [OF that] by (auto simp: host_prefix_def prefix_from_def prefix_valid_def with_zone_id)
  then have "map prefix_addr (map host_prefix as) = as" by (auto intro: map_idI)
  then show ?thesis
    using ParseAddresses_join [of "map host_prefix as"] assms(1) v by (auto simp: address_list_def comp_def)
qed

lemma handed_out_addr: "handed_out d a \<Longrightarrow> a \<noteq> NoAddr \<and> zone_of a = []"
  using contains_addr by (fastforce simp: handed_out_def handed_in_def split: option.splits)

section \<open>How the devices change\<close>

text \<open>A device as the manager writes it: a valid name and keys, host prefixes for its addresses, and
  networks in normal form for its routes.\<close>

definition addr_wf :: "string \<Rightarrow> bool" where
  "addr_wf a \<longleftrightarrow> (\<exists>as. a = address_list as \<and> as \<noteq> [] \<and> (\<forall>x \<in> set as. x \<noteq> NoAddr \<and> zone_of x = []))"

definition routes_wf :: "string \<Rightarrow> bool" where
  "routes_wf r \<longleftrightarrow>
     (\<exists>ps. r = go_join '', '' (routeStrings ps) \<and> distinct ps \<and> length ps \<le> maxRoutesPerDevice \<and>
           (\<forall>p \<in> set ps. prefix_valid p \<and> masked p = p \<and> prefix_bits p > 0))"

definition dev_wf :: "device \<Rightarrow> bool" where
  "dev_wf dev \<longleftrightarrow>
     validateDeviceName (devName dev) = Inr () \<and> wgKey (devPublicKey dev) \<and>
     (devPresharedKey dev = [] \<or> wgKey (devPresharedKey dev)) \<and>
     addr_wf (devAddress dev) \<and> routes_wf (devRoutes dev)"

text \<open>Two devices that route no address in common, and a device that routes none of the VPN's.\<close>

definition routes_apart :: "device \<Rightarrow> device \<Rightarrow> bool" where
  "routes_apart x y \<longleftrightarrow> (\<forall>p \<in> set (taken_routes x). \<forall>q \<in> set (taken_routes y). \<not> prefix_overlaps p q)"

definition vpn_nets :: "'w manager \<Rightarrow> prefix set" where
  "vpn_nets d = {masked p | p. subnet (cidr d) = Some p \<or> subnet (cidrv6 d) = Some p}"

definition routes_off_vpn :: "'w manager \<Rightarrow> device \<Rightarrow> bool" where
  "routes_off_vpn d x \<longleftrightarrow> (\<forall>p \<in> set (taken_routes x). \<forall>q \<in> vpn_nets d. \<not> prefix_overlaps q p)"

definition keeps :: "device \<Rightarrow> device \<Rightarrow> bool" where
  "keeps x y \<longleftrightarrow> devAddress y = devAddress x \<and> devOwner y = devOwner x \<and> (dev_wf x \<longrightarrow> dev_wf y)"

definition keeps_all :: "device \<Rightarrow> device \<Rightarrow> bool" where
  "keeps_all x y \<longleftrightarrow> keeps x y \<and> devRoutes y = devRoutes x"

definition dev_mset :: "memory \<Rightarrow> device multiset" where
  "dev_mset s = mset (map snd (db s))"

text \<open>Devices are changed one by one or removed, and none is added.\<close>

definition evolves :: "(device \<Rightarrow> device \<Rightarrow> bool) \<Rightarrow> memory \<Rightarrow> memory \<Rightarrow> bool" where
  "evolves R s t \<longleftrightarrow> (\<exists>f. (\<forall>x. R x (f x)) \<and> dev_mset t \<subseteq># image_mset f (dev_mset s))"

lemma keeps_refl [simp]: "keeps x x" "keeps_all x x"
  by (simp_all add: keeps_def keeps_all_def)

lemma evolvesI: "(\<And>x. R x (f x)) \<Longrightarrow> dev_mset t \<subseteq># image_mset f (dev_mset s) \<Longrightarrow> evolves R s t"
  unfolding evolves_def by blast

lemma evolves_weaken: "evolves keeps_all s t \<Longrightarrow> evolves keeps s t"
  by (auto simp: evolves_def keeps_all_def)

lemma evolves_subset: "(\<And>x. R x x) \<Longrightarrow> dev_mset t \<subseteq># dev_mset s \<Longrightarrow> evolves R s t"
  by (rule evolvesI [of _ id]) simp_all

lemma evolves_same: "(\<And>x. R x x) \<Longrightarrow> db t = db s \<Longrightarrow> evolves R s t"
  by (rule evolves_subset) (simp_all add: dev_mset_def)

lemma mset_delete:
  "amap_ok m \<Longrightarrow> map_of m k = Some v \<Longrightarrow> mset m = add_mset (k, v) (mset (AList.delete k m))"
proof (induction m)
  case (Cons x m)
  obtain j w where x: "x = (j, w)" by fastforce
  show ?case
  proof (cases "j = k")
    case True
    then have "k \<notin> fst ` set m" using Cons.prems(1) x by (auto simp: amap_ok_def)
    then have "AList.delete k m = m" by (simp add: delete_id)
    then show ?thesis using x True Cons.prems(2) by simp
  next
    case False
    then show ?thesis using Cons x by (auto simp: amap_ok_def)
  qed
qed simp

lemma mset_update: "amap_ok m \<Longrightarrow> mset (AList.update k v m) = add_mset (k, v) (mset (AList.delete k m))"
proof -
  assume ok: "amap_ok m"
  have "mset (AList.update k v m) = add_mset (k, v) (mset (AList.delete k (AList.update k v m)))"
    using ok by (intro mset_delete) (auto simp: update_conv')
  moreover have "AList.delete k (AList.update k v m) = AList.delete k m" by (induction m) auto
  ultimately show ?thesis by simp
qed

text \<open>Removing a device and writing one that keeps what matters of it, under any key.\<close>

lemma evolves_replace:
  assumes ok: "db_ok (db s)" and x: "map_of (db s) k = Some x" and refl: "\<And>z. R z z" and y: "R x y"
    and t: "dev_mset t \<subseteq># add_mset y (mset (map snd (AList.delete k (db s))))"
  shows "evolves R s t"
proof (rule evolvesI [of _ "\<lambda>z. if z = x then y else z"])
  show "R z (if z = x then y else z)" for z using y refl by simp
  let ?f = "\<lambda>z. if z = x then y else z"
  have "x \<notin># mset (map snd (AList.delete k (db s)))"
    using table_okD(2) [OF ok] dev_key [OF ok x] by (fastforce simp: mem_delete_iff)
  then have "image_mset ?f (mset (map snd (AList.delete k (db s)))) = mset (map snd (AList.delete k (db s)))"
    by (intro trans [OF image_mset_cong multiset.map_ident]) auto
  moreover have "dev_mset s = add_mset x (mset (map snd (AList.delete k (db s))))"
    using mset_delete [OF table_okD(1) [OF ok] x] by (simp add: dev_mset_def)
  ultimately show "dev_mset t \<subseteq># image_mset ?f (dev_mset s)" using t by simp
qed

lemma mset_update_le:
  "amap_ok m \<Longrightarrow> mset (map snd (AList.update k v m)) \<subseteq># add_mset v (mset (map snd (AList.delete k m)))"
  by (simp add: mset_update)

lemma mset_delete_le: "mset (map snd (AList.delete k m)) \<subseteq># mset (map snd m)"
  by (simp add: AList.delete_eq image_mset_subseteq_mono multiset_filter_subset)

lemma evolves_update:
  assumes "db_ok (db s)" "map_of (db s) k = Some x" "\<And>z. R z z" "R x y" "db t = AList.update k y (db s)"
  shows "evolves R s t"
  using assms(1-4)
  by (rule evolves_replace) (simp add: dev_mset_def assms(5) mset_update table_okD(1) [OF assms(1)])

lemma evolves_map:
  assumes "db t = map (\<lambda>(k, x). (k, f x)) (db s)" "\<And>x. R x (f x)"
  shows "evolves R s t"
  by (rule evolvesI [of R, OF assms(2)])
    (simp add: dev_mset_def assms(1) image_mset.compositionality comp_def case_prod_beta')

lemma evolves_filter: "(\<And>x. R x x) \<Longrightarrow> db t = filter P (db s) \<Longrightarrow> evolves R s t"
  by (rule evolves_subset) (simp_all add: dev_mset_def image_mset_subseteq_mono multiset_filter_subset)

section \<open>The storage methods\<close>

lemma keeps_simps [simp]:
  "keeps_all x (x\<lparr>devDisabled := b\<rparr>)" "keeps_all x (x\<lparr>devDisabled := b, devExpiresAt := e\<rparr>)"
  "routes_wf r \<Longrightarrow> keeps x (x\<lparr>devRoutes := r\<rparr>)"
  "validateDeviceName n = Inr () \<Longrightarrow> keeps_all x (x\<lparr>devName := n\<rparr>)"
  "wgKey p \<Longrightarrow> q = [] \<or> wgKey q \<Longrightarrow> keeps_all x (x\<lparr>devPublicKey := p, devPresharedKey := q\<rparr>)"
  by (auto simp: keeps_def keeps_all_def dev_wf_def)

lemma keeps_trans: "keeps_all x y \<Longrightarrow> keeps_all y z \<Longrightarrow> keeps_all x z"
  by (auto simp: keeps_def keeps_all_def)

lemma keeps_apply_update: "keeps_all x (apply_update u x)"
  by (auto simp: keeps_all_def keeps_def dev_wf_def apply_update_def Let_def split: option.splits)

lemma keeps_updates: "keeps_all x (foldl (\<lambda>d u. apply_update u d) x us)"
  by (induction us arbitrary: x) (auto intro: keeps_trans keeps_apply_update)

lemma evolves_RecordMetadata:
  assumes "db_ok (db s)"
  shows "evolves keeps_all s (snd (RecordMetadata us s))"
proof (rule evolves_map)
  let ?g = "\<lambda>j d. foldl (\<lambda>d u. apply_update u d) d
     (filter (\<lambda>u. map_of (by_public_key (db s)) (updPublicKey u) = Some j) us)"
  show "db (snd (RecordMetadata us s)) = map (\<lambda>(k, x). (k, ?g (key x) x)) (db s)"
    using table_okD(2) [OF assms] by (auto simp: RecordMetadata_def record_all_map)
  show "keeps_all x (?g (key x) x)" for x by (rule keeps_updates)
qed

lemma evolves_Rename:
  assumes ok: "db_ok (db s)" and n: "validateDeviceName n = Inr ()"
  shows "evolves keeps_all s (snd (Rename d n s))"
proof (cases "map_of (db s) (key d)")
  case None
  then show ?thesis by (simp add: Rename_def evolves_same)
next
  case (Some x)
  then have k: "key x = key d" using dev_key [OF ok] by blast
  let ?m = "AList.delete (key d) (db s)"
  have "amap_ok ?m" using table_okD(1) [OF ok] by blast
  then have "mset (map snd (AList.update (devOwner x, n) (x\<lparr>devName := n\<rparr>) ?m))
      \<subseteq># add_mset (x\<lparr>devName := n\<rparr>) (mset (map snd (AList.delete (devOwner x, n) ?m)))"
    by (rule mset_update_le)
  also have "\<dots> \<subseteq># add_mset (x\<lparr>devName := n\<rparr>) (mset (map snd ?m))"
    using mset_delete_le [of "(devOwner x, n)" ?m] by simp
  finally have "dev_mset (snd (Rename d n s)) \<subseteq># add_mset (x\<lparr>devName := n\<rparr>) (mset (map snd ?m))"
    using Some k by (simp add: Rename_def Let_def dev_mset_def)
  from evolves_replace [where R = keeps_all, OF ok Some _ _ this] n show ?thesis by simp
qed

lemma evolves_write:
  assumes "db_ok (db s)" "map_of (db s) (key d) = Some x" "\<And>z. R z z" "R x y"
  shows "evolves R s (emit es (s\<lparr>db := AList.update (key d) y (db s)\<rparr>))"
  by (rule evolves_update [OF assms]) simp

lemma evolves_SetAccess: "db_ok (db s) \<Longrightarrow> evolves keeps_all s (snd (SetAccess d b e s))"
  by (auto simp: SetAccess_def Let_def dev_key evolves_same intro!: evolves_write split: option.splits)

lemma evolves_SetRoutes: "db_ok (db s) \<Longrightarrow> routes_wf r \<Longrightarrow> evolves keeps s (snd (SetRoutes d r s))"
  by (auto simp: SetRoutes_def Let_def dev_key evolves_same intro!: evolves_write split: option.splits)

lemma evolves_SetKeys:
  "db_ok (db s) \<Longrightarrow> wgKey p \<Longrightarrow> q = [] \<or> wgKey q \<Longrightarrow> evolves keeps_all s (snd (SetKeys d p q s))"
  by (auto simp: SetKeys_def Let_def dev_key evolves_same intro!: evolves_write split: option.splits)

lemma evolves_Delete: "evolves keeps_all s (snd (Delete d s))"
  by (rule evolves_subset) (simp_all add: Delete_def dev_mset_def mset_delete_le del: mset_map)

lemma evolves_DeleteForOwner: "evolves keeps_all s (snd (DeleteForOwner u s))"
  by (rule evolves_filter) (simp_all add: DeleteForOwner_def Let_def)

lemma evolves_BlockForOwner: "evolves keeps_all s (snd (BlockForOwner u s))"
  by (rule evolves_map [where f = "\<lambda>x. if devOwner x = u \<and> \<not> devDisabled x then x\<lparr>devDisabled := True\<rparr> else x"])
    (simp_all add: BlockForOwner_def Let_def)

section \<open>The invariant of the manager\<close>

definition owned :: "string \<Rightarrow> memory \<Rightarrow> nat" where
  "owned u s = size (filter_mset (\<lambda>x. devOwner x = u) (dev_mset s))"

definition mgr_base :: "'w manager \<Rightarrow> bool" where
  "mgr_base d \<longleftrightarrow>
     store_ok (storage d) \<and> emitted (storage d) = [] \<and> vpn_ok d \<and>
     distinct (all_addresses (storage d)) \<and>
     (\<forall>a \<in> set (all_addresses (storage d)). handed_out d a) \<and>
     (\<forall>x \<in># dev_mset (storage d). dev_wf x) \<and>
     (maxDevicesPerUser d > 0 \<longrightarrow> (\<forall>u. int (owned u (storage d)) \<le> maxDevicesPerUser d))"

definition mgr_routes :: "'w manager \<Rightarrow> bool" where
  "mgr_routes d \<longleftrightarrow>
     (\<forall>x y. {#x, y#} \<subseteq># dev_mset (storage d) \<longrightarrow> routes_apart x y) \<and>
     (\<forall>x \<in># dev_mset (storage d). routes_off_vpn d x)"

definition mgr_ok :: "'w manager \<Rightarrow> bool" where
  "mgr_ok d \<longleftrightarrow> mgr_base d \<and> mgr_routes d"

text \<open>The configuration of the manager, which no operation changes.\<close>

definition same_config :: "'w manager \<Rightarrow> 'w manager \<Rightarrow> bool" where
  "same_config d e \<longleftrightarrow> cidr e = cidr d \<and> cidrv6 e = cidrv6 d \<and> maxDevicesPerUser e = maxDevicesPerUser d"

lemma same_config_refl [simp]: "same_config d d"
  by (simp add: same_config_def)

lemma same_config_trans: "same_config a b \<Longrightarrow> same_config b c \<Longrightarrow> same_config a c"
  by (simp add: same_config_def)

lemma mset_all_addresses:
  "mset (all_addresses s) = sum_mset (image_mset (\<lambda>x. mset (device_addrs x)) (dev_mset s))"
proof -
  have "mset (concat (map f xs)) = sum_mset (image_mset (mset \<circ> f) (mset xs))" for f :: "dev_key \<times> device \<Rightarrow> addr list" and xs
    by (induction xs) auto
  then show ?thesis
    by (simp add: all_addresses_db dev_mset_def image_mset.compositionality comp_def)
qed

lemma distinct_iff_count: "distinct xs \<longleftrightarrow> (\<forall>a. count (mset xs) a \<le> 1)"
  by (induction xs) (auto simp: not_in_iff le_Suc_eq split: if_splits)

lemma mset_subset_distinct: "mset xs \<subseteq># mset ys \<Longrightarrow> distinct ys \<Longrightarrow> distinct xs"
  unfolding distinct_iff_count using mset_subset_eq_count le_trans by metis

lemma sum_mset_mono_sub: "A \<subseteq># B \<Longrightarrow> sum_mset (image_mset f A) \<subseteq># sum_mset (image_mset f B)"
  for f :: "'a \<Rightarrow> 'b multiset"
  by (metis image_mset_union mset_subset_eq_add_left subset_mset.add_diff_inverse sum_mset.union)

lemma evolves_base:
  assumes ev: "evolves keeps (storage d) t" and ok: "mgr_base d" and t: "store_ok t"
    and e: "storage e = t\<lparr>emitted := []\<rparr>" and cfg: "same_config d e"
  shows "mgr_base e"
proof -
  obtain f where f: "\<And>x. keeps x (f x)" and le: "dev_mset t \<subseteq># image_mset f (dev_mset (storage d))"
    using ev by (auto simp: evolves_def)
  have dm: "dev_mset (storage e) = dev_mset t" using e by (simp add: dev_mset_def)
  have "device_addrs (f x) = device_addrs x" for x using f [of x] by (simp add: keeps_def device_addrs_def)
  then have "mset (all_addresses (storage e)) \<subseteq># mset (all_addresses (storage d))"
    using sum_mset_mono_sub [OF le, of "\<lambda>x. mset (device_addrs x)"]
    by (simp add: mset_all_addresses dm image_mset.compositionality comp_def)
  then have ad: "distinct (all_addresses (storage e))" "set (all_addresses (storage e)) \<subseteq> set (all_addresses (storage d))"
    using ok mset_subset_distinct set_mset_mono by (fastforce simp: mgr_base_def)+
  have wf: "dev_wf y" if "y \<in># dev_mset t" for y
  proof -
    have "y \<in># image_mset f (dev_mset (storage d))" using le that by (rule mset_subset_eqD)
    then obtain x where "x \<in># dev_mset (storage d)" "y = f x" by auto
    then show ?thesis using f [of x] ok by (auto simp: keeps_def mgr_base_def)
  qed
  have "owned u t \<le> owned u (storage d)" for u
  proof -
    have "filter_mset (\<lambda>x. devOwner x = u) (dev_mset t)
        \<subseteq># image_mset f (filter_mset (\<lambda>x. devOwner (f x) = u) (dev_mset (storage d)))"
      using multiset_filter_mono [OF le, of "\<lambda>x. devOwner x = u"] by (simp add: filter_mset_image_mset)
    then show ?thesis using f size_mset_mono by (fastforce simp: owned_def keeps_def)
  qed
  then have own: "owned u (storage e) \<le> owned u (storage d)" for u by (simp add: owned_def dm)
  have q: "int (owned u (storage e)) \<le> maxDevicesPerUser d" if "maxDevicesPerUser d > 0" for u
  proof -
    have "int (owned u (storage d)) \<le> maxDevicesPerUser d" using ok that by (simp add: mgr_base_def)
    then show ?thesis using own [of u] by linarith
  qed
  show ?thesis
    using ok ad wf q e t cfg dm
    by (auto simp: mgr_base_def same_config_def vpn_ok_def handed_out_def)
qed

lemma overlaps_sym: "prefix_overlaps p q = prefix_overlaps q p"
  by (auto simp: prefix_overlaps_def Let_def min.commute)

lemma pair_image:
  assumes "{#x, y#} \<subseteq># image_mset f M"
  shows "\<exists>v w. {#v, w#} \<subseteq># M \<and> x = f v \<and> y = f w"
proof -
  have "x \<in># image_mset f M" using assms by (simp add: insert_subset_eq_iff)
  then obtain v M' where M: "M = add_mset v M'" and x: "x = f v" by (auto dest: multi_member_split)
  then have "y \<in># image_mset f M'" using assms by simp
  then obtain w where "w \<in># M'" "y = f w" by auto
  then show ?thesis using M x by (intro exI [of _ v] exI [of _ w]) simp
qed

lemma taken_routes_cong: "devRoutes x = devRoutes y \<Longrightarrow> taken_routes x = taken_routes y"
  by (simp add: taken_routes_def RouteList_def)

lemma vpn_nets_config: "same_config d e \<Longrightarrow> vpn_nets e = vpn_nets d"
  by (simp add: vpn_nets_def same_config_def)

lemma evolves_routes:
  assumes ev: "evolves keeps_all (storage d) (storage e)" and ok: "mgr_routes d" and cfg: "same_config d e"
  shows "mgr_routes e"
proof -
  obtain f where f: "\<And>x. keeps_all x (f x)" and le: "dev_mset (storage e) \<subseteq># image_mset f (dev_mset (storage d))"
    using ev by (auto simp: evolves_def)
  have r: "taken_routes (f x) = taken_routes x" for x
    using f [of x] by (intro taken_routes_cong) (simp add: keeps_all_def)
  have "routes_apart x y" if sub: "{#x, y#} \<subseteq># dev_mset (storage e)" for x y
  proof -
    obtain v w where "{#v, w#} \<subseteq># dev_mset (storage d)" "x = f v" "y = f w"
      using pair_image [OF subset_mset.order_trans [OF sub le]] by blast
    then show ?thesis using ok r by (simp add: mgr_routes_def routes_apart_def)
  qed
  moreover have "routes_off_vpn e x" if "x \<in># dev_mset (storage e)" for x
  proof -
    have "x \<in># image_mset f (dev_mset (storage d))" using le that by (rule mset_subset_eqD)
    then show ?thesis
      using ok r vpn_nets_config [OF cfg] by (auto simp: mgr_routes_def routes_off_vpn_def)
  qed
  ultimately show ?thesis by (simp add: mgr_routes_def)
qed

lemma evolves_inv:
  assumes "evolves keeps_all (storage d) t" "mgr_ok d" "store_ok t"
    and e: "storage e = t\<lparr>emitted := []\<rparr>" and cfg: "same_config d e"
  shows "mgr_ok e"
proof -
  have "evolves keeps_all (storage d) (storage e)" using assms(1) e by (simp add: evolves_def dev_mset_def)
  then show ?thesis
    using assms evolves_routes evolves_base [OF evolves_weaken] by (metis mgr_ok_def)
qed

section \<open>Operations of the manager\<close>

text \<open>The interface is all that handling an event changes.\<close>

lemma applyPeer_frame [simp]:
  "storage (snd (applyPeer W now dev d)) = storage d" "same_config d (snd (applyPeer W now dev d))"
  by (auto simp: applyPeer_def same_config_def split: prod.splits option.splits)

lemma on_event_frame [simp]: "storage (on_event W now d e) = storage d" "same_config d (on_event W now d e)"
  using applyPeer_frame(2) by (cases e; auto simp: Resync_def same_config_def)+

lemma events_frame:
  "storage (foldl (on_event W now) d es) = storage d \<and> same_config d (foldl (on_event W now) d es)"
proof (induction es arbitrary: d)
  case (Cons e es)
  then show ?case using same_config_trans [OF on_event_frame(2) [of d W now e]] by simp
qed simp

lemma call_frame:
  "fst (call W now f d) = fst (f (storage d))"
  "storage (snd (call W now f d)) = (snd (f (storage d)))\<lparr>emitted := []\<rparr>"
  "same_config d (snd (call W now f d))"
proof -
  obtain r s where f: "f (storage d) = (r, s)" by fastforce
  let ?d = "d\<lparr>storage := s\<lparr>emitted := []\<rparr>\<rparr>"
  have c: "call W now f d = (r, foldl (on_event W now) ?d (emitted s))" by (simp add: call_def deliver_def f)
  show "fst (call W now f d) = fst (f (storage d))"
    "storage (snd (call W now f d)) = (snd (f (storage d)))\<lparr>emitted := []\<rparr>"
    using c f events_frame [of W now ?d "emitted s"] by simp_all
  have "same_config d ?d" by (simp add: same_config_def)
  then show "same_config d (snd (call W now f d))"
    using c events_frame [of W now ?d "emitted s"] same_config_trans by (metis snd_conv)
qed

lemma call_ok:
  assumes "mgr_ok d" "store_ok (snd (f (storage d)))" "evolves keeps_all (storage d) (snd (f (storage d)))"
  shows "mgr_ok (snd (call W now f d))"
  using assms(3,1,2) call_frame(2,3) by (rule evolves_inv)

lemma mgr_db_ok: "mgr_ok d \<Longrightarrow> store_ok (storage d)" "mgr_ok d \<Longrightarrow> db_ok (db (storage d))"
  by (simp_all add: mgr_ok_def mgr_base_def store_okD)

text \<open>An operation that only touches the interface, the firewall or the channel.\<close>

lemma frame_ok:
  assumes "mgr_ok d" "storage e = storage d" "same_config d e"
  shows "mgr_ok e"
  using assms vpn_nets_config [OF assms(3)]
  by (auto simp: mgr_ok_def mgr_base_def mgr_routes_def routes_off_vpn_def same_config_def vpn_ok_def handed_out_def)

lemma snd_case_sum: "snd (case r of (Inl e, d) \<Rightarrow> (f e, d) | (Inr x, d) \<Rightarrow> (g x, d)) = snd r"
  by (cases r) (auto split: sum.splits)

lemma RenameDevice_ok:
  assumes "mgr_ok d"
  shows "mgr_ok (snd (RenameDevice W now u n n' d))"
  using assms mgr_db_ok [OF assms]
  by (auto simp: RenameDevice_def intro!: call_ok store_ok_Rename evolves_Rename split: sum.splits)

lemma RotateDeviceKey_ok:
  assumes ok: "mgr_ok d"
  shows "mgr_ok (snd (RotateDeviceKey W now u n p q d))"
proof -
  have set: "mgr_ok (snd (call W now (SetKeys dev p q) d))" if "wgKey p" "q = [] \<or> wgKey q" for dev
    using ok mgr_db_ok [OF ok] that by (intro call_ok store_ok_SetKeys evolves_SetKeys)
  have wg: "mgr_ok (snd (applyPeer W now x (e\<lparr>wg := w\<rparr>)))" if "mgr_ok e" for e :: "'a manager" and x w
    by (rule frame_ok [OF that]) (auto simp: applyPeer_def same_config_def split: prod.splits option.splits)
  show ?thesis
  proof (cases "wgKey p \<and> (q = [] \<or> wgKey q)")
    case True
    have "mgr_ok (snd (case call W now (SetKeys dev p q) d of
        (Inl e, d') \<Rightarrow> (Inl (wrap_err ''failed to change the keys of the device'' e), d')
      | (Inr changed, d') \<Rightarrow>
          (let d'' = d'\<lparr>wg := snd (RemovePeer W (devPublicKey dev) (wg d'))\<rparr> in
           (Inr changed, snd (applyPeer W now changed d'')))))" for dev
      using set [of dev] True wg
      by (cases "call W now (SetKeys dev p q) d"; cases "fst (call W now (SetKeys dev p q) d)")
        (auto simp: Let_def)
    then show ?thesis using ok by (auto simp: RotateDeviceKey_def split: sum.splits)
  qed (use ok in \<open>auto simp: RotateDeviceKey_def\<close>)
qed

lemma SetDeviceAccess_ok:
  assumes ok: "mgr_ok d"
  shows "mgr_ok (snd (SetDeviceAccess W now u n ch d))"
proof -
  have "mgr_ok (snd (call W now (SetAccess dev b e) d))" for dev b e
    using ok mgr_db_ok [OF ok] by (intro call_ok store_ok_SetAccess evolves_SetAccess)
  then show ?thesis
    using ok by (auto simp: SetDeviceAccess_def Let_def snd_case_sum split: sum.splits option.splits)
qed

lemma pair_add:
  assumes "{#v, w#} \<subseteq># add_mset y M"
  shows "(v = y \<and> w \<in># M) \<or> (w = y \<and> v \<in># M) \<or> {#v, w#} \<subseteq># M"
proof (cases "v = y")
  case False
  have v: "v \<in># M" using assms False by (simp add: insert_subset_eq_iff)
  have "w \<in># add_mset y M - {#v#}" using assms by (simp add: insert_subset_eq_iff)
  then have "w = y \<or> w \<in># M - {#v#}" using False by (simp add: diff_union_swap2 v)
  then show ?thesis using v by (auto simp: insert_subset_eq_iff)
qed (use assms in simp)

text \<open>A device whose routes are new, beside devices that were there.\<close>

lemma mgr_routes_add:
  assumes new: "dev_mset (storage e) = add_mset y M" and old: "M \<subseteq># dev_mset (storage d)"
    and ok: "mgr_routes d" and cfg: "same_config d e"
    and y: "\<And>z. z \<in># M \<Longrightarrow> routes_apart y z" "routes_off_vpn e y"
  shows "mgr_routes e"
proof -
  have "routes_apart v w" if "{#v, w#} \<subseteq># dev_mset (storage e)" for v w
    using pair_add [OF that [unfolded new]]
  proof (elim disjE)
    assume "{#v, w#} \<subseteq># M"
    then show ?thesis using ok old subset_mset.order_trans unfolding mgr_routes_def by blast
  next
    assume "w = y \<and> v \<in># M"
    then show ?thesis using y(1) [of v] overlaps_sym unfolding routes_apart_def by metis
  qed (use y(1) in blast)
  moreover have "routes_off_vpn e x" if "x \<in># M" for x
    using ok mset_subset_eqD [OF old that] vpn_nets_config [OF cfg]
    by (auto simp: mgr_routes_def routes_off_vpn_def)
  ultimately show ?thesis using new y(2) by (auto simp: mgr_routes_def)
qed

text \<open>Setting routes: the checks keep the new networks off the VPN's and off those of other devices.\<close>

lemma normalize_loop_wf:
  assumes "normalize_loop rs ps = Inr qs" "distinct ps" "\<forall>p \<in> set ps. prefix_valid p \<and> masked p = p \<and> prefix_bits p > 0"
  shows "distinct qs \<and> length qs \<le> length ps + length rs \<and> (\<forall>p \<in> set qs. prefix_valid p \<and> masked p = p \<and> prefix_bits p > 0)"
  using assms
proof (induction rs ps rule: normalize_loop.induct)
  case (2 r rs ps)
  show ?case
  proof (cases "trim_space r = []")
    case True
    then show ?thesis using 2 by (auto simp: Let_def)
  next
    case False
    obtain p where p: "parse_prefix (trim_space r) = Some p" "prefix_bits p \<noteq> 0"
      using False "2.prems"(1) by (auto simp: Let_def split: option.splits if_splits)
    have m: "prefix_valid (masked p)" "prefix_bits (masked p) = prefix_bits p"
      using masked_valid parse_prefix_valid [OF p(1)]
      by (auto simp: masked_def prefix_valid_def split: prefix.splits) (cases p; cases "prefix_addr p"; simp add: prefix_valid_def)
    show ?thesis
    proof (cases "List.member ps (masked p)")
      case True
      then show ?thesis using "2.IH"(2) [OF refl False p(1)] "2.prems" False p by (auto simp: Let_def)
    next
      case False
      then show ?thesis
        using "2.IH"(3) [OF refl \<open>trim_space r \<noteq> []\<close> p(1)] "2.prems" \<open>trim_space r \<noteq> []\<close> p m
        by (auto simp: Let_def)
    qed
  qed
qed auto

lemma normalizeRoutes_wf:
  assumes "normalizeRoutes rs = Inr ps"
  shows "distinct ps" "length ps \<le> maxRoutesPerDevice" "\<forall>p \<in> set ps. prefix_valid p \<and> masked p = p \<and> prefix_bits p > 0"
  using assms normalize_loop_wf [of rs "[]" ps] by (auto simp: normalizeRoutes_def split: if_splits)

lemma taken_routes_join:
  assumes "\<And>p. p \<in> set ps \<Longrightarrow> prefix_valid p" "devRoutes x = go_join '', '' (routeStrings ps)"
  shows "taken_routes x = ps"
proof -
  have "RouteList x = map prefix_string ps"
    using splitList_prefixes [OF assms(1)] by (simp add: RouteList_def assms(2) routeStrings_def)
  moreover have "List.map_filter parse_prefix (map prefix_string ps) = ps"
    using assms(1) parse_prefix_string by (induction ps) (auto simp: List.map_filter_def)
  ultimately show ?thesis by (simp add: taken_routes_def)
qed

lemma conflict_None: "conflict_with ps r = None \<longleftrightarrow> (\<forall>p \<in> set ps. \<not> prefix_overlaps p r)"
  by (auto simp: conflict_with_def find_None_iff)

lemma conflict_Some: "conflict_with ps r = Some p \<Longrightarrow> p \<in> set ps \<and> prefix_overlaps p r"
  by (auto simp: conflict_with_def find_Some_iff)

lemma device_conflict_None:
  "device_conflict ds x r = None \<longleftrightarrow>
     (\<forall>y \<in> set ds. key y \<noteq> key x \<longrightarrow> (\<forall>p \<in> set (taken_routes y). \<not> prefix_overlaps p r))"
  by (induction ds) (auto simp: key_def conflict_None dest!: conflict_Some split: option.splits)

lemma check_loop_ok:
  "check_loop vpn host ds x rs = Inr () \<longleftrightarrow>
     (\<forall>r \<in> set rs. conflict_with vpn r = None \<and> conflict_with host r = None \<and> device_conflict ds x r = None)"
  by (induction rs) (auto split: option.splits)

lemma vpn_networks_set: "vpn_networks [c, c'] = Inr ps \<Longrightarrow> set ps = {masked p | p. subnet c = Some p \<or> subnet c' = Some p}"
  by (auto simp: subnet_def split: if_splits option.splits)

text \<open>Filling in owner names leaves everything else of a device alone.\<close>

lemma fill_owner_keeps [simp]:
  "key (fill_owner m x) = key x" "devRoutes (fill_owner m x) = devRoutes x"
  "devPublicKey (fill_owner m x) = devPublicKey x" "devPresharedKey (fill_owner m x) = devPresharedKey x"
  "devAddress (fill_owner m x) = devAddress x" "AccessAllowed (fill_owner m x) t = AccessAllowed x t"
  by (auto simp: fill_owner_def key_def Let_def AccessAllowed_def device_Expired_def split: option.splits)

lemma ListAllDevices_fill:
  "\<exists>g. ListAllDevices s = map g (map snd (db s)) \<and> (g = id \<or> (\<exists>m. g = fill_owner m))"
proof -
  have "List_devices [] s = map snd (db s)" by (simp add: List_devices_def)
  then have "ListAllDevices s = map id (map snd (db s)) \<or> (\<exists>m. ListAllDevices s = map (fill_owner m) (map snd (db s)))"
    by (simp add: ListAllDevices_def withOwnerNames_def) blast
  then show ?thesis by blast
qed

lemma taken_routes_fill [simp]: "taken_routes (fill_owner m x) = taken_routes x"
  by (rule taken_routes_cong) simp

lemma ListAllDevices_routes:
  assumes "x \<in> set (map snd (db s))"
  shows "\<exists>y \<in> set (ListAllDevices s). key y = key x \<and> taken_routes y = taken_routes x"
  using ListAllDevices_fill [of s] assms by fastforce

lemma checkRoutes_ok:
  assumes "checkRoutes ia ps x d = Inr ()" "p \<in> set ps"
  shows "q \<in> vpn_nets d \<Longrightarrow> \<not> prefix_overlaps q p"
    and "y \<in> set (map snd (db (storage d))) \<Longrightarrow> key y \<noteq> key x \<Longrightarrow> q \<in> set (taken_routes y) \<Longrightarrow> \<not> prefix_overlaps q p"
proof -
  obtain vpn host where vpn: "vpn_networks [cidr d, cidrv6 d] = Inr vpn"
    and c: "check_loop vpn host (ListAllDevices (storage d)) x ps = Inr ()"
    using assms by (auto simp: checkRoutes_def split: if_splits sum.splits)
  have "conflict_with vpn p = None" and dc: "device_conflict (ListAllDevices (storage d)) x p = None"
    using c assms(2) by (auto simp: check_loop_ok)
  then show "q \<in> vpn_nets d \<Longrightarrow> \<not> prefix_overlaps q p"
    using vpn_networks_set [OF vpn] by (auto simp: conflict_None vpn_nets_def)
  assume "y \<in> set (map snd (db (storage d)))" "key y \<noteq> key x" "q \<in> set (taken_routes y)"
  then show "\<not> prefix_overlaps q p"
    using dc ListAllDevices_routes [of y "storage d"] by (fastforce simp: device_conflict_None)
qed

lemma SetDeviceRoutes_cases:
  obtains (refused) e where "SetDeviceRoutes W now ia u n rs d = (Inl e, d)"
  | (written) ps x where "normalizeRoutes rs = Inr ps" "map_of (db (storage d)) (u, n) = Some x"
      "checkRoutes ia ps x d = Inr ()"
      "snd (SetDeviceRoutes W now ia u n rs d) = snd (call W now (SetRoutes x (go_join '', '' (routeStrings ps))) d)"
proof (cases "\<exists>ps x. normalizeRoutes rs = Inr ps \<and> map_of (db (storage d)) (u, n) = Some x \<and> checkRoutes ia ps x d = Inr ()")
  case True
  then obtain ps x where h: "normalizeRoutes rs = Inr ps" "map_of (db (storage d)) (u, n) = Some x"
    "checkRoutes ia ps x d = Inr ()" by blast
  then have "snd (SetDeviceRoutes W now ia u n rs d) = snd (call W now (SetRoutes x (go_join '', '' (routeStrings ps))) d)"
    by (simp add: SetDeviceRoutes_def get_device_def Get_def snd_case_sum)
  with h show thesis by (rule written)
next
  case False
  then have "\<exists>e. SetDeviceRoutes W now ia u n rs d = (Inl e, d)"
    by (auto simp: SetDeviceRoutes_def get_device_def Get_def split: sum.splits option.splits)
  then show thesis using refused by blast
qed

lemma SetDeviceRoutes_ok:
  assumes ok: "mgr_ok d"
  shows "mgr_ok (snd (SetDeviceRoutes W now ia u n rs d))"
proof (cases rule: SetDeviceRoutes_cases [of W now ia u n rs d])
  case (written ps x)
  let ?r = "go_join '', '' (routeStrings ps)" and ?s = "storage d"
  let ?y = "x\<lparr>devRoutes := ?r\<rparr>" and ?e = "snd (call W now (SetRoutes x ?r) d)"
  note wf = normalizeRoutes_wf [OF written(1)]
  have r: "routes_wf ?r" using wf by (auto simp: routes_wf_def)
  have k: "key x = (u, n)" using dev_key [OF mgr_db_ok(2) [OF ok] written(2)] .
  have db: "db (storage ?e) = AList.update (u, n) ?y (db ?s)"
    using written(2) k by (simp add: call_frame SetRoutes_def Let_def)
  have am: "amap_ok (db ?s)" using mgr_db_ok(2) [OF ok] by (rule table_okD)
  let ?M = "mset (map snd (AList.delete (u, n) (db ?s)))"
  have new: "dev_mset (storage ?e) = add_mset ?y ?M" by (simp add: dev_mset_def db mset_update [OF am])
  have old: "dev_mset ?s = add_mset x ?M"
    using mset_delete [OF am written(2)] by (simp add: dev_mset_def)
  have y: "taken_routes ?y = ps" using wf by (intro taken_routes_join) auto
  have other: "z \<in> set (map snd (db ?s)) \<and> key z \<noteq> key x" if "z \<in># ?M" for z
    using that table_okD(2) [OF mgr_db_ok(2) [OF ok]] k by (fastforce simp: mem_delete_iff)
  have cfg: "same_config d ?e" by (rule call_frame)
  have "mgr_routes ?e"
  proof (rule mgr_routes_add [OF new _ _ cfg])
    show "?M \<subseteq># dev_mset ?s" using old by simp
    show "mgr_routes d" using ok by (simp add: mgr_ok_def)
    show "routes_apart ?y z" if "z \<in># ?M" for z
      using checkRoutes_ok(2) [OF written(3)] other [OF that] overlaps_sym unfolding routes_apart_def y by metis
    show "routes_off_vpn ?e ?y"
      using checkRoutes_ok(1) [OF written(3)] unfolding routes_off_vpn_def y vpn_nets_config [OF cfg] by blast
  qed
  moreover have "mgr_base ?e"
  proof (rule evolves_base)
    show "evolves keeps ?s (snd (SetRoutes x ?r ?s))" using mgr_db_ok(2) [OF ok] r by (rule evolves_SetRoutes)
    show "mgr_base d" using ok by (simp add: mgr_ok_def)
    show "store_ok (snd (SetRoutes x ?r ?s))" using mgr_db_ok(1) [OF ok] by (rule store_ok_SetRoutes)
  qed (rule call_frame)+
  ultimately show ?thesis unfolding written(4) mgr_ok_def by blast
qed (use ok in simp)

lemma DeleteDevice_ok: "mgr_ok d \<Longrightarrow> mgr_ok (snd (DeleteDevice W now u n d))"
  by (auto simp: DeleteDevice_def mgr_db_ok intro!: call_ok store_ok_Delete evolves_Delete split: sum.splits)

lemma DeleteDevicesForUser_ok: "mgr_ok d \<Longrightarrow> mgr_ok (snd (DeleteDevicesForUser W now u d))"
  by (auto simp: DeleteDevicesForUser_def snd_case_sum mgr_db_ok
      intro!: call_ok store_ok_DeleteForOwner evolves_DeleteForOwner)

lemma BlockDevicesForUser_ok: "mgr_ok d \<Longrightarrow> mgr_ok (snd (BlockDevicesForUser W now u d))"
  by (auto simp: BlockDevicesForUser_def snd_case_sum mgr_db_ok
      intro!: call_ok store_ok_BlockForOwner evolves_BlockForOwner)

lemma ForgetUser_ok: "mgr_ok d \<Longrightarrow> mgr_ok (snd (ForgetUser W now u d))"
  by (auto simp: ForgetUser_def snd_case_sum mgr_db_ok DeleteUser_def
      intro!: call_ok evolves_same store_ok_DeleteUser [unfolded DeleteUser_def, simplified])

lemma syncFirewallState_frame:
  "storage (fst (syncFirewallState fs now devs d)) = storage d" "same_config d (fst (syncFirewallState fs now devs d))"
  by (auto simp: syncFirewallState_def Let_def same_config_def split: option.splits)

lemma sync_ok: "mgr_ok d \<Longrightarrow> mgr_ok (snd (sync W fs now d))"
proof -
  assume ok: "mgr_ok d"
  have "mgr_ok (fst (syncFirewallState fs now devs (d\<lparr>wg := w\<rparr>)))" for devs w
  proof (rule frame_ok [OF ok])
    have "same_config d (d\<lparr>wg := w\<rparr>)" by (simp add: same_config_def)
    then show "same_config d (fst (syncFirewallState fs now devs (d\<lparr>wg := w\<rparr>)))"
      using syncFirewallState_frame(2) same_config_trans by blast
  qed (simp add: syncFirewallState_frame)
  then show ?thesis using ok by (auto simp: sync_def Let_def split: sum.splits)
qed

lemma resync_round_ok: "mgr_ok d \<Longrightarrow> mgr_ok (resync_round W fs now d)"
  using sync_ok frame_ok [of d "d\<lparr>resync := False\<rparr>"] by (auto simp: resync_round_def same_config_def)

lemma removeBlockedPeers_ok: "mgr_ok d \<Longrightarrow> mgr_ok (fst (removeBlockedPeers W now d))"
  by (auto simp: removeBlockedPeers_def Let_def same_config_def intro: frame_ok split: sum.splits prod.splits)

lemma syncMetrics_ok: "mgr_ok d \<Longrightarrow> mgr_ok (fst (syncMetrics W now d t))"
  by (auto simp: syncMetrics_def mgr_db_ok intro!: call_ok store_ok_RecordMetadata evolves_RecordMetadata
      split: sum.splits prod.splits)

lemma checkAndRemove_ok: "mgr_ok d \<Longrightarrow> mgr_ok (fst (checkAndRemove W now grace d))"
proof -
  assume ok: "mgr_ok d"
  let ?g = "\<lambda>(d, audited) dev. if elapsed now dev > grace then
          (case DeleteDevice W now (devOwner dev) (devName dev) d of
             (Inl e, d') \<Rightarrow> (d', audited) | (Inr _, d') \<Rightarrow> (d', audited @ [dev])) else (d, audited)"
  have step: "mgr_ok (fst (?g p dev))" if "mgr_ok (fst p)" for p dev
    using that DeleteDevice_ok [of "fst p" W now "devOwner dev" "devName dev"]
    by (cases p) (auto split: prod.splits sum.splits)
  have "mgr_ok (fst (foldl ?g (d, []) (ListAllDevices (storage d))))"
    by (rule foldl_invariant [where P = "\<lambda>p. mgr_ok (fst p)"]) (use ok step in simp_all)
  then show ?thesis by (simp add: checkAndRemove_def)
qed

text \<open>A device that is added: its name is free, its owner below the limit, its address nobody's.\<close>

lemma List_devices_mset: "u \<noteq> [] \<Longrightarrow> length (List_devices u s) = owned u s"
  by (simp add: List_devices_def owned_def dev_mset_def flip: mset_filter size_mset mset_map)

lemma List_devices_le: "owned u s \<le> length (List_devices u s)"
proof (cases "u = []")
  case True
  then have "length (List_devices u s) = size (dev_mset s)" by (simp add: List_devices_def dev_mset_def)
  then show ?thesis by (simp add: owned_def size_filter_mset_lesseq)
qed (simp add: List_devices_mset)

lemma Save_ok:
  assumes ok: "mgr_ok d" and saved: "fst (Save x (storage d)) = Inr ()"
    and new: "map_of (db (storage d)) (key x) = None"
    and wf: "dev_wf x" "devRoutes x = []" and addr: "distinct (device_addrs x)"
      "\<And>a. a \<in> set (device_addrs x) \<Longrightarrow> a \<notin> set (all_addresses (storage d)) \<and> handed_out d a"
    and room: "maxDevicesPerUser d > 0 \<Longrightarrow> int (owned (devOwner x) (storage d)) < maxDevicesPerUser d"
  shows "mgr_ok (snd (call W now (Save x) d))"
proof -
  let ?e = "snd (call W now (Save x) d)"
  have cfg: "same_config d ?e" by (rule call_frame)
  have am: "amap_ok (db (storage d))" using mgr_db_ok(2) [OF ok] by (rule table_okD)
  have "AList.delete (key x) (db (storage d)) = db (storage d)"
    using new by (simp add: map_of_eq_None_iff delete_id)
  then have dm: "dev_mset (storage ?e) = add_mset x (dev_mset (storage d))"
    using saved am by (auto simp: call_frame Save_def dev_mset_def mset_update split: if_splits)
  then have "mset (all_addresses (storage ?e)) = mset (device_addrs x) + mset (all_addresses (storage d))"
    by (simp add: mset_all_addresses)
  then have perm: "mset (all_addresses (storage ?e)) = mset (device_addrs x @ all_addresses (storage d))" by simp
  have "distinct (device_addrs x @ all_addresses (storage d))"
    using addr ok by (auto simp: mgr_ok_def mgr_base_def)
  then have "distinct (all_addresses (storage ?e))" using perm mset_eq_imp_distinct_iff by blast
  moreover have "set (all_addresses (storage ?e)) = set (device_addrs x) \<union> set (all_addresses (storage d))"
    using mset_eq_setD [OF perm] by simp
  moreover have "int (owned u (storage ?e)) \<le> maxDevicesPerUser d" if "maxDevicesPerUser d > 0" for u
    using ok room that dm by (auto simp: mgr_ok_def mgr_base_def owned_def)
  moreover have "store_ok (storage ?e)" "emitted (storage ?e) = []"
    using store_ok_Save mgr_db_ok(1) [OF ok] by (auto simp: call_frame)
  ultimately have "mgr_base ?e"
    using ok cfg addr(2) wf dm
    by (auto simp: mgr_ok_def mgr_base_def same_config_def vpn_ok_def handed_out_def)
  moreover have "mgr_routes ?e"
    using ok wf(2) by (intro mgr_routes_add [OF dm _ _ cfg])
      (simp_all add: mgr_ok_def routes_apart_def routes_off_vpn_def taken_routes_def RouteList_def List.map_filter_def)
  ultimately show ?thesis by (simp add: mgr_ok_def)
qed

lemma new_device_simps [simp]:
  "devOwner (new_device i r a now) = idSubject i" "devName (new_device i r a now) = reqName r"
  "devPublicKey (new_device i r a now) = reqPublicKey r"
  "devPresharedKey (new_device i r a now) = reqPresharedKey r" "devAddress (new_device i r a now) = a"
  "devRoutes (new_device i r a now) = []"
  by (simp_all add: new_device_def)

text \<open>Adding a device ends before anything is written, or every check passed and the device is saved.\<close>

definition add_checks :: "identity \<Rightarrow> add_request \<Rightarrow> 'w manager \<Rightarrow> string \<Rightarrow> bool" where
  "add_checks ident r d a \<longleftrightarrow>
     validateDeviceName (reqName r) = Inr () \<and> wgKey (reqPublicKey r) \<and>
     (reqPresharedKey r = [] \<or> wgKey (reqPresharedKey r)) \<and>
     \<not> list_ex (\<lambda>x. devName x = reqName r) (List_devices (idSubject ident) (storage d)) \<and>
     \<not> (maxDevicesPerUser d > 0 \<and> int (length (List_devices (idSubject ident) (storage d))) \<ge> maxDevicesPerUser d) \<and>
     clientAddress r d = Inr a"

definition save_new :: "'w wireguard \<Rightarrow> instant \<Rightarrow> device \<Rightarrow> 'w manager \<Rightarrow> device res \<times> 'w manager" where
  "save_new W now x d =
     (case call W now (Save x) d of
        (Inl e, d') \<Rightarrow> (Inl (wrap_err ''failed to save the new device'' e), d')
      | (Inr _, d') \<Rightarrow> (Inr x, d'))"

lemma AddDevice_cases:
  obtains (refused) e where "AddDevice W now ident r d = (Inl e, d)"
  | (saved) a where "add_checks ident r d a" "AddDevice W now ident r d = save_new W now (new_device ident r a now) d"
proof (cases "\<exists>a. add_checks ident r d a")
  case True
  then obtain a where a: "add_checks ident r d a" by blast
  then have "AddDevice W now ident r d = save_new W now (new_device ident r a now) d"
    by (auto simp: add_checks_def AddDevice_def addDeviceLocked_def Let_def save_new_def)
  with a show thesis by (rule saved)
next
  case False
  then have "\<exists>e. AddDevice W now ident r d = (Inl e, d)"
    by (auto simp: add_checks_def AddDevice_def addDeviceLocked_def Let_def split: sum.splits)
  then show thesis using refused by blast
qed

lemma name_free:
  assumes ok: "db_ok (db s)" and name: "\<not> list_ex (\<lambda>x. devName x = n) (List_devices u s)"
  shows "map_of (db s) (u, n) = None"
proof (rule ccontr)
  assume "map_of (db s) (u, n) \<noteq> None"
  then obtain y where y: "map_of (db s) (u, n) = Some y" by blast
  then have "key y = (u, n)" using dev_key [OF ok] by blast
  moreover have "y \<in> set (map snd (db s))" using map_of_SomeD [OF y] by force
  ultimately show False using name by (auto simp: List_devices_def list_ex_iff key_def)
qed

text \<open>The addresses of a device that was just given one.\<close>

lemma new_addrs:
  assumes "vpn_ok d" "clientAddress r d = Inr a" "devAddress x = a"
  shows "distinct (device_addrs x)" "device_addrs x \<noteq> []"
    "y \<in> set (device_addrs x) \<Longrightarrow> y \<notin> set (all_addresses (storage d)) \<and> handed_out d y"
proof -
  obtain as where as: "a = address_list as" "as \<noteq> []" "distinct as"
    "\<And>x. x \<in> set as \<Longrightarrow> x \<notin> set (all_addresses (storage d)) \<and> handed_out d x"
    using clientAddress_fresh [OF assms(1,2)] by blast
  have "ParseAddresses (address_list as) = (as, [])"
    by (rule ParseAddresses_list [OF as(2)]) (use as(4) handed_out_addr in blast)
  then have "device_addrs x = as" by (simp add: device_addrs_def assms(3) as(1))
  with as show "distinct (device_addrs x)" "device_addrs x \<noteq> []"
    "y \<in> set (device_addrs x) \<Longrightarrow> y \<notin> set (all_addresses (storage d)) \<and> handed_out d y" by auto
qed

lemma addr_wf_new: "vpn_ok d \<Longrightarrow> clientAddress r d = Inr a \<Longrightarrow> addr_wf a"
  using clientAddress_fresh handed_out_addr by (fastforce simp: addr_wf_def)

lemma routes_wf_Nil [simp]: "routes_wf []"
  by (auto simp: routes_wf_def routeStrings_def intro: exI [of _ "[]"])

lemma AddDevice_ok:
  assumes ok: "mgr_ok d"
  shows "mgr_ok (snd (AddDevice W now ident r d))"
proof (cases rule: AddDevice_cases [of W now ident r d])
  case (refused e)
  then show ?thesis using ok by simp
next
  case (saved a)
  let ?x = "new_device ident r a now" and ?u = "idSubject ident" and ?s = "storage d"
  have c: "clientAddress r d = Inr a" and vpn: "vpn_ok d"
    using saved(1) ok by (simp_all add: add_checks_def mgr_ok_def mgr_base_def)
  note addrs = new_addrs [OF vpn c, of ?x, simplified]
  have "mgr_ok (snd (call W now (Save ?x) d))"
  proof (cases "fst (Save ?x ?s) = Inr ()")
    case True
    show ?thesis
    proof (rule Save_ok [OF ok True])
      show "map_of (db ?s) (key ?x) = None"
        using name_free [OF mgr_db_ok(2) [OF ok]] saved(1) by (simp add: key_def add_checks_def)
      show "dev_wf ?x" using saved(1) addr_wf_new [OF vpn c] by (simp add: dev_wf_def add_checks_def)
      show "devRoutes ?x = []" by simp
      show "int (owned (devOwner ?x) ?s) < maxDevicesPerUser d" if "maxDevicesPerUser d > 0"
        using saved(1) that List_devices_le [of ?u ?s] by (simp add: add_checks_def)
    qed (use addrs in blast)+
  next
    case False
    then have "snd (Save ?x ?s) = ?s" by (auto simp: Save_def split: if_splits)
    then show ?thesis using ok mgr_db_ok(1) [OF ok] by (intro call_ok) (simp_all add: evolves_same)
  qed
  then show ?thesis unfolding saved(2) save_new_def snd_case_sum .
qed

section \<open>Reachable states\<close>

text \<open>
  The calls the manager gets from the API and from its background loops, in any order and at any time.
  The storage is shared with the token, session and user services; their calls (\<open>Other\<close>) do not touch
  the devices.
\<close>

fun device_call :: "storage_call \<Rightarrow> bool" where
  "device_call (CSave _) = True"
| "device_call (CRecordMetadata _) = True"
| "device_call (CDelete _) = True"
| "device_call (CRename _ _) = True"
| "device_call (CSetAccess _ _ _) = True"
| "device_call (CSetRoutes _ _) = True"
| "device_call (CSetKeys _ _ _) = True"
| "device_call (CDeleteForOwner _) = True"
| "device_call (CBlockForOwner _) = True"
| "device_call _ = False"

inductive mgr_step ::
  "'w wireguard \<Rightarrow> (firewall_state \<Rightarrow> go_error option) option \<Rightarrow> 'w manager \<Rightarrow> 'w manager \<Rightarrow> bool"
  for W fs where
  Add: "mgr_step W fs d (snd (AddDevice W now ident r d))"
| Rename: "mgr_step W fs d (snd (RenameDevice W now u n n' d))"
| Rotate: "mgr_step W fs d (snd (RotateDeviceKey W now u n p q d))"
| Access: "mgr_step W fs d (snd (SetDeviceAccess W now u n ch d))"
| Routes: "mgr_step W fs d (snd (SetDeviceRoutes W now ia u n rs d))"
| Delete: "mgr_step W fs d (snd (DeleteDevice W now u n d))"
| DeleteAll: "mgr_step W fs d (snd (DeleteDevicesForUser W now u d))"
| Block: "mgr_step W fs d (snd (BlockDevicesForUser W now u d))"
| Forget: "mgr_step W fs d (snd (ForgetUser W now u d))"
| Sync: "mgr_step W fs d (snd (sync W fs now d))"
| Resync: "mgr_step W fs d (resync_round W fs now d)"
| Check: "mgr_step W fs d (fst (removeBlockedPeers W now d))"
| Metrics: "mgr_step W fs d (fst (syncMetrics W now d t))"
| Inactive: "mgr_step W fs d (fst (checkAndRemove W now grace d))"
| Other: "\<not> device_call c \<Longrightarrow> mgr_step W fs d (d\<lparr>storage := storage_step (storage d) c\<rparr>)"

inductive reachable ::
  "'w wireguard \<Rightarrow> (firewall_state \<Rightarrow> go_error option) option \<Rightarrow> 'w manager \<Rightarrow> bool" for W fs where
  start: "vpn_ok d \<Longrightarrow> storage d = NewMemoryStorage \<Longrightarrow> reachable W fs d"
| step: "reachable W fs d \<Longrightarrow> mgr_step W fs d e \<Longrightarrow> reachable W fs e"

lemma Other_ok:
  assumes ok: "mgr_ok d" and c: "\<not> device_call c"
  shows "mgr_ok (d\<lparr>storage := storage_step (storage d) c\<rparr>)"
proof -
  let ?t = "storage_step (storage d) c"
  have same: "db ?t = db (storage d) \<and> emitted ?t = emitted (storage d)"
    using c by (cases c) (auto simp: SaveUser_def SetUserTOTP_def SetUserPassword_def SetWebauthnChallenge_def
        DeleteUser_def SaveToken_def TouchToken_def DeleteToken_def DeleteTokensForOwner_def SaveSession_def
        TouchSession_def DeleteSession_def DeleteSessionsForOwner_def DeleteExpiredSessions_def AddPasskey_def
        UpdatePasskey_def RenamePasskey_def DeletePasskey_def Let_def split: option.splits)
  show ?thesis
  proof (rule evolves_inv [OF _ ok])
    show "evolves keeps_all (storage d) ?t" using same by (simp add: evolves_same)
    show "store_ok ?t" using mgr_db_ok(1) [OF ok] by (rule storage_step_ok)
    show "storage (d\<lparr>storage := ?t\<rparr>) = ?t\<lparr>emitted := []\<rparr>" using same ok by (simp add: mgr_ok_def mgr_base_def)
  qed (simp add: same_config_def)
qed

lemmas mgr_ops_ok =
  AddDevice_ok RenameDevice_ok RotateDeviceKey_ok SetDeviceAccess_ok SetDeviceRoutes_ok DeleteDevice_ok
  DeleteDevicesForUser_ok BlockDevicesForUser_ok ForgetUser_ok sync_ok resync_round_ok
  removeBlockedPeers_ok syncMetrics_ok checkAndRemove_ok Other_ok

lemma mgr_step_ok: "mgr_step W fs d e \<Longrightarrow> mgr_ok d \<Longrightarrow> mgr_ok e"
  by (induction rule: mgr_step.induct) (simp_all add: mgr_ops_ok)

lemma reachable_ok: "reachable W fs d \<Longrightarrow> mgr_ok d"
proof (induction rule: reachable.induct)
  case (start d)
  then show ?case
    by (simp add: mgr_ok_def mgr_base_def mgr_routes_def NewMemoryStorage_def store_ok_def all_addresses_def
        Addresses_def dev_mset_def owned_def)
qed (rule mgr_step_ok)

end
