(* ===== verification/Device_Peers.thy ===== *)
theory Device_Peers
  imports Device_Invariants
begin

text \<open>
  The peers of the WireGuard interface.  What the server relies on of the interface is a hypothesis on
  the parameter (\<open>wg_table\<close>); with it, a synchronization leaves exactly the devices that may connect
  with a peer, and every operation of the manager keeps the interface in line with the storage.
\<close>

section \<open>The interface\<close>

definition wg_keys :: "'w wireguard \<Rightarrow> 'w \<Rightarrow> string set" where
  "wg_keys W w = (case ListPeers W w of Inl _ \<Rightarrow> {} | Inr ps \<Rightarrow> peerPublicKey ` set ps)"

text \<open>
  The interface is a table of peers under their public keys: it can be listed, removing a key takes it
  out (and is fine for one that is not there), and adding a well-formed key with networks puts it in.
\<close>

definition wg_table :: "'w wireguard \<Rightarrow> bool" where
  "wg_table W \<longleftrightarrow>
     (\<forall>w. is_ok (ListPeers W w)) \<and>
     (\<forall>k w. wg_keys W (snd (RemovePeer W k w)) = wg_keys W w - {k}) \<and>
     (\<forall>k q ips w. wgKey k \<longrightarrow> (q = [] \<or> wgKey q) \<longrightarrow> (\<forall>i \<in> set ips. cidr_network i \<noteq> None) \<longrightarrow>
        wg_keys W (snd (AddPeer W k q ips w)) = insert k (wg_keys W w))"

text \<open>An interface that is such a table.  An allowed network belongs to one peer, so adding a peer takes
  its networks from the others.\<close>

definition table_wg :: "peer list wireguard" where
  "table_wg =
     \<lparr>AddPeer = (\<lambda>k q ips w.
        let nets = List.map_filter cidr_network ips;
            old = (case find (\<lambda>p. peerPublicKey p = k) w of
                     Some p \<Rightarrow> p
                   | None \<Rightarrow> \<lparr>peerPublicKey = k, peerPresharedKey = [], peerAllowedIPs = [],
                              peerEndpoint = None, peerLastHandshakeTime = zero_time,
                              peerReceiveBytes = 0, peerTransmitBytes = 0\<rparr>);
            rest = map (\<lambda>p. p\<lparr>peerAllowedIPs := filter (\<lambda>n. \<not> List.member nets n) (peerAllowedIPs p)\<rparr>)
                     (filter (\<lambda>p. peerPublicKey p \<noteq> k) w) in
        (None, rest @ [old\<lparr>peerPublicKey := k, peerPresharedKey := if q = [] then zero_key else q,
                           peerAllowedIPs := nets\<rparr>])),
      RemovePeer = (\<lambda>k w. (None, filter (\<lambda>p. peerPublicKey p \<noteq> k) w)),
      ListPeers = (\<lambda>w. Inr w),
      ParseKey = (\<lambda>s. if wgKey s then Some s else None)\<rparr>"

lemma wg_tableD:
  assumes "wg_table W"
  shows "\<exists>ps. ListPeers W w = Inr ps" "wg_keys W (snd (RemovePeer W k w)) = wg_keys W w - {k}"
    "wgKey k \<Longrightarrow> q = [] \<or> wgKey q \<Longrightarrow> (\<And>i. i \<in> set ips \<Longrightarrow> cidr_network i \<noteq> None) \<Longrightarrow>
       wg_keys W (snd (AddPeer W k q ips w)) = insert k (wg_keys W w)"
proof -
  have "is_ok (ListPeers W w)" using assms by (simp add: wg_table_def)
  then show "\<exists>ps. ListPeers W w = Inr ps" by (cases "ListPeers W w") auto
qed (use assms in \<open>auto simp: wg_table_def\<close>)

section \<open>Networks of a device\<close>

lemma parse_mask_itoa:
  assumes "b < 1000"
  shows "parse_mask (itoa b) = Some b"
proof -
  have "\<not> (length (itoa b) > 1 \<and> (byte (hd (itoa b)) < 49 \<or> byte (hd (itoa b)) > 57))"
    using parse_bits_itoa [OF assms] by (auto simp: parse_bits_def split: if_splits)
  then show ?thesis
    using parse_bits_itoa [OF assms] by (simp add: parse_bits_def parse_mask_def split: if_splits)
qed

lemma ParseCIDR_prefix:
  assumes "prefix_valid p"
  shows "ParseCIDR (prefix_string p) = Some (prefix_addr p, prefix_bits p)"
proof -
  from assms obtain a b where p: "p = Prefix a b" "a \<noteq> NoAddr" "b \<le> bit_len a" "zone_of a = []"
    by (cases p) (auto simp: prefix_valid_def)
  then have "b < 1000" using bit_len_le [of a] by simp
  then show ?thesis
    using p by (simp add: ParseCIDR_def cut_byte_append addr_string_no_slash parse_addr_string parse_mask_itoa)
qed

lemma AllowedIPs_networks:
  assumes "dev_wf x" "i \<in> set (AllowedIPs x)"
  shows "cidr_network i \<noteq> None"
proof -
  obtain as where as: "devAddress x = address_list as" "\<And>a. a \<in> set as \<Longrightarrow> a \<noteq> NoAddr \<and> zone_of a = []"
    using assms(1) by (auto simp: dev_wf_def addr_wf_def)
  obtain ps where ps: "devRoutes x = go_join '', '' (routeStrings ps)" "\<And>p. p \<in> set ps \<Longrightarrow> prefix_valid p"
    using assms(1) by (auto simp: dev_wf_def routes_wf_def)
  have v: "prefix_valid (host_prefix a)" if "a \<in> set as" for a
    using as(2) [OF that] by (auto simp: host_prefix_def prefix_from_def prefix_valid_def with_zone_id)
  have "splitList (devAddress x) = map prefix_string (map host_prefix as)"
    using splitList_prefixes [of "map host_prefix as"] v by (auto simp: as(1) address_list_def comp_def)
  moreover have "splitList (devRoutes x) = map prefix_string ps"
    using splitList_prefixes ps by (simp add: routeStrings_def)
  ultimately obtain p where "prefix_valid p" "i = prefix_string p"
    using assms(2) v ps(2) by (auto simp: AllowedIPs_def)
  then show ?thesis by (simp add: cidr_network_def ParseCIDR_prefix)
qed

lemma add_wf_peer:
  assumes "wg_table W" "dev_wf x"
  shows "wg_keys W (snd (AddPeer W (devPublicKey x) (devPresharedKey x) (AllowedIPs x) w)) =
     insert (devPublicKey x) (wg_keys W w)"
  using assms AllowedIPs_networks by (intro wg_tableD(3)) (auto simp: dev_wf_def)

section \<open>Synchronizing\<close>

text \<open>The keys of the devices that may connect.\<close>

definition may_connect :: "instant \<Rightarrow> device set \<Rightarrow> string set" where
  "may_connect now D = devPublicKey ` {x \<in> D. AccessAllowed x now}"

definition stored :: "memory \<Rightarrow> device set" where
  "stored s = set (map snd (db s))"

definition in_line :: "'w wireguard \<Rightarrow> instant \<Rightarrow> 'w manager \<Rightarrow> bool" where
  "in_line W now d \<longleftrightarrow> wg_keys W (wg d) = may_connect now (stored (storage d))"

lemma dev_wf_fill [simp]: "dev_wf (fill_owner m x) = dev_wf x"
proof -
  have "devName (fill_owner m x) = devName x" using fill_owner_keeps(1) [of m x] by (simp add: key_def)
  then show ?thesis by (simp add: dev_wf_def)
qed

lemma ListAllDevices_wf:
  assumes "mgr_ok d" "x \<in> set (ListAllDevices (storage d))"
  shows "dev_wf x"
proof -
  have wf: "\<forall>y \<in> set (map snd (db (storage d))). dev_wf y"
    using assms(1) by (auto simp: mgr_ok_def mgr_base_def dev_mset_def)
  obtain g where g: "ListAllDevices (storage d) = map g (map snd (db (storage d)))" "g = id \<or> (\<exists>m. g = fill_owner m)"
    using ListAllDevices_fill by blast
  then obtain y where "y \<in> set (map snd (db (storage d)))" "x = g y" using assms(2) by auto
  then show ?thesis using g(2) wf by auto
qed

lemma ListAllDevices_allowed: "set (allowed_keys now (ListAllDevices s)) = may_connect now (stored s)"
proof -
  obtain g where g: "ListAllDevices s = map g (map snd (db s))" "g = id \<or> (\<exists>m. g = fill_owner m)"
    using ListAllDevices_fill by blast
  then have h: "devPublicKey (g x) = devPublicKey x" "AccessAllowed (g x) now = AccessAllowed x now" for x by auto
  have "allowed_keys now (ListAllDevices s) = map devPublicKey (filter (\<lambda>x. AccessAllowed x now) (map snd (db s)))"
    unfolding allowed_keys_def g(1) filter_map by (simp add: comp_def h)
  then show ?thesis by (simp add: may_connect_def stored_def)
qed

lemma remove_strangers_keys:
  assumes "wg_table W"
  shows "wg_keys W (remove_strangers W al ps w) = wg_keys W w - (peerPublicKey ` set ps - set al)"
proof -
  let ?f = "\<lambda>w p. if List.member al (peerPublicKey p) then w else snd (RemovePeer W (peerPublicKey p) w)"
  have "wg_keys W (foldl ?f w ps) = wg_keys W w - (peerPublicKey ` set ps - set al)"
  proof (induction ps arbitrary: w)
    case (Cons p ps)
    then show ?case using wg_tableD(2) [OF assms] by auto
  qed simp
  then show ?thesis by (simp add: remove_strangers_def)
qed

lemma add_missing_keys:
  assumes W: "wg_table W" and wf: "\<And>x. x \<in> set ds \<Longrightarrow> dev_wf x"
    and skip: "\<And>x p. x \<in> set ds \<Longrightarrow> map_of cf (devPublicKey x) = Some p \<Longrightarrow> devPublicKey x \<in> set al \<Longrightarrow>
                devPublicKey x \<in> wg_keys W w"
  shows "wg_keys W (add_missing W al cf ds w) = wg_keys W w \<union> (devPublicKey ` set ds \<inter> set al)"
proof -
  let ?f = "\<lambda>w dev. if \<not> List.member al (devPublicKey dev) then w
     else if (case map_of cf (devPublicKey dev) of None \<Rightarrow> False | Some p \<Rightarrow> peerMatches W p dev) then w
     else snd (AddPeer W (devPublicKey dev) (devPresharedKey dev) (AllowedIPs dev) w)"
  have "wg_keys W (foldl ?f w ds) = wg_keys W w \<union> (devPublicKey ` set ds \<inter> set al)"
    using wf skip
  proof (induction ds arbitrary: w)
    case (Cons x ds)
    have x: "dev_wf x" using Cons.prems(1) by simp
    have step: "wg_keys W (?f w x) = wg_keys W w \<union> ({devPublicKey x} \<inter> set al)"
      using add_wf_peer [OF W x] Cons.prems(2) [of x] by (auto split: option.splits)
    have "wg_keys W (foldl ?f (?f w x) ds) = wg_keys W (?f w x) \<union> (devPublicKey ` set ds \<inter> set al)"
    proof (rule Cons.IH)
      fix y p
      assume "y \<in> set ds" "map_of cf (devPublicKey y) = Some p" "devPublicKey y \<in> set al"
      then show "devPublicKey y \<in> wg_keys W (?f w x)" using Cons.prems(2) [of y p] step by auto
    qed (use Cons.prems in auto)
    then show ?case using step by auto
  qed simp
  then show ?thesis by (simp add: add_missing_def)
qed

lemma configured_peers_dom: "map_of (configured_peers ps) k = Some p \<Longrightarrow> k \<in> peerPublicKey ` set ps"
proof -
  have "map_of (foldl (\<lambda>m p. AList.update (peerPublicKey p) p m) m ps) k = Some p \<Longrightarrow>
      k \<in> peerPublicKey ` set ps \<or> map_of m k \<noteq> None" for m
    by (induction ps arbitrary: m) (force simp: update_conv' split: if_splits)+
  then show "map_of (configured_peers ps) k = Some p \<Longrightarrow> k \<in> peerPublicKey ` set ps"
    by (fastforce simp: configured_peers_def)
qed

lemma sync_in_line:
  assumes W: "wg_table W" and ok: "mgr_ok d"
  shows "fst (sync W fs now d) = Inr () \<and> in_line W now (snd (sync W fs now d))"
proof -
  obtain ps where ps: "ListPeers W (wg d) = Inr ps" using wg_tableD(1) [OF W] by blast
  let ?ds = "ListAllDevices (storage d)"
  let ?al = "allowed_keys now ?ds"
  let ?w1 = "remove_strangers W ?al ps (wg d)"
  let ?w2 = "add_missing W ?al (configured_peers ps) ?ds ?w1"
  have keys: "wg_keys W (wg d) = peerPublicKey ` set ps" by (simp add: wg_keys_def ps)
  then have w1: "wg_keys W ?w1 = peerPublicKey ` set ps \<inter> set ?al"
    by (auto simp: remove_strangers_keys [OF W])
  have "wg_keys W ?w2 = wg_keys W ?w1 \<union> (devPublicKey ` set ?ds \<inter> set ?al)"
    by (rule add_missing_keys [OF W]) (use ListAllDevices_wf [OF ok] configured_peers_dom w1 in auto)
  also have "\<dots> = set ?al" using w1 by (auto simp: allowed_keys_def)
  finally have w2: "wg_keys W ?w2 = may_connect now (stored (storage d))" by (simp add: ListAllDevices_allowed)
  have "wg (fst (syncFirewallState fs now ?ds e)) = wg e" for e :: "'a manager"
    by (auto simp: syncFirewallState_def Let_def split: option.splits)
  then show ?thesis
    using ps w2 by (simp add: sync_def Let_def in_line_def syncFirewallState_frame)
qed

section \<open>Events\<close>

text \<open>What an event does to the keys of the interface.\<close>

fun event_keys :: "instant \<Rightarrow> string set \<Rightarrow> event \<Rightarrow> string set" where
  "event_keys now K (Added x) = (if AccessAllowed x now then insert (devPublicKey x) K else K - {devPublicKey x})"
| "event_keys now K (Updated x) = (if AccessAllowed x now then insert (devPublicKey x) K else K - {devPublicKey x})"
| "event_keys now K (Deleted x) = K - {devPublicKey x}"

fun event_device :: "event \<Rightarrow> device" where
  "event_device (Added x) = x"
| "event_device (Updated x) = x"
| "event_device (Deleted x) = x"

lemma applyPeer_keys:
  assumes "wg_table W" "dev_wf x"
  shows "wg_keys W (wg (snd (applyPeer W now x d))) =
     (if AccessAllowed x now then insert (devPublicKey x) (wg_keys W (wg d)) else wg_keys W (wg d) - {devPublicKey x})"
proof -
  obtain e1 w1 e2 w2 where r: "RemovePeer W (devPublicKey x) (wg d) = (e1, w1)"
    and a: "AddPeer W (devPublicKey x) (devPresharedKey x) (AllowedIPs x) (wg d) = (e2, w2)" by fastforce
  have "wg_keys W w1 = wg_keys W (wg d) - {devPublicKey x}"
    using wg_tableD(2) [OF assms(1), of "devPublicKey x" "wg d"] r by simp
  moreover have "wg_keys W w2 = insert (devPublicKey x) (wg_keys W (wg d))"
    using add_wf_peer [OF assms, of "wg d"] a by simp
  ultimately show ?thesis by (cases e1) (simp_all add: applyPeer_def r a)
qed

lemma on_event_keys:
  assumes "wg_table W" "dev_wf (event_device e)"
  shows "wg_keys W (wg (on_event W now d e)) = event_keys now (wg_keys W (wg d)) e"
proof (cases e)
  case (Deleted x)
  then show ?thesis using wg_tableD(2) [OF assms(1), of "devPublicKey x" "wg d"] by (simp add: Resync_def)
qed (use applyPeer_keys [OF assms] in \<open>simp_all add: Resync_def\<close>)

lemma events_keys:
  assumes "wg_table W" "\<And>e. e \<in> set es \<Longrightarrow> dev_wf (event_device e)"
  shows "wg_keys W (wg (foldl (on_event W now) d es)) = foldl (event_keys now) (wg_keys W (wg d)) es"
  using assms(2)
proof (induction es arbitrary: d)
  case (Cons e es)
  then show ?case using on_event_keys [OF assms(1)] by simp
qed simp

text \<open>A storage method keeps the interface in line when its events say what it changed.\<close>

definition tells :: "instant \<Rightarrow> memory \<Rightarrow> memory \<Rightarrow> bool" where
  "tells now s t \<longleftrightarrow>
     (\<exists>es. emitted t = emitted s @ es \<and> (\<forall>e \<in> set es. dev_wf (event_device e)) \<and>
           may_connect now (stored t) = foldl (event_keys now) (may_connect now (stored s)) es)"

lemma call_in_line:
  assumes W: "wg_table W" and ok: "mgr_ok d" and line: "in_line W now d"
    and tells: "tells now (storage d) (snd (f (storage d)))"
  shows "in_line W now (snd (call W now f d))"
proof -
  obtain r t where f: "f (storage d) = (r, t)" by fastforce
  let ?d = "d\<lparr>storage := t\<lparr>emitted := []\<rparr>\<rparr>"
  have "emitted (storage d) = []" using ok by (simp add: mgr_ok_def mgr_base_def)
  then have es: "\<And>e. e \<in> set (emitted t) \<Longrightarrow> dev_wf (event_device e)"
    "may_connect now (stored t) = foldl (event_keys now) (may_connect now (stored (storage d))) (emitted t)"
    using tells f by (auto simp: tells_def)
  have "call W now f d = (r, foldl (on_event W now) ?d (emitted t))" by (simp add: call_def deliver_def f)
  then show ?thesis
    using events_keys [OF W es(1), where now = now and d = ?d] events_frame [of W now ?d "emitted t"] es(2) line
    by (simp add: in_line_def stored_def)
qed

lemma tells_none: "stored t = stored s \<Longrightarrow> emitted t = emitted s \<Longrightarrow> tells now s t"
  unfolding tells_def by (intro exI [of _ "[]"]) simp

text \<open>A device written in the place of one with the same key, or beside others with other keys.\<close>

lemma may_connect_write:
  assumes "devPublicKey y \<notin> devPublicKey ` D" "devPublicKey ` X \<subseteq> {devPublicKey y}"
  shows "may_connect now (insert y D) =
     (if AccessAllowed y now then insert (devPublicKey y) (may_connect now (X \<union> D))
      else may_connect now (X \<union> D) - {devPublicKey y})"
  using assms by (auto simp: may_connect_def image_iff)

lemma stored_mem: "(k, x) \<in> set (db s) \<Longrightarrow> x \<in> stored s"
  by (force simp: stored_def)

lemma may_connect_image:
  assumes "\<And>x. devPublicKey (f x) = devPublicKey x" "\<And>x. AccessAllowed (f x) now = AccessAllowed x now"
  shows "may_connect now (f ` D) = may_connect now D"
proof -
  have "{x \<in> f ` D. AccessAllowed x now} = f ` {x \<in> D. AccessAllowed x now}" using assms(2) by auto
  then show ?thesis by (simp add: may_connect_def image_image assms(1))
qed

lemma may_connect_remove:
  "devPublicKey x \<notin> devPublicKey ` D \<Longrightarrow> may_connect now D = may_connect now (insert x D) - {devPublicKey x}"
  by (auto simp: may_connect_def image_iff)

lemma wf_stored: "mgr_ok d \<Longrightarrow> x \<in> stored (storage d) \<Longrightarrow> dev_wf x"
  by (auto simp: mgr_ok_def mgr_base_def dev_mset_def stored_def)

lemma wgKey_ne [simp]: "\<not> wgKey []"
  by (simp add: wgKey_def)

lemma stored_unique:
  assumes "db_ok (db s)" "map_of (db s) k = Some x" "wgKey (devPublicKey x)"
  shows "stored s = insert x (set (map snd (AList.delete k (db s))))"
    "devPublicKey x \<notin> devPublicKey ` set (map snd (AList.delete k (db s)))"
proof -
  have "mset (map snd (db s)) = add_mset x (mset (map snd (AList.delete k (db s))))"
    using mset_delete [OF table_okD(1) [OF assms(1)] assms(2)] by simp
  then show "stored s = insert x (set (map snd (AList.delete k (db s))))"
    unfolding stored_def by (metis set_mset_add_mset_insert set_mset_mset)
  have "j = k" if "(j, y) \<in> set (db s)" "devPublicKey y = devPublicKey x" for j y
    using pub_unique [OF assms(1) that(1) map_of_SomeD [OF assms(2)] that(2)] that(2) assms(3)
    by (cases "devPublicKey x = []") auto
  then show "devPublicKey x \<notin> devPublicKey ` set (map snd (AList.delete k (db s)))"
    by (auto simp: mem_delete_iff)
qed

lemma tells_write:
  assumes ok: "db_ok (db s)" and x: "map_of (db s) k = Some x" and wf: "dev_wf x" "keeps x y"
    and pk: "devPublicKey y = devPublicKey x"
    and t: "stored t = insert y (set (map snd (AList.delete k (db s))))" "emitted t = emitted s @ [Updated y]"
  shows "tells now s t"
proof -
  have pkx: "wgKey (devPublicKey x)" using wf by (simp add: dev_wf_def)
  note u = stored_unique [OF ok x pkx]
  have "dev_wf y" using wf by (simp add: keeps_def)
  moreover have "may_connect now (stored t) = event_keys now (may_connect now (stored s)) (Updated y)"
    using may_connect_write [of y "set (map snd (AList.delete k (db s)))" "{x}" now] u t(1) pk by simp
  ultimately show ?thesis using t(2) unfolding tells_def by (intro exI [of _ "[Updated y]"]) simp
qed

lemma stored_update:
  assumes "amap_ok (db s)" "db t = AList.update k y (db s)"
  shows "stored t = insert y (set (map snd (AList.delete k (db s))))"
proof -
  have "mset (map snd (db t)) = add_mset y (mset (map snd (AList.delete k (db s))))"
    using mset_update [OF assms(1)] assms(2) by simp
  then show ?thesis unfolding stored_def by (metis set_mset_add_mset_insert set_mset_mset)
qed

section \<open>Every operation keeps the interface in line\<close>

lemma tells_replace:
  assumes ok: "mgr_ok d" and y: "map_of (db (storage d)) k = Some y" and z: "keeps y z" "devPublicKey z = devPublicKey y"
    and t: "db t = AList.update k z (db (storage d))" "emitted t = emitted (storage d) @ [Updated z]"
  shows "tells now (storage d) t"
proof (rule tells_write [OF _ y _ z])
  show db: "db_ok (db (storage d))" using mgr_db_ok(2) [OF ok] .
  show "dev_wf y" using wf_stored [OF ok] map_of_SomeD [OF y] by (force simp: stored_def)
  show "stored t = insert z (set (map snd (AList.delete k (db (storage d)))))"
    using table_okD(1) [OF db] t(1) by (rule stored_update)
qed (rule t(2))

lemma tells_SetAccess:
  assumes "mgr_ok d"
  shows "tells now (storage d) (snd (SetAccess x b e (storage d)))"
proof (cases "map_of (db (storage d)) (key x)")
  case None
  then show ?thesis by (simp add: SetAccess_def tells_none)
next
  case (Some y)
  have "key y = key x" using dev_key [OF mgr_db_ok(2) [OF assms] Some] .
  moreover have "keeps y (y\<lparr>devDisabled := b, devExpiresAt := e\<rparr>)" using keeps_simps(2) by (simp add: keeps_all_def)
  ultimately show ?thesis
    using Some by (intro tells_replace [OF assms Some]) (simp_all add: SetAccess_def Let_def)
qed

lemma tells_SetRoutes:
  assumes "mgr_ok d" "routes_wf r"
  shows "tells now (storage d) (snd (SetRoutes x r (storage d)))"
proof (cases "map_of (db (storage d)) (key x)")
  case None
  then show ?thesis by (simp add: SetRoutes_def tells_none)
next
  case (Some y)
  have "key y = key x" using dev_key [OF mgr_db_ok(2) [OF assms(1)] Some] .
  then show ?thesis
    using Some assms(2) by (intro tells_replace [OF assms(1) Some]) (simp_all add: SetRoutes_def Let_def)
qed

lemma tells_Rename:
  assumes ok: "mgr_ok d" and n: "validateDeviceName n = Inr ()" and x: "map_of (db (storage d)) (u, m) = Some x"
    and free: "map_of (db (storage d)) (u, n) = None"
  shows "tells now (storage d) (snd (Rename x n (storage d)))"
proof -
  have db: "db_ok (db (storage d))" using mgr_db_ok(2) [OF ok] .
  have wf: "dev_wf x" using wf_stored [OF ok] map_of_SomeD [OF x] by (force simp: stored_def)
  have k: "key x = (u, m)" using dev_key [OF db x] .
  let ?y = "x\<lparr>devName := n\<rparr>" and ?m = "AList.delete (u, m) (db (storage d))"
  have "(u, n) \<notin> set (map fst ?m)" using free by (simp add: delete_keys map_of_eq_None_iff)
  then have "AList.delete (u, n) ?m = ?m" by (simp add: delete_id)
  moreover have "amap_ok ?m" using table_okD(1) [OF db] by blast
  ultimately have "mset (map snd (AList.update (u, n) ?y ?m)) = add_mset ?y (mset (map snd ?m))"
    by (simp add: mset_update)
  then have set: "set (map snd (AList.update (u, n) ?y ?m)) = insert ?y (set (map snd ?m))"
    by (metis set_mset_add_mset_insert set_mset_mset)
  have own: "devOwner x = u" using k by (simp add: key_def)
  have t: "db (snd (Rename x n (storage d))) = AList.update (u, n) ?y ?m"
    "emitted (snd (Rename x n (storage d))) = emitted (storage d) @ [Updated ?y]"
    using x k own by (simp_all add: Rename_def Let_def)
  have kp: "keeps x ?y" using keeps_simps(4) [OF n] by (simp add: keeps_all_def)
  show ?thesis
    by (rule tells_write [OF db x wf kp _ _ t(2)]) (simp_all only: stored_def t(1) set, simp)
qed

lemma tells_Delete:
  assumes ok: "mgr_ok d" and x: "map_of (db (storage d)) (u, m) = Some x"
  shows "tells now (storage d) (snd (Delete x (storage d)))"
proof -
  have db: "db_ok (db (storage d))" using mgr_db_ok(2) [OF ok] .
  have wf: "dev_wf x" using wf_stored [OF ok] map_of_SomeD [OF x] by (force simp: stored_def)
  have k: "key x = (u, m)" using dev_key [OF db x] .
  have pk: "wgKey (devPublicKey x)" using wf by (simp add: dev_wf_def)
  note un = stored_unique [OF db x pk]
  have "stored (snd (Delete x (storage d))) = set (map snd (AList.delete (u, m) (db (storage d))))"
    by (simp add: stored_def Delete_def k)
  then have "may_connect now (stored (snd (Delete x (storage d)))) = may_connect now (stored (storage d)) - {devPublicKey x}"
    using may_connect_remove [OF un(2)] un(1) by simp
  then show ?thesis
    using wf unfolding tells_def by (intro exI [of _ "[Deleted x]"]) (simp add: Delete_def)
qed

text \<open>Deleting or blocking the devices of an owner: an event per device.\<close>

lemma events_removed:
  assumes "\<And>e K. e \<in> set es \<Longrightarrow> event_keys now K e = K - {devPublicKey (event_device e)}"
  shows "foldl (event_keys now) K es = K - devPublicKey ` event_device ` set es"
  using assms by (induction es arbitrary: K) auto

lemma same_pub_same_device:
  assumes ok: "mgr_ok d" and "x \<in> stored (storage d)" "y \<in> stored (storage d)" "devPublicKey x = devPublicKey y"
  shows "x = y"
proof -
  have "wgKey (devPublicKey x)" using wf_stored [OF ok assms(2)] by (simp add: dev_wf_def)
  then have "devPublicKey x \<noteq> []" by auto
  then show ?thesis
    using assms(2-4) pub_unique [OF mgr_db_ok(2) [OF ok]] by (auto simp: stored_def)
qed

lemma tells_DeleteForOwner:
  assumes ok: "mgr_ok d"
  shows "tells now (storage d) (snd (DeleteForOwner u (storage d)))"
proof -
  let ?s = "storage d" and ?del = "filter (\<lambda>x. devOwner x = u) (map snd (db (storage d)))"
  have "foldl (event_keys now) (may_connect now (stored ?s)) (map Deleted ?del) =
      may_connect now (stored ?s) - devPublicKey ` set ?del"
    by (subst events_removed) (auto simp: image_image)
  moreover have "stored (snd (DeleteForOwner u ?s)) = {x \<in> stored ?s. devOwner x \<noteq> u}"
    by (auto simp: DeleteForOwner_def Let_def stored_def)
  moreover have "may_connect now {x \<in> stored ?s. devOwner x \<noteq> u} = may_connect now (stored ?s) - devPublicKey ` set ?del"
  proof -
    have "set ?del = {x \<in> stored ?s. devOwner x = u}" by (auto simp: stored_def)
    then show ?thesis
      using same_pub_same_device [OF ok] by (auto simp: may_connect_def)
  qed
  moreover have "dev_wf (event_device e)" if "e \<in> set (map Deleted ?del)" for e
    using that by (auto dest!: stored_mem intro: wf_stored [OF ok])
  ultimately show ?thesis
    unfolding tells_def by (intro exI [of _ "map Deleted ?del"]) (auto simp: DeleteForOwner_def Let_def)
qed

lemma tells_BlockForOwner:
  assumes ok: "mgr_ok d"
  shows "tells now (storage d) (snd (BlockForOwner u (storage d)))"
proof -
  let ?s = "storage d" and ?hit = "\<lambda>x. devOwner x = u \<and> \<not> devDisabled x" and ?block = "\<lambda>x. x\<lparr>devDisabled := True\<rparr>"
  let ?bl = "map ?block (filter ?hit (map snd (db ?s)))" and ?t = "snd (BlockForOwner u (storage d))"
  have off: "\<not> AccessAllowed (?block x) now" "devPublicKey (?block x) = devPublicKey x" for x
    by (simp_all add: AccessAllowed_def)
  have "foldl (event_keys now) (may_connect now (stored ?s)) (map Updated ?bl) =
      may_connect now (stored ?s) - devPublicKey ` set ?bl"
    by (subst events_removed) (auto simp: image_image off)
  moreover have "devPublicKey ` set ?bl = devPublicKey ` {x \<in> stored ?s. ?hit x}"
    by (force simp: stored_def image_image)
  moreover have "stored ?t = {x \<in> stored ?s. \<not> ?hit x} \<union> ?block ` {x \<in> stored ?s. ?hit x}"
    by (force simp: BlockForOwner_def Let_def stored_def image_iff)
  moreover have "may_connect now ({x \<in> stored ?s. \<not> ?hit x} \<union> ?block ` {x \<in> stored ?s. ?hit x}) =
      may_connect now (stored ?s) - devPublicKey ` {x \<in> stored ?s. ?hit x}"
    (is "?l = ?r")
  proof
    show "?l \<subseteq> ?r" using same_pub_same_device [OF ok] by (fastforce simp: may_connect_def AccessAllowed_def)
    show "?r \<subseteq> ?l" by (auto simp: may_connect_def AccessAllowed_def)
  qed
  moreover have "dev_wf (event_device e)" if e: "e \<in> set (map Updated ?bl)" for e
  proof -
    obtain x where "x \<in> stored ?s" "e = Updated (?block x)" using e by (auto dest!: stored_mem)
    then show ?thesis using wf_stored [OF ok, of x] by (simp add: dev_wf_def)
  qed
  ultimately show ?thesis
    unfolding tells_def by (intro exI [of _ "map Updated ?bl"]) (auto simp: BlockForOwner_def Let_def)
qed

lemma metadata_of_keeps:
  "devPublicKey (metadata_of us x) = devPublicKey x \<and> devDisabled (metadata_of us x) = devDisabled x \<and>
   devExpiresAt (metadata_of us x) = devExpiresAt x"
  unfolding metadata_of_def
  by (rule foldl_invariant [where P = "\<lambda>y. devPublicKey y = devPublicKey x \<and> devDisabled y = devDisabled x \<and>
        devExpiresAt y = devExpiresAt x"]) (auto simp: apply_update_def Let_def split: option.splits)

lemma tells_RecordMetadata:
  assumes ok: "mgr_ok d" and us: "\<And>u. u \<in> set us \<Longrightarrow> updPublicKey u \<noteq> []"
  shows "tells now (storage d) (snd (RecordMetadata us (storage d)))"
proof -
  have same: "devPublicKey (metadata_of us x) = devPublicKey x" "AccessAllowed (metadata_of us x) now = AccessAllowed x now" for x
    using metadata_of_keeps [of us x] by (simp_all add: AccessAllowed_def device_Expired_def)
  have "stored (snd (RecordMetadata us (storage d))) = metadata_of us ` stored (storage d)"
    using RecordMetadata_db [OF mgr_db_ok(1) [OF ok] us] by (force simp: stored_def)
  then have "may_connect now (stored (snd (RecordMetadata us (storage d)))) = may_connect now (stored (storage d))"
    using may_connect_image [of "metadata_of us", OF same] by simp
  then show ?thesis
    unfolding tells_def by (intro exI [of _ "[]"]) (simp add: RecordMetadata_def)
qed

lemma tells_Save:
  assumes ok: "mgr_ok d" and x: "dev_wf x" and new: "map_of (db (storage d)) (key x) = None"
  shows "tells now (storage d) (snd (Save x (storage d)))"
proof (cases "fst (Save x (storage d)) = Inr ()")
  case False
  then show ?thesis by (auto simp: Save_def tells_none split: if_splits)
next
  case True
  have am: "amap_ok (db (storage d))" using mgr_db_ok(2) [OF ok] by (rule table_okD)
  let ?t = "snd (Save x (storage d))"
  have t: "db ?t = AList.update (key x) x (db (storage d))" "emitted ?t = emitted (storage d) @ [Added x]"
    using True by (auto simp: Save_def split: if_splits)
  have "AList.delete (key x) (db (storage d)) = db (storage d)"
    using new by (simp add: map_of_eq_None_iff delete_id)
  then have st: "stored ?t = insert x (stored (storage d))"
    using stored_update [OF am t(1)] by (simp add: stored_def)
  have "devPublicKey x \<noteq> []" using x by (auto simp: dev_wf_def)
  then have free: "devPublicKey x \<notin> devPublicKey ` stored (storage d)"
    using True new map_of_iff [OF am] by (fastforce simp: Save_def list_ex_iff stored_def split: if_splits)
  show ?thesis
    using may_connect_write [OF free, of "{}" now] x t(2) st
    unfolding tells_def by (intro exI [of _ "[Added x]"]) simp
qed

text \<open>The operations.\<close>

lemma AddDevice_in_line:
  assumes W: "wg_table W" and ok: "mgr_ok d" and line: "in_line W now d"
  shows "in_line W now (snd (AddDevice W now ident r d))"
proof (cases rule: AddDevice_cases [of W now ident r d])
  case (saved a)
  let ?x = "new_device ident r a now"
  have c: "clientAddress r d = Inr a" and vpn: "vpn_ok d"
    using saved(1) ok by (simp_all add: add_checks_def mgr_ok_def mgr_base_def)
  have "dev_wf ?x" using saved(1) addr_wf_new [OF vpn c] by (simp add: dev_wf_def add_checks_def)
  moreover have "map_of (db (storage d)) (key ?x) = None"
    using name_free [OF mgr_db_ok(2) [OF ok]] saved(1) by (simp add: key_def add_checks_def)
  ultimately have "in_line W now (snd (call W now (Save ?x) d))"
    by (intro call_in_line [OF W ok line] tells_Save [OF ok])
  then show ?thesis unfolding saved(2) save_new_def snd_case_sum .
qed (use line in simp)

lemma get_device_iff: "get_device u n s = Inr x \<longleftrightarrow> map_of (db s) (u, n) = Some x"
  by (auto simp: get_device_def Get_def split: option.splits)

lemma RenameDevice_in_line:
  assumes W: "wg_table W" and ok: "mgr_ok d" and line: "in_line W now d"
  shows "in_line W now (snd (RenameDevice W now u n n' d))"
proof -
  have "in_line W now (snd (call W now (Rename x n') d))"
    if "validateDeviceName n' = Inr ()" "get_device u n (storage d) = Inr x"
      "\<not> list_ex (\<lambda>x. devName x = n') (List_devices u (storage d))" for x
    using that name_free [OF mgr_db_ok(2) [OF ok]]
    by (intro call_in_line [OF W ok line] tells_Rename [OF ok]) (auto simp: get_device_iff)
  then show ?thesis using line by (auto simp: RenameDevice_def split: sum.splits)
qed

lemma SetDeviceAccess_in_line:
  assumes W: "wg_table W" and ok: "mgr_ok d" and line: "in_line W now d"
  shows "in_line W now (snd (SetDeviceAccess W now u n ch d))"
proof -
  have "in_line W now (snd (call W now (SetAccess x b e) d))" for x b e
    by (intro call_in_line [OF W ok line] tells_SetAccess [OF ok])
  then show ?thesis
    using line by (auto simp: SetDeviceAccess_def Let_def snd_case_sum split: sum.splits option.splits)
qed

lemma SetDeviceRoutes_in_line:
  assumes W: "wg_table W" and ok: "mgr_ok d" and line: "in_line W now d"
  shows "in_line W now (snd (SetDeviceRoutes W now ia u n rs d))"
proof (cases rule: SetDeviceRoutes_cases [of W now ia u n rs d])
  case (written ps x)
  have "routes_wf (go_join '', '' (routeStrings ps))"
    using normalizeRoutes_wf [OF written(1)] by (auto simp: routes_wf_def)
  then show ?thesis
    unfolding written(4) by (intro call_in_line [OF W ok line] tells_SetRoutes [OF ok])
qed (use line in simp)

lemma DeleteDevice_in_line:
  assumes W: "wg_table W" and ok: "mgr_ok d" and line: "in_line W now d"
  shows "in_line W now (snd (DeleteDevice W now u n d))"
proof (cases "get_device u n (storage d)")
  case (Inr x)
  then have "map_of (db (storage d)) (u, n) = Some x" by (simp add: get_device_iff)
  then have "in_line W now (snd (call W now (Delete x) d))"
    by (intro call_in_line [OF W ok line] tells_Delete [OF ok])
  then show ?thesis using Inr by (simp add: DeleteDevice_def)
qed (use line in \<open>simp add: DeleteDevice_def\<close>)

lemma DeleteDevicesForUser_in_line:
  assumes "wg_table W" "mgr_ok d" "in_line W now d"
  shows "in_line W now (snd (DeleteDevicesForUser W now u d))"
  unfolding DeleteDevicesForUser_def snd_case_sum by (intro call_in_line tells_DeleteForOwner assms)

lemma BlockDevicesForUser_in_line:
  assumes "wg_table W" "mgr_ok d" "in_line W now d"
  shows "in_line W now (snd (BlockDevicesForUser W now u d))"
  unfolding BlockDevicesForUser_def snd_case_sum by (intro call_in_line tells_BlockForOwner assms)

text \<open>Rotating a key: the new key is added by the update event, the old one removed right after.\<close>

lemma GetByPublicKey_None: "\<not> is_ok (GetByPublicKey p s) \<longleftrightarrow> p \<notin> devPublicKey ` stored s"
proof -
  have "List_devices [] s = map snd (db s)" by (simp add: List_devices_def)
  then have "\<not> is_ok (GetByPublicKey p s) \<longleftrightarrow> find (\<lambda>d. devPublicKey d = p) (map snd (db s)) = None"
    by (auto simp: GetByPublicKey_def split: option.splits)
  then show ?thesis by (auto simp: find_None_iff stored_def image_iff)
qed

lemma RotateDeviceKey_cases:
  assumes ok: "mgr_ok d"
  obtains (refused) e where "RotateDeviceKey W now u n p q d = (Inl e, d)"
  | (rotated) x y d' where "map_of (db (storage d)) (u, n) = Some x" "wgKey p" "q = [] \<or> wgKey q"
      "devPublicKey x \<noteq> p" "p \<notin> devPublicKey ` stored (storage d)"
      "y = x\<lparr>devPublicKey := p, devPresharedKey := q\<rparr>"
      "SetKeys x p q (storage d) = (Inr y, emit [Updated y] ((storage d)\<lparr>db := AList.update (u, n) y (db (storage d))\<rparr>))"
      "d' = snd (call W now (SetKeys x p q) d)"
      "RotateDeviceKey W now u n p q d =
         (Inr y, snd (applyPeer W now y (d'\<lparr>wg := snd (RemovePeer W (devPublicKey x) (wg d'))\<rparr>)))"
proof (cases "wgKey p \<and> (q = [] \<or> wgKey q) \<and> p \<notin> devPublicKey ` stored (storage d) \<and>
    (\<exists>x. map_of (db (storage d)) (u, n) = Some x)")
  case True
  then obtain x where x: "map_of (db (storage d)) (u, n) = Some x" by blast
  have k: "key x = (u, n)" using dev_key [OF mgr_db_ok(2) [OF ok] x] .
  have xs: "x \<in> stored (storage d)" using map_of_SomeD [OF x] by (rule stored_mem)
  then have ne: "devPublicKey x \<noteq> p" using True by auto
  let ?y = "x\<lparr>devPublicKey := p, devPresharedKey := q\<rparr>"
  have "\<not> list_ex (\<lambda>(k, other). devPublicKey other = p \<and> k \<noteq> key x) (db (storage d))"
    using True stored_mem by (fastforce simp: list_ex_iff)
  then have set: "SetKeys x p q (storage d) =
      (Inr ?y, emit [Updated ?y] ((storage d)\<lparr>db := AList.update (u, n) ?y (db (storage d))\<rparr>))"
    using x k by (simp add: SetKeys_def Let_def)
  have "fst (call W now (SetKeys x p q) d) = Inr ?y" using call_frame(1) [of W now "SetKeys x p q" d] set by simp
  then obtain d' where d': "call W now (SetKeys x p q) d = (Inr ?y, d')" by (metis prod.collapse)
  have "get_device u n (storage d) = Inr x" using x by (simp add: get_device_iff)
  moreover have "\<not> is_ok (GetByPublicKey p (storage d))" using True by (simp add: GetByPublicKey_None)
  ultimately have "RotateDeviceKey W now u n p q d =
      (Inr ?y, snd (applyPeer W now ?y (d'\<lparr>wg := snd (RemovePeer W (devPublicKey x) (wg d'))\<rparr>)))"
    using True ne d' by (simp add: RotateDeviceKey_def Let_def)
  with True x ne set d' show thesis by (intro rotated) auto
next
  case False
  have "\<exists>e. RotateDeviceKey W now u n p q d = (Inl e, d)"
  proof (cases "get_device u n (storage d)")
    case (Inr x)
    then have "map_of (db (storage d)) (u, n) = Some x" by (simp add: get_device_iff)
    then consider "\<not> wgKey p" | "\<not> (q = [] \<or> wgKey q)" | "is_ok (GetByPublicKey p (storage d))"
      using False GetByPublicKey_None [of p "storage d"] by blast
    then show ?thesis using Inr by cases (simp_all add: RotateDeviceKey_def)
  qed (simp add: RotateDeviceKey_def)
  then show thesis using refused by blast
qed

lemma RotateDeviceKey_in_line:
  assumes W: "wg_table W" and ok: "mgr_ok d" and line: "in_line W now d"
  shows "in_line W now (snd (RotateDeviceKey W now u n p q d))"
proof (cases rule: RotateDeviceKey_cases [OF ok, of W now u n p q])
  case rotated: (2 x y d')
  let ?s = "storage d" and ?D = "set (map snd (AList.delete (u, n) (db (storage d))))"
  let ?e = "snd (RotateDeviceKey W now u n p q d)"
  have db: "db_ok (db ?s)" using mgr_db_ok(2) [OF ok] .
  have wfx: "dev_wf x" using wf_stored [OF ok] stored_mem [OF map_of_SomeD [OF rotated(1)]] by blast
  have pkx: "wgKey (devPublicKey x)" using wfx by (simp add: dev_wf_def)
  note un = stored_unique [OF db rotated(1) pkx]
  have wfy: "dev_wf y" using wfx rotated(2,3) by (simp add: rotated(6) dev_wf_def)
  have pky: "devPublicKey y = p" and acc: "AccessAllowed y now = AccessAllowed x now"
    by (simp_all add: rotated(6) AccessAllowed_def device_Expired_def)
  have st: "storage ?e = (snd (SetKeys x p q ?s))\<lparr>emitted := []\<rparr>"
    using call_frame(2) [of W now "SetKeys x p q" d] by (simp add: rotated(8,9))
  have new: "stored (storage ?e) = insert y ?D"
    using stored_update [OF table_okD(1) [OF db], of "storage ?e"] st rotated(7) by simp
  have em: "emitted ?s = []" using ok by (simp add: mgr_ok_def mgr_base_def)
  have "wg_keys W (wg d') = event_keys now (wg_keys W (wg d)) (Updated y)"
    using events_keys [OF W, of "[Updated y]"] wfy em
    by (simp add: rotated(7,8) call_def deliver_def on_event_keys [OF W])
  then have "wg_keys W (wg ?e) = (if AccessAllowed y now then insert p (may_connect now (stored ?s) - {devPublicKey x})
      else may_connect now (stored ?s) - {devPublicKey x} - {p})"
    using applyPeer_keys [OF W wfy] wg_tableD(2) [OF W] line rotated(4) pky
    by (auto simp: rotated(9) in_line_def)
  also have "\<dots> = may_connect now (insert y ?D)"
    using may_connect_remove [OF un(2)] un(1) may_connect_write [of y ?D "{}" now] rotated(5) pky by auto
  finally show ?thesis by (simp add: in_line_def new)
qed (use line in simp)

section \<open>Expiry\<close>

lemma blocked_devices_map:
  "map_of (blocked_devices now ds) k = Some x \<Longrightarrow> x \<in> set ds \<and> devPublicKey x = k \<and> \<not> AccessAllowed x now"
  "map_of (blocked_devices now ds) k = None \<Longrightarrow> x \<in> set ds \<Longrightarrow> devPublicKey x = k \<Longrightarrow> AccessAllowed x now"
proof -
  let ?f = "\<lambda>m dev. if AccessAllowed dev now then m else AList.update (devPublicKey dev) dev m"
  have "map_of (foldl ?f [] ds) k = Some x \<longrightarrow> x \<in> set ds \<and> devPublicKey x = k \<and> \<not> AccessAllowed x now"
    by (induction ds rule: rev_induct) (auto simp: update_conv' split: if_splits)
  then show "map_of (blocked_devices now ds) k = Some x \<Longrightarrow> x \<in> set ds \<and> devPublicKey x = k \<and> \<not> AccessAllowed x now"
    by (simp add: blocked_devices_def)
  have "map_of (foldl ?f [] ds) k = None \<longrightarrow> (\<forall>x \<in> set ds. devPublicKey x = k \<longrightarrow> AccessAllowed x now)"
  proof (induction ds rule: rev_induct)
    case (snoc y ds)
    have aux: "map_of m k = None \<and> (devPublicKey y = k \<longrightarrow> AccessAllowed y now)" if "map_of (?f m y) k = None" for m
      using that by (cases "AccessAllowed y now"; cases "devPublicKey y = k") (simp_all add: update_conv')
    have h: "map_of (foldl ?f [] ds) k = None \<and> (devPublicKey y = k \<longrightarrow> AccessAllowed y now)"
      if "map_of (foldl ?f [] (ds @ [y])) k = None"
      using that unfolding foldl_append foldl_Cons foldl_Nil by (rule aux)
    show ?case
    proof (intro impI ballI)
      fix x
      assume none: "map_of (foldl ?f [] (ds @ [y])) k = None" and x: "x \<in> set (ds @ [y])" "devPublicKey x = k"
      from h [OF none] have "\<forall>x \<in> set ds. devPublicKey x = k \<longrightarrow> AccessAllowed x now"
        and "devPublicKey y = k \<longrightarrow> AccessAllowed y now" using snoc by blast+
      then show "AccessAllowed x now" using x by fastforce
    qed
  qed simp
  then show "map_of (blocked_devices now ds) k = None \<Longrightarrow> x \<in> set ds \<Longrightarrow> devPublicKey x = k \<Longrightarrow> AccessAllowed x now"
    unfolding blocked_devices_def by blast
qed

lemma remove_blocked_keys:
  assumes W: "wg_table W" and bl: "\<And>k x. map_of bl k = Some x \<Longrightarrow> devPublicKey x = k"
  shows "wg_keys W (fst (remove_blocked W now bl ps w)) = wg_keys W w - {k \<in> peerPublicKey ` set ps. map_of bl k \<noteq> None}"
proof -
  let ?f = "\<lambda>(w, audited) p.
        case map_of bl (peerPublicKey p) of
          None \<Rightarrow> (w, audited)
        | Some dev \<Rightarrow>
            (case RemovePeer W (devPublicKey dev) w of
               (Some e, w') \<Rightarrow> (w', audited)
             | (None, w') \<Rightarrow> (w', if device_Expired dev now then audited @ [dev] else audited))"
  have step: "wg_keys W (fst (?f (w, a) p)) =
      (if map_of bl (peerPublicKey p) = None then wg_keys W w else wg_keys W w - {peerPublicKey p})" for w a p
    using wg_tableD(2) [OF W, of "peerPublicKey p" w] bl [of "peerPublicKey p"]
    by (auto split: option.splits prod.splits)
  have "wg_keys W (fst (foldl ?f (w, a) ps)) = wg_keys W w - {k \<in> peerPublicKey ` set ps. map_of bl k \<noteq> None}" for a
  proof (induction ps arbitrary: w a)
    case (Cons p ps)
    obtain w' a' where f: "?f (w, a) p = (w', a')" by fastforce
    define S where "S = {k \<in> peerPublicKey ` set ps. map_of bl k \<noteq> None}"
    have S: "{k \<in> peerPublicKey ` set (p # ps). map_of bl k \<noteq> None} =
        (if map_of bl (peerPublicKey p) = None then S else insert (peerPublicKey p) S)" by (auto simp: S_def)
    have w': "wg_keys W w' = (if map_of bl (peerPublicKey p) = None then wg_keys W w else wg_keys W w - {peerPublicKey p})"
      using step [of w a p] f by simp
    have "foldl ?f (w, a) (p # ps) = foldl ?f (w', a') ps" using f by simp
    then have "wg_keys W (fst (foldl ?f (w, a) (p # ps))) = wg_keys W w' - S"
      unfolding S_def using Cons.IH by (simp only:)
    also have "\<dots> = wg_keys W w - (if map_of bl (peerPublicKey p) = None then S else insert (peerPublicKey p) S)"
      unfolding w' by auto
    finally show ?case unfolding S .
  qed simp
  then show ?thesis by (simp add: remove_blocked_def)
qed

lemma removeBlockedPeers_keys:
  assumes W: "wg_table W"
  shows "wg_keys W (wg (fst (removeBlockedPeers W now d))) =
     wg_keys W (wg d) - devPublicKey ` {x \<in> stored (storage d). \<not> AccessAllowed x now}"
proof -
  let ?ds = "ListAllDevices (storage d)"
  let ?bl = "blocked_devices now ?ds"
  obtain g where g: "?ds = map g (map snd (db (storage d)))" "g = id \<or> (\<exists>m. g = fill_owner m)"
    using ListAllDevices_fill by blast
  then have h: "devPublicKey (g x) = devPublicKey x" "AccessAllowed (g x) now = AccessAllowed x now" for x by auto
  have ds: "set ?ds = g ` stored (storage d)" by (simp add: g(1) stored_def image_image)
  have dom: "map_of ?bl k \<noteq> None \<longleftrightarrow> k \<in> devPublicKey ` {x \<in> stored (storage d). \<not> AccessAllowed x now}" for k
  proof
    assume "map_of ?bl k \<noteq> None"
    then obtain x where "map_of ?bl k = Some x" by blast
    then show "k \<in> devPublicKey ` {x \<in> stored (storage d). \<not> AccessAllowed x now}"
      using blocked_devices_map(1) [of now ?ds k x] ds h by auto
  next
    assume "k \<in> devPublicKey ` {x \<in> stored (storage d). \<not> AccessAllowed x now}"
    then show "map_of ?bl k \<noteq> None" using blocked_devices_map(2) [of now ?ds k] ds h by fastforce
  qed
  obtain ps where ps: "ListPeers W (wg d) = Inr ps" using wg_tableD(1) [OF W] by blast
  have "wg_keys W (fst (remove_blocked W now ?bl ps (wg d))) =
      wg_keys W (wg d) - {k \<in> peerPublicKey ` set ps. map_of ?bl k \<noteq> None}"
    using blocked_devices_map(1) by (intro remove_blocked_keys [OF W]) blast
  moreover have "wg_keys W (wg d) = peerPublicKey ` set ps" by (simp add: wg_keys_def ps)
  ultimately have r: "wg_keys W (fst (remove_blocked W now ?bl ps (wg d))) =
      wg_keys W (wg d) - devPublicKey ` {x \<in> stored (storage d). \<not> AccessAllowed x now}"
    using dom by auto
  show ?thesis
  proof (cases "?bl = []")
    case True
    then have e: "devPublicKey ` {x \<in> stored (storage d). \<not> AccessAllowed x now} = {}" using dom by auto
    show ?thesis by (simp only: removeBlockedPeers_def Let_def True if_True simp_thms fst_conv e Diff_empty)
  next
    case False
    obtain w' a where "remove_blocked W now ?bl ps (wg d) = (w', a)" by fastforce
    then show ?thesis using False r ps by (simp add: removeBlockedPeers_def Let_def)
  qed
qed

lemma removeBlockedPeers_storage [simp]: "storage (fst (removeBlockedPeers W now d)) = storage d"
  by (auto simp: removeBlockedPeers_def Let_def split: sum.splits prod.splits)

text \<open>Time passes and nothing is written: the next check takes the peers of the expired devices away.\<close>

lemma removeBlockedPeers_in_line:
  assumes W: "wg_table W" and ok: "mgr_ok d" and line: "in_line W t d" and later: "t \<le> now"
  shows "in_line W now (fst (removeBlockedPeers W now d))"
proof -
  let ?S = "stored (storage d)"
  have "may_connect t ?S - devPublicKey ` {x \<in> ?S. \<not> AccessAllowed x now} = may_connect now ?S" (is "?l = ?r")
  proof
    show "?l \<subseteq> ?r" by (auto simp: may_connect_def)
    show "?r \<subseteq> ?l"
      using same_pub_same_device [OF ok] AccessAllowed_mono [OF _ later] by (fastforce simp: may_connect_def)
  qed
  then show ?thesis using removeBlockedPeers_keys [OF W, of now d] line by (simp add: in_line_def)
qed

section \<open>An interface that is a table\<close>

lemma table_wg_table: "wg_table table_wg"
proof -
  have keys: "wg_keys table_wg w = peerPublicKey ` set w" for w by (simp add: wg_keys_def table_wg_def)
  have "wg_keys table_wg (snd (RemovePeer table_wg k w)) = wg_keys table_wg w - {k}" for k w
    unfolding keys by (auto simp: table_wg_def)
  moreover have "wg_keys table_wg (snd (AddPeer table_wg k q ips w)) = insert k (wg_keys table_wg w)" for k q ips w
    unfolding keys by (auto simp: table_wg_def Let_def image_image)
  moreover have "is_ok (ListPeers table_wg w)" for w by (simp add: table_wg_def)
  ultimately show ?thesis by (simp add: wg_table_def)
qed

end
