(* ===== verification/Device_Properties.thy ===== *)
theory Device_Properties
  imports Device_Peers
begin

text \<open>
  The properties of the device manager, each with a concrete server on which its hypotheses hold.
\<close>

section \<open>A server\<close>

definition site :: "peer list manager" where
  "site =
     \<lparr>storage = NewMemoryStorage, wg = [], cidr = ''10.44.0.0/24'', cidrv6 = [],
      maxDevicesPerUser = 2, firewall = \<lparr>Routed = [], Policies = []\<rparr>, resync = False\<rparr>"

definition alice :: identity where
  "alice = \<lparr>idProvider = ''simple'', idSubject = ''alice'', idName = ''Alice'', idEmail = [], idClaims = []\<rparr>"

definition key_of :: "char \<Rightarrow> string" where
  "key_of c = replicate 42 c @ ''A=''"

definition request :: "string \<Rightarrow> char \<Rightarrow> add_request" where
  "request name c =
     \<lparr>reqName = name, reqPublicKey = key_of c, reqPresharedKey = [], reqManualIPAssignment = False,
      reqManualIPv4Address = [], reqManualIPv6Address = []\<rparr>"

text \<open>The same server after one and after two devices were added.\<close>

definition site_device :: "string \<Rightarrow> char \<Rightarrow> string \<Rightarrow> dev_key \<times> device" where
  "site_device name c address = ((''alice'', name), new_device alice (request name c) address 0)"

definition site_peer :: "char \<Rightarrow> string \<Rightarrow> peer" where
  "site_peer c address =
     \<lparr>peerPublicKey = key_of c, peerPresharedKey = zero_key, peerAllowedIPs = [address], peerEndpoint = None,
      peerLastHandshakeTime = zero_time, peerReceiveBytes = 0, peerTransmitBytes = 0\<rparr>"

definition site1 :: "peer list manager" where
  "site1 = site\<lparr>storage := NewMemoryStorage\<lparr>db := [site_device ''laptop'' CHR ''B'' ''10.44.0.2/32'']\<rparr>,
                wg := [site_peer CHR ''B'' ''10.44.0.2/32''], resync := True\<rparr>"

definition site2 :: "peer list manager" where
  "site2 = site\<lparr>storage := NewMemoryStorage
                  \<lparr>db := [site_device ''laptop'' CHR ''B'' ''10.44.0.2/32'', site_device ''phone'' CHR ''C'' ''10.44.0.3/32'']\<rparr>,
                wg := [site_peer CHR ''B'' ''10.44.0.2/32'', site_peer CHR ''C'' ''10.44.0.3/32''], resync := True\<rparr>"

lemma site1_step: "snd (AddDevice table_wg 0 alice (request ''laptop'' CHR ''B'') site) = site1"
  by code_simp

lemma site2_step: "snd (AddDevice table_wg 0 alice (request ''phone'' CHR ''C'') site1) = site2"
  by code_simp

lemma site_vpn: "vpn_ok site"
proof -
  have "parse_prefix ''10.44.0.0/24'' = Some (Prefix (V4 0x0A2C0000) 24)" by code_simp
  then show ?thesis by (simp add: vpn_ok_def site_def)
qed

lemma site_reachable: "reachable table_wg None site2"
proof -
  have "reachable table_wg None site" using site_vpn by (rule reachable.start) (simp add: site_def)
  then have "reachable table_wg None site1" unfolding site1_step [symmetric] by (rule reachable.step) (rule mgr_step.Add)
  then show ?thesis unfolding site2_step [symmetric] by (rule reachable.step) (rule mgr_step.Add)
qed

section \<open>Addresses\<close>

text \<open>
  C1. Whatever sequence of calls the API and the background loops make, no two devices have an address
  in common, no device has one twice, and every address in use lies in the configured subnet of its
  family and is neither the network address nor the server's own.
\<close>

theorem addresses_unique:
  assumes "reachable W fs d"
  shows "distinct (all_addresses (storage d)) \<and>
     (\<forall>a. a \<in> set (all_addresses (storage d)) \<longrightarrow> handed_out d a)"
  using reachable_ok [OF assms] by (simp add: mgr_ok_def mgr_base_def)

theorem addresses_unique_witness:
  "length (all_addresses (storage site2)) = 2 \<and> distinct (all_addresses (storage site2))"
proof -
  have "length (all_addresses (storage site2)) = 2" by code_simp
  then show ?thesis using addresses_unique [OF site_reachable] by blast
qed

text \<open>
  C2. The address the server picks for a new device is, in every configured family, the lowest address
  of the subnet that is not reserved and not in use; it refuses only when a configured family has no
  such address left (or no family is configured at all).  The walk over the subnet always ends.
\<close>

theorem next_address_lowest:
  assumes "vpn_ok d" "usedAddresses (storage d) = (u4, u6)"
  shows "(\<exists>as bs. nextClientAddressLocked d = Inr (address_list (as @ bs)) \<and> as @ bs \<noteq> [] \<and>
            chosen (subnet (cidr d)) u4 as \<and> chosen (subnet (cidrv6 d)) u6 bs) \<or>
         (\<exists>m. nextClientAddressLocked d = Inl (Err m) \<and>
            (exhausted (subnet (cidr d)) u4 \<or> exhausted (subnet (cidrv6 d)) u6 \<or>
             (cidr d = [] \<and> cidrv6 d = [])))"
  using assms by (rule nextClientAddress_cases)

theorem next_address_lowest_witness:
  "nextClientAddressLocked site2 = Inr ''10.44.0.4/32'' \<and>
   (\<exists>as bs. address_list (as @ bs) = ''10.44.0.4/32'' \<and>
      chosen (subnet (cidr site2)) (fst (usedAddresses (storage site2))) as \<and>
      chosen (subnet (cidrv6 site2)) (snd (usedAddresses (storage site2))) bs)"
proof -
  have "nextClientAddressLocked site2 = Inr ''10.44.0.4/32''" by code_simp
  moreover have "vpn_ok site2" using reachable_ok [OF site_reachable] by (simp add: mgr_ok_def mgr_base_def)
  ultimately show ?thesis
    using next_address_lowest [of site2 "fst (usedAddresses (storage site2))" "snd (usedAddresses (storage site2))"]
    by simp metis
qed

section \<open>Adding a device\<close>

definition added :: "identity \<Rightarrow> add_request \<Rightarrow> 'w manager \<Rightarrow> device \<Rightarrow> 'w manager \<Rightarrow> bool" where
  "added ident r d x e \<longleftrightarrow>
     devOwner x = idSubject ident \<and> devName x = reqName r \<and> devPublicKey x = reqPublicKey r \<and>
     devPresharedKey x = reqPresharedKey r \<and> dev_wf x \<and> (\<forall>t. AccessAllowed x t) \<and>
     map_of (db (storage d)) (key x) = None \<and> devPublicKey x \<notin> devPublicKey ` stored (storage d) \<and>
     device_addrs x \<noteq> [] \<and>
     (\<forall>a. a \<in> set (device_addrs x) \<longrightarrow> a \<notin> set (all_addresses (storage d)) \<and> handed_out d a) \<and>
     db (storage e) = AList.update (key x) x (db (storage d))"

lemma Save_outcome:
  assumes "wgKey (devPublicKey x)" "map_of (db s) (key x) = None"
  shows "(\<exists>e. Save x s = (Inl e, s)) \<or>
     (Save x s = (Inr (), emit [Added x] (s\<lparr>db := AList.update (key x) x (db s)\<rparr>)) \<and>
      devPublicKey x \<notin> devPublicKey ` stored s)"
proof -
  have "devPublicKey x \<noteq> []" using assms(1) by auto
  moreover have "\<not> list_ex (\<lambda>(k, e). devPublicKey e = devPublicKey x \<and> k \<noteq> key x) (db s) \<Longrightarrow>
      devPublicKey x \<notin> devPublicKey ` stored s"
    using assms(2) by (force simp: stored_def list_ex_iff map_of_eq_None_iff)
  ultimately show ?thesis by (cases "list_ex (\<lambda>(k, e). devPublicKey e = devPublicKey x \<and> k \<noteq> key x) (db s)")
      (simp_all add: Save_def)
qed

lemma call_same: "f (storage d) = (r, storage d) \<Longrightarrow> emitted (storage d) = [] \<Longrightarrow> call W now f d = (r, d)"
  by (simp add: call_def deliver_def)

lemma AddDevice_outcome:
  assumes ok: "mgr_ok d"
  shows "case AddDevice W now ident r d of (Inl m, e) \<Rightarrow> e = d | (Inr x, e) \<Rightarrow> added ident r d x e"
proof (cases rule: AddDevice_cases [of W now ident r d])
  case (saved a)
  let ?x = "new_device ident r a now" and ?s = "storage d"
  have c: "clientAddress r d = Inr a" and vpn: "vpn_ok d" and em: "emitted ?s = []"
    and db: "db_ok (db ?s)" and k: "wgKey (devPublicKey ?x)"
    using saved(1) ok mgr_db_ok(2) [OF ok] by (simp_all add: add_checks_def mgr_ok_def mgr_base_def)
  note addrs = new_addrs [OF vpn c, of ?x, simplified]
  have wf: "dev_wf ?x" using saved(1) addr_wf_new [OF vpn c] by (simp add: dev_wf_def add_checks_def)
  have new: "map_of (db ?s) (key ?x) = None"
    using name_free [OF db] saved(1) by (simp add: key_def add_checks_def)
  have acc: "AccessAllowed ?x t" for t
    by (simp add: AccessAllowed_def device_Expired_def new_device_def)
  from Save_outcome [OF k new] show ?thesis
  proof (elim disjE exE conjE)
    fix m
    assume "Save ?x ?s = (Inl m, ?s)"
    then have "call W now (Save ?x) d = (Inl m, d)" using em by (rule call_same)
    then show ?thesis by (simp add: saved(2) save_new_def)
  next
    assume s: "Save ?x ?s = (Inr (), emit [Added ?x] (?s\<lparr>db := AList.update (key ?x) ?x (db ?s)\<rparr>))"
      and pk: "devPublicKey ?x \<notin> devPublicKey ` stored ?s"
    obtain e where e: "call W now (Save ?x) d = (Inr (), e)"
      using call_frame(1) [of W now "Save ?x" d] s by (metis fst_conv prod.collapse)
    have "db (storage e) = AList.update (key ?x) ?x (db ?s)"
      using call_frame(2) [of W now "Save ?x" d] s e by (simp add: emit_def)
    then show ?thesis
      using addrs wf new pk acc by (simp add: saved(2) save_new_def e added_def)
  qed
qed simp

text \<open>
  C12. Adding a device either fails and changes neither the storage nor the interface, or saves exactly
  one new device: it carries the owner, name and keys of the request, its owner had no device of that
  name and no other device had its key, its addresses were free, it may connect at once, and every other
  device is untouched.
\<close>

theorem AddDevice_effect:
  assumes "reachable W fs d"
  shows "case AddDevice W now ident r d of (Inl m, e) \<Rightarrow> e = d | (Inr x, e) \<Rightarrow> added ident r d x e"
  using AddDevice_outcome [OF reachable_ok [OF assms]] .

theorem AddDevice_effect_witness:
  "is_ok (fst (AddDevice table_wg 0 alice (request ''phone'' CHR ''C'') site1)) \<and>
   (\<exists>x. added alice (request ''phone'' CHR ''C'') site1 x site2) \<and>
   snd (AddDevice table_wg 0 alice (request ''tablet'' CHR ''D'') site2) = site2"
proof -
  have r1: "reachable table_wg None site1"
    unfolding site1_step [symmetric] by (rule reachable.step [OF reachable.start mgr_step.Add]) (use site_vpn in \<open>simp_all add: site_def\<close>)
  have ok: "is_ok (fst (AddDevice table_wg 0 alice (request ''phone'' CHR ''C'') site1))" by code_simp
  then obtain x where "AddDevice table_wg 0 alice (request ''phone'' CHR ''C'') site1 = (Inr x, site2)"
    by (cases "AddDevice table_wg 0 alice (request ''phone'' CHR ''C'') site1"; cases "fst (AddDevice table_wg 0 alice (request ''phone'' CHR ''C'') site1)")
       (auto simp: site2_step [symmetric])
  then have x: "\<exists>x. added alice (request ''phone'' CHR ''C'') site1 x site2"
    using AddDevice_effect [OF r1, where now = 0 and ident = alice and r = "request ''phone'' CHR ''C''"] by auto
  have "\<not> is_ok (fst (AddDevice table_wg 0 alice (request ''tablet'' CHR ''D'') site2))" by code_simp
  then have "snd (AddDevice table_wg 0 alice (request ''tablet'' CHR ''D'') site2) = site2"
    using AddDevice_effect [OF site_reachable, where now = 0 and ident = alice and r = "request ''tablet'' CHR ''D''"]
    by (auto split: prod.splits sum.splits)
  then show ?thesis using ok x by blast
qed

section \<open>The stored devices\<close>

text \<open>
  Every stored device has a valid name, a well-formed public key and an empty or well-formed
  pre-shared key, addresses and networks in their canonical notation (at most as many networks as a
  device may have, none of them a default route), and no other stored device has its public key or its
  owner and name.
\<close>

theorem stored_devices_ok:
  assumes "reachable W fs d" "x \<in> stored (storage d)"
  shows "dev_wf x \<and>
     (\<forall>y. y \<in> stored (storage d) \<longrightarrow> (devPublicKey y = devPublicKey x \<or> key y = key x) \<longrightarrow> y = x)"
proof -
  have ok: "mgr_ok d" using reachable_ok [OF assms(1)] .
  have "y = x" if y: "y \<in> stored (storage d)" "key y = key x" for y
  proof -
    obtain j where j: "(j, y) \<in> set (db (storage d))" using y(1) by (auto simp: stored_def)
    obtain k where k: "(k, x) \<in> set (db (storage d))" using assms(2) by (auto simp: stored_def)
    note m = j k
    then have "j = k" using table_okD(2) [OF mgr_db_ok(2) [OF ok]] y(2) by metis
    then show ?thesis using amap_ok_inj [OF table_okD(1) [OF mgr_db_ok(2) [OF ok]]] m by metis
  qed
  then show ?thesis using wf_stored [OF ok assms(2)] same_pub_same_device [OF ok _ assms(2)] by blast
qed

theorem stored_devices_ok_witness:
  "\<exists>x. x \<in> stored (storage site2) \<and> devName x = ''phone'' \<and> dev_wf x"
proof -
  have "''phone'' \<in> devName ` stored (storage site2)" unfolding stored_def by code_simp
  then obtain x where x: "x \<in> stored (storage site2)" "devName x = ''phone''" by (metis imageE)
  then show ?thesis using stored_devices_ok [OF site_reachable x(1)] by blast
qed

text \<open>
  When the number of devices per user is limited, no user ever has more devices than the limit.
\<close>

theorem device_quota:
  assumes "reachable W fs d" "maxDevicesPerUser d > 0"
  shows "int (length (filter (\<lambda>x. devOwner x = u) (map snd (db (storage d))))) \<le> maxDevicesPerUser d"
proof -
  have "length (filter (\<lambda>x. devOwner x = u) (map snd (db (storage d)))) = owned u (storage d)"
    by (simp add: owned_def dev_mset_def flip: mset_filter size_mset mset_map)
  then show ?thesis using reachable_ok [OF assms(1)] assms(2) by (simp add: mgr_ok_def mgr_base_def)
qed

theorem device_quota_witness:
  "maxDevicesPerUser site2 = 2 \<and>
   int (length (filter (\<lambda>x. devOwner x = ''alice'') (map snd (db (storage site2))))) \<le> 2"
proof -
  have m: "maxDevicesPerUser site2 = 2" by code_simp
  then show ?thesis using device_quota [OF site_reachable, of "''alice''"] by simp
qed

section \<open>Networks behind devices\<close>

lemma taken_valid: "p \<in> set (taken_routes x) \<Longrightarrow> prefix_valid p"
  by (auto simp: taken_routes_def List.map_filter_def intro: parse_prefix_valid)

lemma pair_mset:
  assumes "amap_ok m" "map_of m j = Some x" "map_of m k = Some y" "j \<noteq> k"
  shows "{#x, y#} \<subseteq># mset (map snd m)"
proof -
  have "(k, y) \<in># mset (AList.delete j m)"
    using map_of_SomeD [OF assms(3)] assms(4) by (simp add: mem_delete_iff)
  then have "{#(j, x), (k, y)#} \<subseteq># mset m"
    unfolding mset_delete [OF assms(1,2)] by (simp add: mset_subset_eq_single)
  then show ?thesis using image_mset_subseteq_mono [of _ "mset m" snd] by fastforce
qed

text \<open>
  C13. No address is routed to two devices, and no address of the VPN's own networks is routed to any
  device: of the networks behind devices, those of different devices are disjoint, and all of them are
  disjoint from the networks the server hands out.
\<close>

theorem routes_disjoint:
  assumes "reachable W fs d" "map_of (db (storage d)) j = Some x"
    and "p \<in> set (taken_routes x)" "prefix_contains p a"
  shows "(\<forall>k y q. j \<noteq> k \<and> map_of (db (storage d)) k = Some y \<and> q \<in> set (taken_routes y) \<longrightarrow>
            \<not> prefix_contains q a) \<and>
         (\<forall>v. subnet (cidr d) = Some v \<or> subnet (cidrv6 d) = Some v \<longrightarrow> \<not> prefix_contains v a)"
proof -
  have ok: "mgr_ok d" using reachable_ok [OF assms(1)] .
  have am: "amap_ok (db (storage d))" using table_okD(1) [OF mgr_db_ok(2) [OF ok]] .
  have "\<not> prefix_contains q a"
    if "j \<noteq> k" "map_of (db (storage d)) k = Some y" "q \<in> set (taken_routes y)" for k y q
  proof -
    have "routes_apart x y"
      using ok pair_mset [OF am assms(2) that(2,1)] by (simp add: mgr_ok_def mgr_routes_def dev_mset_def)
    then have "\<not> prefix_overlaps p q" using assms(3) that(3) by (simp add: routes_apart_def)
    then show ?thesis using assms(3,4) that(3) by (simp add: prefix_overlaps_iff taken_valid)
  qed
  moreover have "\<not> prefix_contains v a" if "subnet (cidr d) = Some v \<or> subnet (cidrv6 d) = Some v" for v
  proof -
    have "x \<in># dev_mset (storage d)" using map_of_SomeD [OF assms(2)] by (force simp: dev_mset_def)
    then have "routes_off_vpn d x" using ok by (simp add: mgr_ok_def mgr_routes_def)
    moreover have "masked v \<in> vpn_nets d" using that by (auto simp: vpn_nets_def)
    ultimately have "\<not> prefix_overlaps (masked v) p" using assms(3) by (simp add: routes_off_vpn_def)
    moreover have "prefix_valid (masked v)"
      using that by (auto simp: subnet_def split: if_splits dest!: parse_prefix_valid intro: masked_valid)
    ultimately show ?thesis
      using assms(3,4) by (auto simp: prefix_overlaps_iff taken_valid)
  qed
  ultimately show ?thesis by blast
qed

definition site3 :: "peer list manager" where
  "site3 = snd (SetDeviceRoutes table_wg 0 (Inr [Some ''192.0.2.7/24'']) ''alice'' ''laptop'' [''192.168.5.9/24''] site2)"

lemma site3_reachable: "reachable table_wg None site3"
  unfolding site3_def using site_reachable by (rule reachable.step) (rule mgr_step.Routes)

theorem routes_disjoint_witness:
  "\<exists>x p. map_of (db (storage site3)) (''alice'', ''laptop'') = Some x \<and> p \<in> set (taken_routes x) \<and>
      prefix_contains p (V4 0xC0A80501) \<and>
      (\<forall>k y q. (''alice'', ''laptop'') \<noteq> k \<and> map_of (db (storage site3)) k = Some y \<and>
         q \<in> set (taken_routes y) \<longrightarrow> \<not> prefix_contains q (V4 0xC0A80501))"
proof -
  have "map_option taken_routes (map_of (db (storage site3)) (''alice'', ''laptop'')) = Some [Prefix (V4 0xC0A80500) 24]"
    by code_simp
  then obtain x where x: "map_of (db (storage site3)) (''alice'', ''laptop'') = Some x"
    "taken_routes x = [Prefix (V4 0xC0A80500) 24]" by auto
  have p: "Prefix (V4 0xC0A80500) 24 \<in> set (taken_routes x)" using x(2) by simp
  have c: "prefix_contains (Prefix (V4 0xC0A80500) 24) (V4 0xC0A80501)" by code_simp
  show ?thesis using routes_disjoint [OF site3_reachable x(1) p c] x(1) p c by blast
qed

end
