(* ===== verification/Device_Loops.thy ===== *)
theory Device_Loops
  imports Device_Properties
begin

text \<open>
  The properties of the peers of the interface and of the background loops: the synchronization, the
  access check, the collection of metadata and the removal of inactive devices.
\<close>

section \<open>The peers of the interface\<close>

lemma may_connect_code [code]: "may_connect now D = devPublicKey ` Set.filter (\<lambda>x. AccessAllowed x now) D"
  by (auto simp: may_connect_def)

text \<open>
  C3. A synchronization leaves the interface with exactly one kind of peer: those of the stored devices
  that may connect now.  Peers of unknown, disabled and expired devices are gone, missing ones are
  added.
\<close>

theorem sync_peers:
  assumes "wg_table W" "reachable W fs d"
  shows "fst (sync W fs now d) = Inr () \<and>
     wg_keys W (wg (snd (sync W fs now d))) = may_connect now (stored (storage d)) \<and>
     db (storage (snd (sync W fs now d))) = db (storage d)"
proof -
  have "storage (snd (sync W fs now d)) = storage d"
    by (auto simp: sync_def Let_def syncFirewallState_frame split: sum.splits)
  then show ?thesis
    using sync_in_line [OF assms(1) reachable_ok [OF assms(2)], of fs now] by (simp add: in_line_def)
qed

theorem sync_peers_witness:
  "may_connect 5 (stored (storage site2)) = {key_of CHR ''B'', key_of CHR ''C''} \<and>
   wg_keys table_wg (wg (snd (sync table_wg None 5 site2))) = {key_of CHR ''B'', key_of CHR ''C''}"
proof -
  have "may_connect 5 (stored (storage site2)) = {key_of CHR ''B'', key_of CHR ''C''}"
    unfolding stored_def by code_simp
  then show ?thesis using sync_peers [OF table_wg_table site_reachable, of 5] by simp
qed

text \<open>The calls of the API, at one instant.\<close>

inductive api_step :: "'w wireguard \<Rightarrow> instant \<Rightarrow> 'w manager \<Rightarrow> 'w manager \<Rightarrow> bool" for W now where
  add: "api_step W now d (snd (AddDevice W now ident r d))"
| rename: "api_step W now d (snd (RenameDevice W now u n n' d))"
| rotate: "api_step W now d (snd (RotateDeviceKey W now u n p q d))"
| access: "api_step W now d (snd (SetDeviceAccess W now u n ch d))"
| routes: "api_step W now d (snd (SetDeviceRoutes W now ia u n rs d))"
| delete: "api_step W now d (snd (DeleteDevice W now u n d))"
| delete_all: "api_step W now d (snd (DeleteDevicesForUser W now u d))"
| block: "api_step W now d (snd (BlockDevicesForUser W now u d))"

lemmas api_in_line =
  AddDevice_in_line RenameDevice_in_line RotateDeviceKey_in_line SetDeviceAccess_in_line
  SetDeviceRoutes_in_line DeleteDevice_in_line DeleteDevicesForUser_in_line BlockDevicesForUser_in_line

text \<open>
  C4. An operation of the API keeps the interface in line with the storage by the events it emits,
  without waiting for a synchronization: if the peers were those of the devices that may connect, they
  are afterwards, whether a device was added, renamed, given other keys, access or networks, or removed,
  and whether the operation succeeded or failed.
\<close>

theorem api_keeps_peers:
  assumes "wg_table W" "reachable W fs d" "in_line W now d" "api_step W now d e"
  shows "in_line W now e"
  using assms(4) assms(1,3) reachable_ok [OF assms(2)]
  by cases (simp_all add: api_in_line)

theorem api_keeps_peers_witness:
  "in_line table_wg 0 (snd (DeleteDevice table_wg 0 ''alice'' ''phone'' (snd (sync table_wg None 0 site2))))"
proof (rule api_keeps_peers [OF table_wg_table _ _ api_step.delete])
  show "reachable table_wg None (snd (sync table_wg None 0 site2))"
    using site_reachable by (rule reachable.step) (rule mgr_step.Sync)
  show "in_line table_wg 0 (snd (sync table_wg None 0 site2))"
    using sync_in_line [OF table_wg_table reachable_ok [OF site_reachable]] by blast
qed

text \<open>
  C14. Time passes and devices expire: however much later the access check runs, it leaves exactly the
  peers of the devices that may connect at that moment, and does not touch the storage.
\<close>

theorem access_check:
  assumes "wg_table W" "reachable W fs d" "in_line W t d" "t \<le> now"
  shows "in_line W now (fst (removeBlockedPeers W now d)) \<and>
     storage (fst (removeBlockedPeers W now d)) = storage d"
  using removeBlockedPeers_in_line [OF assms(1) reachable_ok [OF assms(2)] assms(3,4)] by simp

definition site_expiring :: "peer list manager" where
  "site_expiring =
     snd (SetDeviceAccess table_wg 0 ''alice'' ''phone'' \<lparr>chDisabled = None, chExpiresAt = Some 10, chClearExpiresAt = False\<rparr>
       (snd (sync table_wg None 0 site2)))"

theorem access_check_witness:
  "key_of CHR ''C'' \<in> wg_keys table_wg (wg site_expiring) \<and>
   in_line table_wg 10 (fst (removeBlockedPeers table_wg 10 site_expiring)) \<and>
   key_of CHR ''C'' \<notin> wg_keys table_wg (wg (fst (removeBlockedPeers table_wg 10 site_expiring)))"
proof -
  have s: "reachable table_wg None (snd (sync table_wg None 0 site2))"
    using site_reachable by (rule reachable.step) (rule mgr_step.Sync)
  then have r: "reachable table_wg None site_expiring"
    unfolding site_expiring_def by (rule reachable.step) (rule mgr_step.Access)
  have "in_line table_wg 0 (snd (sync table_wg None 0 site2))"
    using sync_in_line [OF table_wg_table reachable_ok [OF site_reachable]] by blast
  then have "in_line table_wg 0 site_expiring"
    unfolding site_expiring_def by (rule SetDeviceAccess_in_line [OF table_wg_table reachable_ok [OF s]])
  then have "in_line table_wg 10 (fst (removeBlockedPeers table_wg 10 site_expiring))"
    using access_check [OF table_wg_table r, of 0 10] by simp
  moreover have "key_of CHR ''C'' \<in> wg_keys table_wg (wg site_expiring) \<and>
      key_of CHR ''C'' \<notin> wg_keys table_wg (wg (fst (removeBlockedPeers table_wg 10 site_expiring)))"
    unfolding wg_keys_def by code_simp
  ultimately show ?thesis by blast
qed

section \<open>Changing a key\<close>

text \<open>
  When the key of a device is changed, only the keys of that one device change in the storage, the
  old key has no peer any more, and the new one has a peer exactly when the device may connect; when it
  is refused nothing changes.
\<close>

theorem rotate_key:
  assumes "wg_table W" "reachable W fs d" "in_line W now d"
  shows "case RotateDeviceKey W now u n p q d of
      (Inl m, e) \<Rightarrow> e = d
    | (Inr y, e) \<Rightarrow> \<exists>x. map_of (db (storage d)) (u, n) = Some x \<and>
        y = x\<lparr>devPublicKey := p, devPresharedKey := q\<rparr> \<and>
        db (storage e) = AList.update (u, n) y (db (storage d)) \<and>
        devPublicKey x \<notin> wg_keys W (wg e) \<and> (p \<in> wg_keys W (wg e) \<longleftrightarrow> AccessAllowed x now)"
proof -
  have ok: "mgr_ok d" using reachable_ok [OF assms(2)] .
  show ?thesis
  proof (cases rule: RotateDeviceKey_cases [OF ok, of W now u n p q])
    case (1 m)
    then show ?thesis by simp
  next
    case r: (2 x y d')
    let ?e = "snd (RotateDeviceKey W now u n p q d)" and ?s = "storage d"
    have db: "db_ok (db ?s)" using mgr_db_ok(2) [OF ok] .
    have "dev_wf x" using wf_stored [OF ok stored_mem [OF map_of_SomeD [OF r(1)]]] .
    then have pkx: "wgKey (devPublicKey x)" by (simp add: dev_wf_def)
    note un = stored_unique [OF db r(1) pkx]
    have y: "devPublicKey y = p" "AccessAllowed y now = AccessAllowed x now"
      using r(6) by (simp_all add: AccessAllowed_def device_Expired_def)
    have st: "db (storage ?e) = AList.update (u, n) y (db ?s)"
      using r(7,8,9) call_frame(2) [of W now "SetKeys x p q" d] by (simp add: applyPeer_frame(1) emit_def)
    then have "stored (storage ?e) = insert y (set (map snd (AList.delete (u, n) (db ?s))))"
      using stored_update [OF table_okD(1) [OF db]] by blast
    moreover have "p \<notin> devPublicKey ` set (map snd (AList.delete (u, n) (db ?s)))"
      using r(5) un(1) by auto
    moreover have "in_line W now ?e" using RotateDeviceKey_in_line [OF assms(1) ok assms(3)] .
    ultimately have "devPublicKey x \<notin> wg_keys W (wg ?e)" "p \<in> wg_keys W (wg ?e) \<longleftrightarrow> AccessAllowed x now"
      using un(2) r(4) y by (auto simp: in_line_def may_connect_def image_iff)
    then show ?thesis using r(1,6,9) st by simp
  qed
qed

theorem rotate_key_witness:
  "\<exists>y e. RotateDeviceKey table_wg 0 ''alice'' ''phone'' (key_of CHR ''E'') [] (snd (sync table_wg None 0 site2)) = (Inr y, e) \<and>
     key_of CHR ''C'' \<notin> wg_keys table_wg (wg e) \<and> key_of CHR ''E'' \<in> wg_keys table_wg (wg e)"
proof -
  let ?d = "snd (sync table_wg None 0 site2)"
  let ?r = "RotateDeviceKey table_wg 0 ''alice'' ''phone'' (key_of CHR ''E'') [] ?d"
  have r: "reachable table_wg None ?d" using site_reachable by (rule reachable.step) (rule mgr_step.Sync)
  have l: "in_line table_wg 0 ?d"
    using sync_in_line [OF table_wg_table reachable_ok [OF site_reachable]] by blast
  have "is_ok (fst ?r)" by code_simp
  then obtain y where y: "fst ?r = Inr y" by (cases "fst ?r") auto
  have x: "map_of (db (storage ?d)) (''alice'', ''phone'') = Some (snd (site_device ''phone'' CHR ''C'' ''10.44.0.3/32''))"
    by code_simp
  have k: "devPublicKey (snd (site_device ''phone'' CHR ''C'' ''10.44.0.3/32'')) = key_of CHR ''C''"
    "AccessAllowed (snd (site_device ''phone'' CHR ''C'' ''10.44.0.3/32'')) 0" by code_simp+
  show ?thesis
    using rotate_key [OF table_wg_table r l, where u = "''alice''" and n = "''phone''" and p = "key_of CHR ''E''" and q = "[]"] x y k
    by (cases ?r) auto
qed

section \<open>Metadata\<close>

lemma sint_bounds64: "- (2 ^ 63) \<le> sint w" "sint w < 2 ^ 63" for w :: int64
  using sint_greater_eq [of w] sint_less [of w] by simp_all

text \<open>
  The traffic of a peer since the previous round is exact and never negative: the difference of the
  two readings, or the whole new reading after the counter was reset.  The subtraction does not wrap.
\<close>

theorem counter_delta_exact:
  assumes "0 \<le> sint previous" "0 \<le> sint current"
  shows "sint (counterDelta previous current) =
      (if sint current < sint previous then sint current else sint current - sint previous) \<and>
    0 \<le> sint (counterDelta previous current) \<and> sint (counterDelta previous current) \<le> sint current"
proof -
  have "sint (current - previous) = sint current - sint previous" if "sint previous \<le> sint current"
    using assms that sint_bounds64 [of current] sint_bounds64 [of previous]
    by (simp add: sint_word_ariths signed_take_bit_int_eq_self)
  then show ?thesis using assms by (auto simp: counterDelta_def word_sless_alt)
qed

theorem counter_delta_exact_witness:
  "sint (counterDelta 100 250) = 150 \<and> sint (counterDelta 250 100) = 100"
proof -
  have "sint (100 :: int64) = 100" "sint (250 :: int64) = 250" by simp_all
  then show ?thesis using counter_delta_exact [of 100 250] counter_delta_exact [of 250 100] by simp
qed

text \<open>What one round observes of a peer, and what it writes to the device of that peer.\<close>

definition reading :: "tracker \<Rightarrow> string \<Rightarrow> int64 \<times> int64" where
  "reading t k = (case map_of t k of None \<Rightarrow> (0, 0) | Some c \<Rightarrow> c)"

definition observed :: "instant \<Rightarrow> tracker \<Rightarrow> peer \<Rightarrow> metadata_update" where
  "observed now t p =
     peer_update now p (counterDelta (fst (reading t (peerPublicKey p))) (peerReceiveBytes p),
                        counterDelta (snd (reading t (peerPublicKey p))) (peerTransmitBytes p))"

definition quiet :: "metadata_update \<Rightarrow> bool" where
  "quiet u \<longleftrightarrow> updReceiveBytes u = 0 \<and> updTransmitBytes u = 0 \<and> updConnection u = None"

lemma collect_one_eq:
  "collect_one now (t, us) p =
     (AList.update (peerPublicKey p) (peerReceiveBytes p, peerTransmitBytes p) t,
      if quiet (observed now t p) then us else us @ [observed now t p])"
  by (simp add: collect_one_def observe_def observed_def reading_def quiet_def Let_def)

lemma observed_update: "peerPublicKey p \<noteq> k \<Longrightarrow> observed now (AList.update k c t) p = observed now t p"
  by (simp add: observed_def reading_def update_conv')

lemma later_key: "distinct (map f (p # ps)) \<Longrightarrow> q \<in> set ps \<Longrightarrow> f q \<noteq> f p"
  by (metis distinct.simps(2) imageI list.set_map list.simps(9))

lemma collect_all:
  assumes "distinct (map peerPublicKey ps)"
  shows "snd (foldl (collect_one now) (t, us) ps) = us @ filter (\<lambda>u. \<not> quiet u) (map (observed now t) ps) \<and>
     map_of (fst (foldl (collect_one now) (t, us) ps)) k =
       (case find (\<lambda>p. peerPublicKey p = k) ps of
          None \<Rightarrow> map_of t k | Some p \<Rightarrow> Some (peerReceiveBytes p, peerTransmitBytes p))"
  using assms
proof (induction ps arbitrary: t us)
  case (Cons p ps)
  have o: "map (observed now (AList.update (peerPublicKey p) c t)) ps = map (observed now t) ps" for c
    using later_key [OF Cons.prems] by (intro map_cong refl observed_update)
  have "find (\<lambda>q. peerPublicKey q = k) ps = None" if "peerPublicKey p = k"
    using later_key [OF Cons.prems] that by (simp add: find_None_iff)
  then show ?case
    using Cons.IH [of "AList.update (peerPublicKey p) (peerReceiveBytes p, peerTransmitBytes p) t"] Cons.prems
    by (auto simp: collect_one_eq o update_conv' split: option.splits)
qed simp

lemma reading_forget: "p \<in> set ps \<Longrightarrow> reading (forgetAllBut t ps) (peerPublicKey p) = reading t (peerPublicKey p)"
proof -
  assume "p \<in> set ps"
  then have "map_of (filter (\<lambda>(k, c). k \<in> peerPublicKey ` set ps) t) (peerPublicKey p) = map_of t (peerPublicKey p)"
    by (induction t) auto
  then show ?thesis by (simp add: reading_def forgetAllBut_def)
qed

lemma apply_quiet: "quiet u \<Longrightarrow> apply_update u x = x"
  by (simp add: quiet_def apply_update_def Let_def)

lemma metadata_of_filter: "metadata_of (filter (\<lambda>u. \<not> quiet u) us) x = metadata_of us x"
proof -
  have "foldl (\<lambda>d u. apply_update u d) y (filter (\<lambda>u. updPublicKey u = k) (filter (\<lambda>u. \<not> quiet u) us)) =
      foldl (\<lambda>d u. apply_update u d) y (filter (\<lambda>u. updPublicKey u = k) us)" for y k
    by (induction us arbitrary: y) (auto simp: apply_quiet)
  then show ?thesis by (simp add: metadata_of_def)
qed

lemma observed_key [simp]: "updPublicKey (observed now t p) = peerPublicKey p"
  by (simp add: observed_def peer_update_def)

text \<open>The update of the one peer with the key of the device.\<close>

definition metadata_round :: "instant \<Rightarrow> tracker \<Rightarrow> peer list \<Rightarrow> device \<Rightarrow> device" where
  "metadata_round now t peers x =
     (case find (\<lambda>p. peerPublicKey p = devPublicKey x) peers of
        None \<Rightarrow> x
      | Some p \<Rightarrow> apply_update (observed now t p) x)"

lemma metadata_of_observed:
  assumes "distinct (map peerPublicKey ps)"
  shows "metadata_of (map (observed now t) ps) x = metadata_round now t ps x"
proof -
  have "filter (\<lambda>u. updPublicKey u = k) (map (observed now t) ps) =
      (case find (\<lambda>p. peerPublicKey p = k) ps of None \<Rightarrow> [] | Some p \<Rightarrow> [observed now t p])" for k
    using assms
  proof (induction ps)
    case (Cons p ps)
    have "find (\<lambda>q. peerPublicKey q = k) ps = None" if "peerPublicKey p = k"
      using later_key [OF Cons.prems] that by (simp add: find_None_iff)
    then show ?case using Cons by (cases "peerPublicKey p = k") (simp_all split: option.splits)
  qed simp
  then show ?thesis by (simp add: metadata_of_def metadata_round_def split: option.splits)
qed

text \<open>
  One round of the metadata collection adds to every device exactly the traffic its peer had since
  the previous round and takes over the endpoint and the handshake of a connected peer; devices without
  a peer are untouched, no device is added or removed, and the readings of this round, and only those,
  are what the next one starts from.
\<close>

theorem metadata_round_effect:
  assumes "reachable W fs d" "ListPeers W (wg d) = Inr peers"
    and "distinct (map peerPublicKey peers)" "\<And>p. p \<in> set peers \<Longrightarrow> peerPublicKey p \<noteq> []"
  shows "db (storage (fst (syncMetrics W now d t))) =
       map (\<lambda>(k, x). (k, metadata_round now t peers x)) (db (storage d)) \<and>
     map_of (snd (syncMetrics W now d t)) =
       (\<lambda>k. map_option (\<lambda>p. (peerReceiveBytes p, peerTransmitBytes p)) (find (\<lambda>p. peerPublicKey p = k) peers))"
proof -
  let ?t = "forgetAllBut t peers"
  obtain t' us where c: "collectMetadata now peers t = (t', us)" by fastforce
  note all = collect_all [OF assms(3), of now ?t "[]"]
  have "observed now ?t p = observed now t p" if "p \<in> set peers" for p
    using reading_forget [OF that] by (simp add: observed_def)
  then have o: "map (observed now ?t) peers = map (observed now t) peers" by simp
  have us: "us = filter (\<lambda>u. \<not> quiet u) (map (observed now t) peers)"
    using all c by (simp add: collectMetadata_def o)
  have ok: "store_ok (storage d)" using mgr_db_ok(1) [OF reachable_ok [OF assms(1)]] .
  have "db (snd (RecordMetadata us (storage d))) = map (\<lambda>(k, x). (k, metadata_of us x)) (db (storage d))"
    by (rule RecordMetadata_db [OF ok]) (use assms(4) in \<open>auto simp: us\<close>)
  then have "db (storage (fst (syncMetrics W now d t))) =
      map (\<lambda>(k, x). (k, metadata_round now t peers x)) (db (storage d))"
    by (simp add: syncMetrics_def assms(2) c call_frame us metadata_of_filter metadata_of_observed [OF assms(3)])
  moreover have "map_of t' k = map_option (\<lambda>p. (peerReceiveBytes p, peerTransmitBytes p))
      (find (\<lambda>p. peerPublicKey p = k) peers)" for k
  proof -
    have "map_of ?t k = None" if "find (\<lambda>p. peerPublicKey p = k) peers = None"
      using that by (auto simp: find_None_iff forgetAllBut_def map_of_eq_None_iff)
    then show ?thesis using all [of k] c by (simp add: collectMetadata_def split: option.splits)
  qed
  ultimately show ?thesis by (auto simp: syncMetrics_def assms(2) c)
qed

theorem metadata_round_effect_witness:
  "map_of (snd (syncMetrics table_wg 0 site2 [])) (key_of CHR ''B'') = Some (0, 0) \<and>
   map (devReceiveBytes \<circ> snd) (db (storage (fst (syncMetrics table_wg 0 site2 [])))) = [0, 0]"
proof -
  let ?ps = "[site_peer CHR ''B'' ''10.44.0.2/32'', site_peer CHR ''C'' ''10.44.0.3/32'']"
  have l: "ListPeers table_wg (wg site2) = Inr ?ps" by (simp add: table_wg_def site2_def)
  have dist: "distinct (map peerPublicKey ?ps)" by (simp add: site_peer_def key_of_def)
  have ne: "peerPublicKey p \<noteq> []" if "p \<in> set ?ps" for p using that by (auto simp: site_peer_def key_of_def)
  note m = metadata_round_effect [OF site_reachable l dist ne, of 0 "[]"]
  have "map (devReceiveBytes \<circ> snd) (map (\<lambda>(k, x). (k, metadata_round 0 [] ?ps x)) (db (storage site2))) = [0, 0]"
    by code_simp
  then show ?thesis using m by (simp add: site_peer_def key_of_def)
qed

section \<open>Inactive devices\<close>

lemma elapsed_fill [simp]: "elapsed now (fill_owner m x) = elapsed now x"
proof -
  have "devLastHandshakeTime (fill_owner m x) = devLastHandshakeTime x \<and> devCreatedAt (fill_owner m x) = devCreatedAt x"
    by (auto simp: fill_owner_def Let_def split: option.splits)
  then show ?thesis by (simp add: elapsed_def split: option.splits)
qed

lemma DeleteDevice_stored:
  assumes ok: "db_ok (db (storage d))" and x: "map_of (db (storage d)) (u, n) = Some x"
  shows "\<exists>e. DeleteDevice W now u n d = (Inr (), e) \<and> db (storage e) = AList.delete (u, n) (db (storage d))"
proof -
  have k: "key x = (u, n)" using dev_key [OF ok x] .
  have "fst (call W now (Delete x) d) = Inr ()" by (simp add: call_frame Delete_def)
  moreover have "db (storage (snd (call W now (Delete x) d))) = AList.delete (u, n) (db (storage d))"
    by (simp add: call_frame Delete_def k emit_def)
  moreover have "get_device u n (storage d) = Inr x" using x by (simp add: get_device_iff)
  ultimately show ?thesis by (cases "call W now (Delete x) d") (simp add: DeleteDevice_def)
qed

definition inactive_step ::
  "'w wireguard \<Rightarrow> instant \<Rightarrow> duration \<Rightarrow> 'w manager \<times> device list \<Rightarrow> device \<Rightarrow> 'w manager \<times> device list" where
  "inactive_step W now grace p dev =
     (case p of (d, audited) \<Rightarrow>
        if elapsed now dev > grace then
          (case DeleteDevice W now (devOwner dev) (devName dev) d of
             (Inl e, d') \<Rightarrow> (d', audited)
           | (Inr _, d') \<Rightarrow> (d', audited @ [dev]))
        else (d, audited))"

lemma checkAndRemove_loop: "checkAndRemove W now grace d = foldl (inactive_step W now grace) (d, []) (ListAllDevices (storage d))"
  unfolding checkAndRemove_def inactive_step_def [abs_def] by (simp add: case_prod_unfold)

lemma inactive_all:
  assumes "db_ok (db (storage d))" "distinct (map key xs)"
    and "\<And>x. x \<in> set xs \<Longrightarrow> map_of (db (storage d)) (key x) \<noteq> None"
  shows "\<exists>e. foldl (inactive_step W now grace) (d, aud) xs = (e, aud @ filter (\<lambda>x. elapsed now x > grace) xs) \<and>
     db (storage e) = filter (\<lambda>(k, _). k \<notin> key ` set (filter (\<lambda>x. elapsed now x > grace) xs)) (db (storage d))"
  using assms
proof (induction xs arbitrary: d aud)
  case (Cons x xs)
  show ?case
  proof (cases "elapsed now x > grace")
    case False
    have "\<exists>e. foldl (inactive_step W now grace) (d, aud) xs = (e, aud @ filter (\<lambda>x. elapsed now x > grace) xs) \<and>
      db (storage e) = filter (\<lambda>(k, _). k \<notin> key ` set (filter (\<lambda>x. elapsed now x > grace) xs)) (db (storage d))"
      using Cons.prems by (intro Cons.IH) auto
    moreover have "inactive_step W now grace (d, aud) x = (d, aud)" using False by (simp add: inactive_step_def)
    ultimately show ?thesis using False by simp
  next
    case True
    have "map_of (db (storage d)) (key x) \<noteq> None" using Cons.prems(3) by simp
    then obtain y where "map_of (db (storage d)) (devOwner x, devName x) = Some y" by (auto simp: key_def)
    then obtain d' where d': "DeleteDevice W now (devOwner x) (devName x) d = (Inr (), d')"
      and db: "db (storage d') = AList.delete (key x) (db (storage d))"
      using DeleteDevice_stored [OF Cons.prems(1)] by (fastforce simp: key_def)
    have "\<exists>e. foldl (inactive_step W now grace) (d', aud @ [x]) xs = (e, (aud @ [x]) @ filter (\<lambda>x. elapsed now x > grace) xs) \<and>
      db (storage e) = filter (\<lambda>(k, _). k \<notin> key ` set (filter (\<lambda>x. elapsed now x > grace) xs)) (db (storage d'))"
    proof (rule Cons.IH)
      show "db_ok (db (storage d'))" using Cons.prems(1) by (auto simp: db)
      show "map_of (db (storage d')) (key y) \<noteq> None" if "y \<in> set xs" for y
        using Cons.prems(3) [of y] later_key [OF Cons.prems(2) that] that by (simp add: db delete_conv')
    qed (use Cons.prems(2) in simp)
    moreover have "inactive_step W now grace (d, aud) x = (d', aud @ [x])"
      using True by (simp add: inactive_step_def d')
    moreover have "filter (\<lambda>(k, _). k \<notin> K) (AList.delete (key x) m) = filter (\<lambda>(k, _). k \<notin> insert (key x) K) m"
      for K and m :: "(dev_key, device) amap"
      unfolding delete_as_filter by (induction m) auto
    ultimately show ?thesis using True by (simp add: db)
  qed
qed (simp add: case_prod_unfold)

text \<open>
  The inactivity check removes exactly the devices that were created, or had their last handshake,
  longer ago than the grace period, reports each of them once, and leaves every other device as it is.
\<close>

theorem inactive_removed:
  assumes "reachable W fs d"
  shows "db (storage (fst (checkAndRemove W now grace d))) =
       filter (\<lambda>(k, x). \<not> elapsed now x > grace) (db (storage d)) \<and>
     map key (snd (checkAndRemove W now grace d)) =
       map fst (filter (\<lambda>(k, x). elapsed now x > grace) (db (storage d)))"
proof -
  let ?m = "db (storage d)"
  have db: "db_ok ?m" using mgr_db_ok(2) [OF reachable_ok [OF assms]] .
  have k: "key x = j" if "(j, x) \<in> set ?m" for j x using table_okD(2) [OF db that] by simp
  obtain g where g: "ListAllDevices (storage d) = map g (map snd ?m)" "g = id \<or> (\<exists>m. g = fill_owner m)"
    using ListAllDevices_fill by blast
  then have gk: "key (g x) = key x" "elapsed now (g x) = elapsed now x" for x by auto
  have keys: "map key (map g (map snd ?m)) = map fst ?m" using k by (auto simp: gk)
  have "\<exists>e. checkAndRemove W now grace d = (e, filter (\<lambda>x. elapsed now x > grace) (map g (map snd ?m))) \<and>
     db (storage e) = filter (\<lambda>(k, _). k \<notin> key ` set (filter (\<lambda>x. elapsed now x > grace) (map g (map snd ?m)))) ?m"
    unfolding checkAndRemove_loop g(1)
  proof (rule inactive_all [OF db, of _ _ _ _ "[]", simplified append_Nil])
    show "distinct (map key (map g (map snd ?m)))" unfolding keys using table_okD(1) [OF db] by (simp add: amap_ok_def)
    fix x
    assume "x \<in> set (map g (map snd ?m))"
    then have "key x \<in> set (map key (map g (map snd ?m)))" unfolding set_map [of key] by (rule imageI)
    then show "map_of ?m (key x) \<noteq> None" unfolding keys by (simp add: map_of_eq_None_iff)
  qed
  then obtain e where e: "checkAndRemove W now grace d = (e, filter (\<lambda>x. elapsed now x > grace) (map g (map snd ?m)))"
    "db (storage e) = filter (\<lambda>(k, _). k \<notin> key ` set (filter (\<lambda>x. elapsed now x > grace) (map g (map snd ?m)))) ?m"
    by blast
  have "set (filter (\<lambda>x. elapsed now x > grace) (map g (map snd ?m))) =
      (g \<circ> snd) ` {p \<in> set ?m. elapsed now (snd p) > grace}"
    by (force simp: gk)
  then have "key ` set (filter (\<lambda>x. elapsed now x > grace) (map g (map snd ?m))) =
      (\<lambda>p. key (snd p)) ` {p \<in> set ?m. elapsed now (snd p) > grace}"
    by (simp add: image_image gk)
  also have "\<dots> = fst ` {p \<in> set ?m. elapsed now (snd p) > grace}"
    by (rule image_cong [OF refl]) (use k in auto)
  finally have K: "key ` set (filter (\<lambda>x. elapsed now x > grace) (map g (map snd ?m))) =
      fst ` {p \<in> set ?m. elapsed now (snd p) > grace}" .
  have iff: "j \<notin> key ` set (filter (\<lambda>x. elapsed now x > grace) (map g (map snd ?m))) \<longleftrightarrow> \<not> elapsed now x > grace"
    if jx: "(j, x) \<in> set ?m" for j x
  proof -
    have "y = x" if "(j, y) \<in> set ?m" for y
      using amap_ok_inj [OF table_okD(1) [OF db] that jx] .
    then have "(\<exists>y. (j, y) \<in> set ?m \<and> elapsed now y > grace) \<longleftrightarrow> elapsed now x > grace" using jx by blast
    moreover have "j \<in> fst ` {p \<in> set ?m. elapsed now (snd p) > grace} \<longleftrightarrow>
        (\<exists>y. (j, y) \<in> set ?m \<and> elapsed now y > grace)" by (cases j) (auto simp: image_iff)
    ultimately show ?thesis unfolding K by simp
  qed
  have "db (storage e) = filter (\<lambda>(k, x). \<not> elapsed now x > grace) ?m"
    unfolding e(2) by (rule filter_cong [OF refl]) (unfold case_prod_unfold, rule iff, simp)
  moreover have "map key (filter (\<lambda>x. elapsed now x > grace) (map g (map snd ?m))) =
      map fst (filter (\<lambda>(k, x). elapsed now x > grace) ?m)"
    using k by (auto simp: filter_map comp_def gk case_prod_unfold)
  ultimately show ?thesis using e(1) by simp
qed

theorem inactive_removed_witness:
  "map key (snd (checkAndRemove table_wg (2 * hour) hour site2)) = [(''alice'', ''laptop''), (''alice'', ''phone'')]"
proof -
  have "map fst (filter (\<lambda>(k, x). elapsed (2 * hour) x > hour) (db (storage site2))) = [(''alice'', ''laptop''), (''alice'', ''phone'')]"
    by code_simp
  then show ?thesis using inactive_removed [OF site_reachable, of "2 * hour" hour] by simp
qed

end
