(* ===== verification/Device_Listing.thy ===== *)
theory Device_Listing
  imports Device_Loops
begin

text \<open>
  The listing of users: everybody who signed in and everybody who owns a device, each of them once.
\<close>

lemma list_owner_names:
  "map luName (list_owner us x) =
     (if devOwner x \<in> set (map luName us) then map luName us else map luName us @ [devOwner x])"
proof -
  have "list_ex (\<lambda>u. luName u = devOwner x) us \<longleftrightarrow> devOwner x \<in> set (map luName us)"
    by (force simp: list_ex_iff)
  then show ?thesis by (auto simp: list_owner_def)
qed

lemma list_owners_names:
  "set (map luName (foldl list_owner us xs)) = set (map luName us) \<union> devOwner ` set xs \<and>
   (distinct (map luName us) \<longrightarrow> distinct (map luName (foldl list_owner us xs)))"
proof (induction xs arbitrary: us)
  case (Cons x xs)
  have "set (map luName (list_owner us x)) = insert (devOwner x) (set (map luName us))"
    "distinct (map luName us) \<Longrightarrow> distinct (map luName (list_owner us x))"
    unfolding list_owner_names by (auto simp del: set_map)
  then show ?case using Cons.IH [of "list_owner us x"] by (simp del: set_map)
qed simp

text \<open>What the loop over the devices leaves of an entry: everything but an empty display name.\<close>

definition same_login :: "listed_user \<Rightarrow> listed_user \<Rightarrow> bool" where
  "same_login u v \<longleftrightarrow> luName v = luName u \<and> luLastLogin v = luLastLogin u \<and> luPolicies v = luPolicies u \<and>
     luTwoFactor v = luTwoFactor u \<and> (luDisplayName u \<noteq> [] \<longrightarrow> luDisplayName v = luDisplayName u)"

lemma list_owner_keeps:
  assumes "u \<in> set us"
  shows "\<exists>v \<in> set (list_owner us x). same_login u v"
proof -
  let ?f = "\<lambda>u. if luName u = devOwner x \<and> luDisplayName u = [] then u\<lparr>luDisplayName := devOwnerName x\<rparr> else u"
  have "u \<in> set (list_owner us x) \<or> ?f u \<in> set (list_owner us x)"
    using imageI [OF assms, of ?f] assms by (simp add: list_owner_def)
  moreover have "same_login u u" "same_login u (?f u)" by (simp_all add: same_login_def)
  ultimately show ?thesis by blast
qed

lemma list_owners_keep: "u \<in> set us \<Longrightarrow> \<exists>v \<in> set (foldl list_owner us xs). same_login u v"
proof (induction xs arbitrary: us u)
  case (Cons x xs)
  obtain w where w: "w \<in> set (list_owner us x)" "same_login u w" using list_owner_keeps [OF Cons.prems] by blast
  then obtain v where "v \<in> set (foldl list_owner (list_owner us x) xs)" "same_login w v" using Cons.IH by blast
  then show ?case using w(2) by (auto simp: same_login_def)
qed (auto simp: same_login_def)

text \<open>
  The list of users is sorted by name and holds, once each, exactly the users who signed in and the
  owners of devices; a user who signed in is listed with the last login, the policies and the second
  factor that are stored.
\<close>

theorem users_listed:
  assumes "store_ok s"
  shows "sorted (map luName (ListUsers s)) \<and> distinct (map luName (ListUsers s)) \<and>
     set (map luName (ListUsers s)) = usrSubject ` set (Users s) \<union> devOwner ` stored s \<and>
     (\<forall>u. u \<in> set (Users s) \<longrightarrow> (\<exists>v. v \<in> set (ListUsers s) \<and> same_login (list_stored u) v))"
proof -
  let ?l = "foldl list_owner (map list_stored (Users s)) (List_devices [] s)"
  have n: "map luName (map list_stored (Users s)) = map usrSubject (Users s)" by (simp add: list_stored_def)
  have "map usrSubject (Users s) = map fst (users s)"
    using table_okD(2) [OF store_okD(2) [OF assms]] by (force simp: Users_def)
  then have d: "distinct (map luName ?l)"
    using list_owners_names [of "map list_stored (Users s)"] n table_okD(1) [OF store_okD(2) [OF assms]]
    by (simp add: amap_ok_def)
  have "mset (map luName (ListUsers s)) = mset (map luName ?l)" by (simp add: ListUsers_def)
  then have "distinct (map luName (ListUsers s)) \<and> set (map luName (ListUsers s)) = set (map luName ?l)"
    using d by (metis mset_eq_imp_distinct_iff mset_eq_setD)
  moreover have "set (map luName ?l) = usrSubject ` set (Users s) \<union> devOwner ` stored s"
    unfolding list_owners_names [THEN conjunct1] n by (simp add: List_devices_def stored_def)
  moreover have "\<exists>v. v \<in> set (ListUsers s) \<and> same_login (list_stored u) v" if "u \<in> set (Users s)" for u
    using list_owners_keep [of "list_stored u" "map list_stored (Users s)" "List_devices [] s"] that
    by (auto simp: ListUsers_def)
  moreover have "sorted (map luName (ListUsers s))" by (simp add: ListUsers_def)
  ultimately show ?thesis by blast
qed

theorem users_listed_witness: "map luName (ListUsers (storage site2)) = [''alice'']"
proof -
  have "store_ok (storage site2)" using mgr_db_ok(1) [OF reachable_ok [OF site_reachable]] .
  moreover have "set (Users (storage site2)) = {}" "devOwner ` stored (storage site2) = {''alice''}"
    unfolding stored_def by code_simp+
  ultimately have names: "set (map luName (ListUsers (storage site2))) = {''alice''}"
    "distinct (map luName (ListUsers (storage site2)))"
    using users_listed [of "storage site2"] by simp_all
  then have "length (map luName (ListUsers (storage site2))) = 1" by (metis distinct_card is_singleton_altdef is_singletonI)
  then show ?thesis using names by (cases "map luName (ListUsers (storage site2))") auto
qed

end
