(* ===== verification/Go_Quote.thy ===== *)
theory Go_Quote
  imports Storage_Laws
begin

text \<open>
  The key of a device in the in-memory storage (\<^verbatim>\<open>internal/storage/utils.go\<close>).  \<^verbatim>\<open>%q\<close> is \<^verbatim>\<open>strconv.Quote\<close>;
  which runes beyond ASCII it prints as they are is a parameter (\<open>is_print\<close>), and nothing depends on
  it: what was quoted is read back whatever the answer, so two devices with the same key string have
  the same owner and the same name.
\<close>

section \<open>Quoting\<close>

definition hex_digits :: "nat \<Rightarrow> nat \<Rightarrow> string" where
  "hex_digits k n = map (\<lambda>i. digit (n div 16 ^ i mod 16)) (rev [0..<k])"

text \<open>\<^verbatim>\<open>utf8.AppendRune\<close>: a surrogate or a number beyond Unicode is written as the replacement rune.\<close>

definition encode_rune :: "nat \<Rightarrow> nat list" where
  "encode_rune r =
     (if r < 0x80 then [r]
      else if r < 0x800 then [0xC0 + r div 64, 0x80 + r mod 64]
      else if 0xD800 \<le> r \<and> r < 0xE000 \<or> 0x10FFFF < r then [0xEF, 0xBF, 0xBD]
      else if r < 0x10000 then [0xE0 + r div 4096, 0x80 + r div 64 mod 64, 0x80 + r mod 64]
      else [0xF0 + r div 262144, 0x80 + r div 4096 mod 64, 0x80 + r div 64 mod 64, 0x80 + r mod 64])"

definition chars_of :: "nat list \<Rightarrow> string" where
  "chars_of bs = map char_of bs"

definition printable :: "(nat \<Rightarrow> bool) \<Rightarrow> nat \<Rightarrow> bool" where
  "printable is_print r = (if r < 0x80 then 0x20 \<le> r \<and> r < 0x7F else is_print r)"

definition escape :: "char \<Rightarrow> string" where
  "escape c = [CHR 0x5C, c]"

text \<open>\<^verbatim>\<open>appendEscapedRune\<close> with the double quote.\<close>

definition escaped_rune :: "(nat \<Rightarrow> bool) \<Rightarrow> nat \<Rightarrow> string" where
  "escaped_rune is_print r =
     (if r = 0x22 \<or> r = 0x5C then escape (char_of r)
      else if printable is_print r then chars_of (encode_rune r)
      else if r = 0x07 then escape CHR ''a''
      else if r = 0x08 then escape CHR ''b''
      else if r = 0x0C then escape CHR ''f''
      else if r = 0x0A then escape CHR 0x6E
      else if r = 0x0D then escape CHR ''r''
      else if r = 0x09 then escape CHR ''t''
      else if r = 0x0B then escape CHR ''v''
      else if r < 0x20 \<or> r = 0x7F then escape CHR ''x'' @ hex_digits 2 r
      else if r < 0x10000 then escape CHR ''u'' @ hex_digits 4 r
      else escape CHR ''U'' @ hex_digits 8 r)"

text \<open>One round of the loop over the string: a byte that is not UTF-8 is escaped as a byte.\<close>

definition quote_unit :: "(nat \<Rightarrow> bool) \<Rightarrow> nat list \<Rightarrow> string" where
  "quote_unit is_print bs =
     (case decode_rune bs of (r, w) \<Rightarrow>
        if w = 1 \<and> r = rune_error then escape CHR ''x'' @ hex_digits 2 (hd bs)
        else escaped_rune is_print r)"

function quote_body :: "(nat \<Rightarrow> bool) \<Rightarrow> nat list \<Rightarrow> string" where
  "quote_body is_print bs =
     (if bs = [] then []
      else quote_unit is_print bs @ quote_body is_print (drop (snd (decode_rune bs)) bs))"
  by pat_completeness auto
termination
  by (relation "measure (\<lambda>(p, bs). length bs)") (use decode_rune_width in fastforce)+

declare quote_body.simps [simp del]

definition go_quote :: "(nat \<Rightarrow> bool) \<Rightarrow> string \<Rightarrow> string" where
  "go_quote is_print s = CHR 0x22 # quote_body is_print (map byte s) @ [CHR 0x22]"

definition keyStr :: "(nat \<Rightarrow> bool) \<Rightarrow> string \<Rightarrow> string \<Rightarrow> string" where
  "keyStr is_print owner name = go_quote is_print owner @ ''/'' @ go_quote is_print name"

section \<open>Reading back\<close>

text \<open>A reader of quoted strings: the bytes up to the closing quote, and what follows it.\<close>

fun hex_value :: "string \<Rightarrow> nat option" where
  "hex_value s = foldl (\<lambda>a c. case (a, hex_val c) of (Some n, Some d) \<Rightarrow> Some (16 * n + d) | _ \<Rightarrow> None) (Some 0) s"

definition short_escape :: "char \<Rightarrow> nat option" where
  "short_escape c =
     map_of [(CHR ''a'', 0x07), (CHR ''b'', 0x08), (CHR ''f'', 0x0C), (CHR 0x6E, 0x0A), (CHR ''r'', 0x0D),
             (CHR ''t'', 0x09), (CHR ''v'', 0x0B), (CHR 0x22, 0x22), (CHR 0x5C, 0x5C)] c"

definition long_escape :: "char \<Rightarrow> nat option" where
  "long_escape c = map_of [(CHR ''x'', 2), (CHR ''u'', 4), (CHR ''U'', 8)] c"

function unquote :: "string \<Rightarrow> (nat list \<times> string) option" where
  "unquote [] = None"
| "unquote (c # s) =
     (if c = CHR 0x22 then Some ([], s)
      else if c \<noteq> CHR 0x5C then map_option (apfst (\<lambda>bs. byte c # bs)) (unquote s)
      else case s of
        [] \<Rightarrow> None
      | e # t \<Rightarrow>
          (case short_escape e of
             Some b \<Rightarrow> map_option (apfst (\<lambda>bs. b # bs)) (unquote t)
           | None \<Rightarrow>
               (case long_escape e of
                  None \<Rightarrow> None
                | Some k \<Rightarrow>
                    (case hex_value (take k t) of
                       None \<Rightarrow> None
                     | Some n \<Rightarrow>
                         map_option (apfst (\<lambda>bs. (if e = CHR ''x'' then [n] else encode_rune n) @ bs))
                           (unquote (drop k t))))))"
  by pat_completeness auto
termination
  by (relation "measure length") auto

declare unquote.simps(2) [simp del]

lemma hex_value_snoc:
  "hex_value (s @ [c]) = (case (hex_value s, hex_val c) of (Some n, Some d) \<Rightarrow> Some (16 * n + d) | _ \<Rightarrow> None)"
  by simp

declare hex_value.simps [simp del]

lemma hex_digits_Suc: "hex_digits (Suc k) n = hex_digits k (n div 16) @ [digit (n mod 16)]"
proof -
  have "rev [0..<Suc k] = map Suc (rev [0..<k]) @ [0]"
    by (simp add: upt_conv_Cons map_Suc_upt rev_map [symmetric] del: upt_Suc)
  then show ?thesis by (simp add: hex_digits_def div_mult2_eq)
qed

lemma length_hex_digits [simp]: "length (hex_digits k n) = k"
  by (simp add: hex_digits_def)

lemma hex_value_digits: "n < 16 ^ k \<Longrightarrow> hex_value (hex_digits k n) = Some n"
proof (induction k arbitrary: n)
  case 0
  then show ?case by (simp add: hex_digits_def hex_value.simps)
next
  case (Suc k)
  then have "hex_value (hex_digits k (n div 16)) = Some (n div 16)" by (simp add: less_mult_imp_div_less)
  then show ?case unfolding hex_digits_Suc hex_value_snoc by simp
qed

lemma unquote_short: "short_escape e = Some b \<Longrightarrow> unquote (escape e @ s) = map_option (apfst ((@) [b])) (unquote s)"
  by (cases "unquote s") (auto simp: escape_def unquote.simps(2))

lemma unquote_long:
  assumes "long_escape e = Some k" "short_escape e = None" "n < 16 ^ k"
  shows "unquote ((escape e @ hex_digits k n) @ s) =
     map_option (apfst ((@) (if e = CHR ''x'' then [n] else encode_rune n))) (unquote s)"
  using assms by (simp add: escape_def unquote.simps(2) hex_value_digits)

lemma unquote_plain:
  assumes "\<And>b. b \<in> set bs \<Longrightarrow> b < 256 \<and> b \<noteq> 0x22 \<and> b \<noteq> 0x5C"
  shows "unquote (chars_of bs @ s) = map_option (apfst ((@) bs)) (unquote s)"
  using assms
proof (induction bs)
  case (Cons b bs)
  have b: "b < 256" "b \<noteq> 0x22" "b \<noteq> 0x5C" using Cons.prems by auto
  then have "byte (char_of b :: char) = b" by simp
  moreover have "byte CHR 0x22 = 0x22" "byte CHR 0x5C = 0x5C" by (simp_all add: byte_def)
  ultimately have "(char_of b :: char) \<noteq> CHR 0x22" "(char_of b :: char) \<noteq> CHR 0x5C" using b by metis+
  then show ?case
    using Cons b by (simp add: chars_of_def unquote.simps(2) option.map_comp comp_def apfst_def map_prod_def case_prod_beta')
next
  case Nil
  then show ?case by (cases "unquote s") (auto simp: chars_of_def apfst_def map_prod_def)
qed

section \<open>Runes and their bytes\<close>

lemma split64: "y < 64 \<Longrightarrow> (x * 64 + y) div 64 = x \<and> (x * 64 + y) mod 64 = y" for x y :: nat
  by simp

lemma digits3:
  fixes x y z :: nat
  assumes "y < 64" "z < 64" and r: "r = x * 4096 + y * 64 + z"
  shows "r div 4096 = x" "r div 64 mod 64 = y" "r mod 64 = z"
proof -
  have a: "r = (x * 64 + y) * 64 + z" using r by simp
  show "r div 64 mod 64 = y" "r mod 64 = z" using assms(1,2) a split64 by metis+
  have "r div (64 * 64) = x" unfolding div_mult2_eq using assms(1,2) a split64 by metis
  then show "r div 4096 = x" by simp
qed

lemma digits4:
  fixes x y z w :: nat
  assumes "y < 64" "z < 64" "w < 64" and r: "r = x * 262144 + y * 4096 + z * 64 + w"
  shows "r div 262144 = x" "r div 4096 mod 64 = y" "r div 64 mod 64 = z" "r mod 64 = w"
proof -
  have a: "r = ((x * 64 + y) * 64 + z) * 64 + w" using r by simp
  show "r div 64 mod 64 = z" "r mod 64 = w" using assms(2,3) a split64 by metis+
  have "r div (64 * 64) mod 64 = y" "r div (64 * 64 * 64) = x"
    unfolding div_mult2_eq using assms(1-3) a split64 by metis+
  then show "r div 262144 = x" "r div 4096 mod 64 = y" by simp_all
qed

lemma encode_wide:
  "0x80 \<le> r \<Longrightarrow> r < 0x800 \<Longrightarrow> encode_rune r = [0xC0 + r div 64, 0x80 + r mod 64]"
  "0x800 \<le> r \<Longrightarrow> r < 0x10000 \<Longrightarrow> \<not> (0xD800 \<le> r \<and> r < 0xE000) \<Longrightarrow>
     encode_rune r = [0xE0 + r div 4096, 0x80 + r div 64 mod 64, 0x80 + r mod 64]"
  "0x10000 \<le> r \<Longrightarrow> r \<le> 0x10FFFF \<Longrightarrow>
     encode_rune r = [0xF0 + r div 262144, 0x80 + r div 4096 mod 64, 0x80 + r div 64 mod 64, 0x80 + r mod 64]"
  by (auto simp: encode_rune_def)

lemma encode2:
  assumes "0xC2 \<le> a" "a \<le> 0xDF" "cont 0x80 0xBF b"
  shows "encode_rune ((a - 0xC0) * 64 + (b - 0x80)) = [a, b]"
proof -
  let ?r = "(a - 0xC0) * 64 + (b - 0x80)"
  have b: "b - 0x80 < 64" "0x80 \<le> b" using assms by (auto simp: cont_def)
  have "0x80 \<le> ?r" "?r < 0x800" using assms(1,2) b by linarith+
  then have "encode_rune ?r = [0xC0 + ?r div 64, 0x80 + ?r mod 64]" by (rule encode_wide(1))
  then show ?thesis unfolding split64 [OF b(1), THEN conjunct1] split64 [OF b(1), THEN conjunct2]
    using assms(1) b(2) by simp
qed

lemma encode3:
  assumes "0xE0 \<le> a" "a \<le> 0xEF" "cont (if a = 0xE0 then 0xA0 else 0x80) (if a = 0xED then 0x9F else 0xBF) b" "cont 0x80 0xBF c"
  shows "encode_rune ((a - 0xE0) * 4096 + (b - 0x80) * 64 + (c - 0x80)) = [a, b, c]"
proof -
  let ?x = "a - 0xE0" and ?y = "b - 0x80" and ?z = "c - 0x80"
  let ?r = "?x * 4096 + ?y * 64 + ?z"
  have b: "?y < 64" "?z < 64" "?x < 16" "0x80 \<le> b" "0x80 \<le> c" using assms by (auto simp: cont_def split: if_splits)
  have lo: "0x800 \<le> ?r"
  proof (cases "a = 0xE0")
    case True
    then have "0x20 \<le> ?y" using assms by (auto simp: cont_def)
    then show ?thesis by linarith
  next
    case False
    then have "1 \<le> ?x" using assms by linarith
    then show ?thesis by linarith
  qed
  have surr: "\<not> (0xD800 \<le> ?r \<and> ?r < 0xE000)"
  proof (cases "a = 0xED")
    case True
    then have "?y < 0x20" "?x = 13" using assms by (auto simp: cont_def)
    then show ?thesis using b(2) by linarith
  next
    case False
    then have "?x \<le> 12 \<or> 14 \<le> ?x" using assms by linarith
    then show ?thesis using b by linarith
  qed
  have "?r < 0x10000" using b by linarith
  then have "encode_rune ?r = [0xE0 + ?r div 4096, 0x80 + ?r div 64 mod 64, 0x80 + ?r mod 64]"
    using lo surr by (intro encode_wide(2))
  then show ?thesis unfolding digits3 [OF b(1,2) refl] using b(4,5) assms(1) by simp
qed

lemma encode4:
  assumes "0xF0 \<le> a" "a \<le> 0xF4" "cont (if a = 0xF0 then 0x90 else 0x80) (if a = 0xF4 then 0x8F else 0xBF) b"
    "cont 0x80 0xBF c" "cont 0x80 0xBF d"
  shows "encode_rune ((a - 0xF0) * 262144 + (b - 0x80) * 4096 + (c - 0x80) * 64 + (d - 0x80)) = [a, b, c, d]"
proof -
  let ?x = "a - 0xF0" and ?y = "b - 0x80" and ?z = "c - 0x80" and ?w = "d - 0x80"
  let ?r = "?x * 262144 + ?y * 4096 + ?z * 64 + ?w"
  have b: "?y < 64" "?z < 64" "?w < 64" "?x \<le> 4" "0x80 \<le> b" "0x80 \<le> c" "0x80 \<le> d"
    using assms by (auto simp: cont_def split: if_splits)
  have lo: "0x10000 \<le> ?r"
  proof (cases "a = 0xF0")
    case True
    then have "0x10 \<le> ?y" using assms by (auto simp: cont_def)
    then show ?thesis by linarith
  next
    case False
    then have "1 \<le> ?x" using assms by linarith
    then show ?thesis by linarith
  qed
  have hi: "?r \<le> 0x10FFFF"
  proof (cases "a = 0xF4")
    case True
    then have "?y < 0x10" "?x = 4" using assms by (auto simp: cont_def)
    then show ?thesis using b(2,3) by linarith
  next
    case False
    then have "?x \<le> 3" using assms by linarith
    then show ?thesis using b by linarith
  qed
  show ?thesis
    unfolding encode_wide(3) [OF lo hi] digits4 [OF b(1-3) refl] using b(5-7) assms(1) by simp
qed

text \<open>A rune that was decoded is written as the bytes it was read from.\<close>

lemma encode_decode:
  assumes "decode_rune bs = (r, w)" "bs \<noteq> []" "\<not> (w = 1 \<and> r = rune_error)"
  shows "encode_rune r = take w bs"
proof -
  obtain a cs where bs: "bs = a # cs" using assms(2) by (cases bs) auto
  show ?thesis
  proof (cases "a < 0x80")
    case True
    then show ?thesis using assms(1) by (auto simp: bs encode_rune_def)
  next
    case False
    consider (two) "0xC2 \<le> a" "a \<le> 0xDF" | (three) "0xE0 \<le> a" "a \<le> 0xEF" | (four) "0xF0 \<le> a" "a \<le> 0xF4"
      | (none) "\<not> (0xC2 \<le> a \<and> a \<le> 0xDF)" "\<not> (0xE0 \<le> a \<and> a \<le> 0xEF)" "\<not> (0xF0 \<le> a \<and> a \<le> 0xF4)"
      by blast
    then show ?thesis
    proof cases
      case none
      then show ?thesis using False assms(1,3) by (simp only: bs decode_rune.simps if_False) simp
    next
      case two
      then show ?thesis
        using assms(1,3) encode2 [of a "hd cs"] by (cases cs) (auto simp: bs split: if_splits)
    next
      case three
      let ?lo = "if a = 0xE0 then 0xA0 else 0x80" and ?hi = "if a = 0xED then 0x9F else 0xBF"
      obtain b c ds where cs: "cs = b # c # ds" using three assms(1,3) by (auto simp: bs split: list.splits)
      show ?thesis
      proof (cases "cont ?lo ?hi b \<and> cont 0x80 0xBF c")
        case True
        have "(r, w) = ((a - 0xE0) * 4096 + (b - 0x80) * 64 + (c - 0x80), 3)"
          using True three assms(1) by (simp only: bs cs decode_rune.simps) simp
        then show ?thesis using encode3 [OF three] True by (simp only: bs cs prod.inject) simp
      next
        case False
        have "(if cont ?lo ?hi b \<and> cont 0x80 0xBF c then ((a - 0xE0) * 4096 + (b - 0x80) * 64 + (c - 0x80), 3)
            else (rune_error, 1)) = (r, w)"
          using three assms(1) by (simp add: bs cs del: One_nat_def)
        then have "(r, w) = (rune_error, 1)" unfolding if_not_P [OF False] by (rule sym)
        then show ?thesis using assms(3) by simp
      qed
    next
      case four
      let ?lo = "if a = 0xF0 then 0x90 else 0x80" and ?hi = "if a = 0xF4 then 0x8F else 0xBF"
      obtain b c d ds where cs: "cs = b # c # d # ds" using four assms(1,3) by (auto simp: bs split: list.splits)
      show ?thesis
      proof (cases "cont ?lo ?hi b \<and> cont 0x80 0xBF c \<and> cont 0x80 0xBF d")
        case True
        have "(r, w) = ((a - 0xF0) * 262144 + (b - 0x80) * 4096 + (c - 0x80) * 64 + (d - 0x80), 4)"
          using True four assms(1) by (simp only: bs cs decode_rune.simps) simp
        then show ?thesis using encode4 [OF four] True by (simp only: bs cs prod.inject) simp
      next
        case False
        have "(if cont ?lo ?hi b \<and> cont 0x80 0xBF c \<and> cont 0x80 0xBF d
            then ((a - 0xF0) * 262144 + (b - 0x80) * 4096 + (c - 0x80) * 64 + (d - 0x80), 4)
            else (rune_error, 1)) = (r, w)"
          using four assms(1) by (simp add: bs cs del: One_nat_def)
        then have "(r, w) = (rune_error, 1)" unfolding if_not_P [OF False] by (rule sym)
        then show ?thesis using assms(3) by simp
      qed
    qed
  qed
qed

section \<open>What was quoted is read back\<close>

lemma decode_error: "decode_rune bs = (r, w) \<Longrightarrow> bs \<noteq> [] \<Longrightarrow> w = 1 \<and> r = rune_error \<Longrightarrow> take w bs = [hd bs]"
  by (cases bs) auto

lemma encode_bytes:
  assumes "\<And>b. b \<in> set bs \<Longrightarrow> b < 256" "decode_rune bs = (r, w)" "bs \<noteq> []" "\<not> (w = 1 \<and> r = rune_error)"
    and "r \<noteq> 0x22" "r \<noteq> 0x5C"
  shows "b \<in> set (encode_rune r) \<Longrightarrow> b < 256 \<and> b \<noteq> 0x22 \<and> b \<noteq> 0x5C"
proof -
  assume b: "b \<in> set (encode_rune r)"
  have "b < 256" using assms(1) b unfolding encode_decode [OF assms(2-4)] by (meson in_set_takeD)
  moreover have "b = r \<or> 0x80 \<le> b" using b by (auto simp: encode_rune_def split: if_splits)
  ultimately show ?thesis using assms(5,6) by auto
qed

lemma decode_bound:
  assumes "decode_rune bs = (r, w)" "bs \<noteq> []" "\<not> (w = 1 \<and> r = rune_error)"
  shows "r < 0x110000"
proof (rule ccontr)
  assume "\<not> r < 0x110000"
  then have "encode_rune r = [0xEF, 0xBF, 0xBD]" by (simp add: encode_rune_def)
  then have t: "take w bs = [0xEF, 0xBF, 0xBD]" using encode_decode [OF assms] by simp
  then obtain cs where "bs = 0xEF # 0xBF # 0xBD # cs"
    by (metis append_Cons append_Nil append_take_drop_id)
  then show False using assms(1) \<open>\<not> r < 0x110000\<close> by (auto simp: cont_def)
qed

lemma quote_chars: "(char_of (0x22 :: nat) :: char) = CHR 0x22" "(char_of (0x5C :: nat) :: char) = CHR 0x5C"
  by (rule byte_inj [THEN iffD1], simp add: byte_def)+

lemma unquote_unit:
  assumes "\<And>b. b \<in> set bs \<Longrightarrow> b < 256" "bs \<noteq> []"
  shows "unquote (quote_unit is_print bs @ s) = map_option (apfst ((@) (take (snd (decode_rune bs)) bs))) (unquote s)"
proof -
  obtain r w where d: "decode_rune bs = (r, w)" by fastforce
  note short = unquote_short [where s = s, simplified] and long = unquote_long [where s = s]
  have esc: "short_escape CHR ''x'' = None" "short_escape CHR ''u'' = None" "short_escape CHR ''U'' = None"
    "long_escape CHR ''x'' = Some 2" "long_escape CHR ''u'' = Some 4" "long_escape CHR ''U'' = Some 8"
    by (simp_all add: short_escape_def long_escape_def)
  show ?thesis
  proof (cases "w = 1 \<and> r = rune_error")
    case True
    have "hd bs < 16 ^ 2" using assms by simp
    then show ?thesis
      using long [OF esc(4,1), of "hd bs"] True decode_error [OF d assms(2) True] by (simp add: quote_unit_def d)
  next
    case False
    have bytes: "take w bs = encode_rune r" using encode_decode [OF d assms(2) False] by simp
    have unit: "quote_unit is_print bs = escaped_rune is_print r"
      unfolding quote_unit_def d prod.case if_not_P [OF False] by (rule refl)
    have bound: "r < 16 ^ 8" using decode_bound [OF d assms(2) False] by simp
    have low: "encode_rune r = [r]" if "r < 0x80" using that by (simp add: encode_rune_def)
    show ?thesis
    proof (cases "r = 0x22 \<or> r = 0x5C \<or> r \<in> {0x07, 0x08, 0x0C, 0x0A, 0x0D, 0x09, 0x0B}")
      case True
      let ?e = "escaped_rune is_print r ! 1"
      have e: "escaped_rune is_print r = escape ?e \<and> short_escape ?e = Some r"
        using True by (elim disjE insertE emptyE)
          (simp_all add: escaped_rune_def printable_def short_escape_def quote_chars escape_def)
      have "encode_rune r = [r]" using low True by auto
      then show ?thesis using unquote_short [of ?e r s] e by (simp add: unit d bytes)
    next
      case other: False
      show ?thesis
      proof (cases "printable is_print r")
        case True
        then have "escaped_rune is_print r = chars_of (encode_rune r)" using other by (simp add: escaped_rune_def)
        moreover have "b < 256 \<and> b \<noteq> 0x22 \<and> b \<noteq> 0x5C" if "b \<in> set (encode_rune r)" for b
          by (rule encode_bytes [OF assms(1) d assms(2) False _ _ that]) (use other in auto)
        ultimately show ?thesis using unquote_plain [of "encode_rune r" s] by (simp add: unit d bytes)
      next
        case np: False
        then consider "r < 0x20 \<or> r = 0x7F" | "\<not> (r < 0x20 \<or> r = 0x7F)" "r < 0x10000"
          | "\<not> (r < 0x20 \<or> r = 0x7F)" "\<not> r < 0x10000" by blast
        then show ?thesis
        proof cases
          case 1
          then have "r < 16 ^ 2" "encode_rune r = [r]" using low by auto
          moreover have "escaped_rune is_print r = escape CHR ''x'' @ hex_digits 2 r"
            using other np 1 by (simp add: escaped_rune_def)
          ultimately show ?thesis using long [OF esc(4,1), of r] by (simp add: unit d bytes)
        next
          case 2
          then have "escaped_rune is_print r = escape CHR ''u'' @ hex_digits 4 r"
            using other np by (simp add: escaped_rune_def)
          then show ?thesis using long [OF esc(5,2), of r] 2 by (simp add: unit d bytes)
        next
          case 3
          then have "escaped_rune is_print r = escape CHR ''U'' @ hex_digits 8 r"
            using other np by (simp add: escaped_rune_def)
          then show ?thesis using long [OF esc(6,3), of r] bound by (simp add: unit d bytes)
        qed
      qed
    qed
  qed
qed

lemma unquote_body:
  assumes "\<And>b. b \<in> set bs \<Longrightarrow> b < 256"
  shows "unquote (quote_body is_print bs @ CHR 0x22 # s) = Some (bs, s)"
  using assms
proof (induction is_print bs rule: quote_body.induct)
  case (1 is_print bs)
  show ?case
  proof (cases "bs = []")
    case True
    then show ?thesis by (simp add: quote_body.simps unquote.simps(2))
  next
    case False
    let ?w = "snd (decode_rune bs)"
    have "unquote (quote_body is_print (drop ?w bs) @ CHR 0x22 # s) = Some (drop ?w bs, s)"
      by (rule "1.IH" [OF False]) (use "1.prems" in_set_dropD in fast)
    then show ?thesis
      using unquote_unit [OF "1.prems" False] False by (subst quote_body.simps) simp
  qed
qed

lemma unquote_string: "unquote (quote_body is_print (map byte s) @ CHR 0x22 # t) = Some (map byte s, t)"
  by (rule unquote_body) auto

text \<open>
  Quoting loses nothing, whatever the string holds (quotes, backslashes, control characters, bytes
  that are not UTF-8) and whichever runes are printed as they are: the reader gets back the string and
  what follows the closing quote.
\<close>

theorem quote_roundtrip:
  "unquote (tl (go_quote is_print s) @ rest) = Some (map byte s, rest)"
  using unquote_string [of is_print s rest] by (simp add: go_quote_def)

lemma quoted_inj:
  assumes "go_quote is_print s @ t = go_quote is_print s' @ t'"
  shows "s = s' \<and> t = t'"
proof -
  have "quote_body is_print (map byte s) @ CHR 0x22 # t = quote_body is_print (map byte s') @ CHR 0x22 # t'"
    using assms by (simp add: go_quote_def)
  then have "Some (map byte s, t) = Some (map byte s', t')" by (metis unquote_string)
  moreover have "inj byte" by (simp add: inj_def)
  ultimately show ?thesis by (simp add: inj_map_eq_map)
qed

text \<open>
  No owner and device name produce the key of another device: two devices with the same key string
  have the same owner and the same name, so the map of the in-memory storage is a map over the pairs.
\<close>

theorem keyStr_injective:
  "keyStr is_print o1 n1 = keyStr is_print o2 n2 \<longleftrightarrow> o1 = o2 \<and> n1 = n2"
proof
  assume "keyStr is_print o1 n1 = keyStr is_print o2 n2"
  then have "go_quote is_print o1 @ (''/'' @ go_quote is_print n1) = go_quote is_print o2 @ (''/'' @ go_quote is_print n2)"
    by (simp add: keyStr_def)
  then have o: "o1 = o2" and "''/'' @ go_quote is_print n1 = ''/'' @ go_quote is_print n2" using quoted_inj by blast+
  then have "go_quote is_print n1 @ [] = go_quote is_print n2 @ []" by simp
  then have "n1 = n2" using quoted_inj by blast
  then show "o1 = o2 \<and> n1 = n2" using o by simp
qed simp

end
