(* ===== verification/Firewall.thy ===== *)
theory Firewall
  imports Network Go_Quote
begin

text \<open>
  The firewall rules (\<^verbatim>\<open>internal/network/network.go\<close> and \<^verbatim>\<open>nftables.go\<close>): which networks the clients may
  reach, as rules of iptables or as one ruleset of nftables.  A rule is kept as data and printed by
  \<open>rule_text\<close>; the ruleset is the text the program hands to \<^verbatim>\<open>nft\<close>.  The quoting in error messages takes
  every rune beyond ASCII as printable.
\<close>

definition msg_quote :: "string \<Rightarrow> string" where
  "msg_quote s = go_quote (\<lambda>_. True) s"

section \<open>Options\<close>

record policy =
  polName :: string
  polAllowedIPs :: "string list"
  polMembers :: "string list"

record forwarding_options =
  foGatewayIface :: string
  foCIDR :: string
  foCIDRv6 :: string
  foNAT44 :: bool
  foNAT66 :: bool
  foClientIsolation :: bool
  foAllowedIPs :: "string list"
  foAllowedIPv4s :: "string list"
  foAllowedIPv6s :: "string list"
  foPolicies :: "policy list"
  foServerAddresses :: "string list"
  foFirewall :: string

definition word_char :: "char \<Rightarrow> bool" where
  "word_char c = ((65 \<le> byte c \<and> byte c \<le> 90) \<or> (97 \<le> byte c \<and> byte c \<le> 122) \<or> is_dec c \<or> c = CHR ''_'')"

definition ValidPolicyName :: "string \<Rightarrow> bool" where
  "ValidPolicyName name = (1 \<le> length name \<and> length name \<le> 32 \<and> list_all word_char name)"

definition FirewallIPTables :: string where "FirewallIPTables = ''iptables''"
definition FirewallNftables :: string where "FirewallNftables = ''nftables''"
definition FirewallNone :: string where "FirewallNone = ''none''"

definition ResolveFirewall :: "string \<Rightarrow> bool \<Rightarrow> string res" where
  "ResolveFirewall firewall disableIPTables =
     (if firewall = [] then (if disableIPTables then Inr FirewallNone else Inr FirewallIPTables)
      else if firewall = FirewallIPTables \<or> firewall = FirewallNftables \<or> firewall = FirewallNone then
        (if disableIPTables \<and> firewall \<noteq> FirewallNone then
           Inl (Err (''vpn.disableIPTables and vpn.firewall: '' @ firewall @ '' contradict each other - set only vpn.firewall''))
         else Inr firewall)
      else Inl (Err (''unknown firewall '' @ msg_quote firewall @ '': use iptables, nftables or none'')))"

datatype protocol = ProtocolIPv4 | ProtocolIPv6

record family =
  famProtocol :: protocol
  famKeyword :: string
  famCidr :: string
  famAllowed :: "string list"
  famNat :: bool

definition families :: "forwarding_options \<Rightarrow> family list" where
  "families options =
     filter (\<lambda>f. famCidr f \<noteq> [])
       [\<lparr>famProtocol = ProtocolIPv4, famKeyword = ''ip'', famCidr = foCIDR options,
         famAllowed = foAllowedIPv4s options, famNat = foNAT44 options\<rparr>,
        \<lparr>famProtocol = ProtocolIPv6, famKeyword = ''ip6'', famCidr = foCIDRv6 options,
         famAllowed = foAllowedIPv6s options, famNat = foNAT66 options\<rparr>]"

text \<open>The address of an IPv4 network is printed as it was written, that of an IPv6 network masked.\<close>

fun split_loop :: "string list \<Rightarrow> string list \<times> string list \<Rightarrow> (string list \<times> string list) res" where
  "split_loop [] acc = Inr acc"
| "split_loop (c # cs) (v4, v6) =
     (case ParseCIDR c of
        None \<Rightarrow> Inl (Wrap ''invalid cidr in AllowedIPs'' (Err (''invalid CIDR address: '' @ c)))
      | Some (ip, n) \<Rightarrow>
          if is4 ip \<or> is4in6 ip then split_loop cs (v4 @ [ipnet_string ip n], v6)
          else split_loop cs (v4, v6 @ [ipnet_string (prefix_addr (addr_prefix ip n)) n]))"

definition splitAllowedIPs :: "forwarding_options \<Rightarrow> forwarding_options res" where
  "splitAllowedIPs options =
     (case split_loop (foAllowedIPs options) ([], []) of
        Inl e \<Rightarrow> Inl e
      | Inr (v4, v6) \<Rightarrow> Inr (options\<lparr>foAllowedIPv4s := v4, foAllowedIPv6s := v6\<rparr>))"

section \<open>iptables\<close>

text \<open>What the program calls of \<^verbatim>\<open>go-iptables\<close>, over a state it only hands on.\<close>

record 't ipt =
  NewWithProtocol :: "protocol \<Rightarrow> 't \<Rightarrow> go_error option"
  ChainExists :: "protocol \<Rightarrow> string \<Rightarrow> string \<Rightarrow> 't \<Rightarrow> bool res"
  ClearChain :: "protocol \<Rightarrow> string \<Rightarrow> string \<Rightarrow> 't \<Rightarrow> go_error option \<times> 't"
  NewChain :: "protocol \<Rightarrow> string \<Rightarrow> string \<Rightarrow> 't \<Rightarrow> go_error option \<times> 't"
  AppendUnique :: "protocol \<Rightarrow> string \<Rightarrow> string \<Rightarrow> string list \<Rightarrow> 't \<Rightarrow> go_error option \<times> 't"
  DeleteIfExists :: "protocol \<Rightarrow> string \<Rightarrow> string \<Rightarrow> string list \<Rightarrow> 't \<Rightarrow> go_error option \<times> 't"
  ClearAndDeleteChain :: "protocol \<Rightarrow> string \<Rightarrow> string \<Rightarrow> 't \<Rightarrow> go_error option \<times> 't"

definition forwardChain :: string where "forwardChain = ''WG_ACCESS_SERVER_FORWARD''"
definition postroutingChain :: string where "postroutingChain = ''WG_ACCESS_SERVER_POSTROUTING''"

type_synonym 't step = "'t \<Rightarrow> go_error option \<times> 't"

definition wrapping :: "string \<Rightarrow> 't step \<Rightarrow> 't step" where
  "wrapping m f t = (case f t of (e, t') \<Rightarrow> (map_option (wrap_err m) e, t'))"

text \<open>Steps one after the other, up to the first that fails.\<close>

fun all_steps :: "'t step list \<Rightarrow> 't step" where
  "all_steps [] t = (None, t)"
| "all_steps (f # fs) t = (case f t of (Some e, t') \<Rightarrow> (Some e, t') | (None, t') \<Rightarrow> all_steps fs t')"

definition clearOrCreateChain :: "'t ipt \<Rightarrow> protocol \<Rightarrow> string \<Rightarrow> string \<Rightarrow> 't step" where
  "clearOrCreateChain I p table chain t =
     (case ChainExists I p table chain t of
        Inl e \<Rightarrow> (Some (wrap_err (''failed to read table '' @ table) e), t)
      | Inr exists \<Rightarrow>
          if exists
          then wrapping (''failed to clear chain '' @ chain @ '' in table '' @ table) (ClearChain I p table chain) t
          else wrapping (''failed to create chain '' @ chain @ '' in table '' @ table) (NewChain I p table chain) t)"

text \<open>The rules of the forward chain of one family, in their order, with the message of a failure.\<close>

definition forward_rules :: "forwarding_options \<Rightarrow> family \<Rightarrow> (string \<times> string list) list" where
  "forward_rules options f =
     (if foClientIsolation options
      then [(''failed to set ip tables rule'', [''-s'', famCidr f, ''-d'', famCidr f, ''-j'', ''REJECT''])] else []) @
     map (\<lambda>a. (''failed to set ip tables rule'', [''-s'', famCidr f, ''-d'', a, ''-j'', ''ACCEPT''])) (famAllowed f) @
     (if famNat f then []
      else map (\<lambda>a. (''failed to set ip tables rule for return traffic'',
                     [''-s'', a, ''-d'', famCidr f, ''-j'', ''ACCEPT''])) (famAllowed f)) @
     [(''failed to set ip tables rule'', [''-s'', famCidr f, ''-j'', ''REJECT''])]"

definition configureIPTablesFamily :: "'t ipt \<Rightarrow> forwarding_options \<Rightarrow> family \<Rightarrow> 't step" where
  "configureIPTablesFamily I options f t =
     (case NewWithProtocol I (famProtocol f) t of
        Some e \<Rightarrow> (Some (wrap_err ''failed to init iptables'' e), t)
      | None \<Rightarrow>
          all_steps
            ([clearOrCreateChain I (famProtocol f) ''filter'' forwardChain,
              clearOrCreateChain I (famProtocol f) ''nat'' postroutingChain,
              wrapping ''failed to append FORWARD rule to filter chain''
                (AppendUnique I (famProtocol f) ''filter'' ''FORWARD'' [''-j'', forwardChain]),
              wrapping ''failed to append POSTROUTING rule to nat chain''
                (AppendUnique I (famProtocol f) ''nat'' ''POSTROUTING'' [''-j'', postroutingChain])] @
             map (\<lambda>(m, r). wrapping m (AppendUnique I (famProtocol f) ''filter'' forwardChain r)) (forward_rules options f) @
             (if foGatewayIface options \<noteq> [] \<and> famNat f
              then [wrapping ''failed to set ip tables rule''
                      (AppendUnique I (famProtocol f) ''nat'' postroutingChain
                         [''-s'', famCidr f, ''-o'', foGatewayIface options, ''-j'', ''MASQUERADE''])]
              else [])) t)"

definition configureIPTables :: "'t ipt \<Rightarrow> forwarding_options \<Rightarrow> 't step" where
  "configureIPTables I options = all_steps (map (configureIPTablesFamily I options) (families options))"

definition remove_chain :: "'t ipt \<Rightarrow> protocol \<Rightarrow> 't \<Rightarrow> string \<times> string \<times> string \<Rightarrow> 't" where
  "remove_chain I p t c =
     (case c of (table, parent, name) \<Rightarrow>
        (case ChainExists I p table name t of
           Inr True \<Rightarrow>
             (case DeleteIfExists I p table parent [''-j'', name] t of
                (Some e, t') \<Rightarrow> t'
              | (None, t') \<Rightarrow> snd (ClearAndDeleteChain I p table name t'))
         | _ \<Rightarrow> t))"

definition removeIPTables :: "'t ipt \<Rightarrow> 't \<Rightarrow> 't" where
  "removeIPTables I t =
     foldl (\<lambda>t p. case NewWithProtocol I p t of
              Some e \<Rightarrow> t
            | None \<Rightarrow> foldl (remove_chain I p) t
                [(''filter'', ''FORWARD'', forwardChain), (''nat'', ''POSTROUTING'', postroutingChain)])
       t [ProtocolIPv4, ProtocolIPv6]"

section \<open>nftables\<close>

definition nftTable :: string where "nftTable = ''wg_access_server''"

definition iface_char :: "char \<Rightarrow> bool" where
  "iface_char c = (word_char c \<or> c \<in> set ''.@:-'')"

definition interfaceName :: "string \<Rightarrow> bool" where
  "interfaceName s = (1 \<le> length s \<and> length s \<le> 15 \<and> list_all iface_char s)"

text \<open>A rule of the forward chain: what it says of the source, of the destination if anything, and the
  verdict.  An address is a network or a named set.\<close>

datatype operand = Net string | NamedSet string

datatype verdict = Accept | Reject

record nft_rule =
  rKeyword :: string
  rSaddr :: operand
  rDaddr :: "operand option"
  rVerdict :: verdict

fun operand_text :: "operand \<Rightarrow> string" where
  "operand_text (Net n) = n"
| "operand_text (NamedSet s) = ''@'' @ s"

fun verdict_text :: "verdict \<Rightarrow> string" where
  "verdict_text Accept = ''accept''"
| "verdict_text Reject = ''reject''"

definition rule_text :: "nft_rule \<Rightarrow> string" where
  "rule_text r =
     rKeyword r @ '' saddr '' @ operand_text (rSaddr r) @ '' '' @
     (case rDaddr r of None \<Rightarrow> [] | Some d \<Rightarrow> rKeyword r @ '' daddr '' @ operand_text d @ '' '') @
     verdict_text (rVerdict r)"

definition policySetName :: "string \<Rightarrow> family \<Rightarrow> string" where
  "policySetName policy f = ''policy_'' @ policy @ ''_'' @ famKeyword f"

definition policyMembersSetName :: "family \<Rightarrow> string" where
  "policyMembersSetName f = ''policy_members_'' @ famKeyword f"

record nft_set =
  setName :: string
  setKind :: string
  setElements :: "string list"

definition nftSet :: "string \<Rightarrow> family \<Rightarrow> string list \<Rightarrow> nft_set" where
  "nftSet name f addresses =
     \<lparr>setName = name, setKind = (if famKeyword f = ''ip6'' then ''ipv6_addr'' else ''ipv4_addr''), setElements = addresses\<rparr>"

definition tab :: string where "tab = [CHR 0x09]"
definition nl :: string where "nl = [CHR 0x0A]"

definition set_text :: "nft_set \<Rightarrow> string" where
  "set_text s =
     tab @ ''set '' @ setName s @ '' {'' @ nl @ tab @ tab @ ''type '' @ setKind s @ nl @
     (if setElements s = [] then []
      else tab @ tab @ ''elements = { '' @ go_join '', '' (setElements s) @ '' }'' @ nl) @
     tab @ ''}'' @ nl"

fun prefixesOfFamily :: "string list \<Rightarrow> family \<Rightarrow> string list res" where
  "prefixesOfFamily [] f = Inr []"
| "prefixesOfFamily (n # ns) f =
     (case parse_prefix n of
        None \<Rightarrow> Inl (Wrap (''invalid network '' @ msg_quote n) (Err ''netip.ParsePrefix''))
      | Some p \<Rightarrow>
          (case prefixesOfFamily ns f of
             Inl e \<Rightarrow> Inl e
           | Inr ks \<Rightarrow>
               Inr (if is4 (unmap (prefix_addr p)) = (famKeyword f = ''ip'') then prefix_string (masked p) # ks else ks)))"

text \<open>A prefix or a bare address; what is neither is left out.\<close>

definition address_of :: "string \<Rightarrow> addr option" where
  "address_of s =
     (case parse_prefix (trim_space s) of
        Some p \<Rightarrow> Some (prefix_addr p)
      | None \<Rightarrow> parse_addr (trim_space s))"

definition addressesOfFamily :: "string list \<Rightarrow> family \<Rightarrow> string list" where
  "addressesOfFamily addresses f =
     List.map_filter
       (\<lambda>s. case address_of s of
              None \<Rightarrow> None
            | Some a \<Rightarrow>
                if is4 (unmap (prefix_addr (prefix_from a (bit_len a)))) = (famKeyword f = ''ip'')
                then Some (addr_string (unmap (prefix_addr (prefix_from a (bit_len a))))) else None) addresses"

fun policiesOfFamily :: "policy list \<Rightarrow> family \<Rightarrow> policy list res" where
  "policiesOfFamily [] f = Inr []"
| "policiesOfFamily (p # ps) f =
     (if \<not> ValidPolicyName (polName p) then Inl (Err (''invalid policy name '' @ msg_quote (polName p)))
      else (case prefixesOfFamily (polAllowedIPs p) f of
          Inl e \<Rightarrow> Inl (wrap_err (''policy '' @ msg_quote (polName p)) e)
        | Inr networks \<Rightarrow>
            (case policiesOfFamily ps f of
               Inl e \<Rightarrow> Inl e
             | Inr reduced \<Rightarrow>
                 Inr (\<lparr>polName = polName p, polAllowedIPs = networks, polMembers = addressesOfFamily (polMembers p) f\<rparr> # reduced))))"

definition rule4 :: "string \<Rightarrow> operand \<Rightarrow> operand \<Rightarrow> verdict \<Rightarrow> nft_rule" where
  "rule4 ip s d v = \<lparr>rKeyword = ip, rSaddr = s, rDaddr = Some d, rVerdict = v\<rparr>"

definition source_rule :: "string \<Rightarrow> operand \<Rightarrow> verdict \<Rightarrow> nft_rule" where
  "source_rule ip s v = \<lparr>rKeyword = ip, rSaddr = s, rDaddr = None, rVerdict = v\<rparr>"

text \<open>The rules of one policy of a family.\<close>

definition policy_rules :: "family \<Rightarrow> policy \<Rightarrow> nft_rule list" where
  "policy_rules f p =
     (let set = NamedSet (policySetName (polName p) f) in
      map (\<lambda>n. rule4 (famKeyword f) set (Net n) Accept) (polAllowedIPs p) @
      (if famNat f then [] else map (\<lambda>n. rule4 (famKeyword f) (Net n) set Accept) (polAllowedIPs p)))"

text \<open>What the policies add to the chain of a family, and the sets the rules name.\<close>

definition policies_rules :: "forwarding_options \<Rightarrow> family \<Rightarrow> string \<Rightarrow> policy list \<Rightarrow> nft_rule list" where
  "policies_rules options f cidr policies =
     (if policies = [] then []
      else map (\<lambda>a. rule4 (famKeyword f) (Net cidr) (Net a) Accept) (addressesOfFamily (foServerAddresses options) f) @
           concat (map (policy_rules f) policies) @
           [source_rule (famKeyword f) (NamedSet (policyMembersSetName f)) Reject])"

definition policies_sets :: "family \<Rightarrow> policy list \<Rightarrow> nft_set list" where
  "policies_sets f policies =
     (if policies = [] then []
      else map (\<lambda>p. nftSet (policySetName (polName p) f) f (polMembers p)) policies @
           [nftSet (policyMembersSetName f) f (concat (map polMembers policies))])"

record nft_parts =
  ptSets :: "nft_set list"
  ptForward :: "nft_rule list"
  ptPostrouting :: "string list"

text \<open>One family: the body of the loop.\<close>

definition family_parts :: "(nat \<Rightarrow> bool) \<Rightarrow> forwarding_options \<Rightarrow> family \<Rightarrow> nft_parts res" where
  "family_parts is_print options f =
     (case parse_prefix (famCidr f) of
        None \<Rightarrow> Inl (Wrap (''invalid VPN network '' @ msg_quote (famCidr f)) (Err ''netip.ParsePrefix''))
      | Some prefix \<Rightarrow>
          (let cidr = prefix_string (masked prefix); ip = famKeyword f in
           case policiesOfFamily (foPolicies options) f of
             Inl e \<Rightarrow> Inl e
           | Inr policies \<Rightarrow>
               Inr \<lparr>ptSets = policies_sets f policies,
                    ptForward =
                      (if foClientIsolation options then [rule4 ip (Net cidr) (Net cidr) Reject] else []) @
                      policies_rules options f cidr policies @
                      map (\<lambda>n. rule4 ip (Net cidr) (Net n) Accept) (famAllowed f) @
                      (if famNat f then [] else map (\<lambda>n. rule4 ip (Net n) (Net cidr) Accept) (famAllowed f)) @
                      [source_rule ip (Net cidr) Reject],
                    ptPostrouting =
                      (if foGatewayIface options \<noteq> [] \<and> famNat f
                       then [ip @ '' saddr '' @ cidr @ '' oifname '' @ go_quote is_print (foGatewayIface options) @ '' masquerade'']
                       else [])\<rparr>))"

fun collect_parts :: "(nat \<Rightarrow> bool) \<Rightarrow> forwarding_options \<Rightarrow> family list \<Rightarrow> nft_parts res" where
  "collect_parts is_print options [] = Inr \<lparr>ptSets = [], ptForward = [], ptPostrouting = []\<rparr>"
| "collect_parts is_print options (f # fs) =
     (case family_parts is_print options f of
        Inl e \<Rightarrow> Inl e
      | Inr p \<Rightarrow>
          (case collect_parts is_print options fs of
             Inl e \<Rightarrow> Inl e
           | Inr q \<Rightarrow> Inr \<lparr>ptSets = ptSets p @ ptSets q, ptForward = ptForward p @ ptForward q,
                            ptPostrouting = ptPostrouting p @ ptPostrouting q\<rparr>))"

definition ruleset_parts :: "(nat \<Rightarrow> bool) \<Rightarrow> forwarding_options \<Rightarrow> nft_parts res" where
  "ruleset_parts is_print options =
     (if foGatewayIface options \<noteq> [] \<and> \<not> interfaceName (foGatewayIface options) then
        Inl (Err (''invalid gateway interface name '' @ msg_quote (foGatewayIface options)))
      else collect_parts is_print options (families options))"

definition ruleset_text :: "nft_parts \<Rightarrow> string" where
  "ruleset_text p =
     ''table inet '' @ nftTable @ nl @
     ''delete table inet '' @ nftTable @ nl @
     ''table inet '' @ nftTable @ '' {'' @ nl @
     concat (map (\<lambda>s. set_text s @ nl) (ptSets p)) @
     tab @ ''chain forward {'' @ nl @ tab @ tab @ ''type filter hook forward priority filter; policy accept;'' @ nl @
     concat (map (\<lambda>r. tab @ tab @ rule_text r @ nl) (ptForward p)) @
     tab @ ''}'' @ nl @ nl @ tab @ ''chain postrouting {'' @ nl @ tab @ tab @
     ''type nat hook postrouting priority srcnat; policy accept;'' @ nl @
     concat (map (\<lambda>r. tab @ tab @ r @ nl) (ptPostrouting p)) @
     tab @ ''}'' @ nl @ ''}'' @ nl"

definition nftablesRuleset :: "(nat \<Rightarrow> bool) \<Rightarrow> forwarding_options \<Rightarrow> string res" where
  "nftablesRuleset is_print options =
     (case ruleset_parts is_print options of Inl e \<Rightarrow> Inl e | Inr p \<Rightarrow> Inr (ruleset_text p))"

text \<open>Running \<^verbatim>\<open>nft\<close> on a text is a parameter; \<^verbatim>\<open>removeNftables\<close> does nothing without the program.\<close>

definition configureNftables :: "(nat \<Rightarrow> bool) \<Rightarrow> (string \<Rightarrow> 't step) \<Rightarrow> forwarding_options \<Rightarrow> 't step" where
  "configureNftables is_print runNft options t =
     (case nftablesRuleset is_print options of Inl e \<Rightarrow> (Some e, t) | Inr ruleset \<Rightarrow> runNft ruleset t)"

definition removeNftables :: "bool \<Rightarrow> (string \<Rightarrow> 't step) \<Rightarrow> 't \<Rightarrow> 't" where
  "removeNftables has_nft runNft t =
     (if \<not> has_nft then t
      else snd (runNft (''table inet '' @ nftTable @ nl @ ''delete table inet '' @ nftTable @ nl) t))"

definition ConfigureForwarding ::
  "(nat \<Rightarrow> bool) \<Rightarrow> 't ipt \<Rightarrow> bool \<Rightarrow> (string \<Rightarrow> 't step) \<Rightarrow> forwarding_options \<Rightarrow> 't step" where
  "ConfigureForwarding is_print I has_nft runNft options t =
     (if foFirewall options = FirewallNone then (None, t)
      else (case splitAllowedIPs options of
          Inl e \<Rightarrow> (Some e, t)
        | Inr options \<Rightarrow>
            if foFirewall options = FirewallNftables
            then configureNftables is_print runNft options (removeIPTables I t)
            else configureIPTables I options (removeNftables has_nft runNft t)))"

end
