(* ===== verification/Firewall_Semantics.thy ===== *)
theory Firewall_Semantics
  imports Firewall
begin

text \<open>
  What the rules do to a packet that is forwarded.  The first rule of the chain that matches decides, and
  a packet no rule matches is accepted (\<^verbatim>\<open>policy accept\<close>); a rule of a family matches only packets of
  that family; a set that is declared twice holds the elements of both declarations.  The chain of
  nftables is shown to do what an access policy promises, and to do the same as the chain of iptables
  when there are no policies.
\<close>

section \<open>First match\<close>

definition net_matches :: "string \<Rightarrow> addr \<Rightarrow> bool" where
  "net_matches n a =
     (case parse_prefix n of Some p \<Rightarrow> prefix_contains p a | None \<Rightarrow> parse_addr n = Some a)"

fun operand_matches :: "nft_set list \<Rightarrow> operand \<Rightarrow> addr \<Rightarrow> bool" where
  "operand_matches sets (Net n) a = net_matches n a"
| "operand_matches sets (NamedSet s) a =
     list_ex (\<lambda>t. setName t = s \<and> list_ex (\<lambda>e. parse_addr e = Some a) (setElements t)) sets"

definition keyword_of :: "addr \<Rightarrow> string" where
  "keyword_of a = (if is4 a then ''ip'' else ''ip6'')"

definition rule_matches :: "nft_set list \<Rightarrow> addr \<Rightarrow> addr \<Rightarrow> nft_rule \<Rightarrow> bool" where
  "rule_matches sets s d r =
     (rKeyword r = keyword_of s \<and> operand_matches sets (rSaddr r) s \<and>
      (case rDaddr r of None \<Rightarrow> True | Some x \<Rightarrow> operand_matches sets x d))"

definition first_match :: "nft_set list \<Rightarrow> addr \<Rightarrow> addr \<Rightarrow> nft_rule list \<Rightarrow> verdict option" where
  "first_match sets s d rs = map_option rVerdict (find (rule_matches sets s d) rs)"

definition nft_verdict :: "nft_parts \<Rightarrow> addr \<Rightarrow> addr \<Rightarrow> verdict" where
  "nft_verdict p s d = (case first_match (ptSets p) s d (ptForward p) of None \<Rightarrow> Accept | Some v \<Rightarrow> v)"

lemma first_match_Nil [simp]: "first_match sets s d [] = None"
  by (simp add: first_match_def)

lemma first_match_append:
  "first_match sets s d (xs @ ys) = (case first_match sets s d xs of None \<Rightarrow> first_match sets s d ys | Some v \<Rightarrow> Some v)"
  by (induction xs) (auto simp: first_match_def)

lemma first_match_same:
  assumes "\<And>r. r \<in> set rs \<Longrightarrow> rVerdict r = v"
  shows "first_match sets s d rs = (if \<exists>r \<in> set rs. rule_matches sets s d r then Some v else None)"
proof (cases "find (rule_matches sets s d) rs")
  case None
  then show ?thesis by (auto simp: first_match_def find_None_iff)
next
  case (Some r)
  then have "r \<in> set rs" "rule_matches sets s d r" by (auto simp: find_Some_iff)
  then show ?thesis using Some assms by (auto simp: first_match_def)
qed

lemma first_match_other:
  "(\<And>r. r \<in> set rs \<Longrightarrow> rKeyword r \<noteq> keyword_of s) \<Longrightarrow> first_match sets s d rs = None"
  by (auto simp: first_match_def find_None_iff rule_matches_def)

section \<open>What the options promise\<close>

definition in_nets :: "string list \<Rightarrow> addr \<Rightarrow> bool" where
  "in_nets ns a = list_ex (\<lambda>n. net_matches n a) ns"

definition in_policy :: "policy \<Rightarrow> addr \<Rightarrow> bool" where
  "in_policy p a = list_ex (\<lambda>e. parse_addr e = Some a) (polMembers p)"

text \<open>The decision for one family, with its policies already reduced to it: isolation first, then the
  server itself, then what a policy allows, and whoever is in a policy gets nothing else.\<close>

definition forward_spec ::
  "forwarding_options \<Rightarrow> family \<Rightarrow> prefix \<Rightarrow> policy list \<Rightarrow> addr \<Rightarrow> addr \<Rightarrow> verdict" where
  "forward_spec options f vpn policies s d =
     (let client = prefix_contains vpn in
      if foClientIsolation options \<and> client s \<and> client d then Reject
      else if policies \<noteq> [] \<and> client s \<and> in_nets (addressesOfFamily (foServerAddresses options) f) d then Accept
      else if list_ex (\<lambda>p. (in_policy p s \<and> in_nets (polAllowedIPs p) d) \<or>
                          (\<not> famNat f \<and> in_nets (polAllowedIPs p) s \<and> in_policy p d)) policies then Accept
      else if list_ex (\<lambda>p. in_policy p s) policies then Reject
      else if client s \<and> in_nets (famAllowed f) d then Accept
      else if \<not> famNat f \<and> in_nets (famAllowed f) s \<and> client d then Accept
      else if client s then Reject
      else Accept)"

section \<open>The names of the sets\<close>

lemma policySetName_inj: "policySetName p f = policySetName q f \<longleftrightarrow> p = q"
  by (simp add: policySetName_def)

lemma policySetName_members: "policySetName p f = policyMembersSetName f \<longleftrightarrow> p = ''members''"
proof
  assume "policySetName p f = policyMembersSetName f"
  then have "p @ ''_'' @ famKeyword f = ''members'' @ ''_'' @ famKeyword f"
    by (simp add: policySetName_def policyMembersSetName_def)
  then show "p = ''members''" by (simp only: append_same_eq)
qed (simp add: policySetName_def policyMembersSetName_def)

text \<open>A policy may be called \<open>members\<close>, and then its set is the set of everybody who is in a policy.\<close>

lemma members_policy_valid: "ValidPolicyName ''members'' \<and> policySetName ''members'' f = policyMembersSetName f"
  by (simp add: policySetName_members) code_simp

definition names_ok :: "policy list \<Rightarrow> bool" where
  "names_ok ps = (distinct (map polName ps) \<and> ''members'' \<notin> set (map polName ps))"

definition holds :: "nft_set list \<Rightarrow> string \<Rightarrow> addr \<Rightarrow> bool" where
  "holds sets n a \<longleftrightarrow> (\<exists>t \<in> set sets. setName t = n \<and> (\<exists>e \<in> set (setElements t). parse_addr e = Some a))"

lemma operand_NamedSet: "operand_matches sets (NamedSet n) a = holds sets n a"
  by (simp add: holds_def list_ex_iff)

declare operand_matches.simps(2) [simp del]

lemma holds_append [simp]: "holds (xs @ ys) n a \<longleftrightarrow> holds xs n a \<or> holds ys n a"
  by (auto simp: holds_def)

lemma holds_policies:
  assumes "names_ok ps"
  shows "p \<in> set ps \<Longrightarrow> holds (policies_sets f ps) (policySetName (polName p) f) a \<longleftrightarrow> in_policy p a"
    and "ps \<noteq> [] \<Longrightarrow> holds (policies_sets f ps) (policyMembersSetName f) a \<longleftrightarrow> (\<exists>p \<in> set ps. in_policy p a)"
proof -
  have one: "p = q" if "p \<in> set ps" "q \<in> set ps" "polName p = polName q" for p q
    using that assms by (auto simp: names_ok_def distinct_map dest: inj_onD)
  have mem: "polName p \<noteq> ''members''" if "p \<in> set ps" for p using that assms by (force simp: names_ok_def)
  show "holds (policies_sets f ps) (policySetName (polName p) f) a \<longleftrightarrow> in_policy p a" if p: "p \<in> set ps"
  proof -
    have "policyMembersSetName f \<noteq> policySetName (polName p) f" using mem [OF p] policySetName_members by metis
    then have "holds (policies_sets f ps) (policySetName (polName p) f) a \<longleftrightarrow>
        (\<exists>q \<in> set ps. polName q = polName p \<and> in_policy q a)"
      using p by (auto simp: holds_def policies_sets_def nftSet_def policySetName_inj in_policy_def list_ex_iff)
    also have "\<dots> \<longleftrightarrow> in_policy p a" using p one by blast
    finally show ?thesis .
  qed
  show "holds (policies_sets f ps) (policyMembersSetName f) a \<longleftrightarrow> (\<exists>p \<in> set ps. in_policy p a)" if "ps \<noteq> []"
    using mem that by (auto simp: holds_def policies_sets_def nftSet_def policySetName_members in_policy_def list_ex_iff)
qed

section \<open>The ruleset does what the options promise\<close>

lemma net_matches_prefix: "prefix_valid p \<Longrightarrow> net_matches (prefix_string (masked p)) a = prefix_contains p a"
  by (simp add: net_matches_def parse_prefix_string masked_valid)

lemma rules_accept:
  "rule_matches sets s d (rule4 ip x y v) \<longleftrightarrow> ip = keyword_of s \<and> operand_matches sets x s \<and> operand_matches sets y d"
  "rule_matches sets s d (source_rule ip x v) \<longleftrightarrow> ip = keyword_of s \<and> operand_matches sets x s"
  by (simp_all add: rule_matches_def rule4_def source_rule_def)

lemma rule_verdict [simp]: "rVerdict (rule4 ip x y v) = v" "rVerdict (source_rule ip x v) = v"
  "rKeyword (rule4 ip x y v) = ip" "rKeyword (source_rule ip x v) = ip"
  by (simp_all add: rule4_def source_rule_def)

lemma first_rule [simp]:
  "first_match sets s d [r] = (if rule_matches sets s d r then Some (rVerdict r) else None)"
  by (simp add: first_match_def)

lemma first_policies:
  assumes ps: "names_ok ps" "ps \<noteq> []" and k: "famKeyword f = keyword_of s"
    and sets: "\<And>n a. n \<in> insert (policyMembersSetName f) ((\<lambda>p. policySetName (polName p) f) ` set ps) \<Longrightarrow>
        holds sets n a = holds (policies_sets f ps) n a"
  shows "first_match sets s d (policies_rules options f cidr ps) =
     (if net_matches cidr s \<and> in_nets (addressesOfFamily (foServerAddresses options) f) d then Some Accept
      else if list_ex (\<lambda>p. (in_policy p s \<and> in_nets (polAllowedIPs p) d) \<or>
                          (\<not> famNat f \<and> in_nets (polAllowedIPs p) s \<and> in_policy p d)) ps then Some Accept
      else if list_ex (\<lambda>p. in_policy p s) ps then Some Reject else None)"
proof -
  have set: "operand_matches sets (NamedSet (policySetName (polName p) f)) a = in_policy p a" if "p \<in> set ps" for p a
    using sets [of "policySetName (polName p) f" a] holds_policies(1) [OF ps(1) that] that
    by (simp add: operand_NamedSet)
  have all: "operand_matches sets (NamedSet (policyMembersSetName f)) a = (\<exists>p \<in> set ps. in_policy p a)" for a
    using sets [of "policyMembersSetName f" a] holds_policies(2) [OF ps] by (simp add: operand_NamedSet)
  have server: "first_match sets s d (map (\<lambda>a. rule4 (famKeyword f) (Net cidr) (Net a) Accept) as) =
      (if net_matches cidr s \<and> in_nets as d then Some Accept else None)" for as
    by (subst first_match_same [where v = Accept]) (auto simp: rules_accept k in_nets_def list_ex_iff)
  have pol: "(\<exists>r \<in> set (policy_rules f p). rule_matches sets s d r) \<longleftrightarrow>
      (in_policy p s \<and> in_nets (polAllowedIPs p) d) \<or> (\<not> famNat f \<and> in_nets (polAllowedIPs p) s \<and> in_policy p d)"
    if "p \<in> set ps" for p
    by (cases "famNat f") (simp_all add: policy_rules_def Let_def rules_accept k set [OF that] in_nets_def list_ex_iff bex_Un)
  have "first_match sets s d (concat (map (policy_rules f) ps)) =
      (if \<exists>r \<in> set (concat (map (policy_rules f) ps)). rule_matches sets s d r then Some Accept else None)"
    by (rule first_match_same) (auto simp: policy_rules_def Let_def split: if_splits)
  also have "(\<exists>r \<in> set (concat (map (policy_rules f) ps)). rule_matches sets s d r) \<longleftrightarrow>
      (\<exists>p \<in> set ps. \<exists>r \<in> set (policy_rules f p). rule_matches sets s d r)" by auto
  finally have policies: "first_match sets s d (concat (map (policy_rules f) ps)) =
      (if list_ex (\<lambda>p. (in_policy p s \<and> in_nets (polAllowedIPs p) d) \<or>
                       (\<not> famNat f \<and> in_nets (polAllowedIPs p) s \<and> in_policy p d)) ps then Some Accept else None)"
    using pol by (simp add: list_ex_iff)
  have last: "first_match sets s d [source_rule (famKeyword f) (NamedSet (policyMembersSetName f)) Reject] =
      (if list_ex (\<lambda>p. in_policy p s) ps then Some Reject else None)"
    by (simp add: rules_accept all k list_ex_iff)
  show ?thesis
    unfolding policies_rules_def if_not_P [OF ps(2)] first_match_append server policies last
    by (simp only: option.case split: if_split) simp
qed

text \<open>The part of the chain that belongs to the family of a packet.\<close>

lemma first_family:
  assumes parts: "family_parts is_print options f = Inr p" and vpn: "parse_prefix (famCidr f) = Some vpn"
    and pols: "policiesOfFamily (foPolicies options) f = Inr ps" and ok: "names_ok ps" and k: "famKeyword f = keyword_of s"
    and sets: "\<And>n a. n \<in> insert (policyMembersSetName f) ((\<lambda>p. policySetName (polName p) f) ` set ps) \<Longrightarrow>
        holds sets n a = holds (policies_sets f ps) n a"
  shows "(case first_match sets s d (ptForward p) of None \<Rightarrow> Accept | Some v \<Rightarrow> v) = forward_spec options f vpn ps s d \<and>
     (first_match sets s d (ptForward p) = None \<longrightarrow> forward_spec options f vpn ps s d = Accept)"
proof -
  let ?c = "prefix_string (masked vpn)" and ?k = "famKeyword f"
  have v: "net_matches ?c a = prefix_contains vpn a" for a
    using net_matches_prefix [OF parse_prefix_valid [OF vpn]] .
  have iso: "first_match sets s d (if b then [rule4 ?k (Net ?c) (Net ?c) Reject] else []) =
      (if b \<and> prefix_contains vpn s \<and> prefix_contains vpn d then Some Reject else None)" for b
    by (simp add: rules_accept k v)
  have out: "first_match sets s d (map (\<lambda>n. rule4 ?k (Net ?c) (Net n) Accept) ns) =
      (if prefix_contains vpn s \<and> in_nets ns d then Some Accept else None)" for ns
    by (subst first_match_same [where v = Accept]) (auto simp: rules_accept k v in_nets_def list_ex_iff)
  have ret: "first_match sets s d (if b then [] else map (\<lambda>n. rule4 ?k (Net n) (Net ?c) Accept) ns) =
      (if \<not> b \<and> in_nets ns s \<and> prefix_contains vpn d then Some Accept else None)" for ns b
    by (subst first_match_same [where v = Accept])
      (auto simp: rules_accept k v in_nets_def list_ex_iff split: if_splits)
  have rest: "first_match sets s d [source_rule ?k (Net ?c) Reject] = (if prefix_contains vpn s then Some Reject else None)"
    by (simp add: rules_accept k v)
  have fwd: "ptForward p =
      (if foClientIsolation options then [rule4 (famKeyword f) (Net ?c) (Net ?c) Reject] else []) @
      policies_rules options f ?c ps @ map (\<lambda>n. rule4 (famKeyword f) (Net ?c) (Net n) Accept) (famAllowed f) @
      (if famNat f then [] else map (\<lambda>n. rule4 (famKeyword f) (Net n) (Net ?c) Accept) (famAllowed f)) @
      [source_rule (famKeyword f) (Net ?c) Reject]"
    using parts by (auto simp: family_parts_def vpn pols Let_def)
  define P where "P \<longleftrightarrow> list_ex (\<lambda>p. (in_policy p s \<and> in_nets (polAllowedIPs p) d) \<or>
      (\<not> famNat f \<and> in_nets (polAllowedIPs p) s \<and> in_policy p d)) ps"
  have pol: "first_match sets s d (policies_rules options f ?c ps) =
     (if ps \<noteq> [] \<and> prefix_contains vpn s \<and> in_nets (addressesOfFamily (foServerAddresses options) f) d then Some Accept
      else if P then Some Accept
      else if list_ex (\<lambda>p. in_policy p s) ps then Some Reject else None)"
    using first_policies [OF ok _ k sets] unfolding P_def by (cases "ps = []") (simp_all add: policies_rules_def v)
  show ?thesis
    unfolding fwd first_match_append iso pol out ret rest forward_spec_def Let_def P_def [symmetric]
    by (cases "ps = []") (simp_all split: option.splits if_splits)
qed

section \<open>Both families in one chain\<close>

lemma families_keywords:
  "distinct (map famKeyword (families options))" "f \<in> set (families options) \<Longrightarrow> famKeyword f \<in> {''ip'', ''ip6''}"
  by (auto simp: families_def split: if_splits)

lemma set_name_last:
  assumes "famKeyword f \<in> {''ip'', ''ip6''}"
  shows "last (policySetName p f) = last (famKeyword f)" "last (policyMembersSetName f) = last (famKeyword f)"
  using assms by (auto simp: policySetName_def policyMembersSetName_def)

lemma family_parts_shape:
  assumes "family_parts is_print options f = Inr p" "famKeyword f \<in> {''ip'', ''ip6''}"
  shows "r \<in> set (ptForward p) \<Longrightarrow> rKeyword r = famKeyword f"
    and "t \<in> set (ptSets p) \<Longrightarrow> last (setName t) = last (famKeyword f)"
  using assms set_name_last [OF assms(2)]
  by (auto simp: family_parts_def Let_def policies_rules_def policy_rules_def policies_sets_def nftSet_def
      split: option.splits sum.splits if_splits)

lemma collect_concat:
  assumes "collect_parts is_print options fs = Inr p"
  defines "part \<equiv> \<lambda>g. projr (family_parts is_print options g)"
  shows "(\<forall>g \<in> set fs. family_parts is_print options g = Inr (part g)) \<and>
     ptForward p = concat (map (\<lambda>g. ptForward (part g)) fs) \<and> ptSets p = concat (map (\<lambda>g. ptSets (part g)) fs)"
  using assms(1) unfolding part_def by (induction fs arbitrary: p) (auto split: sum.splits)

lemma first_match_concat:
  assumes "f \<in> set fs" "\<And>g. g \<in> set fs \<Longrightarrow> g \<noteq> f \<Longrightarrow> first_match sets s d (F g) = None" "distinct fs"
  shows "first_match sets s d (concat (map F fs)) = first_match sets s d (F f)"
  using assms
proof (induction fs)
  case (Cons g gs)
  have none: "first_match sets s d (concat (map F hs)) = None"
    if "\<And>h. h \<in> set hs \<Longrightarrow> first_match sets s d (F h) = None" for hs
    using that by (induction hs) (auto simp: first_match_append)
  show ?case
  proof (cases "g = f")
    case True
    then have "first_match sets s d (concat (map F gs)) = None" using Cons.prems by (intro none) auto
    then show ?thesis using True by (simp add: first_match_append split: option.splits)
  next
    case False
    then show ?thesis using Cons by (auto simp: first_match_append)
  qed
qed simp

lemma same_family:
  assumes "f \<in> set (families options)" "g \<in> set (families options)" "famKeyword f = famKeyword g"
  shows "f = g"
  using assms families_keywords(1) [of options] by (auto simp: distinct_map dest: inj_onD)

lemma last_keyword: "k \<in> {''ip'', ''ip6''} \<Longrightarrow> l \<in> {''ip'', ''ip6''} \<Longrightarrow> last k = last l \<Longrightarrow> k = l"
  by auto

lemma ruleset_family:
  assumes r: "ruleset_parts is_print options = Inr p" and f: "f \<in> set (families options)"
  obtains pf where "family_parts is_print options f = Inr pf"
    "\<And>sets s d. famKeyword f = keyword_of s \<Longrightarrow> first_match sets s d (ptForward p) = first_match sets s d (ptForward pf)"
    "\<And>n a. last n = last (famKeyword f) \<Longrightarrow> holds (ptSets p) n a = holds (ptSets pf) n a"
proof -
  let ?fs = "families options"
  define part where "part g = projr (family_parts is_print options g)" for g
  have c: "collect_parts is_print options ?fs = Inr p" using r by (auto simp: ruleset_parts_def split: if_splits)
  note cc = collect_concat [OF c, folded part_def]
  have g: "family_parts is_print options g = Inr (part g)" if "g \<in> set ?fs" for g using cc that by blast
  note shape = family_parts_shape [OF g families_keywords(2)]
  have dist: "distinct ?fs" using families_keywords(1) [of options] by (simp add: distinct_map)
  show thesis
  proof
    show "family_parts is_print options f = Inr (part f)" using g f by blast
    show "first_match sets s d (ptForward p) = first_match sets s d (ptForward (part f))"
      if "famKeyword f = keyword_of s" for sets s d
    proof -
      have "first_match sets s d (ptForward (part g)) = None" if "g \<in> set ?fs" "g \<noteq> f" for g
        by (rule first_match_other) (use shape(1) [OF that(1,1)] same_family [OF f that(1)] that(2) \<open>famKeyword f = keyword_of s\<close> in auto)
      then show ?thesis using cc first_match_concat [OF f _ dist] by simp
    qed
    show "holds (ptSets p) n a = holds (ptSets (part f)) n a" if n: "last n = last (famKeyword f)" for n a
    proof -
      have "g = f" if gm: "g \<in> set ?fs" and h: "holds (ptSets (part g)) n a" for g
      proof -
        obtain t where "t \<in> set (ptSets (part g))" "setName t = n" using h by (auto simp: holds_def)
        then have "last n = last (famKeyword g)" using shape(2) [OF gm gm] by blast
        then show ?thesis
          using last_keyword families_keywords(2) [OF f] families_keywords(2) [OF gm] n same_family [OF f gm] by metis
      qed
      moreover have "holds (concat (map (\<lambda>g. ptSets (part g)) hs)) n a \<longleftrightarrow> (\<exists>g \<in> set hs. holds (ptSets (part g)) n a)" for hs
        by (induction hs) (auto simp: holds_def)
      ultimately show ?thesis using cc f by metis
    qed
  qed
qed

lemma family_policies:
  assumes "family_parts is_print options f = Inr p" "parse_prefix (famCidr f) = Some vpn"
    and "policiesOfFamily (foPolicies options) f = Inr ps"
  shows "ptSets p = policies_sets f ps"
  using assms by (auto simp: family_parts_def Let_def)

lemma nft_refines:
  assumes r: "ruleset_parts is_print options = Inr p" and f: "f \<in> set (families options)"
    and vpn: "parse_prefix (famCidr f) = Some vpn" and pols: "policiesOfFamily (foPolicies options) f = Inr ps"
    and ok: "names_ok ps" and k: "famKeyword f = keyword_of s"
  shows "nft_verdict p s d = forward_spec options f vpn ps s d"
proof -
  obtain pf where pf: "family_parts is_print options f = Inr pf"
    "first_match (ptSets p) s d (ptForward p) = first_match (ptSets p) s d (ptForward pf)"
    "\<And>n a. last n = last (famKeyword f) \<Longrightarrow> holds (ptSets p) n a = holds (ptSets pf) n a"
    using ruleset_family [OF r f] k by metis
  have "holds (ptSets p) n a = holds (policies_sets f ps) n a"
    if "n \<in> insert (policyMembersSetName f) ((\<lambda>p. policySetName (polName p) f) ` set ps)" for n a
    using that pf(3) [of n a] set_name_last [OF families_keywords(2) [OF f]] family_policies [OF pf(1) vpn pols] by auto
  then show ?thesis
    using first_family [OF pf(1) vpn pols ok k] pf(2) by (simp add: nft_verdict_def)
qed

text \<open>The policies keep their names when they are reduced to a family.\<close>

lemma policiesOfFamily_names: "policiesOfFamily ps f = Inr qs \<Longrightarrow> map polName qs = map polName ps"
  by (induction ps arbitrary: qs) (auto split: if_splits sum.splits)

section \<open>iptables\<close>

text \<open>A rule of the forward chain of iptables, as its arguments.\<close>

fun ipt_matches :: "addr \<Rightarrow> addr \<Rightarrow> string list \<Rightarrow> bool" where
  "ipt_matches s d [a, x, b, y, c, v] = (a = ''-s'' \<and> b = ''-d'' \<and> net_matches x s \<and> net_matches y d)"
| "ipt_matches s d [a, x, c, v] = (a = ''-s'' \<and> net_matches x s)"
| "ipt_matches s d _ = False"

definition ipt_target :: "string list \<Rightarrow> verdict" where
  "ipt_target r = (if last r = ''ACCEPT'' then Accept else Reject)"

text \<open>A packet no rule matches returns to the built-in chain, whose rules are not this server's.\<close>

definition ipt_verdict :: "string list list \<Rightarrow> addr \<Rightarrow> addr \<Rightarrow> verdict" where
  "ipt_verdict rs s d = (case find (ipt_matches s d) rs of None \<Rightarrow> Accept | Some r \<Rightarrow> ipt_target r)"

text \<open>What the server relies on of \<^verbatim>\<open>go-iptables\<close>, for a view of the chains in the state: chains can be
  looked up, cleared and created, and a rule is appended unless the chain has it.\<close>

type_synonym chain_view = "protocol \<Rightarrow> string \<Rightarrow> string \<Rightarrow> string list list"

definition put :: "chain_view \<Rightarrow> protocol \<Rightarrow> string \<Rightarrow> string \<Rightarrow> string list list \<Rightarrow> chain_view" where
  "put v p tb c rs = (\<lambda>p' tb' c'. if p' = p \<and> tb' = tb \<and> c' = c then rs else v p' tb' c')"

definition append_unique :: "'a list \<Rightarrow> 'a \<Rightarrow> 'a list" where
  "append_unique xs x = (if x \<in> set xs then xs else xs @ [x])"

definition ipt_laws :: "'t ipt \<Rightarrow> ('t \<Rightarrow> chain_view) \<Rightarrow> bool" where
  "ipt_laws I view \<longleftrightarrow>
     (\<forall>p t. NewWithProtocol I p t = None) \<and>
     (\<forall>p tb c t. is_ok (ChainExists I p tb c t)) \<and>
     (\<forall>p tb c t. ChainExists I p tb c t = Inr True \<longrightarrow>
        fst (ClearChain I p tb c t) = None \<and> view (snd (ClearChain I p tb c t)) = put (view t) p tb c []) \<and>
     (\<forall>p tb c t. ChainExists I p tb c t = Inr False \<longrightarrow>
        fst (NewChain I p tb c t) = None \<and> view (snd (NewChain I p tb c t)) = put (view t) p tb c []) \<and>
     (\<forall>p tb c r t. fst (AppendUnique I p tb c r t) = None \<and>
        view (snd (AppendUnique I p tb c r t)) = put (view t) p tb c (append_unique (view t p tb c) r))"

lemma ipt_lawsD:
  assumes "ipt_laws I view"
  shows "NewWithProtocol I p t = None"
    "fst (clearOrCreateChain I p tb c t) = None \<and> view (snd (clearOrCreateChain I p tb c t)) = put (view t) p tb c []"
    "fst (AppendUnique I p tb c r t) = None"
    "view (snd (AppendUnique I p tb c r t)) = put (view t) p tb c (append_unique (view t p tb c) r)"
proof -
  show "NewWithProtocol I p t = None" "fst (AppendUnique I p tb c r t) = None"
    "view (snd (AppendUnique I p tb c r t)) = put (view t) p tb c (append_unique (view t p tb c) r)"
    using assms by (simp_all add: ipt_laws_def)
  have "is_ok (ChainExists I p tb c t)" using assms by (simp add: ipt_laws_def)
  then obtain b where b: "ChainExists I p tb c t = Inr b" by (cases "ChainExists I p tb c t") auto
  then show "fst (clearOrCreateChain I p tb c t) = None \<and> view (snd (clearOrCreateChain I p tb c t)) = put (view t) p tb c []"
    using assms by (cases b) (simp_all add: ipt_laws_def clearOrCreateChain_def wrapping_def case_prod_unfold)
qed

lemma append_step:
  assumes "ipt_laws I view"
  shows "fst (wrapping m (AppendUnique I p tb c r) t) = None"
    "view (snd (wrapping m (AppendUnique I p tb c r) t)) = put (view t) p tb c (append_unique (view t p tb c) r)"
  using ipt_lawsD(3,4) [OF assms] by (simp_all add: wrapping_def case_prod_unfold)

lemma all_steps_append:
  "all_steps (fs @ gs) t = (case all_steps fs t of (Some e, t') \<Rightarrow> (Some e, t') | (None, t') \<Rightarrow> all_steps gs t')"
  by (induction fs arbitrary: t) (auto split: prod.splits option.splits)

lemma all_steps_Cons: "fst (f t) = None \<Longrightarrow> all_steps (f # fs) t = all_steps fs (snd (f t))"
  by (cases "f t") auto

declare all_steps.simps(2) [simp del]

lemma append_rules:
  assumes "ipt_laws I view"
  shows "fst (all_steps (map (\<lambda>(m, r). wrapping m (AppendUnique I p tb c r)) rs) t) = None \<and>
     view (snd (all_steps (map (\<lambda>(m, r). wrapping m (AppendUnique I p tb c r)) rs) t)) =
       put (view t) p tb c (foldl append_unique (view t p tb c) (map snd rs))"
proof (induction rs arbitrary: t)
  case (Cons x rs)
  obtain m r where x: "x = (m, r)" by fastforce
  let ?t = "snd (wrapping m (AppendUnique I p tb c r) t)"
  have "view ?t = put (view t) p tb c (append_unique (view t p tb c) r)" using append_step [OF assms] by blast
  then have "put (view ?t) p tb c (foldl append_unique (view ?t p tb c) (map snd rs)) =
      put (view t) p tb c (foldl append_unique (append_unique (view t p tb c) r) (map snd rs))"
    by (simp add: put_def fun_eq_iff)
  then show ?case using Cons [of ?t] append_step(1) [OF assms, of m p tb c r t] by (simp add: x all_steps_Cons)
qed (simp add: put_def fun_eq_iff)

lemma put_put [simp]: "put v p tb c rs p tb c = rs"
  by (simp add: put_def)

lemma put_other: "(p, tb, c) \<noteq> (p', tb', c') \<Longrightarrow> put v p tb c rs p' tb' c' = v p' tb' c'"
  by (auto simp: put_def)

text \<open>The forward chain of one family after it was set up, and every other family left alone.\<close>

lemma chain_names: "forwardChain \<noteq> ''FORWARD''" "postroutingChain \<noteq> ''POSTROUTING''" "''filter'' \<noteq> ''nat''"
  by (simp_all add: forwardChain_def postroutingChain_def)

lemma configure_family:
  assumes laws: "ipt_laws I view"
  shows "fst (configureIPTablesFamily I options f t) = None \<and>
     view (snd (configureIPTablesFamily I options f t)) (famProtocol f) ''filter'' forwardChain =
       foldl append_unique [] (map snd (forward_rules options f)) \<and>
     (\<forall>p tb c. p \<noteq> famProtocol f \<longrightarrow> view (snd (configureIPTablesFamily I options f t)) p tb c = view t p tb c)"
proof -
  let ?p = "famProtocol f"
  define t1 where "t1 = snd (clearOrCreateChain I ?p ''filter'' forwardChain t)"
  define t2 where "t2 = snd (clearOrCreateChain I ?p ''nat'' postroutingChain t1)"
  define t3 where "t3 = snd (wrapping ''failed to append FORWARD rule to filter chain'' (AppendUnique I ?p ''filter'' ''FORWARD'' [''-j'', forwardChain]) t2)"
  define t4 where "t4 = snd (wrapping ''failed to append POSTROUTING rule to nat chain'' (AppendUnique I ?p ''nat'' ''POSTROUTING'' [''-j'', postroutingChain]) t3)"
  let ?rs = "map (\<lambda>(m, r). wrapping m (AppendUnique I ?p ''filter'' forwardChain r)) (forward_rules options f)"
  define t5 where "t5 = snd (all_steps ?rs t4)"
  let ?gw = "if foGatewayIface options \<noteq> [] \<and> famNat f
      then [wrapping ''failed to set ip tables rule'' (AppendUnique I ?p ''nat'' postroutingChain
              [''-s'', famCidr f, ''-o'', foGatewayIface options, ''-j'', ''MASQUERADE''])] else []"
  have v: "view t1 = put (view t) ?p ''filter'' forwardChain []" "view t2 = put (view t1) ?p ''nat'' postroutingChain []"
    "view t3 = put (view t2) ?p ''filter'' ''FORWARD'' (append_unique (view t2 ?p ''filter'' ''FORWARD'') [''-j'', forwardChain])"
    "view t4 = put (view t3) ?p ''nat'' ''POSTROUTING'' (append_unique (view t3 ?p ''nat'' ''POSTROUTING'') [''-j'', postroutingChain])"
    "view t5 = put (view t4) ?p ''filter'' forwardChain (foldl append_unique (view t4 ?p ''filter'' forwardChain) (map snd (forward_rules options f)))"
    unfolding t1_def t2_def t3_def t4_def t5_def
    using ipt_lawsD(2) [OF laws] append_step(2) [OF laws] append_rules [OF laws] by blast+
  have four: "view t4 ?p ''filter'' forwardChain = []"
    using chain_names unfolding v(1-4) by (simp add: put_def)
  have run: "configureIPTablesFamily I options f t = all_steps ?gw t5"
    unfolding configureIPTablesFamily_def ipt_lawsD(1) [OF laws] option.case append.simps
    using ipt_lawsD(2) [OF laws] append_step(1) [OF laws] append_rules [OF laws, of ?p "''filter''" forwardChain "forward_rules options f"]
    by (simp add: all_steps_Cons all_steps_append t1_def [symmetric] t2_def [symmetric] t3_def [symmetric] t4_def [symmetric]
        t5_def case_prod_unfold split: option.splits)
  have gw: "fst (all_steps ?gw t5) = None \<and> view (snd (all_steps ?gw t5)) ?p ''filter'' forwardChain = view t5 ?p ''filter'' forwardChain \<and>
      (\<forall>p tb c. p \<noteq> ?p \<longrightarrow> view (snd (all_steps ?gw t5)) p tb c = view t5 p tb c)"
    using append_step [OF laws] by (auto simp: all_steps_Cons put_def)
  show ?thesis unfolding run using gw by (simp add: v(5) four) (simp add: v put_def)
qed

lemma families_protocols: "distinct (map famProtocol (families options))"
  by (auto simp: families_def)

lemma configure_families:
  assumes laws: "ipt_laws I view" and "distinct (map famProtocol fs)"
  shows "fst (all_steps (map (configureIPTablesFamily I options) fs) t) = None \<and>
     (\<forall>f \<in> set fs. view (snd (all_steps (map (configureIPTablesFamily I options) fs) t)) (famProtocol f) ''filter'' forwardChain =
        foldl append_unique [] (map snd (forward_rules options f))) \<and>
     (\<forall>p tb c. p \<notin> set (map famProtocol fs) \<longrightarrow>
        view (snd (all_steps (map (configureIPTablesFamily I options) fs) t)) p tb c = view t p tb c)"
  using assms(2)
proof (induction fs arbitrary: t)
  case (Cons f fs)
  let ?t = "snd (configureIPTablesFamily I options f t)"
  note one = configure_family [OF laws, of options f t]
  have run: "all_steps (map (configureIPTablesFamily I options) (f # fs)) t = all_steps (map (configureIPTablesFamily I options) fs) ?t"
    using one by (simp add: all_steps_Cons)
  show ?case unfolding run using Cons.IH [of ?t] Cons.prems one by auto
qed simp

lemma find_append_cases: "find P (xs @ ys) = (case find P xs of None \<Rightarrow> find P ys | Some x \<Rightarrow> Some x)"
  by (induction xs) auto

lemma find_append_unique: "find P (foldl append_unique acc xs) = find P (acc @ xs)"
proof (induction xs arbitrary: acc)
  case (Cons x xs)
  have "find P (append_unique acc x @ xs) = find P (acc @ x # xs)"
  proof (cases "x \<in> set acc")
    case True
    have "find P (acc @ x # xs) = find P (acc @ xs)"
    proof (cases "find P acc")
      case None
      then have "\<not> P x" using True by (auto simp: find_None_iff)
      then show ?thesis using None by (simp add: find_append_cases)
    qed (simp add: find_append_cases)
    then show ?thesis using True by (simp add: append_unique_def)
  qed (simp add: append_unique_def)
  then show ?case using Cons [of "append_unique acc x"] by simp
qed simp

text \<open>The decision of the iptables chain, which knows no policies.\<close>

definition first_target :: "addr \<Rightarrow> addr \<Rightarrow> string list list \<Rightarrow> verdict option" where
  "first_target s d rs = map_option ipt_target (find (ipt_matches s d) rs)"

lemma first_target_append:
  "first_target s d (xs @ ys) = (case first_target s d xs of None \<Rightarrow> first_target s d ys | Some v \<Rightarrow> Some v)"
  by (induction xs) (auto simp: first_target_def)

lemma first_target_accepts:
  assumes "\<And>r. r \<in> set rs \<Longrightarrow> ipt_target r = v"
  shows "first_target s d rs = (if \<exists>r \<in> set rs. ipt_matches s d r then Some v else None)"
proof (cases "find (ipt_matches s d) rs")
  case None
  then show ?thesis by (auto simp: first_target_def find_None_iff)
next
  case (Some r)
  then have "r \<in> set rs" "ipt_matches s d r" by (auto simp: find_Some_iff)
  then show ?thesis using Some assms by (auto simp: first_target_def)
qed

lemma ipt_refines:
  assumes vpn: "parse_prefix (famCidr f) = Some vpn"
  shows "ipt_verdict (foldl append_unique [] (map snd (forward_rules options f))) s d = forward_spec options f vpn [] s d"
proof -
  have v: "net_matches (famCidr f) a = prefix_contains vpn a" for a by (simp add: net_matches_def vpn)
  have iso: "first_target s d (map snd (if b then [(m, [''-s'', famCidr f, ''-d'', famCidr f, ''-j'', ''REJECT''])] else [])) =
      (if b \<and> prefix_contains vpn s \<and> prefix_contains vpn d then Some Reject else None)" for b and m :: string
    by (simp add: first_target_def v ipt_target_def)
  have out: "first_target s d (map snd (map (\<lambda>a. (m, [''-s'', famCidr f, ''-d'', a, ''-j'', ''ACCEPT''])) ns)) =
      (if prefix_contains vpn s \<and> in_nets ns d then Some Accept else None)" for ns and m :: string
    by (subst first_target_accepts [where v = Accept]) (auto simp: ipt_target_def v in_nets_def list_ex_iff)
  have ret: "first_target s d (map snd (if b then [] else map (\<lambda>a. (m, [''-s'', a, ''-d'', famCidr f, ''-j'', ''ACCEPT''])) ns)) =
      (if \<not> b \<and> in_nets ns s \<and> prefix_contains vpn d then Some Accept else None)" for ns b and m :: string
    by (subst first_target_accepts [where v = Accept]) (auto simp: ipt_target_def v in_nets_def list_ex_iff split: if_splits)
  have rest: "first_target s d (map snd [(m, [''-s'', famCidr f, ''-j'', ''REJECT''])]) =
      (if prefix_contains vpn s then Some Reject else None)" for m :: string
    by (simp add: first_target_def v ipt_target_def)
  have run: "ipt_verdict (foldl append_unique [] rs) s d = (case first_target s d rs of None \<Rightarrow> Accept | Some w \<Rightarrow> w)" for rs
    by (simp add: ipt_verdict_def first_target_def find_append_unique split: option.splits)
  show ?thesis
    unfolding run forward_rules_def map_append first_target_append iso out ret rest forward_spec_def Let_def
    by simp
qed

end
