(* ===== verification/Firewall_Properties.thy ===== *)
theory Firewall_Properties
  imports Firewall_Semantics
begin

text \<open>
  What the forwarding rules guarantee: the nftables ruleset decides every forwarded packet as the specification
  does, members of a policy are confined to it, both backends agree where there are no policies, and
  networks that do not parse are refused before any rule is touched.
\<close>

section \<open>The ruleset against the specification\<close>

text \<open>
  C15. Provided that no two policies have the same name and none is called \<^verbatim>\<open>members\<close> (for such a policy C18 shows
  that it does not hold), the first matching rule of the nftables forward chain gives every packet of a configured
  address family the verdict of the specification \<^const>\<open>forward_spec\<close>, whatever the networks, policies and
  members are.
\<close>

theorem nft_ruleset_refines:
  assumes "ruleset_parts is_print options = Inr p" "f \<in> set (families options)" "parse_prefix (famCidr f) = Some vpn"
    and "policiesOfFamily (foPolicies options) f = Inr ps" "names_ok (foPolicies options)" "famKeyword f = keyword_of s"
  shows "nft_verdict p s d = forward_spec options f vpn ps s d"
proof (rule nft_refines [OF assms(1-4) _ assms(6)])
  show "names_ok ps" using assms(5) by (simp add: names_ok_def policiesOfFamily_names [OF assms(4)])
qed

definition office :: forwarding_options where
  "office = \<lparr>foGatewayIface = [], foCIDR = ''10.44.0.0/24'', foCIDRv6 = [], foNAT44 = True, foNAT66 = True,
     foClientIsolation = True, foAllowedIPs = [''0.0.0.0/0''], foAllowedIPv4s = [''0.0.0.0/0''], foAllowedIPv6s = [],
     foPolicies = [\<lparr>polName = ''staff'', polAllowedIPs = [''192.168.5.0/24''], polMembers = [''10.44.0.2/32'']\<rparr>],
     foServerAddresses = [''10.44.0.1''], foFirewall = FirewallNftables\<rparr>"

definition office_family :: family where
  "office_family = \<lparr>famProtocol = ProtocolIPv4, famKeyword = ''ip'', famCidr = ''10.44.0.0/24'',
     famAllowed = [''0.0.0.0/0''], famNat = True\<rparr>"

definition office_parts :: nft_parts where
  "office_parts = \<lparr>
     ptSets = [\<lparr>setName = ''policy_staff_ip'', setKind = ''ipv4_addr'', setElements = [''10.44.0.2'']\<rparr>,
               \<lparr>setName = ''policy_members_ip'', setKind = ''ipv4_addr'', setElements = [''10.44.0.2'']\<rparr>],
     ptForward =
       [rule4 ''ip'' (Net ''10.44.0.0/24'') (Net ''10.44.0.0/24'') Reject,
        rule4 ''ip'' (Net ''10.44.0.0/24'') (Net ''10.44.0.1'') Accept,
        rule4 ''ip'' (NamedSet ''policy_staff_ip'') (Net ''192.168.5.0/24'') Accept,
        source_rule ''ip'' (NamedSet ''policy_members_ip'') Reject,
        rule4 ''ip'' (Net ''10.44.0.0/24'') (Net ''0.0.0.0/0'') Accept,
        source_rule ''ip'' (Net ''10.44.0.0/24'') Reject],
     ptPostrouting = []\<rparr>"

text \<open>The facts of the example the witnesses share.\<close>

lemma office_facts:
  "ruleset_parts (\<lambda>_. True) office = Inr office_parts"
  "office_family \<in> set (families office)" "famNat office_family"
  "parse_prefix (famCidr office_family) = Some (Prefix (V4 170655744) 24)"
  "policiesOfFamily (foPolicies office) office_family =
     Inr [\<lparr>polName = ''staff'', polAllowedIPs = [''192.168.5.0/24''], polMembers = [''10.44.0.2'']\<rparr>]"
  "names_ok (foPolicies office)" "famKeyword office_family = keyword_of (V4 170655746)"
  by code_simp+

theorem nft_ruleset_refines_witness:
  "nft_verdict office_parts (V4 170655746) (V4 3232236801) =
     forward_spec office office_family (Prefix (V4 170655744) 24)
       [\<lparr>polName = ''staff'', polAllowedIPs = [''192.168.5.0/24''], polMembers = [''10.44.0.2'']\<rparr>]
       (V4 170655746) (V4 3232236801)"
  by (rule nft_ruleset_refines [OF office_facts(1,2,4,5,6,7)])

section \<open>Confinement of the members of a policy\<close>

text \<open>
  With address translation on, a packet of a device that is in at least one access policy is accepted only
  when it goes to an address of the server or to a network of a policy the device is in: the networks
  everybody may reach do not count for it.
\<close>

theorem policy_confinement:
  assumes "ruleset_parts is_print options = Inr p" "f \<in> set (families options)" "parse_prefix (famCidr f) = Some vpn"
    and "policiesOfFamily (foPolicies options) f = Inr ps" "names_ok (foPolicies options)" "famKeyword f = keyword_of s"
    and "famNat f" "\<exists>q \<in> set ps. in_policy q s" "nft_verdict p s d = Accept"
  shows "in_nets (addressesOfFamily (foServerAddresses options) f) d \<or>
     (\<exists>q \<in> set ps. in_policy q s \<and> in_nets (polAllowedIPs q) d)"
proof -
  have "names_ok ps" using assms(5) by (simp add: names_ok_def policiesOfFamily_names [OF assms(4)])
  then have "forward_spec options f vpn ps s d = Accept"
    using nft_refines [OF assms(1-4) _ assms(6)] assms(9) by metis
  then show ?thesis
    using assms(7,8) by (auto simp: forward_spec_def Let_def list_ex_iff split: if_splits)
qed

theorem policy_confinement_witness:
  "in_nets (addressesOfFamily (foServerAddresses office) office_family) (V4 3232236801) \<or>
     (\<exists>q \<in> set [\<lparr>polName = ''staff'', polAllowedIPs = [''192.168.5.0/24''], polMembers = [''10.44.0.2'']\<rparr>].
        in_policy q (V4 170655746) \<and> in_nets (polAllowedIPs q) (V4 3232236801))"
proof (rule policy_confinement [OF office_facts(1,2,4,5,6,7,3)])
  show "\<exists>q \<in> set [\<lparr>polName = ''staff'', polAllowedIPs = [''192.168.5.0/24''], polMembers = [''10.44.0.2'']\<rparr>].
     in_policy q (V4 170655746)" by code_simp
  show "nft_verdict office_parts (V4 170655746) (V4 3232236801) = Accept" by code_simp
qed

text \<open>The rules before the last of a family's policies only accept.\<close>

lemma policies_accept:
  assumes "r \<in> set (policy_rules f q)" "q \<in> set ps" "rule_matches sets s d r"
  shows "first_match sets s d (policies_rules options f cidr ps) = Some Accept"
proof -
  let ?acc = "map (\<lambda>a. rule4 (famKeyword f) (Net cidr) (Net a) Accept) (addressesOfFamily (foServerAddresses options) f) @
    concat (map (policy_rules f) ps)"
  have "first_match sets s d ?acc = (if \<exists>r \<in> set ?acc. rule_matches sets s d r then Some Accept else None)"
    by (rule first_match_same) (auto simp: policy_rules_def Let_def split: if_splits)
  moreover have "r \<in> set ?acc" using assms(1,2) by auto
  ultimately have acc: "first_match sets s d ?acc = Some Accept" using assms(3) by auto
  have rules: "policies_rules options f cidr ps = ?acc @ [source_rule (famKeyword f) (NamedSet (policyMembersSetName f)) Reject]"
    using assms(2) by (auto simp: policies_rules_def)
  show ?thesis by (simp only: rules first_match_append [of sets s d ?acc] acc option.case)
qed

lemma holds_member:
  assumes "p \<in> set ps" "in_policy p a"
  shows "holds (policies_sets f ps) (policyMembersSetName f) a"
proof -
  have "nftSet (policyMembersSetName f) f (concat (map polMembers ps)) \<in> set (policies_sets f ps)"
    using assms(1) by (auto simp: policies_sets_def)
  moreover have "\<exists>e \<in> set (concat (map polMembers ps)). parse_addr e = Some a"
    using assms by (auto simp: in_policy_def list_ex_iff)
  ultimately show ?thesis unfolding holds_def by (force simp: nftSet_def)
qed

text \<open>
  C18. The condition on the names in C15 is needed.  A policy may be called \<^verbatim>\<open>members\<close>: the name passes the validation,
  and the policy's set is then the set of everybody who is in any policy.  With such a policy, whatever else is
  configured, a device that is in some policy is let through to every network of the policy \<^verbatim>\<open>members\<close>, unless
  isolation between clients forbids it first; and where that network is neither an address of the server nor one
  of a policy the device is in (with address translation on), the specification refuses that very packet.
\<close>

theorem members_policy_leaks:
  assumes "ruleset_parts is_print options = Inr p" "f \<in> set (families options)" "parse_prefix (famCidr f) = Some vpn"
    and "policiesOfFamily (foPolicies options) f = Inr ps" "famKeyword f = keyword_of s"
    and "q \<in> set ps" "polName q = ''members''" "in_nets (polAllowedIPs q) d"
    and "own \<in> set ps" "in_policy own s" "\<not> (foClientIsolation options \<and> prefix_contains vpn s \<and> prefix_contains vpn d)"
  shows "ValidPolicyName (polName q) \<and> nft_verdict p s d = Accept \<and>
    (famNat f \<and> \<not> in_nets (addressesOfFamily (foServerAddresses options) f) d \<and>
       (\<forall>r \<in> set ps. in_policy r s \<longrightarrow> \<not> in_nets (polAllowedIPs r) d) \<longrightarrow>
     forward_spec options f vpn ps s d = Reject)"
proof -
  obtain pf where pf: "family_parts is_print options f = Inr pf"
    "first_match (ptSets p) s d (ptForward p) = first_match (ptSets p) s d (ptForward pf)"
    "\<And>n a. last n = last (famKeyword f) \<Longrightarrow> holds (ptSets p) n a = holds (ptSets pf) n a"
    using ruleset_family [OF assms(1,2)] assms(5) by metis
  let ?c = "prefix_string (masked vpn)" and ?set = "policySetName (polName q) f"
  have v: "net_matches ?c a = prefix_contains vpn a" for a using net_matches_prefix [OF parse_prefix_valid [OF assms(3)]] .
  have name: "?set = policyMembersSetName f" using assms(7) by (simp add: policySetName_members)
  have "holds (ptSets p) ?set s"
    using pf(3) [of ?set s] set_name_last [OF families_keywords(2) [OF assms(2)]] family_policies [OF pf(1) assms(3,4)]
      holds_member [OF assms(9,10)] name by simp
  moreover obtain n where n: "n \<in> set (polAllowedIPs q)" "net_matches n d" using assms(8) by (auto simp: in_nets_def list_ex_iff)
  ultimately have m: "rule_matches (ptSets p) s d (rule4 (famKeyword f) (NamedSet ?set) (Net n) Accept)"
    by (simp add: rules_accept assms(5) operand_NamedSet)
  have rule: "rule4 (famKeyword f) (NamedSet ?set) (Net n) Accept \<in> set (policy_rules f q)"
    using n(1) by (simp add: policy_rules_def Let_def)
  note pol = policies_accept [OF rule assms(6) m, of options ?c]
  have iso: "first_match (ptSets p) s d (if foClientIsolation options then [rule4 (famKeyword f) (Net ?c) (Net ?c) Reject] else []) = None"
    using assms(11) by (auto simp: rules_accept assms(5) v)
  have "first_match (ptSets p) s d (ptForward pf) = Some Accept"
    using pf(1) by (auto simp: family_parts_def assms(3,4) Let_def first_match_append iso pol)
  then have "nft_verdict p s d = Accept" using pf(2) by (simp add: nft_verdict_def)
  moreover have "forward_spec options f vpn ps s d = Reject"
    if "famNat f" "\<not> in_nets (addressesOfFamily (foServerAddresses options) f) d"
      "\<forall>r \<in> set ps. in_policy r s \<longrightarrow> \<not> in_nets (polAllowedIPs r) d"
    using that assms(9,10) by (auto simp: forward_spec_def Let_def list_ex_iff)
  ultimately show ?thesis using members_policy_valid assms(7) by simp
qed

text \<open>Device 10.44.0.2 is only in the policy staff, and reaches a network of the other one.\<close>

definition members_office :: forwarding_options where
  "members_office = office\<lparr>foPolicies :=
     [\<lparr>polName = ''members'', polAllowedIPs = [''192.168.9.0/24''], polMembers = [''10.44.0.3/32'']\<rparr>,
      \<lparr>polName = ''staff'', polAllowedIPs = [''192.168.5.0/24''], polMembers = [''10.44.0.2/32'']\<rparr>]\<rparr>"

definition members_policies :: "policy list" where
  "members_policies =
     [\<lparr>polName = ''members'', polAllowedIPs = [''192.168.9.0/24''], polMembers = [''10.44.0.3'']\<rparr>,
      \<lparr>polName = ''staff'', polAllowedIPs = [''192.168.5.0/24''], polMembers = [''10.44.0.2'']\<rparr>]"

lemma members_facts:
  "is_ok (ruleset_parts (\<lambda>_. True) members_office)" "office_family \<in> set (families members_office)"
  "policiesOfFamily (foPolicies members_office) office_family = Inr members_policies"
  "in_nets (polAllowedIPs (members_policies ! 0)) (V4 3232237825)" "in_policy (members_policies ! 1) (V4 170655746)"
  "\<not> (foClientIsolation members_office \<and> prefix_contains (Prefix (V4 170655744) 24) (V4 170655746) \<and>
      prefix_contains (Prefix (V4 170655744) 24) (V4 3232237825))"
  "\<not> in_nets (addressesOfFamily (foServerAddresses members_office) office_family) (V4 3232237825)"
  "list_all (\<lambda>r. in_policy r (V4 170655746) \<longrightarrow> \<not> in_nets (polAllowedIPs r) (V4 3232237825)) members_policies"
  by code_simp+

theorem members_policy_leaks_witness:
  "\<exists>p. ruleset_parts (\<lambda>_. True) members_office = Inr p \<and> nft_verdict p (V4 170655746) (V4 3232237825) = Accept \<and>
     forward_spec members_office office_family (Prefix (V4 170655744) 24) members_policies (V4 170655746) (V4 3232237825) = Reject"
proof -
  obtain p where p: "ruleset_parts (\<lambda>_. True) members_office = Inr p" using members_facts(1) by (auto simp: is_ok_def split: sum.splits)
  have q: "members_policies ! 0 \<in> set members_policies" "polName (members_policies ! 0) = ''members''"
    "members_policies ! 1 \<in> set members_policies" by (simp_all add: members_policies_def)
  note leak = members_policy_leaks [OF p members_facts(2) office_facts(4) members_facts(3) office_facts(7) q(1,2)
      members_facts(4) q(3) members_facts(5,6)]
  show ?thesis using p leak office_facts(3) members_facts(7,8) by (auto simp: list_all_iff)
qed

section \<open>Both backends decide alike\<close>

text \<open>
  C17. Without policies the two backends are equivalent: once the iptables backend has set up its chains, its
  forward chain gives every packet of a configured family the verdict the nftables ruleset gives it. The laws
  of \<^const>\<open>ipt_laws\<close> are those of an installed iptables whose commands succeed.
\<close>

theorem backends_agree:
  assumes "ipt_laws I view" "ruleset_parts is_print options = Inr p" "foPolicies options = []"
    and "f \<in> set (families options)" "parse_prefix (famCidr f) = Some vpn" "famKeyword f = keyword_of s"
  shows "fst (configureIPTables I options t) = None \<and>
     ipt_verdict (view (snd (configureIPTables I options t)) (famProtocol f) ''filter'' forwardChain) s d = nft_verdict p s d"
proof -
  have "view (snd (configureIPTables I options t)) (famProtocol f) ''filter'' forwardChain =
      foldl append_unique [] (map snd (forward_rules options f))" "fst (configureIPTables I options t) = None"
    using configure_families [OF assms(1) families_protocols] assms(4) by (auto simp: configureIPTables_def)
  moreover have "nft_verdict p s d = forward_spec options f vpn [] s d"
    by (rule nft_refines [OF assms(2,4,5) _ _ assms(6)]) (simp_all add: assms(3) names_ok_def)
  ultimately show ?thesis using ipt_refines [OF assms(5)] by simp
qed

text \<open>Tables in memory that behave as the laws say.\<close>

type_synonym tables = "protocol \<times> string \<times> string \<Rightarrow> string list list option"

definition chains_of :: "tables \<Rightarrow> chain_view" where
  "chains_of t p tb c = (case t (p, tb, c) of None \<Rightarrow> [] | Some rs \<Rightarrow> rs)"

definition memory_tables :: "tables ipt" where
  "memory_tables = \<lparr>NewWithProtocol = (\<lambda>p t. None), ChainExists = (\<lambda>p tb c t. Inr (t (p, tb, c) \<noteq> None)),
     ClearChain = (\<lambda>p tb c t. (None, t((p, tb, c) \<mapsto> []))), NewChain = (\<lambda>p tb c t. (None, t((p, tb, c) \<mapsto> []))),
     AppendUnique = (\<lambda>p tb c r t. (None, t((p, tb, c) \<mapsto> append_unique (chains_of t p tb c) r))),
     DeleteIfExists = (\<lambda>p tb c r t. (None, t((p, tb, c) \<mapsto> removeAll r (chains_of t p tb c)))),
     ClearAndDeleteChain = (\<lambda>p tb c t. (None, t((p, tb, c) := None)))\<rparr>"

lemma memory_tables_laws: "ipt_laws memory_tables chains_of"
  by (auto simp: ipt_laws_def memory_tables_def put_def chains_of_def is_ok_def fun_eq_iff)

theorem backends_agree_witness:
  "case ruleset_parts (\<lambda>_. True) (office\<lparr>foPolicies := []\<rparr>) of
     Inr p \<Rightarrow> ipt_verdict (chains_of (snd (configureIPTables memory_tables (office\<lparr>foPolicies := []\<rparr>) Map.empty))
         (famProtocol office_family) ''filter'' forwardChain) (V4 170655746) (V4 3232236801) =
       nft_verdict p (V4 170655746) (V4 3232236801)
   | Inl _ \<Rightarrow> False"
proof -
  have "is_ok (ruleset_parts (\<lambda>_. True) (office\<lparr>foPolicies := []\<rparr>))" by code_simp
  then obtain p where p: "ruleset_parts (\<lambda>_. True) (office\<lparr>foPolicies := []\<rparr>) = Inr p"
    by (auto simp: is_ok_def split: sum.splits)
  have "families (office\<lparr>foPolicies := []\<rparr>) = families office" by (simp add: families_def)
  then show ?thesis
    using backends_agree [OF memory_tables_laws p _ _ office_facts(4,7), of Map.empty "V4 3232236801"] office_facts(2) p by simp
qed

section \<open>Networks that do not parse\<close>

lemma split_loop_error:
  "c \<in> set cs \<Longrightarrow> ParseCIDR c = None \<Longrightarrow> \<exists>e. split_loop cs acc = Inl e"
  by (induction cs acc rule: split_loop.induct) (auto split: option.splits)

text \<open>
  With a firewall configured, an allowed network that is no CIDR makes \<^const>\<open>ConfigureForwarding\<close>
  fail, and no rule of either backend has been touched by then.
\<close>

theorem invalid_networks_refused:
  assumes "foFirewall options \<noteq> FirewallNone" "c \<in> set (foAllowedIPs options)" "ParseCIDR c = None"
  shows "\<exists>e. ConfigureForwarding is_print I has_nft runNft options t = (Some e, t)"
  using split_loop_error [OF assms(2,3), of "([], [])"] assms(1)
  by (auto simp: ConfigureForwarding_def splitAllowedIPs_def)

theorem invalid_networks_refused_witness:
  "\<exists>e. ConfigureForwarding (\<lambda>_. True) memory_tables True (\<lambda>ruleset t. (None, t))
     (office\<lparr>foAllowedIPs := [''10.0.0.0/8'', ''10.0.0.0'']\<rparr>) Map.empty = (Some e, Map.empty)"
  by (rule invalid_networks_refused [where c = "''10.0.0.0''"]) (simp add: office_def, code_simp, simp, code_simp)

end
