(* ===== verification/Go_Crypto.thy ===== *)
theory Go_Crypto
  imports Go_Quote "HOL-Library.Word"
begin

text \<open>
  The parts of Go's standard library the account code computes with: SHA-1, HMAC, SHA-256
  (\<^verbatim>\<open>crypto\<close>), base32, base64 and hexadecimal (\<^verbatim>\<open>encoding\<close>), and \<^verbatim>\<open>strings.ToUpper\<close>.  Bytes are words of
  their width, a Go string is its bytes.
\<close>

unbundle bit_operations_syntax

type_synonym bytes = "8 word list"

definition bytes_of :: "string \<Rightarrow> bytes" where
  "bytes_of s = map of_char s"

definition string_of :: "bytes \<Rightarrow> string" where
  "string_of bs = map (\<lambda>b. char_of (unat b)) bs"

lemma length_bytes_of [simp]: "length (bytes_of s) = length s"
  by (simp add: bytes_of_def)

section \<open>Big endian numbers\<close>

definition put_uint64 :: "64 word \<Rightarrow> bytes" where
  "put_uint64 n = map (\<lambda>i. ucast (drop_bit (8 * i) n)) [7, 6, 5, 4, 3, 2, 1, 0]"

definition put_uint32 :: "32 word \<Rightarrow> bytes" where
  "put_uint32 n = map (\<lambda>i. ucast (drop_bit (8 * i) n)) [3, 2, 1, 0]"

definition uint32_of :: "bytes \<Rightarrow> 32 word" where
  "uint32_of bs = foldl (\<lambda>a b. push_bit 8 a OR ucast b) 0 bs"

lemma length_put [simp]: "length (put_uint64 n) = 8" "length (put_uint32 m) = 4"
  by (simp_all add: put_uint64_def put_uint32_def)

section \<open>The hash functions\<close>

text \<open>Both hash functions cut the padded message into blocks of 64 bytes.\<close>

definition sha_pad :: "bytes \<Rightarrow> bytes" where
  "sha_pad m = m @ [0x80] @ replicate ((119 - length m mod 64) mod 64) 0 @ put_uint64 (of_nat (8 * length m))"

function chunks :: "nat \<Rightarrow> 'a list \<Rightarrow> 'a list list" where
  "chunks k xs = (if k = 0 \<or> xs = [] then [] else take k xs # chunks k (drop k xs))"
  by pat_completeness auto
termination
  by (relation "measure (\<lambda>(k, xs). length xs)") auto

declare chunks.simps [simp del]

definition block_words :: "bytes \<Rightarrow> 32 word list" where
  "block_words b = map uint32_of (chunks 4 b)"

definition rotl :: "nat \<Rightarrow> 32 word \<Rightarrow> 32 word" where
  "rotl k x = push_bit k x OR drop_bit (32 - k) x"

abbreviation rotr :: "nat \<Rightarrow> 32 word \<Rightarrow> 32 word" where
  "rotr k x \<equiv> rotl (32 - k) x"

text \<open>The schedule grows at the front: the newest word comes first.\<close>

definition sha1_schedule :: "32 word list \<Rightarrow> 32 word list" where
  "sha1_schedule ws =
     foldl (\<lambda>ws i. rotl 1 (ws ! 2 XOR ws ! 7 XOR ws ! 13 XOR ws ! 15) # ws) ws [0..<64]"

type_synonym sha1_state = "32 word \<times> 32 word \<times> 32 word \<times> 32 word \<times> 32 word"

fun sha1_round :: "sha1_state \<Rightarrow> nat \<times> 32 word \<Rightarrow> sha1_state" where
  "sha1_round (a, b, c, d, e) (t, w) =
     (let (f, k) =
        (if t < 20 then ((b AND c) OR (NOT b AND d), 0x5A827999)
         else if t < 40 then (b XOR c XOR d, 0x6ED9EBA1)
         else if t < 60 then ((b AND c) OR (b AND d) OR (c AND d), 0x8F1BBCDC)
         else (b XOR c XOR d, 0xCA62C1D6)) in
      (rotl 5 a + f + e + k + w, a, rotl 30 b, c, d))"

definition sha1_block :: "sha1_state \<Rightarrow> bytes \<Rightarrow> sha1_state" where
  "sha1_block h b =
     (case (h, foldl sha1_round h (zip [0..<80] (rev (sha1_schedule (rev (block_words b)))))) of
        ((h0, h1, h2, h3, h4), (a, b, c, d, e)) \<Rightarrow> (h0 + a, h1 + b, h2 + c, h3 + d, h4 + e))"

definition sha1 :: "bytes \<Rightarrow> bytes" where
  "sha1 m =
     (case foldl sha1_block (0x67452301, 0xEFCDAB89, 0x98BADCFE, 0x10325476, 0xC3D2E1F0) (chunks 64 (sha_pad m)) of
        (a, b, c, d, e) \<Rightarrow> concat (map put_uint32 [a, b, c, d, e]))"

definition hmac_sha1 :: "bytes \<Rightarrow> bytes \<Rightarrow> bytes" where
  "hmac_sha1 secret m =
     (let k = (if 64 < length secret then sha1 secret else secret);
          padded = k @ replicate (64 - length k) 0 in
      sha1 (map (\<lambda>b. b XOR 0x5C) padded @ sha1 (map (\<lambda>b. b XOR 0x36) padded @ m)))"

text \<open>The constants, eight to a row with the first in the highest bits.\<close>

definition sha256_rows :: "nat list" where
  "sha256_rows =
     [0x428a2f9871374491b5c0fbcfe9b5dba53956c25b59f111f1923f82a4ab1c5ed5,
      0xd807aa9812835b01243185be550c7dc372be5d7480deb1fe9bdc06a7c19bf174,
      0xe49b69c1efbe47860fc19dc6240ca1cc2de92c6f4a7484aa5cb0a9dc76f988da,
      0x983e5152a831c66db00327c8bf597fc7c6e00bf3d5a7914706ca635114292967,
      0x27b70a852e1b21384d2c6dfc53380d13650a7354766a0abb81c2c92e92722c85,
      0xa2bfe8a1a81a664bc24b8b70c76c51a3d192e819d6990624f40e3585106aa070,
      0x19a4c1161e376c082748774c34b0bcb5391c0cb34ed8aa4a5b9cca4f682e6ff3,
      0x748f82ee78a5636f84c878148cc7020890befffaa4506cebbef9a3f7c67178f2]"

definition sha256_constants :: "32 word list" where
  "sha256_constants =
     concat (map (\<lambda>row. map (\<lambda>i. word_of_nat (drop_bit (32 * (7 - i)) row)) [0..<8]) sha256_rows)"

definition sha256_next :: "32 word list \<Rightarrow> 32 word" where
  "sha256_next ws =
     (let x = ws ! 14; y = ws ! 1;
          s0 = rotr 7 x XOR rotr 18 x XOR drop_bit 3 x;
          s1 = rotr 17 y XOR rotr 19 y XOR drop_bit 10 y in
      ws ! 15 + s0 + ws ! 6 + s1)"

definition sha256_schedule :: "32 word list \<Rightarrow> 32 word list" where
  "sha256_schedule ws = foldl (\<lambda>ws i. sha256_next ws # ws) ws [0..<48]"

fun sha256_round :: "32 word list \<Rightarrow> 32 word \<times> 32 word \<Rightarrow> 32 word list" where
  "sha256_round [a, b, c, d, e, f, g, h] (k, w) =
     (let t1 = h + (rotr 6 e XOR rotr 11 e XOR rotr 25 e) + ((e AND f) XOR (NOT e AND g)) + k + w;
          t2 = (rotr 2 a XOR rotr 13 a XOR rotr 22 a) + ((a AND b) XOR (a AND c) XOR (b AND c)) in
      [t1 + t2, a, b, c, d + t1, e, f, g])"
| "sha256_round hs kw = hs"

definition sha256_block :: "32 word list \<Rightarrow> bytes \<Rightarrow> 32 word list" where
  "sha256_block h b =
     map2 (+) h (foldl sha256_round h (zip sha256_constants (rev (sha256_schedule (rev (block_words b))))))"

definition Sum256 :: "bytes \<Rightarrow> bytes" where
  "Sum256 m =
     concat (map put_uint32 (foldl sha256_block
       [0x6a09e667, 0xbb67ae85, 0x3c6ef372, 0xa54ff53a, 0x510e527f, 0x9b05688c, 0x1f83d9ab, 0x5be0cd19]
       (chunks 64 (sha_pad m))))"

section \<open>Encodings\<close>

definition hex_encode :: "bytes \<Rightarrow> string" where
  "hex_encode bs = concat (map (\<lambda>b. hex_digits 2 (unat b)) bs)"

definition base32_alphabet :: string where
  "base32_alphabet = ''ABCDEFGHIJKLMNOPQRSTUVWXYZ234567''"

definition base64url_alphabet :: string where
  "base64url_alphabet = ''ABCDEFGHIJKLMNOPQRSTUVWXYZabcdefghijklmnopqrstuvwxyz0123456789-_''"

text \<open>The bits of bytes, most significant first, and groups of bits read as numbers; the last group of an
  unpadded encoding is filled up with zeros.\<close>

definition bits_of :: "nat \<Rightarrow> nat \<Rightarrow> bool list" where
  "bits_of k n = map (\<lambda>i. odd (n div 2 ^ i)) (rev [0..<k])"

definition of_bits :: "bool list \<Rightarrow> nat" where
  "of_bits bs = foldl (\<lambda>a b. 2 * a + (if b then 1 else 0)) 0 bs"

definition encode_bits :: "nat \<Rightarrow> string \<Rightarrow> bytes \<Rightarrow> string" where
  "encode_bits k alphabet bs =
     map (\<lambda>g. alphabet ! of_bits (g @ replicate (k - length g) False))
       (chunks k (concat (map (\<lambda>b. bits_of 8 (unat b)) bs)))"

definition base32_encode :: "bytes \<Rightarrow> string" where
  "base32_encode bs = encode_bits 5 base32_alphabet bs"

definition base64url_encode :: "bytes \<Rightarrow> string" where
  "base64url_encode bs = encode_bits 6 base64url_alphabet bs"

text \<open>
  \<^verbatim>\<open>base32.DecodeString\<close> without padding: line breaks are dropped, and a final quantum of one, three or
  six characters, which no encoder writes, yields only the bytes of the next smaller legal one: none.
\<close>

definition base32_value :: "char \<Rightarrow> nat option" where
  "base32_value c =
     (let i = length (takeWhile (\<lambda>d. d \<noteq> c) base32_alphabet) in if i < 32 then Some i else None)"

definition quantum_bytes :: "nat list \<Rightarrow> bytes" where
  "quantum_bytes vs =
     (if length vs \<in> {2, 4, 5, 7, 8}
      then map (\<lambda>g. of_nat (of_bits g)) (filter (\<lambda>g. length g = 8) (chunks 8 (concat (map (bits_of 5) vs))))
      else [])"

definition base32_decode :: "string \<Rightarrow> bytes option" where
  "base32_decode s =
     (let vs = map base32_value (filter (\<lambda>c. c \<noteq> CHR 0x0A \<and> c \<noteq> CHR 0x0D) s) in
      if None \<in> set vs then None else Some (concat (map quantum_bytes (chunks 8 (map the vs)))))"

section \<open>Upper case\<close>

text \<open>Upper case of the runes beyond ASCII is the table of the \<^verbatim>\<open>unicode\<close> package, a parameter.\<close>

definition upper_ascii :: "nat \<Rightarrow> nat" where
  "upper_ascii b = (if 97 \<le> b \<and> b \<le> 122 then b - 32 else b)"

definition to_upper :: "(nat \<Rightarrow> nat) \<Rightarrow> string \<Rightarrow> string" where
  "to_upper upr s =
     (if list_all (\<lambda>c. byte c < 0x80) s then map (\<lambda>c. char_of (upper_ascii (byte c))) s
      else concat (map (\<lambda>r. chars_of (encode_rune (if r < 0x80 then upper_ascii r else upr r))) (runes s)))"

section \<open>Base32 round trip\<close>

lemma chunks_Nil [simp]: "chunks k [] = []"
  by (simp add: chunks.simps)

lemma chunks_append:
  assumes "0 < k" "k dvd length xs"
  shows "chunks k (xs @ ys) = chunks k xs @ chunks k ys"
  using assms
proof (induction k xs rule: chunks.induct)
  case (1 k xs)
  show ?case
  proof (cases "xs = []")
    case False
    then have le: "k \<le> length xs" using 1(3) by (auto dest: dvd_imp_le)
    then have d: "k dvd length (drop k xs)" using 1(3) by (simp add: dvd_diff_nat)
    have "chunks k (xs @ ys) = take k xs # chunks k (drop k xs @ ys)"
      using False 1(2) le by (subst chunks.simps) simp
    also have "\<dots> = take k xs # (chunks k (drop k xs) @ chunks k ys)"
      using 1(1) [OF _ 1(2) d] False 1(2) by simp
    also have "\<dots> = chunks k xs @ chunks k ys" using False 1(2) by (subst (2) chunks.simps) simp
    finally show ?thesis .
  qed simp
qed

lemma chunks_one: "0 < k \<Longrightarrow> length xs = k \<Longrightarrow> chunks k xs = [xs]"
  by (subst chunks.simps) auto

lemma chunks_map_const: "0 < k \<Longrightarrow> (\<And>x. x \<in> set xs \<Longrightarrow> length (f x) = k) \<Longrightarrow> chunks k (concat (map f xs)) = map f xs"
  by (induction xs) (auto simp: chunks_append chunks_one)

lemma concat_chunks: "0 < k \<Longrightarrow> concat (chunks k xs) = xs"
proof (induction k xs rule: chunks.induct)
  case (1 k xs)
  then show ?case by (subst chunks.simps) auto
qed

lemma length_chunks_elem:
  "0 < k \<Longrightarrow> k dvd length xs \<Longrightarrow> g \<in> set (chunks k xs) \<Longrightarrow> length g = k"
proof (induction k xs rule: chunks.induct)
  case (1 k xs)
  have ne: "xs \<noteq> []" using 1(4) by auto
  then have le: "k \<le> length xs" using 1(3) by (auto dest: dvd_imp_le)
  then have d: "k dvd length (drop k xs)" using 1(3) by (simp add: dvd_diff_nat)
  have "g = take k xs \<or> g \<in> set (chunks k (drop k xs))"
    using 1(4) ne 1(2) by (subst (asm) chunks.simps) auto
  then show ?case using 1(1) [OF _ 1(2) d] ne 1(2) le by auto
qed

lemma length_chunks: "0 < k \<Longrightarrow> length xs = n * k \<Longrightarrow> length (chunks k xs) = n"
proof (induction n arbitrary: xs)
  case (Suc n)
  then show ?case by (subst chunks.simps) auto
qed simp

lemma length_bits_of [simp]: "length (bits_of k n) = k"
  by (simp add: bits_of_def)

lemma of_bits_snoc: "of_bits (bs @ [b]) = 2 * of_bits bs + (if b then 1 else 0)"
  by (simp add: of_bits_def)

lemma bits_of_Suc: "bits_of (Suc k) n = bits_of k (n div 2) @ [odd n]"
proof -
  have "rev [0..<Suc k] = map Suc (rev [0..<k]) @ [0]"
    by (simp add: upt_conv_Cons map_Suc_upt rev_map [symmetric] del: upt_Suc)
  then show ?thesis by (simp add: bits_of_def div_mult2_eq)
qed

lemma of_bits_bits_of: "n < 2 ^ k \<Longrightarrow> of_bits (bits_of k n) = n"
proof (induction k arbitrary: n)
  case 0
  then show ?case by (simp add: of_bits_def bits_of_def)
next
  case (Suc k)
  then have "of_bits (bits_of k (n div 2)) = n div 2" by simp
  then show ?case by (simp add: bits_of_Suc of_bits_snoc)
qed

lemma bits_of_of_bits: "length bs = k \<Longrightarrow> bits_of k (of_bits bs) = bs"
proof (induction k arbitrary: bs)
  case (Suc k)
  then obtain as b where "bs = as @ [b]" "length as = k" by (metis length_Suc_conv_rev)
  then show ?case using Suc.IH by (simp add: bits_of_Suc of_bits_snoc)
qed (simp add: bits_of_def)

lemma of_bits_less: "of_bits bs < 2 ^ length bs"
  by (induction bs rule: rev_induct) (auto simp: of_bits_snoc, simp add: of_bits_def)

lemma base32_value_nth: "i < 32 \<Longrightarrow> base32_value (base32_alphabet ! i) = Some i"
proof -
  have "list_all (\<lambda>i. base32_value (base32_alphabet ! i) = Some i) [0..<32]" by code_simp
  then show "i < 32 \<Longrightarrow> base32_value (base32_alphabet ! i) = Some i" by (auto simp: list_all_iff)
qed

lemma base32_alphabet_set: "c \<in> set base32_alphabet \<Longrightarrow> graphic c \<and> byte c < 0x80 \<and> char_of (upper_ascii (byte c)) = c \<and> c \<noteq> CHR ''-''"
proof -
  have "list_all (\<lambda>c. graphic c \<and> byte c < 0x80 \<and> char_of (upper_ascii (byte c)) = c \<and> c \<noteq> CHR ''-'') base32_alphabet" by code_simp
  then show "c \<in> set base32_alphabet \<Longrightarrow> graphic c \<and> byte c < 0x80 \<and> char_of (upper_ascii (byte c)) = c \<and> c \<noteq> CHR ''-''"
    by (auto simp: list_all_iff)
qed

lemma encode_bits_set:
  assumes "0 < k" "2 ^ k \<le> length alphabet"
  shows "set (encode_bits k alphabet bs) \<subseteq> set alphabet"
proof -
  have "alphabet ! of_bits (g @ replicate (k - length g) False) \<in> set alphabet" if "length g \<le> k" for g
    using of_bits_less [of "g @ replicate (k - length g) False"] assms(2) that by (intro nth_mem) simp
  moreover have "length g \<le> k" if "g \<in> set (chunks k xs)" for g :: "bool list" and xs
    using that
  proof (induction k xs rule: chunks.induct)
    case (1 k xs)
    then show ?case by (subst (asm) (2) chunks.simps) (auto split: if_splits)
  qed
  ultimately show ?thesis by (auto simp: encode_bits_def)
qed

lemma base32_encode_set: "set (base32_encode bs) \<subseteq> set base32_alphabet"
  unfolding base32_encode_def by (rule encode_bits_set) (simp_all add: base32_alphabet_def)

lemma base32_encode_append:
  "5 dvd length bs \<Longrightarrow> base32_encode (bs @ cs) = base32_encode bs @ base32_encode cs"
proof -
  assume "5 dvd length bs"
  moreover have "length (concat (map (\<lambda>b. bits_of 8 (unat b)) bs)) = length bs * 8" for bs :: bytes
    by (induction bs) auto
  ultimately show ?thesis by (simp add: base32_encode_def encode_bits_def chunks_append dvd_mult2)
qed

lemma base32_decode_append:
  assumes "8 dvd length s" "set s \<subseteq> set base32_alphabet" "set t \<subseteq> set base32_alphabet"
    and "base32_decode s = Some x" "base32_decode t = Some y"
  shows "base32_decode (s @ t) = Some (x @ y)"
proof -
  have keep: "filter (\<lambda>c. c \<noteq> CHR 0x0A \<and> c \<noteq> CHR 0x0D) u = u" if "set u \<subseteq> set base32_alphabet" for u
  proof -
    have "CHR 0x0A \<notin> set base32_alphabet" "CHR 0x0D \<notin> set base32_alphabet" by code_simp+
    then show ?thesis using that by (auto intro: filter_True)
  qed
  show ?thesis
    using assms(1,4,5) by (auto simp: base32_decode_def Let_def keep assms(2,3) chunks_append split: if_splits)
qed

text \<open>One quantum: forty bits, eight characters, five bytes.\<close>

lemma base32_quantum:
  assumes "length bs = 5"
  shows "length (base32_encode bs) = 8 \<and> base32_decode (base32_encode bs) = Some bs"
proof -
  define bits where "bits = concat (map (\<lambda>b. bits_of 8 (unat b)) bs)"
  have len: "length bits = 8 * 5"
    using assms unfolding bits_def by (simp add: length_concat comp_def sum_list_triv)
  have five: "length g = 5" if "g \<in> set (chunks 5 bits)" for g
    using length_chunks_elem [of 5 bits g] that len by simp
  have enc: "base32_encode bs = map (\<lambda>g. base32_alphabet ! of_bits g) (chunks 5 bits)"
    using five by (simp add: base32_encode_def encode_bits_def bits_def [symmetric])
  then have len8: "length (base32_encode bs) = 8" using length_chunks [OF _ len] by simp
  have keep: "filter (\<lambda>c. c \<noteq> CHR 0x0A \<and> c \<noteq> CHR 0x0D) (base32_encode bs) = base32_encode bs"
  proof -
    have "CHR 0x0A \<notin> set base32_alphabet" "CHR 0x0D \<notin> set base32_alphabet" by code_simp+
    then show ?thesis using base32_encode_set by (auto intro: filter_True)
  qed
  have vals: "map base32_value (base32_encode bs) = map (\<lambda>g. Some (of_bits g)) (chunks 5 bits)"
  proof -
    have "base32_value (base32_alphabet ! of_bits g) = Some (of_bits g)" if "g \<in> set (chunks 5 bits)" for g
      using five [OF that] of_bits_less [of g] by (intro base32_value_nth) simp
    then show ?thesis unfolding enc by simp
  qed
  have vs: "map the (map base32_value (base32_encode bs)) = map of_bits (chunks 5 bits)"
    unfolding vals by simp
  have "concat (map (bits_of 5) (map of_bits (chunks 5 bits))) = concat (chunks 5 bits)"
    using five by (simp add: comp_def bits_of_of_bits cong: map_cong)
  then have q: "concat (map (bits_of 5) (map of_bits (chunks 5 bits))) = bits" by (simp add: concat_chunks)
  have "chunks 8 bits = map (\<lambda>b. bits_of 8 (unat b)) bs"
    unfolding bits_def by (rule chunks_map_const) simp_all
  moreover have "of_nat (of_bits (bits_of 8 (unat b))) = b" for b :: "8 word"
    using unsigned_less [of b, where ?'a = nat] by (simp add: of_bits_bits_of)
  ultimately have "quantum_bytes (map of_bits (chunks 5 bits)) = bs"
    using len8 unfolding enc quantum_bytes_def q by (simp add: comp_def)
  moreover have "chunks 8 (map of_bits (chunks 5 bits)) = [map of_bits (chunks 5 bits)]"
    using len8 unfolding enc by (intro chunks_one) simp_all
  moreover have "None \<notin> set (map base32_value (base32_encode bs))" unfolding vals by auto
  ultimately have "base32_decode (base32_encode bs) = Some bs"
    unfolding base32_decode_def Let_def keep vs by simp
  then show ?thesis using len8 by simp
qed

lemma base32_roundtrip: "5 dvd length bs \<Longrightarrow> 8 dvd length (base32_encode bs) \<and> base32_decode (base32_encode bs) = Some bs"
proof (induction "length bs" arbitrary: bs rule: less_induct)
  case less
  show ?case
  proof (cases "bs = []")
    case True
    then show ?thesis by (simp add: base32_encode_def encode_bits_def base32_decode_def)
  next
    case False
    then have le: "5 \<le> length bs" using less(2) by (auto dest: dvd_imp_le)
    define xs ys where "xs = take 5 bs" and "ys = drop 5 bs"
    have bs: "bs = xs @ ys" and x: "length xs = 5" and y: "length ys < length bs" "5 dvd length ys"
      using le less(2) by (auto simp: xs_def ys_def dvd_diff_nat)
    note q = base32_quantum [OF x] and r = less(1) [OF y]
    have "base32_encode bs = base32_encode xs @ base32_encode ys"
      unfolding bs using x by (intro base32_encode_append) simp
    then show ?thesis
      using q r base32_decode_append [of "base32_encode xs" "base32_encode ys" xs ys] base32_encode_set
      by (simp add: bs)
  qed
qed

end
