(* ===== verification/Http.thy ===== *)
theory Http
  imports Go_Crypto Claims
begin

text \<open>
  A request as the handlers read it, and the standard library functions they read it with.  The session
  cookie is its content: gorilla's cookie store signs it, and a cookie it does not accept is none.
\<close>

record request =
  rqMethod :: string
  rqPath :: string
  rqHost :: string
  rqRemoteAddr :: string
  rqTLS :: bool
  rqHeader :: "(string, string list) amap"
  rqForm :: "(string, string) amap"
  rqCookie :: "auth_session option"

text \<open>\<^verbatim>\<open>Header.Get\<close> and \<^verbatim>\<open>PostForm.Get\<close>: the first value, or the empty string.\<close>

definition header_get :: "request \<Rightarrow> string \<Rightarrow> string" where
  "header_get r name = (case map_of (rqHeader r) name of Some (v # vs) \<Rightarrow> v | _ \<Rightarrow> [])"

definition form_get :: "request \<Rightarrow> string \<Rightarrow> string" where
  "form_get r name = (case map_of (rqForm r) name of None \<Rightarrow> [] | Some v \<Rightarrow> v)"

text \<open>\<^verbatim>\<open>net.SplitHostPort\<close>.\<close>

definition last_cut :: "char \<Rightarrow> string \<Rightarrow> (string \<times> string) option" where
  "last_cut c s = map_option (\<lambda>(a, b). (rev b, rev a)) (cut_byte c (rev s))"

definition SplitHostPort :: "string \<Rightarrow> (string \<times> string) option" where
  "SplitHostPort hostport =
     (case last_cut CHR '':'' hostport of
        None \<Rightarrow> None
      | Some (front, port) \<Rightarrow>
          if hd hostport = CHR ''['' then
            (case cut_byte CHR '']'' hostport of
               None \<Rightarrow> None
             | Some (inside, behind) \<Rightarrow>
                 if length inside + 1 \<noteq> length front then None
                 else if CHR ''['' \<in> set (tl hostport) \<or> CHR '']'' \<in> set behind then None
                 else Some (tl inside, port))
          else if CHR '':'' \<in> set front then None
          else if CHR ''['' \<in> set hostport \<or> CHR '']'' \<in> set hostport then None
          else Some (front, port))"

text \<open>\<^verbatim>\<open>net.JoinHostPort\<close>.\<close>

definition JoinHostPort :: "string \<Rightarrow> string \<Rightarrow> string" where
  "JoinHostPort host port =
     (if CHR '':'' \<in> set host then ''['' @ host @ '']:'' @ port else host @ '':'' @ port)"

text \<open>\<^verbatim>\<open>strings.EqualFold\<close> compares rune by rune.  The orbits of the folding beyond ASCII, a representative for each,
  are the table of the \<^verbatim>\<open>unicode\<close> package, a parameter.\<close>

definition fold_rune :: "(nat \<Rightarrow> nat) \<Rightarrow> nat \<Rightarrow> nat" where
  "fold_rune ufold r = (if r < 0x80 then (if 65 \<le> r \<and> r \<le> 90 then r + 32 else r) else ufold r)"

definition equal_fold :: "(nat \<Rightarrow> nat) \<Rightarrow> string \<Rightarrow> string \<Rightarrow> bool" where
  "equal_fold ufold s t = (map (fold_rune ufold) (runes s) = map (fold_rune ufold) (runes t))"

text \<open>How an identity is written to and read from a column.  \<^verbatim>\<open>encoding/json\<close> is kept abstract; a theorem
  that reads back what was written says so of the identity at hand.\<close>

record codec =
  marshal :: "identity \<Rightarrow> string res"
  unmarshal :: "string \<Rightarrow> identity res"

definition codec_keeps :: "codec \<Rightarrow> identity \<Rightarrow> bool" where
  "codec_keeps J i \<longleftrightarrow> (\<exists>s. marshal J i = Inr s \<and> unmarshal J s = Inr i)"

end
