(* ===== verification/Web_Sessions.thy ===== *)
theory Web_Sessions
  imports Http Storage_Laws
begin

text \<open>
  The browser sessions (\<^verbatim>\<open>internal/websessions/websessions.go\<close>): starting, reading and ending them.  The
  cookie carries a random id, the storage its SHA-256.  The random bytes and the uuid are arguments.
\<close>

section \<open>Operations\<close>

definition touchInterval :: duration where "touchInterval = minute"
definition maxUserAgentLength :: nat where "maxUserAgentLength = 255"

definition secret_hash :: "string \<Rightarrow> string" where
  "secret_hash i = hex_encode (Sum256 (bytes_of i))"

definition newID :: "bytes res \<Rightarrow> string res" where
  "newID buf =
     (case buf of
        Inl e \<Rightarrow> Inl (wrap_err ''failed to generate a session id'' e)
      | Inr bs \<Rightarrow> Inr (base64url_encode bs))"

definition userAgent :: "request option \<Rightarrow> string" where
  "userAgent r =
     (case r of
        None \<Rightarrow> []
      | Some r \<Rightarrow>
          (let agent = header_get r ''User-Agent'' in
           if length agent > maxUserAgentLength then take maxUserAgentLength agent else agent))"

definition remoteAddr :: "request option \<Rightarrow> string" where
  "remoteAddr r =
     (case r of
        None \<Rightarrow> []
      | Some r \<Rightarrow> (case SplitHostPort (rqRemoteAddr r) of Some (host, port) \<Rightarrow> host | None \<Rightarrow> rqRemoteAddr r))"

definition session_Create ::
  "codec \<Rightarrow> duration \<Rightarrow> bytes res \<Rightarrow> string \<Rightarrow> identity option \<Rightarrow> request option \<Rightarrow> instant \<Rightarrow> memory \<Rightarrow> string res \<times> memory" where
  "session_Create J maxAge rand uuid identity r now s =
     (case identity of
        None \<Rightarrow> (Inl (Err ''a session needs an identity''), s)
      | Some i \<Rightarrow>
          (case marshal J i of
             Inl e \<Rightarrow> (Inl (wrap_err ''failed to encode the identity'' e), s)
           | Inr encoded \<Rightarrow>
               (case newID rand of
                  Inl e \<Rightarrow> (Inl e, s)
                | Inr secret \<Rightarrow>
                    (case SaveSession
                        \<lparr>sesID = uuid, sesOwner = idSubject i, sesHash = secret_hash secret, sesIdentity = encoded,
                         sesUserAgent = userAgent r, sesRemoteAddr = remoteAddr r,
                         sesCreatedAt = now, sesExpiresAt = now + maxAge, sesLastSeenAt = now\<rparr> s of
                       (Inl e, s) \<Rightarrow> (Inl e, s)
                     | (Inr _, s) \<Rightarrow> (Inr secret, s)))))"

definition session_Identity :: "codec \<Rightarrow> string \<Rightarrow> instant \<Rightarrow> memory \<Rightarrow> identity res \<times> memory" where
  "session_Identity J i now s =
     (if i = [] then (Inl (Sentinel ErrSessionInvalid), s)
      else (case GetSessionByHash (secret_hash i) s of
          Inl e \<Rightarrow> (if err_is e ErrSessionNotFound then (Inl (Sentinel ErrSessionInvalid), s) else (Inl e, s))
        | Inr x \<Rightarrow>
            if session_Expired x now then (Inl (Sentinel ErrSessionInvalid), s)
            else (case unmarshal J (sesIdentity x) of
                Inl e \<Rightarrow> (Inl (wrap_err (''failed to decode the identity of session '' @ sesID x) e), s)
              | Inr identity \<Rightarrow>
                  (Inr identity,
                   if time_sub now (sesLastSeenAt x) \<ge> touchInterval then snd (TouchSession (sesID x) now s) else s))))"

definition session_End :: "string \<Rightarrow> memory \<Rightarrow> unit res \<times> memory" where
  "session_End i s =
     (if i = [] then (Inr (), s)
      else (case GetSessionByHash (secret_hash i) s of
          Inl e \<Rightarrow> (if err_is e ErrSessionNotFound then (Inr (), s) else (Inl e, s))
        | Inr x \<Rightarrow> DeleteSession (sesID x) s))"

definition session_List :: "string \<Rightarrow> memory \<Rightarrow> session list" where
  "session_List owner s = ListSessions owner s"

definition session_Find :: "string \<Rightarrow> memory \<Rightarrow> session res" where
  "session_Find i s =
     (if i = [] then Inl (Sentinel ErrSessionInvalid)
      else (case GetSessionByHash (secret_hash i) s of
          Inl e \<Rightarrow> (if err_is e ErrSessionNotFound then Inl (Sentinel ErrSessionInvalid) else Inl e)
        | Inr x \<Rightarrow> Inr x))"

definition session_Delete :: "string \<Rightarrow> string \<Rightarrow> memory \<Rightarrow> unit res \<times> memory" where
  "session_Delete owner i s =
     (if list_ex (\<lambda>x. sesID x = i) (ListSessions owner s) then DeleteSession i s
      else (Inl (Sentinel ErrSessionInvalid), s))"

text \<open>\<^verbatim>\<open>DeleteSession\<close> of the in-memory storage never fails; the loop stops at the first error otherwise.\<close>

fun end_loop :: "string \<Rightarrow> session list \<Rightarrow> nat \<Rightarrow> memory \<Rightarrow> nat res \<times> memory" where
  "end_loop keep [] ended s = (Inr ended, s)"
| "end_loop keep (x # xs) ended s =
     (if sesID x = keep then end_loop keep xs ended s
      else (case DeleteSession (sesID x) s of
          (Inl e, s) \<Rightarrow> (Inl e, s)
        | (Inr _, s) \<Rightarrow> end_loop keep xs (ended + 1) s))"

definition EndOthers :: "string \<Rightarrow> string \<Rightarrow> memory \<Rightarrow> nat res \<times> memory" where
  "EndOthers owner keep s = end_loop keep (ListSessions owner s) 0 s"

definition EndAllForOwner :: "string \<Rightarrow> memory \<Rightarrow> nat res \<times> memory" where
  "EndAllForOwner owner s = DeleteSessionsForOwner owner s"

text \<open>One round of \<^verbatim>\<open>cleanupLoop\<close>.\<close>

definition cleanup_round :: "instant \<Rightarrow> memory \<Rightarrow> memory" where
  "cleanup_round now s = snd (DeleteExpiredSessions now s)"

section \<open>Sessions that are there\<close>

text \<open>The session a cookie names.\<close>

abbreviation session_of :: "string \<Rightarrow> memory \<Rightarrow> session option" where
  "session_of i s \<equiv> res_option (GetSessionByHash (secret_hash i) s)"

lemma GetSessionByHash_cases:
  obtains (missing) "GetSessionByHash h s = Inl (Sentinel ErrSessionNotFound)" "res_option (GetSessionByHash h s) = None"
  | (there) x where "GetSessionByHash h s = Inr x" "res_option (GetSessionByHash h s) = Some x"
  by (cases "find (\<lambda>x. sesHash x = h) (map snd (sessions s))") (simp_all add: GetSessionByHash_def)

lemma Identity_missing: "session_of i s = None \<Longrightarrow> fst (session_Identity J i now s) = Inl (Sentinel ErrSessionInvalid)"
  by (cases rule: GetSessionByHash_cases [of "secret_hash i" s]) (simp_all add: session_Identity_def)

lemma Identity_there:
  "session_of i s = Some x \<Longrightarrow> i \<noteq> [] \<Longrightarrow> unmarshal J (sesIdentity x) = Inr identity \<Longrightarrow>
   fst (session_Identity J i now s) = (if now < sesExpiresAt x then Inr identity else Inl (Sentinel ErrSessionInvalid))"
  by (cases rule: GetSessionByHash_cases [of "secret_hash i" s])
    (simp_all add: session_Identity_def session_Expired_def)

lemma base64url_ne: "bs \<noteq> [] \<Longrightarrow> base64url_encode bs \<noteq> []"
proof -
  assume "bs \<noteq> []"
  then have "concat (map (\<lambda>b. bits_of 8 (unat b)) bs) \<noteq> []" by (cases bs) (auto simp: bits_of_def)
  then show ?thesis by (subst base64url_encode_def) (simp add: encode_bits_def chunks.simps [of 6])
qed

text \<open>
  C25. A session lasts as long as it was given: until it expires the id from the cookie is the identity that signed
  in, whichever bytes that identity holds, and from then on it is nobody's.
\<close>

theorem session_lifecycle:
  assumes "store_ok s" "session_Create J maxAge (Inr bs) uuid (Some i) r now s = (Inr secret, s')"
    and "codec_keeps J i" "bs \<noteq> []"
  shows "fst (session_Identity J secret later s') =
    (if later < now + maxAge then Inr i else Inl (Sentinel ErrSessionInvalid))"
proof -
  obtain enc where enc: "marshal J i = Inr enc" "unmarshal J enc = Inr i" using assms(3) by (auto simp: codec_keeps_def)
  define x where "x = \<lparr>sesID = uuid, sesOwner = idSubject i, sesHash = secret_hash secret, sesIdentity = enc,
      sesUserAgent = userAgent r, sesRemoteAddr = remoteAddr r,
      sesCreatedAt = now, sesExpiresAt = now + maxAge, sesLastSeenAt = now\<rparr>"
  have "SaveSession x s = (Inr (), s')" "secret \<noteq> []"
    using assms(2) base64url_ne [OF assms(4)]
    by (auto simp: session_Create_def enc newID_def x_def split: prod.splits sum.splits)
  then have "session_of secret s' = Some x" using ses.found_save [OF assms(1), of x] by (simp add: x_def)
  then show ?thesis using Identity_there [of secret s' x J i] \<open>secret \<noteq> []\<close> enc(2) by (simp add: x_def)
qed

section \<open>Ending sessions\<close>

lemma end_loop_found:
  assumes "store_ok s"
  shows "\<exists>m s'. end_loop keep xs n s = (Inr m, s') \<and> store_ok s' \<and>
    (\<forall>h. res_option (GetSessionByHash h s') =
       (case res_option (GetSessionByHash h s) of
          None \<Rightarrow> None
        | Some c \<Rightarrow> if sesID c \<noteq> keep \<and> sesID c \<in> set (map sesID xs) then None else Some c))"
  using assms
proof (induction xs arbitrary: n s)
  case Nil
  then show ?case by (auto split: option.splits)
next
  case (Cons x xs)
  show ?case
  proof (cases "sesID x = keep")
    case True
    then show ?thesis using Cons.IH [OF Cons.prems, of n] by (fastforce split: option.splits)
  next
    case False
    define t where "t = snd (DeleteSession (sesID x) s)"
    have t: "DeleteSession (sesID x) s = (Inr (), t)" by (simp add: t_def DeleteSession_def)
    have ok: "store_ok t" unfolding t_def by (rule store_ok_DeleteSession [OF Cons.prems])
    have f: "res_option (GetSessionByHash h t) =
        (case res_option (GetSessionByHash h s) of None \<Rightarrow> None | Some c \<Rightarrow> if sesID c = sesID x then None else Some c)" for h
      unfolding t_def by (rule ses.found_remove [OF Cons.prems])
    obtain m s' where "end_loop keep xs (n + 1) t = (Inr m, s')" "store_ok s'" and
      g: "\<And>h. res_option (GetSessionByHash h s') = (case res_option (GetSessionByHash h t) of None \<Rightarrow> None
         | Some c \<Rightarrow> if sesID c \<noteq> keep \<and> sesID c \<in> set (map sesID xs) then None else Some c)"
      using Cons.IH [OF ok, of "n + 1"] by auto
    moreover have "res_option (GetSessionByHash h s') = (case res_option (GetSessionByHash h s) of None \<Rightarrow> None
         | Some c \<Rightarrow> if sesID c \<noteq> keep \<and> sesID c \<in> set (map sesID (x # xs)) then None else Some c)" for h
      using False by (cases "res_option (GetSessionByHash h s)") (simp_all add: g f)
    ultimately show ?thesis using False t by simp
  qed
qed

lemma ListSessions_mem:
  assumes "store_ok s" "res_option (GetSessionByHash h s) = Some x"
  shows "x \<in> set (ListSessions (sesOwner x) s)"
  using assms(2) by (auto simp: GetSessionByHash_def ListSessions_def find_Some_iff split: option.splits)

lemma ListSessions_owner:
  "y \<in> set (ListSessions owner s) \<Longrightarrow> sesOwner y = owner \<and> (\<exists>j. (j, y) \<in> set (sessions s))"
  by (auto simp: ListSessions_def)

text \<open>What a browser with a cookie is told afterwards: the sessions that \<open>P\<close> describes are over, all others are
  as they were.\<close>

definition ends :: "(session \<Rightarrow> bool) \<Rightarrow> memory \<Rightarrow> memory \<Rightarrow> bool" where
  "ends P s s' \<longleftrightarrow>
     (\<forall>J i now. fst (session_Identity J i now s') =
        (case session_of i s of
           None \<Rightarrow> Inl (Sentinel ErrSessionInvalid)
         | Some x \<Rightarrow> if P x then Inl (Sentinel ErrSessionInvalid) else fst (session_Identity J i now s)))"

lemma Identity_cong: "session_of i s = session_of i s' \<Longrightarrow> fst (session_Identity J i now s) = fst (session_Identity J i now s')"
  by (cases rule: GetSessionByHash_cases [of "secret_hash i" s]; cases rule: GetSessionByHash_cases [of "secret_hash i" s'])
    (simp_all add: session_Identity_def split: sum.splits)

lemma endsI:
  assumes "\<And>h. res_option (GetSessionByHash h s') =
    (case res_option (GetSessionByHash h s) of None \<Rightarrow> None | Some x \<Rightarrow> if P x then None else Some x)"
  shows "ends P s s'"
  unfolding ends_def
proof (intro allI)
  fix J i now
  show "fst (session_Identity J i now s') =
        (case session_of i s of
           None \<Rightarrow> Inl (Sentinel ErrSessionInvalid)
         | Some x \<Rightarrow> if P x then Inl (Sentinel ErrSessionInvalid) else fst (session_Identity J i now s))"
    using assms [of "secret_hash i"] Identity_missing [of i s' J now] Identity_cong [of i s' s J now]
    by (cases "session_of i s") auto
qed

lemma session_id_unique:
  assumes "store_ok s" "res_option (GetSessionByHash h s) = Some x" "res_option (GetSessionByHash g s) = Some y" "sesID x = sesID y"
  shows "x = y"
proof -
  have "(sesID z, z) \<in> set (sessions s)" if "res_option (GetSessionByHash k s) = Some z" for k z
    using that find_by_hash [OF store_okD(5) [OF assms(1)]] by (auto simp: GetSessionByHash_def split: option.splits)
  then show ?thesis using assms amap_ok_inj [OF table_okD(1) [OF store_okD(5) [OF assms(1)]]] by metis
qed

lemma ListSessions_ids:
  assumes "store_ok s" "res_option (GetSessionByHash h s) = Some x"
  shows "sesID x \<in> set (map sesID (ListSessions owner s)) \<longleftrightarrow> sesOwner x = owner"
proof
  assume "sesID x \<in> set (map sesID (ListSessions owner s))"
  then obtain y where "sesID y = sesID x" "y \<in> set (ListSessions owner s)" by auto
  then obtain j where y: "sesID y = sesID x" "sesOwner y = owner" "(j, y) \<in> set (sessions s)"
    using ListSessions_owner by blast
  then have "res_option (GetSessionByHash (sesHash y) s) = Some y"
    using find_by_hash [OF store_okD(5) [OF assms(1)], of "sesHash y" y] table_okD(2) [OF store_okD(5) [OF assms(1)] y(3)]
    by (simp add: GetSessionByHash_def)
  then show "sesOwner x = owner" using session_id_unique [OF assms(1) _ assms(2)] y by metis
next
  assume "sesOwner x = owner"
  then show "sesID x \<in> set (map sesID (ListSessions owner s))" using ListSessions_mem [OF assms] by auto
qed

lemma found_cleanup:
  assumes "store_ok s"
  shows "res_option (GetSessionByHash h (cleanup_round now s)) =
    (case res_option (GetSessionByHash h s) of None \<Rightarrow> None | Some x \<Rightarrow> if session_Expired x now then None else Some x)"
  using find_by_hash_keep [OF store_okD(5) [OF assms], of "\<lambda>j x. \<not> session_Expired x now" "\<lambda>x. \<not> session_Expired x now" h]
  by (auto simp: cleanup_round_def DeleteExpiredSessions_def GetSessionByHash_def res_option_lookup split: option.splits)

lemma ends_EndOthers:
  assumes "store_ok s"
  shows "ends (\<lambda>x. sesOwner x = owner \<and> sesID x \<noteq> k) s (snd (EndOthers owner k s))"
proof (rule endsI)
  fix h
  obtain m s' where run: "end_loop k (ListSessions owner s) 0 s = (Inr m, s')" and
    found: "\<And>h. res_option (GetSessionByHash h s') = (case res_option (GetSessionByHash h s) of None \<Rightarrow> None
       | Some c \<Rightarrow> if sesID c \<noteq> k \<and> sesID c \<in> set (map sesID (ListSessions owner s)) then None else Some c)"
    using end_loop_found [OF assms, of k "ListSessions owner s" 0] by auto
  show "res_option (GetSessionByHash h (snd (EndOthers owner k s))) =
    (case res_option (GetSessionByHash h s) of None \<Rightarrow> None
     | Some x \<Rightarrow> if sesOwner x = owner \<and> sesID x \<noteq> k then None else Some x)"
    using ListSessions_ids [OF assms, of h _ owner]
    by (cases "res_option (GetSessionByHash h s)") (auto simp: EndOthers_def run found)
qed

text \<open>
  Ending sessions ends exactly what it says: signing out ends the session of the cookie, ending one session
  of a user ends that one and only if it is theirs, signing out everywhere else keeps the named session,
  signing out everywhere ends all of that user, and the cleanup ends none that still works.  Every
  browser with a session that was not named goes on as before.
\<close>

theorem ending_sessions:
  assumes "store_ok s"
  shows "ends (\<lambda>x. session_of i s = Some x \<and> i \<noteq> []) s (snd (session_End i s)) \<and>
    ends (\<lambda>x. sesOwner x = owner \<and> sesID x = k) s (snd (session_Delete owner k s)) \<and>
    ends (\<lambda>x. sesOwner x = owner \<and> sesID x \<noteq> k) s (snd (EndOthers owner k s)) \<and>
    ends (\<lambda>x. sesOwner x = owner) s (snd (EndAllForOwner owner s)) \<and>
    ends (\<lambda>x. session_Expired x now) s (cleanup_round now s)"
proof (intro conjI)
  note remove = ses.found_remove [OF assms]
  have same: "ends P s s" if "\<And>h x. res_option (GetSessionByHash h s) = Some x \<Longrightarrow> \<not> P x" for P
    by (rule endsI) (use that in \<open>auto split: option.splits\<close>)
  show "ends (\<lambda>x. session_of i s = Some x \<and> i \<noteq> []) s (snd (session_End i s))"
  proof (cases rule: GetSessionByHash_cases [of "secret_hash i" s])
    case missing
    then show ?thesis using same by (simp add: session_End_def)
  next
    case (there x)
    show ?thesis
    proof (cases "i = []")
      case True
      then show ?thesis using same by (simp add: session_End_def)
    next
      case False
      have "(sesID c = sesID x) = (x = c)" if "res_option (GetSessionByHash h s) = Some c" for h c
        using session_id_unique [OF assms that there(2)] by auto
      then have "ends (\<lambda>c. x = c) s (snd (DeleteSession (sesID x) s))"
        by (intro endsI) (simp add: remove split: option.splits)
      then show ?thesis using there False by (simp add: session_End_def)
    qed
  qed
  show "ends (\<lambda>x. sesOwner x = owner \<and> sesID x = k) s (snd (session_Delete owner k s))"
  proof (cases "list_ex (\<lambda>x. sesID x = k) (ListSessions owner s)")
    case True
    then have "k \<in> set (map sesID (ListSessions owner s))" by (force simp: list_ex_iff)
    then have "(sesID c = k) = (sesOwner c = owner \<and> sesID c = k)" if "res_option (GetSessionByHash h s) = Some c" for h c
      using ListSessions_ids [OF assms that, of owner] by auto
    then show ?thesis using True by (intro endsI) (simp add: session_Delete_def remove split: option.splits)
  next
    case False
    then have "k \<notin> set (map sesID (ListSessions owner s))" by (force simp: list_ex_iff)
    then have "ends (\<lambda>x. sesOwner x = owner \<and> sesID x = k) s s"
      using ListSessions_ids [OF assms, of _ _ owner] by (intro same) blast
    then show ?thesis using False by (simp add: session_Delete_def)
  qed
  show "ends (\<lambda>x. sesOwner x = owner \<and> sesID x \<noteq> k) s (snd (EndOthers owner k s))"
    by (rule ends_EndOthers [OF assms])
  show "ends (\<lambda>x. sesOwner x = owner) s (snd (EndAllForOwner owner s))"
    unfolding EndAllForOwner_def by (rule endsI) (rule ses.found_purge [OF assms])
  show "ends (\<lambda>x. session_Expired x now) s (cleanup_round now s)"
    by (rule endsI) (rule found_cleanup [OF assms])
qed

section \<open>Examples\<close>

text \<open>A codec that writes the fields one after the other, quoted, and so loses nothing of an identity without claims.\<close>

definition plain_identity :: "string \<Rightarrow> identity" where
  "plain_identity u = \<lparr>idProvider = ''simple'', idSubject = u, idName = u, idEmail = [], idClaims = []\<rparr>"

definition subject_codec :: codec where
  "subject_codec = \<lparr>marshal = (\<lambda>i. Inr (idSubject i)), unmarshal = (\<lambda>s. Inr (plain_identity s))\<rparr>"

lemma subject_codec_keeps: "codec_keeps subject_codec (plain_identity u)"
  by (simp add: codec_keeps_def subject_codec_def plain_identity_def)

theorem session_lifecycle_witness:
  "\<exists>secret s'. session_Create subject_codec hour (Inr [1, 2, 3]) ''u1'' (Some (plain_identity ''bob'')) None 0 NewMemoryStorage = (Inr secret, s') \<and>
     fst (session_Identity subject_codec secret (hour - 1) s') = Inr (plain_identity ''bob'') \<and>
     fst (session_Identity subject_codec secret hour s') = Inl (Sentinel ErrSessionInvalid)"
proof -
  obtain secret s' where c: "session_Create subject_codec hour (Inr [1, 2, 3]) ''u1'' (Some (plain_identity ''bob'')) None 0 NewMemoryStorage =
      (Inr secret, s')"
    by (simp add: session_Create_def subject_codec_def newID_def SaveSession_def NewMemoryStorage_def)
  then show ?thesis
    using session_lifecycle [OF store_ok_new c subject_codec_keeps] by simp
qed

definition two_sessions :: memory where
  "two_sessions = NewMemoryStorage\<lparr>sessions :=
     [(''u1'', \<lparr>sesID = ''u1'', sesOwner = ''bob'', sesHash = ''h1'', sesIdentity = ''bob'', sesUserAgent = [], sesRemoteAddr = [],
        sesCreatedAt = 0, sesExpiresAt = 9, sesLastSeenAt = 0\<rparr>),
      (''u2'', \<lparr>sesID = ''u2'', sesOwner = ''bob'', sesHash = ''h2'', sesIdentity = ''bob'', sesUserAgent = [], sesRemoteAddr = [],
        sesCreatedAt = 0, sesExpiresAt = 5, sesLastSeenAt = 0\<rparr>)]\<rparr>"

theorem ending_sessions_witness:
  "store_ok two_sessions \<and> ends (\<lambda>x. sesOwner x = ''bob'' \<and> sesID x \<noteq> ''u1'') two_sessions (snd (EndOthers ''bob'' ''u1'' two_sessions))"
proof -
  have "store_ok two_sessions"
    by (simp add: two_sessions_def store_ok_def NewMemoryStorage_def table_ok_def amap_ok_def)
  then show ?thesis using ending_sessions [of two_sessions "[]" "''bob''" "''u1''" 0] by blast
qed

end
