(* ===== verification/Limiter.thy ===== *)
theory Limiter
  imports Prelude
begin

text \<open>
  The contract of a limit on attempts: a try is granted or refused, a granted one counts as wrong until the
  key is forgotten, and the count of a key starts again when its last granted try is long enough ago.  The
  password checks of an account and the second step of a sign-in both promise it; what it gives is proved
  once here: no window of the configured length holds more granted tries than the limit.
\<close>

locale attempt_limiter =
  fixes reserve :: "string \<Rightarrow> instant \<Rightarrow> 's \<Rightarrow> bool \<times> 's"
    and forget :: "string \<Rightarrow> 's \<Rightarrow> 's"
    and tries :: "string \<Rightarrow> 's \<Rightarrow> (nat \<times> instant) option"
    and limit :: nat
    and window :: duration
  assumes limit_pos: "0 < limit" and window_pos: "0 \<le> window"
    and granted: "fst (reserve k t s) \<longleftrightarrow>
      (case tries k s of None \<Rightarrow> True | Some (n, l) \<Rightarrow> window < t - l \<or> n < limit)"
    and counted: "fst (reserve k t s) \<Longrightarrow>
      tries k (snd (reserve k t s)) =
        Some (case tries k s of None \<Rightarrow> 1 | Some (n, l) \<Rightarrow> if window < t - l then 1 else Suc n, t)"
    and refused: "\<not> fst (reserve k t s) \<Longrightarrow> tries k (snd (reserve k t s)) = tries k s"
    and others: "j \<noteq> k \<Longrightarrow> tries j (snd (reserve k t s)) = tries j s"
    and forgotten: "tries k (forget k s) = None"
    and forget_others: "j \<noteq> k \<Longrightarrow> tries j (forget k s) = tries j s"
begin

text \<open>A history: tries of keys at instants, and successes of keys.\<close>

definition step :: "'s \<Rightarrow> (string \<times> instant option) \<Rightarrow> 's" where
  "step s e = (case e of (k, None) \<Rightarrow> forget k s | (k, Some t) \<Rightarrow> snd (reserve k t s))"

definition run :: "(string \<times> instant option) list \<Rightarrow> 's \<Rightarrow> 's" where
  "run es s = foldl step s es"

fun grants :: "string \<Rightarrow> (string \<times> instant option) list \<Rightarrow> 's \<Rightarrow> instant list" where
  "grants k [] s = []"
| "grants k ((j, None) # es) s = grants k es (step s (j, None))"
| "grants k ((j, Some t) # es) s =
     (if j = k \<and> fst (reserve j t s) then [t] else []) @ grants k es (step s (j, Some t))"

text \<open>What the record of a key says of the tries granted so far: the last ones are those it counts, and the
  ones before are more than a window older.\<close>

definition tracks :: "instant list \<Rightarrow> (nat \<times> instant) option \<Rightarrow> bool" where
  "tracks G r \<longleftrightarrow> sorted G \<and>
     (\<forall>a. length (filter (\<lambda>t. a \<le> t \<and> t \<le> a + window) G) \<le> limit) \<and>
     (case r of
        None \<Rightarrow> G = []
      | Some (n, l) \<Rightarrow> \<exists>H K. G = H @ K \<and> K \<noteq> [] \<and> length K = n \<and> n \<le> limit \<and> (\<forall>t \<in> set G. t \<le> l) \<and>
          (\<forall>h \<in> set H. \<forall>k \<in> set K. window < k - h))"

lemma window_bound:
  assumes "\<And>h k. h \<in> set H \<Longrightarrow> k \<in> set K \<Longrightarrow> window < k - h" "length K \<le> limit"
    and "length (filter (\<lambda>t. a \<le> t \<and> t \<le> a + window) H) \<le> limit"
  shows "length (filter (\<lambda>t. a \<le> t \<and> t \<le> a + window) (H @ K)) \<le> limit"
proof (cases "\<exists>k \<in> set K. a \<le> k \<and> k \<le> a + window")
  case True
  then have "filter (\<lambda>t. a \<le> t \<and> t \<le> a + window) H = []"
    using assms(1) by (force simp: filter_empty_conv)
  then show ?thesis using assms(2) by simp (meson length_filter_le le_trans)
next
  case False
  then have "filter (\<lambda>t. a \<le> t \<and> t \<le> a + window) K = []" by (auto simp: filter_empty_conv)
  then show ?thesis using assms(3) by simp
qed

lemma tracks_grant:
  assumes g: "tracks G (tries k s)" and t: "\<forall>u \<in> set G. u \<le> t" and ok: "fst (reserve k t s)"
  shows "tracks (G @ [t]) (tries k (snd (reserve k t s)))"
proof -
  have srt: "sorted (G @ [t])" using g t by (simp add: tracks_def sorted_append)
  have bnd: "length (filter (\<lambda>u. a \<le> u \<and> u \<le> a + window) G) \<le> limit" for a using g by (simp add: tracks_def)
  have fresh: "tracks (G @ [t]) (Some (1, t))" if "\<And>u. u \<in> set G \<Longrightarrow> window < t - u"
    unfolding tracks_def
  proof (intro conjI srt allI)
    show "length (filter (\<lambda>u. a \<le> u \<and> u \<le> a + window) (G @ [t])) \<le> limit" for a
      by (rule window_bound) (use that limit_pos bnd in auto)
    show "case Some (1, t) of None \<Rightarrow> G @ [t] = []
      | Some (n, l) \<Rightarrow> \<exists>H K. G @ [t] = H @ K \<and> K \<noteq> [] \<and> length K = n \<and> n \<le> limit \<and> (\<forall>t \<in> set (G @ [t]). t \<le> l) \<and>
          (\<forall>h \<in> set H. \<forall>k \<in> set K. window < k - h)"
      using that t limit_pos by (simp, intro exI [of _ G] exI [of _ "[t]"]) simp
  qed
  show ?thesis
  proof (cases "tries k s")
    case None
    then show ?thesis using counted [OF ok] g fresh by (simp add: tracks_def)
  next
    case (Some r)
    obtain n l where r: "r = (n, l)" by (cases r)
    obtain H K where HK: "G = H @ K" "K \<noteq> []" "length K = n" "n \<le> limit" "\<forall>u \<in> set G. u \<le> l"
      "\<forall>h \<in> set H. \<forall>k \<in> set K. window < k - h" using g Some r by (auto simp: tracks_def)
    show ?thesis
    proof (cases "window < t - l")
      case True
      then have "\<And>u. u \<in> set G \<Longrightarrow> window < t - u" using HK(5) by force
      then show ?thesis using counted [OF ok] Some r True fresh by simp
    next
      case False
      then have n: "n < limit" using ok Some r granted [of k t s] by simp
      have le: "u \<le> t" if "u \<in> set G" for u using t that by blast
      have far: "window < x - h" if "h \<in> set H" "x \<in> set (K @ [t])" for h x
      proof -
        have "hd K \<in> set K" using HK(2) by simp
        then have "window < hd K - h" "hd K \<le> t" using HK(1,6) le that(1) by auto
        then show ?thesis using HK(6) that by auto
      qed
      have "tracks (G @ [t]) (Some (Suc n, t))"
        unfolding tracks_def
      proof (intro conjI srt allI)
        show "length (filter (\<lambda>u. a \<le> u \<and> u \<le> a + window) (G @ [t])) \<le> limit" for a
        proof -
          have "length (filter (\<lambda>u. a \<le> u \<and> u \<le> a + window) H) \<le> limit" using bnd [of a] HK(1) by simp
          then show ?thesis using window_bound [of H "K @ [t]" a] far HK(1,3) n by simp
        qed
        show "case Some (Suc n, t) of None \<Rightarrow> G @ [t] = []
          | Some (n, l) \<Rightarrow> \<exists>H K. G @ [t] = H @ K \<and> K \<noteq> [] \<and> length K = n \<and> n \<le> limit \<and> (\<forall>t \<in> set (G @ [t]). t \<le> l) \<and>
              (\<forall>h \<in> set H. \<forall>k \<in> set K. window < k - h)"
          using far le HK(1,3) n by (simp, intro exI [of _ H] exI [of _ "K @ [t]"]) auto
      qed
      then show ?thesis using counted [OF ok] Some r False by simp
    qed
  qed
qed

text \<open>The instants of a history, and that they do not run backwards.\<close>

definition times :: "(string \<times> instant option) list \<Rightarrow> instant list" where
  "times es = concat (map (\<lambda>(k, t). case t of None \<Rightarrow> [] | Some t \<Rightarrow> [t]) es)"

lemma grants_track:
  assumes "tracks G (tries k s)" "sorted (times es)" "\<forall>u \<in> set G. \<forall>t \<in> set (times es). u \<le> t" "(k, None) \<notin> set es"
  shows "\<exists>r. tracks (G @ grants k es s) r"
  using assms
proof (induction es arbitrary: G s)
  case (Cons e es)
  obtain j o' where e: "e = (j, o')" by (cases e)
  show ?case
  proof (cases o')
    case None
    then have "tries k (step s e) = tries k s" using Cons.prems(4) e forget_others [of k j s] by (simp add: step_def)
    then show ?thesis using Cons.IH [of G "step s e"] Cons.prems e None by (simp add: times_def)
  next
    case (Some t)
    then have srt: "sorted (times es)" "\<forall>u \<in> set (times es). t \<le> u" "\<forall>u \<in> set G. u \<le> t"
      using Cons.prems e by (auto simp: times_def)
    show ?thesis
    proof (cases "j = k \<and> fst (reserve j t s)")
      case True
      then have "tracks (G @ [t]) (tries k (step s e))"
        using tracks_grant [OF Cons.prems(1) srt(3)] e Some by (auto simp: step_def)
      then show ?thesis using Cons.IH [of "G @ [t]" "step s e"] Cons.prems e Some True srt by (auto simp: times_def)
    next
      case False
      then have "tries k (step s e) = tries k s"
        using e Some refused [of j t s] others [of k j t s] by (cases "j = k") (auto simp: step_def)
      then show ?thesis using Cons.IH [of G "step s e"] Cons.prems e Some False srt by (auto simp: times_def)
    qed
  qed
qed auto

text \<open>No window holds more granted tries than the limit, as long as the key is not forgotten.\<close>

lemma window_limit:
  assumes "tries k s = None" "sorted (times es)" "(k, None) \<notin> set es"
  shows "length (filter (\<lambda>t. a \<le> t \<and> t \<le> a + window) (grants k es s)) \<le> limit"
proof -
  have "tracks [] (tries k s)" by (simp add: tracks_def assms(1))
  then show ?thesis using grants_track [of "[]" k s es] assms by (auto simp: tracks_def)
qed

text \<open>Refused tries do not prolong the wait: a window after the last granted one the key is let through.\<close>

lemma let_through: "(\<And>n l. tries k s = Some (n, l) \<Longrightarrow> window < t - l) \<Longrightarrow> fst (reserve k t s)"
  by (auto simp: granted split: option.splits)

end

end
