(* ===== verification/Users_Passwords.thy ===== *)
theory Users_Passwords
  imports Limiter Storage_Laws
begin

text \<open>
  The password somebody set for themselves (\<^verbatim>\<open>internal/users/passwords.go\<close>).  bcrypt and the htpasswd
  formats are parameters, gathered in \<open>password_env\<close> together with the configured entries.  The mutex
  makes \<open>attempt\<close> and \<open>right\<close> atomic; the password is compared between them without it.
\<close>

section \<open>State\<close>

definition maxWrongPasswords :: nat where "maxWrongPasswords = 5"
definition wrongPasswordsFor :: duration where "wrongPasswordsFor = 15 * minute"

record wrong_passwords =
  wrCount :: nat
  wrLast :: instant

record accounts =
  acStore :: memory
  acWrong :: "(string, wrong_passwords) amap"

text \<open>What \<^verbatim>\<open>Passwords\<close> calls: the configured entry of a user if they are listed, whether a password matches a
  configured entry, and bcrypt's comparison and generation.\<close>

record password_env =
  envConfigured :: "string \<Rightarrow> string option"
  envMatches :: "string \<Rightarrow> string \<Rightarrow> bool"
  envCompare :: "string \<Rightarrow> string \<Rightarrow> bool"
  envGenerate :: "string \<Rightarrow> string res"

section \<open>Operations\<close>

definition attempt :: "string \<Rightarrow> instant \<Rightarrow> accounts \<Rightarrow> bool \<times> accounts" where
  "attempt subject now a =
     (let fresh = \<lparr>wrCount = 0, wrLast = zero_time\<rparr>;
          (record, wrong) =
            (case map_of (acWrong a) subject of
               None \<Rightarrow> (fresh, AList.update subject fresh (acWrong a))
             | Some r \<Rightarrow>
                 if time_sub now (wrLast r) > wrongPasswordsFor
                 then (fresh, AList.update subject fresh (acWrong a))
                 else (r, acWrong a)) in
      if wrCount record \<ge> maxWrongPasswords then (False, a\<lparr>acWrong := wrong\<rparr>)
      else (True, a\<lparr>acWrong := AList.update subject \<lparr>wrCount = wrCount record + 1, wrLast = now\<rparr> wrong\<rparr>))"

definition right :: "string \<Rightarrow> accounts \<Rightarrow> accounts" where
  "right subject a = a\<lparr>acWrong := AList.delete subject (acWrong a)\<rparr>"

definition stored_password :: "string \<Rightarrow> memory \<Rightarrow> string \<times> string" where
  "stored_password subject s =
     (case GetUser subject s of
        Inl e \<Rightarrow> ([], [])
      | Inr u \<Rightarrow> (usrPasswordHash u, usrPasswordFrom u))"

text \<open>The comparison, by the rule the sign-in uses.\<close>

definition password_is :: "password_env \<Rightarrow> string \<Rightarrow> string \<Rightarrow> string \<Rightarrow> memory \<Rightarrow> bool" where
  "password_is env entry subject password s =
     (case stored_password subject s of (stored, from) \<Rightarrow>
        if stored \<noteq> [] \<and> from = entry then envCompare env stored password
        else envMatches env entry password)"

definition Verify :: "password_env \<Rightarrow> string \<Rightarrow> string \<Rightarrow> instant \<Rightarrow> accounts \<Rightarrow> unit res \<times> accounts" where
  "Verify env subject password now a =
     (case envConfigured env subject of
        None \<Rightarrow> (Inl (Sentinel ErrNoPasswordHere), a)
      | Some entry \<Rightarrow>
          (case attempt subject now a of
             (False, a) \<Rightarrow> (Inl (Sentinel ErrTooManyAttempts), a)
           | (True, a) \<Rightarrow>
               if \<not> password_is env entry subject password (acStore a)
               then (Inl (Sentinel ErrWrongPassword), a)
               else (Inr (), right subject a)))"

definition Change :: "password_env \<Rightarrow> string \<Rightarrow> string \<Rightarrow> string \<Rightarrow> instant \<Rightarrow> accounts \<Rightarrow> unit res \<times> accounts" where
  "Change env subject current next now a =
     (case envConfigured env subject of
        None \<Rightarrow> (Inl (Sentinel ErrNoPasswordHere), a)
      | Some entry \<Rightarrow>
          (case Verify env subject current now a of
             (Inl e, a) \<Rightarrow> (Inl e, a)
           | (Inr _, a) \<Rightarrow>
               (case envGenerate env next of
                  Inl e \<Rightarrow> (Inl (wrap_err ''failed to hash the new password'' e), a)
                | Inr hash \<Rightarrow>
                    (case SetUserPassword subject hash entry (acStore a) of
                       (Inl e, s) \<Rightarrow> (Inl (wrap_err ''failed to store the new password'' e), a\<lparr>acStore := s\<rparr>)
                     | (Inr _, s) \<Rightarrow> (Inr (), a\<lparr>acStore := s\<rparr>)))))"

section \<open>The limit\<close>

definition wrong_record :: "string \<Rightarrow> accounts \<Rightarrow> (nat \<times> instant) option" where
  "wrong_record subject a = map_option (\<lambda>r. (wrCount r, wrLast r)) (map_of (acWrong a) subject)"

lemma stale_wrong: "time_sub now l > wrongPasswordsFor \<longleftrightarrow> now - l > wrongPasswordsFor"
  by (rule time_sub_gt) (simp_all add: wrongPasswordsFor_def duration_defs)

lemma attempt_store [simp]: "acStore (snd (attempt subject now a)) = acStore a"
  by (simp add: attempt_def Let_def split: option.splits)

lemma right_simps [simp]: "acStore (right subject a) = acStore a"
  by (simp add: right_def)

interpretation pw: attempt_limiter attempt right wrong_record maxWrongPasswords wrongPasswordsFor
proof unfold_locales
  show "0 < maxWrongPasswords" "0 \<le> wrongPasswordsFor"
    by (simp_all add: maxWrongPasswords_def wrongPasswordsFor_def duration_defs)
  show "fst (attempt k t s) \<longleftrightarrow>
      (case wrong_record k s of None \<Rightarrow> True | Some (n, l) \<Rightarrow> wrongPasswordsFor < t - l \<or> n < maxWrongPasswords)" for k t s
    by (auto simp: attempt_def wrong_record_def Let_def stale_wrong maxWrongPasswords_def split: option.splits)
  show "wrong_record k (snd (attempt k t s)) =
      Some (case wrong_record k s of None \<Rightarrow> 1 | Some (n, l) \<Rightarrow> if wrongPasswordsFor < t - l then 1 else Suc n, t)"
    if "fst (attempt k t s)" for k t s
    using that by (auto simp: attempt_def wrong_record_def Let_def stale_wrong maxWrongPasswords_def update_conv'
        split: option.splits if_splits)
  show "wrong_record k (snd (attempt k t s)) = wrong_record k s" if "\<not> fst (attempt k t s)" for k t s
    using that by (auto simp: attempt_def wrong_record_def Let_def maxWrongPasswords_def split: option.splits if_splits)
  show "wrong_record j (snd (attempt k t s)) = wrong_record j s" if "j \<noteq> k" for j k t s
    using that by (auto simp: attempt_def wrong_record_def Let_def update_conv' split: option.splits)
  show "wrong_record k (right k s) = None" for k s
    by (simp add: right_def wrong_record_def delete_conv')
  show "wrong_record j (right k s) = wrong_record j s" if "j \<noteq> k" for j k s
    using that by (simp add: right_def wrong_record_def delete_conv')
qed

section \<open>Properties\<close>







text \<open>What bcrypt promises: the hash of a password matches it, and is not empty.\<close>

definition bcrypt_laws :: "password_env \<Rightarrow> bool" where
  "bcrypt_laws env \<longleftrightarrow> (\<forall>p h. envGenerate env p = Inr h \<longrightarrow> h \<noteq> [] \<and> envCompare env h p)"

lemma Verify_store [simp]: "acStore (snd (Verify env subject p now a)) = acStore a"
  unfolding Verify_def using attempt_store [of subject now a] by (auto simp del: attempt_store split: option.splits prod.splits bool.splits)

lemma Verify_OkD:
  assumes "Verify env subject p now a = (Inr u, b)"
  shows "\<exists>entry. envConfigured env subject = Some entry \<and> password_is env entry subject p (acStore a)"
    "map_of (acWrong b) subject = None"
  using assms attempt_store [of subject now a] unfolding Verify_def
  by (auto simp: right_def delete_conv' simp del: attempt_store split: option.splits prod.splits bool.splits if_splits)

lemma Verify_fresh:
  assumes "map_of (acWrong a) subject = None" "envConfigured env subject = Some entry"
  shows "fst (Verify env subject p now a) =
     (if password_is env entry subject p (acStore a) then Inr () else Inl (Sentinel ErrWrongPassword))"
proof -
  have "fst (attempt subject now a)" using pw.let_through [of subject a now] assms(1) by (simp add: wrong_record_def)
  then obtain b where b: "attempt subject now a = (True, b)" by (cases "attempt subject now a") auto
  then have "acStore b = acStore a" using attempt_store [of subject now a] by simp
  then show ?thesis using b assms(2) by (simp add: Verify_def)
qed

text \<open>
  Changing a password needs the current one.  A change that fails leaves the storage as it was; after one
  that succeeds the new password is the user's password, at once and for as long as the configured entry
  stays the same, and when an administrator replaces that entry, only what matches the new entry is.
\<close>

theorem password_change:
  assumes "Change env subject current next now a = (r, b)" "bcrypt_laws env"
  shows "case r of
      Inl e \<Rightarrow> acStore b = acStore a
    | Inr u \<Rightarrow> \<exists>entry. envConfigured env subject = Some entry \<and> password_is env entry subject current (acStore a) \<and>
        fst (Verify env subject next later b) = Inr () \<and>
        (\<forall>entry' p. entry' \<noteq> entry \<longrightarrow> password_is env entry' subject p (acStore b) = envMatches env entry' p)"
proof (cases r)
  case (Inl e)
  have "acStore b = acStore a"
    using assms(1) Verify_store [of env subject current now a] unfolding Change_def Inl
    by (auto simp: SetUserPassword_def simp del: Verify_store split: option.splits prod.splits sum.splits)
  then show ?thesis using Inl by simp
next
  case (Inr u)
  obtain entry where entry: "envConfigured env subject = Some entry"
    using assms(1) Inr by (auto simp: Change_def split: option.splits)
  obtain v c where v: "Verify env subject current now a = (Inr v, c)"
    using assms(1) Inr entry by (auto simp: Change_def split: prod.splits sum.splits)
  obtain hash where hash: "envGenerate env next = Inr hash"
    using assms(1) Inr entry v by (auto simp: Change_def split: sum.splits)
  have st: "acStore c = acStore a" using Verify_store [of env subject current now a] v by simp
  obtain x where x: "map_of (users (acStore a)) subject = Some x"
    and b: "b = c\<lparr>acStore := (acStore a)\<lparr>users := AList.update subject (x\<lparr>usrPasswordHash := hash, usrPasswordFrom := entry\<rparr>) (users (acStore a))\<rparr>\<rparr>"
    using assms(1) Inr entry v hash by (auto simp: Change_def SetUserPassword_def st split: option.splits)
  have sp: "stored_password subject (acStore b) = (hash, entry)"
    by (simp add: b stored_password_def GetUser_def update_conv')
  have "password_is env entry subject next (acStore b)"
    using assms(2) hash by (auto simp: password_is_def sp bcrypt_laws_def)
  moreover have "map_of (acWrong b) subject = None" using Verify_OkD(2) [OF v] by (simp add: b)
  ultimately have "fst (Verify env subject next later b) = Inr ()" using Verify_fresh [OF _ entry] by simp
  moreover have "password_is env entry subject current (acStore a)" using Verify_OkD(1) [OF v] entry by simp
  moreover have "password_is env entry' subject p (acStore b) = envMatches env entry' p" if "entry' \<noteq> entry" for entry' p
    using that by (simp add: password_is_def sp)
  ultimately show ?thesis using Inr entry by auto
qed

text \<open>An environment for examples: configured entries hold the password as it is, and a hash marks it.\<close>

definition plain_env :: password_env where
  "plain_env = \<lparr>envConfigured = (\<lambda>u. map_of [(''alice'', ''secret'')] u), envMatches = (\<lambda>e p. e = p),
     envCompare = (\<lambda>h p. h = CHR ''$'' # p), envGenerate = (\<lambda>p. Inr (CHR ''$'' # p))\<rparr>"

definition alice :: user where
  "alice = \<lparr>usrSubject = ''alice'', usrProvider = ''simple'', usrName = ''alice'', usrEmail = [], usrPolicies = [],
     usrLastLogin = 0, usrPasswordHash = [], usrWebauthnChallenge = [], usrWebauthnChallengeUntil = None,
     usrTotpSecret = [], usrTotpEnabledAt = None, usrTotpRecovery = [], usrTotpLastStep = 0, usrPasswordFrom = []\<rparr>"

definition alice_accounts :: accounts where
  "alice_accounts = \<lparr>acStore = NewMemoryStorage\<lparr>users := [(''alice'', alice)]\<rparr>, acWrong = []\<rparr>"

lemma plain_env_laws: "bcrypt_laws plain_env"
  by (simp add: bcrypt_laws_def plain_env_def)

theorem password_change_witness:
  "\<exists>b. Change plain_env ''alice'' ''secret'' ''better'' 0 alice_accounts = (Inr (), b) \<and>
     fst (Verify plain_env ''alice'' ''better'' 60 b) = Inr ()"
proof -
  obtain b where b: "Change plain_env ''alice'' ''secret'' ''better'' 0 alice_accounts = (Inr (), b)"
  proof
    show "Change plain_env ''alice'' ''secret'' ''better'' 0 alice_accounts =
        (Inr (), snd (Change plain_env ''alice'' ''secret'' ''better'' 0 alice_accounts))" by code_simp
  qed
  then show ?thesis using password_change [OF b plain_env_laws, of 60] by auto
qed

end
