(* ===== verification/Auth_Config.thy ===== *)
theory Auth_Config
  imports Http Users_Passwords "HOL-Library.List_Lexorder" "HOL-Library.Char_ord"
begin

text \<open>
  The configuration of the sign-in (\<^verbatim>\<open>internal/authnz/authconfig\<close>: \<^verbatim>\<open>authconfig.go\<close>, the password check of
  \<^verbatim>\<open>basic.go\<close>), and who it makes an administrator (\<^verbatim>\<open>ClaimsMiddleware\<close> of \<^verbatim>\<open>internal/authnz/router.go\<close>).
  A pointer that may be nil is an option; the htpasswd formats and URLs are the libraries' business.
\<close>

section \<open>Providers\<close>

definition BasicAuthProvider :: string where "BasicAuthProvider = ''basic''"
definition SimpleAuthProvider :: string where "SimpleAuthProvider = ''simple''"
definition OIDCAuthProvider :: string where "OIDCAuthProvider = ''oidc''"
definition GitlabAuthProvider :: string where "GitlabAuthProvider = ''gitlab''"
definition GithubAuthProvider :: string where "GithubAuthProvider = ''github''"

text \<open>A rule is kept as the expression it was read from.\<close>

record oidc_config =
  oiName :: string
  oiIssuer :: string
  oiClientID :: string
  oiClientSecret :: string
  oiScopes :: "string list"
  oiRedirectURL :: string
  oiEmailDomains :: "string list"
  oiClaimMapping :: "(string, string) amap"
  oiPolicyMapping :: "(string, string) amap"
  oiClaimsFromIDToken :: bool
  oiAccessClaim :: string

record gitlab_config =
  glName :: string
  glBaseURL :: string
  glClientID :: string
  glClientSecret :: string
  glRedirectURL :: string
  glEmailDomains :: "string list"

record github_config =
  ghName :: string
  ghClientID :: string
  ghClientSecret :: string
  ghRedirectURL :: string
  ghBaseURL :: string
  ghOrganizations :: "string list"
  ghTeams :: "string list"
  ghUsers :: "string list"
  ghAdminTeams :: "string list"
  ghAdminUsers :: "string list"

record provider_config =
  pcOIDC :: "oidc_config option"
  pcGitlab :: "gitlab_config option"
  pcGithub :: "github_config option"
  pcBasic :: "string list option"
  pcSimple :: "string list option"

record session_store_config =
  ssSecret :: string
  ssSecure :: bool
  ssMaxAge :: string

record auth_config =
  auSessionStore :: "session_store_config option"
  auProvider :: provider_config
  auMultiple :: "(string, provider_config option) amap"

definition nil_pointer :: go_error where
  "nil_pointer = Panic ''invalid memory address or nil pointer dereference''"

text \<open>The entries of \<^verbatim>\<open>multiple\<close>; reading a field of one that is nil panics.\<close>

definition multiple_of :: "auth_config \<Rightarrow> (string \<times> provider_config) list res" where
  "multiple_of c =
     (if None \<in> set (map snd (auMultiple c)) then Inl nil_pointer
      else Inr (map (\<lambda>(k, p). (k, the p)) (auMultiple c)))"

definition IsEnabled :: "auth_config \<Rightarrow> bool" where
  "IsEnabled c =
     (pcOIDC (auProvider c) \<noteq> None \<or> pcGitlab (auProvider c) \<noteq> None \<or> pcGithub (auProvider c) \<noteq> None \<or>
      pcBasic (auProvider c) \<noteq> None \<or> pcSimple (auProvider c) \<noteq> None \<or> length (auMultiple c) > 0)"

definition HasPassword :: "string \<Rightarrow> bool" where
  "HasPassword provider = (provider = BasicAuthProvider \<or> provider = SimpleAuthProvider)"

section \<open>The users of the built-in sign-in\<close>

definition parsehtpassword :: "string \<Rightarrow> (string \<times> string) option" where
  "parsehtpassword user =
     (case cut_byte CHR '':'' user of
        None \<Rightarrow> None
      | Some (username, hash) \<Rightarrow> if username = [] \<or> hash = [] then None else Some (username, hash))"

text \<open>The formats of the htpasswd library: a reader accepts an entry in its format, and says which passwords match.\<close>

record htpasswd =
  AcceptBcrypt :: "string \<Rightarrow> (string \<Rightarrow> bool) option"
  AcceptSha :: "string \<Rightarrow> (string \<Rightarrow> bool) option"
  AcceptSsha :: "string \<Rightarrow> (string \<Rightarrow> bool) option"
  AcceptMd5 :: "string \<Rightarrow> (string \<Rightarrow> bool) option"

definition checkhtpasswd :: "htpasswd \<Rightarrow> string \<Rightarrow> string \<Rightarrow> bool" where
  "checkhtpasswd H required given =
     (case AcceptBcrypt H required of Some m \<Rightarrow> m given | None \<Rightarrow>
      (case AcceptSha H required of Some m \<Rightarrow> m given | None \<Rightarrow>
       (case AcceptSsha H required of Some m \<Rightarrow> m given | None \<Rightarrow>
        (case AcceptMd5 H required of Some m \<Rightarrow> m given | None \<Rightarrow> False))))"

definition PasswordMatches :: "htpasswd \<Rightarrow> string \<Rightarrow> string \<Rightarrow> bool" where
  "PasswordMatches H entry password = checkhtpasswd H entry password"

text \<open>What \<^verbatim>\<open>passwordOf\<close> looks up is an argument: the stored hash of a user and the entry it was set against.  For an
  unknown user the code compares with a dummy hash and discards the answer.\<close>

fun checkCreds ::
  "htpasswd \<Rightarrow> (string \<Rightarrow> string \<Rightarrow> bool) \<Rightarrow> (string \<Rightarrow> string \<times> string) \<Rightarrow> string list \<Rightarrow> string \<Rightarrow> string \<Rightarrow> bool" where
  "checkCreds H compare stored [] username password = False"
| "checkCreds H compare stored (user # us) username password =
     (case parsehtpassword user of
        None \<Rightarrow> checkCreds H compare stored us username password
      | Some (u, configured) \<Rightarrow>
          if u \<noteq> username then checkCreds H compare stored us username password
          else (case stored username of (hash, from) \<Rightarrow>
              if hash \<noteq> [] \<and> from = configured then compare hash password
              else checkhtpasswd H configured password))"

text \<open>The lists \<^verbatim>\<open>ConfiguredEntry\<close> goes through, in order.\<close>

definition lists_of :: "provider_config \<Rightarrow> string list list" where
  "lists_of p =
     (case pcBasic p of None \<Rightarrow> [] | Some us \<Rightarrow> [us]) @ (case pcSimple p of None \<Rightarrow> [] | Some us \<Rightarrow> [us])"

fun entry_in :: "string \<Rightarrow> string list \<Rightarrow> string option" where
  "entry_in subject [] = None"
| "entry_in subject (user # us) =
     (case parsehtpassword user of
        None \<Rightarrow> entry_in subject us
      | Some (name, entry) \<Rightarrow> if name = subject then Some entry else entry_in subject us)"

definition ConfiguredEntry :: "auth_config \<Rightarrow> string \<Rightarrow> string option res" where
  "ConfiguredEntry c subject =
     (case multiple_of c of
        Inl e \<Rightarrow> Inl e
      | Inr ps \<Rightarrow> Inr (entry_in subject (concat (lists_of (auProvider c) @ concat (map (\<lambda>(k, p). lists_of p) ps)))))"

definition ConfiguredEntries :: "auth_config \<Rightarrow> nat res" where
  "ConfiguredEntries c =
     (case multiple_of c of
        Inl e \<Rightarrow> Inl e
      | Inr ps \<Rightarrow> Inr (sum_list (map length (lists_of (auProvider c) @ concat (map (\<lambda>(k, p). lists_of p) ps)))))"

definition DesiresSignInPage :: "auth_config \<Rightarrow> bool res" where
  "DesiresSignInPage c =
     (if pcBasic (auProvider c) \<noteq> None then Inr True
      else foldr (\<lambda>(k, p) rest. case p of
             None \<Rightarrow> Inl nil_pointer
           | Some p \<Rightarrow> if pcBasic p \<noteq> None then Inr True else rest) (auMultiple c) (Inr False))"

section \<open>Names\<close>

definition github_name :: "github_config \<Rightarrow> string" where
  "github_name c = (if ghName c = [] then ''GitHub'' else ghName c)"

text \<open>\<^verbatim>\<open>identityProviderNames\<close>: where each identity provider is configured, by name.\<close>

definition add_name :: "(string, string list) amap \<Rightarrow> string \<times> string \<Rightarrow> (string, string list) amap" where
  "add_name names e =
     (case e of (name, where_) \<Rightarrow>
        AList.update name ((case map_of names name of None \<Rightarrow> [] | Some ws \<Rightarrow> ws) @ [where_]) names)"

definition named :: "string \<Rightarrow> string \<Rightarrow> string" where
  "named name k = (if name = [] then k else name)"

definition names_in :: "string \<times> provider_config option \<Rightarrow> (string \<times> string) list" where
  "names_in e =
     (case e of
        (k, None) \<Rightarrow> []
      | (k, Some p) \<Rightarrow>
          (case pcOIDC p of None \<Rightarrow> [] | Some o' \<Rightarrow> [(named (oiName o') k, ''auth.multiple.'' @ k @ ''.oidc'')]) @
          (case pcGitlab p of None \<Rightarrow> [] | Some g \<Rightarrow> [(glName g, ''auth.multiple.'' @ k @ ''.gitlab'')]) @
          (case pcGithub p of None \<Rightarrow> [] | Some g \<Rightarrow> [(named (ghName g) k, ''auth.multiple.'' @ k @ ''.github'')]))"

definition identityProviderNames :: "auth_config \<Rightarrow> (string, string list) amap" where
  "identityProviderNames c =
     foldl add_name []
       ((case pcOIDC (auProvider c) of None \<Rightarrow> [] | Some o' \<Rightarrow> [(oiName o', ''auth.oidc'')]) @
        (case pcGitlab (auProvider c) of None \<Rightarrow> [] | Some g \<Rightarrow> [(glName g, ''auth.gitlab'')]) @
        (case pcGithub (auProvider c) of None \<Rightarrow> [] | Some g \<Rightarrow> [(github_name g, ''auth.github'')]) @
        concat (map names_in (auMultiple c)))"

definition PolicyNames :: "auth_config \<Rightarrow> (string, string list) amap res" where
  "PolicyNames c =
     (case multiple_of c of
        Inl e \<Rightarrow> Inl e
      | Inr ps \<Rightarrow>
          Inr (foldl add_name []
            (concat (map (\<lambda>(provider, p). case pcOIDC p of None \<Rightarrow> []
                | Some o' \<Rightarrow> map (\<lambda>(name, rule). (provider, name)) (oiPolicyMapping o'))
              ((''auth.oidc'', auProvider c) # map (\<lambda>(k, p). (''auth.multiple.'' @ k, p)) ps)))))"

section \<open>GitHub's entries\<close>

text \<open>\<^verbatim>\<open>strconv.ParseInt\<close> in base ten and 64 bits.\<close>

definition digits_value :: "string \<Rightarrow> nat option" where
  "digits_value s =
     (if s = [] \<or> \<not> list_all is_dec s then None else Some (foldl (\<lambda>n c. 10 * n + dec_val c) 0 s))"

definition ParseInt :: "string \<Rightarrow> int option" where
  "ParseInt s =
     (let (neg, ds) = (case s of [] \<Rightarrow> (False, []) | c # cs \<Rightarrow>
            if c = CHR ''-'' then (True, cs) else if c = CHR ''+'' then (False, cs) else (False, s)) in
      case digits_value ds of
        None \<Rightarrow> None
      | Some n \<Rightarrow>
          (let v = (if neg then - int n else int n) in
           if - (2 ^ 63) \<le> v \<and> v < 2 ^ 63 then Some v else None))"

record github_user =
  guLogin :: string
  guID :: int

definition parseGithubUser :: "string \<Rightarrow> github_user res" where
  "parseGithubUser entry =
     (let bad = Inl (Err (''user '' @ entry @ '' is not of the form login:id - a login alone can be registered by somebody else once it is free'')) in
      case cut_byte CHR '':'' entry of
        None \<Rightarrow> bad
      | Some (login, i) \<Rightarrow>
          (case ParseInt i of
             None \<Rightarrow> bad
           | Some parsed \<Rightarrow> if login = [] \<or> parsed \<le> 0 then bad else Inr \<lparr>guLogin = login, guID = parsed\<rparr>))"

fun findGithubUser :: "string list \<Rightarrow> int \<Rightarrow> github_user option" where
  "findGithubUser [] i = None"
| "findGithubUser (entry # es) i =
     (case parseGithubUser entry of
        Inl e \<Rightarrow> findGithubUser es i
      | Inr u \<Rightarrow> if guID u = i then Some u else findGithubUser es i)"

definition trim_slash :: "string \<Rightarrow> string" where
  "trim_slash s = (if s \<noteq> [] \<and> last s = CHR ''/'' then butlast s else s)"

text \<open>\<^verbatim>\<open>endpoints\<close>: where to sign in, where to exchange the code, and where the API is.\<close>

definition github_endpoints :: "github_config \<Rightarrow> string \<times> string \<times> string" where
  "github_endpoints c =
     (if ghBaseURL c = []
      then (''https://github.com/login/oauth/authorize'', ''https://github.com/login/oauth/access_token'', ''https://api.github.com'')
      else (let base = trim_slash (ghBaseURL c) in
            (base @ ''/login/oauth/authorize'', base @ ''/login/oauth/access_token'', base @ ''/api/v3'')))"

definition apiURL :: "github_config \<Rightarrow> string" where
  "apiURL c = snd (snd (github_endpoints c))"

definition team_ok :: "string \<Rightarrow> bool" where
  "team_ok team =
     (case cut_byte CHR ''/'' team of
        None \<Rightarrow> False
      | Some (org, slug) \<Rightarrow> org \<noteq> [] \<and> slug \<noteq> [] \<and> CHR ''/'' \<notin> set slug)"

text \<open>What \<^verbatim>\<open>url.Parse\<close> says of a string, its scheme and host, is an argument.\<close>

definition github_Validate :: "(string \<Rightarrow> (string \<times> string) res) \<Rightarrow> github_config \<Rightarrow> unit res" where
  "github_Validate url_parse c =
     (if ghClientID c = [] \<or> ghClientSecret c = [] \<or> ghRedirectURL c = []
      then Inl (Err ''clientID, clientSecret and redirectURL are required'')
      else (case url_parse (ghRedirectURL c) of
          Inl e \<Rightarrow> Inl (wrap_err (''redirectURL is not a URL: '' @ ghRedirectURL c) e)
        | Inr _ \<Rightarrow>
            if ghBaseURL c \<noteq> [] \<and> (case url_parse (ghBaseURL c) of Inl e \<Rightarrow> True | Inr (scheme, host) \<Rightarrow> scheme = [] \<or> host = [])
            then Inl (Err (''baseURL is not a URL such as https://github.example.com: '' @ ghBaseURL c))
            else if ghOrganizations c = [] \<and> ghTeams c = [] \<and> ghUsers c = []
            then Inl (Err ''anybody can create a GitHub account - restrict who may sign in with organizations, teams or users'')
            else (case find (\<lambda>e. \<not> is_ok (parseGithubUser e)) (ghUsers c @ ghAdminUsers c) of
                Some entry \<Rightarrow>
                  (case parseGithubUser entry of
                     Inl e \<Rightarrow> Inl (Wrap (''(the id of a login is at '' @ apiURL c @ ''/users/<login>)'') e)
                   | Inr u \<Rightarrow> Inr ())
              | None \<Rightarrow>
                  (case find (\<lambda>t. \<not> team_ok t) (ghTeams c @ ghAdminTeams c) of
                     Some team \<Rightarrow> Inl (Err (''team '' @ team @ '' is not of the form organization/team-slug''))
                   | None \<Rightarrow> Inr ()))))"

section \<open>Validation and the list of providers\<close>

fun validate_multiple :: "(string \<Rightarrow> (string \<times> string) res) \<Rightarrow> (string \<times> provider_config option) list \<Rightarrow> unit res" where
  "validate_multiple url_parse [] = Inr ()"
| "validate_multiple url_parse ((k, None) # ps) = Inl nil_pointer"
| "validate_multiple url_parse ((k, Some p) # ps) =
     (case pcGithub p of
        None \<Rightarrow> validate_multiple url_parse ps
      | Some g \<Rightarrow>
          (case github_Validate url_parse g of
             Inl e \<Rightarrow> Inl (wrap_err (''auth.multiple.'' @ k @ ''.github'') e)
           | Inr _ \<Rightarrow> validate_multiple url_parse ps))"

fun check_names :: "(string \<times> string list) list \<Rightarrow> unit res" where
  "check_names [] = Inr ()"
| "check_names ((name, ws) # rest) =
     (if name = BasicAuthProvider \<or> name = SimpleAuthProvider
      then Inl (Err (hd (sort ws) @ '': the name '' @ name @ '' is taken by the built-in sign-in, give the provider another one''))
      else if length ws > 1
      then Inl (Err (go_join '' and '' (sort ws) @ '' share the name '' @ name @ '': their users could not be told apart, give each provider its own''))
      else check_names rest)"

definition Validate :: "(string \<Rightarrow> (string \<times> string) res) \<Rightarrow> auth_config \<Rightarrow> unit res" where
  "Validate url_parse c =
     (case (case pcGithub (auProvider c) of None \<Rightarrow> Inr () | Some g \<Rightarrow> github_Validate url_parse g) of
        Inl e \<Rightarrow> Inl (wrap_err ''auth.github'' e)
      | Inr _ \<Rightarrow>
          (case validate_multiple url_parse (auMultiple c) of
             Inl e \<Rightarrow> Inl e
           | Inr _ \<Rightarrow>
               (let names = identityProviderNames c in
                check_names (map (\<lambda>name. (name, the (map_of names name))) (sort (map fst names))))))"

text \<open>A provider by its type and the name its users carry.\<close>

definition providers_of :: "provider_config \<Rightarrow> (oidc_config \<Rightarrow> string) \<Rightarrow> (github_config \<Rightarrow> string) \<Rightarrow> (string \<times> string) list" where
  "providers_of p oidc_name gh_name =
     (case pcOIDC p of None \<Rightarrow> [] | Some o' \<Rightarrow> [(OIDCAuthProvider, oidc_name o')]) @
     (case pcGitlab p of None \<Rightarrow> [] | Some g \<Rightarrow> [(GitlabAuthProvider, glName g)]) @
     (case pcGithub p of None \<Rightarrow> [] | Some g \<Rightarrow> [(GithubAuthProvider, gh_name g)]) @
     (case pcBasic p of None \<Rightarrow> [] | Some us \<Rightarrow> [(BasicAuthProvider, BasicAuthProvider)]) @
     (case pcSimple p of None \<Rightarrow> [] | Some us \<Rightarrow> [(SimpleAuthProvider, SimpleAuthProvider)])"

definition Providers :: "auth_config \<Rightarrow> (string \<times> string) list res" where
  "Providers c =
     (case multiple_of c of
        Inl e \<Rightarrow> Inl e
      | Inr ps \<Rightarrow>
          Inr (providers_of (auProvider c) oiName github_name @
            concat (map (\<lambda>(k, p). providers_of p (\<lambda>o'. named (oiName o') k) (\<lambda>g. github_name (g\<lparr>ghName := named (ghName g) k\<rparr>))) ps)))"

section \<open>Claims\<close>

datatype login_error = NotAuthenticated string | NotAuthorized string

fun oidc_in :: "string \<Rightarrow> (string \<times> provider_config option) list \<Rightarrow> oidc_config option res" where
  "oidc_in name [] = Inr None"
| "oidc_in name ((k, None) # ps) = Inl nil_pointer"
| "oidc_in name ((k, Some p) # ps) =
     (case pcOIDC p of
        None \<Rightarrow> oidc_in name ps
      | Some o' \<Rightarrow> if oiName o' = name \<or> (oiName o' = [] \<and> k = name) then Inr (Some o') else oidc_in name ps)"

definition findOIDCProvider :: "auth_config \<Rightarrow> string \<Rightarrow> oidc_config option res" where
  "findOIDCProvider c name =
     (case pcOIDC (auProvider c) of
        Some o' \<Rightarrow> if oiName o' = name then Inr (Some o') else oidc_in name (auMultiple c)
      | None \<Rightarrow> oidc_in name (auMultiple c))"

text \<open>The middleware changes the claims of the identity it is given, also when it then refuses it; the error is either
  its own or a panic.\<close>

definition ClaimsMiddleware ::
  "string \<Rightarrow> auth_config \<Rightarrow> identity option \<Rightarrow> (go_error + login_error option) \<times> identity option" where
  "ClaimsMiddleware adminUsername auth user =
     (case user of
        None \<Rightarrow> (Inr (Some (NotAuthenticated ''User is not logged in'')), None)
      | Some u \<Rightarrow>
          (let u1 = (if (idProvider u = BasicAuthProvider \<or> idProvider u = SimpleAuthProvider) \<and> idSubject u = adminUsername
                     then u\<lparr>idClaims := MakeAdmin (idClaims u)\<rparr> else u) in
           case findOIDCProvider auth (idProvider u1) of
             Inl e \<Rightarrow> (Inl e, Some u1)
           | Inr (Some o') \<Rightarrow>
               if oiAccessClaim o' \<noteq> [] \<and> \<not> claims_Has (idClaims u1) (oiAccessClaim o') ''true''
               then (Inr (Some (NotAuthorized ''User has no access'')), Some u1)
               else (Inr None, Some u1)
           | Inr None \<Rightarrow> (Inr None, Some u1)))"

section \<open>The password at sign-in\<close>

lemma checkCreds_entry:
  "checkCreds H compare stored us username password =
     (case entry_in username us of
        None \<Rightarrow> False
      | Some entry \<Rightarrow> (case stored username of (hash, from) \<Rightarrow>
          if hash \<noteq> [] \<and> from = entry then compare hash password else checkhtpasswd H entry password))"
  by (induction us) (auto split: option.splits)

text \<open>The environment of \<^verbatim>\<open>Passwords\<close> in the server: the configured entries and the htpasswd check.\<close>

definition server_env ::
  "htpasswd \<Rightarrow> (string \<Rightarrow> string \<Rightarrow> bool) \<Rightarrow> (string \<Rightarrow> string res) \<Rightarrow> auth_config \<Rightarrow> password_env" where
  "server_env H compare generate c =
     \<lparr>envConfigured = (\<lambda>u. case ConfiguredEntry c u of Inl e \<Rightarrow> None | Inr entry \<Rightarrow> entry),
      envMatches = PasswordMatches H, envCompare = compare, envGenerate = generate\<rparr>"

text \<open>
  The sign-in and an account's own actions agree on what somebody's password is: for a provider that lists a
  user with the entry the configuration as a whole holds for them, the form accepts exactly the passwords
  that the check before a sensitive action accepts.
\<close>

theorem sign_in_rule:
  assumes "entry_in u us = Some entry" "ConfiguredEntry c u = Inr (Some entry)" "map_of (acWrong a) u = None"
  shows "checkCreds H compare (\<lambda>u. stored_password u (acStore a)) us u password \<longleftrightarrow>
    fst (Verify (server_env H compare generate c) u password now a) = Inr ()"
  using assms Verify_fresh [OF assms(3), of "server_env H compare generate c" entry password now]
  by (simp add: checkCreds_entry server_env_def password_is_def PasswordMatches_def split: prod.splits)

section \<open>Names tell providers apart\<close>

lemma add_names:
  "map_of (foldl add_name m xs) n =
     (case filter (\<lambda>x. fst x = n) xs of
        [] \<Rightarrow> map_of m n
      | ys \<Rightarrow> Some ((case map_of m n of None \<Rightarrow> [] | Some ws \<Rightarrow> ws) @ map snd ys))"
proof (induction xs arbitrary: m)
  case (Cons x xs)
  then show ?case by (cases x) (auto simp: add_name_def update_conv' split: list.splits option.splits)
qed simp

lemma add_names_keys: "set (map fst (foldl add_name m xs)) = set (map fst m) \<union> set (map fst xs)"
proof (induction xs arbitrary: m)
  case (Cons x xs)
  have "set (map fst (add_name m x)) = insert (fst x) (set (map fst m))"
    by (cases x) (simp add: add_name_def update_keys, blast)
  then show ?case using Cons [of "add_name m x"] by auto
qed simp

lemma check_names_Ok:
  "check_names xs = Inr u \<Longrightarrow> (n, ws) \<in> set xs \<Longrightarrow> n \<noteq> BasicAuthProvider \<and> n \<noteq> SimpleAuthProvider \<and> length ws \<le> 1"
  by (induction xs rule: check_names.induct) (auto split: if_splits)

text \<open>The names of the identity providers, in the order of the code.\<close>

definition provider_names :: "auth_config \<Rightarrow> (string \<times> string) list" where
  "provider_names c =
     (case pcOIDC (auProvider c) of None \<Rightarrow> [] | Some o' \<Rightarrow> [(oiName o', ''auth.oidc'')]) @
     (case pcGitlab (auProvider c) of None \<Rightarrow> [] | Some g \<Rightarrow> [(glName g, ''auth.gitlab'')]) @
     (case pcGithub (auProvider c) of None \<Rightarrow> [] | Some g \<Rightarrow> [(github_name g, ''auth.github'')]) @
     concat (map names_in (auMultiple c))"

lemma identityProviderNames_eq: "identityProviderNames c = foldl add_name [] (provider_names c)"
  by (simp add: identityProviderNames_def provider_names_def)

lemma count_one_distinct: "(\<And>n. length (filter (\<lambda>x. fst x = n) xs) \<le> 1) \<Longrightarrow> distinct (map fst xs)"
proof (induction xs)
  case (Cons x xs)
  have one: "length (filter (\<lambda>y. fst y = n) (x # xs)) \<le> 1" for n by (rule Cons.prems)
  have "filter (\<lambda>y. fst y = fst x) xs = []" using one [of "fst x"] by simp
  moreover have "length (filter (\<lambda>y. fst y = n) xs) \<le> 1" for n using one [of n] by (simp split: if_splits)
  ultimately show ?case using Cons.IH by (auto simp: filter_empty_conv)
qed simp

lemma Validate_names:
  assumes "Validate url_parse c = Inr u"
  shows "distinct (map fst (provider_names c))"
    "n \<in> set (map fst (provider_names c)) \<Longrightarrow> n \<noteq> BasicAuthProvider \<and> n \<noteq> SimpleAuthProvider"
proof -
  let ?m = "identityProviderNames c"
  have ok: "check_names (map (\<lambda>name. (name, the (map_of ?m name))) (sort (map fst ?m))) = Inr u"
    using assms by (auto simp: Validate_def Let_def split: sum.splits)
  have each: "n \<noteq> BasicAuthProvider \<and> n \<noteq> SimpleAuthProvider \<and> length (filter (\<lambda>x. fst x = n) (provider_names c)) \<le> 1"
    if "n \<in> set (map fst (provider_names c))" for n
  proof -
    have "n \<in> set (map fst ?m)" using that add_names_keys [of "[]"] by (simp add: identityProviderNames_eq)
    then have "(n, the (map_of ?m n)) \<in> set (map (\<lambda>name. (name, the (map_of ?m name))) (sort (map fst ?m)))" by simp
    note * = check_names_Ok [OF ok this]
    have "filter (\<lambda>x. fst x = n) (provider_names c) \<noteq> []" using that by (auto simp: filter_empty_conv)
    then obtain y ys where "filter (\<lambda>x. fst x = n) (provider_names c) = y # ys" by (meson list.exhaust)
    then show ?thesis using * add_names [of "[]" "provider_names c" n] by (simp add: identityProviderNames_eq)
  qed
  have "length (filter (\<lambda>x. fst x = n) (provider_names c)) \<le> 1" for n
  proof (cases "n \<in> set (map fst (provider_names c))")
    case False
    then have "filter (\<lambda>x. fst x = n) (provider_names c) = []" by (force simp: filter_empty_conv)
    then show ?thesis by simp
  qed (use each in blast)
  then show "distinct (map fst (provider_names c))" by (rule count_one_distinct)
  show "n \<in> set (map fst (provider_names c)) \<Longrightarrow> n \<noteq> BasicAuthProvider \<and> n \<noteq> SimpleAuthProvider"
    using each by blast
qed

text \<open>
  What the providers of a configuration must be like for the server to start with them, said of the entries
  themselves and not with the functions that check them.
\<close>

definition all_providers :: "auth_config \<Rightarrow> provider_config list" where
  "all_providers c = auProvider c # List.map_filter snd (auMultiple c)"

definition github_usable :: "(string \<Rightarrow> (string \<times> string) res) \<Rightarrow> github_config \<Rightarrow> bool" where
  "github_usable url_parse g \<longleftrightarrow>
     ghClientID g \<noteq> [] \<and> ghClientSecret g \<noteq> [] \<and> ghRedirectURL g \<noteq> [] \<and> (\<exists>u. url_parse (ghRedirectURL g) = Inr u) \<and>
     (ghBaseURL g = [] \<or> (\<exists>scheme host. url_parse (ghBaseURL g) = Inr (scheme, host) \<and> scheme \<noteq> [] \<and> host \<noteq> [])) \<and>
     (ghOrganizations g \<noteq> [] \<or> ghTeams g \<noteq> [] \<or> ghUsers g \<noteq> []) \<and>
     (\<forall>e \<in> set (ghUsers g @ ghAdminUsers g). \<exists>login i n. e = login @ '':'' @ i \<and> login \<noteq> [] \<and> ParseInt i = Some n \<and> 0 < n) \<and>
     (\<forall>t \<in> set (ghTeams g @ ghAdminTeams g). \<exists>org slug. t = org @ ''/'' @ slug \<and> org \<noteq> [] \<and> slug \<noteq> [] \<and>
        CHR ''/'' \<notin> set org \<and> CHR ''/'' \<notin> set slug)"

definition providers_usable :: "(string \<Rightarrow> (string \<times> string) res) \<Rightarrow> auth_config \<Rightarrow> bool" where
  "providers_usable url_parse c \<longleftrightarrow>
     None \<notin> snd ` set (auMultiple c) \<and>
     distinct (map fst (provider_names c)) \<and>
     fst ` set (provider_names c) \<inter> {BasicAuthProvider, SimpleAuthProvider} = {} \<and>
     (\<forall>p \<in> set (all_providers c). \<forall>g. pcGithub p = Some g \<longrightarrow> github_usable url_parse g)"

lemma parseGithubUser_form:
  "is_ok (parseGithubUser e) \<Longrightarrow> \<exists>login i n. e = login @ '':'' @ i \<and> login \<noteq> [] \<and> ParseInt i = Some n \<and> 0 < n"
  by (auto simp: parseGithubUser_def is_ok_def Let_def dest!: cut_byte_SomeD split: option.splits prod.splits if_splits) force

lemma team_ok_form:
  "team_ok t \<Longrightarrow> \<exists>org slug. t = org @ ''/'' @ slug \<and> org \<noteq> [] \<and> slug \<noteq> [] \<and> CHR ''/'' \<notin> set org \<and> CHR ''/'' \<notin> set slug"
  by (auto simp: team_ok_def dest!: cut_byte_SomeD split: option.splits prod.splits)

lemma github_Validate_usable:
  assumes "github_Validate url_parse g = Inr u"
  shows "github_usable url_parse g"
proof -
  note parts = assms [unfolded github_Validate_def]
  have "ghClientID g \<noteq> []" "ghClientSecret g \<noteq> []" "ghRedirectURL g \<noteq> []" "\<exists>u. url_parse (ghRedirectURL g) = Inr u"
    "ghOrganizations g \<noteq> [] \<or> ghTeams g \<noteq> [] \<or> ghUsers g \<noteq> []"
    using parts by (auto split: if_splits sum.splits)
  moreover have "ghBaseURL g = [] \<or> (\<exists>scheme host. url_parse (ghBaseURL g) = Inr (scheme, host) \<and> scheme \<noteq> [] \<and> host \<noteq> [])"
    using parts by (auto split: if_splits sum.splits prod.splits)
  moreover have users: "find (\<lambda>e. \<not> is_ok (parseGithubUser e)) (ghUsers g @ ghAdminUsers g) = None"
  proof (rule ccontr)
    assume "find (\<lambda>e. \<not> is_ok (parseGithubUser e)) (ghUsers g @ ghAdminUsers g) \<noteq> None"
    then obtain e where e: "find (\<lambda>e. \<not> is_ok (parseGithubUser e)) (ghUsers g @ ghAdminUsers g) = Some e" by blast
    then have "\<not> is_ok (parseGithubUser e)" by (auto simp: find_Some_iff)
    then show False using parts e by (auto simp: is_ok_def split: if_splits sum.splits)
  qed
  moreover have "find (\<lambda>t. \<not> team_ok t) (ghTeams g @ ghAdminTeams g) = None"
    using parts users by (auto split: if_splits sum.splits option.splits)
  ultimately show ?thesis
    using parseGithubUser_form team_ok_form by (auto simp: github_usable_def find_None_iff)
qed

lemma validate_multiple_usable:
  assumes "validate_multiple url_parse ms = Inr u"
  shows "None \<notin> snd ` set ms \<and> (\<forall>p \<in> set (List.map_filter snd ms). \<forall>g. pcGithub p = Some g \<longrightarrow> github_usable url_parse g)"
  using assms
  by (induction url_parse ms rule: validate_multiple.induct)
    (auto simp: map_filter_simps dest: github_Validate_usable split: option.splits sum.splits)

lemma Validate_usable:
  assumes "Validate url_parse c = Inr u"
  shows "providers_usable url_parse c"
proof -
  have "case pcGithub (auProvider c) of None \<Rightarrow> True | Some g \<Rightarrow> is_ok (github_Validate url_parse g)"
    "\<exists>u. validate_multiple url_parse (auMultiple c) = Inr u"
    using assms by (auto simp: Validate_def is_ok_def split: sum.splits option.splits)
  moreover have "fst ` set (provider_names c) \<inter> {BasicAuthProvider, SimpleAuthProvider} = {}"
    using Validate_names(2) [OF assms] by auto
  ultimately show ?thesis
    using Validate_names(1) [OF assms] validate_multiple_usable
    by (fastforce simp: providers_usable_def all_providers_def is_ok_def dest: github_Validate_usable
        split: option.splits sum.splits)
qed

text \<open>Every policy some provider's \<^verbatim>\<open>policyMapping\<close> names.\<close>

definition policies_named :: "auth_config \<Rightarrow> string set" where
  "policies_named c = (\<Union>p \<in> set (all_providers c). case pcOIDC p of None \<Rightarrow> {} | Some o' \<Rightarrow> fst ` set (oiPolicyMapping o'))"

lemma add_names_in:
  assumes "(n, w) \<in> set xs"
  shows "\<exists>ws. (n, ws) \<in> set (foldl add_name [] xs) \<and> w \<in> set ws"
proof -
  obtain y ys where y: "filter (\<lambda>x. fst x = n) xs = y # ys"
    using assms by (cases "filter (\<lambda>x. fst x = n) xs") (auto simp: filter_empty_conv)
  have "w \<in> snd ` set (filter (\<lambda>x. fst x = n) xs)" using assms by force
  moreover have "map_of (foldl add_name [] xs) n = Some (map snd (y # ys))" by (simp add: add_names y)
  ultimately show ?thesis using map_of_SomeD y by (metis set_map)
qed

lemma PolicyNames_named:
  assumes "PolicyNames c = Inr rules" "n \<in> policies_named c"
  shows "\<exists>provider mapped. (provider, mapped) \<in> set rules \<and> n \<in> set mapped"
proof -
  let ?ms = "(''auth.oidc'', auProvider c) # map (\<lambda>(k, p). (''auth.multiple.'' @ k, p)) (map (\<lambda>(k, p). (k, the p)) (auMultiple c))"
  let ?of = "\<lambda>(provider, p). case pcOIDC p of None \<Rightarrow> [] | Some o' \<Rightarrow> map (\<lambda>(name, rule). (provider, name)) (oiPolicyMapping o')"
  have rules: "rules = foldl add_name [] (concat (map ?of ?ms))"
    using assms(1) by (auto simp: PolicyNames_def multiple_of_def split: if_splits)
  obtain p o' where p: "p \<in> set (all_providers c)" "pcOIDC p = Some o'" "n \<in> fst ` set (oiPolicyMapping o')"
    using assms(2) by (auto simp: policies_named_def split: option.splits)
  have "\<exists>k. (k, p) \<in> set ?ms"
  proof (cases "p = auProvider c")
    case False
    then obtain k where "(k, Some p) \<in> set (auMultiple c)" using p(1) by (force simp: all_providers_def map_filter_def)
    then have "(''auth.multiple.'' @ k, p) \<in> set ?ms" by (force simp: image_image)
    then show ?thesis by blast
  qed auto
  then obtain k where "(k, p) \<in> set ?ms" by blast
  moreover have "(k, n) \<in> set (?of (k, p))" using p(2,3) by force
  ultimately have "(k, n) \<in> set (concat (map ?of ?ms))" unfolding set_concat set_map by blast
  then show ?thesis using add_names_in rules by blast
qed

definition identity_provider :: "string \<times> string \<Rightarrow> bool" where
  "identity_provider p \<longleftrightarrow> fst p \<notin> {BasicAuthProvider, SimpleAuthProvider}"

lemma provider_types [simp]:
  "identity_provider (OIDCAuthProvider, n)" "identity_provider (GitlabAuthProvider, n)" "identity_provider (GithubAuthProvider, n)"
  "\<not> identity_provider (BasicAuthProvider, n)" "\<not> identity_provider (SimpleAuthProvider, n)"
  by (simp_all add: identity_provider_def OIDCAuthProvider_def GitlabAuthProvider_def GithubAuthProvider_def
      BasicAuthProvider_def SimpleAuthProvider_def)

lemma named_github: "k \<noteq> [] \<Longrightarrow> github_name (g\<lparr>ghName := named (ghName g) k\<rparr>) = named (ghName g) k"
  by (simp add: github_name_def named_def)

lemma identity_providers_names:
  assumes "Providers c = Inr ps" "[] \<notin> set (map fst (auMultiple c))"
  shows "map snd (filter identity_provider ps) = map fst (provider_names c)"
proof -
  have top: "map snd (filter identity_provider (providers_of p f g)) =
      map snd ((case pcOIDC p of None \<Rightarrow> [] | Some o' \<Rightarrow> [(OIDCAuthProvider, f o')]) @
     (case pcGitlab p of None \<Rightarrow> [] | Some g \<Rightarrow> [(GitlabAuthProvider, glName g)]) @
     (case pcGithub p of None \<Rightarrow> [] | Some h \<Rightarrow> [(GithubAuthProvider, g h)]))" for p f g
    by (auto simp: providers_of_def split: option.splits)
  have rest: "map snd (filter identity_provider (concat (map (\<lambda>(k, p). providers_of p (\<lambda>o'. named (oiName o') k)
        (\<lambda>g. github_name (g\<lparr>ghName := named (ghName g) k\<rparr>))) (map (\<lambda>(k, p). (k, the p)) ms)))) =
      map fst (concat (map names_in ms))" if "None \<notin> set (map snd ms)" "[] \<notin> set (map fst ms)" for ms
    using that
  proof (induction ms)
    case (Cons m ms)
    obtain k q where kq: "m = (k, q)" by (cases m)
    then obtain p where m: "m = (k, Some p)" "k \<noteq> []" using Cons.prems by (cases q) auto
    have "map snd (filter identity_provider (providers_of p (\<lambda>o'. named (oiName o') k)
        (\<lambda>g. github_name (g\<lparr>ghName := named (ghName g) k\<rparr>)))) = map fst (names_in m)"
      unfolding top using m by (auto simp: names_in_def named_github split: option.splits)
    then show ?case using Cons m by simp
  qed simp
  show ?thesis
    using assms rest [of "auMultiple c"] top [of "auProvider c" oiName github_name]
    by (auto simp: Providers_def multiple_of_def provider_names_def split: sum.splits if_splits option.splits)
qed

text \<open>
  A configuration that passes the validation keeps the providers apart: no two identity providers carry the
  same name and none is called like the built-in sign-in.  So nobody who signed in with an identity provider
  becomes an administrator by having the administrator's username there: the claims middleware leaves the
  claims of such an identity as the provider's rules made them.
\<close>

theorem providers_kept_apart:
  assumes "Validate url_parse c = Inr ()" "Providers c = Inr ps" "[] \<notin> set (map fst (auMultiple c))"
  shows "distinct (map snd (filter identity_provider ps)) \<and>
    (\<forall>u p. p \<in> set ps \<and> identity_provider p \<and> idProvider u = snd p \<longrightarrow>
       snd (ClaimsMiddleware adminUsername c (Some u)) = Some u)"
proof -
  note names = identity_providers_names [OF assms(2,3)] and valid = Validate_names [OF assms(1)]
  have "snd p \<noteq> BasicAuthProvider \<and> snd p \<noteq> SimpleAuthProvider" if "p \<in> set ps" "identity_provider p" for p
  proof (rule valid(2))
    show "snd p \<in> set (map fst (provider_names c))" unfolding names [symmetric] using that by simp
  qed
  then show ?thesis
    using valid(1) names by (auto simp: ClaimsMiddleware_def Let_def split: sum.splits option.splits)
qed

definition no_providers :: provider_config where
  "no_providers = \<lparr>pcOIDC = None, pcGitlab = None, pcGithub = None, pcBasic = None, pcSimple = None\<rparr>"

definition corp_oidc :: oidc_config where
  "corp_oidc = \<lparr>oiName = [], oiIssuer = ''https://id.example'', oiClientID = ''wg'', oiClientSecret = ''s'', oiScopes = [],
     oiRedirectURL = ''https://vpn.example/cb'', oiEmailDomains = [''example.org''], oiClaimMapping = [(''admin'', ''is_admin'')],
     oiPolicyMapping = [(''staff'', ''is_staff'')], oiClaimsFromIDToken = True, oiAccessClaim = []\<rparr>"

definition two_providers :: auth_config where
  "two_providers = \<lparr>auSessionStore = None,
     auProvider = no_providers\<lparr>pcSimple := Some [''admin:$2y$x'', ''alice:secret'']\<rparr>,
     auMultiple = [(''corp'', Some (no_providers\<lparr>pcOIDC := Some corp_oidc\<rparr>))]\<rparr>"

theorem providers_kept_apart_witness:
  "snd (ClaimsMiddleware ''admin'' two_providers
      (Some \<lparr>idProvider = ''corp'', idSubject = ''admin'', idName = ''Eve'', idEmail = [], idClaims = []\<rparr>)) =
    Some \<lparr>idProvider = ''corp'', idSubject = ''admin'', idName = ''Eve'', idEmail = [], idClaims = []\<rparr>"
proof -
  let ?u = "\<lparr>idProvider = ''corp'', idSubject = ''admin'', idName = ''Eve'', idEmail = [], idClaims = []\<rparr>"
  have v: "Validate (\<lambda>s. Inr ([], [])) two_providers = Inr ()" by code_simp
  have p: "Providers two_providers = Inr [(SimpleAuthProvider, SimpleAuthProvider), (OIDCAuthProvider, ''corp'')]" by code_simp
  have "[] \<notin> set (map fst (auMultiple two_providers))" by code_simp
  note apart = providers_kept_apart [OF v p this, of "''admin''", THEN conjunct2, THEN spec [of _ ?u],
      THEN spec [of _ "(OIDCAuthProvider, ''corp'')"]]
  show ?thesis by (rule apart [THEN mp]) simp
qed

definition plain_htpasswd :: htpasswd where
  "plain_htpasswd = \<lparr>AcceptBcrypt = (\<lambda>s. None), AcceptSha = (\<lambda>s. None), AcceptSsha = (\<lambda>s. None), AcceptMd5 = (\<lambda>s. Some (\<lambda>p. p = s))\<rparr>"

theorem sign_in_rule_witness:
  "checkCreds plain_htpasswd (\<lambda>h p. False) (\<lambda>u. stored_password u (acStore alice_accounts)) [''admin:$2y$x'', ''alice:secret''] ''alice'' ''secret'' \<longleftrightarrow>
    fst (Verify (server_env plain_htpasswd (\<lambda>h p. False) (\<lambda>p. Inr p) two_providers) ''alice'' ''secret'' 0 alice_accounts) = Inr ()"
proof (rule sign_in_rule)
  show "entry_in ''alice'' [''admin:$2y$x'', ''alice:secret''] = Some ''secret''" by code_simp
  show "ConfiguredEntry two_providers ''alice'' = Inr (Some ''secret'')" by code_simp
  show "map_of (acWrong alice_accounts) ''alice'' = None" by code_simp
qed

end
