(* ===== verification/Auth_Session.thy ===== *)
theory Auth_Session
  imports Web_Sessions Auth_Config
begin

text \<open>
  The session of a browser (\<^verbatim>\<open>internal/authnz/authsession/session.go\<close>) and the sign-in as every provider ends it
  (\<^verbatim>\<open>internal/authnz/authruntime/runtime.go\<close>, and the check and the record of a sign-in in
  \<^verbatim>\<open>cmd/serve/http.go\<close>).  The identity and the id of an API token are never part of the cookie.
\<close>

section \<open>Cookies\<close>

definition empty_session :: auth_session where
  "empty_session = \<lparr>asState = None, asNonce = None, asVerifier = None, asID = [], asIdentity = None, asAPIToken = [], asPending = None\<rparr>"

definition cookie_of :: "auth_session \<Rightarrow> auth_session" where
  "cookie_of s = s\<lparr>asIdentity := None, asAPIToken := []\<rparr>"

text \<open>What a request brings and the server draws for it: the request itself, random bytes and a uuid for a new
  session, whether the form can be parsed and whether writing the cookie fails.\<close>

record exchange =
  exRequest :: request
  exFormError :: bool
  exRand :: "bytes res"
  exUuid :: string
  exSaveError :: "go_error option"

record session_env =
  seCodec :: codec
  seMaxAge :: duration

section \<open>Sessions\<close>

definition GetSession :: "session_env \<Rightarrow> request \<Rightarrow> instant \<Rightarrow> memory \<Rightarrow> auth_session res \<times> memory" where
  "GetSession E r now s =
     (case rqCookie r of
        None \<Rightarrow> (Inl (Err ''session not authenticated''), s)
      | Some c \<Rightarrow>
          (let x = cookie_of c in
           if asID x \<noteq> [] then
             (case session_Identity (seCodec E) (asID x) now s of
                (Inl e, s) \<Rightarrow> (Inl (wrap_err ''failed to read the session'' e), s)
              | (Inr identity, s) \<Rightarrow> (Inr (x\<lparr>asIdentity := Some identity\<rparr>), s))
           else (Inr x, s)))"

definition end_previous :: "session_env \<Rightarrow> request \<Rightarrow> (string \<Rightarrow> bool) \<Rightarrow> instant \<Rightarrow> memory \<Rightarrow> memory" where
  "end_previous E r other now s =
     (case GetSession E r now s of
        (Inl e, s) \<Rightarrow> s
      | (Inr previous, s) \<Rightarrow>
          if asID previous \<noteq> [] \<and> other (asID previous) then snd (session_End (asID previous) s) else s)"

text \<open>The new cookie, when one is written.\<close>

definition SetSession ::
  "session_env \<Rightarrow> exchange \<Rightarrow> auth_session \<Rightarrow> instant \<Rightarrow> memory \<Rightarrow> unit res \<times> auth_session option \<times> memory" where
  "SetSession E x session now s =
     (let s = end_previous E (exRequest x) (\<lambda>i. i \<noteq> asID session) now s in
      case (if asIdentity session \<noteq> None \<and> asID session = []
            then session_Create (seCodec E) (seMaxAge E) (exRand x) (exUuid x) (asIdentity session) (Some (exRequest x)) now s
            else (Inr (asID session), s)) of
        (Inl e, s) \<Rightarrow> (Inl (wrap_err ''failed to start the session'' e), None, s)
      | (Inr i, s) \<Rightarrow>
          (case exSaveError x of
             Some e \<Rightarrow> (Inl e, None, s)
           | None \<Rightarrow> (Inr (), Some (cookie_of (session\<lparr>asID := i\<rparr>)), s)))"

text \<open>Signing out ends the session and takes the cookie away.\<close>

definition ClearSession :: "session_env \<Rightarrow> exchange \<Rightarrow> instant \<Rightarrow> memory \<Rightarrow> unit res \<times> memory" where
  "ClearSession E x now s =
     (let s = end_previous E (exRequest x) (\<lambda>i. True) now s in
      (case exSaveError x of Some e \<Rightarrow> Inl e | None \<Rightarrow> Inr (), s))"

section \<open>The check and the record of a sign-in\<close>

definition sameProvider :: "string \<Rightarrow> string \<Rightarrow> bool" where
  "sameProvider a b = (a = b \<or> (HasPassword a \<and> HasPassword b))"

text \<open>A refusal carries the reason for the person (\<open>Invalid\<close>); the detail goes to the log.\<close>

definition checkLogin :: "identity \<Rightarrow> memory \<Rightarrow> go_error option" where
  "checkLogin identity s =
     (let known =
        (case GetUser (idSubject identity) s of
           Inr u \<Rightarrow> [usrProvider u]
         | Inl e \<Rightarrow> map devOwnerProvider (List_devices (idSubject identity) s)) in
      if list_ex (\<lambda>provider. provider \<noteq> [] \<and> \<not> sameProvider provider (idProvider identity)) known
      then Some (Invalid ''This account already signs in another way here. Sign in the way you did before, or ask an admin.'')
      else None)"

definition policiesOf :: "identity \<Rightarrow> string list" where
  "policiesOf identity =
     sort (foldl (\<lambda>ps policy. if policy = [] \<or> policy \<in> set ps then ps else ps @ [policy]) []
       (claims_Values (idClaims identity) PolicyClaim))"

definition login_user :: "identity \<Rightarrow> instant \<Rightarrow> user" where
  "login_user identity now =
     \<lparr>usrSubject = idSubject identity, usrProvider = idProvider identity, usrName = idName identity, usrEmail = idEmail identity,
      usrPolicies = go_join '', '' (policiesOf identity), usrLastLogin = now, usrPasswordHash = [], usrWebauthnChallenge = [],
      usrWebauthnChallengeUntil = None, usrTotpSecret = [], usrTotpEnabledAt = None, usrTotpRecovery = [], usrTotpLastStep = 0,
      usrPasswordFrom = []\<rparr>"

text \<open>The firewall is synchronized afterwards, asynchronously (\<^verbatim>\<open>Resync\<close>).\<close>

definition recordLogin :: "identity \<Rightarrow> instant \<Rightarrow> memory \<Rightarrow> memory" where
  "recordLogin identity now s = snd (SaveUser (login_user identity now) s)"

text \<open>\<^verbatim>\<open>ProviderRuntime.SetSession\<close> with the check and the record of the server.\<close>

definition runtime_SetSession ::
  "session_env \<Rightarrow> exchange \<Rightarrow> auth_session \<Rightarrow> instant \<Rightarrow> memory \<Rightarrow> unit res \<times> auth_session option \<times> memory" where
  "runtime_SetSession E x session now s =
     (case (case asIdentity session of None \<Rightarrow> None | Some i \<Rightarrow> checkLogin i s) of
        Some e \<Rightarrow> (Inl e, None, s)
      | None \<Rightarrow>
          (case SetSession E x session now s of
             (Inl e, c, s) \<Rightarrow> (Inl e, c, s)
           | (Inr _, c, s) \<Rightarrow>
               (Inr (), c, case asIdentity session of None \<Rightarrow> s | Some i \<Rightarrow> recordLogin i now s)))"

section \<open>The middleware\<close>

datatype response =
    HttpError nat string
  | Redirect nat string
  | Page nat string
  | Challenge
  | Next ctx

text \<open>\<^verbatim>\<open>Middleware\<close> for a request that is not for one of its own pages: what the next handler gets, or an answer.\<close>

definition Middleware ::
  "session_env \<Rightarrow> string \<Rightarrow> auth_config \<Rightarrow> request \<Rightarrow> instant \<Rightarrow> memory \<Rightarrow> response res \<times> memory" where
  "Middleware E adminUsername auth r now s =
     (case GetSession E r now s of
        (Inl e, s) \<Rightarrow> (Inr (Next None), s)
      | (Inr x, s) \<Rightarrow>
          (case asIdentity x of
             None \<Rightarrow> (Inr (Redirect 303 ''/signin''), s)
           | Some i \<Rightarrow>
               (case ClaimsMiddleware adminUsername auth (Some i) of
                  (Inl p, _) \<Rightarrow> (Inl p, s)
                | (Inr (Some (NotAuthorized m)), _) \<Rightarrow>
                    (Inr (HttpError 403 ''Your account is not allowed to access this server.''), s)
                | (Inr (Some (NotAuthenticated m)), _) \<Rightarrow> (Inr (Redirect 303 ''/signin''), s)
                | (Inr None, i) \<Rightarrow> (Inr (Next (Some (x\<lparr>asIdentity := i\<rparr>))), s))))"

definition RequireAuthentication :: "ctx \<Rightarrow> response" where
  "RequireAuthentication c = (if Authenticated c then Next c else Redirect 307 ''/signin'')"

end
