(* ===== verification/Login_Throttle.thy ===== *)
theory Login_Throttle
  imports Limiter
begin

text \<open>
  The login throttle (\<^verbatim>\<open>internal/authnz/authconfig/throttle.go\<close>): a wait that doubles with every failed attempt
  at a password, and a limit on the attempts at the second step.  The cache of failures is a third-party
  LRU cache, whose operations are a parameter.
\<close>

section \<open>State\<close>

definition loginThrottleBase :: duration where "loginThrottleBase = 250 * 1000000"
definition loginThrottleMax :: duration where "loginThrottleMax = 10 * second"
definition loginThrottleReset :: duration where "loginThrottleReset = 15 * minute"
definition maxSecondFactorFailures :: nat where "maxSecondFactorFailures = 10"
definition secondFactorLockout :: duration where "secondFactorLockout = 15 * minute"
definition maxUsernameLength :: nat where "maxUsernameLength = 256"

record attempts =
  atFailures :: nat
  atLast :: instant

definition no_attempts :: attempts where
  "no_attempts = \<lparr>atFailures = 0, atLast = zero_time\<rparr>"

text \<open>The cache: \<^verbatim>\<open>Get\<close> marks an entry as used, so it returns the cache after it; \<^verbatim>\<open>Add\<close> may drop another entry.\<close>

record 'c lru =
  lruGet :: "string \<Rightarrow> 'c \<Rightarrow> attempts option \<times> 'c"
  lruAdd :: "string \<Rightarrow> attempts \<Rightarrow> 'c \<Rightarrow> 'c"
  lruRemove :: "string \<Rightarrow> 'c \<Rightarrow> 'c"

record 'c throttle =
  thCache :: "'c option"
  thSecond :: "(string, attempts) amap"

definition newLoginThrottle :: "'c res \<Rightarrow> 'c throttle" where
  "newLoginThrottle cache =
     (case cache of Inl e \<Rightarrow> \<lparr>thCache = None, thSecond = []\<rparr> | Inr c \<Rightarrow> \<lparr>thCache = Some c, thSecond = []\<rparr>)"

section \<open>The second step\<close>

definition beginSecondFactor :: "string \<Rightarrow> instant \<Rightarrow> 'c throttle \<Rightarrow> bool \<times> 'c throttle" where
  "beginSecondFactor username now t =
     (let (record, second) =
        (case map_of (thSecond t) username of
           None \<Rightarrow> (no_attempts, AList.update username no_attempts (thSecond t))
         | Some r \<Rightarrow>
             if time_sub now (atLast r) > secondFactorLockout
             then (no_attempts, AList.update username no_attempts (thSecond t))
             else (r, thSecond t)) in
      if atFailures record \<ge> maxSecondFactorFailures then (False, t\<lparr>thSecond := second\<rparr>)
      else (True, t\<lparr>thSecond := AList.update username \<lparr>atFailures = atFailures record + 1, atLast = now\<rparr> second\<rparr>))"

definition secondFactorSucceeded :: "string \<Rightarrow> 'c throttle \<Rightarrow> 'c throttle" where
  "secondFactorSucceeded username t = t\<lparr>thSecond := AList.delete username (thSecond t)\<rparr>"

section \<open>The wait\<close>

definition failures :: "'c lru \<Rightarrow> string \<Rightarrow> instant \<Rightarrow> 'c throttle \<Rightarrow> nat \<times> 'c throttle" where
  "failures L username now t =
     (case thCache t of
        None \<Rightarrow> (0, t)
      | Some c \<Rightarrow>
          (case lruGet L username c of
             (None, c) \<Rightarrow> (0, t\<lparr>thCache := Some c\<rparr>)
           | (Some r, c) \<Rightarrow>
               if time_sub now (atLast r) > loginThrottleReset then (0, t\<lparr>thCache := Some (lruRemove L username c)\<rparr>)
               else (atFailures r, t\<lparr>thCache := Some c\<rparr>)))"

text \<open>The loop of \<^verbatim>\<open>delay\<close>: \<open>n\<close> more doublings.\<close>

function doublings :: "duration \<Rightarrow> nat \<Rightarrow> duration" where
  "doublings d n =
     (if n = 0 then d
      else if 2 * d \<ge> loginThrottleMax then loginThrottleMax else doublings (2 * d) (n - 1))"
  by pat_completeness auto
termination
  by (relation "measure snd") auto

declare doublings.simps [simp del]

definition delay_of :: "nat \<Rightarrow> duration" where
  "delay_of n = (if n = 0 then 0 else doublings loginThrottleBase (n - 1))"

definition delay :: "'c lru \<Rightarrow> string \<Rightarrow> instant \<Rightarrow> 'c throttle \<Rightarrow> duration \<times> 'c throttle" where
  "delay L username now t = (case failures L username now t of (n, t) \<Rightarrow> (delay_of n, t))"

text \<open>\<^verbatim>\<open>wait\<close> sleeps: the time after it is the time before it and the delay.  The log line reads the failures once more.\<close>

definition wait :: "'c lru \<Rightarrow> string \<Rightarrow> instant \<Rightarrow> 'c throttle \<Rightarrow> instant \<times> 'c throttle" where
  "wait L username now t =
     (case delay L username now t of (d, t) \<Rightarrow>
        if d > 0 then (now + d, snd (failures L username now t)) else (now, t))"

definition recordFailure :: "'c lru \<Rightarrow> string \<Rightarrow> instant \<Rightarrow> 'c throttle \<Rightarrow> 'c throttle" where
  "recordFailure L username now t =
     (case thCache t of
        None \<Rightarrow> t
      | Some c \<Rightarrow>
          (case lruGet L username c of (found, c) \<Rightarrow>
             (let record = (case found of
                  None \<Rightarrow> no_attempts
                | Some r \<Rightarrow> if time_sub now (atLast r) > loginThrottleReset then no_attempts else r) in
              t\<lparr>thCache := Some (lruAdd L username \<lparr>atFailures = atFailures record + 1, atLast = now\<rparr> c)\<rparr>)))"

definition recordSuccess :: "'c lru \<Rightarrow> string \<Rightarrow> 'c throttle \<Rightarrow> 'c throttle" where
  "recordSuccess L username t =
     (case thCache t of None \<Rightarrow> t | Some c \<Rightarrow> t\<lparr>thCache := Some (lruRemove L username c)\<rparr>)"

section \<open>The limit of the second step\<close>

definition second_record :: "string \<Rightarrow> 'c throttle \<Rightarrow> (nat \<times> instant) option" where
  "second_record username t = map_option (\<lambda>r. (atFailures r, atLast r)) (map_of (thSecond t) username)"

lemma stale_second: "time_sub now l > secondFactorLockout \<longleftrightarrow> now - l > secondFactorLockout"
  by (rule time_sub_gt) (simp_all add: secondFactorLockout_def duration_defs)

interpretation sf: attempt_limiter beginSecondFactor secondFactorSucceeded second_record maxSecondFactorFailures secondFactorLockout
proof unfold_locales
  show "0 < maxSecondFactorFailures" "0 \<le> secondFactorLockout"
    by (simp_all add: maxSecondFactorFailures_def secondFactorLockout_def duration_defs)
  show "fst (beginSecondFactor k t s) \<longleftrightarrow>
      (case second_record k s of None \<Rightarrow> True | Some (n, l) \<Rightarrow> secondFactorLockout < t - l \<or> n < maxSecondFactorFailures)"
    for k t and s :: "'a throttle"
    by (auto simp: beginSecondFactor_def second_record_def Let_def stale_second maxSecondFactorFailures_def no_attempts_def
        split: option.splits)
  show "second_record k (snd (beginSecondFactor k t s)) =
      Some (case second_record k s of None \<Rightarrow> 1 | Some (n, l) \<Rightarrow> if secondFactorLockout < t - l then 1 else Suc n, t)"
    if "fst (beginSecondFactor k t s)" for k t and s :: "'a throttle"
    using that by (auto simp: beginSecondFactor_def second_record_def Let_def stale_second maxSecondFactorFailures_def
        no_attempts_def update_conv' split: option.splits if_splits)
  show "second_record k (snd (beginSecondFactor k t s)) = second_record k s" if "\<not> fst (beginSecondFactor k t s)"
    for k t and s :: "'a throttle"
    using that by (auto simp: beginSecondFactor_def second_record_def Let_def maxSecondFactorFailures_def no_attempts_def
        split: option.splits if_splits)
  show "second_record j (snd (beginSecondFactor k t s)) = second_record j s" if "j \<noteq> k" for j k t and s :: "'a throttle"
    using that by (auto simp: beginSecondFactor_def second_record_def Let_def update_conv' split: option.splits)
  show "second_record k (secondFactorSucceeded k s) = None" for k and s :: "'a throttle"
    by (simp add: secondFactorSucceeded_def second_record_def delete_conv')
  show "second_record j (secondFactorSucceeded k s) = second_record j s" if "j \<noteq> k" for j k and s :: "'a throttle"
    using that by (simp add: secondFactorSucceeded_def second_record_def delete_conv')
qed

text \<open>The instants at which an answer to the second step of an account is checked, in a history of answers (at an
  instant) and of right answers (without one).\<close>

fun second_steps :: "string \<Rightarrow> (string \<times> instant option) list \<Rightarrow> 'c throttle \<Rightarrow> instant list" where
  "second_steps username [] t = []"
| "second_steps username ((j, None) # es) t = second_steps username es (secondFactorSucceeded j t)"
| "second_steps username ((j, Some at) # es) t =
     (if j = username \<and> fst (beginSecondFactor j at t) then [at] else []) @
     second_steps username es (snd (beginSecondFactor j at t))"

definition step_times :: "(string \<times> instant option) list \<Rightarrow> instant list" where
  "step_times es = concat (map (\<lambda>(k, t). case t of None \<Rightarrow> [] | Some t \<Rightarrow> [t]) es)"

lemma second_steps_grants: "second_steps username es t = sf.grants username es t"
  by (induction username es t rule: second_steps.induct) (simp_all add: sf.step_def)

text \<open>
  Whoever knows a password gets at most ten answers to the second step checked in any fifteen minutes, however
  many requests they send in parallel; a refused answer does not prolong the wait, and fifteen minutes after
  the last checked answer the next one is checked again.
\<close>

theorem second_factor_limited:
  assumes "map_of (thSecond t) username = None" "sorted (step_times es)" "(username, None) \<notin> set es"
  shows "length (filter (\<lambda>at. from \<le> at \<and> at \<le> from + secondFactorLockout) (second_steps username es t)) \<le> maxSecondFactorFailures \<and>
    (\<forall>r now. map_of (thSecond t') username = Some r \<and> secondFactorLockout < now - atLast r \<longrightarrow> fst (beginSecondFactor username now t'))"
proof (intro conjI allI impI)
  have "second_record username t = None" "sorted (sf.times es)"
    using assms by (simp_all add: second_record_def step_times_def sf.times_def)
  then show "length (filter (\<lambda>at. from \<le> at \<and> at \<le> from + secondFactorLockout) (second_steps username es t)) \<le> maxSecondFactorFailures"
    unfolding second_steps_grants using assms(3) by (rule sf.window_limit)
  fix r now
  assume "map_of (thSecond t') username = Some r \<and> secondFactorLockout < now - atLast r"
  then show "fst (beginSecondFactor username now t')" by (intro sf.let_through) (auto simp: second_record_def)
qed

definition fresh_throttle :: "unit throttle" where
  "fresh_throttle = \<lparr>thCache = None, thSecond = []\<rparr>"

theorem second_factor_limited_witness:
  "length (filter (\<lambda>at. 0 \<le> at \<and> at \<le> 0 + secondFactorLockout)
     (second_steps ''eve'' (map (\<lambda>i. (''eve'', Some (i * second))) [0..14]) fresh_throttle)) \<le> maxSecondFactorFailures"
proof -
  let ?es = "map (\<lambda>i. (''eve'', Some (i * second))) [0..14]"
  have "map_of (thSecond fresh_throttle) ''eve'' = None" "sorted (step_times ?es)" by code_simp+
  moreover have "(''eve'', None) \<notin> set ?es" by auto
  ultimately show ?thesis using second_factor_limited [of fresh_throttle "''eve''" ?es 0] by blast
qed

section \<open>The length of the wait\<close>

lemma doublings_closed:
  assumes "0 < d" "d < loginThrottleMax"
  shows "doublings d n = min (d * 2 ^ n) loginThrottleMax"
  using assms
proof (induction n arbitrary: d)
  case 0
  then show ?case by (subst doublings.simps) simp
next
  case (Suc n)
  show ?case
  proof (cases "2 * d \<ge> loginThrottleMax")
    case True
    have "1 \<le> (2::int) ^ n" by simp
    then have "2 * d * 1 \<le> 2 * d * 2 ^ n" using Suc.prems by (intro mult_left_mono) simp_all
    then have "loginThrottleMax \<le> d * 2 ^ Suc n" using True by (simp add: algebra_simps)
    then show ?thesis using True by (subst doublings.simps) simp
  next
    case False
    then have "doublings d (Suc n) = doublings (2 * d) n" by (subst doublings.simps) simp
    then show ?thesis using Suc.IH [of "2 * d"] Suc.prems False by (simp add: algebra_simps)
  qed
qed

text \<open>
  The wait before an attempt is nothing without failures, and after \<open>n\<close> failures 250 milliseconds doubled
  \<open>n - 1\<close> times but at most ten seconds: nobody is ever locked out, however many failures are counted.
\<close>

theorem wait_length:
  "delay_of n = (if n = 0 then 0 else min (loginThrottleBase * 2 ^ (n - 1)) loginThrottleMax)"
  using doublings_closed [of loginThrottleBase "n - 1"]
  by (simp add: delay_of_def loginThrottleBase_def loginThrottleMax_def second_def)

end
