(* ===== verification/Users_Totp.thy ===== *)
theory Users_Totp
  imports Go_Crypto
begin

text \<open>
  Time-based one-time passwords (\<^verbatim>\<open>internal/users/totp.go\<close>).  The random bytes of a new secret are an
  argument, and so is the time; a counter is the word of its width, so a time before 1970 wraps as in
  the code.
\<close>

section \<open>URLs\<close>

text \<open>Which bytes \<^verbatim>\<open>url.QueryEscape\<close> and \<^verbatim>\<open>url.PathEscape\<close> leave as they are.\<close>

definition url_unreserved :: "char \<Rightarrow> bool" where
  "url_unreserved c =
     (let b = byte c in (97 \<le> b \<and> b \<le> 122) \<or> (65 \<le> b \<and> b \<le> 90) \<or> (48 \<le> b \<and> b \<le> 57) \<or> c \<in> set ''-_.~'')"

definition upper_hex :: "nat \<Rightarrow> string" where
  "upper_hex b = map (\<lambda>d. ''0123456789ABCDEF'' ! d) [b div 16, b mod 16]"

definition query_escape :: "string \<Rightarrow> string" where
  "query_escape s =
     concat (map (\<lambda>c. if c = CHR '' '' then ''+'' else if url_unreserved c then [c] else CHR ''%'' # upper_hex (byte c)) s)"

definition path_escape :: "string \<Rightarrow> string" where
  "path_escape s =
     concat (map (\<lambda>c. if url_unreserved c \<or> c \<in> set ''$&+=:@'' then [c] else CHR ''%'' # upper_hex (byte c)) s)"

text \<open>\<^verbatim>\<open>url.Values.Encode\<close> writes the pairs in the order of their keys.\<close>

definition values_encode :: "(string \<times> string) list \<Rightarrow> string" where
  "values_encode kvs = go_join ''&'' (map (\<lambda>(k, v). query_escape k @ ''='' @ query_escape v) kvs)"

section \<open>Codes\<close>

definition totpStep :: duration where "totpStep = 30 * second"
definition totpDigits :: nat where "totpDigits = 6"
definition totpWindow :: int where "totpWindow = 1"
definition secretBytes :: nat where "secretBytes = 20"

text \<open>The secret of twenty random bytes, or the error of the source of randomness.\<close>

definition NewTOTPSecret :: "bytes res \<Rightarrow> string res" where
  "NewTOTPSecret buf =
     (case buf of
        Inl e \<Rightarrow> Inl (wrap_err ''failed to generate a two-factor secret'' e)
      | Inr bs \<Rightarrow> Inr (base32_encode bs))"

definition TOTPURI :: "string \<Rightarrow> string \<Rightarrow> string \<Rightarrow> string" where
  "TOTPURI issuer account secret =
     (let label = path_escape (issuer @ '':'' @ account);
          query = [(''algorithm'', ''SHA1''), (''digits'', itoa totpDigits), (''issuer'', issuer),
                   (''period'', itoa (nat (totpStep div second))), (''secret'', secret)] in
      ''otpauth://totp/'' @ label @ ''?'' @ values_encode query)"

text \<open>\<^verbatim>\<open>%0*d\<close>: the number, with zeros in front up to the width.\<close>

definition zero_padded :: "nat \<Rightarrow> nat \<Rightarrow> string" where
  "zero_padded width n = replicate (width - length (itoa n)) CHR ''0'' @ itoa n"

definition totp_code :: "bytes \<Rightarrow> 64 word \<Rightarrow> nat \<Rightarrow> string" where
  "totp_code secret counter digits =
     (let sum = hmac_sha1 secret (put_uint64 counter);
          offset = unat (sum ! (length sum - 1) AND 0x0f);
          truncated = uint32_of (take 4 (drop offset sum)) AND 0x7fffffff;
          modulus = foldl (\<lambda>m i. m * 10) (1 :: 32 word) [0..<digits] in
      zero_padded digits (unat (truncated mod modulus)))"

text \<open>The number of the time step of an instant.\<close>

definition unix_seconds :: "instant \<Rightarrow> int64" where
  "unix_seconds at = of_int (at div second)"

definition time_step :: "instant \<Rightarrow> 64 word" where
  "time_step at = unix_seconds at div of_int (totpStep div second)"

definition decode_secret :: "(nat \<Rightarrow> nat) \<Rightarrow> string \<Rightarrow> bytes option" where
  "decode_secret upr secret = base32_decode (to_upper upr (trim_space secret))"

definition TOTPCode :: "(nat \<Rightarrow> nat) \<Rightarrow> string \<Rightarrow> instant \<Rightarrow> string res" where
  "TOTPCode upr secret at =
     (case decode_secret upr secret of
        None \<Rightarrow> Inl (Wrap ''the two-factor secret is not base32'' (Err ''illegal base32 data''))
      | Some bs \<Rightarrow> Inr (totp_code bs (time_step at) totpDigits))"

text \<open>The loop over the window: every step is compared, and the last one that matches is reported.\<close>

definition CheckTOTPStep :: "(nat \<Rightarrow> nat) \<Rightarrow> string \<Rightarrow> string \<Rightarrow> instant \<Rightarrow> int64 \<times> bool" where
  "CheckTOTPStep upr secret given now =
     (let given = trim_space given in
      if length given \<noteq> totpDigits then (0, False)
      else (case decode_secret upr secret of
          None \<Rightarrow> (0, False)
        | Some bs \<Rightarrow>
            foldl (\<lambda>(matched, ok) i.
                let counter = time_step now + of_int i in
                if totp_code bs counter totpDigits = given then (counter, True) else (matched, ok))
              (0, False) [- totpWindow..totpWindow]))"

definition CheckTOTP :: "(nat \<Rightarrow> nat) \<Rightarrow> string \<Rightarrow> string \<Rightarrow> instant \<Rightarrow> bool" where
  "CheckTOTP upr secret given now = snd (CheckTOTPStep upr secret given now)"

section \<open>What a code is\<close>

lemma length_sha1 [simp]: "length (sha1 m) = 20"
  by (simp add: sha1_def split: prod.splits)

lemma length_hmac [simp]: "length (hmac_sha1 k m) = 20"
  by (simp add: hmac_sha1_def Let_def)

text \<open>The four bytes of the truncation lie inside the digest: the slice of the code cannot panic.\<close>

lemma truncation_inside: "unat (b AND 0x0f) + 4 \<le> length (hmac_sha1 k m)" for b :: "8 word"
proof -
  have "b AND 0x0f \<le> 0x0f" by (rule word_and_le1)
  then show ?thesis by (simp add: word_le_nat_alt)
qed

lemma length_to_base: "2 \<le> b \<Longrightarrow> n < b ^ k \<Longrightarrow> 0 < k \<Longrightarrow> length (to_base b n) \<le> k"
proof (induction k arbitrary: n)
  case (Suc k)
  show ?case
  proof (cases "n < b")
    case True
    then show ?thesis by (subst to_base.simps) simp
  next
    case False
    have "n < b" if "k = 0" using Suc.prems that by simp
    then have "0 < k" using False by blast
    moreover have "n div b < b ^ k" using Suc.prems by (simp add: less_mult_imp_div_less mult.commute)
    ultimately have "length (to_base b (n div b)) \<le> k" using Suc by simp
    then show ?thesis using False Suc.prems by (subst to_base.simps) simp
  qed
qed simp

lemma totp_modulus: "foldl (\<lambda>m i. m * 10) (1 :: 32 word) [0..<totpDigits] = 1000000"
  by (simp add: totpDigits_def upt_conv_Cons)

lemma totp_code_shape: "length (totp_code k c totpDigits) = totpDigits \<and> list_all graphic (totp_code k c totpDigits)"
proof -
  have shape: "length (zero_padded totpDigits n) = totpDigits \<and> list_all graphic (zero_padded totpDigits n)"
    if "n < 1000000" for n
  proof -
    have "length (itoa n) \<le> totpDigits" using length_to_base [of 10 n 6] that by (simp add: itoa_def totpDigits_def)
    moreover have "graphic c" if "c \<in> set (itoa n)" for c
      using to_base_digits [of 10 c n] that by (auto simp: itoa_def)
    moreover have "graphic CHR ''0''" by code_simp
    ultimately show ?thesis by (auto simp: zero_padded_def list_all_iff)
  qed
  have "unat (x mod 1000000) < 1000000" for x :: "32 word" by (simp add: unat_mod)
  then show ?thesis unfolding totp_code_def Let_def totp_modulus by (rule shape)
qed

lemma trim_totp_code [simp]: "trim_space (totp_code k c totpDigits) = totp_code k c totpDigits"
proof (rule trim_space_graphic)
  show "totp_code k c totpDigits = [] \<or> graphic (hd (totp_code k c totpDigits)) \<and> graphic (last (totp_code k c totpDigits))"
    using totp_code_shape [of k c] by (auto simp: list_all_iff)
qed

section \<open>The window\<close>

lemma window_steps: "[- totpWindow..totpWindow] = [- 1, 0, 1]"
  by (simp add: totpWindow_def upto.simps)

text \<open>A code is accepted when it is the code of one of the three steps around the present one, and the step that
  is reported is one of them and has that code.\<close>

lemma CheckTOTPStep_iff:
  "snd (CheckTOTPStep upr secret given now) \<longleftrightarrow>
     (\<exists>k. decode_secret upr secret = Some k \<and>
        (\<exists>i \<in> {- 1, 0, 1}. trim_space given = totp_code k (time_step now + of_int i) totpDigits))"
proof (cases "decode_secret upr secret")
  case (Some k)
  show ?thesis
  proof (cases "length (trim_space given) = totpDigits")
    case False
    then have "trim_space given \<noteq> totp_code k c totpDigits" for c using totp_code_shape [of k c] by metis
    then show ?thesis using False Some by (simp add: CheckTOTPStep_def)
  next
    case True
    then show ?thesis unfolding CheckTOTPStep_def window_steps using Some by (auto simp: Let_def)
  qed
qed (simp add: CheckTOTPStep_def Let_def)

lemma CheckTOTPStep_step:
  assumes "CheckTOTPStep upr secret given now = (m, True)"
  shows "\<exists>k. decode_secret upr secret = Some k \<and> trim_space given = totp_code k m totpDigits \<and>
    (\<exists>i \<in> {- 1, 0, 1}. m = time_step now + of_int i)"
  using assms unfolding CheckTOTPStep_def window_steps
  by (fastforce simp: Let_def split: if_splits option.splits)

lemma CheckTOTPStep_length: "length (trim_space given) \<noteq> totpDigits \<Longrightarrow> CheckTOTPStep upr secret given now = (0, False)"
  by (simp add: CheckTOTPStep_def Let_def)

section \<open>Secrets\<close>

lemma plain_upper:
  assumes "set s \<subseteq> set base32_alphabet"
  shows "trim_space s = s" "to_upper upr s = s"
proof -
  have g: "graphic c" if "c \<in> set s" for c using base32_alphabet_set assms that by blast
  show "trim_space s = s" by (rule trim_space_graphic) (use g in \<open>auto intro: last_in_set hd_in_set\<close>)
  have "list_all (\<lambda>c. byte c < 0x80) s" using base32_alphabet_set assms by (auto simp: list_all_iff)
  moreover have "map (\<lambda>c. char_of (upper_ascii (byte c))) s = s"
    using base32_alphabet_set assms by (intro map_idI) blast
  ultimately show "to_upper upr s = s" by (simp add: to_upper_def)
qed

lemma decode_new_secret: "5 dvd length bs \<Longrightarrow> decode_secret upr (base32_encode bs) = Some bs"
  by (simp add: decode_secret_def plain_upper [OF base32_encode_set] base32_roundtrip)

section \<open>Clocks\<close>

text \<open>The instants from 1970 on that fit the code's counter.\<close>

definition countable_time :: "instant \<Rightarrow> bool" where
  "countable_time at \<longleftrightarrow> 0 \<le> at \<and> at div second < 2 ^ 63"

lemma time_step_int:
  assumes "countable_time at"
  shows "time_step at = of_int (at div totpStep)"
proof -
  have b: "0 \<le> at div second" "at div second < 2 ^ 64" using assms by (auto simp: countable_time_def second_def)
  have "uint (time_step at) = at div second div 30"
    unfolding time_step_def unix_seconds_def totpStep_def using b
    by (simp add: uint_div uint_word_of_int take_bit_int_eq_self second_def)
  also have "\<dots> = at div totpStep" by (simp add: totpStep_def second_def zdiv_zmult2_eq [symmetric])
  finally show ?thesis by (metis word_of_int_uint)
qed

lemma near_steps:
  assumes "\<bar>at - now\<bar> \<le> totpStep"
  shows "at div totpStep - now div totpStep \<in> {- 1, 0, 1}"
proof -
  have le: "a div totpStep \<le> b div totpStep + 1" if "a \<le> b + totpStep" for a b
    using zdiv_mono1 [OF that, of totpStep] by (simp add: totpStep_def second_def)
  have "at \<le> now + totpStep" "now \<le> at + totpStep" using assms by linarith+
  then have "at div totpStep \<le> now div totpStep + 1" "now div totpStep \<le> at div totpStep + 1" using le by blast+
  then show ?thesis by (simp; linarith)
qed

text \<open>
  C28. Enrolment works, at any time from 1970 on: from the twenty random bytes of a new secret the server and an authenticator app with
  that secret compute the same codes, and a code the app computes is accepted as long as the two clocks are not
  more than one step (30 seconds) apart.  The step the server then remembers is one of the three around its own
  present one and has that code; it is the step of the app, unless two of the three have the same code.
\<close>

theorem clock_skew:
  assumes "length bs = secretBytes" "NewTOTPSecret (Inr bs) = Inr secret"
    and "countable_time at" "countable_time now" "\<bar>at - now\<bar> \<le> totpStep"
  shows "\<exists>c m. TOTPCode upr secret at = Inr c \<and> CheckTOTP upr secret c now \<and> CheckTOTPStep upr secret c now = (m, True) \<and>
    m \<in> {time_step now - 1, time_step now, time_step now + 1} \<and> totp_code bs m totpDigits = c \<and>
    (inj_on (\<lambda>step. totp_code bs step totpDigits) {time_step now - 1, time_step now, time_step now + 1} \<longrightarrow> m = time_step at)"
proof -
  let ?W = "{time_step now - 1, time_step now, time_step now + 1}"
  have k: "decode_secret upr secret = Some bs"
    using assms(1,2) decode_new_secret [of bs upr] by (simp add: NewTOTPSecret_def secretBytes_def)
  define i where "i = at div totpStep - now div totpStep"
  let ?c = "totp_code bs (time_step at) totpDigits"
  have i: "time_step at = time_step now + of_int i" "i \<in> {- 1, 0, 1}"
    using near_steps [OF assms(5)] by (simp_all add: time_step_int assms(3,4) i_def)
  then have code: "TOTPCode upr secret at = Inr ?c" and ok: "CheckTOTP upr secret ?c now"
    using k by (auto simp: TOTPCode_def CheckTOTP_def CheckTOTPStep_iff)
  then obtain m where m: "CheckTOTPStep upr secret ?c now = (m, True)" by (metis CheckTOTP_def prod.collapse)
  have in_W: "time_step at \<in> ?W" "m \<in> ?W" "?c = totp_code bs m totpDigits"
    using i CheckTOTPStep_step [OF m] k by auto
  moreover have "m = time_step at" if "inj_on (\<lambda>step. totp_code bs step totpDigits) ?W"
    using inj_onD [OF that, of m "time_step at"] in_W by simp
  ultimately show ?thesis using code ok m by metis
qed

text \<open>The app's clock is one step behind the server's.\<close>

theorem clock_skew_witness:
  "\<exists>c m. TOTPCode (\<lambda>r. r) (base32_encode (replicate 20 0)) (59 * second) = Inr c \<and>
     CheckTOTPStep (\<lambda>r. r) (base32_encode (replicate 20 0)) c (80 * second) = (m, True) \<and> m \<in> {1, 2, 3} \<and>
     totp_code (replicate 20 0) m totpDigits = c"
proof -
  have step: "time_step (80 * second) = 2"
    by (simp add: time_step_int countable_time_def second_def totpStep_def)
  have "length (replicate 20 (0 :: 8 word)) = secretBytes"
    "NewTOTPSecret (Inr (replicate 20 0)) = Inr (base32_encode (replicate 20 0))" "countable_time (59 * second)"
    "countable_time (80 * second)" "\<bar>59 * second - 80 * second\<bar> \<le> totpStep"
    by (simp_all add: secretBytes_def NewTOTPSecret_def countable_time_def second_def totpStep_def)
  from clock_skew [OF this, of "\<lambda>r. r"] show ?thesis unfolding step by auto
qed

end
