(* ===== verification/Users_TwoFactor.thy ===== *)
theory Users_TwoFactor
  imports Users_Totp Users_Passwords
begin

text \<open>
  The second factor of the built-in sign-in (\<^verbatim>\<open>internal/users/twofactor.go\<close>): the enrolment, the check of a
  code of the app or a recovery code, fresh recovery codes and turning it off.  The mutex makes every
  operation on somebody's second factor one step.  The random bytes of the recovery codes are an argument,
  one buffer per code.
\<close>

section \<open>Recovery codes\<close>

definition recoveryCodes :: nat where "recoveryCodes = 10"
definition recoveryCodeBytes :: nat where "recoveryCodeBytes = 13"
definition recoveryCodeGroups :: nat where "recoveryCodeGroups = 4"

definition group :: "string \<Rightarrow> string" where
  "group code = go_join ''-'' (chunks recoveryCodeGroups code)"

definition normalizeRecoveryCode :: "(nat \<Rightarrow> nat) \<Rightarrow> string \<Rightarrow> string" where
  "normalizeRecoveryCode upr code = to_upper upr (filter (\<lambda>c. c \<noteq> CHR ''-'') (trim_space code))"

definition hashRecoveryCode :: "(nat \<Rightarrow> nat) \<Rightarrow> string \<Rightarrow> string" where
  "hashRecoveryCode upr code = hex_encode (Sum256 (bytes_of (normalizeRecoveryCode upr code)))"

definition splitCodes :: "string \<Rightarrow> string list" where
  "splitCodes stored = filter (\<lambda>code. code \<noteq> []) (map trim_space (split_byte CHR '','' stored))"

definition useRecoveryCode :: "(nat \<Rightarrow> nat) \<Rightarrow> string \<Rightarrow> string \<Rightarrow> string \<times> bool" where
  "useRecoveryCode upr stored given =
     (let wanted = hashRecoveryCode upr given in
      case foldl (\<lambda>(left, used) hash. if hash = wanted then (left, True) else (left @ [hash], used))
             ([], False) (splitCodes stored) of
        (left, used) \<Rightarrow> if \<not> used then (stored, False) else (go_join '','' left, True))"

fun recovery_loop :: "(nat \<Rightarrow> nat) \<Rightarrow> bytes res list \<Rightarrow> (string list \<times> string list) res" where
  "recovery_loop upr [] = Inr ([], [])"
| "recovery_loop upr (Inl e # bufs) = Inl (wrap_err ''failed to generate recovery codes'' e)"
| "recovery_loop upr (Inr buf # bufs) =
     (case recovery_loop upr bufs of
        Inl e \<Rightarrow> Inl e
      | Inr (codes, hashes) \<Rightarrow>
          (let code = base32_encode buf in Inr (group code # codes, hashRecoveryCode upr code # hashes)))"

definition newRecoveryCodes :: "(nat \<Rightarrow> nat) \<Rightarrow> (nat \<Rightarrow> bytes res) \<Rightarrow> (string list \<times> string list) res" where
  "newRecoveryCodes upr rand = recovery_loop upr (map rand [0..<recoveryCodes])"

section \<open>Operations\<close>

definition no_totp :: totp_state where
  "no_totp = \<lparr>totpSecret = [], totpEnabledAt = None, totpRecovery = [], totpLastStep = 0\<rparr>"

definition CodesEnabled :: "string \<Rightarrow> memory \<Rightarrow> bool" where
  "CodesEnabled subject s =
     (case GetUser subject s of Inl e \<Rightarrow> False | Inr u \<Rightarrow> TwoFactorEnabled u)"

definition Passkeys_Has :: "string \<Rightarrow> memory \<Rightarrow> bool" where
  "Passkeys_Has subject s = (0 < length (ListPasskeys subject s))"

definition Enabled :: "bool \<Rightarrow> string \<Rightarrow> memory \<Rightarrow> bool" where
  "Enabled use_passkeys subject s =
     (if use_passkeys \<and> Passkeys_Has subject s then True else CodesEnabled subject s)"

definition Start :: "bytes res \<Rightarrow> string \<Rightarrow> string \<Rightarrow> string \<Rightarrow> memory \<Rightarrow> (string \<times> string) res \<times> memory" where
  "Start rand issuer subject account s =
     (case GetUser subject s of
        Inl e \<Rightarrow> (Inl (Sentinel ErrNoPasswordHere), s)
      | Inr u \<Rightarrow>
          if TwoFactorEnabled u then (Inl (Sentinel ErrTwoFactorSet), s)
          else (case NewTOTPSecret rand of
              Inl e \<Rightarrow> (Inl e, s)
            | Inr secret \<Rightarrow>
                (case SetUserTOTP subject (no_totp\<lparr>totpSecret := secret\<rparr>) s of
                   (Inl e, s) \<Rightarrow> (Inl (wrap_err ''failed to store the new second factor'' e), s)
                 | (Inr _, s) \<Rightarrow> (Inr (secret, TOTPURI issuer account secret), s))))"

definition Confirm :: "(nat \<Rightarrow> nat) \<Rightarrow> (nat \<Rightarrow> bytes res) \<Rightarrow> string \<Rightarrow> string \<Rightarrow> instant \<Rightarrow> memory \<Rightarrow> string list res \<times> memory" where
  "Confirm upr rand subject code now s =
     (case GetUser subject s of
        Inl e \<Rightarrow> (Inl (Sentinel ErrNoPasswordHere), s)
      | Inr u \<Rightarrow>
          if TwoFactorEnabled u then (Inl (Sentinel ErrTwoFactorSet), s)
          else if usrTotpSecret u = [] then (Inl (Sentinel ErrNoTwoFactor), s)
          else if \<not> CheckTOTP upr (usrTotpSecret u) code now then (Inl (Sentinel ErrWrongCode), s)
          else (case newRecoveryCodes upr rand of
              Inl e \<Rightarrow> (Inl e, s)
            | Inr (codes, hashes) \<Rightarrow>
                (case SetUserTOTP subject
                    (no_totp\<lparr>totpSecret := usrTotpSecret u, totpEnabledAt := Some now, totpRecovery := go_join '','' hashes\<rparr>) s of
                   (Inl e, s) \<Rightarrow> (Inl (wrap_err ''failed to store the second factor'' e), s)
                 | (Inr _, s) \<Rightarrow> (Inr codes, s))))"

definition Check :: "(nat \<Rightarrow> nat) \<Rightarrow> string \<Rightarrow> string \<Rightarrow> instant \<Rightarrow> memory \<Rightarrow> bool \<times> memory" where
  "Check upr subject given now s =
     (case GetUser subject s of
        Inl e \<Rightarrow> (False, s)
      | Inr u \<Rightarrow>
          if \<not> TwoFactorEnabled u then (False, s)
          else (case CheckTOTPStep upr (usrTotpSecret u) given now of
              (step, True) \<Rightarrow>
                if sint step \<le> sint (usrTotpLastStep u) then (False, s)
                else (case SetUserTOTP subject ((user_TOTP u)\<lparr>totpLastStep := step\<rparr>) s of
                    (Inl e, s) \<Rightarrow> (False, s)
                  | (Inr _, s) \<Rightarrow> (True, s))
            | (step, False) \<Rightarrow>
                (case useRecoveryCode upr (usrTotpRecovery u) given of
                   (left, False) \<Rightarrow> (False, s)
                 | (left, True) \<Rightarrow>
                     (case SetUserTOTP subject ((user_TOTP u)\<lparr>totpRecovery := left\<rparr>) s of
                        (Inl e, s) \<Rightarrow> (False, s)
                      | (Inr _, s) \<Rightarrow> (True, s)))))"

definition clear_totp :: "string \<Rightarrow> memory \<Rightarrow> unit res \<times> memory" where
  "clear_totp subject s =
     (case SetUserTOTP subject no_totp s of
        (Inl e, s) \<Rightarrow> (Inl (wrap_err ''failed to remove the second factor'' e), s)
      | (Inr _, s) \<Rightarrow> (Inr (), s))"

text \<open>\<^verbatim>\<open>passwords\<close> may be nil; the second reading of the user happens under the lock.\<close>

definition ReplaceRecoveryCodes ::
  "(nat \<Rightarrow> nat) \<Rightarrow> (nat \<Rightarrow> bytes res) \<Rightarrow> password_env option \<Rightarrow> string \<Rightarrow> string \<Rightarrow> instant \<Rightarrow> accounts \<Rightarrow>
     string list res \<times> accounts" where
  "ReplaceRecoveryCodes upr rand passwords subject password now a =
     (case passwords of
        None \<Rightarrow> (Inl (Sentinel ErrNoPasswordHere), a)
      | Some env \<Rightarrow>
          (case GetUser subject (acStore a) of
             Inl e \<Rightarrow> (Inl (Sentinel ErrNoPasswordHere), a)
           | Inr u \<Rightarrow>
               if \<not> TwoFactorEnabled u then (Inl (Sentinel ErrNoTwoFactor), a)
               else (case Verify env subject password now a of
                   (Inl e, a) \<Rightarrow> (Inl e, a)
                 | (Inr _, a) \<Rightarrow>
                     (case GetUser subject (acStore a) of
                        Inl e \<Rightarrow> (Inl (Sentinel ErrNoPasswordHere), a)
                      | Inr u \<Rightarrow>
                          if \<not> TwoFactorEnabled u then (Inl (Sentinel ErrNoTwoFactor), a)
                          else (case newRecoveryCodes upr rand of
                              Inl e \<Rightarrow> (Inl e, a)
                            | Inr (codes, hashes) \<Rightarrow>
                                (case SetUserTOTP subject ((user_TOTP u)\<lparr>totpRecovery := go_join '','' hashes\<rparr>) (acStore a) of
                                   (Inl e, s) \<Rightarrow> (Inl (wrap_err ''failed to store the new recovery codes'' e), a\<lparr>acStore := s\<rparr>)
                                 | (Inr _, s) \<Rightarrow> (Inr codes, a\<lparr>acStore := s\<rparr>)))))))"

definition Disable :: "password_env option \<Rightarrow> string \<Rightarrow> string \<Rightarrow> instant \<Rightarrow> accounts \<Rightarrow> unit res \<times> accounts" where
  "Disable passwords subject password now a =
     (case passwords of
        None \<Rightarrow> (Inl (Sentinel ErrNoPasswordHere), a)
      | Some env \<Rightarrow>
          (case Verify env subject password now a of
             (Inl e, a) \<Rightarrow> (Inl e, a)
           | (Inr _, a) \<Rightarrow> (case clear_totp subject (acStore a) of (r, s) \<Rightarrow> (r, a\<lparr>acStore := s\<rparr>))))"

definition Reset :: "string \<Rightarrow> memory \<Rightarrow> unit res \<times> memory" where
  "Reset subject s =
     (case GetUser subject s of
        Inl e \<Rightarrow> (Inl (Sentinel ErrNoPasswordHere), s)
      | Inr u \<Rightarrow>
          if \<not> TwoFactorEnabled u \<and> usrTotpSecret u = [] then (Inl (Sentinel ErrNoTwoFactor), s)
          else clear_totp subject s)"

definition RecoveryCodesLeft :: "string \<Rightarrow> memory \<Rightarrow> nat" where
  "RecoveryCodesLeft subject s =
     (case GetUser subject s of Inl e \<Rightarrow> 0 | Inr u \<Rightarrow> length (splitCodes (usrTotpRecovery u)))"

section \<open>Lists of codes\<close>


end
