(* ===== verification/Users_Passkeys.thy ===== *)
theory Users_Passkeys
  imports Users_TwoFactor Http
begin

text \<open>
  Passkeys as a second factor (\<^verbatim>\<open>internal/users/passkeys.go\<close>).  The WebAuthn library is a parameter: what it makes
  of a person, a challenge and an answer.  Its challenges and credentials are kept as the JSON the storage
  holds; reading one back may fail.  \<^verbatim>\<open>challengeMu\<close> makes reading and clearing a challenge one step.
\<close>

section \<open>The library\<close>

record credential =
  crID :: bytes
  crCloneWarning :: bool
  crRest :: string

text \<open>What the library asks about a person: the stored user and their credentials.\<close>

record passkey_user =
  puStored :: user
  puPasskeys :: "passkey list"

record 'p webauthn =
  waNew :: "string \<Rightarrow> string \<Rightarrow> unit res"
  waBeginRegistration :: "passkey_user \<Rightarrow> (string \<times> string) res"
  waParseCreation :: "string \<Rightarrow> 'p res"
  waCreateCredential :: "passkey_user \<Rightarrow> string \<Rightarrow> 'p \<Rightarrow> credential res"
  waBeginLogin :: "passkey_user \<Rightarrow> (string \<times> string) res"
  waParseRequest :: "string \<Rightarrow> 'p res"
  waValidateLogin :: "passkey_user \<Rightarrow> string \<Rightarrow> 'p \<Rightarrow> credential res"
  waSessionReadable :: "string \<Rightarrow> bool"
  waMarshal :: "credential \<Rightarrow> string res"
  waUnmarshal :: "string \<Rightarrow> credential option"

definition challengeFor :: duration where "challengeFor = 5 * minute"
definition maxPasskeyName :: nat where "maxPasskeyName = 64"

section \<open>The person\<close>

definition WebAuthnID :: "passkey_user \<Rightarrow> bytes" where
  "WebAuthnID u = Sum256 (bytes_of (''wg-access-server:'' @ usrSubject (puStored u)))"

definition WebAuthnName :: "passkey_user \<Rightarrow> string" where
  "WebAuthnName u = usrSubject (puStored u)"

definition WebAuthnDisplayName :: "passkey_user \<Rightarrow> string" where
  "WebAuthnDisplayName u = (if usrName (puStored u) \<noteq> [] then usrName (puStored u) else usrSubject (puStored u))"

definition WebAuthnCredentials :: "'p webauthn \<Rightarrow> passkey_user \<Rightarrow> credential list" where
  "WebAuthnCredentials W u =
     map (\<lambda>c. c\<lparr>crCloneWarning := False\<rparr>) (List.map_filter (\<lambda>p. waUnmarshal W (pkData p)) (puPasskeys u))"

definition passkeys_user :: "string \<Rightarrow> memory \<Rightarrow> passkey_user res" where
  "passkeys_user subject s =
     (case GetUser subject s of
        Inl e \<Rightarrow> Inl (Sentinel ErrNoPasswordHere)
      | Inr stored \<Rightarrow> Inr \<lparr>puStored = stored, puPasskeys = ListPasskeys subject s\<rparr>)"

definition passkeyName :: "string \<Rightarrow> string" where
  "passkeyName name =
     (let name = trim_space name; name = (if name = [] then ''Passkey'' else name) in
      if length name > maxPasskeyName then take maxPasskeyName name else name)"

section \<open>The site\<close>

definition hostWithPort :: "string \<Rightarrow> request option \<Rightarrow> string" where
  "hostWithPort configured r =
     (if SplitHostPort configured \<noteq> None then configured
      else (case r of
          None \<Rightarrow> configured
        | Some r \<Rightarrow>
            (case SplitHostPort (rqHost r) of
               Some (h, port) \<Rightarrow> if port \<noteq> [] then JoinHostPort configured port else configured
             | None \<Rightarrow> configured)))"

text \<open>The origin of a scheme and a host is written as \<^verbatim>\<open>url.URL\<close> writes them; how it escapes the bytes of an odd host
  is an argument.\<close>

definition RelyingPartyFromHost :: "(string \<Rightarrow> string) \<Rightarrow> string \<Rightarrow> bool \<Rightarrow> request option \<Rightarrow> string \<times> string" where
  "RelyingPartyFromHost escape_host configured httpsOnly r =
     (let host = (if configured = [] then (case r of None \<Rightarrow> [] | Some r \<Rightarrow> rqHost r) else configured) in
      if host = [] then ([], [])
      else
        (let i = (case SplitHostPort host of Some (name, port) \<Rightarrow> name | None \<Rightarrow> host);
             scheme = (if \<not> httpsOnly \<and> (case r of None \<Rightarrow> False
                         | Some r \<Rightarrow> \<not> rqTLS r \<and> header_get r ''X-Forwarded-Proto'' \<noteq> ''https'') then ''http'' else ''https'') in
         (i, scheme @ ''://'' @ escape_host (hostWithPort host r))))"

definition webauthn_ready :: "'p webauthn \<Rightarrow> string \<times> string \<Rightarrow> unit res" where
  "webauthn_ready W party =
     (if fst party = [] then Inl (Err ''passkeys need to know which host this server is: set vpn.externalHost'')
      else (case waNew W (fst party) (snd party) of
          Inl e \<Rightarrow> Inl (wrap_err ''failed to prepare the passkey exchange'' e)
        | Inr u \<Rightarrow> Inr ()))"

section \<open>Challenges\<close>

definition keepChallenge :: "string \<Rightarrow> string \<Rightarrow> instant \<Rightarrow> memory \<Rightarrow> unit res \<times> memory" where
  "keepChallenge subject session now s =
     (case SetWebauthnChallenge subject session (Some (now + challengeFor)) s of
        (Inl e, s) \<Rightarrow> (Inl (wrap_err ''failed to keep the passkey challenge'' e), s)
      | (Inr _, s) \<Rightarrow> (Inr (), s))"

definition takeChallenge :: "'p webauthn \<Rightarrow> string \<Rightarrow> user \<Rightarrow> instant \<Rightarrow> memory \<Rightarrow> string res \<times> memory" where
  "takeChallenge W subject u now s =
     (if usrWebauthnChallenge u = [] \<or>
         (case usrWebauthnChallengeUntil u of None \<Rightarrow> True | Some until \<Rightarrow> until < now)
      then (Inl (Sentinel ErrNoChallenge), s)
      else if \<not> waSessionReadable W (usrWebauthnChallenge u) then (Inl (Sentinel ErrNoChallenge), s)
      else (case SetWebauthnChallenge subject [] None s of
          (Inl e, s) \<Rightarrow> (Inl (wrap_err ''failed to clear the passkey challenge'' e), s)
        | (Inr _, s) \<Rightarrow> (Inr (usrWebauthnChallenge u), s)))"

definition userAndChallenge ::
  "'p webauthn \<Rightarrow> string \<Rightarrow> instant \<Rightarrow> memory \<Rightarrow> (passkey_user \<times> string) res \<times> memory" where
  "userAndChallenge W subject now s =
     (case passkeys_user subject s of
        Inl e \<Rightarrow> (Inl e, s)
      | Inr u \<Rightarrow>
          (case takeChallenge W subject (puStored u) now s of
             (Inl e, s) \<Rightarrow> (Inl e, s)
           | (Inr session, s) \<Rightarrow> (Inr (u, session), s)))"

section \<open>Operations\<close>

definition Passkeys_Delete :: "string \<Rightarrow> string \<Rightarrow> memory \<Rightarrow> unit res \<times> memory" where
  "Passkeys_Delete subject i s =
     (case DeletePasskey subject i s of
        (Inl e, s) \<Rightarrow>
          (Inl (if err_is e ErrPasskeyNotFound then Sentinel ErrNoPasskey else wrap_err ''failed to delete the passkey'' e), s)
      | (Inr _, s) \<Rightarrow> (Inr (), s))"

definition Passkeys_Rename :: "string \<Rightarrow> string \<Rightarrow> string \<Rightarrow> memory \<Rightarrow> passkey res \<times> memory" where
  "Passkeys_Rename subject i name s =
     (case RenamePasskey subject i (passkeyName name) s of
        (Inl e, s) \<Rightarrow>
          (Inl (if err_is e ErrPasskeyNotFound then Sentinel ErrNoPasskey else wrap_err ''failed to rename the passkey'' e), s)
      | (Inr _, s) \<Rightarrow>
          (case GetPasskey i s of
             Inl e \<Rightarrow> (Inl (wrap_err ''failed to read the renamed passkey'' e), s)
           | Inr renamed \<Rightarrow>
               if pkOwner renamed \<noteq> subject then (Inl (Sentinel ErrNoPasskey), s) else (Inr renamed, s)))"

definition BeginRegistration ::
  "'p webauthn \<Rightarrow> string \<times> string \<Rightarrow> string \<Rightarrow> instant \<Rightarrow> memory \<Rightarrow> string res \<times> memory" where
  "BeginRegistration W party subject now s =
     (case passkeys_user subject s of
        Inl e \<Rightarrow> (Inl e, s)
      | Inr u \<Rightarrow>
          (case webauthn_ready W party of
             Inl e \<Rightarrow> (Inl e, s)
           | Inr _ \<Rightarrow>
               (case waBeginRegistration W u of
                  Inl e \<Rightarrow> (Inl (wrap_err ''failed to start the passkey registration'' e), s)
                | Inr (options, session) \<Rightarrow>
                    (case keepChallenge subject session now s of
                       (Inl e, s) \<Rightarrow> (Inl e, s)
                     | (Inr _, s) \<Rightarrow> (Inr options, s)))))"

definition FinishRegistration ::
  "'p webauthn \<Rightarrow> string \<times> string \<Rightarrow> string \<Rightarrow> string \<Rightarrow> string \<Rightarrow> instant \<Rightarrow> memory \<Rightarrow> passkey res \<times> memory" where
  "FinishRegistration W party subject name answer now s =
     (case userAndChallenge W subject now s of
        (Inl e, s) \<Rightarrow> (Inl e, s)
      | (Inr (u, session), s) \<Rightarrow>
          (case webauthn_ready W party of
             Inl e \<Rightarrow> (Inl e, s)
           | Inr _ \<Rightarrow>
               (case waParseCreation W answer of
                  Inl e \<Rightarrow> (Inl (wrap_err ''the browser's answer could not be read'' e), s)
                | Inr parsed \<Rightarrow>
                    (case waCreateCredential W u session parsed of
                       Inl e \<Rightarrow> (Inl (wrap_err ''the passkey was not accepted'' e), s)
                     | Inr credential \<Rightarrow>
                         (case waMarshal W credential of
                            Inl e \<Rightarrow> (Inl (wrap_err ''failed to store the passkey'' e), s)
                          | Inr data \<Rightarrow>
                              (let passkey = \<lparr>pkID = base64url_encode (crID credential), pkOwner = subject,
                                     pkName = passkeyName name, pkData = data, pkCreatedAt = now, pkLastUsedAt = None\<rparr> in
                               case AddPasskey passkey s of
                                 (Inl e, s) \<Rightarrow>
                                   (Inl (if err_is e ErrPasskeyExists then Sentinel ErrPasskeyTaken
                                         else wrap_err ''failed to store the passkey'' e), s)
                               | (Inr _, s) \<Rightarrow> (Inr passkey, s)))))))"

definition BeginLogin ::
  "'p webauthn \<Rightarrow> string \<times> string \<Rightarrow> string \<Rightarrow> instant \<Rightarrow> memory \<Rightarrow> string res \<times> memory" where
  "BeginLogin W party subject now s =
     (case passkeys_user subject s of
        Inl e \<Rightarrow> (Inl e, s)
      | Inr u \<Rightarrow>
          if WebAuthnCredentials W u = [] then (Inl (Sentinel ErrNoPasskey), s)
          else (case webauthn_ready W party of
             Inl e \<Rightarrow> (Inl e, s)
           | Inr _ \<Rightarrow>
               (case waBeginLogin W u of
                  Inl e \<Rightarrow> (Inl (wrap_err ''failed to start the passkey sign-in'' e), s)
                | Inr (options, session) \<Rightarrow>
                    (case keepChallenge subject session now s of
                       (Inl e, s) \<Rightarrow> (Inl e, s)
                     | (Inr _, s) \<Rightarrow> (Inr options, s)))))"

text \<open>Writing the use back is bookkeeping: a failure there does not refuse the sign-in.\<close>

definition note_use :: "'p webauthn \<Rightarrow> credential \<Rightarrow> instant \<Rightarrow> memory \<Rightarrow> memory" where
  "note_use W credential now s =
     (case GetPasskey (base64url_encode (crID credential)) s of
        Inl e \<Rightarrow> s
      | Inr stored \<Rightarrow>
          (let stored = (case waMarshal W credential of Inl e \<Rightarrow> stored | Inr data \<Rightarrow> stored\<lparr>pkData := data\<rparr>) in
           snd (UpdatePasskey (stored\<lparr>pkLastUsedAt := Some now\<rparr>) s)))"

definition FinishLogin ::
  "'p webauthn \<Rightarrow> string \<times> string \<Rightarrow> string \<Rightarrow> string \<Rightarrow> instant \<Rightarrow> memory \<Rightarrow> unit res \<times> memory" where
  "FinishLogin W party subject answer now s =
     (case userAndChallenge W subject now s of
        (Inl e, s) \<Rightarrow> (Inl e, s)
      | (Inr (u, session), s) \<Rightarrow>
          (case webauthn_ready W party of
             Inl e \<Rightarrow> (Inl e, s)
           | Inr _ \<Rightarrow>
               (case waParseRequest W answer of
                  Inl e \<Rightarrow> (Inl (wrap_err ''the browser's answer could not be read'' e), s)
                | Inr parsed \<Rightarrow>
                    (case waValidateLogin W u session parsed of
                       Inl e \<Rightarrow> (Inl (wrap_err ''the passkey was not accepted'' e), s)
                     | Inr credential \<Rightarrow>
                         if crCloneWarning credential
                         then (Inl (Err ''the passkey was not accepted: its sign count did not go up, so a copy of it may be in use''), s)
                         else (Inr (), note_use W credential now s)))))"

section \<open>A challenge is answered once\<close>

lemma takeChallenge_Inl: "takeChallenge W subject u now s = (Inl e, s') \<Longrightarrow> map_of (users s) subject = Some u \<Longrightarrow> s' = s"
  by (auto simp: takeChallenge_def SetWebauthnChallenge_def split: if_splits option.splits)

lemma userAndChallenge_Inl: "userAndChallenge W subject now s = (Inl e, s') \<Longrightarrow> s' = s"
  by (auto simp: userAndChallenge_def passkeys_user_def GetUser_def dest: takeChallenge_Inl
      split: option.splits sum.splits prod.splits)

lemma userAndChallenge_Inr:
  assumes "userAndChallenge W subject now s = (Inr (u, session), s')"
  shows "\<exists>stored until. map_of (users s) subject = Some stored \<and> u = \<lparr>puStored = stored, puPasskeys = ListPasskeys subject s\<rparr> \<and>
    usrWebauthnChallenge stored = session \<and> session \<noteq> [] \<and> usrWebauthnChallengeUntil stored = Some until \<and> now \<le> until \<and>
    s' = s\<lparr>users := AList.update subject (stored\<lparr>usrWebauthnChallenge := [], usrWebauthnChallengeUntil := None\<rparr>) (users s)\<rparr>"
  using assms by (auto simp: userAndChallenge_def passkeys_user_def GetUser_def takeChallenge_def SetWebauthnChallenge_def
      split: option.splits sum.splits prod.splits if_splits)

text \<open>What is asked of the person's stored challenge before an answer is looked at.\<close>

definition challenge_open :: "'p webauthn \<Rightarrow> string \<Rightarrow> instant \<Rightarrow> memory \<Rightarrow> bool" where
  "challenge_open W subject now s =
     (case map_of (users s) subject of
        None \<Rightarrow> False
      | Some u \<Rightarrow> usrWebauthnChallenge u \<noteq> [] \<and> waSessionReadable W (usrWebauthnChallenge u) \<and>
          (case usrWebauthnChallengeUntil u of None \<Rightarrow> False | Some until \<Rightarrow> now \<le> until))"

definition challenge_cleared :: "string \<Rightarrow> memory \<Rightarrow> bool" where
  "challenge_cleared subject s =
     (case map_of (users s) subject of
        None \<Rightarrow> False
      | Some u \<Rightarrow> usrWebauthnChallenge u = [] \<and> usrWebauthnChallengeUntil u = None)"

lemma challenge_open_taken:
  assumes "challenge_open W subject now s"
  obtains u session t where "userAndChallenge W subject now s = (Inr (u, session), t)" "challenge_cleared subject t"
  using assms by (auto simp: challenge_open_def challenge_cleared_def userAndChallenge_def passkeys_user_def GetUser_def
      takeChallenge_def SetWebauthnChallenge_def update_conv' split: option.splits)

lemma challenge_not_open:
  assumes "\<not> challenge_open W subject now s"
  shows "\<exists>e. userAndChallenge W subject now s = (Inl e, s)"
  using assms by (auto simp: challenge_open_def userAndChallenge_def passkeys_user_def GetUser_def takeChallenge_def
      split: option.splits)

lemma challenge_cleared_refuses:
  "challenge_cleared subject s \<Longrightarrow> userAndChallenge W subject now s = (Inl (Sentinel ErrNoChallenge), s)"
  by (auto simp: challenge_cleared_def userAndChallenge_def passkeys_user_def GetUser_def takeChallenge_def
      split: option.splits)

lemma note_use_users: "users (note_use W c now s) = users s"
  by (auto simp: note_use_def UpdatePasskey_def Let_def split: sum.splits option.splits)

lemma FinishLogin_users:
  "userAndChallenge W subject now s = (Inr (u, session), t) \<Longrightarrow>
   users (snd (FinishLogin W party subject answer now s)) = users t"
  by (simp add: FinishLogin_def note_use_users split: sum.splits)

lemma FinishRegistration_users:
  "userAndChallenge W subject now s = (Inr (u, session), t) \<Longrightarrow>
   users (snd (FinishRegistration W party subject name answer now s)) = users t"
  by (auto simp: FinishRegistration_def AddPasskey_def Let_def split: sum.splits option.splits prod.splits if_splits)

text \<open>
  C29. A challenge is answered once.  An answer, to a sign-in or to a registration, that finds a challenge it may
  still answer leaves that person's challenge cleared, whatever the library or the storage made of the answer:
  after it every further answer is refused with \<^verbatim>\<open>ErrNoChallenge\<close> and changes nothing, at any time and with
  any library, until a new exchange is begun.  An answer that finds none (nothing was begun, it was answered, its
  five minutes are over, or it cannot be read) is refused and changes nothing.
\<close>

theorem challenge_used_once:
  assumes "(r, s') = FinishLogin W party subject answer now s \<or>
    (r, s') = map_prod (map_sum id (\<lambda>_. ())) id (FinishRegistration W party subject name answer now s)"
  shows "if challenge_open W subject now s
    then challenge_cleared subject s' \<and>
      FinishLogin W' party' subject answer' later s' = (Inl (Sentinel ErrNoChallenge), s') \<and>
      FinishRegistration W' party' subject name' answer' later s' = (Inl (Sentinel ErrNoChallenge), s')
    else (\<exists>e. r = Inl e) \<and> s' = s"
proof (cases "challenge_open W subject now s")
  case True
  then obtain u session t where t: "userAndChallenge W subject now s = (Inr (u, session), t)" "challenge_cleared subject t"
    by (rule challenge_open_taken)
  have "users s' = users t"
    using assms FinishLogin_users [OF t(1), of party answer] FinishRegistration_users [OF t(1), of party name answer]
    by (metis snd_conv snd_map_prod id_apply)
  then have "challenge_cleared subject s'" using t(2) by (simp add: challenge_cleared_def)
  then show ?thesis using True
    by (simp add: FinishLogin_def FinishRegistration_def challenge_cleared_refuses)
next
  case False
  then obtain e where "userAndChallenge W subject now s = (Inl e, s)" using challenge_not_open by blast
  then show ?thesis using False assms by (auto simp: FinishLogin_def FinishRegistration_def)
qed

section \<open>A credential belongs to whoever registered it first\<close>

lemma passkeyName_bounds: "passkeyName name \<noteq> [] \<and> length (passkeyName name) \<le> maxPasskeyName"
  by (auto simp: passkeyName_def Let_def maxPasskeyName_def)

text \<open>
  Registering a passkey never touches one that exists, whoever it belongs to: it adds one credential that nobody
  had registered, for the person whose challenge was answered and under a name of one to 64 bytes, or it adds
  none.
\<close>

theorem registration_adds:
  assumes "store_ok s" "FinishRegistration W party subject name answer now s = (r, s')"
  shows "case r of
      Inl e \<Rightarrow> passkeys s' = passkeys s
    | Inr p \<Rightarrow> map_of (passkeys s) (pkID p) = None \<and> map_of (passkeys s') = (map_of (passkeys s))(pkID p \<mapsto> p) \<and>
        pkOwner p = subject \<and> pkName p \<noteq> [] \<and> length (pkName p) \<le> maxPasskeyName \<and>
        (\<exists>u session. fst (userAndChallenge W subject now s) = Inr (u, session))"
proof (cases "userAndChallenge W subject now s")
  case (Pair c t)
  show ?thesis
  proof (cases c)
    case (Inl e)
    then have "t = s" using userAndChallenge_Inl Pair by blast
    then show ?thesis using assms(2) Pair Inl by (auto simp: FinishRegistration_def)
  next
    case (Inr us)
    obtain u session where us: "us = (u, session)" by (cases us)
    have "passkeys t = passkeys s" using userAndChallenge_Inr [of W subject now s u session t] Pair Inr us by auto
    then show ?thesis
      using assms(2) Pair Inr us passkeyName_bounds [of name]
      by (auto simp: FinishRegistration_def AddPasskey_def Let_def update_conv' fun_upd_def
          split: sum.splits option.splits prod.splits if_splits)
  qed
qed

section \<open>Examples\<close>

definition easy_webauthn :: "string webauthn" where
  "easy_webauthn = \<lparr>waNew = (\<lambda>i origin. Inr ()), waBeginRegistration = (\<lambda>u. Inr (''{}'', ''c'')), waParseCreation = (\<lambda>a. Inr a),
     waCreateCredential = (\<lambda>u c a. Inr \<lparr>crID = [1, 2, 3], crCloneWarning = False, crRest = a\<rparr>),
     waBeginLogin = (\<lambda>u. Inr (''{}'', ''c'')), waParseRequest = (\<lambda>a. Inr a),
     waValidateLogin = (\<lambda>u c a. Inr \<lparr>crID = [1, 2, 3], crCloneWarning = False, crRest = a\<rparr>),
     waSessionReadable = (\<lambda>c. c = ''c''), waMarshal = (\<lambda>c. Inr (crRest c)),
     waUnmarshal = (\<lambda>d. Some \<lparr>crID = [1, 2, 3], crCloneWarning = False, crRest = d\<rparr>)\<rparr>"

definition challenged :: memory where
  "challenged = NewMemoryStorage\<lparr>users := [(''alice'', alice\<lparr>usrWebauthnChallenge := ''c'', usrWebauthnChallengeUntil := Some 99\<rparr>)]\<rparr>"

text \<open>A sign-in that is accepted, and a registration that the library refuses: the second answer comes to nothing in
  both.\<close>

definition refusing_webauthn :: "string webauthn" where
  "refusing_webauthn = easy_webauthn\<lparr>waCreateCredential := (\<lambda>u c a. Inl (Err ''no''))\<rparr>"

lemma challenged_open: "challenge_open easy_webauthn ''alice'' 60 challenged" "challenge_open refusing_webauthn ''alice'' 60 challenged"
  by (simp_all add: challenge_open_def challenged_def easy_webauthn_def refusing_webauthn_def)

lemma challenged_accepted: "fst (FinishLogin easy_webauthn (''vpn'', ''https://vpn'') ''alice'' ''x'' 60 challenged) = Inr ()"
  by code_simp

lemma challenged_refused:
  "fst (FinishRegistration refusing_webauthn (''vpn'', ''https://vpn'') ''alice'' [] ''x'' 60 challenged) =
   Inl (wrap_err ''the passkey was not accepted'' (Err ''no''))"
  by code_simp

theorem challenge_used_once_witness:
  "\<exists>s1 s2. FinishLogin easy_webauthn (''vpn'', ''https://vpn'') ''alice'' ''x'' 60 challenged = (Inr (), s1) \<and>
     FinishLogin easy_webauthn (''vpn'', ''https://vpn'') ''alice'' ''x'' 61 s1 = (Inl (Sentinel ErrNoChallenge), s1) \<and>
     s2 = snd (FinishRegistration refusing_webauthn (''vpn'', ''https://vpn'') ''alice'' [] ''x'' 60 challenged) \<and>
     FinishLogin easy_webauthn (''vpn'', ''https://vpn'') ''alice'' ''x'' 61 s2 = (Inl (Sentinel ErrNoChallenge), s2)"
proof -
  let ?party = "(''vpn'', ''https://vpn'')"
  obtain s1 where s1: "FinishLogin easy_webauthn ?party ''alice'' ''x'' 60 challenged = (Inr (), s1)"
    using challenged_accepted by (metis prod.collapse)
  obtain s2 where s2: "FinishRegistration refusing_webauthn ?party ''alice'' [] ''x'' 60 challenged =
      (Inl (wrap_err ''the passkey was not accepted'' (Err ''no'')), s2)"
    using challenged_refused by (metis prod.collapse)
  have "FinishLogin easy_webauthn ?party ''alice'' ''x'' 61 s1 = (Inl (Sentinel ErrNoChallenge), s1)"
    using challenge_used_once [OF disjI1 [OF s1 [symmetric]], where W' = easy_webauthn and party' = ?party
        and answer' = "''x''" and later = 61] challenged_open by simp
  moreover have "FinishLogin easy_webauthn ?party ''alice'' ''x'' 61 s2 = (Inl (Sentinel ErrNoChallenge), s2)"
    using challenge_used_once [OF disjI2, where s' = s2 and W = refusing_webauthn and party = ?party and subject = "''alice''"
        and name = "[]" and answer = "''x''" and now = 60 and s = challenged and W' = easy_webauthn and party' = ?party
        and answer' = "''x''" and later = 61] s2 challenged_open by simp
  ultimately show ?thesis using s1 s2 by auto
qed

theorem registration_adds_witness:
  "\<exists>p s'. FinishRegistration easy_webauthn (''vpn'', ''https://vpn'') ''alice'' [] ''x'' 60 challenged = (Inr p, s') \<and>
     map_of (passkeys s') = (map_of (passkeys challenged))(pkID p \<mapsto> p) \<and> pkOwner p = ''alice''"
proof -
  have ok: "store_ok challenged"
    by (simp add: challenged_def store_ok_def NewMemoryStorage_def table_ok_def amap_ok_def alice_def)
  have "is_ok (fst (FinishRegistration easy_webauthn (''vpn'', ''https://vpn'') ''alice'' [] ''x'' 60 challenged))" by code_simp
  then obtain p s' where c: "FinishRegistration easy_webauthn (''vpn'', ''https://vpn'') ''alice'' [] ''x'' 60 challenged = (Inr p, s')"
    by (cases "FinishRegistration easy_webauthn (''vpn'', ''https://vpn'') ''alice'' [] ''x'' 60 challenged")
      (auto simp: is_ok_def split: sum.splits)
  then show ?thesis using registration_adds [OF ok c] by auto
qed

end
