(* ===== verification/Login.thy ===== *)
theory Login
  imports Auth_Session Login_Throttle Users_Passkeys
begin

text \<open>
  The built-in sign-in: the form (\<^verbatim>\<open>internal/authnz/authconfig/simple.go\<close>) with its second step, and basic
  authentication (\<^verbatim>\<open>basic.go\<close>).  A handler gets the exchange, the time and the state, and gives the answer, the
  cookie it sets and the state after it; waiting moves the time.
\<close>

section \<open>State and environment\<close>

record 'c login_state =
  lgStore :: memory
  lgThrottle :: "'c throttle"

text \<open>\<open>leTwoFactor\<close> says whether a second factor is kept at all: the server sets up both kinds or none.\<close>

record ('c, 'p) login_env =
  leSessions :: session_env
  leCache :: "'c lru"
  leHtpasswd :: htpasswd
  leCompare :: "string \<Rightarrow> string \<Rightarrow> bool"
  leUpper :: "nat \<Rightarrow> nat"
  leTwoFactor :: bool
  leWebauthn :: "'p webauthn"
  leParty :: "request \<Rightarrow> string \<times> string"

definition TwoFactorRequired :: "('c, 'p) login_env \<Rightarrow> string \<Rightarrow> memory \<Rightarrow> bool" where
  "TwoFactorRequired L subject s = (leTwoFactor L \<and> Enabled True subject s)"

definition CheckTwoFactor :: "('c, 'p) login_env \<Rightarrow> string \<Rightarrow> string \<Rightarrow> instant \<Rightarrow> memory \<Rightarrow> bool \<times> memory" where
  "CheckTwoFactor L subject code now s =
     (if leTwoFactor L then Check (leUpper L) subject code now s else (False, s))"

definition FinishPasskeyLogin ::
  "('c, 'p) login_env \<Rightarrow> request \<Rightarrow> string \<Rightarrow> string \<Rightarrow> instant \<Rightarrow> memory \<Rightarrow> unit res \<times> memory" where
  "FinishPasskeyLogin L r subject answer now s =
     (if leTwoFactor L then FinishLogin (leWebauthn L) (leParty L r) subject answer now s
      else (Inl (Err ''this server keeps no passkeys''), s))"

definition right_password :: "('c, 'p) login_env \<Rightarrow> string list \<Rightarrow> string \<Rightarrow> string \<Rightarrow> memory \<Rightarrow> bool" where
  "right_password L us username password s =
     checkCreds (leHtpasswd L) (leCompare L) (\<lambda>u. stored_password u s) us username password"

type_synonym 'c outcome = "response \<times> auth_session option \<times> 'c login_state"

section \<open>Parts of the handlers\<close>

definition pendingFor :: duration where "pendingFor = 5 * minute"

definition sessionFor :: "string \<Rightarrow> string \<Rightarrow> auth_session" where
  "sessionFor provider username =
     empty_session\<lparr>asIdentity := Some \<lparr>idProvider = provider, idSubject = username, idName = username, idEmail = [], idClaims = []\<rparr>\<rparr>"

definition sessionNotStarted :: "go_error \<Rightarrow> response" where
  "sessionNotStarted e =
     (case as_validation e of Some reason \<Rightarrow> HttpError 403 reason | None \<Rightarrow> HttpError 500 ''Could not sign in'')"

text \<open>Setting the session of a sign-in and answering: both providers and both second factors end here.\<close>

definition sign_in :: "('c, 'p) login_env \<Rightarrow> exchange \<Rightarrow> auth_session \<Rightarrow> instant \<Rightarrow> 'c login_state \<Rightarrow> 'c outcome" where
  "sign_in L x session now st =
     (case runtime_SetSession (leSessions L) x session now (lgStore st) of
        (Inl e, c, s) \<Rightarrow> (sessionNotStarted e, c, st\<lparr>lgStore := s\<rparr>)
      | (Inr _, c, s) \<Rightarrow> (Redirect 303 ''/'', c, st\<lparr>lgStore := s\<rparr>))"

definition askForCode :: "('c, 'p) login_env \<Rightarrow> exchange \<Rightarrow> string \<Rightarrow> instant \<Rightarrow> 'c login_state \<Rightarrow> 'c outcome" where
  "askForCode L x username now st =
     (case runtime_SetSession (leSessions L) x
         (empty_session\<lparr>asPending := Some \<lparr>pendSubject = username, pendProvider = SimpleAuthProvider, pendUntil = now + pendingFor\<rparr>\<rparr>)
         now (lgStore st) of
        (Inl e, c, s) \<Rightarrow> (HttpError 500 ''Could not start the sign-in'', c, st\<lparr>lgStore := s\<rparr>)
      | (Inr _, c, s) \<Rightarrow> (Page 200 [], c, st\<lparr>lgStore := s\<rparr>))"

text \<open>Whose password was right a moment ago, by the cookie.\<close>

definition pending_user ::
  "('c, 'p) login_env \<Rightarrow> request \<Rightarrow> instant \<Rightarrow> 'c login_state \<Rightarrow> string option \<times> 'c login_state" where
  "pending_user L r now st =
     (case GetSession (leSessions L) r now (lgStore st) of
        (Inl e, s) \<Rightarrow> (None, st\<lparr>lgStore := s\<rparr>)
      | (Inr session, s) \<Rightarrow>
          (if \<not> pending_Valid (asPending session) now \<or> pendProvider (the (asPending session)) \<noteq> SimpleAuthProvider
           then None else Some (pendSubject (the (asPending session))), st\<lparr>lgStore := s\<rparr>))"

text \<open>The second step: \<open>check\<close> is the code or the passkey, given at the time after the wait.\<close>

definition second_step ::
  "('c, 'p) login_env \<Rightarrow> exchange \<Rightarrow> (string \<Rightarrow> instant \<Rightarrow> memory \<Rightarrow> bool \<times> memory) \<Rightarrow> string \<Rightarrow> instant \<Rightarrow> 'c login_state \<Rightarrow> 'c outcome" where
  "second_step L x check wrong now st =
     (case pending_user L (exRequest x) now st of
        (None, st) \<Rightarrow> (Redirect 303 ''/signin?signout=1'', None, st)
      | (Some username, st) \<Rightarrow>
          (case beginSecondFactor username now (lgThrottle st) of
             (False, t) \<Rightarrow> (Page 429 ''Too many wrong answers. Wait a few minutes before you try again.'', None, st\<lparr>lgThrottle := t\<rparr>)
           | (True, t) \<Rightarrow>
               (case wait (leCache L) username now t of (now, t) \<Rightarrow>
                 (case check username now (lgStore st) of
                    (False, s) \<Rightarrow>
                      (Page 403 wrong, None, st\<lparr>lgStore := s, lgThrottle := recordFailure (leCache L) username now t\<rparr>)
                  | (True, s) \<Rightarrow>
                      sign_in L x (sessionFor SimpleAuthProvider username) now
                        (st\<lparr>lgStore := s, lgThrottle := secondFactorSucceeded username (recordSuccess (leCache L) username t)\<rparr>)))))"

definition finishWithCode :: "('c, 'p) login_env \<Rightarrow> exchange \<Rightarrow> string \<Rightarrow> instant \<Rightarrow> 'c login_state \<Rightarrow> 'c outcome" where
  "finishWithCode L x code now st =
     second_step L x (\<lambda>u now s. CheckTwoFactor L u code now s) ''That code is not right'' now st"

definition finishWithPasskey :: "('c, 'p) login_env \<Rightarrow> exchange \<Rightarrow> string \<Rightarrow> instant \<Rightarrow> 'c login_state \<Rightarrow> 'c outcome" where
  "finishWithPasskey L x answer now st =
     second_step L x
       (\<lambda>u now s. case FinishPasskeyLogin L (exRequest x) u answer now s of (r, s) \<Rightarrow> (is_ok r, s))
       ''That passkey was not accepted'' now st"

section \<open>The form\<close>

definition simpleAuthPost :: "('c, 'p) login_env \<Rightarrow> string list \<Rightarrow> exchange \<Rightarrow> instant \<Rightarrow> 'c login_state \<Rightarrow> 'c outcome" where
  "simpleAuthPost L us x now st =
     (let r = exRequest x in
      if rqMethod r \<noteq> ''POST'' then (HttpError 405 ''Method not allowed'', None, st)
      else if exFormError x then (HttpError 400 ''Could not parse form'', None, st)
      else if form_get r ''passkey'' \<noteq> [] then finishWithPasskey L x (form_get r ''passkey'') now st
      else if form_get r ''code'' \<noteq> [] then finishWithCode L x (form_get r ''code'') now st
      else
        (let u = form_get r ''username''; p = form_get r ''password'';
             attempted = (u \<noteq> [] \<and> p \<noteq> [] \<and> length u \<le> maxUsernameLength) in
         if \<not> attempted then (Page 403 ''Invalid username or password'', None, st)
         else (case wait (leCache L) u now (lgThrottle st) of (now, t) \<Rightarrow>
           if right_password L us u p (lgStore st) then
             (let st = st\<lparr>lgThrottle := recordSuccess (leCache L) u t\<rparr> in
              if TwoFactorRequired L u (lgStore st) then askForCode L x u now st
              else sign_in L x (sessionFor SimpleAuthProvider u) now st)
           else
             (Page 403 ''Invalid username or password'', None, st\<lparr>lgThrottle := recordFailure (leCache L) u now t\<rparr>))))"

section \<open>Basic authentication\<close>

definition secondFactorNotPossible :: string where
  "secondFactorNotPossible = ''This account has a second factor, which basic auth cannot ask for. Sign in with the password form instead.''"

text \<open>\<open>basic\<close> is what \<^verbatim>\<open>r.BasicAuth\<close> reads from the header.  A banner is shown by the sign-in page it redirects to.\<close>

definition basicAuthLogin ::
  "('c, 'p) login_env \<Rightarrow> string list \<Rightarrow> (string \<times> string) option \<Rightarrow> exchange \<Rightarrow> instant \<Rightarrow> 'c login_state \<Rightarrow> 'c outcome" where
  "basicAuthLogin L us basic x now st =
     (let (u, p) = (case basic of Some up \<Rightarrow> up | None \<Rightarrow> (form_get (exRequest x) ''username'', form_get (exRequest x) ''password''));
          banner = Redirect 307 ''/signin'';
          unauthorized = (if basic = None then banner else Challenge) in
      if \<not> (u \<noteq> [] \<and> length u \<le> maxUsernameLength) then (unauthorized, None, st)
      else (case wait (leCache L) u now (lgThrottle st) of (now, t) \<Rightarrow>
        if right_password L us u p (lgStore st) then
          (if TwoFactorRequired L u (lgStore st)
           then (if basic = None then banner else HttpError 403 secondFactorNotPossible, None, st\<lparr>lgThrottle := t\<rparr>)
           else sign_in L x (sessionFor BasicAuthProvider u) now (st\<lparr>lgThrottle := recordSuccess (leCache L) u t\<rparr>))
        else (unauthorized, None, st\<lparr>lgThrottle := recordFailure (leCache L) u now t\<rparr>)))"

end
