(* ===== verification/Users_TwoFactor_Laws.thy ===== *)
theory Users_TwoFactor_Laws
  imports Users_TwoFactor
begin

text \<open>
  What the second factor guarantees: a time step is accepted once, a recovery code is used up by being right,
  every recovery code that was handed out works, and taking the second factor away or printing new codes
  needs the password.
\<close>

section \<open>Stored lists of codes\<close>

definition trimmed_entry :: "string \<Rightarrow> bool" where
  "trimmed_entry x \<longleftrightarrow> x \<noteq> [] \<and> CHR '','' \<notin> set x \<and> trim_space x = x"

lemma splitCodes_trimmed: "x \<in> set (splitCodes s) \<Longrightarrow> trimmed_entry x"
  using trim_space_set split_byte_pieces by (fastforce simp: splitCodes_def trimmed_entry_def)

lemma split_join_comma:
  "xs \<noteq> [] \<Longrightarrow> (\<And>x. x \<in> set xs \<Longrightarrow> CHR '','' \<notin> set x) \<Longrightarrow> split_byte CHR '','' (go_join '','' xs) = xs"
  by (induction xs rule: induct_list012) (simp_all add: split_byte_free split_byte_append)

lemma splitCodes_join:
  assumes "\<And>x. x \<in> set xs \<Longrightarrow> trimmed_entry x"
  shows "splitCodes (go_join '','' xs) = xs"
proof (cases "xs = []")
  case True
  then show ?thesis by (simp add: splitCodes_def)
next
  case False
  have "map trim_space xs = xs" "filter (\<lambda>code. code \<noteq> []) xs = xs"
    using assms by (auto simp: trimmed_entry_def intro: map_idI filter_True)
  then show ?thesis using False assms by (simp add: splitCodes_def split_join_comma trimmed_entry_def)
qed

lemma use_fold:
  "foldl (\<lambda>(left, used) hash. if hash = w then (left, True) else (left @ [hash], used)) (l, u) xs =
     (l @ filter (\<lambda>h. h \<noteq> w) xs, u \<or> w \<in> set xs)"
  by (induction xs arbitrary: l u) auto

lemma useRecoveryCode_eq:
  "useRecoveryCode upr stored given =
     (if hashRecoveryCode upr given \<in> set (splitCodes stored)
      then (go_join '','' (filter (\<lambda>h. h \<noteq> hashRecoveryCode upr given) (splitCodes stored)), True)
      else (stored, False))"
  by (simp add: useRecoveryCode_def Let_def use_fold)

lemma useRecoveryCode_left:
  assumes "useRecoveryCode upr stored given = (left, True)"
  shows "hashRecoveryCode upr given \<in> set (splitCodes stored)"
    and "splitCodes left = filter (\<lambda>h. h \<noteq> hashRecoveryCode upr given) (splitCodes stored)"
proof -
  have "splitCodes (go_join '','' (filter P (splitCodes stored))) = filter P (splitCodes stored)" for P
    by (rule splitCodes_join) (auto intro: splitCodes_trimmed)
  then show "hashRecoveryCode upr given \<in> set (splitCodes stored)"
    "splitCodes left = filter (\<lambda>h. h \<noteq> hashRecoveryCode upr given) (splitCodes stored)"
    using assms by (auto simp: useRecoveryCode_eq split: if_splits)
qed

section \<open>The check\<close>

lemma SetUserTOTP_known:
  "map_of (users s) subject = Some u \<Longrightarrow>
   SetUserTOTP subject st s =
     (Inr (), s\<lparr>users := AList.update subject
        (u\<lparr>usrTotpSecret := totpSecret st, usrTotpEnabledAt := totpEnabledAt st,
           usrTotpRecovery := totpRecovery st, usrTotpLastStep := totpLastStep st\<rparr>) (users s)\<rparr>)"
  by (simp add: SetUserTOTP_def)

lemma GetUser_Inr: "GetUser subject s = Inr u \<longleftrightarrow> map_of (users s) subject = Some u"
  by (simp add: GetUser_def split: option.splits)

text \<open>What accepting does to the user, by the code that was accepted.\<close>

definition app_code_used :: "(nat \<Rightarrow> nat) \<Rightarrow> user \<Rightarrow> string \<Rightarrow> instant \<Rightarrow> user \<Rightarrow> bool" where
  "app_code_used upr u given now v \<longleftrightarrow>
     (\<exists>step. CheckTOTPStep upr (usrTotpSecret u) given now = (step, True) \<and>
        sint (usrTotpLastStep u) < sint step \<and> v = u\<lparr>usrTotpLastStep := step\<rparr>)"

definition recovery_code_used :: "(nat \<Rightarrow> nat) \<Rightarrow> user \<Rightarrow> string \<Rightarrow> instant \<Rightarrow> user \<Rightarrow> bool" where
  "recovery_code_used upr u given now v \<longleftrightarrow>
     \<not> CheckTOTP upr (usrTotpSecret u) given now \<and>
     hashRecoveryCode upr given \<in> set (splitCodes (usrTotpRecovery u)) \<and>
     (\<exists>left. splitCodes left = filter (\<lambda>h. h \<noteq> hashRecoveryCode upr given) (splitCodes (usrTotpRecovery u)) \<and>
        v = u\<lparr>usrTotpRecovery := left\<rparr>)"

lemma Check_False: "Check upr subject given now s = (False, s') \<Longrightarrow> s' = s"
  by (auto simp: Check_def SetUserTOTP_def GetUser_def user_TOTP_def
      split: option.splits if_splits sum.splits prod.splits bool.splits)

lemma Check_True:
  assumes "Check upr subject given now s = (True, s')"
  shows "\<exists>u v. map_of (users s) subject = Some u \<and> TwoFactorEnabled u \<and>
    s' = s\<lparr>users := AList.update subject v (users s)\<rparr> \<and>
    (app_code_used upr u given now v \<or> recovery_code_used upr u given now v)"
proof -
  obtain u where u: "map_of (users s) subject = Some u" "TwoFactorEnabled u"
    using assms by (auto simp: Check_def GetUser_def split: option.splits if_splits)
  obtain step ok where c: "CheckTOTPStep upr (usrTotpSecret u) given now = (step, ok)" by fastforce
  show ?thesis
  proof (cases ok)
    case True
    then have "sint (usrTotpLastStep u) < sint step" "s' = s\<lparr>users := AList.update subject (u\<lparr>usrTotpLastStep := step\<rparr>) (users s)\<rparr>"
      using assms u c by (auto simp: Check_def GetUser_def SetUserTOTP_known user_TOTP_def split: if_splits)
    then show ?thesis using u c True by (auto simp: app_code_used_def)
  next
    case False
    obtain left used where l: "useRecoveryCode upr (usrTotpRecovery u) given = (left, used)" by fastforce
    then have used: "used" using assms u c False by (cases used) (auto simp: Check_def GetUser_def)
    then have "s' = s\<lparr>users := AList.update subject (u\<lparr>usrTotpRecovery := left\<rparr>) (users s)\<rparr>"
      using assms u c False l by (simp add: Check_def GetUser_def SetUserTOTP_known user_TOTP_def)
    moreover have "recovery_code_used upr u given now (u\<lparr>usrTotpRecovery := left\<rparr>)"
      using useRecoveryCode_left [of upr "usrTotpRecovery u" given left] l used c False
      by (auto simp: recovery_code_used_def CheckTOTP_def)
    ultimately show ?thesis using u by blast
  qed
qed

text \<open>
  A check that is refused changes nothing.  One that is accepted changes nothing but the second factor of
  that user, and leaves it weaker by exactly what was used: the last accepted time step moves forward to
  the step of the code, or the hash of the recovery code is gone from the list.
\<close>

theorem check_effect:
  "case Check upr subject given now s of
     (False, s') \<Rightarrow> s' = s
   | (True, s') \<Rightarrow> \<exists>u v. map_of (users s) subject = Some u \<and> TwoFactorEnabled u \<and>
       s' = s\<lparr>users := AList.update subject v (users s)\<rparr> \<and>
       (app_code_used upr u given now v \<or> recovery_code_used upr u given now v)"
proof (cases "Check upr subject given now s")
  case (Pair ok s')
  then show ?thesis using Check_False Check_True by (cases ok) auto
qed

section \<open>A time step is accepted once\<close>

text \<open>The steps of the app codes that are accepted in a sequence of checks of one user's second factor.\<close>

fun accepted_steps :: "(nat \<Rightarrow> nat) \<Rightarrow> string \<Rightarrow> (string \<times> instant) list \<Rightarrow> memory \<Rightarrow> int64 list" where
  "accepted_steps upr subject [] s = []"
| "accepted_steps upr subject ((given, now) # calls) s =
     (case GetUser subject s of
        Inl e \<Rightarrow> []
      | Inr u \<Rightarrow>
          (case (Check upr subject given now s, CheckTOTPStep upr (usrTotpSecret u) given now) of
             ((True, s'), (step, True)) \<Rightarrow> step # accepted_steps upr subject calls s'
           | ((_, s'), _) \<Rightarrow> accepted_steps upr subject calls s'))"

lemma accepted_steps_later:
  assumes "GetUser subject s = Inr u"
  shows "sorted_wrt (<) (map sint (usrTotpLastStep u # accepted_steps upr subject calls s))"
  using assms
proof (induction calls arbitrary: s u)
  case (Cons c calls)
  obtain given now where c: "c = (given, now)" by fastforce
  obtain ok s' where r: "Check upr subject given now s = (ok, s')" by fastforce
  obtain step m where m: "CheckTOTPStep upr (usrTotpSecret u) given now = (step, m)" by fastforce
  have u: "map_of (users s) subject = Some u" using Cons.prems by (simp add: GetUser_Inr)
  show ?case
  proof (cases ok)
    case False
    then have "s' = s" using r Check_False [of upr subject given now s s'] by simp
    then show ?thesis using Cons.IH [OF Cons.prems] Cons.prems r m c False by simp
  next
    case True
    then obtain v where v: "s' = s\<lparr>users := AList.update subject v (users s)\<rparr>"
      "app_code_used upr u given now v \<or> recovery_code_used upr u given now v"
      using Check_True r u by fastforce
    have gv: "GetUser subject s' = Inr v" by (simp add: v(1) GetUser_Inr update_conv')
    note IH = Cons.IH [OF gv]
    show ?thesis
    proof (cases m)
      case True
      then have "usrTotpLastStep v = step \<and> sint (usrTotpLastStep u) < sint step"
        using v(2) m by (auto simp: app_code_used_def recovery_code_used_def CheckTOTP_def)
      then show ?thesis using IH Cons.prems r m c \<open>ok\<close> True by auto
    next
      case False
      then have "usrTotpLastStep v = usrTotpLastStep u"
        using v(2) m by (auto simp: app_code_used_def recovery_code_used_def)
      then show ?thesis using IH Cons.prems r m c \<open>ok\<close> False by simp
    qed
  qed
qed simp

text \<open>
  C22. In every sequence of checks, whatever codes are tried at whatever times, the time steps of the app codes
  that are accepted strictly increase: the code that just signed somebody in does not sign anybody in again,
  and neither does one of an earlier step.
\<close>

theorem steps_accepted_once:
  "sorted_wrt (\<lambda>m n. sint m < sint n) (accepted_steps upr subject calls s)"
proof (cases "GetUser subject s")
  case (Inl e)
  then show ?thesis by (cases calls rule: list.exhaust [case_names Nil Cons]) auto
next
  case (Inr u)
  then show ?thesis using accepted_steps_later [of subject s u upr calls] by (simp add: sorted_wrt_map)
qed

section \<open>Recovery codes work once\<close>

lemma Check_recovery:
  assumes u: "map_of (users s) subject = Some u" "TwoFactorEnabled u"
    and c: "\<not> CheckTOTP upr (usrTotpSecret u) given now"
  shows "fst (Check upr subject given now s) \<longleftrightarrow> hashRecoveryCode upr given \<in> set (splitCodes (usrTotpRecovery u))"
proof -
  obtain step where "CheckTOTPStep upr (usrTotpSecret u) given now = (step, False)"
    using c by (metis CheckTOTP_def prod.collapse)
  then show ?thesis using u by (simp add: Check_def GetUser_def useRecoveryCode_eq SetUserTOTP_known)
qed

lemma not_app_code: "length (trim_space given) \<noteq> totpDigits \<Longrightarrow> \<not> CheckTOTP upr secret given now"
  by (simp add: CheckTOTP_def CheckTOTPStep_length)

text \<open>
  A recovery code is used up by being right: once it signed somebody in, it is refused from then on, also in
  another spelling (with or without the dashes, in lower case).
\<close>

theorem recovery_code_once:
  assumes "Check upr subject given now s = (True, s')" "length (trim_space given) \<noteq> totpDigits"
    and "length (trim_space again) \<noteq> totpDigits" "normalizeRecoveryCode upr again = normalizeRecoveryCode upr given"
  shows "\<not> fst (Check upr subject again later s')"
proof -
  obtain u v where u: "map_of (users s) subject = Some u" "TwoFactorEnabled u"
    and s': "s' = s\<lparr>users := AList.update subject v (users s)\<rparr>"
    and use: "app_code_used upr u given now v \<or> recovery_code_used upr u given now v"
    using Check_True [OF assms(1)] by blast
  have "\<not> app_code_used upr u given now v"
    using CheckTOTPStep_length [OF assms(2)] by (simp add: app_code_used_def)
  then obtain left where v: "v = u\<lparr>usrTotpRecovery := left\<rparr>"
    "splitCodes left = filter (\<lambda>h. h \<noteq> hashRecoveryCode upr given) (splitCodes (usrTotpRecovery u))"
    using use by (auto simp: recovery_code_used_def)
  have same: "hashRecoveryCode upr again = hashRecoveryCode upr given" using assms(4) by (simp add: hashRecoveryCode_def)
  have "map_of (users s') subject = Some v" "TwoFactorEnabled v"
    using u by (simp_all add: s' v update_conv' TwoFactorEnabled_def)
  then show ?thesis using Check_recovery [OF _ _ not_app_code [OF assms(3)]] v by (simp add: same)
qed

section \<open>Every recovery code works\<close>

lemma length_sha256_round: "length hs = 8 \<Longrightarrow> length (sha256_round hs kw) = 8"
  by (cases "(hs, kw)" rule: sha256_round.cases) (simp_all add: Let_def)

lemma length_Sum256: "length (Sum256 m) = 32"
proof -
  have "length (foldl sha256_round h ks) = 8" if "length h = 8" for h ks
    by (rule foldl_invariant [where P = "\<lambda>h. length h = 8"]) (simp_all add: that length_sha256_round)
  then have "length (sha256_block h b) = 8" if "length h = 8" for h b using that by (simp add: sha256_block_def)
  then have "length (foldl sha256_block h bs) = 8" if "length h = 8" for h bs
    by (intro foldl_invariant [where P = "\<lambda>h. length h = 8"]) (simp_all add: that)
  then show ?thesis by (simp add: Sum256_def length_concat comp_def sum_list_triv)
qed

lemma hex_clean: "bs \<noteq> [] \<Longrightarrow> clean_entry (hex_encode bs)"
proof -
  assume "bs \<noteq> []"
  moreover have "graphic (digit d) \<and> digit d \<noteq> CHR '',''" if "d < 16" for d
  proof -
    have "list_all (\<lambda>d. graphic (digit d) \<and> digit d \<noteq> CHR '','') [0..<16]" by code_simp
    then show ?thesis using that by (simp add: list_all_iff)
  qed
  ultimately show ?thesis
    by (cases bs) (auto simp: clean_entry_def hex_encode_def hex_digits_def list_all_iff numeral_2_eq_2)
qed

lemma hash_trimmed: "trimmed_entry (hashRecoveryCode upr code)"
proof -
  have "Sum256 m \<noteq> []" for m using length_Sum256 [of m] by auto
  then show ?thesis using clean_entryD hex_clean by (simp add: trimmed_entry_def hashRecoveryCode_def)
qed

lemma chunks_ne: "g \<in> set (chunks k xs) \<Longrightarrow> g \<noteq> [] \<and> set g \<subseteq> set xs"
proof (induction k xs rule: chunks.induct)
  case (1 k xs)
  have c: "\<not> (k = 0 \<or> xs = [])" using 1(2) by (metis chunks.simps empty_iff list.set(1))
  have "g = take k xs \<or> g \<in> set (chunks k (drop k xs))"
    using 1(2) c by (subst (asm) chunks.simps) auto
  then show ?case using 1(1) [OF c] c by (auto dest: in_set_takeD in_set_dropD)
qed

lemma filter_join: "(\<And>g. g \<in> set gs \<Longrightarrow> c \<notin> set g) \<Longrightarrow> filter (\<lambda>x. x \<noteq> c) (go_join [c] gs) = concat gs"
proof (induction gs rule: induct_list012)
  case (2 x)
  then show ?case by (auto intro: filter_True)
next
  case (3 x y zs)
  then have "filter (\<lambda>z. z \<noteq> c) x = x" by (auto intro: filter_True)
  then show ?case using 3 by simp
qed simp

lemma join_ends:
  "(\<And>g. g \<in> set gs \<Longrightarrow> g \<noteq> [] \<and> list_all graphic g) \<Longrightarrow>
   go_join sep gs = [] \<or> (graphic (hd (go_join sep gs)) \<and> graphic (last (go_join sep gs)))"
proof (induction gs rule: induct_list012)
  case (2 x)
  then show ?case by (auto simp: list_all_iff)
next
  case (3 x y zs)
  have x: "x \<noteq> []" "graphic (hd x)" using 3(3) [of x] by (auto simp: list_all_iff)
  moreover have "y \<noteq> []" using 3(3) [of y] by simp
  moreover have "go_join sep (y # zs) = [] \<or> graphic (last (go_join sep (y # zs)))" using 3(2,3) by auto
  moreover have "go_join sep (y # zs) \<noteq> []" using \<open>y \<noteq> []\<close> by (cases zs) auto
  ultimately show ?case by simp
qed simp

text \<open>The dashes are only there to read a code by.\<close>

lemma normalize_group:
  assumes "set code \<subseteq> set base32_alphabet"
  shows "trim_space (group code) = group code" "normalizeRecoveryCode upr (group code) = code"
    "normalizeRecoveryCode upr code = code" "filter (\<lambda>c. c \<noteq> CHR ''-'') (group code) = code"
proof -
  have g: "g \<noteq> [] \<and> list_all graphic g \<and> CHR ''-'' \<notin> set g" if "g \<in> set (chunks recoveryCodeGroups code)" for g
    using chunks_ne [OF that] assms base32_alphabet_set by (force simp: list_all_iff)
  show t: "trim_space (group code) = group code"
    unfolding group_def by (rule trim_space_graphic, rule join_ends) (use g in blast)
  show f: "filter (\<lambda>c. c \<noteq> CHR ''-'') (group code) = code"
    unfolding group_def using g by (subst filter_join) (auto simp: concat_chunks recoveryCodeGroups_def)
  show "normalizeRecoveryCode upr (group code) = code"
    by (simp add: normalizeRecoveryCode_def t f plain_upper [OF assms])
  have "filter (\<lambda>c. c \<noteq> CHR ''-'') code = code" using assms base32_alphabet_set by (blast intro: filter_True)
  then show "normalizeRecoveryCode upr code = code"
    by (simp add: normalizeRecoveryCode_def plain_upper [OF assms])
qed

lemma recovery_loop_codes:
  assumes "recovery_loop upr bufs = Inr (codes, hashes)"
  shows "\<exists>bss. bufs = map Inr bss \<and> codes = map (\<lambda>bs. group (base32_encode bs)) bss \<and>
    hashes = map (\<lambda>bs. hashRecoveryCode upr (base32_encode bs)) bss"
  using assms
proof (induction upr bufs arbitrary: codes hashes rule: recovery_loop.induct)
  case (3 upr buf bufs)
  then obtain cs hs where "recovery_loop upr bufs = Inr (cs, hs)" and
    c: "codes = group (base32_encode buf) # cs" "hashes = hashRecoveryCode upr (base32_encode buf) # hs"
    by (auto simp: Let_def split: sum.splits)
  then obtain bss where "bufs = map Inr bss" "cs = map (\<lambda>bs. group (base32_encode bs)) bss"
    "hs = map (\<lambda>bs. hashRecoveryCode upr (base32_encode bs)) bss" using 3(1) by blast
  then show ?case using c by (intro exI [of _ "buf # bss"]) simp
qed simp_all

lemma newRecoveryCodes_length:
  assumes "newRecoveryCodes upr rand = Inr (codes, hashes)"
  shows "length codes = recoveryCodes"
proof -
  obtain bss where bss: "map rand [0..<recoveryCodes] = map Inr bss" "codes = map (\<lambda>bs. group (base32_encode bs)) bss"
    using recovery_loop_codes assms unfolding newRecoveryCodes_def by blast
  from bss(1) have "length (map rand [0..<recoveryCodes]) = length (map Inr bss :: bytes res list)" by (rule arg_cong)
  then show ?thesis using bss(2) by simp
qed

lemma length_recovery_code:
  assumes "length bs = recoveryCodeBytes"
  shows "length (base32_encode bs) = 21"
proof -
  have len: "length (concat (map (\<lambda>b. bits_of 8 (unat b)) bs)) = 20 * 5 + 4"
    using assms by (simp add: recoveryCodeBytes_def length_concat comp_def sum_list_triv)
  have "length (chunks 5 (xs :: bool list)) = 21" if "length xs = 20 * 5 + 4" for xs
  proof -
    have "chunks 5 (take 100 xs @ drop 100 xs) = chunks 5 (take 100 xs) @ chunks 5 (drop 100 xs)"
      using that by (intro chunks_append) simp_all
    moreover have "length (chunks 5 (take 100 xs)) = 20" using that by (intro length_chunks) simp_all
    moreover have "length (chunks 5 (drop 100 xs)) = 1" using that by (subst chunks.simps) (simp add: chunks.simps [of 5 "[]"])
    ultimately show ?thesis by simp
  qed
  then show ?thesis using len by (simp add: base32_encode_def encode_bits_def)
qed

text \<open>What somebody may type for a code they were shown: any of its letters in lower case, dashes left out or put
  elsewhere, and white space around it.\<close>

definition same_letter :: "char \<Rightarrow> char \<Rightarrow> bool" where
  "same_letter x y \<longleftrightarrow> x = y \<or> (65 \<le> byte y \<and> byte y \<le> 90 \<and> byte x = byte y + 32)"

definition typed_as :: "string \<Rightarrow> string \<Rightarrow> bool" where
  "typed_as t code \<longleftrightarrow>
     list_all2 same_letter (filter (\<lambda>c. c \<noteq> CHR ''-'') (trim_space t)) (filter (\<lambda>c. c \<noteq> CHR ''-'') code)"

lemma same_letter_upper:
  assumes "same_letter x y" "y \<in> set base32_alphabet"
  shows "byte x < 0x80 \<and> char_of (upper_ascii (byte x)) = y"
proof (cases "x = y")
  case False
  then have "65 \<le> byte y" "byte y \<le> 90" "byte x = byte y + 32" using assms(1) by (auto simp: same_letter_def)
  then show ?thesis by (simp add: upper_ascii_def byte_def)
qed (use assms(2) base32_alphabet_set in blast)

lemma typed_upper:
  "list_all2 same_letter xs ys \<Longrightarrow> set ys \<subseteq> set base32_alphabet \<Longrightarrow>
   list_all (\<lambda>c. byte c < 0x80) xs \<and> map (\<lambda>c. char_of (upper_ascii (byte c))) xs = ys"
  by (induction rule: list_all2_induct) (auto dest: same_letter_upper)

lemma typed_recovery_code:
  assumes "typed_as t (group code)" "set code \<subseteq> set base32_alphabet"
  shows "normalizeRecoveryCode upr t = code" "length code \<le> length (trim_space t)"
proof -
  have t: "list_all2 same_letter (filter (\<lambda>c. c \<noteq> CHR ''-'') (trim_space t)) code"
    using assms by (simp add: typed_as_def normalize_group(4))
  show "normalizeRecoveryCode upr t = code"
    using typed_upper [OF t assms(2)] by (simp add: normalizeRecoveryCode_def to_upper_def)
  show "length code \<le> length (trim_space t)" using list_all2_lengthD [OF t] by (metis length_filter_le)
qed

lemma Confirm_OkD:
  assumes "Confirm upr rand subject code now s = (Inr codes, s')"
  shows "\<exists>u hashes. map_of (users s) subject = Some u \<and> CheckTOTP upr (usrTotpSecret u) code now \<and> usrTotpSecret u \<noteq> [] \<and>
    newRecoveryCodes upr rand = Inr (codes, hashes) \<and>
    s' = s\<lparr>users := AList.update subject (u\<lparr>usrTotpEnabledAt := Some now, usrTotpRecovery := go_join '','' hashes,
      usrTotpLastStep := 0\<rparr>) (users s)\<rparr>"
  using assms by (auto simp: Confirm_def GetUser_def SetUserTOTP_known no_totp_def split: option.splits if_splits sum.splits)

text \<open>
  C26. Finishing an enrolment needs a right code of the app and hands out ten recovery codes; each of them signs its
  owner in later, also when it is typed in lower case, without its dashes or with white space around it.
\<close>

theorem recovery_codes_work:
  assumes "Confirm upr rand subject code now s = (Inr codes, s')"
    and "\<And>i bs. rand i = Inr bs \<Longrightarrow> length bs = recoveryCodeBytes" "c \<in> set codes" "typed_as t c"
  shows "(\<exists>u. map_of (users s) subject = Some u \<and> CheckTOTP upr (usrTotpSecret u) code now) \<and>
    length codes = recoveryCodes \<and> CodesEnabled subject s' \<and> fst (Check upr subject t later s')"
proof -
  obtain u hashes where u: "map_of (users s) subject = Some u" "usrTotpSecret u \<noteq> []" "CheckTOTP upr (usrTotpSecret u) code now"
    and new: "newRecoveryCodes upr rand = Inr (codes, hashes)"
    and s': "s' = s\<lparr>users := AList.update subject (u\<lparr>usrTotpEnabledAt := Some now, usrTotpRecovery := go_join '','' hashes,
      usrTotpLastStep := 0\<rparr>) (users s)\<rparr>"
    using Confirm_OkD [OF assms(1)] by blast
  obtain bss where bss: "map rand [0..<recoveryCodes] = map Inr bss" "codes = map (\<lambda>bs. group (base32_encode bs)) bss"
    "hashes = map (\<lambda>bs. hashRecoveryCode upr (base32_encode bs)) bss"
    using recovery_loop_codes new unfolding newRecoveryCodes_def by blast
  obtain bs where bs: "bs \<in> set bss" "c = group (base32_encode bs)" using assms(3) bss(2) by auto
  have "Inr bs \<in> set (map rand [0..<recoveryCodes])" unfolding bss(1) using bs(1) by simp
  then have "length bs = recoveryCodeBytes" using assms(2) by fastforce
  note typed = typed_recovery_code [OF assms(4) [unfolded bs(2)] base32_encode_set]
  have "length (trim_space t) \<noteq> totpDigits"
    using typed(2) length_recovery_code [OF \<open>length bs = recoveryCodeBytes\<close>] by (simp add: totpDigits_def)
  note not_app_code [OF this]
  moreover have "splitCodes (go_join '','' hashes) = hashes" by (rule splitCodes_join) (auto simp: bss(3) hash_trimmed)
  moreover have "hashRecoveryCode upr t = hashRecoveryCode upr (base32_encode bs)"
    unfolding hashRecoveryCode_def using typed(1) normalize_group(3) [OF base32_encode_set] by simp
  moreover have "length codes = recoveryCodes" by (rule newRecoveryCodes_length [OF new])
  ultimately show ?thesis
    using Check_recovery [of s' subject "u\<lparr>usrTotpEnabledAt := Some now, usrTotpRecovery := go_join '','' hashes, usrTotpLastStep := 0\<rparr>" upr t later] bs(1) u
    by (auto simp: s' update_conv' TwoFactorEnabled_def CodesEnabled_def GetUser_def bss(3))
qed

section \<open>The password guards it\<close>

lemma Verify_cases:
  obtains (wrong) e b where "Verify env subject p now a = (Inl e, b)" "acStore b = acStore a"
  | (right) entry b where "Verify env subject p now a = (Inr (), b)" "acStore b = acStore a"
      "envConfigured env subject = Some entry" "password_is env entry subject p (acStore a)"
proof (cases "Verify env subject p now a")
  case (Pair r b)
  then have b: "acStore b = acStore a" using Verify_store [of env subject p now a] by simp
  show ?thesis
  proof (cases r)
    case (Inl e)
    then show ?thesis using wrong Pair b by blast
  next
    case (Inr u)
    then show ?thesis using right [OF _ b] Verify_OkD(1) [of env subject p now a u b] Pair by auto
  qed
qed

text \<open>
  Turning the second factor off and printing new recovery codes need the password of the account: when one
  of them fails the storage is as it was, and when it succeeds the password was right, and the second factor
  is off, or is still on with ten fresh codes.
\<close>

theorem second_factor_guarded:
  "(case Disable passwords subject password now a of
      (Inl e, b) \<Rightarrow> acStore b = acStore a
    | (Inr u, b) \<Rightarrow> \<exists>env entry. passwords = Some env \<and> envConfigured env subject = Some entry \<and>
        password_is env entry subject password (acStore a) \<and> \<not> CodesEnabled subject (acStore b)) \<and>
   (case ReplaceRecoveryCodes upr rand passwords subject password now a of
      (Inl e, b) \<Rightarrow> acStore b = acStore a
    | (Inr codes, b) \<Rightarrow> \<exists>env entry. passwords = Some env \<and> envConfigured env subject = Some entry \<and>
        password_is env entry subject password (acStore a) \<and> CodesEnabled subject (acStore b) \<and> length codes = recoveryCodes)"
proof (cases passwords)
  case None
  then show ?thesis by (simp add: Disable_def ReplaceRecoveryCodes_def)
next
  case (Some env)
  show ?thesis
  proof (cases rule: Verify_cases [of env subject password now a])
    case (wrong e b)
    then show ?thesis
      using Some by (auto simp: Disable_def ReplaceRecoveryCodes_def split: sum.splits)
  next
    case (right entry b)
    have off: "case Disable passwords subject password now a of
        (Inl e, b) \<Rightarrow> acStore b = acStore a
      | (Inr u, b) \<Rightarrow> \<not> CodesEnabled subject (acStore b)"
      using Some right(1,2)
      by (simp add: Disable_def clear_totp_def SetUserTOTP_def no_totp_def CodesEnabled_def GetUser_def
          TwoFactorEnabled_def update_conv' split: option.splits)
    have new: "case ReplaceRecoveryCodes upr rand passwords subject password now a of
        (Inl e, b) \<Rightarrow> acStore b = acStore a
      | (Inr codes, b) \<Rightarrow> CodesEnabled subject (acStore b) \<and> length codes = recoveryCodes"
    proof (cases "map_of (users (acStore a)) subject")
      case None
      then show ?thesis using Some by (simp add: ReplaceRecoveryCodes_def GetUser_def)
    next
      case (Some u)
      then have u: "GetUser subject (acStore a) = Inr u" by (simp add: GetUser_Inr)
      show ?thesis
      proof (cases "newRecoveryCodes upr rand")
        case (Inl e)
        then show ?thesis using \<open>passwords = Some env\<close> right(1,2) u by (simp add: ReplaceRecoveryCodes_def)
      next
        case (Inr ch)
        obtain codes hashes where ch: "ch = (codes, hashes)" by (cases ch)
        then show ?thesis
          using \<open>passwords = Some env\<close> right(1,2) u Inr Some newRecoveryCodes_length [of upr rand codes hashes]
          by (simp add: ReplaceRecoveryCodes_def SetUserTOTP_known CodesEnabled_def GetUser_def TwoFactorEnabled_def
              user_TOTP_def update_conv')
      qed
    qed
    show ?thesis using off new Some right(3,4) by (auto split: prod.splits sum.splits)
  qed
qed

section \<open>Examples\<close>

definition alice_enrolling :: memory where
  "alice_enrolling = NewMemoryStorage\<lparr>users := [(''alice'', alice\<lparr>usrTotpSecret := base32_encode (replicate 20 0)\<rparr>)]\<rparr>"

definition alice_code :: string where
  "alice_code = totp_code (replicate 20 0) (time_step 0) totpDigits"

lemma alice_secret: "base32_encode (replicate 20 0) = replicate 32 CHR ''A''"
  by code_simp

lemma alice_confirms:
  "\<exists>s'. Confirm (\<lambda>r. r) (\<lambda>i. Inr (replicate 13 (of_nat i))) ''alice'' alice_code 0 alice_enrolling =
     (Inr (map (\<lambda>i. group (base32_encode (replicate 13 (of_nat i)))) [0..<10]), s')"
proof -
  let ?secret = "base32_encode (replicate 20 0)"
  have "decode_secret (\<lambda>r. r) ?secret = Some (replicate 20 0)" by (rule decode_new_secret) simp
  then have check: "CheckTOTP (\<lambda>r. r) ?secret alice_code 0"
    unfolding CheckTOTP_def CheckTOTPStep_iff by (auto simp: alice_code_def)
  have codes: "\<exists>hs. recovery_loop upr (map (\<lambda>i. Inr (replicate 13 (of_nat i))) is) =
      Inr (map (\<lambda>i. group (base32_encode (replicate 13 (of_nat i)))) is, hs)" for upr "is"
    by (induction "is") (auto simp: Let_def)
  obtain hs where hs: "newRecoveryCodes (\<lambda>r. r) (\<lambda>i. Inr (replicate 13 (of_nat i))) =
      Inr (map (\<lambda>i. group (base32_encode (replicate 13 (of_nat i)))) [0..<10], hs)"
    using codes [of _ "[0..<10]"] by (auto simp: newRecoveryCodes_def recoveryCodes_def)
  have "GetUser ''alice'' alice_enrolling = Inr (alice\<lparr>usrTotpSecret := ?secret\<rparr>)"
    by (simp add: alice_enrolling_def GetUser_def)
  then show ?thesis
    using check hs by (simp add: Confirm_def TwoFactorEnabled_def alice_def alice_secret SetUserTOTP_def alice_enrolling_def)
qed

text \<open>The first code, in lower case and without its dashes.\<close>

definition shown_code :: string where
  "shown_code = group (base32_encode (replicate 13 0))"

definition typed_code :: string where
  "typed_code = '' aaaaaaaaaaaaaaaaaaaaa ''"

lemma typed_code_as: "typed_as typed_code shown_code"
  by code_simp

theorem recovery_codes_work_witness:
  "\<exists>codes s'. Confirm (\<lambda>r. r) (\<lambda>i. Inr (replicate 13 (of_nat i))) ''alice'' alice_code 0 alice_enrolling = (Inr codes, s') \<and>
     length codes = recoveryCodes \<and> shown_code \<in> set codes \<and> fst (Check (\<lambda>r. r) ''alice'' typed_code 60 s')"
proof -
  obtain codes s' where c: "codes = map (\<lambda>i. group (base32_encode (replicate 13 (of_nat i)))) [0..<10]"
    "Confirm (\<lambda>r. r) (\<lambda>i. Inr (replicate 13 (of_nat i))) ''alice'' alice_code 0 alice_enrolling = (Inr codes, s')"
    using alice_confirms by blast
  then have "shown_code \<in> set codes" by (force simp: shown_code_def intro: image_eqI [of _ _ 0])
  then show ?thesis
    using recovery_codes_work [OF c(2) _ _ typed_code_as, of 60] c(2) by (auto simp: recoveryCodeBytes_def)
qed

definition recovering :: user where
  "recovering = alice\<lparr>usrTotpSecret := ''AAAAAAAA'', usrTotpEnabledAt := Some 0,
     usrTotpRecovery := hashRecoveryCode (\<lambda>r. r) ''ABCDEFGH''\<rparr>"

definition alice_recovering :: memory where
  "alice_recovering = NewMemoryStorage\<lparr>users := [(''alice'', recovering)]\<rparr>"

theorem recovery_code_once_witness:
  "\<exists>s'. Check (\<lambda>r. r) ''alice'' ''abcd-efgh'' 60 alice_recovering = (True, s') \<and>
     \<not> fst (Check (\<lambda>r. r) ''alice'' ''ABCDEFGH'' 90 s')"
proof -
  have same: "normalizeRecoveryCode (\<lambda>r. r) ''ABCDEFGH'' = normalizeRecoveryCode (\<lambda>r. r) ''abcd-efgh''" by code_simp
  have len: "length (trim_space ''abcd-efgh'') \<noteq> totpDigits" "length (trim_space ''ABCDEFGH'') \<noteq> totpDigits" by code_simp+
  have "splitCodes (go_join '','' [hashRecoveryCode (\<lambda>r. r) ''ABCDEFGH'']) = [hashRecoveryCode (\<lambda>r. r) ''ABCDEFGH'']"
    by (rule splitCodes_join) (simp add: hash_trimmed)
  then have "hashRecoveryCode (\<lambda>r. r) ''abcd-efgh'' \<in> set (splitCodes (usrTotpRecovery recovering))"
    by (simp add: recovering_def hashRecoveryCode_def same)
  moreover have "map_of (users alice_recovering) ''alice'' = Some recovering" "TwoFactorEnabled recovering"
    by (simp_all add: alice_recovering_def recovering_def TwoFactorEnabled_def)
  ultimately have "fst (Check (\<lambda>r. r) ''alice'' ''abcd-efgh'' 60 alice_recovering)"
    using Check_recovery [OF _ _ not_app_code [OF len(1)]] by blast
  then obtain s' where s': "Check (\<lambda>r. r) ''alice'' ''abcd-efgh'' 60 alice_recovering = (True, s')"
    by (metis prod.collapse)
  then show ?thesis using recovery_code_once [OF s' len same, of 90] by blast
qed

end
