(* ===== verification/Login_Properties.thy ===== *)
theory Login_Properties
  imports Login Users_TwoFactor_Laws
begin

text \<open>
  What the built-in sign-in guarantees: a session for an account with a second factor takes the password and the
  second factor, basic authentication never opens such an account, and a subject belongs to the provider it
  first signed in through.
\<close>

section \<open>Setting a session\<close>

lemma Identity_store_ok: "store_ok s \<Longrightarrow> store_ok (snd (session_Identity J i now s))"
  by (auto simp: session_Identity_def store_ok_TouchSession split: sum.splits)

lemma GetSession_store_ok: "store_ok s \<Longrightarrow> store_ok (snd (GetSession E r now s))"
  using Identity_store_ok [of s "seCodec E"]
  by (auto simp: GetSession_def Let_def split: option.splits prod.splits sum.splits) (metis snd_conv)+

lemma session_End_store_ok: "store_ok s \<Longrightarrow> store_ok (snd (session_End i s))"
  by (auto simp: session_End_def store_ok_DeleteSession split: sum.splits)

lemma end_previous_store_ok: "store_ok s \<Longrightarrow> store_ok (end_previous E r other now s)"
  using GetSession_store_ok [of s E r now] session_End_store_ok
  by (auto simp: end_previous_def split: prod.splits sum.splits)

lemma session_Create_found:
  assumes "store_ok s" "session_Create J maxAge rand uuid (Some i) r now s = (Inr secret, s')"
  shows "\<exists>x. session_of secret s' = Some x \<and> sesOwner x = idSubject i \<and> sesExpiresAt x = now + maxAge"
proof -
  obtain enc where enc: "marshal J i = Inr enc" using assms(2) by (auto simp: session_Create_def split: sum.splits)
  define x where "x = \<lparr>sesID = uuid, sesOwner = idSubject i, sesHash = secret_hash secret, sesIdentity = enc,
      sesUserAgent = userAgent r, sesRemoteAddr = remoteAddr r,
      sesCreatedAt = now, sesExpiresAt = now + maxAge, sesLastSeenAt = now\<rparr>"
  have "SaveSession x s = (Inr (), s')"
    using assms(2) by (auto simp: session_Create_def enc x_def split: prod.splits sum.splits)
  then have "session_of secret s' = Some x" using ses.found_save [OF assms(1), of x] by (simp add: x_def)
  then show ?thesis by (auto simp: x_def)
qed

lemma recordLogin_sessions [simp]: "sessions (recordLogin i now s) = sessions s"
  by (simp add: recordLogin_def SaveUser_def Let_def)

text \<open>A sign-in that succeeds sets a cookie with the id of a session of that identity, and with nothing pending.\<close>

lemma runtime_SetSession_identity:
  assumes "store_ok s" "runtime_SetSession E x (empty_session\<lparr>asIdentity := Some i\<rparr>) now s = (r, Some c, s')"
  shows "r = Inr () \<and> checkLogin i s = None \<and> asPending c = None \<and>
    (\<exists>y. session_of (asID c) s' = Some y \<and> sesOwner y = idSubject i)"
proof -
  let ?s = "end_previous E (exRequest x) (\<lambda>i. i \<noteq> []) now s"
  obtain secret t where c: "session_Create (seCodec E) (seMaxAge E) (exRand x) (exUuid x) (Some i) (Some (exRequest x)) now ?s = (Inr secret, t)"
    and r: "r = Inr ()" "checkLogin i s = None" "c = cookie_of (empty_session\<lparr>asIdentity := Some i, asID := secret\<rparr>)"
      "s' = recordLogin i now t"
    using assms(2) by (auto simp: runtime_SetSession_def SetSession_def Let_def empty_session_def
        split: prod.splits sum.splits option.splits)
  obtain y where "session_of secret t = Some y" "sesOwner y = idSubject i"
    using session_Create_found [OF end_previous_store_ok [OF assms(1)] c] by blast
  then have "session_of secret s' = Some y" by (simp add: r(4) GetSessionByHash_def)
  then show ?thesis using r \<open>sesOwner y = idSubject i\<close> by (auto simp: cookie_of_def empty_session_def)
qed

lemma runtime_SetSession_pending:
  assumes "runtime_SetSession E x (empty_session\<lparr>asPending := Some p\<rparr>) now s = (r, Some c, s')"
  shows "asID c = [] \<and> asPending c = Some p"
  using assms by (auto simp: runtime_SetSession_def SetSession_def Let_def empty_session_def cookie_of_def
      split: prod.splits sum.splits option.splits)

lemma runtime_SetSession_none:
  "runtime_SetSession E x session now s = (Inl e, c, s') \<Longrightarrow> c = None"
  by (auto simp: runtime_SetSession_def SetSession_def Let_def split: prod.splits sum.splits option.splits)

section \<open>The cookies of the form\<close>

text \<open>The account whose password step a request carries.\<close>

definition pending_of :: "request \<Rightarrow> instant \<Rightarrow> string option" where
  "pending_of r now =
     (case rqCookie r of
        None \<Rightarrow> None
      | Some c \<Rightarrow>
          if pending_Valid (asPending c) now \<and> pendProvider (the (asPending c)) = SimpleAuthProvider
          then Some (pendSubject (the (asPending c))) else None)"

lemma pending_user_of:
  assumes "pending_user L r now st = (Some u, st')"
  shows "pending_of r now = Some u \<and> st' = st\<lparr>lgStore := snd (GetSession (leSessions L) r now (lgStore st))\<rparr>"
  using assms by (auto simp: pending_user_def pending_of_def GetSession_def Let_def cookie_of_def
      split: prod.splits sum.splits option.splits if_splits)

text \<open>What a cookie that a handler sets stands for: a session of an account, or a password step of one.\<close>

definition opens :: "'c outcome \<Rightarrow> string \<Rightarrow> bool" where
  "opens out u \<longleftrightarrow> (\<exists>resp c st y. out = (resp, Some c, st) \<and> session_of (asID c) (lgStore st) = Some y \<and> sesOwner y = u \<and> asPending c = None)"

definition passes_password :: "'c outcome \<Rightarrow> string \<Rightarrow> bool" where
  "passes_password out u \<longleftrightarrow> (\<exists>resp c st p. out = (resp, Some c, st) \<and> asID c = [] \<and> asPending c = Some p \<and> pendSubject p = u)"

lemma sign_in_opens:
  assumes "store_ok (lgStore st)" "sign_in L x (sessionFor provider u) now st = (resp, Some c, st')"
  shows "opens (resp, Some c, st') u \<and> \<not> passes_password (resp, Some c, st') v"
proof -
  obtain r s' where "runtime_SetSession (leSessions L) x (sessionFor provider u) now (lgStore st) = (r, Some c, s')" "lgStore st' = s'"
    using assms(2) by (auto simp: sign_in_def split: prod.splits sum.splits)
  then show ?thesis
    using runtime_SetSession_identity [OF assms(1), of "leSessions L" x _ now r c s'] unfolding sessionFor_def
    by (fastforce simp: opens_def passes_password_def)
qed

lemma Check_store_ok: "store_ok s \<Longrightarrow> store_ok (snd (Check upr u code now s))"
  using store_ok_SetUserTOTP [of s u]
  by (auto simp: Check_def split: sum.splits prod.splits bool.splits if_splits) (metis snd_conv)+

lemma CheckTwoFactor_store_ok: "store_ok s \<Longrightarrow> store_ok (snd (CheckTwoFactor L u code now s))"
  by (simp add: CheckTwoFactor_def Check_store_ok)

lemma note_use_store_ok: "store_ok s \<Longrightarrow> store_ok (note_use W c now s)"
  by (auto simp: note_use_def Let_def store_ok_UpdatePasskey split: sum.splits)

lemma userAndChallenge_store_ok: "store_ok s \<Longrightarrow> store_ok (snd (userAndChallenge W u now s))"
  using store_ok_SetWebauthnChallenge [of s u]
  by (auto simp: userAndChallenge_def takeChallenge_def split: sum.splits prod.splits if_splits) (metis snd_conv)+

lemma FinishPasskeyLogin_store_ok: "store_ok s \<Longrightarrow> store_ok (snd (FinishPasskeyLogin L r u answer now s))"
  using userAndChallenge_store_ok [of s "leWebauthn L" u now]
  by (auto simp: FinishPasskeyLogin_def FinishLogin_def note_use_store_ok split: sum.splits prod.splits if_splits)

lemma wait_later: "wait C u now t = (later, t') \<Longrightarrow> now \<le> later"
  by (auto simp: wait_def split: prod.splits if_splits)

lemma second_step_opens:
  assumes ok: "store_ok (lgStore st)" and run: "second_step L x check m now st = (resp, Some c, st')"
    and keeps: "\<And>u t s. store_ok s \<Longrightarrow> store_ok (snd (check u t s))"
  shows "\<exists>u later. opens (resp, Some c, st') u \<and> (\<forall>v. \<not> passes_password (resp, Some c, st') v) \<and>
    pending_of (exRequest x) now = Some u \<and> now \<le> later \<and>
    fst (check u later (snd (GetSession (leSessions L) (exRequest x) now (lgStore st))))"
proof -
  obtain u st1 where p: "pending_user L (exRequest x) now st = (Some u, st1)"
    using run by (auto simp: second_step_def split: prod.splits option.splits)
  have st1: "pending_of (exRequest x) now = Some u" "st1 = st\<lparr>lgStore := snd (GetSession (leSessions L) (exRequest x) now (lgStore st))\<rparr>"
    using pending_user_of [OF p] by auto
  obtain t where t: "beginSecondFactor u now (lgThrottle st1) = (True, t)"
    using run p by (auto simp: second_step_def split: prod.splits bool.splits)
  obtain later t' where w: "wait (leCache L) u now t = (later, t')" by fastforce
  obtain s where s: "check u later (lgStore st1) = (True, s)"
    using run p t w by (auto simp: second_step_def split: prod.splits bool.splits)
  have "store_ok s" using keeps [OF GetSession_store_ok [OF ok], of u later] s st1(2) by simp (metis snd_conv)
  then have "opens (resp, Some c, st') u \<and> \<not> passes_password (resp, Some c, st') v" for v
    using run p t w s
    by (intro sign_in_opens [of "st1\<lparr>lgStore := s, lgThrottle := secondFactorSucceeded u (recordSuccess (leCache L) u t')\<rparr>" L x SimpleAuthProvider u later])
      (simp_all add: second_step_def)
  then show ?thesis using st1 wait_later [OF w] s by (metis fst_conv login_state.select_convs(1) login_state.surjective login_state.update_convs(1))
qed

text \<open>
  C21. Of the cookies the form hands out there are three kinds.  A session of an account without a second factor takes
  the right password.  For an account with a second factor the right password only yields a cookie that
  remembers this step, without a session; and the session takes a request with such a cookie, not older than
  five minutes, whose code or passkey is accepted.
\<close>

theorem session_takes_both_steps:
  assumes "store_ok (lgStore st)" "simpleAuthPost L us x now st = (resp, Some c, st')"
  shows "(\<exists>u. opens (resp, Some c, st') u \<and> right_password L us u (form_get (exRequest x) ''password'') (lgStore st) \<and>
       \<not> TwoFactorRequired L u (lgStore st)) \<or>
    (\<exists>u. passes_password (resp, Some c, st') u \<and> right_password L us u (form_get (exRequest x) ''password'') (lgStore st) \<and>
       TwoFactorRequired L u (lgStore st)) \<or>
    (\<exists>u later. opens (resp, Some c, st') u \<and> pending_of (exRequest x) now = Some u \<and> now \<le> later \<and>
       (let s = snd (GetSession (leSessions L) (exRequest x) now (lgStore st)) in
        fst (CheckTwoFactor L u (form_get (exRequest x) ''code'') later s) \<or>
        is_ok (fst (FinishPasskeyLogin L (exRequest x) u (form_get (exRequest x) ''passkey'') later s))))"
proof -
  let ?r = "exRequest x" and ?s = "snd (GetSession (leSessions L) (exRequest x) now (lgStore st))"
  let ?u = "form_get ?r ''username''" and ?p = "form_get ?r ''password''"
  consider (passkey) "finishWithPasskey L x (form_get ?r ''passkey'') now st = (resp, Some c, st')"
    | (code) "finishWithCode L x (form_get ?r ''code'') now st = (resp, Some c, st')"
    | (password) later t where "right_password L us ?u ?p (lgStore st)"
        "(if TwoFactorRequired L ?u (lgStore st) then askForCode L x ?u later (st\<lparr>lgThrottle := t\<rparr>)
          else sign_in L x (sessionFor SimpleAuthProvider ?u) later (st\<lparr>lgThrottle := t\<rparr>)) = (resp, Some c, st')"
    using assms(2) by (auto simp: simpleAuthPost_def Let_def split: if_splits prod.splits)
  then show ?thesis
  proof cases
    case passkey
    have "store_ok (snd (case FinishPasskeyLogin L ?r u (form_get ?r ''passkey'') now s of (r, s) \<Rightarrow> (is_ok r, s)))"
      if "store_ok s" for u now s
      using FinishPasskeyLogin_store_ok [OF that, of L ?r u "form_get ?r ''passkey''" now] by (simp add: case_prod_unfold)
    from second_step_opens [OF assms(1) passkey [unfolded finishWithPasskey_def] this]
    show ?thesis by (auto simp: Let_def case_prod_unfold)
  next
    case code
    from second_step_opens [OF assms(1) code [unfolded finishWithCode_def] CheckTwoFactor_store_ok]
    show ?thesis by (auto simp: Let_def)
  next
    case password
    show ?thesis
    proof (cases "TwoFactorRequired L ?u (lgStore st)")
      case False
      then have "opens (resp, Some c, st') ?u"
        using sign_in_opens [of "st\<lparr>lgThrottle := t\<rparr>" L x SimpleAuthProvider ?u later resp c st'] password(2) assms(1) by simp
      then show ?thesis using False password(1) by blast
    next
      case True
      then have "passes_password (resp, Some c, st') ?u"
        using password(2) by (auto simp: askForCode_def passes_password_def dest: runtime_SetSession_pending
            split: prod.splits sum.splits)
      then show ?thesis using True password(1) by blast
    qed
  qed
qed

section \<open>Basic authentication\<close>

text \<open>
  Basic authentication has nowhere to ask for a second factor, and opens only accounts that have none, with the
  right password: the session it starts belongs to the user whose password was given.
\<close>

theorem basic_auth_single_factor:
  assumes "store_ok (lgStore st)" "basicAuthLogin L us basic x now st = (resp, Some c, st')"
  shows "\<exists>u p. (case basic of Some up \<Rightarrow> up = (u, p)
      | None \<Rightarrow> u = form_get (exRequest x) ''username'' \<and> p = form_get (exRequest x) ''password'') \<and>
    opens (resp, Some c, st') u \<and> right_password L us u p (lgStore st) \<and> \<not> TwoFactorRequired L u (lgStore st)"
proof -
  define up where "up = (case basic of Some up \<Rightarrow> up
    | None \<Rightarrow> (form_get (exRequest x) ''username'', form_get (exRequest x) ''password''))"
  obtain u p where u: "up = (u, p)" by (cases up)
  obtain later t where "right_password L us u p (lgStore st)" "\<not> TwoFactorRequired L u (lgStore st)"
    "sign_in L x (sessionFor BasicAuthProvider u) later (st\<lparr>lgThrottle := t\<rparr>) = (resp, Some c, st')"
    using assms(2) u by (auto simp: basicAuthLogin_def Let_def up_def [symmetric] split: if_splits prod.splits)
  then show ?thesis
    using sign_in_opens [of "st\<lparr>lgThrottle := t\<rparr>" L x BasicAuthProvider u later resp c st'] assms(1) u
    by (intro exI [of _ u] exI [of _ p]) (auto simp: up_def split: option.splits)
qed

section \<open>Subjects\<close>

text \<open>
  A subject belongs to the way it first signed in: once a user is known under a provider, no sign-in through
  another one, built-in providers counting as one, becomes a session, and nothing in the storage changes.
\<close>

theorem subject_keeps_provider:
  assumes "map_of (users s) (idSubject i) = Some u" "usrProvider u \<noteq> []" "\<not> sameProvider (usrProvider u) (idProvider i)"
    and "asIdentity session = Some i"
  shows "\<exists>e. runtime_SetSession E x session now s = (Inl e, None, s) \<and> sessionNotStarted e = HttpError 403
    ''This account already signs in another way here. Sign in the way you did before, or ask an admin.''"
  using assms by (simp add: runtime_SetSession_def checkLogin_def GetUser_def sessionNotStarted_def)

section \<open>A code that works twice\<close>

lemma recordLogin_user:
  assumes "map_of (users s) (idSubject i) = Some u" "usrTotpSecret u \<noteq> []"
  shows "\<exists>v. map_of (users (recordLogin i now s)) (idSubject i) = Some v \<and> usrTotpSecret v = usrTotpSecret u \<and>
    usrTotpEnabledAt v = usrTotpEnabledAt u \<and> usrTotpRecovery v = usrTotpRecovery u \<and> usrTotpLastStep v = 0"
  using assms by (simp add: recordLogin_def SaveUser_def login_user_def Let_def update_conv')

text \<open>
  C40. With the in-memory storage the last accepted time step does not survive the sign-in it belongs to: recording
  who signed in writes the user without it.  The same code of the app is accepted again, at the same time, by
  the very next attempt, although the check itself accepts every step only once.
\<close>

theorem code_replayed_after_sign_in:
  assumes "Check upr (idSubject i) given now s = (True, s1)" "map_of (users s) (idSubject i) = Some u"
    and "CheckTOTPStep upr (usrTotpSecret u) given now = (step, True)" "0 < sint step"
  shows "fst (Check upr (idSubject i) given now (recordLogin i later s1))"
proof -
  obtain v where v: "s1 = s\<lparr>users := AList.update (idSubject i) v (users s)\<rparr>" "TwoFactorEnabled u"
    "app_code_used upr u given now v \<or> recovery_code_used upr u given now v"
    using Check_True [OF assms(1)] assms(2) by auto
  then have u: "v = u\<lparr>usrTotpLastStep := step\<rparr>"
    using assms(3) by (auto simp: app_code_used_def recovery_code_used_def CheckTOTP_def)
  have "map_of (users s1) (idSubject i) = Some v" "usrTotpSecret v \<noteq> []"
    using v(2) by (simp_all add: v(1) update_conv' u TwoFactorEnabled_def)
  then obtain w where w: "map_of (users (recordLogin i later s1)) (idSubject i) = Some w" "usrTotpSecret w = usrTotpSecret u"
    "usrTotpEnabledAt w = usrTotpEnabledAt u" "usrTotpLastStep w = 0"
    using recordLogin_user [of s1 i v later] by (auto simp: u)
  then have "GetUser (idSubject i) (recordLogin i later s1) = Inr w" "TwoFactorEnabled w"
    using v(2) by (simp_all add: GetUser_Inr TwoFactorEnabled_def)
  then show ?thesis using assms(3,4) w by (simp add: Check_def SetUserTOTP_known)
qed

section \<open>Examples\<close>

definition no_cache :: "unit lru" where
  "no_cache = \<lparr>lruGet = (\<lambda>k c. (None, c)), lruAdd = (\<lambda>k a c. c), lruRemove = (\<lambda>k c. c)\<rparr>"

definition demo_env :: "(unit, string) login_env" where
  "demo_env = \<lparr>leSessions = \<lparr>seCodec = subject_codec, seMaxAge = hour\<rparr>, leCache = no_cache, leHtpasswd = plain_htpasswd,
     leCompare = (\<lambda>h p. False), leUpper = (\<lambda>r. r), leTwoFactor = True, leWebauthn = easy_webauthn,
     leParty = (\<lambda>r. (''vpn'', ''https://vpn''))\<rparr>"

definition demo_exchange :: exchange where
  "demo_exchange = \<lparr>exRequest = \<lparr>rqMethod = ''POST'', rqPath = ''/signin/simpleauth'', rqHost = ''vpn'', rqRemoteAddr = ''192.0.2.1:5000'',
       rqTLS = True, rqHeader = [], rqForm = [(''username'', ''alice''), (''password'', ''secret'')], rqCookie = None\<rparr>,
     exFormError = False, exRand = Inr [1, 2, 3], exUuid = ''u1'', exSaveError = None\<rparr>"

definition demo_state :: "unit login_state" where
  "demo_state = \<lparr>lgStore = NewMemoryStorage, lgThrottle = \<lparr>thCache = None, thSecond = []\<rparr>\<rparr>"

lemma demo_form: "form_get (exRequest demo_exchange) ''passkey'' = []" "form_get (exRequest demo_exchange) ''code'' = []"
  "form_get (exRequest demo_exchange) ''username'' = ''alice''" "form_get (exRequest demo_exchange) ''password'' = ''secret''"
  by code_simp+

lemma demo_wait: "wait C u now \<lparr>thCache = None, thSecond = ts\<rparr> = (now, \<lparr>thCache = None, thSecond = ts\<rparr>)"
  by (simp add: wait_def delay_def failures_def delay_of_def)

lemma demo_password:
  "right_password demo_env [''alice:secret''] ''alice'' ''secret'' (lgStore demo_state)"
  "\<not> TwoFactorRequired demo_env ''alice'' (lgStore demo_state)"
  by code_simp+

lemma demo_sign_in: "\<exists>c st'. sign_in demo_env demo_exchange (sessionFor provider ''alice'') 0 demo_state = (Redirect 303 ''/'', Some c, st')"
  by (simp add: sign_in_def runtime_SetSession_def SetSession_def sessionFor_def empty_session_def demo_state_def demo_exchange_def
      demo_env_def checkLogin_def GetUser_def List_devices_def NewMemoryStorage_def end_previous_def GetSession_def
      session_Create_def subject_codec_def newID_def SaveSession_def)

lemma demo_store: "store_ok (lgStore demo_state)"
  by (simp add: demo_state_def)

theorem session_takes_both_steps_witness:
  "\<exists>resp c st'. simpleAuthPost demo_env [''alice:secret''] demo_exchange 0 demo_state = (resp, Some c, st') \<and>
     ((\<exists>u. opens (resp, Some c, st') u) \<or> (\<exists>u. passes_password (resp, Some c, st') u))"
proof -
  have "simpleAuthPost demo_env [''alice:secret''] demo_exchange 0 demo_state =
      sign_in demo_env demo_exchange (sessionFor SimpleAuthProvider ''alice'') 0 demo_state"
    using demo_password
    by (simp add: simpleAuthPost_def demo_form Let_def maxUsernameLength_def demo_state_def demo_wait recordSuccess_def)
      (simp add: demo_exchange_def)
  then obtain c st' where c: "simpleAuthPost demo_env [''alice:secret''] demo_exchange 0 demo_state = (Redirect 303 ''/'', Some c, st')"
    using demo_sign_in by metis
  then show ?thesis using session_takes_both_steps [OF demo_store c] by blast
qed

theorem basic_auth_single_factor_witness:
  "\<exists>resp c st'. basicAuthLogin demo_env [''alice:secret''] None demo_exchange 0 demo_state = (resp, Some c, st') \<and>
     opens (resp, Some c, st') ''alice''"
proof -
  have "basicAuthLogin demo_env [''alice:secret''] None demo_exchange 0 demo_state =
      sign_in demo_env demo_exchange (sessionFor BasicAuthProvider ''alice'') 0 demo_state"
    using demo_password
    by (simp add: basicAuthLogin_def demo_form Let_def maxUsernameLength_def demo_state_def demo_wait recordSuccess_def)
  then obtain c st' where c: "basicAuthLogin demo_env [''alice:secret''] None demo_exchange 0 demo_state = (Redirect 303 ''/'', Some c, st')"
    using demo_sign_in by metis
  then show ?thesis using basic_auth_single_factor [OF demo_store c] demo_form by auto
qed

theorem subject_keeps_provider_witness:
  "\<exists>e. runtime_SetSession (leSessions demo_env) demo_exchange
     (empty_session\<lparr>asIdentity := Some \<lparr>idProvider = ''corp'', idSubject = ''alice'', idName = [], idEmail = [], idClaims = []\<rparr>\<rparr>) 0
     (acStore alice_accounts) = (Inl e, None, acStore alice_accounts) \<and> sessionNotStarted e = HttpError 403
    ''This account already signs in another way here. Sign in the way you did before, or ask an admin.''"
  by (rule subject_keeps_provider [of _ "\<lparr>idProvider = ''corp'', idSubject = ''alice'', idName = [], idEmail = [], idClaims = []\<rparr>" alice])
    (simp_all add: alice_accounts_def alice_def sameProvider_def HasPassword_def BasicAuthProvider_def SimpleAuthProvider_def)

definition enrolled :: user where
  "enrolled = alice\<lparr>usrTotpSecret := base32_encode (replicate 20 0), usrTotpEnabledAt := Some 0\<rparr>"

theorem code_replayed_after_sign_in_witness:
  "\<exists>s1. Check (\<lambda>r. r) ''alice'' (totp_code (replicate 20 0) (time_step (3000 * second)) totpDigits) (3000 * second)
       (NewMemoryStorage\<lparr>users := [(''alice'', enrolled)]\<rparr>) = (True, s1) \<and>
     fst (Check (\<lambda>r. r) ''alice'' (totp_code (replicate 20 0) (time_step (3000 * second)) totpDigits) (3000 * second)
       (recordLogin (plain_identity ''alice'') (3000 * second) s1))"
proof -
  let ?now = "3000 * second" and ?s = "NewMemoryStorage\<lparr>users := [(''alice'', enrolled)]\<rparr>"
  let ?code = "totp_code (replicate 20 0) (time_step (3000 * second)) totpDigits"
  have k: "decode_secret (\<lambda>r. r) (usrTotpSecret enrolled) = Some (replicate 20 0)"
    by (simp add: enrolled_def decode_new_secret)
  have now: "time_step ?now = 100" by (simp add: time_step_def unix_seconds_def second_def totpStep_def)
  have "snd (CheckTOTPStep (\<lambda>r. r) (usrTotpSecret enrolled) ?code ?now)" using k by (auto simp: CheckTOTPStep_iff)
  then obtain step where step: "CheckTOTPStep (\<lambda>r. r) (usrTotpSecret enrolled) ?code ?now = (step, True)"
    by (metis prod.collapse)
  then have pos: "0 < sint step" using CheckTOTPStep_step [OF step] by (auto simp: now)
  have "fst (Check (\<lambda>r. r) ''alice'' ?code ?now ?s)"
    using step pos by (simp add: Check_def GetUser_def SetUserTOTP_def enrolled_def TwoFactorEnabled_def alice_def alice_secret)
  then obtain s1 where c: "Check (\<lambda>r. r) (idSubject (plain_identity ''alice'')) ?code ?now ?s = (True, s1)"
    by (simp add: plain_identity_def) (metis prod.collapse)
  have "fst (Check (\<lambda>r. r) (idSubject (plain_identity ''alice'')) ?code ?now (recordLogin (plain_identity ''alice'') ?now s1))"
    by (rule code_replayed_after_sign_in [OF c _ step pos]) (simp add: plain_identity_def)
  then show ?thesis using c by (auto simp: plain_identity_def)
qed

end
