(* ===== verification/Api_Tokens.thy ===== *)
theory Api_Tokens
  imports Auth_Session
begin

text \<open>
  API tokens (\<^verbatim>\<open>internal/apitokens/apitokens.go\<close> and \<^verbatim>\<open>middleware.go\<close>): a script acts as the identity its
  owner had when the token was made, with the claims the configuration gives now.  The token carries a random
  secret, the storage its SHA-256.  Random bytes and the time are arguments; \<open>claims\<close> is the claims middleware
  the manager was made with.
\<close>

section \<open>Operations\<close>

definition tokenPrefix :: string where "tokenPrefix = ''wgas_''"
definition maxNameLength :: nat where "maxNameLength = 100"
definition token_touchInterval :: duration where "token_touchInterval = minute"

definition token_hash :: "string \<Rightarrow> string" where
  "token_hash secret = hex_encode (Sum256 (bytes_of secret))"

definition randomString :: "bytes res \<Rightarrow> (bytes \<Rightarrow> string) \<Rightarrow> string res" where
  "randomString buf encode =
     (case buf of
        Inl e \<Rightarrow> Inl (wrap_err ''failed to generate a random token'' e)
      | Inr bs \<Rightarrow> Inr (encode bs))"

text \<open>Claims that basic and simple authentication derive from the configuration are not kept.\<close>

definition snapshot :: "identity \<Rightarrow> identity" where
  "snapshot owner =
     owner\<lparr>idClaims := filter (\<lambda>claim. \<not> ((idProvider owner = BasicAuthProvider \<or> idProvider owner = SimpleAuthProvider) \<and>
         claimName claim = AdminClaim)) (idClaims owner)\<rparr>"

definition token_Create ::
  "codec \<Rightarrow> bytes res \<Rightarrow> bytes res \<Rightarrow> identity \<Rightarrow> string \<Rightarrow> instant option \<Rightarrow> instant \<Rightarrow> memory \<Rightarrow> (string \<times> api_token) res \<times> memory" where
  "token_Create J rand8 rand32 owner name expiresAt now s =
     (let name = trim_space name in
      if name = [] then (Inl (Invalid ''a token needs a name''), s)
      else if rune_count name > maxNameLength then
        (Inl (Invalid ''the name of a token can be at most 100 characters long''), s)
      else if (case expiresAt of None \<Rightarrow> False | Some t \<Rightarrow> \<not> now < t) then
        (Inl (Invalid ''the expiry date of a token must be in the future''), s)
      else (case marshal J (snapshot owner) of
          Inl e \<Rightarrow> (Inl (wrap_err ''failed to encode the identity'' e), s)
        | Inr encoded \<Rightarrow>
            (case randomString rand8 hex_encode of
               Inl e \<Rightarrow> (Inl e, s)
             | Inr i \<Rightarrow>
                 (case randomString rand32 base64url_encode of
                    Inl e \<Rightarrow> (Inl e, s)
                  | Inr secret \<Rightarrow>
                      (let secret = tokenPrefix @ secret;
                           token = \<lparr>tokID = i, tokOwner = idSubject owner, tokName = name, tokHash = token_hash secret,
                             tokIdentity = encoded, tokCreatedAt = now, tokExpiresAt = expiresAt, tokLastUsedAt = None\<rparr> in
                       case SaveToken token s of
                         (Inl e, s) \<Rightarrow> (Inl e, s)
                       | (Inr _, s) \<Rightarrow> (Inr (secret, token), s))))))"

text \<open>\<open>Forbidden\<close> is \<^verbatim>\<open>ForbiddenError\<close>: the token is right, its owner may not use the server any more.\<close>

datatype token_error = Refused go_error | Forbidden login_error

type_synonym claims_middleware = "identity option \<Rightarrow> (go_error + login_error option) \<times> identity option"

text \<open>The claims of an identity as the configuration gives them now, or why it is refused.\<close>

definition current_claims :: "claims_middleware option \<Rightarrow> identity \<Rightarrow> token_error + identity" where
  "current_claims claims identity =
     (case claims of
        None \<Rightarrow> Inr identity
      | Some m \<Rightarrow>
          (case m (Some identity) of
             (Inl p, _) \<Rightarrow> Inl (Refused p)
           | (Inr (Some e), _) \<Rightarrow> Inl (Forbidden e)
           | (Inr None, acting) \<Rightarrow> Inr (the acting)))"

definition Authenticate ::
  "codec \<Rightarrow> claims_middleware option \<Rightarrow> string \<Rightarrow> instant \<Rightarrow> memory \<Rightarrow> (token_error + identity \<times> api_token) \<times> memory" where
  "Authenticate J claims secret now s =
     (if \<not> starts_with secret tokenPrefix then (Inl (Refused (Sentinel ErrTokenInvalid)), s)
      else (case GetTokenByHash (token_hash secret) s of
          Inl e \<Rightarrow> (Inl (Refused (if err_is e ErrTokenNotFound then Sentinel ErrTokenInvalid else e)), s)
        | Inr token \<Rightarrow>
            if token_Expired token now then (Inl (Refused (Sentinel ErrTokenExpired)), s)
            else (case unmarshal J (tokIdentity token) of
                Inl e \<Rightarrow> (Inl (Refused (wrap_err (''failed to decode the identity of api token '' @ tokID token) e)), s)
              | Inr identity \<Rightarrow>
                  (case current_claims claims identity of
                     Inl e \<Rightarrow> (Inl e, s)
                   | Inr acting \<Rightarrow>
                       (Inr (acting, token),
                        if (case tokLastUsedAt token of None \<Rightarrow> True | Some t \<Rightarrow> time_sub now t \<ge> token_touchInterval)
                        then snd (TouchToken (tokID token) now s) else s)))))"

definition token_List :: "string \<Rightarrow> memory \<Rightarrow> api_token list" where
  "token_List owner s = ListTokens owner s"

definition token_Delete :: "identity \<Rightarrow> string \<Rightarrow> memory \<Rightarrow> api_token res \<times> memory" where
  "token_Delete user i s =
     (case GetToken i s of
        Inl e \<Rightarrow> (Inl e, s)
      | Inr token \<Rightarrow>
          if tokOwner token \<noteq> idSubject user \<and> \<not> IsAdmin (idClaims user) then (Inl (Sentinel ErrTokenNotFound), s)
          else (case DeleteToken i s of
              (Inl e, s) \<Rightarrow> (Inl e, s)
            | (Inr _, s) \<Rightarrow> (Inr token, s)))"

definition token_DeleteForOwner :: "string \<Rightarrow> memory \<Rightarrow> nat res \<times> memory" where
  "token_DeleteForOwner owner s = DeleteTokensForOwner owner s"

section \<open>The middleware\<close>

definition apiPrefix :: string where "apiPrefix = ''/api/''"

definition bearerToken :: "(nat \<Rightarrow> nat) \<Rightarrow> request \<Rightarrow> string option" where
  "bearerToken ufold r =
     (case cut_byte CHR '' '' (header_get r ''Authorization'') of
        None \<Rightarrow> None
      | Some (scheme, token) \<Rightarrow>
          if \<not> equal_fold ufold scheme ''Bearer'' then None
          else (let token = trim_space token in if token \<noteq> [] then Some token else None))"

text \<open>\<open>m\<close> is the manager with its claims middleware, none while tokens are disabled; \<open>c\<close> is the context the
  session middleware left, and \<open>trace\<close> the id of the request.  The text of an error is the one of the sentinel.\<close>

definition refusal :: "string \<Rightarrow> token_error \<Rightarrow> response res" where
  "refusal trace e =
     (case e of
        Forbidden _ \<Rightarrow> Inr (HttpError 403 ''the owner of this token has no access'')
      | Refused (Panic p) \<Rightarrow> Inl (Panic p)
      | Refused g \<Rightarrow>
          if err_is g ErrTokenInvalid then Inr (HttpError 401 ''invalid api token'')
          else if err_is g ErrTokenExpired then Inr (HttpError 401 ''api token has expired'')
          else Inr (HttpError 500 (''failed to check the token (trace = '' @ trace @ '')'')))"

definition tokens_Middleware ::
  "(nat \<Rightarrow> nat) \<Rightarrow> codec \<Rightarrow> claims_middleware option option \<Rightarrow> string \<Rightarrow> request \<Rightarrow> ctx \<Rightarrow> instant \<Rightarrow> memory \<Rightarrow> response res \<times> memory" where
  "tokens_Middleware ufold J m trace r c now s =
     (case bearerToken ufold r of
        None \<Rightarrow> (Inr (Next c), s)
      | Some secret \<Rightarrow>
          if \<not> starts_with (rqPath r) apiPrefix then (Inr (Next c), s)
          else (case m of
              None \<Rightarrow> (Inr (HttpError 401 ''API tokens are disabled on this server''), s)
            | Some claims \<Rightarrow>
                (case Authenticate J claims secret now s of
                   (Inl e, s) \<Rightarrow> (refusal trace e, s)
                 | (Inr (identity, token), s) \<Rightarrow>
                     (Inr (Next (Some (empty_session\<lparr>asIdentity := Some identity, asAPIToken := tokID token\<rparr>))), s))))"

section \<open>A token while it lasts\<close>

abbreviation token_of :: "string \<Rightarrow> memory \<Rightarrow> api_token option" where
  "token_of secret s \<equiv> res_option (GetTokenByHash (token_hash secret) s)"

lemma GetTokenByHash_cases:
  obtains (missing) "GetTokenByHash h s = Inl (Sentinel ErrTokenNotFound)" "res_option (GetTokenByHash h s) = None"
  | (there) t where "GetTokenByHash h s = Inr t" "res_option (GetTokenByHash h s) = Some t"
  by (cases "find (\<lambda>t. tokHash t = h) (map snd (tokens s))") (simp_all add: GetTokenByHash_def)

text \<open>Who a secret is depends on the token it names and on the time, and on nothing else in the storage.\<close>

lemma Authenticate_token:
  "fst (Authenticate J claims secret now s) =
     (if \<not> starts_with secret tokenPrefix then Inl (Refused (Sentinel ErrTokenInvalid))
      else case token_of secret s of
        None \<Rightarrow> Inl (Refused (Sentinel ErrTokenInvalid))
      | Some t \<Rightarrow>
          if token_Expired t now then Inl (Refused (Sentinel ErrTokenExpired))
          else case unmarshal J (tokIdentity t) of
            Inl e \<Rightarrow> Inl (Refused (wrap_err (''failed to decode the identity of api token '' @ tokID t) e))
          | Inr identity \<Rightarrow> map_sum id (\<lambda>i. (i, t)) (current_claims claims identity))"
  by (cases rule: GetTokenByHash_cases [of "token_hash secret" s])
    (auto simp: Authenticate_def split: sum.splits)

lemma token_Create_found:
  assumes "store_ok s" "token_Create J r8 r32 owner name expiresAt now s = (Inr (secret, t), s')"
  shows "starts_with secret tokenPrefix \<and> token_of secret s' = Some t \<and> tokExpiresAt t = expiresAt \<and> tokOwner t = idSubject owner \<and>
    marshal J (snapshot owner) = Inr (tokIdentity t) \<and> tokLastUsedAt t = None"
proof -
  have "SaveToken t s = (Inr (), s')" "tokHash t = token_hash secret" "starts_with secret tokenPrefix"
    "tokExpiresAt t = expiresAt" "tokOwner t = idSubject owner" "marshal J (snapshot owner) = Inr (tokIdentity t)" "tokLastUsedAt t = None"
    using assms(2) by (auto simp: token_Create_def Let_def split: if_splits sum.splits prod.splits)
  then show ?thesis using tok.found_save [OF assms(1), of t] by simp
qed

text \<open>
  C24. A token acts as its owner for as long as it was made for: until it expires its secret is the identity of the
  owner, without the admin claim that the configuration gives and with the claims it gives now, and from its
  expiry on it is refused.  The secret is recognisable by its prefix.
\<close>

theorem token_lifecycle:
  assumes "store_ok s" "token_Create J r8 r32 owner name expiresAt now s = (Inr (secret, t), s')"
    and "codec_keeps J (snapshot owner)"
  shows "starts_with secret tokenPrefix \<and> fst (Authenticate J claims secret later s') =
    (if (case expiresAt of None \<Rightarrow> False | Some end_ \<Rightarrow> end_ \<le> later) then Inl (Refused (Sentinel ErrTokenExpired))
     else map_sum id (\<lambda>i. (i, t)) (current_claims claims (snapshot owner)))"
proof -
  have "unmarshal J (tokIdentity t) = Inr (snapshot owner)"
    using assms(3) token_Create_found [OF assms(1,2)] by (auto simp: codec_keeps_def)
  moreover have "token_Expired t later = (case expiresAt of None \<Rightarrow> False | Some end_ \<Rightarrow> end_ \<le> later)"
    using token_Create_found [OF assms(1,2)] by (auto simp: token_Expired_def split: option.splits)
  ultimately show ?thesis using token_Create_found [OF assms(1,2)] by (simp add: Authenticate_token)
qed

section \<open>Revoking\<close>

text \<open>
  Only the owner of a token and admins revoke it; for anybody else it is as if it did not exist, and nothing
  changes.  A revoked token is refused from then on, and every other secret is who it was.
\<close>

theorem token_revoked:
  assumes "store_ok s"
  shows "case token_Delete user i s of
      (Inl e, s') \<Rightarrow> e = Sentinel ErrTokenNotFound \<and> s' = s \<and>
        (\<forall>t. GetToken i s = Inr t \<longrightarrow> tokOwner t \<noteq> idSubject user \<and> \<not> IsAdmin (idClaims user))
    | (Inr t, s') \<Rightarrow> GetToken i s = Inr t \<and> (tokOwner t = idSubject user \<or> IsAdmin (idClaims user)) \<and>
        (\<forall>secret now. fst (Authenticate J claims secret now s') =
           (case token_of secret s of
              Some x \<Rightarrow> if tokID x = i then Inl (Refused (Sentinel ErrTokenInvalid)) else fst (Authenticate J claims secret now s)
            | None \<Rightarrow> fst (Authenticate J claims secret now s)))"
proof (cases "map_of (tokens s) i")
  case None
  then show ?thesis by (simp add: token_Delete_def GetToken_def)
next
  case (Some t)
  have "token_of secret (snd (DeleteToken i s)) = (case token_of secret s of None \<Rightarrow> None | Some c \<Rightarrow> if tokID c = i then None else Some c)" for secret
    by (rule tok.found_remove [OF assms])
  moreover have "fst (DeleteToken i s) = Inr ()" using Some by (simp add: DeleteToken_def)
  ultimately show ?thesis
    using Some by (auto simp: token_Delete_def GetToken_def Authenticate_token split: prod.splits option.splits)
qed

section \<open>Admins\<close>

lemma snapshot_admin:
  "idProvider owner = BasicAuthProvider \<or> idProvider owner = SimpleAuthProvider \<Longrightarrow> \<not> IsAdmin (idClaims (snapshot owner))"
  by (auto simp: snapshot_def IsAdmin_def claims_Has_def list_ex_iff)

lemma ClaimsMiddleware_admin:
  assumes "ClaimsMiddleware adminUsername auth (Some i) = (Inr None, Some j)"
    and "idProvider i = BasicAuthProvider \<or> idProvider i = SimpleAuthProvider" "\<not> IsAdmin (idClaims i)"
  shows "IsAdmin (idClaims j) \<longleftrightarrow> idSubject i = adminUsername"
  using assms by (auto simp: ClaimsMiddleware_def Let_def split: sum.splits option.splits if_splits)

lemma ClaimsMiddleware_kept:
  "ClaimsMiddleware adminUsername auth (Some i) = (Inr None, j) \<Longrightarrow> \<exists>k. j = Some k"
  by (auto simp: ClaimsMiddleware_def Let_def split: sum.splits option.splits if_splits)

text \<open>
  A token of a user of the built-in sign-in is an admin's exactly while the configuration names its owner as
  the admin, whether or not the owner was one when the token was made.
\<close>

theorem token_admin_current:
  assumes "store_ok s" "token_Create J r8 r32 owner name expiresAt now s = (Inr (secret, t), s')"
    and "codec_keeps J (snapshot owner)" "HasPassword (idProvider owner)"
    and "fst (Authenticate J (Some (ClaimsMiddleware adminUsername auth)) secret later s') = Inr (acting, t')"
  shows "t' = t \<and> (IsAdmin (idClaims acting) \<longleftrightarrow> idSubject owner = adminUsername)"
proof -
  have found: "token_of secret s' = Some t" "unmarshal J (tokIdentity t) = Inr (snapshot owner)"
    using assms(3) token_Create_found [OF assms(1,2)] by (auto simp: codec_keeps_def)
  obtain j where "t' = t" "ClaimsMiddleware adminUsername auth (Some (snapshot owner)) = (Inr None, j)" "acting = the j"
    using assms(5) found
    by (auto simp: Authenticate_token current_claims_def split: if_splits sum.splits prod.splits option.splits)
  moreover from this obtain k where "j = Some k" using ClaimsMiddleware_kept by blast
  ultimately show ?thesis
    using ClaimsMiddleware_admin [of adminUsername auth "snapshot owner" k] snapshot_admin [of owner] assms(4)
    by (simp add: HasPassword_def snapshot_def)
qed

end
