(* ===== verification/Requests.thy ===== *)
theory Requests
  imports Api_Tokens
begin

text \<open>
  Who a request acts as: the chain of middlewares that \<^verbatim>\<open>newRouter\<close> (\<^verbatim>\<open>cmd/serve/http.go\<close>) puts in front of the
  site, first the browser session, then the API token, then the requirement that somebody is signed in.
\<close>

definition site_handler ::
  "session_env \<Rightarrow> (nat \<Rightarrow> nat) \<Rightarrow> string \<Rightarrow> auth_config \<Rightarrow> bool \<Rightarrow> string \<Rightarrow> request \<Rightarrow> instant \<Rightarrow> memory \<Rightarrow> response res \<times> memory" where
  "site_handler E ufold adminUsername auth enableAPITokens trace r now s =
     (let claims = ClaimsMiddleware adminUsername auth in
      case Middleware E adminUsername auth r now s of
        (Inr (Next c), s) \<Rightarrow>
          (case tokens_Middleware ufold (seCodec E) (if enableAPITokens then Some (Some claims) else None) trace r c now s of
             (Inr (Next c), s) \<Rightarrow> (Inr (RequireAuthentication c), s)
           | answer \<Rightarrow> answer)
      | answer \<Rightarrow> answer)"

text \<open>The two ways to be somebody.\<close>

definition by_session :: "session_env \<Rightarrow> string \<Rightarrow> auth_config \<Rightarrow> request \<Rightarrow> instant \<Rightarrow> memory \<Rightarrow> auth_session \<Rightarrow> bool" where
  "by_session E adminUsername auth r now s x \<longleftrightarrow>
     (\<exists>cookie i. rqCookie r = Some cookie \<and> asID cookie \<noteq> [] \<and> fst (session_Identity (seCodec E) (asID cookie) now s) = Inr i \<and>
        ClaimsMiddleware adminUsername auth (Some i) = (Inr None, asIdentity x) \<and> asID x = asID cookie \<and> asAPIToken x = [])"

definition by_token :: "session_env \<Rightarrow> string \<Rightarrow> auth_config \<Rightarrow> string \<Rightarrow> instant \<Rightarrow> memory \<Rightarrow> auth_session \<Rightarrow> bool" where
  "by_token E adminUsername auth secret now s x \<longleftrightarrow>
     (\<exists>i t. fst (Authenticate (seCodec E) (Some (ClaimsMiddleware adminUsername auth)) secret now s) = Inr (i, t) \<and>
        x = empty_session\<lparr>asIdentity := Some i, asAPIToken := tokID t\<rparr>)"

lemma session_Identity_tokens [simp]: "tokens (snd (session_Identity J i now s)) = tokens s"
  by (auto simp: session_Identity_def TouchSession_def split: sum.splits option.splits)

lemma GetSession_tokens: "tokens (snd (GetSession E r now s)) = tokens s"
  by (cases "rqCookie r"; cases "session_Identity (seCodec E) (asID (cookie_of (the (rqCookie r)))) now s")
    (auto simp: GetSession_def Let_def Let_def split: sum.splits
      dest: arg_cong [of _ _ "\<lambda>p. tokens (snd p)"])

lemma Middleware_tokens: "Middleware E a auth r now s = (res, s') \<Longrightarrow> tokens s' = tokens s"
  using GetSession_tokens [of E r now s]
  by (auto simp: Middleware_def split: prod.splits sum.splits option.splits login_error.splits)

lemma Middleware_Next:
  assumes "Middleware E a auth r now s = (Inr (Next (Some x)), s')"
  shows "by_session E a auth r now s x"
proof -
  obtain y t i where g: "GetSession E r now s = (Inr y, t)" "asIdentity y = Some i"
    "ClaimsMiddleware a auth (Some i) = (Inr None, asIdentity x)" "x = y\<lparr>asIdentity := asIdentity x\<rparr>"
    using assms by (auto simp: Middleware_def split: prod.splits sum.splits option.splits login_error.splits)
  obtain cookie where c: "rqCookie r = Some cookie" "asID cookie \<noteq> []" "fst (session_Identity (seCodec E) (asID cookie) now s) = Inr i"
      "asID y = asID cookie" "asAPIToken y = []"
    using g(1,2) by (auto simp: GetSession_def Let_def cookie_of_def split: option.splits if_splits prod.splits sum.splits)
  have "asID x = asID cookie" "asAPIToken x = []"
    using g(4) c(4,5) auth_session.update_convs by (metis auth_session.select_convs(4,6) auth_session.surjective)+
  then show ?thesis using c g(3) unfolding by_session_def by blast
qed

lemma Authenticate_tokens:
  assumes "tokens s' = tokens s"
  shows "fst (Authenticate J m secret now s') = fst (Authenticate J m secret now s)"
  using assms by (simp add: Authenticate_token GetTokenByHash_def)

text \<open>
  C23. Whoever gets to the site is somebody, in one of two ways.  With a bearer token, on the API only, and while
  tokens are enabled, the request is whoever the token is, whatever session its cookie names; otherwise it is
  the identity of the unexpired session its cookie names.  Either way the claims are those of the
  configuration now, and somebody the configuration refuses does not get there.
\<close>

theorem request_identity:
  assumes "site_handler E ufold a auth enableAPITokens trace r now s = (Inr (Next c), s')"
  shows "\<exists>x. c = Some x \<and> asIdentity x \<noteq> None \<and>
    (case bearerToken ufold r of
       Some secret \<Rightarrow>
         if starts_with (rqPath r) apiPrefix then enableAPITokens \<and> by_token E a auth secret now s x
         else by_session E a auth r now s x
     | None \<Rightarrow> by_session E a auth r now s x)"
proof -
  obtain d s1 where d: "Middleware E a auth r now s = (Inr (Next d), s1)"
    using assms by (auto simp: site_handler_def Let_def split: prod.splits sum.splits response.splits)
  obtain d2 where t: "tokens_Middleware ufold (seCodec E) (if enableAPITokens then Some (Some (ClaimsMiddleware a auth)) else None) trace r d now s1 =
      (Inr (Next d2), s')" and n: "RequireAuthentication d2 = Next c"
    using assms d by (auto simp: site_handler_def Let_def split: prod.splits sum.splits response.splits)
  obtain x i where x: "c = Some x" "asIdentity x = Some i" "d2 = Some x"
    using n by (auto simp: RequireAuthentication_def Authenticated_def CurrentUser_def split: if_splits option.splits)
  show ?thesis
  proof (cases "\<exists>secret. bearerToken ufold r = Some secret \<and> starts_with (rqPath r) apiPrefix")
    case True
    then obtain secret where b: "bearerToken ufold r = Some secret" "starts_with (rqPath r) apiPrefix" by blast
    obtain j u where "enableAPITokens" "Authenticate (seCodec E) (Some (ClaimsMiddleware a auth)) secret now s1 = (Inr (j, u), s')"
      "x = empty_session\<lparr>asIdentity := Some j, asAPIToken := tokID u\<rparr>"
      using t b x(3) by (auto simp: tokens_Middleware_def refusal_def split: if_splits prod.splits sum.splits token_error.splits go_error.splits)
    then have "by_token E a auth secret now s x"
      using Authenticate_tokens [OF Middleware_tokens [OF d]] unfolding by_token_def by (metis fst_conv)
    then show ?thesis using b x \<open>enableAPITokens\<close> by simp
  next
    case False
    then have "d = Some x" using t x(3) by (auto simp: tokens_Middleware_def split: option.splits if_splits)
    then have "by_session E a auth r now s x" using Middleware_Next d by blast
    then show ?thesis using False x by (auto split: option.splits)
  qed
qed

section \<open>Examples\<close>

definition nobody_configured :: auth_config where
  "nobody_configured = \<lparr>auSessionStore = None, auProvider = no_providers, auMultiple = []\<rparr>"

definition demo_secret :: string where "demo_secret = tokenPrefix @ base64url_encode [2]"

definition demo_token :: api_token where
  "demo_token = \<lparr>tokID = ''01'', tokOwner = ''bob'', tokName = ''ci'', tokHash = token_hash demo_secret, tokIdentity = ''bob'',
     tokCreatedAt = 0, tokExpiresAt = Some 9, tokLastUsedAt = None\<rparr>"

definition token_store :: memory where
  "token_store = NewMemoryStorage\<lparr>tokens := [(''01'', demo_token)]\<rparr>"

lemma demo_create:
  "token_Create subject_codec (Inr [1]) (Inr [2]) (plain_identity ''bob'') ''ci'' (Some 9) 0 NewMemoryStorage =
     (Inr (demo_secret, demo_token), token_store)"
proof -
  have "trim_space ''ci'' = ''ci''" "rune_count ''ci'' = 2" "hex_encode [1] = ''01''" by code_simp+
  then show ?thesis
    by (simp add: token_Create_def Let_def maxNameLength_def subject_codec_def snapshot_def plain_identity_def randomString_def
        SaveToken_def NewMemoryStorage_def token_store_def demo_token_def demo_secret_def)
qed

lemma snapshot_plain: "snapshot (plain_identity u) = plain_identity u"
  by (simp add: snapshot_def plain_identity_def)

lemma demo_codec: "codec_keeps subject_codec (snapshot (plain_identity u))"
  by (simp add: snapshot_plain subject_codec_keeps)

theorem token_lifecycle_witness:
  "token_Create subject_codec (Inr [1]) (Inr [2]) (plain_identity ''bob'') ''ci'' (Some 9) 0 NewMemoryStorage =
     (Inr (demo_secret, demo_token), token_store) \<and>
   fst (Authenticate subject_codec None demo_secret 8 token_store) = Inr (plain_identity ''bob'', demo_token) \<and>
   fst (Authenticate subject_codec None demo_secret 9 token_store) = Inl (Refused (Sentinel ErrTokenExpired))"
  using token_lifecycle [OF store_ok_new demo_create demo_codec, of None] demo_create
  by (simp add: current_claims_def snapshot_plain)

lemma token_store_ok: "store_ok token_store"
  using store_ok_SaveToken [OF store_ok_new, of demo_token]
  by (simp add: SaveToken_def NewMemoryStorage_def token_store_def demo_token_def)

theorem token_revoked_witness:
  "store_ok token_store \<and>
   fst (token_Delete (plain_identity ''eve'') ''01'' token_store) = Inl (Sentinel ErrTokenNotFound) \<and>
   (\<exists>s'. token_Delete (plain_identity ''bob'') ''01'' token_store = (Inr demo_token, s') \<and>
      fst (Authenticate subject_codec None demo_secret 1 s') = Inl (Refused (Sentinel ErrTokenInvalid)))"
proof -
  have eve: "fst (token_Delete (plain_identity ''eve'') ''01'' token_store) = Inl (Sentinel ErrTokenNotFound)"
    by (simp add: token_Delete_def GetToken_def token_store_def demo_token_def plain_identity_def IsAdmin_def claims_Has_def)
  obtain s' where "token_Delete (plain_identity ''bob'') ''01'' token_store = (Inr demo_token, s')"
    by (simp add: token_Delete_def GetToken_def token_store_def demo_token_def plain_identity_def DeleteToken_def)
  moreover have "token_of demo_secret token_store = Some demo_token" "tokID demo_token = ''01''"
    by (simp_all add: GetTokenByHash_def token_store_def demo_token_def)
  ultimately show ?thesis
    using token_revoked [OF token_store_ok, where user = "plain_identity ''bob''" and i = "''01''" and J = subject_codec and claims = None] eve token_store_ok by auto
qed

lemma demo_claims:
  "ClaimsMiddleware ''root'' nobody_configured (Some (plain_identity ''bob'')) = (Inr None, Some (plain_identity ''bob''))"
  by (simp add: ClaimsMiddleware_def Let_def nobody_configured_def no_providers_def findOIDCProvider_def plain_identity_def)

lemma demo_authenticate:
  "fst (Authenticate subject_codec (Some (ClaimsMiddleware ''root'' nobody_configured)) demo_secret 1 token_store) =
     Inr (plain_identity ''bob'', demo_token)"
proof -
  have "token_of demo_secret token_store = Some demo_token" "unmarshal subject_codec (tokIdentity demo_token) = Inr (plain_identity ''bob'')"
    "\<not> token_Expired demo_token 1" "starts_with demo_secret tokenPrefix"
    by (simp_all add: GetTokenByHash_def token_store_def demo_token_def subject_codec_def token_Expired_def demo_secret_def)
  then show ?thesis by (simp add: Authenticate_token current_claims_def demo_claims)
qed

theorem token_admin_current_witness:
  "HasPassword (idProvider (plain_identity ''bob'')) \<and> \<not> IsAdmin (idClaims (plain_identity ''bob''))"
proof -
  have p: "HasPassword (idProvider (plain_identity ''bob''))" by (simp add: HasPassword_def plain_identity_def SimpleAuthProvider_def)
  show ?thesis
    using token_admin_current [OF store_ok_new demo_create demo_codec p demo_authenticate] p by (simp add: plain_identity_def)
qed

definition token_request :: request where
  "token_request = \<lparr>rqMethod = ''POST'', rqPath = ''/api/proto.Devices/ListDevices'', rqHost = ''vpn'', rqRemoteAddr = ''192.0.2.1:5000'',
     rqTLS = True, rqHeader = [(''Authorization'', [''Bearer '' @ demo_secret])], rqForm = [], rqCookie = None\<rparr>"

lemma token_request_bearer: "bearerToken (\<lambda>r. r) token_request = Some demo_secret" "starts_with (rqPath token_request) apiPrefix"
  by code_simp+

theorem request_identity_witness:
  "\<exists>x s'. site_handler \<lparr>seCodec = subject_codec, seMaxAge = hour\<rparr> (\<lambda>r. r) ''root'' nobody_configured True [] token_request 1 token_store =
      (Inr (Next (Some x)), s') \<and> asIdentity x = Some (plain_identity ''bob'')"
proof -
  let ?E = "\<lparr>seCodec = subject_codec, seMaxAge = hour\<rparr>"
  obtain s1 where a: "Authenticate subject_codec (Some (ClaimsMiddleware ''root'' nobody_configured)) demo_secret 1 token_store =
      (Inr (plain_identity ''bob'', demo_token), s1)"
    using demo_authenticate by (metis fst_conv surj_pair)
  have "Middleware ?E ''root'' nobody_configured token_request 1 token_store = (Inr (Next None), token_store)"
    by (simp add: Middleware_def GetSession_def token_request_def)
  then obtain c where c: "site_handler ?E (\<lambda>r. r) ''root'' nobody_configured True [] token_request 1 token_store = (Inr (Next c), s1)"
    using token_request_bearer a by (simp add: site_handler_def tokens_Middleware_def RequireAuthentication_def Authenticated_def CurrentUser_def)
  then show ?thesis
    using request_identity [OF c] token_request_bearer demo_authenticate by (auto simp: by_token_def)
qed

end
