(* ===== verification/Server_Config.thy ===== *)
theory Server_Config
  imports Auth_Config Firewall Device_Routes
begin

text \<open>
  The configuration of the server (\<^verbatim>\<open>internal/config/config.go\<close>, \<^verbatim>\<open>cmd/serve/config.go\<close>, \<^verbatim>\<open>cmd/serve/secrets.go\<close>) and what
  \<^verbatim>\<open>cmd/serve/wireguard.go\<close> makes of it for the interface and the firewall.  The operating system, the YAML decoder,
  bcrypt and the generator of keys are arguments.  A fatal log line ends the process; here it is an error.
  Warnings are left out.
\<close>

section \<open>The configuration\<close>

record wireguard_config =
  wcEnabled :: bool
  wcInterface :: string
  wcPrivateKey :: string
  wcPort :: int
  wcMTU :: int
  wcPreUp :: "string list"
  wcPostUp :: "string list"
  wcPreDown :: "string list"
  wcPostDown :: "string list"

record vpn_config =
  vcAllowedIPs :: "string list"
  vcCIDR :: string
  vcCIDRv6 :: string
  vcGatewayInterface :: string
  vcNAT44 :: bool
  vcNAT66 :: bool
  vcClientIsolation :: bool
  vcPolicies :: "(string, string list) amap"
  vcFirewall :: string
  vcDisableIPTables :: bool

record dns_config =
  dcEnabled :: bool
  dcUpstream :: "string list"
  dcCacheSize :: int
  dcDomain :: string

record client_config =
  ccDNSServers :: "string list"
  ccDNSSearchDomain :: string
  ccMTU :: int
  ccPersistentKeepalive :: int

record https_config =
  hcEnabled :: bool
  hcCertFile :: string
  hcKeyFile :: string
  hcPort :: int
  hcHost :: string

record metrics_config =
  mcUsername :: string
  mcPasswordHash :: string
  mcMaxDeviceSeries :: int

record app_config =
  cfLogLevel :: string
  cfAdminUsername :: string
  cfAdminPassword :: string
  cfPort :: int
  cfHttpHost :: string
  cfHttpEnabled :: bool
  cfExternalHost :: string
  cfTrustedProxies :: "string list"
  cfStorage :: string
  cfEnableMetadata :: bool
  cfEnableDeviceMetrics :: bool
  cfEnableInactiveDeviceDeletion :: bool
  cfInactiveDeviceGracePeriod :: duration
  cfMaxDevicesPerUser :: int
  cfEnableAPITokens :: bool
  cfFilename :: string
  cfWireGuard :: wireguard_config
  cfVPN :: vpn_config
  cfDNS :: dns_config
  cfClientConfig :: client_config
  cfMetrics :: metrics_config
  cfAuth :: auth_config
  cfHTTPS :: https_config

record servecmd =
  cmConfigFilePath :: string
  cmAdminPasswordFile :: string
  cmWireGuardPrivateKeyFile :: string
  cmAppConfig :: app_config

text \<open>\<open>osConfigured\<close> says whether a document configures anything, \<open>osUnmarshal\<close> decodes it over a configuration.\<close>

record os_env =
  osReadFile :: "string \<Rightarrow> string res"
  osConfigured :: "string \<Rightarrow> bool res"
  osUnmarshal :: "string \<Rightarrow> app_config \<Rightarrow> app_config res"
  osBcrypt :: "string \<Rightarrow> string res"
  osPrivateKey :: "string res"
  osURLParse :: "string \<Rightarrow> (string \<times> string) res"

section \<open>Secrets in files\<close>

definition trim_right :: "string \<Rightarrow> string \<Rightarrow> string" where
  "trim_right cutset s = rev (dropWhile (\<lambda>c. c \<in> set cutset) (rev s))"

definition readSecretFile :: "os_env \<Rightarrow> string \<Rightarrow> string res" where
  "readSecretFile env path =
     (case osReadFile env path of
        Inl e \<Rightarrow> Inl e
      | Inr content \<Rightarrow>
          (let secret = trim_right [CHR 0x0D, CHR 0x0A] content in
           if secret = [] then Inl (Err (path @ '' is empty'')) else Inr secret))"

text \<open>\<^verbatim>\<open>load\<close>, on the value that is there, the path and the names of both for the messages.\<close>

definition secret_load :: "os_env \<Rightarrow> string \<Rightarrow> string \<Rightarrow> string \<Rightarrow> string \<Rightarrow> string res" where
  "secret_load env value path direct fileEnv =
     (if path = [] then Inr value
      else if value \<noteq> [] then Inl (Err (''both '' @ direct @ '' and '' @ fileEnv @ '' are set, but they are exclusive''))
      else (case readSecretFile env path of
          Inl e \<Rightarrow> Inl (wrap_err (''failed to read '' @ fileEnv) e)
        | Inr secret \<Rightarrow> Inr secret))"

definition set_private_key :: "string \<Rightarrow> app_config \<Rightarrow> app_config" where
  "set_private_key k c = c\<lparr>cfWireGuard := (cfWireGuard c)\<lparr>wcPrivateKey := k\<rparr>\<rparr>"

definition loadSecretFiles :: "os_env \<Rightarrow> servecmd \<Rightarrow> app_config \<Rightarrow> app_config res" where
  "loadSecretFiles env cmd c =
     (case secret_load env (cfAdminPassword c) (cmAdminPasswordFile cmd)
         ''WG_ADMIN_PASSWORD / --admin-password / adminPassword'' ''WG_ADMIN_PASSWORD_FILE'' of
        Inl e \<Rightarrow> Inl e
      | Inr password \<Rightarrow>
          (case secret_load env (wcPrivateKey (cfWireGuard c)) (cmWireGuardPrivateKeyFile cmd)
              ''WG_WIREGUARD_PRIVATE_KEY / --wireguard-private-key / wireguard.privateKey'' ''WG_WIREGUARD_PRIVATE_KEY_FILE'' of
             Inl e \<Rightarrow> Inl e
           | Inr k \<Rightarrow> Inr (set_private_key k (c\<lparr>cfAdminPassword := password\<rparr>))))"

section \<open>Policies\<close>

fun policy_nets :: "string \<Rightarrow> string list \<Rightarrow> unit res" where
  "policy_nets name [] = Inr ()"
| "policy_nets name (allowed # ns) =
     (case parse_prefix allowed of
        None \<Rightarrow> Inl (wrap_err (''the policy '' @ quoted name @ '' has an invalid network '' @ quoted allowed) (Err ''netip.ParsePrefix''))
      | Some p \<Rightarrow> policy_nets name ns)"

fun check_policies :: "(string, string list) amap \<Rightarrow> unit res" where
  "check_policies [] = Inr ()"
| "check_policies ((name, allowed) # ps) =
     (if \<not> ValidPolicyName name then
        Inl (Err (''the policy name '' @ quoted name @ '' is not usable: letters, digits and underscores, at most 32 of them - it becomes part of a firewall set name''))
      else if allowed = [] then
        Inl (Err (''the policy '' @ quoted name @ '' names no networks - leave people out of every policy to give them vpn.allowedIPs instead''))
      else (case policy_nets name allowed of Inl e \<Rightarrow> Inl e | Inr _ \<Rightarrow> check_policies ps))"

fun check_rules :: "(string, string list) amap \<Rightarrow> (string \<times> string list) list \<Rightarrow> unit res" where
  "check_rules policies [] = Inr ()"
| "check_rules policies ((provider, mapped) # ms) =
     (case find (\<lambda>name. map_of policies name = None) mapped of
        Some name \<Rightarrow>
          Inl (Err (provider @ '' has a rule for the policy '' @ quoted name @ '', which is not configured under vpn.policies''))
      | None \<Rightarrow> check_rules policies ms)"

definition validatePolicies :: "(string, string list) amap \<Rightarrow> auth_config \<Rightarrow> unit res" where
  "validatePolicies policies auth =
     (case check_policies policies of
        Inl e \<Rightarrow> Inl e
      | Inr _ \<Rightarrow>
          (case PolicyNames auth of
             Inl e \<Rightarrow> Inl e
           | Inr rules \<Rightarrow> check_rules policies rules))"

section \<open>Reading the configuration\<close>

definition read_file :: "os_env \<Rightarrow> servecmd \<Rightarrow> app_config res" where
  "read_file env cmd =
     (if cmConfigFilePath cmd = [] then Inr (cmAppConfig cmd)
      else (case osReadFile env (cmConfigFilePath cmd) of
          Inl e \<Rightarrow> Inl (wrap_err ''failed to read configuration file'' e)
        | Inr b \<Rightarrow>
            (case osConfigured env b of
               Inl e \<Rightarrow> Inl (wrap_err ''failed to bind configuration file'' e)
             | Inr configured \<Rightarrow>
                 if \<not> configured then Inr (cmAppConfig cmd)
                 else (case osUnmarshal env b (cmAppConfig cmd) of
                     Inl e \<Rightarrow> Inl (wrap_err ''failed to bind configuration file'' e)
                   | Inr c \<Rightarrow> Inr c))))"

text \<open>The checks before anything is derived; the firewall backend is settled here.\<close>

definition check_config :: "os_env \<Rightarrow> app_config \<Rightarrow> app_config res" where
  "check_config env c =
     (if \<not> cfHttpEnabled c \<and> \<not> hcEnabled (cfHTTPS c) then
        Inl (Err ''Both the HTTP and the HTTPS listener are disabled - the web UI would not be reachable at all'')
      else (case validatePolicies (vcPolicies (cfVPN c)) (cfAuth c) of
        Inl e \<Rightarrow> Inl e
      | Inr _ \<Rightarrow>
      (case Validate (osURLParse env) (cfAuth c) of
        Inl e \<Rightarrow> Inl e
      | Inr _ \<Rightarrow>
      (case ResolveFirewall (vcFirewall (cfVPN c)) (vcDisableIPTables (cfVPN c)) of
        Inl e \<Rightarrow> Inl e
      | Inr backend \<Rightarrow>
          if vcPolicies (cfVPN c) \<noteq> [] \<and> backend \<noteq> FirewallNftables then
            Inl (Err (''access policies need vpn.firewall: nftables, but the firewall is '' @ msg_quote backend))
          else if \<not> IsEnabled (cfAuth c) \<and> cfAdminPassword c = [] then
            Inl (Err ''Missing admin password: please set via environment variable, flag or config file'')
          else Inr (c\<lparr>cfVPN := (cfVPN c)\<lparr>vcFirewall := backend\<rparr>\<rparr>)))))"

text \<open>The entry of the admin goes behind those of the built-in sign-in that is there.\<close>

definition admin_entry :: "string \<Rightarrow> string \<Rightarrow> string" where
  "admin_entry name pw = name @ '':'' @ pw"

definition with_admin :: "string \<Rightarrow> provider_config \<Rightarrow> provider_config" where
  "with_admin entry p =
     (case (pcSimple p, pcBasic p) of
        (None, None) \<Rightarrow> p\<lparr>pcSimple := Some [entry]\<rparr>
      | (Some us, _) \<Rightarrow> p\<lparr>pcSimple := Some (us @ [entry])\<rparr>
      | (None, Some us) \<Rightarrow> p\<lparr>pcBasic := Some (us @ [entry])\<rparr>)"

definition add_admin :: "os_env \<Rightarrow> app_config \<Rightarrow> app_config res" where
  "add_admin env c =
     (if cfAdminPassword c = [] then Inr c
      else (case osBcrypt env (cfAdminPassword c) of
          Inl e \<Rightarrow> Inl (wrap_err ''failed to generate a bcrypt hash for the provided admin password'' e)
        | Inr pw \<Rightarrow>
            Inr (c\<lparr>cfAuth := (cfAuth c)\<lparr>auProvider := with_admin (admin_entry (cfAdminUsername c) pw) (auProvider (cfAuth c))\<rparr>\<rparr>)))"

definition private_key :: "os_env \<Rightarrow> app_config \<Rightarrow> app_config res" where
  "private_key env c =
     (if wcPrivateKey (cfWireGuard c) \<noteq> [] then Inr c
      else if \<not> has_prefix (cfStorage c) ''memory://'' then Inl (Err ''Missing WireGuard private key'')
      else (case osPrivateKey env of
          Inl e \<Rightarrow> Inl (wrap_err ''failed to generate a server private key'' e)
        | Inr k \<Rightarrow> Inr (set_private_key k c)))"

definition splitByCommaAndTrim :: "string \<Rightarrow> string list" where
  "splitByCommaAndTrim s = map trim_space (split_byte CHR '','' s)"

definition zero_to_empty :: "string \<Rightarrow> string" where
  "zero_to_empty s = (if s = ''0'' then [] else s)"

definition split_single :: "string list \<Rightarrow> string list" where
  "split_single xs = (case xs of [x] \<Rightarrow> splitByCommaAndTrim x | _ \<Rightarrow> xs)"

definition normalize_config :: "app_config \<Rightarrow> app_config" where
  "normalize_config c =
     c\<lparr>cfVPN := (cfVPN c)\<lparr>vcCIDR := zero_to_empty (vcCIDR (cfVPN c)), vcCIDRv6 := zero_to_empty (vcCIDRv6 (cfVPN c)),
                          vcAllowedIPs := split_single (vcAllowedIPs (cfVPN c))\<rparr>,
       cfDNS := (cfDNS c)\<lparr>dcDomain := zero_to_empty (dcDomain (cfDNS c)), dcUpstream := split_single (dcUpstream (cfDNS c))\<rparr>,
       cfClientConfig := (cfClientConfig c)\<lparr>ccDNSServers := split_single (ccDNSServers (cfClientConfig c))\<rparr>\<rparr>"

text \<open>\<^verbatim>\<open>ConfiguredEntries\<close> is only asked for a warning, but it panics where a provider is missing, so it stays.\<close>

definition ReadConfig :: "os_env \<Rightarrow> servecmd \<Rightarrow> app_config res" where
  "ReadConfig env cmd =
     (case read_file env cmd of Inl e \<Rightarrow> Inl e | Inr c \<Rightarrow>
     (case loadSecretFiles env cmd c of Inl e \<Rightarrow> Inl e | Inr c \<Rightarrow>
     (case check_config env c of Inl e \<Rightarrow> Inl e | Inr c \<Rightarrow>
     (case add_admin env c of Inl e \<Rightarrow> Inl e | Inr c \<Rightarrow>
     (case (if cfExternalHost c = [] then map_sum id (\<lambda>_. ()) (ConfiguredEntries (cfAuth c)) else Inr ()) of Inl e \<Rightarrow> Inl e | Inr _ \<Rightarrow>
     (case private_key env c of Inl e \<Rightarrow> Inl e | Inr c \<Rightarrow> Inr (normalize_config c)))))))"

section \<open>The interface and the firewall\<close>

text \<open>The addresses of the server.  \<^verbatim>\<open>vpnAddresses\<close> also appends them to the networks clients may reach.\<close>

record vpn_addressing =
  vaIPv4 :: prefix
  vaIPv6 :: prefix
  vaPrefixes :: "string list"
  vaAddrs :: "addr list"

definition vpnAddresses :: "app_config \<Rightarrow> (vpn_addressing \<times> app_config) res" where
  "vpnAddresses c =
     (case ServerVPNIPs (vcCIDR (cfVPN c)) (vcCIDRv6 (cfVPN c)) of
        Inl e \<Rightarrow> Inl e
      | Inr (ipv4, ipv6) \<Rightarrow>
          if \<not> prefix_valid ipv4 \<and> \<not> prefix_valid ipv6 then Inl (Err ''Need at least one of VPN.CIDR or VPN.CIDRv6 set'')
          else (let own = filter (\<lambda>(p, bits). prefix_valid p) [(ipv4, 32), (ipv6, 128)] in
            Inr (\<lparr>vaIPv4 = ipv4, vaIPv6 = ipv6, vaPrefixes = map (\<lambda>(p, bits). prefix_string p) own,
                  vaAddrs = map (\<lambda>(p, bits). prefix_addr p) own\<rparr>,
                 c\<lparr>cfVPN := (cfVPN c)\<lparr>vcAllowedIPs := vcAllowedIPs (cfVPN c) @
                     map (\<lambda>(p, bits). prefix_string (prefix_from (prefix_addr p) bits)) own\<rparr>\<rparr>)))"

definition sortedPolicyNames :: "(string, string list) amap \<Rightarrow> string list" where
  "sortedPolicyNames policies = sort (map fst policies)"

definition lookup_list :: "(string, string list) amap \<Rightarrow> string \<Rightarrow> string list" where
  "lookup_list m k = (case map_of m k of None \<Rightarrow> [] | Some xs \<Rightarrow> xs)"

definition forwardingOptions :: "app_config \<Rightarrow> vpn_addressing \<Rightarrow> firewall_state \<Rightarrow> forwarding_options" where
  "forwardingOptions c vpn st =
     \<lparr>foGatewayIface = vcGatewayInterface (cfVPN c), foCIDR = vcCIDR (cfVPN c), foCIDRv6 = vcCIDRv6 (cfVPN c),
      foNAT44 = vcNAT44 (cfVPN c), foNAT66 = vcNAT66 (cfVPN c), foClientIsolation = vcClientIsolation (cfVPN c),
      foAllowedIPs = vcAllowedIPs (cfVPN c) @ Routed st, foAllowedIPv4s = [], foAllowedIPv6s = [],
      foPolicies = map (\<lambda>name. \<lparr>polName = name, polAllowedIPs = lookup_list (vcPolicies (cfVPN c)) name,
          polMembers = lookup_list (Policies st) name\<rparr>) (sortedPolicyNames (vcPolicies (cfVPN c))),
      foServerAddresses = map addr_string (vaAddrs vpn), foFirewall = vcFirewall (cfVPN c)\<rparr>"

section \<open>What an accepted configuration is like\<close>

lemma policy_nets_ok: "policy_nets name ns = Inr () \<longleftrightarrow> (\<forall>n \<in> set ns. parse_prefix n \<noteq> None)"
  by (induction ns) (auto split: option.splits)

lemma policy_nets_any: "policy_nets name ns = Inr u \<longleftrightarrow> (\<forall>n \<in> set ns. parse_prefix n \<noteq> None)"
  using policy_nets_ok by simp

definition policies_wf :: "(string, string list) amap \<Rightarrow> bool" where
  "policies_wf ps \<longleftrightarrow> (\<forall>(name, ns) \<in> set ps. ValidPolicyName name \<and> ns \<noteq> [] \<and> (\<forall>n \<in> set ns. parse_prefix n \<noteq> None))"

lemma check_policies_ok: "check_policies ps = Inr u \<longleftrightarrow> policies_wf ps"
proof (induction ps rule: check_policies.induct)
  case (2 name allowed ps)
  then show ?case using policy_nets_any [of name allowed] by (auto simp: policies_wf_def split: sum.splits)
qed (simp add: policies_wf_def)

lemma check_rules_ok:
  "check_rules ps ms = Inr u \<longleftrightarrow> (\<forall>(provider, mapped) \<in> set ms. \<forall>name \<in> set mapped. name \<in> fst ` set ps)"
proof (induction ms rule: check_rules.induct)
  case (2 policies provider mapped ms)
  have "find (\<lambda>name. map_of policies name = None) mapped = None \<longleftrightarrow> (\<forall>name \<in> set mapped. name \<in> fst ` set policies)"
    by (auto simp: find_None_iff map_of_eq_None_iff)
  then show ?case using 2 by (cases "find (\<lambda>name. map_of policies name = None) mapped") auto
qed simp

text \<open>Adding the admin changes none of the identity providers.\<close>

lemma with_admin_fields [simp]:
  "pcOIDC (with_admin e p) = pcOIDC p" "pcGitlab (with_admin e p) = pcGitlab p" "pcGithub (with_admin e p) = pcGithub p"
  by (auto simp: with_admin_def split: option.splits)

lemma with_admin_enabled: "pcSimple (with_admin e p) \<noteq> None \<or> pcBasic (with_admin e p) \<noteq> None"
  by (auto simp: with_admin_def split: option.splits)

lemma admin_Validate: "Validate url (a\<lparr>auProvider := with_admin e (auProvider a)\<rparr>) = Validate url a"
  by (simp add: Validate_def identityProviderNames_def names_in_def cong: sum.case_cong)

lemma admin_PolicyNames: "PolicyNames (a\<lparr>auProvider := with_admin e (auProvider a)\<rparr>) = PolicyNames a"
  by (simp add: PolicyNames_def multiple_of_def cong: sum.case_cong)

lemma normalize_fields [simp]:
  "cfAuth (normalize_config c) = cfAuth c" "vcPolicies (cfVPN (normalize_config c)) = vcPolicies (cfVPN c)"
  "vcFirewall (cfVPN (normalize_config c)) = vcFirewall (cfVPN c)" "cfHttpEnabled (normalize_config c) = cfHttpEnabled c"
  "cfHTTPS (normalize_config c) = cfHTTPS c" "cfWireGuard (normalize_config c) = cfWireGuard c"
  "cfAdminUsername (normalize_config c) = cfAdminUsername c" "cfAdminPassword (normalize_config c) = cfAdminPassword c"
  by (simp_all add: normalize_config_def)

lemma private_key_fields:
  assumes "private_key env c = Inr d"
  shows "cfAuth d = cfAuth c" "cfVPN d = cfVPN c" "cfHttpEnabled d = cfHttpEnabled c" "cfHTTPS d = cfHTTPS c"
    "cfAdminUsername d = cfAdminUsername c" "cfAdminPassword d = cfAdminPassword c"
  using assms by (auto simp: private_key_def set_private_key_def split: if_splits sum.splits)

text \<open>The configuration the checks were made on, and what became of it.\<close>

lemma ReadConfig_stages:
  assumes "ReadConfig env cmd = Inr c"
  obtains c0 c1 c2 c3 where "check_config env c0 = Inr c1" "add_admin env c1 = Inr c2" "private_key env c2 = Inr c3" "c = normalize_config c3"
  using assms by (auto simp: ReadConfig_def split: sum.splits)

text \<open>
  What the configuration of a running server is like, said of its fields: none of the functions that check it
  appears here but for the readers of prefixes, of numbers and of URLs and the names the providers carry.
\<close>

definition sign_in_ok :: "os_env \<Rightarrow> app_config \<Rightarrow> bool" where
  "sign_in_ok env c \<longleftrightarrow>
     (if cfAdminPassword c = []
      then auMultiple (cfAuth c) \<noteq> [] \<or>
        (let p = auProvider (cfAuth c) in
         pcOIDC p \<noteq> None \<or> pcGitlab p \<noteq> None \<or> pcGithub p \<noteq> None \<or> pcBasic p \<noteq> None \<or> pcSimple p \<noteq> None)
      else (\<exists>hash us. osBcrypt env (cfAdminPassword c) = Inr hash \<and>
        us @ [cfAdminUsername c @ '':'' @ hash] \<in> set_option (pcSimple (auProvider (cfAuth c))) \<union> set_option (pcBasic (auProvider (cfAuth c)))))"

definition policy_name_ok :: "string \<Rightarrow> bool" where
  "policy_name_ok n \<longleftrightarrow> 1 \<le> length n \<and> length n \<le> 32 \<and> set n \<subseteq> {c. word_char c}"

definition config_ok :: "os_env \<Rightarrow> app_config \<Rightarrow> bool" where
  "config_ok env c \<longleftrightarrow>
     (cfHttpEnabled c \<or> hcEnabled (cfHTTPS c)) \<and>
     sign_in_ok env c \<and> providers_usable (osURLParse env) (cfAuth c) \<and>
     (\<forall>(name, networks) \<in> set (vcPolicies (cfVPN c)). policy_name_ok name \<and> networks \<noteq> [] \<and>
        (\<forall>n \<in> set networks. \<exists>net. parse_prefix n = Some net)) \<and>
     policies_named (cfAuth c) \<subseteq> fst ` set (vcPolicies (cfVPN c)) \<and>
     vcFirewall (cfVPN c) \<in> {''iptables'', ''nftables'', ''none''} \<and>
     (vcPolicies (cfVPN c) \<noteq> [] \<longrightarrow> vcFirewall (cfVPN c) = ''nftables'')"

lemma config_ok_policies: "config_ok env c \<Longrightarrow> policies_wf (vcPolicies (cfVPN c))"
  by (fastforce simp: config_ok_def policies_wf_def policy_name_ok_def ValidPolicyName_def list_all_iff)

lemma check_configD:
  assumes "check_config env c0 = Inr c1"
  obtains b where "cfHttpEnabled c0 \<or> hcEnabled (cfHTTPS c0)" "validatePolicies (vcPolicies (cfVPN c0)) (cfAuth c0) = Inr ()"
    "Validate (osURLParse env) (cfAuth c0) = Inr ()" "ResolveFirewall (vcFirewall (cfVPN c0)) (vcDisableIPTables (cfVPN c0)) = Inr b"
    "vcPolicies (cfVPN c0) \<noteq> [] \<longrightarrow> b = FirewallNftables" "IsEnabled (cfAuth c0) \<or> cfAdminPassword c0 \<noteq> []"
    "c1 = c0\<lparr>cfVPN := (cfVPN c0)\<lparr>vcFirewall := b\<rparr>\<rparr>"
  using assms by (auto simp: check_config_def split: if_splits sum.splits)

lemma validatePoliciesD:
  assumes "validatePolicies ps a = Inr u"
  shows "policies_wf ps" "\<exists>rules. PolicyNames a = Inr rules \<and> (\<forall>(provider, mapped) \<in> set rules. \<forall>name \<in> set mapped. name \<in> fst ` set ps)"
  using assms by (auto simp: validatePolicies_def check_policies_ok check_rules_ok split: sum.splits)

lemma ResolveFirewall_known: "ResolveFirewall f dis = Inr b \<Longrightarrow> b \<in> {FirewallIPTables, FirewallNftables, FirewallNone}"
  by (auto simp: ResolveFirewall_def split: if_splits)

text \<open>What an accepted configuration has, whether the sign-in was configured or comes with the admin password.\<close>

lemma config_okI:
  assumes "check_config env c0 = Inr c1" "sign_in_ok env c"
    and same: "cfHttpEnabled c = cfHttpEnabled c1" "cfHTTPS c = cfHTTPS c1" "vcPolicies (cfVPN c) = vcPolicies (cfVPN c1)"
      "vcFirewall (cfVPN c) = vcFirewall (cfVPN c1)"
      "PolicyNames (cfAuth c) = PolicyNames (cfAuth c1)" "Validate (osURLParse env) (cfAuth c) = Validate (osURLParse env) (cfAuth c1)"
  shows "config_ok env c"
proof -
  obtain b where b: "cfHttpEnabled c0 \<or> hcEnabled (cfHTTPS c0)" "validatePolicies (vcPolicies (cfVPN c0)) (cfAuth c0) = Inr ()"
    "Validate (osURLParse env) (cfAuth c0) = Inr ()" "ResolveFirewall (vcFirewall (cfVPN c0)) (vcDisableIPTables (cfVPN c0)) = Inr b"
    "vcPolicies (cfVPN c0) \<noteq> [] \<longrightarrow> b = FirewallNftables" "c1 = c0\<lparr>cfVPN := (cfVPN c0)\<lparr>vcFirewall := b\<rparr>\<rparr>"
    using check_configD [OF assms(1)] by metis
  have c1: "cfAuth c1 = cfAuth c0" "vcPolicies (cfVPN c1) = vcPolicies (cfVPN c0)" "vcFirewall (cfVPN c1) = b"
    "cfHttpEnabled c1 = cfHttpEnabled c0" "cfHTTPS c1 = cfHTTPS c0" using b(6) by simp_all
  have usable: "providers_usable (osURLParse env) (cfAuth c)"
    using b(3) same(6) c1(1) by (intro Validate_usable) simp
  have names: "\<forall>(name, networks) \<in> set (vcPolicies (cfVPN c)). policy_name_ok name \<and> networks \<noteq> [] \<and>
      (\<forall>n \<in> set networks. \<exists>net. parse_prefix n = Some net)"
    using validatePoliciesD(1) [OF b(2)] same(3) c1(2)
    by (fastforce simp: policies_wf_def policy_name_ok_def ValidPolicyName_def list_all_iff)
  obtain rules where rules: "PolicyNames (cfAuth c) = Inr rules"
    "\<forall>(provider, mapped) \<in> set rules. \<forall>name \<in> set mapped. name \<in> fst ` set (vcPolicies (cfVPN c))"
    using validatePoliciesD(2) [OF b(2)] same(3,5) c1(1,2) by auto
  have known: "policies_named (cfAuth c) \<subseteq> fst ` set (vcPolicies (cfVPN c))"
    using PolicyNames_named [OF rules(1)] rules(2) by blast
  show ?thesis
    unfolding config_ok_def using usable names known b(1,5) ResolveFirewall_known [OF b(4)] assms(2) same c1
    by (auto simp: FirewallIPTables_def FirewallNftables_def FirewallNone_def)
qed

lemma sign_in_without_admin: "IsEnabled (cfAuth c) \<Longrightarrow> cfAdminPassword c = [] \<Longrightarrow> sign_in_ok env c"
  by (auto simp: sign_in_ok_def IsEnabled_def Let_def)

lemma sign_in_with_admin:
  assumes "osBcrypt env (cfAdminPassword c) = Inr hash" "cfAdminPassword c \<noteq> []"
    and "auProvider (cfAuth c) = with_admin (admin_entry (cfAdminUsername c) hash) p"
  shows "sign_in_ok env c"
proof -
  have "\<exists>us. us @ [admin_entry (cfAdminUsername c) hash] \<in>
      set_option (pcSimple (auProvider (cfAuth c))) \<union> set_option (pcBasic (auProvider (cfAuth c)))"
    unfolding assms(3) by (cases "pcSimple p"; cases "pcBasic p") (auto simp: with_admin_def intro: exI [of _ "[]"])
  then show ?thesis using assms(1,2) by (simp add: sign_in_ok_def admin_entry_def)
qed

lemma accepted_config_ok:
  assumes "ReadConfig env cmd = Inr c"
  shows "config_ok env c"
proof -
  obtain c0 c1 c2 c3 where s: "check_config env c0 = Inr c1" "add_admin env c1 = Inr c2" "private_key env c2 = Inr c3" "c = normalize_config c3"
    using ReadConfig_stages [OF assms] by metis
  note k = private_key_fields [OF s(3)]
  show ?thesis
  proof (cases "cfAdminPassword c1 = []")
    case True
    then have c2: "c2 = c1" using s(2) by (simp add: add_admin_def)
    have "IsEnabled (cfAuth c1)" by (rule check_configD [OF s(1)]) (use True in auto)
    then have "sign_in_ok env c" using True k c2 s(4) by (intro sign_in_without_admin) simp_all
    then show ?thesis using config_okI [OF s(1), of c] k c2 s(4) by simp
  next
    case False
    then obtain h where h: "osBcrypt env (cfAdminPassword c1) = Inr h"
      "c2 = c1\<lparr>cfAuth := (cfAuth c1)\<lparr>auProvider := with_admin (admin_entry (cfAdminUsername c1) h) (auProvider (cfAuth c1))\<rparr>\<rparr>"
      using s(2) by (auto simp: add_admin_def split: sum.splits)
    have "sign_in_ok env c"
      using False h k s(4) by (intro sign_in_with_admin [of _ _ h "auProvider (cfAuth c1)"]) simp_all
    then show ?thesis using config_okI [OF s(1), of c] k h(2) s(4) by (simp add: admin_PolicyNames admin_Validate)
  qed
qed

text \<open>
  C35. A configuration the server starts with has a listener.  With an admin password the built-in sign-in lists the
  admin's name with the hash of that password; without one some sign-in is configured, if only as an entry of
  \<^verbatim>\<open>auth.multiple\<close>.  No two identity providers carry the same name and none that of the built-in sign-ins;
  every GitHub entry has its credentials, addresses that parse, a restriction on who may sign in, and users and
  teams in the form they are looked up in.  Policies have names of 1 to 32 word characters and networks that
  parse, no provider has a rule for a policy that does not exist, and there are policies only with nftables.
\<close>

theorem config_accepted:
  assumes "ReadConfig env cmd = Inr c"
  shows "config_ok env c"
  using assms by (rule accepted_config_ok)

section \<open>The admin\<close>

text \<open>What the code relies on of bcrypt and of the reader of htpasswd entries: a hash is not empty and its entry is
  one for the password it was made of.\<close>

definition bcrypt_entries :: "os_env \<Rightarrow> htpasswd \<Rightarrow> bool" where
  "bcrypt_entries env H \<longleftrightarrow>
     (\<forall>p h. osBcrypt env p = Inr h \<longrightarrow> h \<noteq> [] \<and> (\<exists>m. AcceptBcrypt H h = Some m \<and> (\<forall>q. m q \<longleftrightarrow> q = p)))"

lemma cut_byte_front: "c \<notin> set s \<Longrightarrow> cut_byte c (s @ c # t) = Some (s, t)"
  by (induction s) auto

lemma parse_admin_entry:
  assumes "name \<noteq> []" "CHR '':'' \<notin> set name" "pw \<noteq> []"
  shows "parsehtpassword (admin_entry name pw) = Some (name, pw)"
  using assms cut_byte_front [of "CHR '':''" name pw] by (simp add: parsehtpassword_def admin_entry_def)

lemma checkCreds_append:
  "entry_in u us = None \<Longrightarrow> checkCreds H cmp stored (us @ vs) u p = checkCreds H cmp stored vs u p"
  by (induction us) (simp_all split: option.splits if_splits prod.splits)

text \<open>
  The admin password works: with one configured, the built-in sign-in has a list of users on which the name of the
  admin and that password, and no other password, sign in, unless somebody of that name was in the list already
  or set a password of their own.
\<close>

theorem admin_signs_in:
  assumes "ReadConfig env cmd = Inr c" "bcrypt_entries env H" "cfAdminPassword c \<noteq> []"
    and "cfAdminUsername c \<noteq> []" "CHR '':'' \<notin> set (cfAdminUsername c)"
  shows "\<exists>us entry. us @ [entry] \<in> set (lists_of (auProvider (cfAuth c))) \<and>
    (entry_in (cfAdminUsername c) us = None \<longrightarrow>
      checkCreds H cmp (\<lambda>_. ([], [])) (us @ [entry]) (cfAdminUsername c) p = (p = cfAdminPassword c))"
proof -
  obtain c0 c1 c2 c3 where s: "check_config env c0 = Inr c1" "add_admin env c1 = Inr c2" "private_key env c2 = Inr c3" "c = normalize_config c3"
    using ReadConfig_stages [OF assms(1)] by metis
  note k = private_key_fields [OF s(3)]
  have pw: "cfAdminPassword c = cfAdminPassword c1" "cfAdminUsername c = cfAdminUsername c1"
    using s(2,4) k(5,6) by (auto simp: add_admin_def split: sum.splits if_splits)
  obtain h where h: "osBcrypt env (cfAdminPassword c) = Inr h"
    and auth: "cfAuth c = (cfAuth c1)\<lparr>auProvider := with_admin (admin_entry (cfAdminUsername c) h) (auProvider (cfAuth c1))\<rparr>"
    using s(2,4) k(1) pw assms(3) by (auto simp: add_admin_def split: sum.splits)
  let ?e = "admin_entry (cfAdminUsername c) h"
  obtain m where m: "h \<noteq> []" "AcceptBcrypt H h = Some m" "\<And>q. m q \<longleftrightarrow> q = cfAdminPassword c"
    using assms(2) h unfolding bcrypt_entries_def by metis
  have "parsehtpassword ?e = Some (cfAdminUsername c, h)" using parse_admin_entry assms(4,5) m(1) by blast
  then have creds: "checkCreds H cmp (\<lambda>_. ([], [])) (us @ [?e]) (cfAdminUsername c) p = (p = cfAdminPassword c)"
    if "entry_in (cfAdminUsername c) us = None" for us
    using checkCreds_append [OF that, of H cmp "\<lambda>_. ([], [])" "[?e]" p] m by (simp add: checkhtpasswd_def)
  have "\<exists>us. us @ [?e] \<in> set (lists_of (auProvider (cfAuth c)))"
    unfolding auth with_admin_def lists_of_def by (auto split: option.splits intro: exI [of _ "[]"])
  then show ?thesis using creds by blast
qed

end
