(* ===== verification/Server_Firewall.thy ===== *)
theory Server_Firewall
  imports Server_Config Firewall_Semantics Device_Peers
begin

text \<open>
  From the configuration file to the packet: the devices, the policies of their owners, the configuration and the
  ruleset together.
\<close>

section \<open>Who is in which policy\<close>

lemma lookup_update: "lookup_list (AList.update k v m) n = (if n = k then v else lookup_list m n)"
  by (simp add: lookup_list_def update_conv')

lemma add_member_lookup: "lookup_list (add_member as m policy) n = lookup_list m n @ (if n = policy then as else [])"
proof -
  have "add_member as m policy = AList.update policy (lookup_list m policy @ as) m" by (simp add: add_member_def lookup_list_def)
  then show ?thesis by (simp add: lookup_update)
qed

lemma add_members_lookup:
  "e \<in> set (lookup_list (foldl (add_member as) m ps) n) \<longleftrightarrow> e \<in> set (lookup_list m n) \<or> (n \<in> set ps \<and> e \<in> set as)"
proof (induction ps arbitrary: m)
  case (Cons p ps)
  show ?case using Cons.IH [of "add_member as m p"] by (auto simp: add_member_lookup)
qed simp

lemma add_device_lookup:
  "e \<in> set (lookup_list (Policies (add_device now po st x)) n) \<longleftrightarrow>
     e \<in> set (lookup_list (Policies st) n) \<or>
     (AccessAllowed x now \<and> n \<in> set (lookup_list po (devOwner x)) \<and> e \<in> set (SplitAddresses (devAddress x)))"
  by (auto simp: add_device_def Let_def add_members_lookup lookup_list_def [of po])

lemma add_devices_lookup:
  "e \<in> set (lookup_list (Policies (foldl (add_device now po) st xs)) n) \<longleftrightarrow>
     e \<in> set (lookup_list (Policies st) n) \<or>
     (\<exists>x \<in> set xs. AccessAllowed x now \<and> n \<in> set (lookup_list po (devOwner x)) \<and> e \<in> set (SplitAddresses (devAddress x)))"
proof (induction xs arbitrary: st)
  case (Cons x xs)
  show ?case using Cons.IH [of "add_device now po st x"] by (auto simp: add_device_lookup)
qed simp

lemma lookup_map: "lookup_list (map (\<lambda>(k, v). (k, f v)) m) n = (case map_of m n of None \<Rightarrow> [] | Some v \<Rightarrow> f v)"
  by (simp add: lookup_list_def map_of_map split: option.splits)

lemma firewall_members:
  "e \<in> set (lookup_list (Policies (firewallState now xs s)) n) \<longleftrightarrow>
     (\<exists>x \<in> set xs. AccessAllowed x now \<and> n \<in> set (lookup_list (policies_of (Users s)) (devOwner x)) \<and>
        e \<in> set (SplitAddresses (devAddress x)))"
proof -
  let ?m = "Policies (foldl (add_device now (policies_of (Users s))) \<lparr>Routed = [], Policies = []\<rparr> xs)"
  have "set (lookup_list (Policies (firewallState now xs s)) n) = set (lookup_list ?m n)"
    by (simp add: firewallState_def Let_def lookup_map lookup_list_def [of ?m] split: option.splits)
  moreover have "lookup_list [] n = []" by (simp add: lookup_list_def)
  ultimately show ?thesis using add_devices_lookup [of e now "policies_of (Users s)" "\<lparr>Routed = [], Policies = []\<rparr>" xs n] by simp
qed

lemma policies_of_lookup:
  assumes "distinct (map usrSubject us)" "u \<in> set us"
  shows "lookup_list (policies_of us) (usrSubject u) = PolicyList u"
proof -
  have gen: "lookup_list (foldl (\<lambda>m u. if PolicyList u = [] then m else AList.update (usrSubject u) (PolicyList u) m) m us) n =
      (case find (\<lambda>u. usrSubject u = n) us of Some u \<Rightarrow> (if PolicyList u = [] then lookup_list m n else PolicyList u)
        | None \<Rightarrow> lookup_list m n)"
    if "distinct (map usrSubject us)" for m n and us :: "user list"
    using that
  proof (induction us arbitrary: m)
    case (Cons v us)
    have "find (\<lambda>u. usrSubject u = usrSubject v) us = None" 
      using Cons.prems unfolding find_None_iff by (metis distinct.simps(2) image_eqI list.simps(9) set_map)
    then show ?case using Cons by (auto simp: lookup_update split: option.splits)
  qed simp
  have "find (\<lambda>v. usrSubject v = usrSubject u) us = Some u"
    using assms by (induction us) (auto simp: image_iff)
  then show ?thesis using gen [OF assms(1), of "[]" "usrSubject u"] by (simp add: policies_of_def lookup_list_def)
qed

lemma stored_policies:
  assumes "store_ok s" "map_of (users s) subject = Some u"
  shows "lookup_list (policies_of (Users s)) subject = PolicyList u"
proof -
  have t: "amap_ok (users s)" "\<And>k v. (k, v) \<in> set (users s) \<Longrightarrow> k = usrSubject v"
    using store_okD(2) [OF assms(1)] by (auto simp: table_ok_def)
  have "map usrSubject (Users s) = map fst (users s)" unfolding Users_def using t(2) by auto
  then have d: "distinct (map usrSubject (Users s))" using t(1) by (simp add: amap_ok_def)
  have m: "(subject, u) \<in> set (users s)" using assms(2) by (rule map_of_SomeD)
  then have "u \<in> set (Users s)" by (force simp: Users_def)
  then show ?thesis using policies_of_lookup [OF d] t(2) [OF m] by simp
qed

section \<open>The addresses of a device in the sets\<close>

text \<open>Two devices with an address in common are one device.\<close>

lemma concat_distinct_eq:
  "distinct (concat (map f xs)) \<Longrightarrow> x \<in> set xs \<Longrightarrow> y \<in> set xs \<Longrightarrow> a \<in> set (f x) \<Longrightarrow> a \<in> set (f y) \<Longrightarrow> x = y"
  by (induction xs) auto

lemma address_owner:
  assumes "mgr_ok d" "x \<in> stored (storage d)" "y \<in> stored (storage d)"
    and "a \<in> set (fst (ParseAddresses (devAddress x)))" "a \<in> set (fst (ParseAddresses (devAddress y)))"
  shows "x = y"
proof -
  have "distinct (concat (map (\<lambda>x. fst (ParseAddresses (devAddress x))) (map snd (db (storage d)))))"
    using assms(1) by (simp add: mgr_ok_def mgr_base_def all_addresses_def Addresses_def comp_def case_prod_unfold)
  then show ?thesis using concat_distinct_eq assms(2-) unfolding stored_def by fast
qed

lemma device_addresses:
  assumes "dev_wf x" "\<And>b. b \<in> set (fst (ParseAddresses (devAddress x))) \<Longrightarrow> \<not> is4in6 b"
  shows "(\<exists>e \<in> set (addressesOfFamily (SplitAddresses (devAddress x)) f). parse_addr e = Some a) \<longleftrightarrow>
    a \<in> set (fst (ParseAddresses (devAddress x))) \<and> is4 a = (famKeyword f = ''ip'')"
proof -
  obtain as where as: "devAddress x = address_list as" "\<And>a. a \<in> set as \<Longrightarrow> a \<noteq> NoAddr \<and> zone_of a = []" "as \<noteq> []"
    using assms(1) by (auto simp: dev_wf_def addr_wf_def)
  have v: "prefix_valid (host_prefix a)" "prefix_addr (host_prefix a) = a" if "a \<in> set as" for a
    using as(2) [OF that] by (cases a; simp add: host_prefix_def prefix_from_def prefix_valid_def)+
  have sp: "SplitAddresses (devAddress x) = map prefix_string (map host_prefix as)"
    using SplitAddresses_join [of "map host_prefix as"] v(1) as(3) by (auto simp: as(1) address_list_def comp_def)
  have pa: "fst (ParseAddresses (devAddress x)) = as"
    using ParseAddresses_list [of as] as by simp
  have "address_of (prefix_string (host_prefix b)) = Some b" if "b \<in> set as" for b
    using v [OF that] clean_entryD(3) [OF prefix_string_clean [OF v(1) [OF that]]] by (simp add: address_of_def parse_prefix_string)
  moreover have "parse_addr (addr_string b) = Some b" if "b \<in> set as" for b using as(2) [OF that] by (simp add: parse_addr_string)
  moreover have "unmap (prefix_addr (prefix_from b (bit_len b))) = b" if "b \<in> set as" for b
    using as(2) [OF that] assms(2) [of b] that unfolding pa by (cases b) (auto simp: prefix_from_def)
  ultimately show ?thesis
    unfolding pa sp addressesOfFamily_def by (auto simp: List.map_filter_def split: if_splits)
qed

section \<open>The options made of a configuration\<close>

lemma policies_reduced:
  assumes "policies_wf ps" "\<And>q. q \<in> set qs \<Longrightarrow> (polName q, polAllowedIPs q) \<in> set ps"
  shows "\<exists>rs. policiesOfFamily qs f = Inr rs"
  using assms(2)
proof (induction qs)
  case (Cons q qs)
  have nets: "\<exists>ns. prefixesOfFamily xs f = Inr ns" if "\<forall>n \<in> set xs. parse_prefix n \<noteq> None" for xs
    using that by (induction xs) (auto split: option.splits sum.splits)
  have q: "ValidPolicyName (polName q)" "\<forall>n \<in> set (polAllowedIPs q). parse_prefix n \<noteq> None"
    using assms(1) Cons.prems [of q] by (auto simp: policies_wf_def)
  obtain ns where "prefixesOfFamily (polAllowedIPs q) f = Inr ns" using nets [OF q(2)] by blast
  moreover have "\<exists>rs. policiesOfFamily qs f = Inr rs" by (rule Cons.IH) (use Cons.prems in auto)
  ultimately show ?case using q(1) by auto
qed simp

lemma reduced_member:
  assumes "policiesOfFamily qs f = Inr rs"
  shows "r \<in> set rs \<longleftrightarrow> (\<exists>q ns. q \<in> set qs \<and> prefixesOfFamily (polAllowedIPs q) f = Inr ns \<and>
    r = \<lparr>polName = polName q, polAllowedIPs = ns, polMembers = addressesOfFamily (polMembers q) f\<rparr>)"
  using assms by (induction qs arbitrary: rs) (auto split: if_splits sum.splits)

lemma reduced_networks: "prefixesOfFamily xs f = Inr ns \<Longrightarrow> in_nets ns a \<Longrightarrow> \<exists>n \<in> set xs. net_matches n a"
proof (induction xs arbitrary: ns)
  case (Cons x xs)
  from Cons.prems(1) obtain p ks where p: "parse_prefix x = Some p" "prefixesOfFamily xs f = Inr ks"
    "ns = (if is4 (unmap (prefix_addr p)) = (famKeyword f = ''ip'') then prefix_string (masked p) # ks else ks)"
    by (auto split: option.splits sum.splits)
  have "parse_prefix (prefix_string (masked p)) = Some (masked p)"
    using parse_prefix_string masked_valid parse_prefix_valid p(1) by blast
  then have "net_matches (prefix_string (masked p)) a = net_matches x a" using p(1) by (simp add: net_matches_def)
  then show ?case using Cons.IH [OF p(2)] Cons.prems(2) p(3) by (auto simp: in_nets_def split: if_splits)
qed (simp add: in_nets_def)

lemma option_policies:
  assumes "amap_ok (vcPolicies (cfVPN c))"
  shows "q \<in> set (foPolicies (forwardingOptions c vpn st)) \<longleftrightarrow>
    (polName q, polAllowedIPs q) \<in> set (vcPolicies (cfVPN c)) \<and> polMembers q = lookup_list (Policies st) (polName q)"
proof -
  let ?m = "vcPolicies (cfVPN c)"
  have look: "n \<in> fst ` set ?m \<and> lookup_list ?m n = ns \<longleftrightarrow> (n, ns) \<in> set ?m" for n ns
    using assms map_of_eq_Some_iff [of ?m n] unfolding amap_ok_def lookup_list_def
    by (cases "map_of ?m n") (force simp: map_of_eq_None_iff)+
  have "q \<in> set (foPolicies (forwardingOptions c vpn st)) \<longleftrightarrow>
      polName q \<in> fst ` set ?m \<and> lookup_list ?m (polName q) = polAllowedIPs q \<and> polMembers q = lookup_list (Policies st) (polName q)"
    by (cases q) (auto simp: forwardingOptions_def sortedPolicyNames_def)
  then show ?thesis using look by blast
qed

lemma option_names:
  "map polName (foPolicies (forwardingOptions c vpn st)) = sort (map fst (vcPolicies (cfVPN c)))"
  by (simp add: forwardingOptions_def sortedPolicyNames_def comp_def)

lemma family_cidr:
  assumes "ruleset_parts is_print options = Inr p" "f \<in> set (families options)" "famKeyword f = keyword_of s"
  shows "\<exists>vpn. parse_prefix (famCidr f) = Some vpn"
proof -
  obtain pf where "family_parts is_print options f = Inr pf" using ruleset_family [OF assms(1,2)] assms(3) by metis
  then show ?thesis by (auto simp: family_parts_def split: option.splits)
qed

section \<open>The policies of a running server\<close>

text \<open>A device that may connect and has an address is in the sets of exactly the configured policies of its owner.\<close>

lemma device_in_policies:
  assumes ok: "mgr_ok d" and mapped: "\<And>b. b \<in> set (all_addresses (storage d)) \<Longrightarrow> \<not> is4in6 b"
    and x: "x \<in> stored (storage d)" "AccessAllowed x now" "a \<in> set (fst (ParseAddresses (devAddress x)))"
    and u: "map_of (users (storage d)) (devOwner x) = Some u" and f: "is4 a = (famKeyword f = ''ip'')"
  shows "(\<exists>e \<in> set (addressesOfFamily (lookup_list (Policies (firewallState now (ListAllDevices (storage d)) (storage d))) n) f).
    parse_addr e = Some a) \<longleftrightarrow> n \<in> set (PolicyList u)"
proof -
  let ?s = "storage d" and ?L = "ListAllDevices (storage d)"
  let ?m = "lookup_list (Policies (firewallState now ?L ?s)) n"
  obtain g where g: "?L = map g (map snd (db ?s))" "g = id \<or> (\<exists>m. g = fill_owner m)" using ListAllDevices_fill by blast
  have gk: "devOwner (g y) = devOwner y" "devAddress (g y) = devAddress y" "AccessAllowed (g y) now = AccessAllowed y now" for y
    using g(2) fill_owner_keeps(1) [of _ y] by (auto simp: key_def)
  have mem: "e \<in> set ?m \<longleftrightarrow> (\<exists>y \<in> stored ?s. AccessAllowed y now \<and> n \<in> set (lookup_list (policies_of (Users ?s)) (devOwner y)) \<and>
      e \<in> set (SplitAddresses (devAddress y)))" for e
    unfolding firewall_members g(1) by (auto simp: stored_def gk)
  have set_map: "(\<exists>e \<in> set (addressesOfFamily xs f). P e) \<longleftrightarrow> (\<exists>x \<in> set xs. \<exists>e \<in> set (addressesOfFamily [x] f). P e)" for xs P
    by (auto simp: addressesOfFamily_def List.map_filter_def)
  have addrs: "(\<exists>e \<in> set (addressesOfFamily (SplitAddresses (devAddress y)) f). parse_addr e = Some a) \<longleftrightarrow> y = x" if y: "y \<in> stored ?s" for y
  proof -
    have "\<not> is4in6 b" if "b \<in> set (fst (ParseAddresses (devAddress y)))" for b
      using y that by (intro mapped) (force simp: all_addresses_def Addresses_def stored_def)
    then have "(\<exists>e \<in> set (addressesOfFamily (SplitAddresses (devAddress y)) f). parse_addr e = Some a) \<longleftrightarrow>
        a \<in> set (fst (ParseAddresses (devAddress y)))"
      using device_addresses [OF wf_stored [OF ok y], of f a] f by simp
    also have "\<dots> \<longleftrightarrow> y = x" using address_owner [OF ok y x(1)] x(3) by blast
    finally show ?thesis .
  qed
  have "(\<exists>e \<in> set (addressesOfFamily ?m f). parse_addr e = Some a) \<longleftrightarrow>
      (\<exists>y \<in> stored ?s. AccessAllowed y now \<and> n \<in> set (lookup_list (policies_of (Users ?s)) (devOwner y)) \<and>
        (\<exists>e \<in> set (addressesOfFamily (SplitAddresses (devAddress y)) f). parse_addr e = Some a))"
    unfolding set_map [of ?m] set_map [of "SplitAddresses _"] using mem by blast
  also have "\<dots> \<longleftrightarrow> n \<in> set (lookup_list (policies_of (Users ?s)) (devOwner x))" using addrs x(1,2) by blast
  also have "\<dots> \<longleftrightarrow> n \<in> set (PolicyList u)" using stored_policies [OF mgr_db_ok(1) [OF ok] u] by simp
  finally show ?thesis .
qed

text \<open>
  C16. What an operator writes under \<^verbatim>\<open>vpn.policies\<close> is what a packet meets.  Take a server that started with a
  configuration, the ruleset it installs for its devices and users, and a device that may connect and whose
  owner is in a configured policy.  A packet from an address of the device is let through only to the server
  or to a network of a policy the owner is in.  This is so under three conditions: no policy is called
  \<^verbatim>\<open>members\<close>, no device has an IPv4 address in IPv6 form, and address translation is on for the family of the
  packet (without it the networks of a policy may also open connections to its members).
\<close>

theorem policies_enforced:
  assumes conf: "ReadConfig env cmd = Inr c" "vpnAddresses c = Inr (vpn, c')"
    "amap_ok (vcPolicies (cfVPN c))" "''members'' \<notin> fst ` set (vcPolicies (cfVPN c))"
    and site: "mgr_ok d" "\<And>b. b \<in> set (all_addresses (storage d)) \<Longrightarrow> \<not> is4in6 b"
    and rules: "splitAllowedIPs (forwardingOptions c' vpn (firewallState now (ListAllDevices (storage d)) (storage d))) = Inr options"
      "ruleset_parts is_print options = Inr p" "f \<in> set (families options)" "famNat f" "famKeyword f = keyword_of a"
    and device: "x \<in> stored (storage d)" "AccessAllowed x now" "a \<in> set (fst (ParseAddresses (devAddress x)))"
      "map_of (users (storage d)) (devOwner x) = Some u" "n \<in> set (PolicyList u)" "n \<in> fst ` set (vcPolicies (cfVPN c))"
    and through: "nft_verdict p a dst = Accept"
  shows "in_nets (addressesOfFamily (map addr_string (vaAddrs vpn)) f) dst \<or>
    (\<exists>m ns net. m \<in> set (PolicyList u) \<and> (m, ns) \<in> set (vcPolicies (cfVPN c)) \<and> net \<in> set ns \<and> net_matches net dst)"
proof -
  let ?st = "firewallState now (ListAllDevices (storage d)) (storage d)"
  let ?fo = "forwardingOptions c' vpn ?st"
  have same: "vcPolicies (cfVPN c') = vcPolicies (cfVPN c)" using conf(2) by (auto simp: vpnAddresses_def Let_def split: sum.splits if_splits)
  have opt: "foPolicies options = foPolicies ?fo" "foServerAddresses options = map addr_string (vaAddrs vpn)"
    using rules(1) by (auto simp: splitAllowedIPs_def forwardingOptions_def split: sum.splits)
  have pol: "q \<in> set (foPolicies options) \<longleftrightarrow> (polName q, polAllowedIPs q) \<in> set (vcPolicies (cfVPN c)) \<and>
      polMembers q = lookup_list (Policies ?st) (polName q)" for q
    using option_policies [of c' q vpn ?st] conf(3) by (simp add: opt same)
  have names: "names_ok (foPolicies options)"
    using conf(3,4) option_names [of c' vpn ?st] by (simp add: names_ok_def opt same amap_ok_def)
  have "policies_wf (vcPolicies (cfVPN c))" using accepted_config_ok [OF conf(1)] by (rule config_ok_policies)
  then obtain ps where ps: "policiesOfFamily (foPolicies options) f = Inr ps" using policies_reduced pol by blast
  obtain vpnnet where vpnnet: "parse_prefix (famCidr f) = Some vpnnet" using family_cidr [OF rules(2,3)] rules(5) by blast
  have fam: "is4 a = (famKeyword f = ''ip'')" using rules(5) by (simp add: keyword_of_def)
  have inp: "in_policy q a \<longleftrightarrow> polName q \<in> set (PolicyList u)" if mem: "q \<in> set ps" for q
  proof -
    obtain q' ns where q': "q' \<in> set (foPolicies options)"
      "q = \<lparr>polName = polName q', polAllowedIPs = ns, polMembers = addressesOfFamily (polMembers q') f\<rparr>"
      using iffD1 [OF reduced_member [OF ps] mem] by (elim exE conjE)
    have "in_policy q a \<longleftrightarrow> (\<exists>e \<in> set (addressesOfFamily (lookup_list (Policies ?st) (polName q)) f). parse_addr e = Some a)"
      using q' pol [of q'] by (simp add: in_policy_def list_ex_iff)
    then show ?thesis using device_in_policies [OF site device(1-4) fam] by blast
  qed
  obtain q where q: "q \<in> set ps" "polName q = n"
  proof -
    have "n \<in> polName ` set (foPolicies options)"
      using device(6) option_names [of c' vpn ?st] by (metis image_set opt(1) same set_sort)
    then have "n \<in> set (map polName ps)" using policiesOfFamily_names [OF ps] by simp
    then show thesis using that by auto
  qed
  have "names_ok ps" using names by (simp add: names_ok_def policiesOfFamily_names [OF ps])
  then have "forward_spec options f vpnnet ps a dst = Accept"
    using nft_refines [OF rules(2,3) vpnnet ps _ rules(5)] through by metis
  moreover have "list_ex (\<lambda>p. in_policy p a) ps" using q inp device(5) by (auto simp: list_ex_iff)
  ultimately have "in_nets (addressesOfFamily (foServerAddresses options) f) dst \<or>
      (\<exists>r \<in> set ps. in_policy r a \<and> in_nets (polAllowedIPs r) dst)"
    using rules(4) by (auto simp: forward_spec_def Let_def list_ex_iff split: if_splits)
  moreover have "\<exists>m ns net. m \<in> set (PolicyList u) \<and> (m, ns) \<in> set (vcPolicies (cfVPN c)) \<and> net \<in> set ns \<and> net_matches net dst"
    if r: "r \<in> set ps" "in_policy r a" "in_nets (polAllowedIPs r) dst" for r
  proof -
    obtain q' ns where q': "q' \<in> set (foPolicies options)" "prefixesOfFamily (polAllowedIPs q') f = Inr ns"
      "polName r = polName q'" "polAllowedIPs r = ns" using r(1) by (auto simp: reduced_member [OF ps])
    obtain net where "net \<in> set (polAllowedIPs q')" "net_matches net dst" using reduced_networks [OF q'(2)] r(3) q'(4) by blast
    then show ?thesis using q'(1,3) inp [OF r(1)] r(2) by (metis pol)
  qed
  ultimately show ?thesis by (auto simp: opt(2))
qed

end
