(* ===== verification/Audit_Trail.thy ===== *)
theory Audit_Trail
  imports Http
begin

text \<open>
  The audit trail (\<^verbatim>\<open>internal/audit/audit.go\<close>): who changed what.  An entry is a map of fields; it is kept here
  where the server writes a line to its log.  The address of the client is the one the middleware took from the
  request.
\<close>

datatype log_field = Str string | Num int | Flag bool | Time instant

type_synonym audit_entry = "(string, log_field) amap"

text \<open>What an API call arrives with: the session in its context, the HTTP request, the id of its trace, the time
  and the random bytes the server draws while it handles it, in order.\<close>

record api_call =
  clCtx :: ctx
  clRequest :: request
  clTrace :: string
  clNow :: instant
  clRand :: "nat \<Rightarrow> bytes res"

definition SystemActor :: string where "SystemActor = ''system''"

definition WithRemoteAddr :: "string \<Rightarrow> string" where
  "WithRemoteAddr addr = (case SplitHostPort addr of Some (host, port) \<Rightarrow> host | None \<Rightarrow> addr)"

definition actor_fields :: "ctx \<Rightarrow> (string \<times> log_field) list" where
  "actor_fields c =
     (case CurrentUser c of
        Inl e \<Rightarrow> []
      | Inr user \<Rightarrow>
          [(''actor'', Str (idSubject user)), (''actor_provider'', Str (idProvider user)),
           (''actor_is_admin'', Flag (IsAdmin (idClaims user)))] @
          (if APIToken c \<noteq> [] then [(''actor_api_token'', Str (APIToken c))] else []))"

definition audit_entry_of :: "api_call \<Rightarrow> string \<Rightarrow> (string \<times> log_field) list \<Rightarrow> audit_entry" where
  "audit_entry_of c action details =
     (let addr = WithRemoteAddr (rqRemoteAddr (clRequest c)) in
      foldl (\<lambda>entry (name, value). AList.update name value entry)
        [(''audit'', Str action), (''actor'', Str SystemActor), (''trace.id'', Str (clTrace c)), (''component'', Str ''audit'')]
        (actor_fields (clCtx c) @ (if addr \<noteq> [] then [(''remote_addr'', Str addr)] else []) @ details))"

section \<open>Reading an entry\<close>

lemma map_of_updates:
  "map_of (foldl (\<lambda>entry (name, value). AList.update name value entry) e fs) n =
     (case map_of (rev fs) n of None \<Rightarrow> map_of e n | Some v \<Rightarrow> Some v)"
proof (induction fs arbitrary: e)
  case (Cons f fs)
  then show ?case by (cases f) (auto simp: map_add_def update_conv' map_of_append split: option.splits)
qed simp

definition reserved_fields :: "string list" where
  "reserved_fields = [''audit'', ''actor'', ''actor_provider'', ''actor_is_admin'', ''actor_api_token'', ''remote_addr'']"

text \<open>Details of an action that have other names leave the actor as the context has it.\<close>

lemma audit_entry_actor:
  assumes "CurrentUser (clCtx c) = Inr user" "\<forall>f \<in> set details. fst f \<notin> set reserved_fields"
  shows "map_of (audit_entry_of c action details) ''audit'' = Some (Str action)"
    and "map_of (audit_entry_of c action details) ''actor'' = Some (Str (idSubject user))"
    and "map_of (audit_entry_of c action details) ''actor_is_admin'' = Some (Flag (IsAdmin (idClaims user)))"
    and "map_of (audit_entry_of c action details) ''actor_api_token'' =
      (if APIToken (clCtx c) \<noteq> [] then Some (Str (APIToken (clCtx c))) else None)"
proof -
  have none: "map_of (rev details) n = None" if "n \<in> set reserved_fields" for n
    using assms(2) that by (force simp: map_of_eq_None_iff)
  have r: "''audit'' \<in> set reserved_fields" "''actor'' \<in> set reserved_fields" "''actor_is_admin'' \<in> set reserved_fields" "''actor_api_token'' \<in> set reserved_fields"
    by (simp_all add: reserved_fields_def)
  note e = audit_entry_of_def Let_def map_of_updates actor_fields_def assms(1) map_of_append map_add_def
  show "map_of (audit_entry_of c action details) ''audit'' = Some (Str action)" using none [OF r(1)] by (simp add: e)
  show "map_of (audit_entry_of c action details) ''actor'' = Some (Str (idSubject user))" using none [OF r(2)] by (simp add: e)
  show "map_of (audit_entry_of c action details) ''actor_is_admin'' = Some (Flag (IsAdmin (idClaims user)))"
    using none [OF r(3)] by (simp add: e)
  show "map_of (audit_entry_of c action details) ''actor_api_token'' =
      (if APIToken (clCtx c) \<noteq> [] then Some (Str (APIToken (clCtx c))) else None)" using none [OF r(4)] by (simp add: e)
qed

end
