(* ===== verification/Api.thy ===== *)
theory Api
  imports Audit_Trail Api_Tokens Users_Passkeys Users_TwoFactor Device_Routes
begin

text \<open>
  The API (\<^verbatim>\<open>internal/api\<close>): devices, users, tokens and sessions.  A handler gets the call and the state of the
  server, and gives what the client is told and the state after it.  Messages are records with the fields the
  handlers set; a timestamp of a message is the instant it stands for.  The services always have a manager of
  tokens and of sessions; passwords, the second factor and passkeys exist with a built-in provider only.
\<close>

section \<open>Errors\<close>

datatype code = PermissionDenied | InvalidArgument | NotFound | FailedPrecondition | ResourceExhausted | AlreadyExists | Internal

datatype rpc_error = RpcError code string

type_synonym 'a rpc = "rpc_error + 'a"

definition errNotAuthenticated :: rpc_error where
  "errNotAuthenticated = RpcError PermissionDenied ''not authenticated''"

definition errNotAdmin :: rpc_error where
  "errNotAdmin = RpcError PermissionDenied ''must be an admin''"

definition errTooManyWrongPasswords :: rpc_error where
  "errTooManyWrongPasswords = RpcError ResourceExhausted ''too many wrong passwords: wait a few minutes before you try again''"

definition errNoSecondFactorHere :: rpc_error where
  "errNoSecondFactorHere =
     RpcError FailedPrecondition ''basic auth cannot ask for a second factor: sign in with the password form to set one up''"

definition recoverHandler :: "api_call \<Rightarrow> rpc_error" where
  "recoverHandler c = RpcError Internal (''internal error (trace = '' @ clTrace c @ '')'')"

text \<open>A panic of what a handler calls ends in \<^verbatim>\<open>recoverHandler\<close>; the client sees nothing of any other error but
  that it happened.\<close>

definition internalError :: "api_call \<Rightarrow> string \<Rightarrow> go_error \<Rightarrow> rpc_error" where
  "internalError c what e =
     (case e of
        Panic p \<Rightarrow> recoverHandler c
      | _ \<Rightarrow> RpcError Internal (what @ '' (trace = '' @ clTrace c @ '')''))"

definition deviceError :: "api_call \<Rightarrow> string \<Rightarrow> go_error \<Rightarrow> rpc_error" where
  "deviceError c what e =
     (case as_validation e of
        Some m \<Rightarrow> RpcError InvalidArgument m
      | None \<Rightarrow> internalError c what e)"

section \<open>State\<close>

record 'w server =
  svManager :: "'w manager"
  svWrong :: "(string, wrong_passwords) amap"
  svAudit :: "audit_entry list"

text \<open>What the server was set up with: \<open>svcIssuer\<close> is there when second factors are kept, \<open>svcWebauthn\<close> when
  passkeys are.\<close>

record ('w, 'p) services =
  svcWg :: "'w wireguard"
  svcHostNetworks :: "string option list res"
  svcCodec :: codec
  svcUpper :: "nat \<Rightarrow> nat"
  svcPasswords :: "password_env option"
  svcIssuer :: "string option"
  svcWebauthn :: "('p webauthn \<times> (request \<Rightarrow> string \<times> string)) option"
  svcTokensEnabled :: bool

abbreviation svStore :: "'w server \<Rightarrow> memory" where
  "svStore st \<equiv> storage (svManager st)"

definition on_manager :: "('w manager \<Rightarrow> 'a \<times> 'w manager) \<Rightarrow> 'w server \<Rightarrow> 'a \<times> 'w server" where
  "on_manager f st = (case f (svManager st) of (x, d) \<Rightarrow> (x, st\<lparr>svManager := d\<rparr>))"

definition on_store :: "(memory \<Rightarrow> 'a \<times> memory) \<Rightarrow> 'w server \<Rightarrow> 'a \<times> 'w server" where
  "on_store f st = (case f (svStore st) of (x, s) \<Rightarrow> (x, st\<lparr>svManager := (svManager st)\<lparr>storage := s\<rparr>\<rparr>))"

definition on_accounts :: "(accounts \<Rightarrow> 'a \<times> accounts) \<Rightarrow> 'w server \<Rightarrow> 'a \<times> 'w server" where
  "on_accounts f st =
     (case f \<lparr>acStore = svStore st, acWrong = svWrong st\<rparr> of
        (x, a) \<Rightarrow> (x, st\<lparr>svManager := (svManager st)\<lparr>storage := acStore a\<rparr>, svWrong := acWrong a\<rparr>))"

definition audit_Log :: "api_call \<Rightarrow> string \<Rightarrow> (string \<times> log_field) list \<Rightarrow> 'w server \<Rightarrow> 'w server" where
  "audit_Log c action details st = st\<lparr>svAudit := svAudit st @ [audit_entry_of c action details]\<rparr>"

text \<open>The shape of a handler: a check that may refuse the call, then an operation whose error is translated and whose
  result is answered.\<close>

definition checked :: "'a rpc \<Rightarrow> ('a \<Rightarrow> 's \<Rightarrow> 'b rpc \<times> 's) \<Rightarrow> 's \<Rightarrow> 'b rpc \<times> 's" where
  "checked r f st = (case r of Inl e \<Rightarrow> (Inl e, st) | Inr x \<Rightarrow> f x st)"

definition answer :: "(go_error \<Rightarrow> rpc_error) \<Rightarrow> 'a res \<times> 's \<Rightarrow> ('a \<Rightarrow> 's \<Rightarrow> 'b rpc \<times> 's) \<Rightarrow> 'b rpc \<times> 's" where
  "answer err r k = (case r of (Inl e, st) \<Rightarrow> (Inl (err e), st) | (Inr x, st) \<Rightarrow> k x st)"

section \<open>Who is asking\<close>

definition current_user :: "api_call \<Rightarrow> identity rpc" where
  "current_user c = (case CurrentUser (clCtx c) of Inl e \<Rightarrow> Inl errNotAuthenticated | Inr user \<Rightarrow> Inr user)"

definition admin_user :: "api_call \<Rightarrow> identity rpc" where
  "admin_user c =
     (case current_user c of
        Inl e \<Rightarrow> Inl e
      | Inr user \<Rightarrow> if \<not> IsAdmin (idClaims user) then Inl errNotAdmin else Inr user)"

definition refuseAPIToken :: "api_call \<Rightarrow> unit rpc" where
  "refuseAPIToken c =
     (if APIToken (clCtx c) \<noteq> []
      then Inl (RpcError PermissionDenied ''an API token cannot manage the account: do this in the web UI'')
      else Inr ())"

definition account_user :: "api_call \<Rightarrow> identity rpc" where
  "account_user c =
     (case current_user c of
        Inl e \<Rightarrow> Inl e
      | Inr user \<Rightarrow> (case refuseAPIToken c of Inl e \<Rightarrow> Inl e | Inr _ \<Rightarrow> Inr user))"

text \<open>Whose device a call is about: one's own, or for an admin the one of the owner it names.\<close>

definition device_owner :: "api_call \<Rightarrow> string option \<Rightarrow> string rpc" where
  "device_owner c owner =
     (case current_user c of
        Inl e \<Rightarrow> Inl e
      | Inr user \<Rightarrow>
          (case owner of
             None \<Rightarrow> Inr (idSubject user)
           | Some o' \<Rightarrow> if IsAdmin (idClaims user) then Inr o' else Inl errNotAdmin))"

definition admin_device_owner :: "api_call \<Rightarrow> string option \<Rightarrow> string rpc" where
  "admin_device_owner c owner =
     (case admin_user c of
        Inl e \<Rightarrow> Inl e
      | Inr user \<Rightarrow> Inr (case owner of None \<Rightarrow> idSubject user | Some o' \<Rightarrow> o'))"

section \<open>Devices\<close>

record device_message =
  dmName :: string
  dmOwner :: string
  dmOwnerName :: string
  dmOwnerEmail :: string
  dmOwnerProvider :: string
  dmPublicKey :: string
  dmPresharedKey :: string
  dmAddress :: string
  dmCreatedAt :: "instant option"
  dmLastHandshakeTime :: "instant option"
  dmReceiveBytes :: int64
  dmTransmitBytes :: int64
  dmEndpoint :: string
  dmDisabled :: bool
  dmExpiresAt :: "instant option"
  dmRoutes :: "string list"
  dmConnected :: bool

definition timeToTimestamp :: "instant option \<Rightarrow> instant option" where
  "timeToTimestamp value = (case value of None \<Rightarrow> None | Some t \<Rightarrow> Some t)"

definition mapDevice :: "instant \<Rightarrow> device \<Rightarrow> device_message" where
  "mapDevice now d =
     \<lparr>dmName = devName d, dmOwner = devOwner d, dmOwnerName = devOwnerName d, dmOwnerEmail = devOwnerEmail d,
      dmOwnerProvider = devOwnerProvider d, dmPublicKey = devPublicKey d, dmPresharedKey = devPresharedKey d,
      dmAddress = devAddress d, dmCreatedAt = timeToTimestamp (Some (devCreatedAt d)),
      dmLastHandshakeTime = timeToTimestamp (devLastHandshakeTime d), dmReceiveBytes = devReceiveBytes d,
      dmTransmitBytes = devTransmitBytes d, dmEndpoint = devEndpoint d, dmDisabled = devDisabled d,
      dmExpiresAt = timeToTimestamp (devExpiresAt d), dmRoutes = RouteList d,
      dmConnected = (case devLastHandshakeTime d of None \<Rightarrow> False | Some t \<Rightarrow> IsConnected now t)\<rparr>"

definition mapDevices :: "instant \<Rightarrow> device list \<Rightarrow> device_message list" where
  "mapDevices now ds = map (mapDevice now) ds"

definition api_AddDevice ::
  "('w, 'p) services \<Rightarrow> api_call \<Rightarrow> add_request \<Rightarrow> 'w server \<Rightarrow> device_message rpc \<times> 'w server" where
  "api_AddDevice S c req =
     checked (current_user c) (\<lambda>user st.
       answer (deviceError c ''failed to add device'') (on_manager (AddDevice (svcWg S) (clNow c) user req) st)
         (\<lambda>dev st. (Inr (mapDevice (clNow c) dev),
            audit_Log c ''device.create'' [(''device'', Str (devName dev)), (''owner'', Str (devOwner dev)), (''address'', Str (devAddress dev))] st)))"

definition api_ListDevices :: "api_call \<Rightarrow> 'w server \<Rightarrow> device_message list rpc \<times> 'w server" where
  "api_ListDevices c =
     checked (current_user c) (\<lambda>user st. (Inr (mapDevices (clNow c) (List_devices (idSubject user) (svStore st))), st))"

definition api_DeleteDevice ::
  "('w, 'p) services \<Rightarrow> api_call \<Rightarrow> string option \<Rightarrow> string \<Rightarrow> 'w server \<Rightarrow> unit rpc \<times> 'w server" where
  "api_DeleteDevice S c owner name =
     checked (device_owner c owner) (\<lambda>deviceOwner st.
       answer (deviceError c ''failed to delete device'') (on_manager (DeleteDevice (svcWg S) (clNow c) deviceOwner name) st)
         (\<lambda>_ st. (Inr (), audit_Log c ''device.delete'' [(''device'', Str name), (''owner'', Str deviceOwner)] st)))"

definition api_RenameDevice ::
  "('w, 'p) services \<Rightarrow> api_call \<Rightarrow> string option \<Rightarrow> string \<Rightarrow> string \<Rightarrow> 'w server \<Rightarrow> device_message rpc \<times> 'w server" where
  "api_RenameDevice S c owner name newName =
     checked (device_owner c owner) (\<lambda>deviceOwner st.
       answer (deviceError c ''failed to rename device'') (on_manager (RenameDevice (svcWg S) (clNow c) deviceOwner name newName) st)
         (\<lambda>dev st. (Inr (mapDevice (clNow c) dev),
            audit_Log c ''device.rename'' [(''device'', Str newName), (''previous'', Str name), (''owner'', Str deviceOwner)] st)))"

definition api_RotateDeviceKey ::
  "('w, 'p) services \<Rightarrow> api_call \<Rightarrow> string \<Rightarrow> string \<Rightarrow> string \<Rightarrow> 'w server \<Rightarrow> device_message rpc \<times> 'w server" where
  "api_RotateDeviceKey S c name publicKey presharedKey =
     checked (current_user c) (\<lambda>user st.
       answer (deviceError c ''failed to change the keys of the device'')
         (on_manager (RotateDeviceKey (svcWg S) (clNow c) (idSubject user) name publicKey presharedKey) st)
         (\<lambda>dev st. (Inr (mapDevice (clNow c) dev),
            audit_Log c ''device.rotate'' [(''device'', Str (devName dev)), (''owner'', Str (devOwner dev))] st)))"

definition api_SetDeviceAccess ::
  "('w, 'p) services \<Rightarrow> api_call \<Rightarrow> string option \<Rightarrow> string \<Rightarrow> access_change \<Rightarrow> 'w server \<Rightarrow> device_message rpc \<times> 'w server" where
  "api_SetDeviceAccess S c owner name change =
     checked (admin_device_owner c owner) (\<lambda>deviceOwner st.
       answer (deviceError c ''failed to change the access of the device'')
         (on_manager (SetDeviceAccess (svcWg S) (clNow c) deviceOwner name change) st)
         (\<lambda>dev st. (Inr (mapDevice (clNow c) dev),
            audit_Log c ''device.access'' ([(''device'', Str (devName dev)), (''owner'', Str (devOwner dev)), (''disabled'', Flag (devDisabled dev))] @
              (case devExpiresAt dev of None \<Rightarrow> [] | Some t \<Rightarrow> [(''expires_at'', Time t)])) st)))"

definition api_SetDeviceRoutes ::
  "('w, 'p) services \<Rightarrow> api_call \<Rightarrow> string option \<Rightarrow> string \<Rightarrow> string list \<Rightarrow> 'w server \<Rightarrow> device_message rpc \<times> 'w server" where
  "api_SetDeviceRoutes S c owner name routes =
     checked (admin_device_owner c owner) (\<lambda>deviceOwner st.
       answer (deviceError c ''failed to change the routes of the device'')
         (on_manager (SetDeviceRoutes (svcWg S) (clNow c) (svcHostNetworks S) deviceOwner name routes) st)
         (\<lambda>dev st. (Inr (mapDevice (clNow c) dev),
            audit_Log c ''device.routes'' [(''device'', Str (devName dev)), (''owner'', Str (devOwner dev)), (''routes'', Str (devRoutes dev))] st)))"

definition api_ListAllDevices :: "api_call \<Rightarrow> 'w server \<Rightarrow> device_message list rpc \<times> 'w server" where
  "api_ListAllDevices c =
     checked (admin_user c) (\<lambda>user st. (Inr (mapDevices (clNow c) (ListAllDevices (svStore st))), st))"

section \<open>Tokens\<close>

record token_message =
  tmID :: string
  tmName :: string
  tmOwner :: string
  tmOwnerName :: string
  tmCreatedAt :: "instant option"
  tmExpiresAt :: "instant option"
  tmLastUsedAt :: "instant option"

definition mapToken :: "codec \<Rightarrow> api_token \<Rightarrow> token_message" where
  "mapToken J t =
     \<lparr>tmID = tokID t, tmName = tokName t, tmOwner = tokOwner t,
      tmOwnerName = (case unmarshal J (tokIdentity t) of Inl e \<Rightarrow> [] | Inr identity \<Rightarrow> idName identity),
      tmCreatedAt = timeToTimestamp (Some (tokCreatedAt t)), tmExpiresAt = timeToTimestamp (tokExpiresAt t),
      tmLastUsedAt = timeToTimestamp (tokLastUsedAt t)\<rparr>"

definition mapTokens :: "codec \<Rightarrow> api_token list \<Rightarrow> token_message list" where
  "mapTokens J ts = map (mapToken J) ts"

definition token_user :: "('w, 'p) services \<Rightarrow> api_call \<Rightarrow> identity rpc" where
  "token_user S c =
     (if \<not> svcTokensEnabled S then Inl (RpcError FailedPrecondition ''API tokens are disabled on this server'')
      else current_user c)"

definition tokenError :: "api_call \<Rightarrow> go_error \<Rightarrow> rpc_error" where
  "tokenError c e =
     (case as_validation e of
        Some m \<Rightarrow> RpcError InvalidArgument m
      | None \<Rightarrow> internalError c ''failed to create token'' e)"

definition api_CreateToken ::
  "('w, 'p) services \<Rightarrow> api_call \<Rightarrow> string \<Rightarrow> instant option \<Rightarrow> 'w server \<Rightarrow> (token_message \<times> string) rpc \<times> 'w server" where
  "api_CreateToken S c name expiresAt =
     checked (token_user S c) (\<lambda>user st.
       if APIToken (clCtx c) \<noteq> [] then (Inl (RpcError PermissionDenied ''tokens can only be created in the web UI''), st)
       else answer (tokenError c)
         (on_store (token_Create (svcCodec S) (clRand c 0) (clRand c 1) user name expiresAt (clNow c)) st)
         (\<lambda>(secret, token) st. (Inr (mapToken (svcCodec S) token, secret),
            audit_Log c ''api_token.create'' ([(''token'', Str (tokID token)), (''token_name'', Str (tokName token))] @
              (case tokExpiresAt token of None \<Rightarrow> [] | Some t \<Rightarrow> [(''expires_at'', Time t)])) st)))"

definition api_ListTokens :: "('w, 'p) services \<Rightarrow> api_call \<Rightarrow> 'w server \<Rightarrow> token_message list rpc \<times> 'w server" where
  "api_ListTokens S c =
     checked (token_user S c) (\<lambda>user st. (Inr (mapTokens (svcCodec S) (token_List (idSubject user) (svStore st))), st))"

definition api_DeleteToken :: "('w, 'p) services \<Rightarrow> api_call \<Rightarrow> string \<Rightarrow> 'w server \<Rightarrow> unit rpc \<times> 'w server" where
  "api_DeleteToken S c i =
     checked (token_user S c) (\<lambda>user st.
       answer (\<lambda>e. if err_is e ErrTokenNotFound then RpcError NotFound ''no such token'' else internalError c ''failed to delete token'' e)
         (on_store (token_Delete user i) st)
         (\<lambda>token st. (Inr (),
            audit_Log c ''api_token.delete'' [(''token'', Str (tokID token)), (''token_name'', Str (tokName token)), (''owner'', Str (tokOwner token))] st)))"

definition api_ListAllTokens :: "('w, 'p) services \<Rightarrow> api_call \<Rightarrow> 'w server \<Rightarrow> token_message list rpc \<times> 'w server" where
  "api_ListAllTokens S c =
     checked (token_user S c) (\<lambda>user st.
       if \<not> IsAdmin (idClaims user) then (Inl errNotAdmin, st)
       else (Inr (mapTokens (svcCodec S) (token_List [] (svStore st))), st))"

section \<open>Sessions\<close>

record session_message =
  smID :: string
  smUserAgent :: string
  smRemoteAddr :: string
  smCreatedAt :: "instant option"
  smLastSeenAt :: "instant option"
  smExpiresAt :: "instant option"
  smCurrent :: bool

definition mapSession :: "string \<Rightarrow> session \<Rightarrow> session_message" where
  "mapSession current x =
     \<lparr>smID = sesID x, smUserAgent = sesUserAgent x, smRemoteAddr = sesRemoteAddr x,
      smCreatedAt = timeToTimestamp (Some (sesCreatedAt x)), smLastSeenAt = timeToTimestamp (Some (sesLastSeenAt x)),
      smExpiresAt = timeToTimestamp (Some (sesExpiresAt x)), smCurrent = (sesID x = current)\<rparr>"

definition mapSessions :: "session list \<Rightarrow> string \<Rightarrow> session_message list" where
  "mapSessions xs current = map (mapSession current) xs"

text \<open>The session a call came with, as it is stored.\<close>

definition currentID :: "api_call \<Rightarrow> 'w server \<Rightarrow> string" where
  "currentID c st = (case session_Find (CurrentSessionID (clCtx c)) (svStore st) of Inl e \<Rightarrow> [] | Inr x \<Rightarrow> sesID x)"

definition api_ListSessions :: "api_call \<Rightarrow> 'w server \<Rightarrow> session_message list rpc \<times> 'w server" where
  "api_ListSessions c =
     checked (current_user c) (\<lambda>user st. (Inr (mapSessions (session_List (idSubject user) (svStore st)) (currentID c st)), st))"

definition api_DeleteSession :: "api_call \<Rightarrow> string \<Rightarrow> 'w server \<Rightarrow> unit rpc \<times> 'w server" where
  "api_DeleteSession c i =
     checked (account_user c) (\<lambda>user st.
       answer (\<lambda>e. if err_is e ErrSessionInvalid then RpcError NotFound ''session not found'' else internalError c ''failed to end the session'' e)
         (on_store (session_Delete (idSubject user) i) st)
         (\<lambda>_ st. (Inr (), audit_Log c ''session.delete'' [(''session'', Str i)] st)))"

type_synonym int32 = "32 word"

definition api_DeleteOtherSessions :: "api_call \<Rightarrow> 'w server \<Rightarrow> int32 rpc \<times> 'w server" where
  "api_DeleteOtherSessions c =
     checked (account_user c) (\<lambda>user st.
       (let current = currentID c st in
        if current = [] then (Inl (RpcError FailedPrecondition ''this needs a browser session: there is none to keep''), st)
        else answer (internalError c ''failed to end the sessions'') (on_store (EndOthers (idSubject user) current) st)
          (\<lambda>ended st. (Inr (of_nat ended),
             audit_Log c ''session.delete'' [(''sessions'', Num (int ended)), (''reason'', Str ''all others'')] st))))"

section \<open>Users\<close>

record user_message =
  umName :: string
  umDisplayName :: string
  umLastLogin :: "instant option"
  umPolicies :: "string list"
  umTwoFactor :: bool

definition mapUser :: "listed_user \<Rightarrow> user_message" where
  "mapUser u =
     \<lparr>umName = luName u, umDisplayName = luDisplayName u, umLastLogin = timeToTimestamp (luLastLogin u),
      umPolicies = luPolicies u, umTwoFactor = luTwoFactor u\<rparr>"

definition mapUsers :: "listed_user list \<Rightarrow> user_message list" where
  "mapUsers us = map mapUser us"

definition api_ListUsers :: "api_call \<Rightarrow> 'w server \<Rightarrow> user_message list rpc \<times> 'w server" where
  "api_ListUsers c = checked (admin_user c) (\<lambda>user st. (Inr (mapUsers (ListUsers (svStore st))), st))"

definition api_DeleteUser :: "('w, 'p) services \<Rightarrow> api_call \<Rightarrow> string \<Rightarrow> 'w server \<Rightarrow> unit rpc \<times> 'w server" where
  "api_DeleteUser S c name =
     checked (admin_user c) (\<lambda>user st.
       (let err = internalError c ''failed to delete user'' in
        answer err (on_store (token_DeleteForOwner name) st) (\<lambda>_ st.
        answer err (on_store (EndAllForOwner name) st) (\<lambda>_ st.
        answer err (on_manager (DeleteDevicesForUser (svcWg S) (clNow c) name) st) (\<lambda>_ st.
        answer err (on_manager (ForgetUser (svcWg S) (clNow c) name) st) (\<lambda>_ st.
          (Inr (), audit_Log c ''user.delete'' [(''target_user'', Str name)] st)))))))"

record revoke_message =
  rmDevicesBlocked :: int32
  rmTokensDeleted :: int32
  rmSessionsEnded :: int32

definition api_RevokeAccess ::
  "('w, 'p) services \<Rightarrow> api_call \<Rightarrow> string \<Rightarrow> 'w server \<Rightarrow> revoke_message rpc \<times> 'w server" where
  "api_RevokeAccess S c name =
     checked (admin_user c) (\<lambda>user st.
       if name = idSubject user then
         (Inl (RpcError FailedPrecondition ''this would take your own access away: block your devices and sign out instead''), st)
       else
         (let err = internalError c ''failed to revoke the access of the user'' in
          answer err (on_store (token_DeleteForOwner name) st) (\<lambda>deleted st.
          answer err (on_store (EndAllForOwner name) st) (\<lambda>ended st.
          answer err (on_manager (BlockDevicesForUser (svcWg S) (clNow c) name) st) (\<lambda>blocked st.
            (Inr \<lparr>rmDevicesBlocked = of_nat blocked, rmTokensDeleted = of_nat deleted, rmSessionsEnded = of_nat ended\<rparr>,
             audit_Log c ''user.revoke'' [(''target_user'', Str name), (''devices_blocked'', Num (sint (of_nat blocked :: int32))),
               (''tokens_deleted'', Num (sint (of_nat deleted :: int32))), (''sessions_ended'', Num (sint (of_nat ended :: int32)))] st))))))"

end
