(* ===== verification/Api_Account.thy ===== *)
theory Api_Account
  imports Api
begin

text \<open>
  The part of the API that is about one's own account (\<^verbatim>\<open>internal/api/user_service.go\<close>): the password, the second
  factor and the passkeys, and the reset of a second factor by an admin.  An error that carries the text of a
  sentinel has it written out; the operations return those sentinels as they are.
\<close>

section \<open>The password\<close>

definition minPasswordLength :: nat where "minPasswordLength = 10"

text \<open>The other sessions and all tokens go, the session that asks stays.  A failure would only be logged; the
  count of a loop that failed is taken as none, which the in-memory storage never does.\<close>

definition signOutElsewhere :: "api_call \<Rightarrow> string \<Rightarrow> 'w server \<Rightarrow> (nat \<times> nat) \<times> 'w server" where
  "signOutElsewhere c subject st =
     (case on_store (EndOthers subject (currentID c st)) st of
        (ended, st) \<Rightarrow>
          (case on_store (token_DeleteForOwner subject) st of
             (deleted, st) \<Rightarrow> ((case_sum (\<lambda>_. 0) id ended, case_sum (\<lambda>_. 0) id deleted), st)))"

definition changeError :: "api_call \<Rightarrow> go_error \<Rightarrow> rpc_error" where
  "changeError c e =
     (if err_is e ErrTooManyAttempts then errTooManyWrongPasswords
      else if err_is e ErrWrongPassword then RpcError PermissionDenied ''that is not your current password''
      else if err_is e ErrNoPasswordHere then RpcError FailedPrecondition ''this account is not one the server keeps a password for''
      else internalError c ''failed to change the password'' e)"

definition api_ChangePassword ::
  "('w, 'p) services \<Rightarrow> api_call \<Rightarrow> string \<Rightarrow> string \<Rightarrow> 'w server \<Rightarrow> int32 rpc \<times> 'w server" where
  "api_ChangePassword S c current new =
     checked (account_user c) (\<lambda>user st.
       (case svcPasswords S of
          None \<Rightarrow> (Inl (RpcError FailedPrecondition ''this account's password is not kept here: change it where you sign in''), st)
        | Some env \<Rightarrow>
            if \<not> HasPassword (idProvider user) then
              (Inl (RpcError FailedPrecondition ''this account's password is not kept here: change it where you sign in''), st)
            else if length new < minPasswordLength then
              (Inl (RpcError InvalidArgument (''the new password has to be at least '' @ itoa minPasswordLength @ '' characters'')), st)
            else answer (changeError c) (on_accounts (Change env (idSubject user) current new (clNow c)) st) (\<lambda>_ st.
              (case signOutElsewhere c (idSubject user) st of
                 ((ended, deleted), st) \<Rightarrow>
                   (Inr (of_nat ended),
                    audit_Log c ''user.password'' [(''sessions_ended'', Num (int ended)), (''tokens_deleted'', Num (int deleted))] st)))))"

section \<open>The second factor\<close>

text \<open>The user whose second factor a call is about, and the issuer its codes are listed under.\<close>

definition twoFactorFor :: "('w, 'p) services \<Rightarrow> api_call \<Rightarrow> (identity \<times> string) rpc" where
  "twoFactorFor S c =
     (case account_user c of
        Inl e \<Rightarrow> Inl e
      | Inr user \<Rightarrow>
          (let nowhere = Inl (RpcError FailedPrecondition
             ''this account signs in through an identity provider: set up a second factor there'') in
           case svcIssuer S of
             None \<Rightarrow> nowhere
           | Some issuer \<Rightarrow>
               if \<not> HasPassword (idProvider user) then nowhere
               else if idProvider user \<noteq> SimpleAuthProvider then Inl errNoSecondFactorHere
               else Inr (user, issuer)))"

definition api_StartTwoFactor :: "('w, 'p) services \<Rightarrow> api_call \<Rightarrow> 'w server \<Rightarrow> (string \<times> string) rpc \<times> 'w server" where
  "api_StartTwoFactor S c =
     checked (twoFactorFor S c) (\<lambda>(user, issuer) st.
       answer (\<lambda>e. if err_is e ErrTwoFactorSet
           then RpcError FailedPrecondition ''this account already has a second factor: turn it off first''
           else internalError c ''failed to start the two-factor setup'' e)
         (on_store (Start (clRand c 0) issuer (idSubject user) (if idName user = [] then idSubject user else idName user)) st)
         (\<lambda>res st. (Inr res, st)))"

definition confirmError :: "api_call \<Rightarrow> go_error \<Rightarrow> rpc_error" where
  "confirmError c e =
     (if err_is e ErrWrongCode then RpcError InvalidArgument ''that code is not right''
      else if err_is e ErrNoTwoFactor then RpcError FailedPrecondition ''start the setup first''
      else if err_is e ErrTwoFactorSet then RpcError FailedPrecondition ''this account already has a second factor''
      else internalError c ''failed to turn the second factor on'' e)"

definition api_ConfirmTwoFactor ::
  "('w, 'p) services \<Rightarrow> api_call \<Rightarrow> string \<Rightarrow> 'w server \<Rightarrow> string list rpc \<times> 'w server" where
  "api_ConfirmTwoFactor S c code =
     checked (twoFactorFor S c) (\<lambda>(user, issuer) st.
       answer (confirmError c) (on_store (Confirm (svcUpper S) (clRand c) (idSubject user) code (clNow c)) st) (\<lambda>codes st.
         (case signOutElsewhere c (idSubject user) st of
            ((ended, deleted), st) \<Rightarrow>
              (Inr codes,
               audit_Log c ''user.two_factor'' [(''enabled'', Flag True), (''sessions_ended'', Num (int ended)), (''tokens_deleted'', Num (int deleted))] st))))"

definition api_DisableTwoFactor :: "('w, 'p) services \<Rightarrow> api_call \<Rightarrow> string \<Rightarrow> 'w server \<Rightarrow> unit rpc \<times> 'w server" where
  "api_DisableTwoFactor S c password =
     checked (twoFactorFor S c) (\<lambda>(user, issuer) st.
       answer (\<lambda>e. if err_is e ErrTooManyAttempts then errTooManyWrongPasswords
           else if err_is e ErrWrongPassword then RpcError PermissionDenied ''that is not your password''
           else internalError c ''failed to turn the second factor off'' e)
         (on_accounts (Disable (svcPasswords S) (idSubject user) password (clNow c)) st)
         (\<lambda>_ st. (Inr (), audit_Log c ''user.two_factor'' [(''enabled'', Flag False)] st)))"

definition api_ResetTwoFactor :: "('w, 'p) services \<Rightarrow> api_call \<Rightarrow> string \<Rightarrow> 'w server \<Rightarrow> unit rpc \<times> 'w server" where
  "api_ResetTwoFactor S c name =
     checked (admin_user c) (\<lambda>user st.
       if svcIssuer S = None then (Inl (RpcError FailedPrecondition ''this server keeps no second factors''), st)
       else answer (\<lambda>e. if err_is e ErrNoTwoFactor \<or> err_is e ErrNoPasswordHere then RpcError NotFound ''this user has no second factor''
           else internalError c ''failed to remove the second factor'' e)
         (on_store (Reset name) st)
         (\<lambda>_ st. (Inr (), audit_Log c ''user.two_factor_reset'' [(''target_user'', Str name)] st)))"

definition recoveryError :: "api_call \<Rightarrow> go_error \<Rightarrow> rpc_error" where
  "recoveryError c e =
     (if err_is e ErrNoTwoFactor
      then RpcError FailedPrecondition ''this account has no authenticator app set up, so it has no recovery codes''
      else if err_is e ErrTooManyAttempts then errTooManyWrongPasswords
      else if err_is e ErrWrongPassword then RpcError PermissionDenied ''that is not your password''
      else if err_is e ErrNoPasswordHere then RpcError FailedPrecondition ''no password is kept here for this account''
      else internalError c ''failed to replace the recovery codes'' e)"

definition api_NewRecoveryCodes ::
  "('w, 'p) services \<Rightarrow> api_call \<Rightarrow> string \<Rightarrow> 'w server \<Rightarrow> string list rpc \<times> 'w server" where
  "api_NewRecoveryCodes S c password =
     checked (twoFactorFor S c) (\<lambda>(user, issuer) st.
       (let left = RecoveryCodesLeft (idSubject user) (svStore st) in
        answer (recoveryError c)
          (on_accounts (ReplaceRecoveryCodes (svcUpper S) (clRand c) (svcPasswords S) (idSubject user) password (clNow c)) st)
          (\<lambda>codes st. (Inr codes, audit_Log c ''user.recovery_codes'' [(''codes_left_before'', Num (int left))] st))))"

section \<open>Passkeys\<close>

definition passkeysFor :: "('w, 'p) services \<Rightarrow> api_call \<Rightarrow> (identity \<times> 'p webauthn \<times> (request \<Rightarrow> string \<times> string)) rpc" where
  "passkeysFor S c =
     (case current_user c of
        Inl e \<Rightarrow> Inl e
      | Inr user \<Rightarrow>
          (let nowhere = Inl (RpcError FailedPrecondition
             ''this account signs in through an identity provider: its passkeys belong there'') in
           case svcWebauthn S of
             None \<Rightarrow> nowhere
           | Some (W, party) \<Rightarrow>
               if \<not> HasPassword (idProvider user) then nowhere
               else if idProvider user \<noteq> SimpleAuthProvider then Inl errNoSecondFactorHere
               else Inr (user, W, party)))"

text \<open>Changing passkeys is refused to tokens, listing them is not.\<close>

definition own_passkeys :: "('w, 'p) services \<Rightarrow> api_call \<Rightarrow> (identity \<times> 'p webauthn \<times> (request \<Rightarrow> string \<times> string)) rpc" where
  "own_passkeys S c =
     (case passkeysFor S c of
        Inl e \<Rightarrow> Inl e
      | Inr x \<Rightarrow> (case refuseAPIToken c of Inl e \<Rightarrow> Inl e | Inr _ \<Rightarrow> Inr x))"

record passkey_message =
  pmID :: string
  pmName :: string
  pmCreatedAt :: "instant option"
  pmLastUsedAt :: "instant option"

definition passkey_message_of :: "passkey \<Rightarrow> passkey_message" where
  "passkey_message_of p =
     \<lparr>pmID = pkID p, pmName = pkName p, pmCreatedAt = timeToTimestamp (Some (pkCreatedAt p)),
      pmLastUsedAt = timeToTimestamp (pkLastUsedAt p)\<rparr>"

definition api_ListPasskeys :: "('w, 'p) services \<Rightarrow> api_call \<Rightarrow> 'w server \<Rightarrow> passkey_message list rpc \<times> 'w server" where
  "api_ListPasskeys S c =
     checked (passkeysFor S c) (\<lambda>(user, W, party) st.
       (Inr (map passkey_message_of (ListPasskeys (idSubject user) (svStore st))), st))"

definition api_BeginPasskey :: "('w, 'p) services \<Rightarrow> api_call \<Rightarrow> 'w server \<Rightarrow> string rpc \<times> 'w server" where
  "api_BeginPasskey S c =
     checked (own_passkeys S c) (\<lambda>(user, W, party) st.
       answer (internalError c ''failed to start the passkey registration'')
         (on_store (BeginRegistration W (party (clRequest c)) (idSubject user) (clNow c)) st)
         (\<lambda>options st. (Inr options, st)))"

definition finishError :: "api_call \<Rightarrow> go_error \<Rightarrow> rpc_error" where
  "finishError c e =
     (if err_is e ErrNoChallenge then RpcError FailedPrecondition ''this passkey exchange has expired: start again''
      else if err_is e ErrPasskeyTaken then RpcError AlreadyExists ''this passkey is already registered''
      else case e of Panic p \<Rightarrow> recoverHandler c | _ \<Rightarrow> RpcError InvalidArgument ''that passkey was not accepted'')"

definition api_FinishPasskey ::
  "('w, 'p) services \<Rightarrow> api_call \<Rightarrow> string \<Rightarrow> string \<Rightarrow> 'w server \<Rightarrow> passkey_message rpc \<times> 'w server" where
  "api_FinishPasskey S c name credential =
     checked (own_passkeys S c) (\<lambda>(user, W, party) st.
       (let first = \<not> Passkeys_Has (idSubject user) (svStore st) in
        answer (finishError c)
          (on_store (FinishRegistration W (party (clRequest c)) (idSubject user) name credential (clNow c)) st)
          (\<lambda>p st.
             (case (if first then
                 (case signOutElsewhere c (idSubject user) st of
                    ((ended, deleted), st) \<Rightarrow> ([(''sessions_ended'', Num (int ended)), (''tokens_deleted'', Num (int deleted))], st))
               else ([], st)) of
                (details, st) \<Rightarrow>
                  (Inr \<lparr>pmID = pkID p, pmName = pkName p, pmCreatedAt = timeToTimestamp (Some (pkCreatedAt p)), pmLastUsedAt = None\<rparr>,
                   audit_Log c ''user.passkey_add'' ((''passkey'', Str (pkName p)) # details) st)))))"

definition passkeyError :: "api_call \<Rightarrow> string \<Rightarrow> go_error \<Rightarrow> rpc_error" where
  "passkeyError c what e = (if err_is e ErrNoPasskey then RpcError NotFound ''no such passkey'' else internalError c what e)"

definition api_RenamePasskey ::
  "('w, 'p) services \<Rightarrow> api_call \<Rightarrow> string \<Rightarrow> string \<Rightarrow> 'w server \<Rightarrow> passkey_message rpc \<times> 'w server" where
  "api_RenamePasskey S c i name =
     checked (own_passkeys S c) (\<lambda>(user, W, party) st.
       answer (passkeyError c ''failed to rename the passkey'') (on_store (Passkeys_Rename (idSubject user) i name) st)
         (\<lambda>p st. (Inr (passkey_message_of p), audit_Log c ''user.passkey_rename'' [(''passkey'', Str (pkName p))] st)))"

definition api_DeletePasskey :: "('w, 'p) services \<Rightarrow> api_call \<Rightarrow> string \<Rightarrow> 'w server \<Rightarrow> unit rpc \<times> 'w server" where
  "api_DeletePasskey S c i =
     checked (own_passkeys S c) (\<lambda>(user, W, party) st.
       answer (passkeyError c ''failed to delete the passkey'') (on_store (Passkeys_Delete (idSubject user) i) st)
         (\<lambda>_ st. (Inr (), audit_Log c ''user.passkey_delete'' [(''passkey'', Str i)] st)))"

section \<open>All calls\<close>

text \<open>One call of the API, for what it does to the state; \<open>call_result\<close> forgets what the message holds.\<close>

datatype api_request =
    RqAddDevice add_request | RqListDevices | RqDeleteDevice "string option" string
  | RqRenameDevice "string option" string string | RqRotateDeviceKey string string string
  | RqSetDeviceAccess "string option" string access_change | RqSetDeviceRoutes "string option" string "string list"
  | RqListAllDevices
  | RqCreateToken string "instant option" | RqListTokens | RqDeleteToken string | RqListAllTokens
  | RqListSessions | RqDeleteSession string | RqDeleteOtherSessions
  | RqListUsers | RqDeleteUser string | RqRevokeAccess string
  | RqChangePassword string string | RqStartTwoFactor | RqConfirmTwoFactor string | RqDisableTwoFactor string
  | RqResetTwoFactor string | RqNewRecoveryCodes string
  | RqListPasskeys | RqBeginPasskey | RqFinishPasskey string string | RqRenamePasskey string string | RqDeletePasskey string

definition call_result :: "'a rpc \<times> 's \<Rightarrow> unit rpc \<times> 's" where
  "call_result r = map_prod (map_sum id (\<lambda>_. ())) id r"

fun api_serve :: "('w, 'p) services \<Rightarrow> api_call \<Rightarrow> api_request \<Rightarrow> 'w server \<Rightarrow> unit rpc \<times> 'w server" where
  "api_serve S c (RqAddDevice req) st = call_result (api_AddDevice S c req st)"
| "api_serve S c RqListDevices st = call_result (api_ListDevices c st)"
| "api_serve S c (RqDeleteDevice owner name) st = call_result (api_DeleteDevice S c owner name st)"
| "api_serve S c (RqRenameDevice owner name new) st = call_result (api_RenameDevice S c owner name new st)"
| "api_serve S c (RqRotateDeviceKey name pub psk) st = call_result (api_RotateDeviceKey S c name pub psk st)"
| "api_serve S c (RqSetDeviceAccess owner name change) st = call_result (api_SetDeviceAccess S c owner name change st)"
| "api_serve S c (RqSetDeviceRoutes owner name routes) st = call_result (api_SetDeviceRoutes S c owner name routes st)"
| "api_serve S c RqListAllDevices st = call_result (api_ListAllDevices c st)"
| "api_serve S c (RqCreateToken name expiresAt) st = call_result (api_CreateToken S c name expiresAt st)"
| "api_serve S c RqListTokens st = call_result (api_ListTokens S c st)"
| "api_serve S c (RqDeleteToken i) st = call_result (api_DeleteToken S c i st)"
| "api_serve S c RqListAllTokens st = call_result (api_ListAllTokens S c st)"
| "api_serve S c RqListSessions st = call_result (api_ListSessions c st)"
| "api_serve S c (RqDeleteSession i) st = call_result (api_DeleteSession c i st)"
| "api_serve S c RqDeleteOtherSessions st = call_result (api_DeleteOtherSessions c st)"
| "api_serve S c RqListUsers st = call_result (api_ListUsers c st)"
| "api_serve S c (RqDeleteUser name) st = call_result (api_DeleteUser S c name st)"
| "api_serve S c (RqRevokeAccess name) st = call_result (api_RevokeAccess S c name st)"
| "api_serve S c (RqChangePassword current new) st = call_result (api_ChangePassword S c current new st)"
| "api_serve S c RqStartTwoFactor st = call_result (api_StartTwoFactor S c st)"
| "api_serve S c (RqConfirmTwoFactor code) st = call_result (api_ConfirmTwoFactor S c code st)"
| "api_serve S c (RqDisableTwoFactor password) st = call_result (api_DisableTwoFactor S c password st)"
| "api_serve S c (RqResetTwoFactor name) st = call_result (api_ResetTwoFactor S c name st)"
| "api_serve S c (RqNewRecoveryCodes password) st = call_result (api_NewRecoveryCodes S c password st)"
| "api_serve S c RqListPasskeys st = call_result (api_ListPasskeys S c st)"
| "api_serve S c RqBeginPasskey st = call_result (api_BeginPasskey S c st)"
| "api_serve S c (RqFinishPasskey name credential) st = call_result (api_FinishPasskey S c name credential st)"
| "api_serve S c (RqRenamePasskey i name) st = call_result (api_RenamePasskey S c i name st)"
| "api_serve S c (RqDeletePasskey i) st = call_result (api_DeletePasskey S c i st)"

end
