(* ===== verification/Api_Laws.thy ===== *)
theory Api_Laws
  imports Api_Account Device_Invariants
begin

text \<open>
  What calls of the API leave alone.  A relation between states that is reflexive and transitive carries through a
  handler when it carries through its operations (the locale \<open>state_relation\<close>); the relation here is that
  everything which is not one user's stays as it is.
\<close>

section \<open>Relations that carry through a handler\<close>

locale state_relation =
  fixes R :: "'s \<Rightarrow> 's \<Rightarrow> bool"
  assumes refl: "R s s"
    and trans: "R s t \<Longrightarrow> R t u \<Longrightarrow> R s u"
begin

lemma through_checked: "(\<And>x. r = Inr x \<Longrightarrow> R st (snd (f x st))) \<Longrightarrow> R st (snd (checked r f st))"
  by (cases r) (simp_all add: checked_def refl)

lemma through_answer:
  assumes "R st (snd r)" "\<And>x st'. r = (Inr x, st') \<Longrightarrow> R st' (snd (k x st'))"
  shows "R st (snd (answer err r k))"
proof (cases r)
  case (Pair a st')
  then show ?thesis using assms trans by (cases a) (auto simp: answer_def)
qed

end

section \<open>What belongs to others\<close>

definition unseen :: "('v \<Rightarrow> bool) \<Rightarrow> ('k, 'v) amap \<Rightarrow> 'k \<Rightarrow> 'v option" where
  "unseen p m i = Option.bind (map_of m i) (\<lambda>x. if p x then None else Some x)"

lemma unseen_update:
  "(\<And>x. map_of m k = Some x \<Longrightarrow> p x) \<Longrightarrow> p v \<Longrightarrow> unseen p (AList.update k v m) = unseen p m"
  by (rule ext) (auto simp: unseen_def update_conv' bind_eq_None_conv split: bind_splits if_splits)

lemma unseen_delete:
  "(\<And>x. map_of m k = Some x \<Longrightarrow> p x) \<Longrightarrow> unseen p (AList.delete k m) = unseen p m"
  by (rule ext) (auto simp: unseen_def delete_conv' split: bind_splits if_splits)

lemma unseen_filter:
  assumes "amap_ok m" "\<And>k x. (k, x) \<in> set m \<Longrightarrow> \<not> Q (k, x) \<Longrightarrow> p x"
  shows "unseen p (filter Q m) = unseen p m"
proof (rule ext)
  fix i
  have d: "distinct (map fst m)" "distinct (map fst (filter Q m))"
    using assms(1) by (auto simp: amap_ok_def distinct_map_filter)
  show "unseen p (filter Q m) i = unseen p m i"
  proof (cases "map_of m i")
    case None
    moreover from this have "map_of (filter Q m) i = None" by (force simp: map_of_eq_None_iff)
    ultimately show ?thesis by (simp add: unseen_def)
  next
    case (Some x)
    then have "(i, x) \<in> set m" by (rule map_of_SomeD)
    moreover have "map_of (filter Q m) i = (if Q (i, x) then Some x else None)"
    proof (cases "Q (i, x)")
      case False
      then show ?thesis using eq_key_imp_eq_value [OF d(1) _ \<open>(i, x) \<in> set m\<close>] by (auto simp: map_of_eq_None_iff)
    qed (use d(2) \<open>(i, x) \<in> set m\<close> in simp)
    ultimately show ?thesis using assms(2) Some by (auto simp: unseen_def)
  qed
qed

text \<open>Everything in the storage that is not of user \<open>u\<close>.\<close>

definition others ::
  "string \<Rightarrow> memory \<Rightarrow> (dev_key \<Rightarrow> device option) \<times> (string \<Rightarrow> user option) \<times> (string \<Rightarrow> api_token option) \<times>
     (string \<Rightarrow> session option) \<times> (string \<Rightarrow> passkey option)" where
  "others u s =
     (unseen (\<lambda>d. devOwner d = u) (db s), unseen (\<lambda>x. usrSubject x = u) (users s), unseen (\<lambda>t. tokOwner t = u) (tokens s),
      unseen (\<lambda>x. sesOwner x = u) (sessions s), unseen (\<lambda>p. pkOwner p = u) (passkeys s))"

definition keeps_others :: "string \<Rightarrow> memory \<Rightarrow> memory \<Rightarrow> bool" where
  "keeps_others u s t \<longleftrightarrow> (store_ok s \<longrightarrow> store_ok t \<and> others u t = others u s)"

lemma keeps_others_refl [simp]: "keeps_others u s s"
  by (simp add: keeps_others_def)

lemma keeps_others_trans: "keeps_others u s t \<Longrightarrow> keeps_others u t r \<Longrightarrow> keeps_others u s r"
  by (simp add: keeps_others_def)

lemma store_ok_emitted [simp]: "store_ok (s\<lparr>emitted := es\<rparr>) = store_ok s"
  by (simp add: store_ok_def)

lemma keeps_others_emitted [simp]: "keeps_others u s (t\<lparr>emitted := es\<rparr>) = keeps_others u s t"
  by (simp add: keeps_others_def others_def)

section \<open>The storage\<close>

lemma known_subject: "store_ok s \<Longrightarrow> map_of (users s) u = Some v \<Longrightarrow> usrSubject v = u"
  using table_okD(2) [OF store_okD(2)] map_of_SomeD by metis

lemma keeps_known:
  assumes "map_of (users s) u = Some x" "usrSubject v = usrSubject x"
  shows "keeps_others u s (s\<lparr>users := AList.update u v (users s)\<rparr>)"
  unfolding keeps_others_def
proof
  assume ok: "store_ok s"
  have v: "usrSubject v = u" using known_subject [OF ok assms(1)] assms(2) by simp
  then have "unseen (\<lambda>x. usrSubject x = u) (AList.update u v (users s)) = unseen (\<lambda>x. usrSubject x = u) (users s)"
    using known_subject [OF ok] by (intro unseen_update) auto
  then show "store_ok (s\<lparr>users := AList.update u v (users s)\<rparr>) \<and> others u (s\<lparr>users := AList.update u v (users s)\<rparr>) = others u s"
    using store_ok_users [OF ok v] by (simp add: others_def)
qed

lemma keeps_SetUserTOTP: "keeps_others u s (snd (SetUserTOTP u t s))"
  by (auto simp: SetUserTOTP_def split: option.splits intro!: keeps_known)

lemma keeps_SetUserPassword: "keeps_others u s (snd (SetUserPassword u h f s))"
  by (auto simp: SetUserPassword_def split: option.splits intro!: keeps_known)

lemma keeps_SetWebauthnChallenge: "keeps_others u s (snd (SetWebauthnChallenge u h f s))"
  by (auto simp: SetWebauthnChallenge_def split: option.splits intro!: keeps_known)

lemma keeps_DeleteTokensForOwner: "keeps_others u s (snd (DeleteTokensForOwner u s))"
  unfolding keeps_others_def
proof
  assume ok: "store_ok s"
  then show "store_ok (snd (DeleteTokensForOwner u s)) \<and> others u (snd (DeleteTokensForOwner u s)) = others u s"
    using store_ok_DeleteTokensForOwner [OF ok] table_okD(1) [OF store_okD(4) [OF ok]]
    by (auto simp: DeleteTokensForOwner_def others_def intro!: unseen_filter)
qed

lemma keeps_DeleteSession:
  assumes "list_ex (\<lambda>x. sesID x = i) (ListSessions u s)"
  shows "keeps_others u s (snd (DeleteSession i s))"
  unfolding keeps_others_def
proof
  assume ok: "store_ok s"
  have "sesOwner y = u" if y: "map_of (sessions s) i = Some y" for y
  proof -
    obtain j x where x: "(j, x) \<in> set (sessions s)" "sesID x = i" "sesOwner x = u"
      using assms by (auto simp: ListSessions_def list_ex_iff)
    then have "(i, x) \<in> set (sessions s)" using table_okD(2) [OF store_okD(5) [OF ok]] by metis
    then show ?thesis using y x(3) table_okD(1) [OF store_okD(5) [OF ok]] by (simp add: amap_ok_def)
  qed
  then show "store_ok (snd (DeleteSession i s)) \<and> others u (snd (DeleteSession i s)) = others u s"
    using store_ok_DeleteSession [OF ok] by (simp add: DeleteSession_def others_def unseen_delete)
qed

lemma keeps_session_Delete: "keeps_others u s (snd (session_Delete u i s))"
  by (simp add: session_Delete_def keeps_DeleteSession)

text \<open>Ending the sessions of a list of \<open>u\<close>'s sessions: those that are gone already make no difference.\<close>

lemma keeps_delete_own:
  assumes "\<And>x. map_of (sessions s) i = Some x \<Longrightarrow> sesOwner x = u"
  shows "keeps_others u s (s\<lparr>sessions := AList.delete i (sessions s)\<rparr>)"
  using store_ok_DeleteSession [of s i] assms by (auto simp: keeps_others_def DeleteSession_def others_def unseen_delete)

lemma end_loop_keeps:
  assumes "\<And>x y. x \<in> set xs \<Longrightarrow> map_of (sessions s) (sesID x) = Some y \<Longrightarrow> sesOwner y = u"
  shows "keeps_others u s (snd (end_loop keep xs n s))"
  using assms
proof (induction xs arbitrary: n s)
  case (Cons x xs)
  let ?s = "s\<lparr>sessions := AList.delete (sesID x) (sessions s)\<rparr>"
  have own: "map_of (sessions s) (sesID y) = Some z \<Longrightarrow> sesOwner z = u" if "y \<in> set (x # xs)" for y z
    using Cons.prems that by blast
  have "keeps_others u s ?s" by (rule keeps_delete_own) (rule own [of x], simp_all)
  moreover have "keeps_others u ?s (snd (end_loop keep xs m ?s))" for m
  proof (rule Cons.IH)
    fix y z
    assume "y \<in> set xs" "map_of (sessions ?s) (sesID y) = Some z"
    then show "sesOwner z = u" using own [of y z] by (simp add: delete_conv' split: if_splits)
  qed
  ultimately have "keeps_others u s (snd (end_loop keep xs m ?s))" for m by (rule keeps_others_trans)
  moreover have "keeps_others u s (snd (end_loop keep xs n s))" by (rule Cons.IH) (rule own, simp_all)
  ultimately show ?case by (simp add: DeleteSession_def)
qed simp

lemma keeps_EndOthers: "keeps_others u s (snd (EndOthers u keep s))"
proof (cases "store_ok s")
  case True
  have "sesOwner y = u" if "x \<in> set (ListSessions u s)" "map_of (sessions s) (sesID x) = Some y" for x y
  proof -
    have "x \<in> snd ` set (sessions s)" "sesOwner x = u" using that(1) by (auto simp: ListSessions_def)
    then obtain j where "(j, x) \<in> set (sessions s)" by force
    then have "map_of (sessions s) (sesID x) = Some x"
      using table_okD(1,2) [OF store_okD(5) [OF True]] by (metis amap_ok_def map_of_is_SomeI)
    then show ?thesis using that(2) \<open>sesOwner x = u\<close> by simp
  qed
  then show ?thesis by (simp add: EndOthers_def end_loop_keeps)
qed (simp add: keeps_others_def)

lemma keeps_SaveToken:
  assumes "tokOwner t = u" "\<And>x. map_of (tokens s) (tokID t) = Some x \<Longrightarrow> tokOwner x = u"
  shows "keeps_others u s (snd (SaveToken t s))"
  using assms store_ok_SaveToken [of s t] by (auto simp: keeps_others_def SaveToken_def others_def intro!: unseen_update)

lemma keeps_DeleteToken:
  assumes "\<And>x. map_of (tokens s) i = Some x \<Longrightarrow> tokOwner x = u"
  shows "keeps_others u s (snd (DeleteToken i s))"
  using assms store_ok_DeleteToken [of s i]
  by (auto simp: keeps_others_def DeleteToken_def others_def split: option.splits intro!: unseen_delete)

lemma keeps_token_Delete:
  assumes "\<not> IsAdmin (idClaims user)"
  shows "keeps_others (idSubject user) s (snd (token_Delete user i s))"
  using assms keeps_DeleteToken [of s i "idSubject user"]
  by (auto simp: token_Delete_def GetToken_def split: option.splits prod.splits sum.splits)

lemma keeps_token_Create:
  assumes "\<And>bs x. rand8 = Inr bs \<Longrightarrow> map_of (tokens s) (hex_encode bs) = Some x \<Longrightarrow> tokOwner x = idSubject user"
  shows "keeps_others (idSubject user) s (snd (token_Create J rand8 rand32 user name e now s))"
proof -
  have "keeps_others (idSubject user) s t" if "SaveToken tok s = (r, t)" "tokOwner tok = idSubject user"
    "rand8 = Inr bs" "tokID tok = hex_encode bs" for tok r t bs
    using keeps_SaveToken [of tok "idSubject user" s] assms that by (metis snd_conv)
  then show ?thesis
    by (auto simp: token_Create_def Let_def randomString_def split: sum.splits prod.splits option.splits)
qed

lemma keeps_AddPasskey: "pkOwner p = u \<Longrightarrow> keeps_others u s (snd (AddPasskey p s))"
  using store_ok_AddPasskey [of s p] by (auto simp: keeps_others_def AddPasskey_def others_def split: option.splits intro!: unseen_update)

lemma keeps_RenamePasskey: "keeps_others u s (snd (RenamePasskey u i n s))"
  using store_ok_RenamePasskey [of s u i n]
  by (auto simp: keeps_others_def RenamePasskey_def others_def split: option.splits intro!: unseen_update)

lemma keeps_DeletePasskey: "keeps_others u s (snd (DeletePasskey u i s))"
  using store_ok_DeletePasskey [of s u i]
  by (auto simp: keeps_others_def DeletePasskey_def others_def split: option.splits intro!: unseen_delete)

section \<open>Devices\<close>

lemma stored_owner: "store_ok s \<Longrightarrow> map_of (db s) k = Some x \<Longrightarrow> key x = k"
  using table_okD(2) [OF store_okD(1)] map_of_SomeD by metis

lemma owner_key: "devOwner x = fst (key x)"
  by (simp add: key_def)

lemma unseen_own_device:
  assumes "store_ok s" "devOwner d = u" "devOwner v = u"
  shows "unseen (\<lambda>d. devOwner d = u) (AList.update (key d) v (db s)) = unseen (\<lambda>d. devOwner d = u) (db s)"
  using stored_owner [OF assms(1)] assms(2,3) by (intro unseen_update) (auto simp: owner_key)

lemma keeps_Save: "devOwner d = u \<Longrightarrow> keeps_others u s (snd (Save d s))"
  using store_ok_Save [of s d] unseen_own_device [of s d u d]
  by (auto simp: keeps_others_def Save_def emit_def others_def)

lemma keeps_Delete:
  assumes "devOwner d = u"
  shows "keeps_others u s (snd (Delete d s))"
  unfolding keeps_others_def
proof
  assume ok: "store_ok s"
  have "unseen (\<lambda>d. devOwner d = u) (AList.delete (key d) (db s)) = unseen (\<lambda>d. devOwner d = u) (db s)"
    using stored_owner [OF ok] assms by (intro unseen_delete) (auto simp: owner_key)
  then show "store_ok (snd (Delete d s)) \<and> others u (snd (Delete d s)) = others u s"
    using store_ok_Delete [OF ok, of d] by (simp add: Delete_def emit_def others_def)
qed

lemma keeps_SetKeys:
  assumes "devOwner d = u"
  shows "keeps_others u s (snd (SetKeys d p q s))"
  unfolding keeps_others_def
proof
  assume ok: "store_ok s"
  have "unseen (\<lambda>d. devOwner d = u) (AList.update (key (x\<lparr>devPublicKey := p, devPresharedKey := q\<rparr>))
      (x\<lparr>devPublicKey := p, devPresharedKey := q\<rparr>) (db s)) = unseen (\<lambda>d. devOwner d = u) (db s)"
    if "map_of (db s) (key d) = Some x" for x
    using stored_owner [OF ok that] assms unseen_own_device [OF ok, of "x\<lparr>devPublicKey := p, devPresharedKey := q\<rparr>" u]
    by (simp add: key_def)
  then show "store_ok (snd (SetKeys d p q s)) \<and> others u (snd (SetKeys d p q s)) = others u s"
    using store_ok_SetKeys [OF ok, of d p q] by (auto simp: SetKeys_def Let_def emit_def others_def split: option.splits)
qed

lemma keeps_Rename:
  assumes "devOwner d = u"
  shows "keeps_others u s (snd (Rename d n s))"
  unfolding keeps_others_def
proof
  assume ok: "store_ok s"
  have "unseen (\<lambda>d. devOwner d = u) (AList.update (key (x\<lparr>devName := n\<rparr>)) (x\<lparr>devName := n\<rparr>) (AList.delete (key x) (db s))) =
      unseen (\<lambda>d. devOwner d = u) (db s)" if "map_of (db s) (key d) = Some x" for x
  proof -
    have x: "key x = key d" using stored_owner [OF ok that] by simp
    have "unseen (\<lambda>d. devOwner d = u) (AList.delete (key x) (db s)) = unseen (\<lambda>d. devOwner d = u) (db s)"
      using stored_owner [OF ok] assms x by (intro unseen_delete) (auto simp: owner_key)
    moreover have "unseen (\<lambda>d. devOwner d = u) (AList.update (key (x\<lparr>devName := n\<rparr>)) (x\<lparr>devName := n\<rparr>) (AList.delete (key x) (db s))) =
        unseen (\<lambda>d. devOwner d = u) (AList.delete (key x) (db s))"
    proof (rule unseen_update)
      have u: "devOwner x = u" using x assms by (simp add: owner_key)
      then show "devOwner (x\<lparr>devName := n\<rparr>) = u" by simp
      fix y
      assume "map_of (AList.delete (key x) (db s)) (key (x\<lparr>devName := n\<rparr>)) = Some y"
      then have "map_of (db s) (key (x\<lparr>devName := n\<rparr>)) = Some y" by (simp add: delete_conv' split: if_splits)
      then show "devOwner y = u" using stored_owner [OF ok, of "key (x\<lparr>devName := n\<rparr>)" y] u by (simp add: key_def)
    qed
    ultimately show ?thesis by simp
  qed
  then show "store_ok (snd (Rename d n s)) \<and> others u (snd (Rename d n s)) = others u s"
    using store_ok_Rename [OF ok, of d n] by (auto simp: Rename_def Let_def emit_def others_def split: option.splits)
qed

lemma keeps_calls:
  assumes "devOwner x = u"
  shows "keeps_others u (storage d) (storage (snd (call W now (Save x) d)))"
    and "keeps_others u (storage d) (storage (snd (call W now (Delete x) d)))"
    and "keeps_others u (storage d) (storage (snd (call W now (Rename x n) d)))"
    and "keeps_others u (storage d) (storage (snd (call W now (SetKeys x p q) d)))"
  using assms by (simp_all add: call_frame(2) keeps_Save keeps_Delete keeps_Rename keeps_SetKeys)

lemma get_device_owner: "store_ok s \<Longrightarrow> get_device u n s = Inr x \<Longrightarrow> devOwner x = u"
  using stored_owner by (fastforce simp: get_device_def Get_def owner_key split: option.splits sum.splits)

lemma keeps_not_ok: "(store_ok s \<Longrightarrow> keeps_others u s t) \<Longrightarrow> keeps_others u s t"
  by (auto simp: keeps_others_def)

lemma keeps_AddDevice: "keeps_others (idSubject i) (storage d) (storage (snd (AddDevice W now i r d)))"
proof -
  have "keeps_others (idSubject i) (storage d) (storage d')" if "call W now (Save (new_device i r a now)) d = (res, d')" for a res d'
    using keeps_calls(1) [of "new_device i r a now" "idSubject i" d W now] that by (simp add: new_device_def)
  then show ?thesis by (auto simp: AddDevice_def addDeviceLocked_def Let_def split: sum.splits prod.splits)
qed

lemma keeps_RenameDevice: "keeps_others u (storage d) (storage (snd (RenameDevice W now u n m d)))"
  by (rule keeps_not_ok) (auto simp: RenameDevice_def intro!: keeps_calls dest: get_device_owner split: sum.splits)

lemma keeps_DeleteDevice: "keeps_others u (storage d) (storage (snd (DeleteDevice W now u n d)))"
  by (rule keeps_not_ok) (auto simp: DeleteDevice_def intro!: keeps_calls dest: get_device_owner split: sum.splits)

lemma keeps_RotateDeviceKey: "keeps_others u (storage d) (storage (snd (RotateDeviceKey W now u n p q d)))"
proof (rule keeps_not_ok)
  assume ok: "store_ok (storage d)"
  have "keeps_others u (storage d) (storage d')" if "get_device u n (storage d) = Inr x" "call W now (SetKeys x p q) d = (r, d')" for x r d'
    using keeps_calls(4) [OF get_device_owner [OF ok that(1)], of d W now p q] that(2) by simp
  then show ?thesis by (auto simp: RotateDeviceKey_def Let_def split: sum.splits prod.splits)
qed

section \<open>Accounts\<close>

lemma keeps_split: "keeps_others u s (snd r) \<Longrightarrow> r = (x, t) \<Longrightarrow> keeps_others u s t"
  by simp

lemma Verify_store': "Verify env u p now a = (r, b) \<Longrightarrow> acStore b = acStore a"
  using Verify_store [of env u p now a] by simp

lemma keeps_Change: "keeps_others u (acStore a) (acStore (snd (Change env u p q now a)))"
  using keeps_split [OF keeps_SetUserPassword]
  by (auto simp: Change_def dest!: Verify_store' split: option.splits prod.splits sum.splits)

lemma keeps_Start: "keeps_others u s (snd (Start rand issuer u account s))"
  using keeps_split [OF keeps_SetUserTOTP] by (auto simp: Start_def split: sum.splits prod.splits)

lemma keeps_Confirm: "keeps_others u s (snd (Confirm upr rand u code now s))"
  using keeps_split [OF keeps_SetUserTOTP] by (auto simp: Confirm_def split: sum.splits prod.splits)

lemma keeps_clear_totp: "keeps_others u s (snd (clear_totp u s))"
  using keeps_split [OF keeps_SetUserTOTP] by (auto simp: clear_totp_def split: sum.splits prod.splits)

lemma keeps_Disable: "keeps_others u (acStore a) (acStore (snd (Disable ps u p now a)))"
  using keeps_split [OF keeps_clear_totp]
  by (auto simp: Disable_def dest!: Verify_store' split: option.splits prod.splits sum.splits)

lemma keeps_ReplaceRecoveryCodes: "keeps_others u (acStore a) (acStore (snd (ReplaceRecoveryCodes upr rand ps u p now a)))"
  using keeps_split [OF keeps_SetUserTOTP]
  by (auto simp: ReplaceRecoveryCodes_def dest!: Verify_store' split: option.splits prod.splits sum.splits)

lemma keeps_keepChallenge: "keeps_others u s (snd (keepChallenge u session now s))"
  using keeps_split [OF keeps_SetWebauthnChallenge] by (auto simp: keepChallenge_def split: sum.splits prod.splits)

lemma keeps_BeginRegistration: "keeps_others u s (snd (BeginRegistration W party u now s))"
  using keeps_split [OF keeps_keepChallenge] by (auto simp: BeginRegistration_def split: sum.splits prod.splits)

lemma keeps_userAndChallenge: "keeps_others u s (snd (userAndChallenge W u now s))"
  using keeps_split [OF keeps_SetWebauthnChallenge]
  by (auto simp: userAndChallenge_def takeChallenge_def split: sum.splits prod.splits if_splits)

lemma keeps_FinishRegistration: "keeps_others u s (snd (FinishRegistration W party u name ans now s))"
proof -
  obtain r t where c: "userAndChallenge W u now s = (r, t)" by fastforce
  have st: "keeps_others u s t" using keeps_split [OF keeps_userAndChallenge c] .
  have "keeps_others u t t'" if "AddPasskey p t = (x, t')" "pkOwner p = u" for p x t'
    using keeps_split [OF keeps_AddPasskey [OF that(2)] that(1)] .
  then show ?thesis using st
    by (auto simp: FinishRegistration_def c Let_def intro: keeps_others_trans split: sum.splits prod.splits)
qed

lemma keeps_Passkeys_Delete: "keeps_others u s (snd (Passkeys_Delete u i s))"
  using keeps_split [OF keeps_DeletePasskey] by (auto simp: Passkeys_Delete_def split: sum.splits prod.splits)

lemma keeps_Passkeys_Rename: "keeps_others u s (snd (Passkeys_Rename u i n s))"
  using keeps_split [OF keeps_RenamePasskey] by (auto simp: Passkeys_Rename_def split: sum.splits prod.splits)

end
