(* ===== verification/Api_Properties.thy ===== *)
theory Api_Properties
  imports Api_Laws Device_Loops
begin

text \<open>
  What the API guarantees: nobody but an admin changes what is somebody else's, a token cannot touch the account
  it belongs to, every change is in the audit trail under the name of whoever made it, and revoking
  access takes every way in away.
\<close>

section \<open>Isolation of users\<close>

interpretation own: state_relation "\<lambda>st st'. keeps_others u (svStore st) (svStore st')" for u
  by unfold_locales (auto intro: keeps_others_trans)

lemma own_on_store:
  "keeps_others u (svStore st) (snd (f (svStore st))) \<Longrightarrow> keeps_others u (svStore st) (svStore (snd (on_store f st)))"
  by (simp add: on_store_def case_prod_unfold)

lemma own_on_manager:
  "keeps_others u (svStore st) (storage (snd (f (svManager st)))) \<Longrightarrow> keeps_others u (svStore st) (svStore (snd (on_manager f st)))"
  by (simp add: on_manager_def case_prod_unfold)

lemma own_on_accounts:
  "(\<And>a. keeps_others u (acStore a) (acStore (snd (f a)))) \<Longrightarrow> keeps_others u (svStore st) (svStore (snd (on_accounts f st)))"
  unfolding on_accounts_def case_prod_unfold by simp (metis accounts.select_convs(1))

lemma audit_Log_manager [simp]: "svManager (audit_Log c a ds st) = svManager st" "svWrong (audit_Log c a ds st) = svWrong st"
  by (simp_all add: audit_Log_def)

lemma own_signOutElsewhere: "keeps_others u (svStore st) (svStore (snd (signOutElsewhere c u st)))"
proof -
  let ?a = "on_store (EndOthers u (currentID c st)) st"
  have "keeps_others u (svStore st) (svStore (snd ?a))" by (intro own_on_store keeps_EndOthers)
  moreover have "keeps_others u (svStore (snd ?a)) (svStore (snd (on_store (token_DeleteForOwner u) (snd ?a))))"
    unfolding token_DeleteForOwner_def by (intro own_on_store keeps_DeleteTokensForOwner)
  ultimately show ?thesis by (auto simp: signOutElsewhere_def case_prod_unfold intro: keeps_others_trans)
qed

lemma own_signed_out:
  "signOutElsewhere c u st = (r, st') \<Longrightarrow> keeps_others u (svStore st) (svStore st')"
  using own_signOutElsewhere [of u st c] by simp

lemma own_operations:
  "keeps_others (idSubject i) (svStore st) (svStore (snd (on_manager (AddDevice W now i r) st)))"
  "keeps_others u (svStore st) (svStore (snd (on_manager (RenameDevice W now u n m) st)))"
  "keeps_others u (svStore st) (svStore (snd (on_manager (DeleteDevice W now u n) st)))"
  "keeps_others u (svStore st) (svStore (snd (on_manager (RotateDeviceKey W now u n p q) st)))"
  "keeps_others u (svStore st) (svStore (snd (on_store (session_Delete u k) st)))"
  "keeps_others u (svStore st) (svStore (snd (on_store (EndOthers u k) st)))"
  "keeps_others u (svStore st) (svStore (snd (on_store (Start rand issuer u k) st)))"
  "keeps_others u (svStore st) (svStore (snd (on_store (Confirm upr rands u k now) st)))"
  "keeps_others u (svStore st) (svStore (snd (on_store (BeginRegistration V party u now) st)))"
  "keeps_others u (svStore st) (svStore (snd (on_store (FinishRegistration V party u n k now) st)))"
  "keeps_others u (svStore st) (svStore (snd (on_store (Passkeys_Delete u k) st)))"
  "keeps_others u (svStore st) (svStore (snd (on_store (Passkeys_Rename u k n) st)))"
  "keeps_others u (svStore st) (svStore (snd (on_accounts (Change env u p q now) st)))"
  "keeps_others u (svStore st) (svStore (snd (on_accounts (Disable ps u p now) st)))"
  "keeps_others u (svStore st) (svStore (snd (on_accounts (ReplaceRecoveryCodes upr rands ps u p now) st)))"
  by (intro own_on_manager own_on_store own_on_accounts keeps_AddDevice keeps_RenameDevice keeps_DeleteDevice keeps_RotateDeviceKey keeps_session_Delete keeps_EndOthers keeps_Start keeps_Confirm keeps_BeginRegistration keeps_FinishRegistration keeps_Passkeys_Delete keeps_Passkeys_Rename keeps_Change keeps_Disable keeps_ReplaceRecoveryCodes)+

text \<open>Who the guards let through.\<close>

lemma guards:
  assumes "CurrentUser (clCtx c) = Inr user" "\<not> IsAdmin (idClaims user)"
  shows "current_user c = Inr user" "admin_user c = Inl errNotAdmin"
    and "device_owner c owner = Inr o' \<Longrightarrow> o' = idSubject user" "admin_device_owner c owner = Inl errNotAdmin"
    and "account_user c = Inr a \<Longrightarrow> a = user" "token_user S c = Inr b \<Longrightarrow> b = user"
    and "twoFactorFor S c = Inr (x, i) \<Longrightarrow> x = user" "passkeysFor S c = Inr (y, W) \<Longrightarrow> y = user"
    and "own_passkeys S c = Inr (z, V) \<Longrightarrow> z = user"
proof -
  show u: "current_user c = Inr user" by (simp add: current_user_def assms(1))
  show "admin_user c = Inl errNotAdmin" "admin_device_owner c owner = Inl errNotAdmin"
    by (simp_all add: admin_user_def admin_device_owner_def u assms(2))
  show "device_owner c owner = Inr o' \<Longrightarrow> o' = idSubject user"
    by (simp add: device_owner_def u assms(2) split: option.splits)
  show a: "account_user c = Inr a \<Longrightarrow> a = user" for a by (simp add: account_user_def u split: sum.splits)
  show "token_user S c = Inr b \<Longrightarrow> b = user" by (simp add: token_user_def u split: if_splits)
  show "twoFactorFor S c = Inr (x, i) \<Longrightarrow> x = user"
    using a by (auto simp: twoFactorFor_def Let_def split: sum.splits option.splits if_splits)
  show p: "passkeysFor S c = Inr (y, W) \<Longrightarrow> y = user" for y W
    by (auto simp: passkeysFor_def Let_def u split: option.splits if_splits)
  show "own_passkeys S c = Inr (z, V) \<Longrightarrow> z = user" using p by (auto simp: own_passkeys_def split: sum.splits)
qed

lemma call_result_snd [simp]: "snd (call_result r) = snd r"
  by (simp add: call_result_def)

lemmas api_defs =
  api_AddDevice_def api_ListDevices_def api_DeleteDevice_def api_RenameDevice_def api_RotateDeviceKey_def api_SetDeviceAccess_def
  api_SetDeviceRoutes_def api_ListAllDevices_def api_CreateToken_def api_ListTokens_def api_DeleteToken_def api_ListAllTokens_def
  api_ListSessions_def api_DeleteSession_def api_DeleteOtherSessions_def api_ListUsers_def api_DeleteUser_def api_RevokeAccess_def
  api_ChangePassword_def api_StartTwoFactor_def api_ConfirmTwoFactor_def api_DisableTwoFactor_def api_ResetTwoFactor_def
  api_NewRecoveryCodes_def api_ListPasskeys_def api_BeginPasskey_def api_FinishPasskey_def api_RenamePasskey_def api_DeletePasskey_def

lemma own_api_serve:
  assumes user: "CurrentUser (clCtx c) = Inr user" "\<not> IsAdmin (idClaims user)"
    and fresh: "\<And>bs. clRand c 0 = Inr bs \<Longrightarrow> map_of (tokens (svStore st)) (hex_encode bs) = None"
  shows "keeps_others (idSubject user) (svStore st) (svStore (snd (api_serve S c req st)))"
proof -
  note g = guards(1,2,4) [OF user]
  note d = guards(3,5,6,7,8,9) [OF user]
  note rules = own.through_checked own.through_answer own_operations own_signOutElsewhere
  have create: "keeps_others (idSubject user) (svStore st)
      (svStore (snd (on_store (token_Create J (clRand c 0) r32 user n e now) st)))" for J r32 n e now
    using fresh by (intro own_on_store keeps_token_Create) simp
  have delete: "keeps_others (idSubject user) (svStore st') (svStore (snd (on_store (token_Delete user i) st')))" for i st'
    using user(2) by (intro own_on_store keeps_token_Delete)
  show ?thesis
    by (cases req)
      (auto simp: api_defs g checked_def [of "Inl e" for e] Let_def own_signed_out split: prod.splits option.splits dest!: d intro!: rules create delete)
qed

lemma not_authenticated:
  assumes "CurrentUser (clCtx c) = Inl e"
  shows "\<exists>err. api_serve S c req st = (Inl err, st)"
proof -
  have u: "current_user c = Inl errNotAuthenticated" by (simp add: current_user_def assms)
  then have g: "admin_user c = Inl errNotAuthenticated" "device_owner c o' = Inl errNotAuthenticated"
    "admin_device_owner c o' = Inl errNotAuthenticated" "account_user c = Inl errNotAuthenticated"
    "twoFactorFor S c = Inl errNotAuthenticated" "passkeysFor S c = Inl errNotAuthenticated" "own_passkeys S c = Inl errNotAuthenticated"
    for o' by (simp_all add: admin_user_def device_owner_def admin_device_owner_def account_user_def twoFactorFor_def
        passkeysFor_def own_passkeys_def)
  show ?thesis by (cases req) (simp_all add: api_defs token_user_def u g checked_def call_result_def)
qed

text \<open>
  C5. Whoever is not an admin changes nothing that is somebody else's: whatever they ask the API for, the devices,
  the account, the tokens, the sessions and the passkeys of everybody else are as they were, also when the
  request fails halfway.  Somebody who is not signed in changes nothing at all.  The id drawn for a new token is
  one no token has.
\<close>

theorem user_isolation:
  assumes "store_ok (svStore st)" "\<And>bs. clRand c 0 = Inr bs \<Longrightarrow> map_of (tokens (svStore st)) (hex_encode bs) = None"
  shows "case CurrentUser (clCtx c) of
      Inl e \<Rightarrow> \<exists>err. api_serve S c req st = (Inl err, st)
    | Inr user \<Rightarrow> IsAdmin (idClaims user) \<or>
        others (idSubject user) (svStore (snd (api_serve S c req st))) = others (idSubject user) (svStore st)"
proof (cases "CurrentUser (clCtx c)")
  case (Inl e)
  then show ?thesis using not_authenticated by auto
next
  case (Inr user)
  then show ?thesis using own_api_serve [OF Inr _ assms(2), of S req] assms(1) by (auto simp: keeps_others_def)
qed

section \<open>What a token cannot do\<close>

definition account_kept :: "memory \<Rightarrow> memory \<Rightarrow> bool" where
  "account_kept s t \<longleftrightarrow>
     users t = users s \<and> sessions t = sessions s \<and> passkeys t = passkeys s \<and> set (tokens t) \<subseteq> set (tokens s)"

definition token_kept :: "'w server \<Rightarrow> 'w server \<Rightarrow> bool" where
  "token_kept st st' \<longleftrightarrow> account_kept (svStore st) (svStore st') \<and> svWrong st' = svWrong st"

interpretation quiet: state_relation token_kept
  by unfold_locales (auto simp: token_kept_def account_kept_def)

lemma kept_manager:
  "account_kept (svStore st) (storage (snd (f (svManager st)))) \<Longrightarrow> token_kept st (snd (on_manager f st))"
  by (simp add: on_manager_def case_prod_unfold token_kept_def)

lemma kept_store: "account_kept (svStore st) (snd (f (svStore st))) \<Longrightarrow> token_kept st (snd (on_store f st))"
  by (simp add: on_store_def case_prod_unfold token_kept_def)

lemma kept_calls:
  "account_kept (storage d) (storage (snd (call W now (Save x) d)))"
  "account_kept (storage d) (storage (snd (call W now (Delete x) d)))"
  "account_kept (storage d) (storage (snd (call W now (Rename x n) d)))"
  "account_kept (storage d) (storage (snd (call W now (SetKeys x p q) d)))"
  by (auto simp: call_frame(2) account_kept_def Save_def Delete_def Rename_def SetKeys_def emit_def Let_def split: option.splits)

lemma kept_split: "account_kept s (storage (snd r)) \<Longrightarrow> r = (x, d) \<Longrightarrow> account_kept s (storage d)"
  by simp

lemma account_kept_refl [simp]: "account_kept s s"
  by (simp add: account_kept_def)

lemma kept_devices:
  "account_kept (storage d) (storage (snd (AddDevice W now i r d)))"
  "account_kept (storage d) (storage (snd (RenameDevice W now u n m d)))"
  "account_kept (storage d) (storage (snd (DeleteDevice W now u n d)))"
  "account_kept (storage d) (storage (snd (RotateDeviceKey W now u n p q d)))"
proof -
  show "account_kept (storage d) (storage (snd (AddDevice W now i r d)))"
    using kept_split [OF kept_calls(1)]
    by (auto simp: AddDevice_def addDeviceLocked_def Let_def split: sum.splits prod.splits)
  show "account_kept (storage d) (storage (snd (RenameDevice W now u n m d)))"
    "account_kept (storage d) (storage (snd (DeleteDevice W now u n d)))"
    by (auto simp: RenameDevice_def DeleteDevice_def kept_calls split: sum.splits)
  show "account_kept (storage d) (storage (snd (RotateDeviceKey W now u n p q d)))"
    using kept_split [OF kept_calls(4)] by (auto simp: RotateDeviceKey_def Let_def split: sum.splits prod.splits)
qed

lemma kept_token_Delete: "account_kept s (snd (token_Delete user i s))"
  by (auto simp: token_Delete_def DeleteToken_def GetToken_def account_kept_def AList.delete_eq split: option.splits)

lemma kept_Log [simp]: "token_kept st (audit_Log c a ds st') = token_kept st st'"
  by (simp add: token_kept_def)

text \<open>
  C10. A token is for scripts, and one that leaked does not become the account: a call made with it, by somebody who
  is not an admin, leaves every account with its password and second factor, every session and every passkey
  as they are, uses up no attempt at a password, and makes no token.
\<close>

theorem token_confined:
  assumes "APIToken (clCtx c) \<noteq> []" "CurrentUser (clCtx c) = Inr user" "\<not> IsAdmin (idClaims user)"
  shows "token_kept st (snd (api_serve S c req st))"
proof -
  note g = guards(1,2,4) [OF assms(2,3)]
  have r: "refuseAPIToken c = Inl (RpcError PermissionDenied ''an API token cannot manage the account: do this in the web UI'')"
    using assms(1) by (simp add: refuseAPIToken_def)
  then have a: "\<exists>e. account_user c = Inl e" "\<exists>e. twoFactorFor S c = Inl e" "\<exists>e. own_passkeys S c = Inl e"
    by (auto simp: account_user_def twoFactorFor_def own_passkeys_def split: sum.splits)
  then obtain e1 e2 e3 where a: "account_user c = Inl e1" "twoFactorFor S c = Inl e2" "own_passkeys S c = Inl e3" by blast
  show ?thesis
    by (cases req) (auto simp: api_defs g a checked_def [of "Inl e" for e] assms(1) quiet.refl
        intro!: quiet.through_checked quiet.through_answer kept_manager kept_devices kept_store kept_token_Delete split: prod.splits)
qed

section \<open>The audit trail\<close>

text \<open>The specification of the trail, read off the calls of \<^verbatim>\<open>audit.Log\<close> in \<^verbatim>\<open>internal/services\<close>: the name each
  change is to be recorded under.  It is a table of this development, no function of the program; that a request
  without a name changes nothing but a preparation is part of the theorem.\<close>

fun action_of :: "api_request \<Rightarrow> string option" where
  "action_of (RqAddDevice _) = Some ''device.create''"
| "action_of (RqDeleteDevice _ _) = Some ''device.delete''"
| "action_of (RqRenameDevice _ _ _) = Some ''device.rename''"
| "action_of (RqRotateDeviceKey _ _ _) = Some ''device.rotate''"
| "action_of (RqSetDeviceAccess _ _ _) = Some ''device.access''"
| "action_of (RqSetDeviceRoutes _ _ _) = Some ''device.routes''"
| "action_of (RqCreateToken _ _) = Some ''api_token.create''"
| "action_of (RqDeleteToken _) = Some ''api_token.delete''"
| "action_of (RqDeleteSession _) = Some ''session.delete''"
| "action_of RqDeleteOtherSessions = Some ''session.delete''"
| "action_of (RqDeleteUser _) = Some ''user.delete''"
| "action_of (RqRevokeAccess _) = Some ''user.revoke''"
| "action_of (RqChangePassword _ _) = Some ''user.password''"
| "action_of (RqConfirmTwoFactor _) = Some ''user.two_factor''"
| "action_of (RqDisableTwoFactor _) = Some ''user.two_factor''"
| "action_of (RqResetTwoFactor _) = Some ''user.two_factor_reset''"
| "action_of (RqNewRecoveryCodes _) = Some ''user.recovery_codes''"
| "action_of (RqFinishPasskey _ _) = Some ''user.passkey_add''"
| "action_of (RqRenamePasskey _ _) = Some ''user.passkey_rename''"
| "action_of (RqDeletePasskey _) = Some ''user.passkey_delete''"
| "action_of _ = None"

definition logs :: "api_call \<Rightarrow> string option \<Rightarrow> 'w server \<Rightarrow> 'b rpc \<times> 'w server \<Rightarrow> bool" where
  "logs c a st r \<longleftrightarrow>
     (case (fst r, a) of
        (Inr x, Some action) \<Rightarrow> \<exists>details. (\<forall>f \<in> set details. fst f \<notin> set reserved_fields) \<and>
            svAudit (snd r) = svAudit st @ [audit_entry_of c action details]
      | _ \<Rightarrow> svAudit (snd r) = svAudit st)"

lemma logs_checked: "(\<And>x. r = Inr x \<Longrightarrow> logs c a st (f x st)) \<Longrightarrow> logs c a st (checked r f st)"
  by (cases r) (auto simp: checked_def logs_def)

lemma logs_answer:
  assumes "svAudit (snd r) = svAudit st" "\<And>x st'. r = (Inr x, st') \<Longrightarrow> logs c a st' (k x st')"
  shows "logs c a st (answer err r k)"
proof (cases r)
  case (Pair x st')
  then show ?thesis using assms by (cases x) (auto simp: answer_def logs_def split: sum.splits option.splits)
qed

lemma logs_error [simp]: "logs c a st (Inl e, st)"
  by (simp add: logs_def)

lemma logs_none [simp]: "logs c None st (r, st)"
  by (simp add: logs_def split: sum.splits)

lemma logs_Log:
  assumes "\<And>f. f \<in> set details \<Longrightarrow> fst f \<notin> set reserved_fields" "svAudit st' = svAudit st"
  shows "logs c (Some a) st (Inr x, audit_Log c a details st')"
  unfolding logs_def using assms by (simp add: audit_Log_def) (blast intro: exI [of _ details])

lemma audit_kept [simp]:
  "svAudit (snd (on_store f st)) = svAudit st" "svAudit (snd (on_manager g st)) = svAudit st"
  "svAudit (snd (on_accounts h st)) = svAudit st" "svAudit (snd (signOutElsewhere c u st)) = svAudit st"
  by (simp_all add: on_store_def on_manager_def on_accounts_def signOutElsewhere_def case_prod_unfold)

lemma audit_signed_out: "signOutElsewhere c u st = (r, st') \<Longrightarrow> svAudit st' = svAudit st"
  using audit_kept(4) [of c u st] by simp

lemma logs_result: "logs c a st (call_result r) = logs c a st r"
  by (cases r; cases "fst r") (auto simp: logs_def call_result_def split: option.splits)

lemma logs_serve: "logs c (action_of req) st (api_serve S c req st)"
  by (cases req)
    (auto simp: logs_result api_defs Let_def audit_signed_out reserved_fields_def intro!: logs_checked logs_answer logs_Log
      split: prod.splits option.splits if_splits)

text \<open>
  What may change without an entry: for one person, a secret of a second factor that is not enabled, which counts for
  nothing until it is confirmed, or the challenge of a passkey exchange that has only begun.
\<close>

definition only_prepares :: "string \<Rightarrow> 'w server \<Rightarrow> 'w server \<Rightarrow> bool" where
  "only_prepares u st st' \<longleftrightarrow>
     (\<exists>x y. map_of (users (svStore st)) u = Some x \<and>
        st' = st\<lparr>svManager := (svManager st)\<lparr>storage := (svStore st)\<lparr>users := AList.update u y (users (svStore st))\<rparr>\<rparr>\<rparr> \<and>
        (\<not> TwoFactorEnabled x \<and> \<not> TwoFactorEnabled y \<and>
           (\<exists>secret. y = x\<lparr>usrTotpSecret := secret, usrTotpEnabledAt := None, usrTotpRecovery := [], usrTotpLastStep := 0\<rparr>) \<or>
         (\<exists>challenge until. y = x\<lparr>usrWebauthnChallenge := challenge, usrWebauthnChallengeUntil := until\<rparr>)))"

lemma Start_prepares:
  assumes "on_store (Start rand issuer u k) st = (Inr r, st')"
  shows "only_prepares u st st'"
  using assms
  by (auto simp: on_store_def Start_def GetUser_def SetUserTOTP_def only_prepares_def TwoFactorEnabled_def no_totp_def
      split: sum.splits option.splits if_splits prod.splits)

lemma Begin_prepares:
  assumes "on_store (BeginRegistration V party u now) st = (Inr r, st')"
  shows "only_prepares u st st'"
  using assms
  by (fastforce simp: on_store_def BeginRegistration_def passkeys_user_def GetUser_def keepChallenge_def
      SetWebauthnChallenge_def only_prepares_def split: sum.splits option.splits if_splits prod.splits)

lemma twoFactorFor_current: "twoFactorFor S c = Inr (user, issuer) \<Longrightarrow> CurrentUser (clCtx c) = Inr user"
  by (auto simp: twoFactorFor_def account_user_def current_user_def Let_def split: sum.splits option.splits if_splits)

lemma own_passkeys_current: "own_passkeys S c = Inr (user, V, party) \<Longrightarrow> CurrentUser (clCtx c) = Inr user"
  by (auto simp: own_passkeys_def passkeysFor_def current_user_def Let_def split: sum.splits option.splits if_splits)

lemma unrecorded_changes:
  assumes "action_of req = None" "api_serve S c req st = (Inr x, st')"
  shows "st' = st \<or> (\<exists>user. CurrentUser (clCtx c) = Inr user \<and> only_prepares (idSubject user) st st')"
  using assms
  by (cases req)
    (auto simp: call_result_def api_defs checked_def answer_def dest!: Start_prepares Begin_prepares
      dest: twoFactorFor_current own_passkeys_current split: sum.splits prod.splits option.splits if_splits)

text \<open>
  C11. The audit trail is complete but for two preparations.  A request that succeeds with a change of the devices, the
  tokens, the sessions, the passkeys or the accounts leaves exactly one entry, under the name of whoever made it and
  with the token it was made with if there was one; a request that fails leaves none.  A request that succeeds
  without an entry changed nothing at all, or only what \<open>only_prepares\<close> says of the one who made it: a secret of a
  second factor that is not enabled (\<^verbatim>\<open>StartTwoFactor\<close>) or a challenge (\<^verbatim>\<open>BeginPasskey\<close>).
\<close>

theorem audit_complete:
  "case api_serve S c req st of
     (Inl e, st') \<Rightarrow> svAudit st' = svAudit st
   | (Inr _, st') \<Rightarrow>
       (case action_of req of
          None \<Rightarrow> st' = st \<or>
            (\<exists>user. CurrentUser (clCtx c) = Inr user \<and> only_prepares (idSubject user) st st' \<and> svAudit st' = svAudit st)
        | Some action \<Rightarrow> \<exists>user entry. CurrentUser (clCtx c) = Inr user \<and> svAudit st' = svAudit st @ [entry] \<and>
            map_of entry ''audit'' = Some (Str action) \<and> map_of entry ''actor'' = Some (Str (idSubject user)) \<and>
            map_of entry ''actor_is_admin'' = Some (Flag (IsAdmin (idClaims user))) \<and>
            map_of entry ''actor_api_token'' = (if APIToken (clCtx c) \<noteq> [] then Some (Str (APIToken (clCtx c))) else None))"
proof -
  obtain r st' where r: "api_serve S c req st = (r, st')" by fastforce
  have l: "logs c (action_of req) st (r, st')" using logs_serve [of c req st S] r by simp
  show ?thesis
  proof (cases r)
    case (Inr x)
    then obtain user where u: "CurrentUser (clCtx c) = Inr user"
      using not_authenticated [of c _ S req st] r by (cases "CurrentUser (clCtx c)") auto
    show ?thesis
    proof (cases "action_of req")
      case None
      then show ?thesis using l r Inr unrecorded_changes [OF None, of S c st x st'] by (auto simp: logs_def)
    qed (use l r Inr u in \<open>auto simp: logs_def audit_entry_actor [OF u]\<close>)
  qed (use l r in \<open>simp add: logs_def\<close>)
qed

section \<open>The devices and their peers\<close>

text \<open>Operations on accounts leave the devices alone.\<close>

definition devices_kept :: "memory \<Rightarrow> memory \<Rightarrow> bool" where
  "devices_kept s t \<longleftrightarrow> (store_ok s \<longrightarrow> store_ok t) \<and> db t = db s \<and> emitted t = emitted s"

lemma devices_kept_ok:
  assumes "mgr_ok d" "devices_kept (storage d) t"
  shows "mgr_ok (d\<lparr>storage := t\<rparr>)"
proof (rule evolves_inv [OF _ assms(1)])
  show "evolves keeps_all (storage d) t" using assms(2) by (simp add: evolves_same devices_kept_def)
  show "store_ok t" using mgr_db_ok(1) [OF assms(1)] assms(2) by (simp add: devices_kept_def)
  show "storage (d\<lparr>storage := t\<rparr>) = t\<lparr>emitted := []\<rparr>" using assms by (simp add: mgr_ok_def mgr_base_def devices_kept_def)
qed (simp add: same_config_def)

definition server_ok :: "'w wireguard \<Rightarrow> instant \<Rightarrow> 'w server \<Rightarrow> bool" where
  "server_ok W now st \<longleftrightarrow> mgr_ok (svManager st) \<and> in_line W now (svManager st)"

definition keeps_server :: "'w wireguard \<Rightarrow> instant \<Rightarrow> 'w server \<Rightarrow> 'w server \<Rightarrow> bool" where
  "keeps_server W now st st' \<longleftrightarrow> (server_ok W now st \<longrightarrow> server_ok W now st')"

interpretation inv: state_relation "keeps_server W now" for W now
  by unfold_locales (auto simp: keeps_server_def)

lemma inv_on_store: "devices_kept (svStore st) (snd (f (svStore st))) \<Longrightarrow> keeps_server W now st (snd (on_store f st))"
  using devices_kept_ok [of "svManager st" "snd (f (svStore st))"]
  by (auto simp: keeps_server_def server_ok_def on_store_def case_prod_unfold in_line_def stored_def devices_kept_def)

lemma inv_on_accounts:
  assumes "\<And>a. devices_kept (acStore a) (acStore (snd (f a)))"
  shows "keeps_server W now st (snd (on_accounts f st))"
  using devices_kept_ok [of "svManager st" "acStore (snd (f \<lparr>acStore = svStore st, acWrong = svWrong st\<rparr>))"]
    assms [of "\<lparr>acStore = svStore st, acWrong = svWrong st\<rparr>"]
  by (auto simp: keeps_server_def server_ok_def on_accounts_def case_prod_unfold in_line_def stored_def devices_kept_def)

lemma inv_on_manager:
  "(mgr_ok (svManager st) \<Longrightarrow> in_line W now (svManager st) \<Longrightarrow> mgr_ok (snd (f (svManager st))) \<and> in_line W now (snd (f (svManager st)))) \<Longrightarrow>
   keeps_server W now st (snd (on_manager f st))"
  by (simp add: keeps_server_def server_ok_def on_manager_def case_prod_unfold)

lemma inv_Log [simp]: "keeps_server W now st (audit_Log c a ds st') = keeps_server W now st st'"
  by (simp add: keeps_server_def server_ok_def)

lemma devices_kept_refl [simp]: "devices_kept s s"
  by (simp add: devices_kept_def)

lemma devices_kept_trans: "devices_kept s t \<Longrightarrow> devices_kept t r \<Longrightarrow> devices_kept s r"
  by (simp add: devices_kept_def)

text \<open>The methods of the storage that have nothing to do with devices.\<close>

lemma devices_kept_methods:
  "devices_kept s (snd (SetUserTOTP u st s))" "devices_kept s (snd (SetUserPassword u h f s))"
  "devices_kept s (snd (SetWebauthnChallenge u ch t s))" "devices_kept s (snd (SaveToken tk s))"
  "devices_kept s (snd (DeleteToken i s))" "devices_kept s (snd (DeleteTokensForOwner u s))"
  "devices_kept s (snd (DeleteSession i s))" "devices_kept s (snd (DeleteSessionsForOwner u s))"
  "devices_kept s (snd (AddPasskey p s))" "devices_kept s (snd (RenamePasskey u i n s))"
  "devices_kept s (snd (DeletePasskey u i s))" "devices_kept s (snd (DeleteUser u s))"
  unfolding devices_kept_def
  by ((intro conjI impI store_ok_methods; (assumption)?;
      simp add: SetUserTOTP_def SetUserPassword_def SetWebauthnChallenge_def SaveToken_def DeleteToken_def
      DeleteTokensForOwner_def DeleteSession_def DeleteSessionsForOwner_def AddPasskey_def RenamePasskey_def DeletePasskey_def
      DeleteUser_def split: option.splits)+)

lemma devices_kept_split: "devices_kept s (snd r) \<Longrightarrow> r = (x, t) \<Longrightarrow> devices_kept s t"
  by simp

lemmas devices_kept_steps = devices_kept_methods [THEN devices_kept_split]

lemma devices_kept_end_loop: "devices_kept s (snd (end_loop keep xs n s))"
proof (induction xs arbitrary: n s)
  case (Cons x xs)
  then show ?case
    using devices_kept_trans [OF devices_kept_methods(7) [of s "sesID x"]] by (auto split: prod.splits sum.splits)
qed simp

lemma devices_kept_operations:
  "devices_kept s (snd (token_DeleteForOwner u s))" "devices_kept s (snd (EndAllForOwner u s))" "devices_kept s (snd (EndOthers u k s))"
  "devices_kept s (snd (session_Delete u k s))" "devices_kept s (snd (token_Delete user i s))"
  "devices_kept s (snd (token_Create J r8 r32 user n e now s))" "devices_kept s (snd (Reset u s))"
  "devices_kept s (snd (Start rand issuer u k s))" "devices_kept s (snd (Confirm upr rands u k now s))"
  "devices_kept s (snd (BeginRegistration V party u now s))" "devices_kept s (snd (Passkeys_Delete u k s))"
  "devices_kept s (snd (Passkeys_Rename u k n s))"
proof -
  show "devices_kept s (snd (token_DeleteForOwner u s))" "devices_kept s (snd (EndAllForOwner u s))" "devices_kept s (snd (EndOthers u k s))"
    "devices_kept s (snd (session_Delete u k s))"
    by (simp_all add: token_DeleteForOwner_def EndAllForOwner_def EndOthers_def session_Delete_def devices_kept_methods devices_kept_end_loop)
  show "devices_kept s (snd (token_Delete user i s))"
    by (auto simp: token_Delete_def devices_kept_steps split: sum.splits prod.splits)
  show "devices_kept s (snd (token_Create J r8 r32 user n e now s))"
    by (auto simp: token_Create_def Let_def devices_kept_steps split: sum.splits prod.splits option.splits)
  show "devices_kept s (snd (Reset u s))"
    by (auto simp: Reset_def clear_totp_def devices_kept_steps split: sum.splits prod.splits)
  show "devices_kept s (snd (Start rand issuer u k s))"
    by (auto simp: Start_def devices_kept_steps split: sum.splits prod.splits)
  show "devices_kept s (snd (Confirm upr rands u k now s))"
    by (auto simp: Confirm_def devices_kept_steps split: sum.splits prod.splits)
  show "devices_kept s (snd (BeginRegistration V party u now s))"
    by (auto simp: BeginRegistration_def keepChallenge_def devices_kept_steps split: sum.splits prod.splits)
  show "devices_kept s (snd (Passkeys_Delete u k s))" "devices_kept s (snd (Passkeys_Rename u k n s))"
    by (auto simp: Passkeys_Delete_def Passkeys_Rename_def devices_kept_steps split: sum.splits prod.splits)
qed

lemma devices_kept_FinishRegistration: "devices_kept s (snd (FinishRegistration V party u n k now s))"
proof -
  have "devices_kept s t" if "userAndChallenge V u now s = (r, t)" for r t
    using that by (auto simp: userAndChallenge_def takeChallenge_def devices_kept_steps split: sum.splits prod.splits if_splits)
  then show ?thesis
    by (auto simp: FinishRegistration_def Let_def intro: devices_kept_trans devices_kept_steps split: sum.splits prod.splits)
qed

lemma devices_kept_accounts:
  "devices_kept (acStore a) (acStore (snd (Change env u p q now a)))" "devices_kept (acStore a) (acStore (snd (Disable ps u p now a)))"
  "devices_kept (acStore a) (acStore (snd (ReplaceRecoveryCodes upr rands ps u p now a)))"
  by (auto simp: Change_def Disable_def ReplaceRecoveryCodes_def clear_totp_def devices_kept_steps dest!: Verify_store'
      split: option.splits prod.splits sum.splits)

lemma ForgetUser_in_line:
  assumes "wg_table W" "mgr_ok d" "in_line W now d"
  shows "in_line W now (snd (ForgetUser W now u d))"
  unfolding ForgetUser_def snd_case_sum
  by (intro call_in_line assms tells_none) (simp_all add: DeleteUser_def stored_def)

lemma inv_signOutElsewhere: "keeps_server W now st (snd (signOutElsewhere c u st))"
proof -
  let ?a = "on_store (EndOthers u (currentID c st)) st"
  have "keeps_server W now st (snd ?a)" by (intro inv_on_store devices_kept_operations)
  moreover have "keeps_server W now (snd ?a) (snd (on_store (token_DeleteForOwner u) (snd ?a)))"
    by (intro inv_on_store devices_kept_operations)
  ultimately show ?thesis by (auto simp: signOutElsewhere_def case_prod_unfold intro: inv.trans)
qed

lemma inv_signed_out: "signOutElsewhere c u st = (r, st') \<Longrightarrow> keeps_server W now st st'"
  using inv_signOutElsewhere [of W now st c u] by simp

lemma keeps_serve:
  assumes W: "wg_table (svcWg S)" and ok: "server_ok (svcWg S) (clNow c) st"
  shows "server_ok (svcWg S) (clNow c) (snd (api_serve S c req st))"
proof -
  have d: "keeps_server (svcWg S) (clNow c) st (snd (on_manager f st))"
    if "\<And>d. mgr_ok d \<Longrightarrow> mgr_ok (snd (f d))" "\<And>d. mgr_ok d \<Longrightarrow> in_line (svcWg S) (clNow c) d \<Longrightarrow> in_line (svcWg S) (clNow c) (snd (f d))" for f st
    using that by (intro inv_on_manager) simp
  note manager = api_in_line [OF W] ForgetUser_in_line [OF W] mgr_ops_ok
  note kept = devices_kept_operations devices_kept_FinishRegistration devices_kept_accounts
  have "keeps_server (svcWg S) (clNow c) st (snd (api_serve S c req st))"
    by (cases req) (auto simp: api_defs Let_def inv.refl inv_signed_out split: prod.splits option.splits
      intro!: inv.through_checked inv.through_answer d inv_on_store inv_on_accounts kept manager)
  then show ?thesis using ok by (simp add: keeps_server_def)
qed

text \<open>
  C6. No call of the API takes the server out of order, whoever makes it and whether it succeeds: device addresses stay
  unique and inside the VPN networks, names and keys unique, networks behind devices apart, quotas respected, and
  the peers of the interface are exactly those of the devices that may connect.
\<close>

theorem server_invariant:
  assumes "wg_table (svcWg S)" "server_ok (svcWg S) (clNow c) st"
  shows "server_ok (svcWg S) (clNow c) (snd (api_serve S c req st))"
  using assms by (rule keeps_serve)

end
