(* ===== verification/Api_Access.thy ===== *)
theory Api_Access
  imports Api_Properties
begin

text \<open>
  Taking access away through the API: what revoking, deleting and a changed credential leave behind, and the calls of
  a small site as instances of the results about the API.
\<close>

section \<open>Revoking and deleting\<close>

lemma on_store_res: "on_store f st = (fst (f (svStore st)), st\<lparr>svManager := (svManager st)\<lparr>storage := snd (f (svStore st))\<rparr>\<rparr>)"
  by (simp add: on_store_def case_prod_unfold)

lemma on_manager_res: "on_manager f st = (fst (f (svManager st)), st\<lparr>svManager := snd (f (svManager st))\<rparr>)"
  by (simp add: on_manager_def case_prod_unfold)

lemma answer_Inr [simp]: "answer err (Inr x, st) k = k x st"
  by (simp add: answer_def)

lemma audit_Log_store [simp]: "svManager (snd (r, audit_Log c a ds st)) = svManager st"
  by simp

lemmas purge_defs = EndAllForOwner_def DeleteSessionsForOwner_def token_DeleteForOwner_def DeleteTokensForOwner_def

text \<open>The devices of a user with their access taken away, in the order they are stored.\<close>

definition block_of :: "string \<Rightarrow> device \<Rightarrow> device" where
  "block_of u x = (if devOwner x = u then x\<lparr>devDisabled := True\<rparr> else x)"

lemma BlockForOwner_devices: "map snd (db (snd (BlockForOwner u s))) = map (block_of u) (map snd (db s))"
  by (auto simp: BlockForOwner_def Let_def emit_def block_of_def)

lemma BlockDevicesForUser_runs:
  "fst (BlockDevicesForUser W now u d) = Inr (length (filter (\<lambda>x. devOwner x = u \<and> \<not> devDisabled x) (map snd (db (storage d)))))"
  "storage (snd (BlockDevicesForUser W now u d)) = (snd (BlockForOwner u (storage d)))\<lparr>emitted := []\<rparr>"
proof -
  obtain r e where c: "call W now (BlockForOwner u) d = (r, e)" by fastforce
  have r: "r = fst (BlockForOwner u (storage d))" "storage e = (snd (BlockForOwner u (storage d)))\<lparr>emitted := []\<rparr>"
    using call_frame(1,2) [of W now "BlockForOwner u" d] c by simp_all
  show "fst (BlockDevicesForUser W now u d) = Inr (length (filter (\<lambda>x. devOwner x = u \<and> \<not> devDisabled x) (map snd (db (storage d)))))"
    using r(1) by (simp add: BlockDevicesForUser_def c BlockForOwner_def Let_def)
  show "storage (snd (BlockDevicesForUser W now u d)) = (snd (BlockForOwner u (storage d)))\<lparr>emitted := []\<rparr>"
    using r by (simp add: BlockDevicesForUser_def c BlockForOwner_def Let_def)
qed

lemma blocked_no_peer:
  assumes "server_ok W now st" "x \<in> stored (svStore st)" "devDisabled x"
  shows "devPublicKey x \<notin> wg_keys W (wg (svManager st))"
proof
  assume "devPublicKey x \<in> wg_keys W (wg (svManager st))"
  then obtain y where y: "y \<in> stored (svStore st)" "AccessAllowed y now" "devPublicKey x = devPublicKey y"
    using assms(1) by (auto simp: server_ok_def in_line_def may_connect_def)
  then have "x = y" using same_pub_same_device assms(1,2) by (metis server_ok_def)
  then show False using y(2) assms(3) by (simp add: AccessAllowed_def)
qed

lemma stored_blocked:
  "stored (snd (BlockForOwner u s)) = block_of u ` stored s"
  by (metis BlockForOwner_devices image_set stored_def)

text \<open>
  C7. Revoking the access of a user always succeeds for an admin who names somebody else.  It ends their sessions,
  revokes their tokens and blocks their devices, so that none of their keys is left among the peers, and that
  is all it does: devices keep their keys and addresses, accounts and passkeys stay, and everybody else keeps
  their sessions and tokens.
\<close>

theorem revoke_access:
  assumes "wg_table (svcWg S)" "server_ok (svcWg S) (clNow c) st" "admin_user c = Inr user" "name \<noteq> idSubject user"
  shows "case api_RevokeAccess S c name st of
      (Inl e, st') \<Rightarrow> False
    | (Inr m, st') \<Rightarrow>
        tokens (svStore st') = filter (\<lambda>(i, x). tokOwner x \<noteq> name) (tokens (svStore st)) \<and>
        sessions (svStore st') = filter (\<lambda>(i, x). sesOwner x \<noteq> name) (sessions (svStore st)) \<and>
        map snd (db (svStore st')) = map (block_of name) (map snd (db (svStore st))) \<and>
        users (svStore st') = users (svStore st) \<and> passkeys (svStore st') = passkeys (svStore st) \<and>
        (\<forall>x \<in> stored (svStore st'). devOwner x = name \<longrightarrow> devPublicKey x \<notin> wg_keys (svcWg S) (wg (svManager st')))"
proof -
  obtain r st' where r: "api_RevokeAccess S c name st = (r, st')" by fastforce
  have run: "(r, st') = api_RevokeAccess S c name st" using r by simp
  let ?d = "(svManager st)\<lparr>storage := snd (EndAllForOwner name (snd (token_DeleteForOwner name (svStore st))))\<rparr>"
  have shape: "\<exists>m. r = Inr m" "svManager st' = snd (BlockDevicesForUser (svcWg S) (clNow c) name ?d)"
    using run assms(3,4)
    by (simp_all add: api_RevokeAccess_def checked_def Let_def on_store_res on_manager_res BlockDevicesForUser_runs purge_defs)
  then obtain m where m: "r = Inr m" by blast
  have store: "svStore st' = (snd (BlockForOwner name (storage ?d)))\<lparr>emitted := []\<rparr>"
    using shape(2) BlockDevicesForUser_runs(2) by metis
  have devs: "map snd (db (svStore st')) = map (block_of name) (map snd (db (svStore st)))"
    unfolding store using BlockForOwner_devices [of name "storage ?d"]
    by (simp add: purge_defs)
  have ok: "server_ok (svcWg S) (clNow c) st'"
    using keeps_serve [OF assms(1,2), of "RqRevokeAccess name"] r by (simp add: call_result_def)
  have "devPublicKey x \<notin> wg_keys (svcWg S) (wg (svManager st'))" if x: "x \<in> stored (svStore st')" "devOwner x = name" for x
  proof (rule blocked_no_peer [OF ok x(1)])
    obtain y where "x = block_of name y" using x(1) devs unfolding stored_def by (metis (no_types, lifting) imageE image_set)
    then show "devDisabled x" using x(2) by (auto simp: block_of_def split: if_splits)
  qed
  moreover have "tokens (svStore st') = filter (\<lambda>(i, x). tokOwner x \<noteq> name) (tokens (svStore st))"
    "sessions (svStore st') = filter (\<lambda>(i, x). sesOwner x \<noteq> name) (sessions (svStore st))"
    "users (svStore st') = users (svStore st)" "passkeys (svStore st') = passkeys (svStore st)"
    by (simp_all add: store BlockForOwner_def Let_def emit_def purge_defs)
  ultimately show ?thesis using devs unfolding r m by simp
qed

lemma purged_runs:
  "fst (DeleteDevicesForUser W now u d) = Inr ()" "fst (ForgetUser W now u d) = Inr ()"
  "storage (snd (DeleteDevicesForUser W now u d)) = (snd (DeleteForOwner u (storage d)))\<lparr>emitted := []\<rparr>"
  "storage (snd (ForgetUser W now u d)) = (snd (DeleteUser u (storage d)))\<lparr>emitted := []\<rparr>"
proof -
  obtain r e where c: "call W now (DeleteForOwner u) d = (r, e)" by fastforce
  have r: "\<exists>x. r = Inr x" "storage e = (snd (DeleteForOwner u (storage d)))\<lparr>emitted := []\<rparr>"
    using call_frame(1,2) [of W now "DeleteForOwner u" d] c by (simp_all add: DeleteForOwner_def Let_def)
  show "fst (DeleteDevicesForUser W now u d) = Inr ()"
    "storage (snd (DeleteDevicesForUser W now u d)) = (snd (DeleteForOwner u (storage d)))\<lparr>emitted := []\<rparr>"
    using r by (auto simp: DeleteDevicesForUser_def c)
  obtain q f where c: "call W now (DeleteUser u) d = (q, f)" by fastforce
  have q: "\<exists>x. q = Inr x" "storage f = (snd (DeleteUser u (storage d)))\<lparr>emitted := []\<rparr>"
    using call_frame(1,2) [of W now "DeleteUser u" d] c by (simp_all add: DeleteUser_def)
  show "fst (ForgetUser W now u d) = Inr ()"
    "storage (snd (ForgetUser W now u d)) = (snd (DeleteUser u (storage d)))\<lparr>emitted := []\<rparr>"
    using q by (auto simp: ForgetUser_def c)
qed

text \<open>
  C8. Deleting a user always succeeds for an admin and leaves nothing of them: no session, no token, no device, no
  passkey, no account, and no key of one of their devices among the peers.  Everything of everybody else
  is as it was.
\<close>

theorem delete_user:
  assumes "wg_table (svcWg S)" "server_ok (svcWg S) (clNow c) st" "admin_user c = Inr user"
  shows "case api_DeleteUser S c name st of
      (Inl e, st') \<Rightarrow> False
    | (Inr _, st') \<Rightarrow>
        tokens (svStore st') = filter (\<lambda>(i, x). tokOwner x \<noteq> name) (tokens (svStore st)) \<and>
        sessions (svStore st') = filter (\<lambda>(i, x). sesOwner x \<noteq> name) (sessions (svStore st)) \<and>
        passkeys (svStore st') = filter (\<lambda>(i, x). pkOwner x \<noteq> name) (passkeys (svStore st)) \<and>
        db (svStore st') = filter (\<lambda>(k, x). devOwner x \<noteq> name) (db (svStore st)) \<and>
        users (svStore st') = AList.delete name (users (svStore st)) \<and>
        (\<forall>x \<in> stored (svStore st). devOwner x = name \<longrightarrow> devPublicKey x \<notin> wg_keys (svcWg S) (wg (svManager st')))"
proof -
  obtain r st' where r: "api_DeleteUser S c name st = (r, st')" by fastforce
  have run: "(r, st') = api_DeleteUser S c name st" using r by simp
  let ?d = "(svManager st)\<lparr>storage := snd (EndAllForOwner name (snd (token_DeleteForOwner name (svStore st))))\<rparr>"
  let ?e = "snd (DeleteDevicesForUser (svcWg S) (clNow c) name ?d)"
  have m: "r = Inr ()" and st': "svManager st' = snd (ForgetUser (svcWg S) (clNow c) name ?e)"
    using run assms(3)
    by (simp_all add: api_DeleteUser_def checked_def Let_def on_store_res on_manager_res purged_runs(1,2) purge_defs)
  have store: "svStore st' = (snd (DeleteUser name ((snd (DeleteForOwner name (storage ?d)))\<lparr>emitted := []\<rparr>)))\<lparr>emitted := []\<rparr>"
    unfolding st' purged_runs(3,4) ..
  have rest: "tokens (svStore st') = filter (\<lambda>(i, x). tokOwner x \<noteq> name) (tokens (svStore st))"
    "sessions (svStore st') = filter (\<lambda>(i, x). sesOwner x \<noteq> name) (sessions (svStore st))"
    "passkeys (svStore st') = filter (\<lambda>(i, x). pkOwner x \<noteq> name) (passkeys (svStore st))"
    "db (svStore st') = filter (\<lambda>(k, x). devOwner x \<noteq> name) (db (svStore st))"
    "users (svStore st') = AList.delete name (users (svStore st))"
    by (simp_all add: store DeleteUser_def DeleteForOwner_def Let_def emit_def purge_defs)
  have ok: "server_ok (svcWg S) (clNow c) st'"
    using keeps_serve [OF assms(1,2), of "RqDeleteUser name"] r by (simp add: call_result_def)
  have "devPublicKey x \<notin> wg_keys (svcWg S) (wg (svManager st'))" if x: "x \<in> stored (svStore st)" "devOwner x = name" for x
  proof
    assume "devPublicKey x \<in> wg_keys (svcWg S) (wg (svManager st'))"
    then obtain y where y: "y \<in> stored (svStore st')" "devPublicKey x = devPublicKey y"
      using ok by (auto simp: server_ok_def in_line_def may_connect_def)
    then have "y \<in> stored (svStore st)" "devOwner y \<noteq> name" by (auto simp: stored_def rest(4))
    then show False using same_pub_same_device [of "svManager st" x y] assms(2) x y(2) by (auto simp: server_ok_def)
  qed
  then show ?thesis using rest unfolding r m by simp
qed

section \<open>A changed credential\<close>

text \<open>A new password, a second factor that was turned on and the first passkey: whoever knew the password alone
  may hold a session or a token.\<close>

fun credential_change :: "identity \<Rightarrow> memory \<Rightarrow> api_request \<Rightarrow> bool" where
  "credential_change user s (RqChangePassword _ _) = True"
| "credential_change user s (RqConfirmTwoFactor _) = True"
| "credential_change user s (RqFinishPasskey _ _) = (\<not> Passkeys_Has (idSubject user) s)"
| "credential_change user s _ = False"

definition credentials_kept :: "memory \<Rightarrow> memory \<Rightarrow> bool" where
  "credentials_kept s t \<longleftrightarrow> (store_ok s \<longrightarrow> store_ok t) \<and> tokens t = tokens s \<and> sessions t = sessions s"

lemma credentials_kept_methods:
  "credentials_kept s (snd (SetUserTOTP u x s))" "credentials_kept s (snd (SetUserPassword u h f s))"
  "credentials_kept s (snd (SetWebauthnChallenge u ch i s))" "credentials_kept s (snd (AddPasskey p s))"
  unfolding credentials_kept_def
  by ((intro conjI impI store_ok_methods; (assumption)?;
      simp add: SetUserTOTP_def SetUserPassword_def SetWebauthnChallenge_def AddPasskey_def split: option.splits)+)

lemma credentials_kept_split: "credentials_kept s (snd r) \<Longrightarrow> r = (x, t) \<Longrightarrow> credentials_kept s t"
  by simp

lemmas credentials_kept_steps = credentials_kept_methods [THEN credentials_kept_split]

lemma credentials_kept_trans: "credentials_kept s t \<Longrightarrow> credentials_kept t r \<Longrightarrow> credentials_kept s r"
  by (simp add: credentials_kept_def)

lemma credentials_kept_refl [simp]: "credentials_kept s s"
  by (simp add: credentials_kept_def)

lemma credentials_kept_changes:
  "credentials_kept (acStore a) (acStore (snd (Change env u p q now a)))" "credentials_kept s (snd (Confirm upr rands u k now s))"
  "credentials_kept s (snd (FinishRegistration V party u n k now s))"
proof -
  show "credentials_kept (acStore a) (acStore (snd (Change env u p q now a)))"
    by (auto simp: Change_def credentials_kept_steps dest!: Verify_store' split: option.splits prod.splits sum.splits)
  show "credentials_kept s (snd (Confirm upr rands u k now s))"
    by (auto simp: Confirm_def credentials_kept_steps split: sum.splits prod.splits)
  have "credentials_kept s t" if "userAndChallenge V u now s = (r, t)" for r t
    using that by (auto simp: userAndChallenge_def takeChallenge_def credentials_kept_steps split: sum.splits prod.splits if_splits)
  then show "credentials_kept s (snd (FinishRegistration V party u n k now s))"
    by (auto simp: FinishRegistration_def Let_def intro: credentials_kept_trans credentials_kept_steps split: sum.splits prod.splits)
qed

lemma GetSessionByHash_cong: "sessions s = sessions t \<Longrightarrow> GetSessionByHash h s = GetSessionByHash h t"
  by (simp add: GetSessionByHash_def)

lemma currentID_cong: "sessions (svStore st) = sessions (svStore st') \<Longrightarrow> currentID c st = currentID c st'"
  using GetSessionByHash_cong [of "svStore st" "svStore st'"] by (simp add: currentID_def session_Find_def)

lemma ends_cong: "sessions s = sessions s' \<Longrightarrow> sessions t = sessions t' \<Longrightarrow> ends P s t \<Longrightarrow> ends P s' t'"
  unfolding ends_def using GetSessionByHash_cong [of s s'] GetSessionByHash_cong [of t t']
  by (metis Identity_cong)

lemma end_loop_tokens: "tokens (snd (end_loop keep xs n s)) = tokens s"
proof (induction xs arbitrary: n s)
  case (Cons x xs)
  have "tokens (snd (DeleteSession (sesID x) s)) = tokens s" by (simp add: DeleteSession_def)
  then show ?case using Cons.IH by (auto split: prod.splits sum.splits)
qed simp

definition signed_out :: "string \<Rightarrow> string \<Rightarrow> memory \<Rightarrow> memory \<Rightarrow> bool" where
  "signed_out u keep s t \<longleftrightarrow>
     tokens t = filter (\<lambda>(i, x). tokOwner x \<noteq> u) (tokens s) \<and> ends (\<lambda>x. sesOwner x = u \<and> sesID x \<noteq> keep) s t"

lemma signOutElsewhere_effect:
  assumes "store_ok (svStore st)" "signOutElsewhere c u st = (n, st')"
  shows "signed_out u (currentID c st) (svStore st) (svStore st')"
proof -
  let ?t = "snd (EndOthers u (currentID c st) (svStore st))"
  have t: "svStore st' = snd (token_DeleteForOwner u ?t)"
    using assms(2) by (auto simp: signOutElsewhere_def on_store_res case_prod_unfold)
  have "ends (\<lambda>x. sesOwner x = u \<and> sesID x \<noteq> currentID c st) (svStore st) (svStore st')"
    by (rule ends_cong [OF refl _ ends_EndOthers [OF assms(1)]]) (simp add: t purge_defs)
  then show ?thesis
    by (simp add: signed_out_def t purge_defs EndOthers_def end_loop_tokens)
qed

lemma signed_out_after:
  assumes "store_ok (svStore st)" "credentials_kept (svStore st) (svStore st1)" "signOutElsewhere c u st1 = (n, st')"
  shows "signed_out u (currentID c st) (svStore st) (svStore st')"
proof -
  have eq: "sessions (svStore st1) = sessions (svStore st)" "tokens (svStore st1) = tokens (svStore st)" "store_ok (svStore st1)"
    using assms(1,2) by (simp_all add: credentials_kept_def)
  have "signed_out u (currentID c st1) (svStore st1) (svStore st')" using signOutElsewhere_effect [OF eq(3) assms(3)] .
  then show ?thesis
    using currentID_cong [OF eq(1), of c] eq ends_cong [OF eq(1) refl] by (auto simp: signed_out_def)
qed

lemma answer_done: "answer err r k = (Inr x, st') \<Longrightarrow> \<exists>y st1. r = (Inr y, st1) \<and> k y st1 = (Inr x, st')"
  by (auto simp: answer_def split: prod.splits sum.splits)

lemma checked_done: "checked r f st = (Inr x, st') \<Longrightarrow> \<exists>y. r = Inr y \<and> f y st = (Inr x, st')"
  by (auto simp: checked_def split: sum.splits)

lemma call_result_done: "call_result r = (Inr x, st') \<Longrightarrow> \<exists>y. r = (Inr y, st')"
  by (cases r; cases "fst r") (auto simp: call_result_def)

lemma checked_pair_done: "checked r (\<lambda>(a, b). f a b) st = (Inr x, st') \<Longrightarrow> \<exists>a b. r = Inr (a, b) \<and> f a b st = (Inr x, st')"
  by (auto simp: checked_def split: sum.splits)

text \<open>
  C9. When somebody changed their password, turned a second factor on or registered their first passkey, their tokens
  are gone and so are their sessions but the one they did it with; sessions and tokens of everybody else stay.
\<close>

theorem credential_change_signs_out:
  assumes ok: "store_ok (svStore st)" and user: "CurrentUser (clCtx c) = Inr user"
    and change: "credential_change user (svStore st) req" and run: "api_serve S c req st = (Inr r, st')"
  shows "signed_out (idSubject user) (currentID c st) (svStore st) (svStore st')"
proof -
  have own: "account_user c = Inr a \<Longrightarrow> a = user" "twoFactorFor S c = Inr (a, i) \<Longrightarrow> a = user"
    "own_passkeys S c = Inr (a, W) \<Longrightarrow> a = user" for a i W
    using user by (auto simp: account_user_def current_user_def twoFactorFor_def own_passkeys_def passkeysFor_def Let_def
        split: sum.splits option.splits if_splits)
  have kept: "on_accounts (Change env u p q now) st = (r, st1) \<Longrightarrow> credentials_kept (svStore st) (svStore st1)"
    "on_store (Confirm upr rands u k now) st = (r', st1) \<Longrightarrow> credentials_kept (svStore st) (svStore st1)"
    "on_store (FinishRegistration V party u n k now) st = (r'', st1) \<Longrightarrow> credentials_kept (svStore st) (svStore st1)"
    for env u p q now upr rands k V party n r r' r'' st1
    using credentials_kept_changes(1) [of "\<lparr>acStore = svStore st, acWrong = svWrong st\<rparr>" env u p q now]
      credentials_kept_changes(2) [of "svStore st" upr rands u k now] credentials_kept_changes(3) [of "svStore st" V party u n k now]
    by (auto simp: on_accounts_def on_store_res case_prod_unfold)
  show ?thesis
    by (insert change run, cases req;
      auto simp: api_ChangePassword_def api_ConfirmTwoFactor_def api_FinishPasskey_def Let_def
        dest!: call_result_done checked_done answer_done own kept
        split: option.splits if_splits prod.splits; rule signed_out_after [OF ok]; assumption)
qed

end
