(* ===== verification/Api_Site.thy ===== *)
theory Api_Site
  imports Api_Access
begin

text \<open>
  A small site with two devices, an account and a token, on which the results about the API are used.
\<close>

section \<open>A small site\<close>

definition office_services :: "(peer list, unit) services" where
  "office_services =
     \<lparr>svcWg = table_wg, svcHostNetworks = Inr [], svcCodec = \<lparr>marshal = (\<lambda>i. Inr (idSubject i)), unmarshal = (\<lambda>s. Inl (Err s))\<rparr>,
      svcUpper = id, svcPasswords = Some plain_env, svcIssuer = None, svcWebauthn = None, svcTokensEnabled = True\<rparr>"

definition office_token :: api_token where
  "office_token =
     \<lparr>tokID = ''t1'', tokOwner = ''alice'', tokName = ''backup'', tokHash = ''h'', tokIdentity = [], tokCreatedAt = 0,
      tokExpiresAt = None, tokLastUsedAt = None\<rparr>"

definition office :: "peer list server" where
  "office =
     \<lparr>svManager = site2\<lparr>storage := (storage site2)\<lparr>users := [(''alice'', Users_Passwords.alice)], tokens := [(''t1'', office_token)]\<rparr>\<rparr>, svWrong = [], svAudit = []\<rparr>"

definition office_call :: "identity \<Rightarrow> string \<Rightarrow> api_call" where
  "office_call i token =
     \<lparr>clCtx = Some \<lparr>asState = None, asNonce = None, asVerifier = None, asID = [], asIdentity = Some i, asAPIToken = token, asPending = None\<rparr>,
      clRequest = \<lparr>rqMethod = ''POST'', rqPath = [], rqHost = [], rqRemoteAddr = [], rqTLS = True, rqHeader = [], rqForm = [], rqCookie = None\<rparr>,
      clTrace = ''1'', clNow = 0, clRand = (\<lambda>_. Inr (replicate 8 7))\<rparr>"

definition office_admin :: identity where
  "office_admin = Device_Properties.alice\<lparr>idSubject := ''root'', idClaims := MakeAdmin []\<rparr>"

lemma office_ok: "server_ok table_wg 0 office" "store_ok (svStore office)"
proof -
  have ok1: "store_ok (storage site2)" by (rule mgr_db_ok(1) [OF reachable_ok [OF site_reachable]])
  then have "store_ok (svStore office)"
    by (simp add: office_def store_ok_def table_ok_def amap_ok_def office_token_def Users_Passwords.alice_def site2_def site_def
        NewMemoryStorage_def)
  then have d: "devices_kept (storage site2) (svStore office)" by (simp add: devices_kept_def office_def)
  have site: "mgr_ok site2" by (rule reachable_ok [OF site_reachable])
  have "svManager office = site2\<lparr>storage := svStore office\<rparr>" by (simp add: office_def)
  then have ok: "mgr_ok (svManager office)" using devices_kept_ok [OF site d] by simp
  have "AccessAllowed x 0" if "x \<in> stored (svStore office)" for x
    using that by (auto simp: office_def site2_def site_def stored_def site_device_def new_device_def AccessAllowed_def device_Expired_def)
  then have "may_connect 0 (stored (svStore office)) = devPublicKey ` stored (svStore office)"
    by (auto simp: may_connect_def)
  then have "wg_keys table_wg (wg (svManager office)) = may_connect 0 (stored (svStore office))"
    by (simp add: wg_keys_def table_wg_def office_def site2_def site_def stored_def site_device_def new_device_def
        request_def site_peer_def)
  then show "server_ok table_wg 0 office" using ok by (simp add: server_ok_def in_line_def)
  show "store_ok (svStore office)" using mgr_db_ok(1) [OF ok] .
qed

abbreviation as_alice :: api_call where
  "as_alice \<equiv> office_call Device_Properties.alice []"

abbreviation as_admin :: api_call where
  "as_admin \<equiv> office_call office_admin []"

lemma office_callers:
  "CurrentUser (clCtx (office_call i t)) = Inr i" "APIToken (clCtx (office_call i t)) = t" "clNow (office_call i t) = 0"
  "\<not> IsAdmin (idClaims Device_Properties.alice)" "admin_user as_admin = Inr office_admin" "svcWg office_services = table_wg"
  by (simp_all add: office_call_def CurrentUser_def APIToken_def admin_user_def current_user_def office_admin_def office_services_def)
    (simp add: Device_Properties.alice_def IsAdmin_def claims_Has_def)

theorem user_isolation_witness:
  "others ''alice'' (svStore (snd (api_serve office_services as_alice (RqCreateToken ''script'' None) office))) =
     others ''alice'' (svStore office)"
proof -
  have "map_of (tokens (svStore office)) (hex_encode bs) = None" if "clRand as_alice 0 = Inr bs" for bs
  proof -
    have "length (hex_encode bs) \<noteq> 2" using that by (auto simp: office_call_def hex_encode_def numeral_eq_Suc)
    then show ?thesis by (auto simp: office_def)
  qed
  then show ?thesis
    using user_isolation [OF office_ok(2), of as_alice office_services "RqCreateToken ''script'' None"] office_callers
    by (simp add: Device_Properties.alice_def)
qed

theorem token_confined_witness:
  "token_kept office (snd (api_serve office_services (office_call Device_Properties.alice ''t1'') (RqChangePassword ''secret'' ''better than'') office))"
  by (rule token_confined [where user = Device_Properties.alice]) (simp_all add: office_callers)

theorem server_invariant_witness:
  "server_ok table_wg 0 (snd (api_serve office_services as_alice (RqDeleteDevice None ''phone'') office))"
  using server_invariant [of office_services as_alice office "RqDeleteDevice None ''phone''"] office_ok(1) table_wg_table
  by (simp add: office_callers)

theorem revoke_access_witness:
  "\<exists>m st'. api_RevokeAccess office_services as_admin ''alice'' office = (Inr m, st') \<and>
     tokens (svStore st') = [] \<and> (\<forall>x \<in> stored (svStore st'). devPublicKey x \<notin> wg_keys table_wg (wg (svManager st')))"
proof -
  obtain r st' where r: "api_RevokeAccess office_services as_admin ''alice'' office = (r, st')" by fastforce
  have h: "case (r, st') of (Inl e, st') \<Rightarrow> False
    | (Inr m, st') \<Rightarrow>
        tokens (svStore st') = filter (\<lambda>(i, x). tokOwner x \<noteq> ''alice'') (tokens (svStore office)) \<and>
        map snd (db (svStore st')) = map (block_of ''alice'') (map snd (db (svStore office))) \<and>
        (\<forall>x \<in> stored (svStore st'). devOwner x = ''alice'' \<longrightarrow> devPublicKey x \<notin> wg_keys table_wg (wg (svManager st')))"
    using revoke_access [of office_services as_admin office office_admin "''alice''"] office_ok(1) table_wg_table
    unfolding r office_callers by (auto simp: office_admin_def split: sum.splits)
  then obtain m where m: "r = Inr m" by (cases r) auto
  have "devOwner ` set (map snd (db (svStore st'))) = {''alice''}"
    using h m by (simp add: block_of_def office_def site2_def site_def site_device_def new_device_def Device_Properties.alice_def)
  then have "devOwner x = ''alice''" if "x \<in> stored (svStore st')" for x using that unfolding stored_def by blast
  moreover have "tokens (svStore st') = []" using h m by (simp add: office_def office_token_def)
  ultimately show ?thesis using h m r by auto
qed

theorem delete_user_witness:
  "\<exists>st'. api_DeleteUser office_services as_admin ''alice'' office = (Inr (), st') \<and> db (svStore st') = [] \<and> users (svStore st') = []"
proof -
  obtain r st' where r: "api_DeleteUser office_services as_admin ''alice'' office = (r, st')" by fastforce
  have "case (r, st') of (Inl e, st') \<Rightarrow> False
    | (Inr _, st') \<Rightarrow> db (svStore st') = filter (\<lambda>(k, x). devOwner x \<noteq> ''alice'') (db (svStore office)) \<and>
        users (svStore st') = AList.delete ''alice'' (users (svStore office))"
    using delete_user [of office_services as_admin office office_admin "''alice''"] office_ok(1) table_wg_table
    unfolding r office_callers by (auto split: sum.splits)
  then show ?thesis
    using r by (cases r) (auto simp: office_def site2_def site_device_def new_device_def Device_Properties.alice_def NewMemoryStorage_def)
qed

theorem credential_change_signs_out_witness:
  "\<exists>st'. api_serve office_services as_alice (RqChangePassword ''secret'' ''better than'') office = (Inr (), st') \<and>
     signed_out ''alice'' [] (svStore office) (svStore st')"
proof -
  let ?r = "api_serve office_services as_alice (RqChangePassword ''secret'' ''better than'') office"
  have "fst ?r = Inr ()" by code_simp
  then obtain st' where r: "?r = (Inr (), st')" by (cases ?r) simp
  moreover have "currentID as_alice office = []"
    by (simp add: currentID_def office_call_def CurrentSessionID_def session_Find_def)
  ultimately show ?thesis
    using credential_change_signs_out [OF office_ok(2), of as_alice Device_Properties.alice "RqChangePassword ''secret'' ''better than''"
        office_services "()" st'] by (simp add: office_callers Device_Properties.alice_def)
qed

end
