(* ===== verification/Dns.thy ===== *)
theory Dns
  imports Device_Manager Http Go_Crypto
begin

text \<open>
  The names of devices (\<^verbatim>\<open>internal/dnsproxy/auth.go\<close>, \<^verbatim>\<open>cmd/serve/dns.go\<close>): the zone built from the devices, its lookup, and
  the goroutine that rebuilds it.  The DNS library is an argument: how it replies, reads a resource record and
  splits a name.  Of a message the fields the code looks at are modelled; the OPT pseudo-record of the additional
  section, which the code reaches with \<^verbatim>\<open>IsEdns0\<close> and passes over everywhere else, is a field of its own.
  \<^verbatim>\<open>strings.ToLower\<close> takes the table of lower case beyond ASCII as an argument, as \<^const>\<open>to_upper\<close> does.
\<close>

section \<open>Messages\<close>

record question =
  quName :: string
  quType :: nat
  quClass :: nat

record rr =
  rrType :: nat
  rrTtl :: "32 word"
  rrData :: string

record opt_rr =
  optUDPSize :: nat
  optDo :: bool
  optOptions :: "(nat \<times> string) list"

record dns_msg =
  msgOpcode :: nat
  msgRcode :: nat
  msgAuthoritative :: bool
  msgTruncated :: bool
  msgAuthenticatedData :: bool
  msgCheckingDisabled :: bool
  msgQuestion :: "question list"
  msgAnswer :: "rr list"
  msgNs :: "rr list"
  msgExtra :: "rr list"
  msgOpt :: "opt_rr option"

definition new_msg :: dns_msg where
  "new_msg =
     \<lparr>msgOpcode = 0, msgRcode = 0, msgAuthoritative = False, msgTruncated = False, msgAuthenticatedData = False,
      msgCheckingDisabled = False, msgQuestion = [], msgAnswer = [], msgNs = [], msgExtra = [], msgOpt = None\<rparr>"

definition OpcodeQuery :: nat where "OpcodeQuery = 0"
definition ClassINET :: nat where "ClassINET = 1"
definition TypeA :: nat where "TypeA = 1"
definition TypeCNAME :: nat where "TypeCNAME = 5"
definition TypeAAAA :: nat where "TypeAAAA = 28"
definition TypeOPT :: nat where "TypeOPT = 41"
definition TypeANY :: nat where "TypeANY = 255"
definition RcodeServerFailure :: nat where "RcodeServerFailure = 2"
definition RcodeNameError :: nat where "RcodeNameError = 3"

record dns_lib =
  dlSetReply :: "dns_msg \<Rightarrow> dns_msg \<Rightarrow> dns_msg"
  dlSetRcode :: "dns_msg \<Rightarrow> dns_msg \<Rightarrow> nat \<Rightarrow> dns_msg"
  dlNewRR :: "string \<Rightarrow> rr res"
  dlSplitDomainName :: "string \<Rightarrow> string list"
  dlClassToString :: "nat \<Rightarrow> string"
  dlTypeToString :: "nat \<Rightarrow> string"
  dlSetEdns0 :: "dns_msg \<Rightarrow> nat \<Rightarrow> bool \<Rightarrow> dns_msg"
  dlTruncate :: "dns_msg \<Rightarrow> nat \<Rightarrow> dns_msg"

definition HandleFailed :: "dns_lib \<Rightarrow> dns_msg \<Rightarrow> dns_msg" where
  "HandleFailed L r = dlSetRcode L new_msg r RcodeServerFailure"

section \<open>The zone\<close>

definition lower_ascii :: "nat \<Rightarrow> nat" where
  "lower_ascii b = (if 65 \<le> b \<and> b \<le> 90 then b + 32 else b)"

definition to_lower :: "(nat \<Rightarrow> nat) \<Rightarrow> string \<Rightarrow> string" where
  "to_lower lwr s =
     (if list_all (\<lambda>c. byte c < 0x80) s then map (\<lambda>c. char_of (lower_ascii (byte c))) s
      else concat (map (\<lambda>r. chars_of (encode_rune (if r < 0x80 then lower_ascii r else lwr r))) (runes s)))"

type_synonym zone_key = "string \<times> string"
type_synonym zone = "(zone_key, addr list) amap"

text \<open>The tables of the Unicode standard the code uses: lower case, and the folding of \<^const>\<open>equal_fold\<close>.\<close>

record dns_auth =
  daLower :: "nat \<Rightarrow> nat"
  daFold :: "nat \<Rightarrow> nat"
  daDomain :: string
  daZone :: zone

definition fold_key :: "(nat \<Rightarrow> nat) \<Rightarrow> zone_key \<Rightarrow> zone_key" where
  "fold_key lwr k = (to_lower lwr (fst k), to_lower lwr (snd k))"

text \<open>The order of the list is the order in which the map is gone through; keys that fold to the same one
  overwrite each other in that order.\<close>

definition PushZone :: "zone \<Rightarrow> dns_auth \<Rightarrow> dns_auth" where
  "PushZone z a =
     a\<lparr>daZone := foldl (\<lambda>folded (k, addresses). AList.update (fold_key (daLower a) k) addresses folded) [] z\<rparr>"

definition getDevice :: "dns_auth \<Rightarrow> string \<Rightarrow> string \<Rightarrow> addr list" where
  "getDevice a owner device = (case map_of (daZone a) (fold_key (daLower a) (owner, device)) of None \<Rightarrow> [] | Some as \<Rightarrow> as)"

definition authoritativeTTL :: nat where "authoritativeTTL = 300"

definition newRR :: "dns_lib \<Rightarrow> string \<Rightarrow> nat \<Rightarrow> nat \<Rightarrow> string \<Rightarrow> rr res" where
  "newRR L qname qclass qtype payload =
     dlNewRR L (qname @ '' '' @ itoa authoritativeTTL @ '' '' @ dlClassToString L qclass @ '' '' @ dlTypeToString L qtype @ '' '' @ payload)"

text \<open>The records for one address, those that can be made.\<close>

definition record_of :: "dns_lib \<Rightarrow> string \<Rightarrow> question \<Rightarrow> nat \<Rightarrow> addr \<Rightarrow> rr list" where
  "record_of L qname q t addr = (case newRR L qname (quClass q) t (addr_string addr) of Inl e \<Rightarrow> [] | Inr r \<Rightarrow> [r])"

definition answers_for :: "dns_lib \<Rightarrow> string \<Rightarrow> question \<Rightarrow> addr \<Rightarrow> rr list" where
  "answers_for L qname q addr =
     (if (quType q = TypeAAAA \<or> quType q = TypeANY) \<and> is6 addr then record_of L qname q TypeAAAA addr else []) @
     (if (quType q = TypeA \<or> quType q = TypeANY) \<and> is4 addr then record_of L qname q TypeA addr else [])"

definition strip_domain :: "dns_auth \<Rightarrow> string \<Rightarrow> string" where
  "strip_domain a qname =
     (let n = length qname - length (daDomain a) in
      if length (daDomain a) \<le> length qname \<and> equal_fold (daFold a) (drop n qname) (daDomain a) then take n qname else qname)"

definition auth_Lookup :: "dns_lib \<Rightarrow> dns_auth \<Rightarrow> dns_msg \<Rightarrow> dns_msg res" where
  "auth_Lookup L a m =
     (case msgQuestion m of
        [q] \<Rightarrow>
          if quClass q \<noteq> ClassINET then Inl (Err ''only class INET allowed'')
          else
            (let parts = dlSplitDomainName L (strip_domain a (quName q)); n = length parts;
                 response = new_msg\<lparr>msgAuthoritative := True\<rparr>;
                 reply = (\<lambda>response qname addresses.
                   Inr (dlSetReply L (response\<lparr>msgAnswer := msgAnswer response @ concat (map (answers_for L qname q) addresses)\<rparr>) m)) in
             if parts = [] then reply response (quName q) (getDevice a [] [])
             else if n < 2 then Inr (dlSetReply L response m)
             else
               (let device = parts ! (n - 2); owner = parts ! (n - 1);
                    target = device @ ''.'' @ owner @ ''.'' @ daDomain a; addresses = getDevice a owner device in
                if n > 2 then
                  (case newRR L (quName q) (quClass q) TypeCNAME target of
                     Inl e \<Rightarrow> Inl e
                   | Inr rr \<Rightarrow>
                       if addresses = [] then Inr (dlSetRcode L (response\<lparr>msgAnswer := [rr]\<rparr>) m RcodeNameError)
                       else reply (response\<lparr>msgAnswer := [rr]\<rparr>) target addresses)
                else if addresses = [] then Inr (dlSetRcode L response m RcodeNameError)
                else reply response (quName q) addresses))
      | _ \<Rightarrow> Inl (Err ''only one question per packet allowed''))"

text \<open>The message that is written to the client.\<close>

definition auth_ServeDNS :: "dns_lib \<Rightarrow> dns_auth \<Rightarrow> dns_msg \<Rightarrow> dns_msg" where
  "auth_ServeDNS L a r =
     (if msgOpcode r = OpcodeQuery then
        (case auth_Lookup L a r of Inl e \<Rightarrow> HandleFailed L r | Inr m \<Rightarrow> m)
      else dlSetReply L new_msg r)"

section \<open>The zone of the devices\<close>

definition generateZone :: "device list \<Rightarrow> addr list \<Rightarrow> zone" where
  "generateZone devices vpnips =
     AList.update ([], []) vpnips
       (foldl (\<lambda>zone d. AList.update (devOwner d, devName d) (fst (ParseAddresses (devAddress d))) zone) [] devices)"

section \<open>Looking up what was pushed\<close>

lemma find_snoc: "find P (xs @ [y]) = (case find P xs of None \<Rightarrow> if P y then Some y else None | Some x \<Rightarrow> Some x)"
  by (induction xs) auto

lemma find_map: "find P (map g xs) = map_option g (find (P \<circ> g) xs)"
  by (induction xs) auto

text \<open>The last of the entries whose keys fold to the one that is looked up.\<close>

lemma foldl_update_lookup:
  "map_of (foldl (\<lambda>m (k, v). AList.update (f k) v m) m0 z) K =
     (case find (\<lambda>(k, v). f k = K) (rev z) of None \<Rightarrow> map_of m0 K | Some (k, v) \<Rightarrow> Some v)"
proof (induction z arbitrary: m0)
  case (Cons e z)
  obtain k v where e: "e = (k, v)" by fastforce
  show ?case using Cons.IH [of "AList.update (f k) v m0"] by (auto simp: e find_snoc update_conv' split: option.splits)
qed simp

definition zone_of_devices :: "device list \<Rightarrow> addr list \<Rightarrow> zone" where
  "zone_of_devices ds vpnips = map (\<lambda>d. ((devOwner d, devName d), fst (ParseAddresses (devAddress d)))) ds @ [(([], []), vpnips)]"

text \<open>Names that differ in more than case, from each other and from the name of the server.\<close>

definition names_apart :: "(nat \<Rightarrow> nat) \<Rightarrow> device list \<Rightarrow> bool" where
  "names_apart lwr ds \<longleftrightarrow> distinct (map (fold_key lwr) (([], []) # map (\<lambda>d. (devOwner d, devName d)) ds))"

lemma update_new: "k \<notin> fst ` set m \<Longrightarrow> AList.update k v m = m @ [(k, v)]"
  by (induction m) auto

lemma generateZone_devices:
  assumes "names_apart lwr ds"
  shows "generateZone ds vpnips = zone_of_devices ds vpnips"
proof -
  have d: "distinct (([], []) # map (\<lambda>d. (devOwner d, devName d)) ds)"
    using assms unfolding names_apart_def by (simp only: distinct_map)
  have "foldl (\<lambda>zone d. AList.update (devOwner d, devName d) (fst (ParseAddresses (devAddress d))) zone) z ds =
      z @ map (\<lambda>d. ((devOwner d, devName d), fst (ParseAddresses (devAddress d)))) ds"
    if "distinct (map fst z @ map (\<lambda>d. (devOwner d, devName d)) ds)" for z
    using that
  proof (induction ds arbitrary: z)
    case (Cons x ds)
    have "AList.update (devOwner x, devName x) (fst (ParseAddresses (devAddress x))) z =
        z @ [((devOwner x, devName x), fst (ParseAddresses (devAddress x)))]"
      using Cons.prems by (intro update_new) auto
    then show ?case using Cons.IH [of "z @ [((devOwner x, devName x), fst (ParseAddresses (devAddress x)))]"] Cons.prems by auto
  qed simp
  from this [of "[]"] show ?thesis
    using d by (auto simp: generateZone_def zone_of_devices_def intro!: update_new)
qed

lemma getDevice_pushed:
  assumes "names_apart (daLower a) ds"
  shows "getDevice (PushZone (generateZone ds vpnips) a) owner device =
    (if fold_key (daLower a) (owner, device) = fold_key (daLower a) ([], []) then vpnips
     else case find (\<lambda>d. fold_key (daLower a) (devOwner d, devName d) = fold_key (daLower a) (owner, device)) (rev ds) of
       None \<Rightarrow> [] | Some d \<Rightarrow> fst (ParseAddresses (devAddress d)))"
proof -
  let ?f = "fold_key (daLower a)"
  have "find (\<lambda>(k, v). ?f k = K) (rev (zone_of_devices ds vpnips)) =
      (if ?f ([], []) = K then Some (([], []), vpnips)
       else map_option (\<lambda>d. ((devOwner d, devName d), fst (ParseAddresses (devAddress d)))) (find (\<lambda>d. ?f (devOwner d, devName d) = K) (rev ds)))" for K
    by (auto simp: zone_of_devices_def rev_map find_map comp_def)
  then show ?thesis
    unfolding generateZone_devices [OF assms] getDevice_def PushZone_def
    by (auto simp: foldl_update_lookup split: option.splits)
qed

section \<open>Resolving a device\<close>

text \<open>Names as hosts have them: labels of letters, digits, hyphens and underscores, each ended by a dot.\<close>

definition plain_char :: "char \<Rightarrow> bool" where
  "plain_char c \<longleftrightarrow> c \<in> set ''abcdefghijklmnopqrstuvwxyzABCDEFGHIJKLMNOPQRSTUVWXYZ0123456789-_''"

definition plain_label :: "string \<Rightarrow> bool" where
  "plain_label l \<longleftrightarrow> l \<noteq> [] \<and> length l \<le> 63 \<and> list_all plain_char l"

definition dotted :: "string list \<Rightarrow> string" where
  "dotted ls = concat (map (\<lambda>l. l @ ''.'') ls)"

definition plain_labels :: "string list \<Rightarrow> bool" where
  "plain_labels ls \<longleftrightarrow> list_all plain_label ls \<and> length (dotted ls) \<le> 254"

text \<open>What the code relies on of the library: a reply keeps the answers that are there and carries the code of
  success, \<^verbatim>\<open>SetRcode\<close> replies with the code it is given; a plain name is split at its dots; and a record of a
  plain name for an address of the family of its type has that type and the text of that address.\<close>

definition dns_laws :: "dns_lib \<Rightarrow> bool" where
  "dns_laws L \<longleftrightarrow>
     (\<forall>m r. msgAnswer (dlSetReply L m r) = msgAnswer m \<and> msgRcode (dlSetReply L m r) = 0) \<and>
     (\<forall>m r c. msgAnswer (dlSetRcode L m r c) = msgAnswer m \<and> msgRcode (dlSetRcode L m r c) = c) \<and>
     (\<forall>ls. plain_labels ls \<longrightarrow> dlSplitDomainName L (dotted ls) = ls) \<and>
     (\<forall>ls t addr. plain_labels ls \<and> ls \<noteq> [] \<and> zone_of addr = [] \<and> (t = TypeA \<and> is4 addr \<or> t = TypeAAAA \<and> is6 addr) \<longrightarrow>
        (\<exists>r. newRR L (dotted ls) ClassINET t (addr_string addr) = Inr r \<and> rrType r = t \<and> rrData r = addr_string addr))"

lemma dns_lawsD:
  assumes "dns_laws L"
  shows "msgAnswer (dlSetReply L m r) = msgAnswer m" "msgRcode (dlSetReply L m r) = 0"
    "msgAnswer (dlSetRcode L m r c) = msgAnswer m" "msgRcode (dlSetRcode L m r c) = c"
    "plain_labels ls \<Longrightarrow> dlSplitDomainName L (dotted ls) = ls"
    "plain_labels ls \<Longrightarrow> ls \<noteq> [] \<Longrightarrow> zone_of addr = [] \<Longrightarrow> t = TypeA \<and> is4 addr \<or> t = TypeAAAA \<and> is6 addr \<Longrightarrow>
      \<exists>r. newRR L (dotted ls) ClassINET t (addr_string addr) = Inr r \<and> rrType r = t \<and> rrData r = addr_string addr"
  using assms unfolding dns_laws_def by (simp_all)

lemma plain_labels_prefix: "plain_labels (xs @ ys) \<Longrightarrow> plain_labels xs"
  by (auto simp: plain_labels_def dotted_def)

lemma record_texts:
  assumes "dns_laws L" "quClass q = ClassINET" "plain_labels ls" "ls \<noteq> []" "zone_of addr = []"
    and "t = TypeA \<and> is4 addr \<or> t = TypeAAAA \<and> is6 addr"
  shows "map rrData (record_of L (dotted ls) q t addr) = [addr_string addr]"
proof -
  obtain r where "newRR L (dotted ls) ClassINET t (addr_string addr) = Inr r" "rrData r = addr_string addr"
    using dns_lawsD(6) [OF assms(1,3-6)] by blast
  then show ?thesis by (simp add: record_of_def assms(2))
qed

lemma is4_not_is6: "is4 a \<Longrightarrow> \<not> is6 a"
  by (cases a) auto

lemma answer_texts:
  assumes "dns_laws L" "quClass q = ClassINET" "plain_labels ls" "ls \<noteq> []" "list_all (\<lambda>a. zone_of a = []) addrs"
  shows "map rrData (concat (map (answers_for L (dotted ls) q) addrs)) =
    map addr_string (filter (\<lambda>a. (is4 a \<and> quType q \<in> {TypeA, TypeANY}) \<or> (is6 a \<and> quType q \<in> {TypeAAAA, TypeANY})) addrs)"
  using assms(5)
proof (induction addrs)
  case (Cons a addrs)
  then show ?case using record_texts [OF assms(1-4), of a] is4_not_is6 [of a] by (auto simp: answers_for_def)
qed simp

lemma strip_plain:
  assumes "length dm = length (daDomain a)" "equal_fold (daFold a) dm (daDomain a)"
  shows "strip_domain a (front @ dm) = front"
  using assms by (simp add: strip_domain_def Let_def)

text \<open>What a query for two labels under the domain is answered with.\<close>

lemma Lookup_two_labels:
  assumes "dns_laws L" "msgQuestion m = [q]" "quClass q = ClassINET" "quName q = dotted [device, owner] @ dm"
    and "plain_labels [device, owner]" "length dm = length (daDomain a)" "equal_fold (daFold a) dm (daDomain a)"
  shows "case getDevice a owner device of
      [] \<Rightarrow> \<exists>r. auth_Lookup L a m = Inr r \<and> msgRcode r = RcodeNameError \<and> msgAnswer r = []
    | addrs \<Rightarrow> \<exists>r. auth_Lookup L a m = Inr r \<and> msgRcode r = 0 \<and> msgAnswer r = concat (map (answers_for L (quName q) q) addrs)"
proof -
  have "dlSplitDomainName L (strip_domain a (quName q)) = [device, owner]"
    unfolding assms(4) strip_plain [OF assms(6,7)] by (rule dns_lawsD(5) [OF assms(1,5)])
  then show ?thesis
    by (auto simp: auth_Lookup_def assms(2,3) Let_def dns_lawsD(1-4) [OF assms(1)] new_msg_def split: list.splits)
qed

text \<open>
  C36. A device answers to its name.  Suppose every device has an address, none has one with a zone, no two devices have
  names and owners that differ only in case, and the device and the owner asked for are plain labels: letters, digits,
  dashes and underscores, so no dot, no \<^verbatim>\<open>@\<close> and no \<^verbatim>\<open>:\<close> as the subjects of some providers have.  Then a query for the
  name of a device, of its owner and the domain, in whatever case, is answered with exactly the addresses of that
  device of the family asked for, and a query for a plain name no device has is answered with the code for names
  that do not exist.
\<close>

theorem device_resolves:
  assumes "dns_laws L" "names_apart (daLower a) ds"
    and "\<And>d. d \<in> set ds \<Longrightarrow> fst (ParseAddresses (devAddress d)) \<noteq> [] \<and> list_all (\<lambda>a. zone_of a = []) (fst (ParseAddresses (devAddress d)))"
    and "msgQuestion m = [q]" "quClass q = ClassINET" "quName q = dotted [device, owner] @ dotted dl"
    and "plain_labels ([device, owner] @ dl)" "length (dotted dl) = length (daDomain a)" "equal_fold (daFold a) (dotted dl) (daDomain a)"
    and "fold_key (daLower a) (owner, device) \<noteq> fold_key (daLower a) ([], [])"
  shows "\<exists>r. auth_Lookup L (PushZone (generateZone ds vpnips) a) m = Inr r \<and>
    (if \<exists>d \<in> set ds. fold_key (daLower a) (devOwner d, devName d) = fold_key (daLower a) (owner, device)
     then msgRcode r = 0 \<and>
       (\<forall>d \<in> set ds. fold_key (daLower a) (devOwner d, devName d) = fold_key (daLower a) (owner, device) \<longrightarrow>
          map rrData (msgAnswer r) = map addr_string
            (filter (\<lambda>a. (is4 a \<and> quType q \<in> {TypeA, TypeANY}) \<or> (is6 a \<and> quType q \<in> {TypeAAAA, TypeANY}))
              (fst (ParseAddresses (devAddress d)))))
     else msgRcode r = RcodeNameError \<and> msgAnswer r = [])"
proof -
  let ?a = "PushZone (generateZone ds vpnips) a" and ?hit = "\<lambda>d. fold_key (daLower a) (devOwner d, devName d) = fold_key (daLower a) (owner, device)"
  have same: "daDomain ?a = daDomain a" "daFold ?a = daFold a" by (simp_all add: PushZone_def)
  note two = Lookup_two_labels [of L m q device owner "dotted dl" ?a, OF assms(1,4-6) plain_labels_prefix [OF assms(7)], unfolded same, OF assms(8,9)]
  have name: "quName q = dotted ([device, owner] @ dl)" by (simp add: assms(6) dotted_def)
  note found = getDevice_pushed [OF assms(2), of vpnips owner device]
  show ?thesis
  proof (cases "find ?hit (rev ds)")
    case None
    then have "\<not> (\<exists>d \<in> set ds. ?hit d)" by (auto simp: find_None_iff)
    moreover have "getDevice ?a owner device = []" using found None assms(10) by simp
    ultimately show ?thesis using two by auto
  next
    case (Some d)
    then have d: "d \<in> set ds" "?hit d" by (auto simp: find_Some_iff in_set_conv_nth) (metis in_set_conv_nth length_rev nth_mem set_rev)
    have addrs: "getDevice ?a owner device = fst (ParseAddresses (devAddress d))" using found Some assms(10) by simp
    have "distinct (map (\<lambda>d. fold_key (daLower a) (devOwner d, devName d)) ds)"
      using assms(2) by (simp add: names_apart_def comp_def)
    then have inj: "inj_on (\<lambda>d. fold_key (daLower a) (devOwner d, devName d)) (set ds)" by (simp add: distinct_map)
    have uniq: "e = d" if "e \<in> set ds" "?hit e" for e
      by (rule inj_onD [OF inj]) (use that d in simp_all)
    obtain r where r: "auth_Lookup L ?a m = Inr r" "msgRcode r = 0" "msgAnswer r = concat (map (answers_for L (quName q) q) (fst (ParseAddresses (devAddress d))))"
      using two assms(3) [OF d(1)] unfolding addrs by (auto split: list.splits)
    have ex: "\<exists>d \<in> set ds. ?hit d" using d by blast
    have texts: "map rrData (msgAnswer r) = map addr_string
        (filter (\<lambda>a. (is4 a \<and> quType q \<in> {TypeA, TypeANY}) \<or> (is6 a \<and> quType q \<in> {TypeAAAA, TypeANY}))
          (fst (ParseAddresses (devAddress e))))" if "e \<in> set ds" "?hit e" for e
      unfolding uniq [OF that] r(3) name by (rule answer_texts [OF assms(1,5,7)]) (use assms(3) [OF d(1)] in auto)
    show ?thesis
      by (rule exI [of _ r], unfold if_P [OF ex]) (intro conjI ballI impI r(1,2) texts)
  qed
qed

end
