(* ===== verification/Dns_Proxy.thy ===== *)
theory Dns_Proxy
  imports Dns Netip_Lemmas
begin

text \<open>
  The DNS proxy (\<^verbatim>\<open>internal/dnsproxy/proxy.go\<close>, \<^verbatim>\<open>server.go\<close>): answers from a cache, and otherwise from the first upstream
  that answers.  The LRU cache and the DNS library are arguments.  What the network does is an argument of each lookup:
  for the n-th upstream that is asked, what the clients for UDP and TCP return and the time at which they do.
\<close>

section \<open>State\<close>

record cached_response =
  crResponse :: dns_msg
  crExpiresAt :: instant

record 'c lru =
  lruGet :: "string \<Rightarrow> 'c \<Rightarrow> cached_response option \<times> 'c"
  lruAdd :: "string \<Rightarrow> cached_response \<Rightarrow> 'c \<Rightarrow> 'c"
  lruRemove :: "string \<Rightarrow> 'c \<Rightarrow> 'c"

record 'c dns_proxy =
  dpCache :: "'c option"
  dpUpstream :: "string list"
  dpFailedAt :: "(string, instant) amap"

record network_reply =
  nrUDP :: "dns_msg \<Rightarrow> string \<Rightarrow> dns_msg res"
  nrTCP :: "dns_msg \<Rightarrow> string \<Rightarrow> dns_msg res"
  nrTime :: instant

definition upstreamCooldown :: duration where "upstreamCooldown = 30 * second"

section \<open>Keys and times\<close>

definition index_panic :: go_error where
  "index_panic = Panic ''runtime error: index out of range [0] with length 0''"

definition makekey :: "dns_msg \<Rightarrow> string res" where
  "makekey m =
     (case msgQuestion m of
        [] \<Rightarrow> Inl index_panic
      | q # qs \<Rightarrow>
          (let flags = (if msgAuthenticatedData m then 1 else 0) + (if msgCheckingDisabled m then 2 else 0) +
               (case msgOpt m of Some opt \<Rightarrow> if optDo opt then 4 else 0 | None \<Rightarrow> 0) in
           Inr (quName q @ '':'' @ itoa (quType q) @ '':'' @ itoa (quClass q) @ '':'' @ itoa flags)))"

text \<open>The lowest time to live of all records but OPT pseudo-records, in nanoseconds; 0 where there are none.\<close>

definition msg_records :: "dns_msg \<Rightarrow> rr list" where
  "msg_records m = filter (\<lambda>r. rrType r \<noteq> TypeOPT) (msgAnswer m @ msgNs m @ msgExtra m)"

definition minTTL :: "dns_msg \<Rightarrow> duration" where
  "minTTL m =
     (if msg_records m = [] then 0
      else uint (foldl (\<lambda>low r. if rrTtl r < low then rrTtl r else low) (- 1) (msg_records m)) * second)"

section \<open>Upstreams\<close>

definition upstreamAddr :: "string \<Rightarrow> string" where
  "upstreamAddr upstream = (case SplitHostPort upstream of Some _ \<Rightarrow> upstream | None \<Rightarrow> JoinHostPort upstream ''53'')"

definition cooling :: "instant \<Rightarrow> (string, instant) amap \<Rightarrow> string \<Rightarrow> bool" where
  "cooling now failedAt u = (case map_of failedAt u of None \<Rightarrow> False | Some t \<Rightarrow> time_sub now t < upstreamCooldown)"

definition orderedUpstreams :: "instant \<Rightarrow> 'c dns_proxy \<Rightarrow> string list" where
  "orderedUpstreams now d =
     filter (\<lambda>u. \<not> cooling now (dpFailedAt d) u) (dpUpstream d) @ filter (cooling now (dpFailedAt d)) (dpUpstream d)"

definition markFailed :: "instant \<Rightarrow> string \<Rightarrow> 'c dns_proxy \<Rightarrow> 'c dns_proxy" where
  "markFailed now u d = d\<lparr>dpFailedAt := AList.update u now (dpFailedAt d)\<rparr>"

definition markHealthy :: "string \<Rightarrow> 'c dns_proxy \<Rightarrow> 'c dns_proxy" where
  "markHealthy u d = d\<lparr>dpFailedAt := AList.delete u (dpFailedAt d)\<rparr>"

definition proxy_exchange :: "network_reply \<Rightarrow> dns_msg \<Rightarrow> string \<Rightarrow> dns_msg res" where
  "proxy_exchange net m upstream =
     (let target = upstreamAddr upstream in
      case nrUDP net m target of
        Inl e \<Rightarrow> Inl e
      | Inr response \<Rightarrow>
          if \<not> msgTruncated response then Inr response
          else (case nrTCP net m target of
              Inl e \<Rightarrow> Inl (wrap_err ''retry over TCP failed'' e)
            | Inr response \<Rightarrow> Inr response))"

text \<open>The loop over the upstreams: the response and the time it came, or the first error.\<close>

fun ask_upstreams ::
  "(nat \<Rightarrow> network_reply) \<Rightarrow> nat \<Rightarrow> dns_msg \<Rightarrow> string list \<Rightarrow> go_error option \<Rightarrow> 'c dns_proxy
     \<Rightarrow> (go_error option + dns_msg \<times> instant) \<times> 'c dns_proxy" where
  "ask_upstreams net n m [] firstErr d = (Inl firstErr, d)"
| "ask_upstreams net n m (u # us) firstErr d =
     (case proxy_exchange (net n) m u of
        Inl e \<Rightarrow>
          ask_upstreams net (Suc n) m us (case firstErr of None \<Rightarrow> Some e | Some f \<Rightarrow> Some f) (markFailed (nrTime (net n)) u d)
      | Inr response \<Rightarrow> (Inr (response, nrTime (net n)), markHealthy u d))"

section \<open>Lookups\<close>

definition cacheResponse :: "'c lru \<Rightarrow> instant \<Rightarrow> string \<Rightarrow> dns_msg \<Rightarrow> 'c dns_proxy \<Rightarrow> 'c dns_proxy" where
  "cacheResponse R now k response d =
     (case dpCache d of
        None \<Rightarrow> d
      | Some c \<Rightarrow>
          if msgAnswer response = [] then d
          else if minTTL response > 0
          then d\<lparr>dpCache := Some (lruAdd R k \<lparr>crResponse = response, crExpiresAt = now + minTTL response\<rparr> c)\<rparr>
          else d)"

text \<open>The cache is looked at first; an entry that has expired is dropped.\<close>

definition cached :: "'c lru \<Rightarrow> instant \<Rightarrow> string \<Rightarrow> 'c dns_proxy \<Rightarrow> dns_msg option \<times> 'c dns_proxy" where
  "cached R now k d =
     (case dpCache d of
        None \<Rightarrow> (None, d)
      | Some c \<Rightarrow>
          (case lruGet R k c of
             (None, c) \<Rightarrow> (None, d\<lparr>dpCache := Some c\<rparr>)
           | (Some entry, c) \<Rightarrow>
               if now < crExpiresAt entry then (Some (crResponse entry), d\<lparr>dpCache := Some c\<rparr>)
               else (None, d\<lparr>dpCache := Some (lruRemove R k c)\<rparr>)))"

definition proxy_Lookup ::
  "'c lru \<Rightarrow> (nat \<Rightarrow> network_reply) \<Rightarrow> instant \<Rightarrow> dns_msg \<Rightarrow> 'c dns_proxy \<Rightarrow> dns_msg res \<times> 'c dns_proxy" where
  "proxy_Lookup R net now m d =
     (case makekey m of
        Inl p \<Rightarrow> (Inl p, d)
      | Inr k \<Rightarrow>
          (case cached R now k d of
             (Some response, d) \<Rightarrow> (Inr response, d)
           | (None, d) \<Rightarrow>
               (case ask_upstreams net 0 m (orderedUpstreams now d) None d of
                  (Inl (Some e), d) \<Rightarrow> (Inl (wrap_err ''no response from upstream servers'' e), d)
                | (Inl None, d) \<Rightarrow> (Inl (Err ''no upstream servers configured''), d)
                | (Inr (response, t), d) \<Rightarrow> (Inr response, cacheResponse R t k response d))))"

section \<open>Serving\<close>

definition EDNS0SUBNET :: nat where "EDNS0SUBNET = 8"

definition purgeECS :: "dns_msg \<Rightarrow> dns_msg" where
  "purgeECS m =
     (case msgOpt m of
        None \<Rightarrow> m
      | Some opt \<Rightarrow> m\<lparr>msgOpt := Some (opt\<lparr>optOptions := filter (\<lambda>(code, x). code \<noteq> EDNS0SUBNET) (optOptions opt)\<rparr>)\<rparr>)"

definition ensureEDNS0BufSize :: "dns_lib \<Rightarrow> dns_msg \<Rightarrow> dns_msg" where
  "ensureEDNS0BufSize L m =
     (case msgOpt m of
        Some opt \<Rightarrow> m\<lparr>msgOpt := Some (opt\<lparr>optUDPSize := 1232\<rparr>)\<rparr>
      | None \<Rightarrow> dlSetEdns0 L m 1232 False)"

definition truncateIfRequired :: "dns_lib \<Rightarrow> dns_msg \<Rightarrow> dns_msg \<Rightarrow> string \<Rightarrow> dns_msg" where
  "truncateIfRequired L response original transport =
     dlTruncate L response
       (if transport = ''tcp'' then 65535
        else (case msgOpt original of Some opt \<Rightarrow> optUDPSize opt | None \<Rightarrow> 512))"

text \<open>What is written to the client.  A panic is answered like any other failure.\<close>

definition proxy_ServeDNS ::
  "dns_lib \<Rightarrow> 'c lru \<Rightarrow> (nat \<Rightarrow> network_reply) \<Rightarrow> instant \<Rightarrow> string \<Rightarrow> dns_msg \<Rightarrow> 'c dns_proxy \<Rightarrow> dns_msg \<times> 'c dns_proxy" where
  "proxy_ServeDNS L R net now transport r d =
     (if msgOpcode r \<noteq> OpcodeQuery then (dlSetReply L new_msg r, d)
      else
        (let r = purgeECS r in
         case proxy_Lookup R net now (ensureEDNS0BufSize L r) d of
           (Inl e, d) \<Rightarrow> (HandleFailed L r, d)
         | (Inr m, d) \<Rightarrow> (truncateIfRequired L ((dlSetReply L m r)\<lparr>msgRcode := msgRcode m\<rparr>) r transport, d)))"

text \<open>\<^verbatim>\<open>New\<close>, as far as the proxy goes: without upstreams there is none, and a size of 0 turns the cache off.\<close>

definition dnsproxy_New :: "(nat \<Rightarrow> 'c res) \<Rightarrow> string list \<Rightarrow> int \<Rightarrow> 'c dns_proxy res" where
  "dnsproxy_New newCache upstream cacheSize =
     (if upstream = [] then Inl (Err ''at least 1 upstream dns server is required for the dns proxy server to function'')
      else if cacheSize > 0 then
        (case newCache (nat cacheSize) of
           Inl e \<Rightarrow> Inl (wrap_err ''failed to create the dns response cache'' e)
         | Inr c \<Rightarrow> Inr \<lparr>dpCache = Some c, dpUpstream = upstream, dpFailedAt = []\<rparr>)
      else Inr \<lparr>dpCache = None, dpUpstream = upstream, dpFailedAt = []\<rparr>)"

section \<open>Keys\<close>

text \<open>The key has no colon behind the name but the three that separate it, so it names its question and its flags.\<close>

definition msg_flags :: "dns_msg \<Rightarrow> bool \<times> bool \<times> bool" where
  "msg_flags m = (msgAuthenticatedData m, msgCheckingDisabled m, case msgOpt m of Some opt \<Rightarrow> optDo opt | None \<Rightarrow> False)"

lemma last_field:
  assumes "xs @ CHR '':'' # ys = us @ CHR '':'' # vs" "CHR '':'' \<notin> set ys" "CHR '':'' \<notin> set vs"
  shows "xs = us \<and> ys = vs"
proof -
  have eq: "rev ys @ CHR '':'' # rev xs = rev vs @ CHR '':'' # rev us" using arg_cong [OF assms(1), of rev] by simp
  have front: "takeWhile (\<lambda>c. c \<noteq> CHR '':'') (rev zs @ CHR '':'' # ws) = rev zs" if "CHR '':'' \<notin> set zs" for zs ws
    using that by (subst takeWhile_append2) auto
  have "rev ys = rev vs" using arg_cong [OF eq, of "takeWhile (\<lambda>c. c \<noteq> CHR '':'')"] assms(2,3) by (simp add: front)
  then show ?thesis using assms(1) by simp
qed

lemma itoa_no_colon: "CHR '':'' \<notin> set (itoa n)"
  using itoa_dec [of "CHR '':''" n] by (auto simp: is_dec_def byte_def)

lemma makekey_inj:
  assumes "makekey m = Inr k" "makekey m' = Inr k"
  obtains q qs q' qs' where "msgQuestion m = q # qs" "msgQuestion m' = q' # qs'" "quName q = quName q'" "quType q = quType q'"
    "quClass q = quClass q'" "msg_flags m = msg_flags m'"
proof -
  obtain q qs q' qs' where q: "msgQuestion m = q # qs" "msgQuestion m' = q' # qs'"
    using assms by (auto simp: makekey_def split: list.splits)
  let ?flags = "\<lambda>m. (if msgAuthenticatedData m then 1 else 0) + (if msgCheckingDisabled m then 2 else 0) +
    (case msgOpt m of Some opt \<Rightarrow> if optDo opt then 4 else (0::nat) | None \<Rightarrow> 0)"
  have "(((quName q @ CHR '':'' # itoa (quType q)) @ CHR '':'' # itoa (quClass q)) @ CHR '':'' # itoa (?flags m)) =
      (((quName q' @ CHR '':'' # itoa (quType q')) @ CHR '':'' # itoa (quClass q')) @ CHR '':'' # itoa (?flags m'))"
    using assms by (simp add: makekey_def q Let_def)
  note f1 = last_field [OF this itoa_no_colon itoa_no_colon]
  note f2 = last_field [OF conjunct1 [OF f1] itoa_no_colon itoa_no_colon]
  note f3 = last_field [OF conjunct1 [OF f2] itoa_no_colon itoa_no_colon]
  note eqs = conjunct1 [OF f3] conjunct2 [OF f3] conjunct2 [OF f2] conjunct2 [OF f1]
  have "msg_flags m = msg_flags m'"
    using itoa_inj [OF eqs(4)] by (auto simp: msg_flags_def split: option.splits if_splits)
  then show thesis by (rule that [OF q eqs(1) itoa_inj [OF eqs(2)] itoa_inj [OF eqs(3)]])
qed

section \<open>Times to live\<close>

lemma foldl_min_le:
  fixes low :: "32 word"
  shows "foldl (\<lambda>low r. if rrTtl r < low then rrTtl r else low) low rs \<le> low \<and>
    (\<forall>r \<in> set rs. foldl (\<lambda>low r. if rrTtl r < low then rrTtl r else low) low rs \<le> rrTtl r)"
proof (induction rs arbitrary: low)
  case (Cons r rs)
  show ?case using Cons.IH [of "rrTtl r"] Cons.IH [of low] by (auto intro: order.trans)
qed simp

lemma minTTL_le: "r \<in> set (msg_records m) \<Longrightarrow> minTTL m \<le> uint (rrTtl r) * second"
  using foldl_min_le [of "- 1" "msg_records m"]
  by (auto simp: minTTL_def second_def word_le_def)

section \<open>Upstreams, lookups one at a time\<close>

lemma orderedUpstreams_mset: "mset (orderedUpstreams now d) = mset (dpUpstream d)"
  by (simp add: orderedUpstreams_def add.commute flip: multiset_partition)

lemma orderedUpstreams_set [simp]: "set (orderedUpstreams now d) = set (dpUpstream d)"
  using orderedUpstreams_mset [of now d] by (metis set_mset_mset)

lemma ask_upstreams_answer:
  "fst (ask_upstreams net n m us e d) = Inr (response, t) \<Longrightarrow>
     \<exists>i u. u \<in> set us \<and> proxy_exchange (net i) m u = Inr response \<and> t = nrTime (net i)"
  by (induction net n m us e d rule: ask_upstreams.induct) (auto split: sum.splits)

lemma ask_upstreams_fails:
  "fst (ask_upstreams net n m us e d) = Inl f \<Longrightarrow> u \<in> set us \<Longrightarrow> \<exists>i err. proxy_exchange (net i) m u = Inl err"
  by (induction net n m us e d rule: ask_upstreams.induct) (auto split: sum.splits)

lemma cached_upstreams [simp]: "dpUpstream (snd (cached R now k d)) = dpUpstream d"
  by (simp add: cached_def split: option.splits prod.splits)

text \<open>
  C39. One upstream that answers is enough: whatever state the cache and the cooldowns are in, a lookup of a message with a
  question is answered as long as there is an upstream that answers whenever it is asked.
\<close>

theorem lookup_answers:
  assumes "msgQuestion m \<noteq> []" "u \<in> set (dpUpstream d)" "\<And>i. \<exists>r. proxy_exchange (net i) m u = Inr r"
  shows "\<exists>response. fst (proxy_Lookup R net now m d) = Inr response"
proof -
  obtain k where k: "makekey m = Inr k" using assms(1) by (auto simp: makekey_def Let_def neq_Nil_conv)
  obtain c d' where c: "cached R now k d = (c, d')" by fastforce
  have up: "dpUpstream d' = dpUpstream d" using cached_upstreams [of R now k d] c by simp
  have "fst (ask_upstreams net 0 m (orderedUpstreams now d') None d') \<noteq> Inl f" for f
  proof
    assume "fst (ask_upstreams net 0 m (orderedUpstreams now d') None d') = Inl f"
    then obtain i err where "proxy_exchange (net i) m u = Inl err"
      using ask_upstreams_fails [of net 0 m "orderedUpstreams now d'" None d' f u] assms(2) up by auto
    then show False using assms(3) [of i] by auto
  qed
  then obtain response t d'' where "ask_upstreams net 0 m (orderedUpstreams now d') None d' = (Inr (response, t), d'')"
    by (metis fst_conv obj_sumE prod.exhaust)
  then show ?thesis by (cases c) (simp_all add: proxy_Lookup_def k c)
qed

end
