(* ===== verification/Server_Start.thy ===== *)
theory Server_Start
  imports Server_Config Dns_Proxy
begin

text \<open>
  Starting the server: the commands of the operator (\<^verbatim>\<open>internal/hooks/hooks.go\<close>), the interface
  (\<^verbatim>\<open>startWireGuard\<close> in \<^verbatim>\<open>cmd/serve/wireguard.go\<close>), the upstreams of the DNS proxy
  (\<^verbatim>\<open>internal/resolvconf\<close>, \<^verbatim>\<open>cmd/serve/config.go\<close>) and \<^verbatim>\<open>startDNS\<close>.  What is tr to the host is a list of events; how the
  host answers to an event, after those before it, is an argument.
\<close>

section \<open>Lifecycle commands\<close>

datatype host_event =
    Shell string string
  | CreateInterface string
  | LoadConfig "string list"
  | Forward forwarding_options
  | CloseInterface

type_synonym host = "host_event list \<Rightarrow> go_error option"

definition host_do :: "host \<Rightarrow> host_event \<Rightarrow> host_event list \<Rightarrow> go_error option \<times> host_event list" where
  "host_do H e tr = (H (tr @ [e]), tr @ [e])"

fun replace_placeholder :: "string \<Rightarrow> string \<Rightarrow> string" where
  "replace_placeholder iface [] = []"
| "replace_placeholder iface (c # cs) =
     (if c = CHR ''%'' \<and> cs \<noteq> [] \<and> hd cs = CHR ''i'' then iface @ replace_placeholder iface (tl cs)
      else c # replace_placeholder iface cs)"

fun hooks_Run :: "host \<Rightarrow> string \<Rightarrow> string \<Rightarrow> string list \<Rightarrow> host_event list \<Rightarrow> go_error option \<times> host_event list" where
  "hooks_Run H phase iface [] tr = (None, tr)"
| "hooks_Run H phase iface (command # commands) tr =
     (let command = replace_placeholder iface command in
      case host_do H (Shell phase command) tr of
        (Some e, tr) \<Rightarrow> (Some (wrap_err (phase @ '' command failed: '' @ command) e), tr)
      | (None, tr) \<Rightarrow> hooks_Run H phase iface commands tr)"

text \<open>The mode and the owner of the file, if they can be told, and the user of the process.\<close>

record file_info =
  fiMode :: nat
  fiOwner :: "nat option"

text \<open>The bits of octal 022.\<close>

definition group_or_others :: "nat \<Rightarrow> bool" where
  "group_or_others mode = (and mode 18 \<noteq> 0)"

definition VerifyConfigFile :: "(string \<Rightarrow> file_info res) \<Rightarrow> nat \<Rightarrow> string \<Rightarrow> go_error option" where
  "VerifyConfigFile stat euid path =
     (if path = [] then Some (Err ''no config file: lifecycle commands can only be configured in one'')
      else (case stat path of
          Inl e \<Rightarrow> Some (wrap_err ''failed to read the config file permissions'' e)
        | Inr info \<Rightarrow>
            if group_or_others (fiMode info) then Some (Err (''config file '' @ path @ '' is writable by group or others''))
            else (case fiOwner info of
                None \<Rightarrow> Some (Err (''failed to determine the owner of the config file '' @ path))
              | Some owner \<Rightarrow>
                  if owner \<noteq> 0 \<and> owner \<noteq> euid
                  then Some (Err (''config file '' @ path @ '' is owned by uid '' @ itoa owner))
                  else None)))"

definition verifyLifecycleCommands :: "(string \<Rightarrow> file_info res) \<Rightarrow> nat \<Rightarrow> string \<Rightarrow> wireguard_config \<Rightarrow> go_error option" where
  "verifyLifecycleCommands stat euid path w =
     (if list_ex (\<lambda>commands. commands \<noteq> []) [wcPreUp w, wcPostUp w, wcPreDown w, wcPostDown w]
      then map_option (wrap_err ''refusing to run the configured lifecycle commands'') (VerifyConfigFile stat euid path)
      else None)"

section \<open>The interface\<close>

text \<open>A fatal error ends the process; after a failure the interface is taken down again.\<close>

datatype wg_start = Fatal go_error | Down go_error | Up | Disabled

definition no_members :: firewall_state where
  "no_members = \<lparr>Routed = [], Policies = []\<rparr>"

definition startWireGuard ::
  "host \<Rightarrow> (string \<Rightarrow> file_info res) \<Rightarrow> nat \<Rightarrow> string \<Rightarrow> app_config \<Rightarrow> vpn_addressing \<Rightarrow> host_event list \<Rightarrow> wg_start \<times> host_event list" where
  "startWireGuard H stat euid path c vpn tr =
     (let w = cfWireGuard c; iface = wcInterface w in
      case verifyLifecycleCommands stat euid path w of
        Some e \<Rightarrow> (Fatal e, tr)
      | None \<Rightarrow>
          if \<not> wcEnabled w then (Disabled, tr)
          else (case hooks_Run H ''preUp'' iface (wcPreUp w) tr of
              (Some e, tr) \<Rightarrow> (Fatal e, tr)
            | (None, tr) \<Rightarrow>
                (case host_do H (CreateInterface iface) tr of
                   (Some e, tr) \<Rightarrow> (Fatal (wrap_err ''failed to create WireGuard interface'' e), tr)
                 | (None, tr) \<Rightarrow>
                     (case host_do H (LoadConfig (vaPrefixes vpn)) tr of
                        (Some e, tr) \<Rightarrow> (Down (wrap_err ''failed to load WireGuard config'' e), tr)
                      | (None, tr) \<Rightarrow>
                          (case host_do H (Forward (forwardingOptions c vpn no_members)) tr of
                             (Some e, tr) \<Rightarrow> (Down e, tr)
                           | (None, tr) \<Rightarrow>
                               (case hooks_Run H ''postUp'' iface (wcPostUp w) tr of
                                  (Some e, tr) \<Rightarrow> (Fatal e, tr)
                                | (None, tr) \<Rightarrow> (Up, tr)))))))"

text \<open>The function that is returned for taking the interface down; errors of the commands are logged.\<close>

definition stopWireGuard :: "host \<Rightarrow> app_config \<Rightarrow> host_event list \<Rightarrow> host_event list" where
  "stopWireGuard H c tr =
     (let w = cfWireGuard c; iface = wcInterface w;
          tr = snd (hooks_Run H ''preDown'' iface (wcPreDown w) tr);
          tr = snd (host_do H CloseInterface tr) in
      snd (hooks_Run H ''postDown'' iface (wcPostDown w) tr))"

definition firewallSync :: "host \<Rightarrow> app_config \<Rightarrow> vpn_addressing \<Rightarrow> (firewall_state \<Rightarrow> host_event list \<Rightarrow> go_error option \<times> host_event list) option" where
  "firewallSync H c vpn =
     (if \<not> wcEnabled (cfWireGuard c) then None else Some (\<lambda>state. host_do H (Forward (forwardingOptions c vpn state))))"

section \<open>Nameservers of the host\<close>

text \<open>\<^verbatim>\<open>strings.Fields\<close>.\<close>

function fields_from :: "string \<Rightarrow> string \<Rightarrow> string list" where
  "fields_from w [] = (if w = [] then [] else [w])"
| "fields_from w (c # cs) =
     (case find (starts_with (c # cs)) space_encodings of
        Some p \<Rightarrow> (if w = [] then [] else [w]) @ fields_from [] (drop (length p - 1) cs)
      | None \<Rightarrow> fields_from (w @ [c]) cs)"
  by pat_completeness auto
termination by (relation "measure (\<lambda>(w, s). length s)") auto

definition Fields :: "string \<Rightarrow> string list" where
  "Fields s = fields_from [] s"

definition systemdStub :: string where "systemdStub = ''127.0.0.53''"
definition defaultPath :: string where "defaultPath = ''/etc/resolv.conf''"
definition systemdPath :: string where "systemdPath = ''/run/systemd/resolve/resolv.conf''"

definition nameserver_of :: "string \<Rightarrow> string option" where
  "nameserver_of line =
     (case Fields line of
        [] \<Rightarrow> None
      | f # fs \<Rightarrow>
          if hd f = CHR ''#'' \<or> hd f = CHR '';'' \<or> f \<noteq> ''nameserver'' \<or> fs = [] then None
          else map_option addr_string (parse_addr (hd fs)))"

definition parseNameservers :: "string \<Rightarrow> string list" where
  "parseNameservers content = List.map_filter nameserver_of (split_byte (CHR 0x0A) content)"

definition parseFile :: "(string \<Rightarrow> string res) \<Rightarrow> string \<Rightarrow> string list" where
  "parseFile readFile path = (case readFile path of Inl e \<Rightarrow> [] | Inr content \<Rightarrow> parseNameservers content)"

definition nameserversFrom :: "(string \<Rightarrow> string res) \<Rightarrow> string \<Rightarrow> string \<Rightarrow> string list" where
  "nameserversFrom readFile primary systemd =
     (let nameservers = parseFile readFile primary in
      if nameservers = [systemdStub] then parseFile readFile systemd else nameservers)"

definition Nameservers :: "(string \<Rightarrow> string res) \<Rightarrow> string list" where
  "Nameservers readFile = nameserversFrom readFile defaultPath systemdPath"

definition detectDNSUpstream :: "(string \<Rightarrow> string res) \<Rightarrow> bool \<Rightarrow> bool \<Rightarrow> string list" where
  "detectDNSUpstream readFile ipv4Enabled ipv6Enabled =
     (let upstream = Nameservers readFile in
      if upstream = [] then
        (if ipv6Enabled then [''2606:4700:4700::1111''] else []) @ (if ipv4Enabled then [''1.1.1.1''] else [])
      else upstream)"

text \<open>The first link with a default route.  A route is what its destination is, if it has one.\<close>

definition default_route :: "addr option \<Rightarrow> bool" where
  "default_route dst = (map_option unmap dst \<in> {Some (V4 0), Some (V6 0 [])})"

definition has_default :: "('l \<Rightarrow> bool \<Rightarrow> addr option list res) \<Rightarrow> 'l \<Rightarrow> bool" where
  "has_default routeList link =
     list_ex (\<lambda>fam. case routeList link fam of Inl e \<Rightarrow> False | Inr routes \<Rightarrow> list_ex default_route routes) [False, True]"

definition defaultInterfaceName :: "('l \<Rightarrow> string) \<Rightarrow> ('l \<Rightarrow> bool \<Rightarrow> addr option list res) \<Rightarrow> 'l list \<Rightarrow> string" where
  "defaultInterfaceName name routeList links = (case find (has_default routeList) links of None \<Rightarrow> [] | Some l \<Rightarrow> name l)"

section \<open>The DNS server\<close>

text \<open>What \<^verbatim>\<open>startDNS\<close> brings up: the addresses it listens on, the proxy and, with a domain, that of the zone.  It is up as
  soon as it is created; a listener that fails is logged.\<close>

record 'c dns_server =
  dsListen :: "string list"
  dsProxy :: "'c dns_proxy"
  dsZone :: "string option"

definition startDNS :: "(nat \<Rightarrow> 'c res) \<Rightarrow> (string \<Rightarrow> string res) \<Rightarrow> app_config \<Rightarrow> vpn_addressing \<Rightarrow> 'c dns_server option res" where
  "startDNS newCache readFile c vpn =
     (if \<not> dcEnabled (cfDNS c) then Inr None
      else
        (let upstream = (if dcUpstream (cfDNS c) = []
               then detectDNSUpstream readFile (vcCIDR (cfVPN c) \<noteq> []) (vcCIDRv6 (cfVPN c) \<noteq> []) else dcUpstream (cfDNS c)) in
         case dnsproxy_New newCache upstream (dcCacheSize (cfDNS c)) of
           Inl e \<Rightarrow> Inl (wrap_err ''failed to create dns server'' e)
         | Inr proxy \<Rightarrow>
             Inr (Some \<lparr>dsListen = map (\<lambda>a. JoinHostPort (addr_string a) ''53'') (vaAddrs vpn), dsProxy = proxy,
               dsZone = (if dcDomain (cfDNS c) \<noteq> [] then Some (dcDomain (cfDNS c)) else None)\<rparr>)))"

section \<open>What runs when\<close>

lemma group_or_others_bits: "group_or_others mode \<longleftrightarrow> bit mode 1 \<or> bit mode 4"
proof -
  have "(18 :: nat) = or (push_bit 1 1) (push_bit 4 1)" by simp
  then have bits: "bit (18 :: nat) n \<longleftrightarrow> n = 1 \<or> n = 4" for n by (simp only: bit_simps) (auto simp: bit_simps)
  have "group_or_others mode \<longleftrightarrow> (\<exists>n. bit (and mode 18) n)" unfolding group_or_others_def using bit_eq_iff [of "and mode 18" 0] by simp
  then show ?thesis by (auto simp only: bit_and_iff bits)
qed

definition trusted_file :: "(string \<Rightarrow> file_info res) \<Rightarrow> nat \<Rightarrow> string \<Rightarrow> bool" where
  "trusted_file stat euid path \<longleftrightarrow>
     path \<noteq> [] \<and> (\<exists>info owner. stat path = Inr info \<and> \<not> bit (fiMode info) 1 \<and> \<not> bit (fiMode info) 4 \<and> fiOwner info = Some owner \<and>
       owner \<in> {0, euid})"

lemma VerifyConfigFile_None: "VerifyConfigFile stat euid path = None \<longleftrightarrow> trusted_file stat euid path"
  by (auto simp: VerifyConfigFile_def trusted_file_def group_or_others_bits split: sum.splits option.splits)

definition commands_of :: "string \<Rightarrow> string \<Rightarrow> string list \<Rightarrow> host_event list" where
  "commands_of phase iface commands = map (\<lambda>c. Shell phase (replace_placeholder iface c)) commands"

lemma hooks_Run_ok: "hooks_Run H phase iface commands tr = (None, tr') \<Longrightarrow> tr' = tr @ commands_of phase iface commands"
proof (induction commands arbitrary: tr)
  case (Cons command commands)
  let ?e = "Shell phase (replace_placeholder iface command)"
  have "hooks_Run H phase iface commands (tr @ [?e]) = (None, tr')"
    using Cons.prems by (auto simp: host_do_def Let_def split: option.splits)
  from Cons.IH [OF this] show ?case by (simp add: commands_of_def)
qed (simp add: commands_of_def)

lemma hooks_Run_prefix: "\<exists>n. snd (hooks_Run H phase iface commands tr) = tr @ take n (commands_of phase iface commands)"
proof (induction commands arbitrary: tr)
  case (Cons command commands)
  let ?e = "Shell phase (replace_placeholder iface command)"
  obtain n where "snd (hooks_Run H phase iface commands (tr @ [?e])) = (tr @ [?e]) @ take n (commands_of phase iface commands)"
    using Cons.IH [of "tr @ [?e]"] ..
  then have "H (tr @ [?e]) = None \<Longrightarrow> snd (hooks_Run H phase iface (command # commands) tr) = tr @ take (Suc n) (commands_of phase iface (command # commands))"
    by (simp add: host_do_def commands_of_def Let_def)
  moreover have "H (tr @ [?e]) = Some e \<Longrightarrow> snd (hooks_Run H phase iface (command # commands) tr) = tr @ take 1 (commands_of phase iface (command # commands))" for e
    by (simp add: host_do_def commands_of_def Let_def)
  ultimately show ?case by (cases "H (tr @ [?e])") blast+
qed simp

lemma commands_of_phase: "Shell p command \<in> set (commands_of phase iface commands) \<Longrightarrow> p = phase \<and> commands \<noteq> []"
  by (auto simp: commands_of_def)

lemma start_guard:
  assumes "startWireGuard H stat euid path c vpn tr = (res, tr')" "Shell phase command \<in> set tr'" "Shell phase command \<notin> set tr"
  shows "trusted_file stat euid path"
proof (cases "list_ex (\<lambda>commands. commands \<noteq> []) [wcPreUp (cfWireGuard c), wcPostUp (cfWireGuard c), wcPreDown (cfWireGuard c), wcPostDown (cfWireGuard c)]")
  case True
  have "VerifyConfigFile stat euid path = None"
    using assms True by (cases "VerifyConfigFile stat euid path") (auto simp: startWireGuard_def verifyLifecycleCommands_def Let_def)
  then show ?thesis by (simp add: VerifyConfigFile_None)
next
  case False
  then have "wcPreUp (cfWireGuard c) = []" "wcPostUp (cfWireGuard c) = []" by auto
  then show ?thesis
    using assms False by (auto simp: startWireGuard_def verifyLifecycleCommands_def Let_def host_do_def split: option.splits if_splits)
qed

lemma start_trace:
  assumes "startWireGuard H stat euid path c vpn tr = (Up, tr')"
  shows "tr' = tr @ commands_of ''preUp'' (wcInterface (cfWireGuard c)) (wcPreUp (cfWireGuard c)) @
    [CreateInterface (wcInterface (cfWireGuard c)), LoadConfig (vaPrefixes vpn), Forward (forwardingOptions c vpn no_members)] @
    commands_of ''postUp'' (wcInterface (cfWireGuard c)) (wcPostUp (cfWireGuard c))"
  using assms
  by (auto simp: startWireGuard_def Let_def host_do_def dest!: hooks_Run_ok split: option.splits if_splits prod.splits)

lemma stop_events:
  assumes "Shell p command \<in> set (stopWireGuard H c tr)" "Shell p command \<notin> set tr"
  shows "wcPreDown (cfWireGuard c) \<noteq> [] \<or> wcPostDown (cfWireGuard c) \<noteq> []"
proof -
  let ?w = "cfWireGuard c" and ?i = "wcInterface (cfWireGuard c)"
  obtain n where n: "snd (hooks_Run H ''preDown'' ?i (wcPreDown ?w) tr) = tr @ take n (commands_of ''preDown'' ?i (wcPreDown ?w))"
    using hooks_Run_prefix by blast
  let ?tr = "(tr @ take n (commands_of ''preDown'' ?i (wcPreDown ?w))) @ [CloseInterface]"
  obtain k where k: "snd (hooks_Run H ''postDown'' ?i (wcPostDown ?w) ?tr) = ?tr @ take k (commands_of ''postDown'' ?i (wcPostDown ?w))"
    using hooks_Run_prefix by blast
  have "stopWireGuard H c tr = ?tr @ take k (commands_of ''postDown'' ?i (wcPostDown ?w))"
    using n k by (simp add: stopWireGuard_def Let_def host_do_def)
  then show ?thesis using assms by (auto dest!: in_set_takeD commands_of_phase)
qed

lemma start_verified:
  assumes "startWireGuard H stat euid path c vpn tr = (res, tr')" "res = Up \<or> (\<exists>e. res = Down e)"
    and "list_ex (\<lambda>commands. commands \<noteq> []) [wcPreUp (cfWireGuard c), wcPostUp (cfWireGuard c), wcPreDown (cfWireGuard c), wcPostDown (cfWireGuard c)]"
  shows "trusted_file stat euid path"
proof -
  have "VerifyConfigFile stat euid path = None"
    using assms by (cases "VerifyConfigFile stat euid path") (auto simp: startWireGuard_def verifyLifecycleCommands_def Let_def)
  then show ?thesis by (simp add: VerifyConfigFile_None)
qed

text \<open>
  C34. Commands of the operator run only from a file nobody else can write.  Whatever starting the interface, or taking it down
  after it was started, has run of them, the configuration file is there, neither its group nor others may
  write it, and it belongs to root or to the user of the server; and an interface that is up was
  created after the commands for before and set up before those for after, all of them in order.
\<close>

theorem lifecycle_guarded:
  assumes "startWireGuard H stat euid path c vpn [] = (res, tr)"
  shows "(Shell p command \<in> set tr \<longrightarrow> trusted_file stat euid path) \<and>
    (res = Up \<or> (\<exists>e. res = Down e) \<longrightarrow> Shell p command \<in> set (stopWireGuard H c tr) \<longrightarrow> trusted_file stat euid path) \<and>
    (res = Up \<longrightarrow> tr = commands_of ''preUp'' (wcInterface (cfWireGuard c)) (wcPreUp (cfWireGuard c)) @
      [CreateInterface (wcInterface (cfWireGuard c)), LoadConfig (vaPrefixes vpn), Forward (forwardingOptions c vpn no_members)] @
      commands_of ''postUp'' (wcInterface (cfWireGuard c)) (wcPostUp (cfWireGuard c)))"
proof -
  have up: "Shell p command \<in> set tr \<Longrightarrow> trusted_file stat euid path" using start_guard [OF assms] by simp
  have down: "trusted_file stat euid path" if "res = Up \<or> (\<exists>e. res = Down e)" "Shell p command \<in> set (stopWireGuard H c tr)"
  proof (cases "Shell p command \<in> set tr")
    case False
    then show ?thesis using stop_events [OF that(2)] start_verified [OF assms that(1)] by auto
  qed (use up in simp)
  have "res = Up \<Longrightarrow> tr = commands_of ''preUp'' (wcInterface (cfWireGuard c)) (wcPreUp (cfWireGuard c)) @
      [CreateInterface (wcInterface (cfWireGuard c)), LoadConfig (vaPrefixes vpn), Forward (forwardingOptions c vpn no_members)] @
      commands_of ''postUp'' (wcInterface (cfWireGuard c)) (wcPostUp (cfWireGuard c))"
    using start_trace [of H stat euid path c vpn "[]" tr] assms by simp
  then show ?thesis using up down by blast
qed

section \<open>Upstreams\<close>

lemma server_prefix_empty [simp]: "server_prefix [] = Inr NoPrefix" "\<not> prefix_valid NoPrefix"
  by (simp_all add: server_prefix_def prefix_valid_def)

lemma vpnAddresses_family:
  assumes "vpnAddresses c = Inr (vpn, c')"
  shows "vcCIDR (cfVPN c') \<noteq> [] \<or> vcCIDRv6 (cfVPN c') \<noteq> []" "cfDNS c' = cfDNS c"
  using assms by (auto simp: vpnAddresses_def ServerVPNIPs_def Let_def split: sum.splits if_splits)

lemma detectDNSUpstream_ne: "v4 \<or> v6 \<Longrightarrow> detectDNSUpstream readFile v4 v6 \<noteq> []"
  by (auto simp: detectDNSUpstream_def Let_def)

text \<open>
  The DNS server always has somebody to ask: with the addresses of the server worked out and a cache that can be made,
  it comes up with the upstreams of the configuration, or with those of the host, or with a public resolver of a
  family the VPN has; and there is at least one.
\<close>

theorem dns_has_upstream:
  assumes "vpnAddresses c0 = Inr (vpn, c)" "dcEnabled (cfDNS c0)" "\<And>n. \<exists>k. newCache n = Inr k"
  shows "\<exists>srv. startDNS newCache readFile c vpn = Inr (Some srv) \<and> dpUpstream (dsProxy srv) \<noteq> [] \<and>
    dpUpstream (dsProxy srv) = (if dcUpstream (cfDNS c0) \<noteq> [] then dcUpstream (cfDNS c0)
      else detectDNSUpstream readFile (vcCIDR (cfVPN c) \<noteq> []) (vcCIDRv6 (cfVPN c) \<noteq> []))"
proof -
  note f = vpnAddresses_family [OF assms(1)]
  obtain k where k: "newCache (nat (dcCacheSize (cfDNS c0))) = Inr k" using assms(3) by blast
  show ?thesis
    using detectDNSUpstream_ne [OF f(1), of readFile] by (simp add: startDNS_def f(2) assms(2) dnsproxy_New_def k Let_def)
qed

end
