(* ===== verification/Dns_Cache.thy ===== *)
theory Dns_Cache
  imports Dns_Proxy
begin

text \<open>
  The cache of the DNS proxy under concurrent lookups.  Requests are served by goroutines of their own; what they do to
  the shared state is one of the steps below, each atomic under the lock of the cache or of the cooldowns.  The steps
  carry along what upstreams have answered, and when it was put away.
\<close>

section \<open>Steps of concurrent lookups\<close>

type_synonym 'c proxy_state = "'c dns_proxy \<times> (dns_msg \<times> dns_msg \<times> instant) set"

inductive proxy_step :: "'c lru \<Rightarrow> 'c proxy_state \<Rightarrow> 'c proxy_state \<Rightarrow> bool" for R :: "'c lru" where
  look: "dpCache d = Some c \<Longrightarrow> proxy_step R (d, seen) (d\<lparr>dpCache := Some (snd (lruGet R k c))\<rparr>, seen)"
| drop_expired: "dpCache d = Some c \<Longrightarrow> proxy_step R (d, seen) (d\<lparr>dpCache := Some (lruRemove R k c)\<rparr>, seen)"
| failed: "proxy_step R (d, seen) (markFailed now u d, seen)"
| healthy: "proxy_step R (d, seen) (markHealthy u d, seen)"
| store: "makekey m = Inr k \<Longrightarrow> u \<in> set (dpUpstream d) \<Longrightarrow> proxy_exchange net m u = Inr response \<Longrightarrow>
    proxy_step R (d, seen) (cacheResponse R now k response d, insert (m, response, now) seen)"

definition proxy_reachable :: "'c lru \<Rightarrow> (nat \<Rightarrow> 'c res) \<Rightarrow> 'c proxy_state \<Rightarrow> bool" where
  "proxy_reachable R newCache st \<longleftrightarrow>
     (\<exists>upstream cacheSize d. dnsproxy_New newCache upstream cacheSize = Inr d \<and> (proxy_step R)\<^sup>*\<^sup>* (d, {}) st)"

text \<open>A lookup that runs alone is a sequence of these steps.\<close>

lemma cached_steps: "(proxy_step R)\<^sup>*\<^sup>* (d, seen) (snd (cached R now k d), seen)"
proof (cases "dpCache d")
  case (Some c)
  obtain entry c' where g: "lruGet R k c = (entry, c')" by fastforce
  have one: "proxy_step R (d, seen) (d\<lparr>dpCache := Some c'\<rparr>, seen)" using look [OF Some, of R seen k] g by simp
  have two: "proxy_step R (d\<lparr>dpCache := Some c'\<rparr>, seen) (d\<lparr>dpCache := Some (lruRemove R k c')\<rparr>, seen)"
    using drop_expired [of "d\<lparr>dpCache := Some c'\<rparr>" c' R seen k] by simp
  show ?thesis
    using one two by (auto simp: cached_def Some g split: option.splits intro: rtranclp.rtrancl_into_rtrancl [OF r_into_rtranclp [of "proxy_step R"]])
qed (simp add: cached_def)

lemma ask_upstreams_steps: "(proxy_step R)\<^sup>*\<^sup>* (d, seen) (snd (ask_upstreams net n m us e d), seen)"
proof (induction us arbitrary: n e d)
  case (Cons u us)
  show ?case
  proof (cases "proxy_exchange (net n) m u")
    case (Inl err)
    then show ?thesis
      using converse_rtranclp_into_rtranclp [OF failed [of R d seen "nrTime (net n)" u] Cons.IH] by simp
  next
    case (Inr response)
    then show ?thesis using healthy [of R d seen u] by (simp add: r_into_rtranclp)
  qed
qed simp

lemma ask_upstreams_upstreams [simp]: "dpUpstream (snd (ask_upstreams net n m us e d)) = dpUpstream d"
  by (induction net n m us e d rule: ask_upstreams.induct) (simp_all add: markFailed_def markHealthy_def split: sum.splits)

lemma Lookup_steps: "\<exists>seen'. seen \<subseteq> seen' \<and> (proxy_step R)\<^sup>*\<^sup>* (d, seen) (snd (proxy_Lookup R net now m d), seen')"
proof (cases "makekey m")
  case (Inr k)
  obtain c d1 where c: "cached R now k d = (c, d1)" by fastforce
  obtain a d2 where a: "ask_upstreams net 0 m (orderedUpstreams now d1) None d1 = (a, d2)" by fastforce
  have first: "(proxy_step R)\<^sup>*\<^sup>* (d, seen) (d1, seen)" using cached_steps [of R d seen now k] c by simp
  have second: "(proxy_step R)\<^sup>*\<^sup>* (d, seen) (d2, seen)"
    using first ask_upstreams_steps [of R d1 seen net 0 m "orderedUpstreams now d1" None] a by simp
  show ?thesis
  proof (cases "\<exists>response t. c = None \<and> a = Inr (response, t)")
    case True
    then obtain response t where r: "c = None" "a = Inr (response, t)" by blast
    obtain i u where u: "u \<in> set (orderedUpstreams now d1)" "proxy_exchange (net i) m u = Inr response"
      using ask_upstreams_answer [of net 0 m "orderedUpstreams now d1" None d1 response t] a r by auto
    have "dpUpstream d2 = dpUpstream d1"
      using ask_upstreams_upstreams [of net 0 m "orderedUpstreams now d1" None d1] a by simp
    then have "proxy_step R (d2, seen) (cacheResponse R t k response d2, insert (m, response, t) seen)"
      using u by (intro store [OF Inr]) auto
    then show ?thesis using second r by (auto simp: proxy_Lookup_def Inr c a intro!: exI [of _ "insert (m, response, t) seen"])
  next
    case False
    then show ?thesis
      using first second by (auto simp: proxy_Lookup_def Inr c a split: option.splits sum.splits intro!: exI [of _ seen])
  qed
qed (auto simp: proxy_Lookup_def)

section \<open>What the cache holds\<close>

text \<open>What the code relies on of the LRU cache: a lookup returns what is there and changes nothing of it, an addition adds
  that entry (and may push out others), a removal removes that entry, and a new cache is empty.\<close>

definition lru_laws :: "'c lru \<Rightarrow> (nat \<Rightarrow> 'c res) \<Rightarrow> ('c \<Rightarrow> string \<rightharpoonup> cached_response) \<Rightarrow> bool" where
  "lru_laws R newCache content \<longleftrightarrow>
     (\<forall>k c. fst (lruGet R k c) = content c k \<and> content (snd (lruGet R k c)) = content c) \<and>
     (\<forall>k v c. content (lruAdd R k v c) \<subseteq>\<^sub>m (content c)(k \<mapsto> v)) \<and>
     (\<forall>k c. content (lruRemove R k c) = (content c)(k := None)) \<and>
     (\<forall>n c. newCache n = Inr c \<longrightarrow> content c = Map.empty)"

definition cache_inv :: "('c \<Rightarrow> string \<rightharpoonup> cached_response) \<Rightarrow> 'c proxy_state \<Rightarrow> bool" where
  "cache_inv content st \<longleftrightarrow>
     (\<forall>c k entry. dpCache (fst st) = Some c \<and> content c k = Some entry \<longrightarrow>
        (\<exists>m t. (m, crResponse entry, t) \<in> snd st \<and> makekey m = Inr k \<and> crExpiresAt entry = t + minTTL (crResponse entry)))"

lemma map_leD: "f \<subseteq>\<^sub>m g \<Longrightarrow> f x = Some y \<Longrightarrow> g x = Some y"
  by (metis domI map_le_def)

lemma cache_inv_step:
  assumes "lru_laws R newCache content" "proxy_step R st st'" "cache_inv content st"
  shows "cache_inv content st'"
  using assms(2,3)
proof cases
  case (look d c seen k)
  then show ?thesis using assms(1,3) by (simp add: cache_inv_def lru_laws_def)
next
  case (drop_expired d c seen k)
  then show ?thesis using assms(1,3) by (auto simp: cache_inv_def lru_laws_def)
next
  case (store m k u d net response seen now)
  show ?thesis
  proof (cases "dpCache d")
    case None
    then show ?thesis using store by (simp add: cache_inv_def cacheResponse_def)
  next
    case (Some c)
    have old: "content c k' = Some entry \<Longrightarrow> \<exists>m t. (m, crResponse entry, t) \<in> seen \<and> makekey m = Inr k' \<and>
        crExpiresAt entry = t + minTTL (crResponse entry)" for k' entry
      using assms(3) Some store(1) by (auto simp: cache_inv_def)
    let ?v = "\<lparr>crResponse = response, crExpiresAt = now + minTTL response\<rparr>"
    have le: "content (lruAdd R k ?v c) \<subseteq>\<^sub>m (content c)(k \<mapsto> ?v)" using assms(1) by (simp add: lru_laws_def)
    have add: "content c k' = Some entry \<or> k' = k \<and> entry = ?v" if "content (lruAdd R k ?v c) k' = Some entry" for k' entry
      using map_leD [OF le that] by (simp split: if_splits)
    show ?thesis
      using old add store(2,3) by (fastforce simp: cache_inv_def cacheResponse_def Some split: if_splits)
  qed
qed (auto simp: cache_inv_def markFailed_def markHealthy_def)

lemma cache_inv_reachable:
  assumes "lru_laws R newCache content" "proxy_reachable R newCache st"
  shows "cache_inv content st"
proof -
  obtain upstream cacheSize d where d: "dnsproxy_New newCache upstream cacheSize = Inr d" "(proxy_step R)\<^sup>*\<^sup>* (d, {}) st"
    using assms(2) unfolding proxy_reachable_def by blast
  have "cache_inv content (d, {})"
    using d(1) assms(1) by (auto simp: dnsproxy_New_def cache_inv_def lru_laws_def split: if_splits sum.splits)
  with d(2) show ?thesis
    by (induction rule: rtranclp_induct) (auto intro: cache_inv_step [OF assms(1)])
qed

text \<open>
  C38. No answer is older than it may be: whatever lookups have run before and however their steps interleaved, an answer
  is one an upstream gives to this very query, or one that an upstream gave to a query with the same first
  question and the same flags, and then none of its records has outlived its time to live since it was
  put away.
\<close>

theorem answers_fresh:
  assumes "lru_laws R newCache content" "proxy_reachable R newCache (d, seen)"
    and "fst (proxy_Lookup R net now m d) = Inr response"
  shows "(\<exists>i. \<exists>u \<in> set (dpUpstream d). proxy_exchange (net i) m u = Inr response) \<or>
    (\<exists>m' t q qs q' qs'. (m', response, t) \<in> seen \<and> msgQuestion m = q # qs \<and> msgQuestion m' = q' # qs' \<and>
       quName q = quName q' \<and> quType q = quType q' \<and> quClass q = quClass q' \<and> msg_flags m = msg_flags m' \<and>
       (\<forall>r \<in> set (msg_records response). now < t + uint (rrTtl r) * second))"
proof -
  obtain k where k: "makekey m = Inr k" using assms(3) by (cases "makekey m") (auto simp: proxy_Lookup_def)
  obtain hit d1 where hit: "cached R now k d = (hit, d1)" by fastforce
  show ?thesis
  proof (cases hit)
    case None
    have up: "dpUpstream d1 = dpUpstream d" using cached_upstreams [of R now k d] hit by simp
    obtain t where "fst (ask_upstreams net 0 m (orderedUpstreams now d1) None d1) = Inr (response, t)"
      using assms(3) by (auto simp: proxy_Lookup_def k hit None split: prod.splits sum.splits option.splits)
    from ask_upstreams_answer [OF this] show ?thesis using up by auto
  next
    case (Some r)
    then have [simp]: "r = response" using assms(3) by (simp add: proxy_Lookup_def k hit)
    obtain c entry where e: "dpCache d = Some c" "fst (lruGet R k c) = Some entry" "crResponse entry = response" "now < crExpiresAt entry"
      using hit Some by (auto simp: cached_def split: option.splits prod.splits if_splits)
    then have "content c k = Some entry" using assms(1) by (simp add: lru_laws_def)
    then obtain m' t where m': "(m', response, t) \<in> seen" "makekey m' = Inr k" "crExpiresAt entry = t + minTTL response"
      using cache_inv_reachable [OF assms(1,2), unfolded cache_inv_def, rule_format, of c k entry] e(1) by (auto simp: e(3))
    have fresh: "now < t + uint (rrTtl r) * second" if "r \<in> set (msg_records response)" for r
      using minTTL_le [OF that] e(4) m'(3) by simp
    from makekey_inj [OF k m'(2)] show ?thesis using m'(1) fresh by metis
  qed
qed

end
