(* ===== verification/Dns_Updater.thy ===== *)
theory Dns_Updater
  imports Dns
begin

text \<open>
  The goroutine that keeps the zone in step with the devices (\<^verbatim>\<open>zoneUpdater\<close> in \<^verbatim>\<open>cmd/serve/dns.go\<close>), interleaved
  with the changes of devices.  A change is stored first and reported afterwards; the report leaves a note in a channel
  of one slot.  The goroutine takes the note, reads the devices, builds the zone and pushes it, and a change may come
  between any two of these.
\<close>

datatype phase = Waiting | Rebuilding | Built zone | Stopped

record updater =
  upDevices :: "device list"
  upUnreported :: nat
  upChanged :: bool
  upPhase :: phase
  upZone :: zone

text \<open>What \<^verbatim>\<open>startDNS\<close> leaves behind: the zone is built once before the goroutine starts.\<close>

definition newZoneUpdater :: "addr list \<Rightarrow> device list \<Rightarrow> updater" where
  "newZoneUpdater vpnips ds =
     \<lparr>upDevices = ds, upUnreported = 0, upChanged = False, upPhase = Waiting, upZone = generateZone ds vpnips\<rparr>"

definition zone_notify :: "updater \<Rightarrow> updater" where
  "zone_notify u = u\<lparr>upChanged := True\<rparr>"

inductive zone_step :: "addr list \<Rightarrow> updater \<Rightarrow> updater \<Rightarrow> bool" for vpnips where
  store: "zone_step vpnips u (u\<lparr>upDevices := ds, upUnreported := Suc (upUnreported u)\<rparr>)"
| report: "upUnreported u = Suc n \<Longrightarrow> zone_step vpnips u (zone_notify (u\<lparr>upUnreported := n\<rparr>))"
| wake: "upPhase u = Waiting \<Longrightarrow> upChanged u \<Longrightarrow> zone_step vpnips u (u\<lparr>upChanged := False, upPhase := Rebuilding\<rparr>)"
| build: "upPhase u = Rebuilding \<Longrightarrow> zone_step vpnips u (u\<lparr>upPhase := Built (generateZone (upDevices u) vpnips)\<rparr>)"
| push: "upPhase u = Built z \<Longrightarrow> zone_step vpnips u (u\<lparr>upPhase := Waiting, upZone := z\<rparr>)"
| quit: "upPhase u = Waiting \<Longrightarrow> zone_step vpnips u (u\<lparr>upPhase := Stopped\<rparr>)"

inductive_cases zone_stepE: "zone_step vpnips u v"

definition zone_reachable :: "addr list \<Rightarrow> updater \<Rightarrow> bool" where
  "zone_reachable vpnips u \<longleftrightarrow> (\<exists>ds. (zone_step vpnips)\<^sup>*\<^sup>* (newZoneUpdater vpnips ds) u)"

text \<open>Nothing is left to do.\<close>

definition zone_settled :: "updater \<Rightarrow> bool" where
  "zone_settled u \<longleftrightarrow> upUnreported u = 0 \<and> \<not> upChanged u \<and> upPhase u = Waiting"

text \<open>A change that the zone lacks is unreported, noted, or about to be read; once read, the zone that was built has it.\<close>

definition zone_inv :: "addr list \<Rightarrow> updater \<Rightarrow> bool" where
  "zone_inv vpnips u \<longleftrightarrow>
     upUnreported u > 0 \<or> upChanged u \<or>
     (case upPhase u of
        Rebuilding \<Rightarrow> True
      | Built z \<Rightarrow> z = generateZone (upDevices u) vpnips
      | Waiting \<Rightarrow> upZone u = generateZone (upDevices u) vpnips
      | Stopped \<Rightarrow> True)"

lemma zone_inv_step: "zone_step vpnips u v \<Longrightarrow> zone_inv vpnips u \<Longrightarrow> zone_inv vpnips v"
  by (erule zone_stepE) (auto simp: zone_inv_def zone_notify_def split: phase.splits)

lemma zone_inv_steps: "(zone_step vpnips)\<^sup>*\<^sup>* u v \<Longrightarrow> zone_inv vpnips u \<Longrightarrow> zone_inv vpnips v"
  by (induction rule: rtranclp_induct) (auto intro: zone_inv_step)

lemma zone_inv_reachable: "zone_reachable vpnips u \<Longrightarrow> zone_inv vpnips u"
  unfolding zone_reachable_def using zone_inv_steps by (fastforce simp: zone_inv_def newZoneUpdater_def)

text \<open>Without further changes the goroutine settles.\<close>

definition settles :: "addr list \<Rightarrow> updater \<Rightarrow> bool" where
  "settles vpnips u \<longleftrightarrow> (\<exists>v. (zone_step vpnips)\<^sup>*\<^sup>* u v \<and> zone_settled v \<and> upDevices v = upDevices u)"

lemma settles_now: "zone_settled u \<Longrightarrow> settles vpnips u"
  unfolding settles_def by blast

lemma settles_step: "zone_step vpnips u v \<Longrightarrow> settles vpnips v \<Longrightarrow> upDevices v = upDevices u \<Longrightarrow> settles vpnips u"
  unfolding settles_def by (metis converse_rtranclp_into_rtranclp)

text \<open>One more round at most: from the point where the devices are read, and from the beginning.\<close>

lemma settles_rebuilding:
  assumes "upPhase u = Rebuilding" "upUnreported u = 0" "\<And>z. settles vpnips (u\<lparr>upPhase := Waiting, upZone := z\<rparr>)"
  shows "settles vpnips u"
proof -
  let ?z = "generateZone (upDevices u) vpnips"
  have "settles vpnips (u\<lparr>upPhase := Built ?z\<rparr>)"
    by (rule settles_step [OF zone_step.push [where z = ?z]]) (simp_all add: assms(3))
  then show ?thesis by (rule settles_step [OF zone_step.build [OF assms(1)]]) simp
qed

lemma settles_waiting:
  assumes "upPhase u = Waiting" "upUnreported u = 0"
  shows "settles vpnips u"
proof (cases "upChanged u")
  case True
  let ?v = "u\<lparr>upChanged := False, upPhase := Rebuilding\<rparr>"
  have "settles vpnips ?v"
    by (rule settles_rebuilding; (rule settles_now)?) (simp_all add: zone_settled_def assms)
  then show ?thesis by (rule settles_step [OF zone_step.wake [OF assms(1) True]]) simp
qed (use assms in \<open>auto intro: settles_now simp: zone_settled_def\<close>)

lemma settles_reported:
  assumes "upPhase u \<noteq> Stopped" "upUnreported u = 0"
  shows "settles vpnips u"
proof (cases "upPhase u")
  case Rebuilding
  then show ?thesis by (rule settles_rebuilding) (simp_all add: assms(2) settles_waiting)
next
  case (Built z)
  then have "settles vpnips (u\<lparr>upPhase := Waiting, upZone := z\<rparr>)" using assms(2) by (intro settles_waiting) simp_all
  then show ?thesis by (rule settles_step [OF zone_step.push [OF Built]]) simp
qed (use assms settles_waiting in auto)

lemma settles_eventually: "upPhase u \<noteq> Stopped \<Longrightarrow> settles vpnips u"
proof (induction "upUnreported u" arbitrary: u)
  case 0
  then show ?case by (simp add: settles_reported)
next
  case (Suc n)
  let ?v = "zone_notify (u\<lparr>upUnreported := n\<rparr>)"
  have "settles vpnips ?v" using Suc.prems by (intro Suc.hyps(1)) (simp_all add: zone_notify_def)
  then show ?case by (rule settles_step [OF zone_step.report [OF Suc.hyps(2) [symmetric]]]) (simp add: zone_notify_def)
qed

text \<open>
  C37. No change of a device is lost to the names.  However changes, reports and the steps of the goroutine interleave,
  the zone is that of the devices as they are whenever nothing is left to do, and as long as the server is not
  stopped that point is reached without any further change.
\<close>

theorem zone_follows_devices:
  assumes "zone_reachable vpnips u"
  shows "(zone_settled u \<longrightarrow> upZone u = generateZone (upDevices u) vpnips) \<and>
    (upPhase u \<noteq> Stopped \<longrightarrow>
       (\<exists>v. (zone_step vpnips)\<^sup>*\<^sup>* u v \<and> zone_settled v \<and> upDevices v = upDevices u \<and> upZone v = generateZone (upDevices u) vpnips))"
proof -
  have now: "zone_settled v \<Longrightarrow> upZone v = generateZone (upDevices v) vpnips" if "zone_inv vpnips v" for v
    using that by (simp add: zone_inv_def zone_settled_def)
  note inv = zone_inv_reachable [OF assms]
  show ?thesis using now [OF inv] now [OF zone_inv_steps [OF _ inv]] settles_eventually [of u vpnips] unfolding settles_def by metis
qed

definition one_device :: "device list" where
  "one_device = [\<lparr>devOwner = ''alice'', devOwnerName = [], devOwnerEmail = [], devOwnerProvider = [], devName = ''phone'',
     devPublicKey = [], devPresharedKey = [], devAddress = ''10.44.0.2/32'', devCreatedAt = 0, devDisabled = False,
     devExpiresAt = None, devRoutes = [], devLastHandshakeTime = None, devReceiveBytes = 0, devTransmitBytes = 0, devEndpoint = []\<rparr>]"

theorem zone_follows_devices_witness:
  "\<exists>v. (zone_step [V4 1])\<^sup>*\<^sup>* (newZoneUpdater [V4 1] []\<lparr>upDevices := one_device, upUnreported := 1\<rparr>) v \<and>
     map_of (upZone v) (''alice'', ''phone'') = Some [V4 170655746]"
proof -
  let ?u = "newZoneUpdater [V4 1] []\<lparr>upDevices := one_device, upUnreported := 1\<rparr>"
  have "zone_step [V4 1] (newZoneUpdater [V4 1] []) ?u"
    using zone_step.store [of "[V4 1]" "newZoneUpdater [V4 1] []" one_device] by (simp add: newZoneUpdater_def)
  then have "zone_reachable [V4 1] ?u" unfolding zone_reachable_def by blast
  then obtain v where v: "(zone_step [V4 1])\<^sup>*\<^sup>* ?u v" "upZone v = generateZone (upDevices ?u) [V4 1]"
    using zone_follows_devices [of "[V4 1]" ?u] by (auto simp: newZoneUpdater_def)
  have "map_of (generateZone one_device [V4 1]) (''alice'', ''phone'') = Some [V4 170655746]" by code_simp
  then show ?thesis using v by (auto intro!: exI [of _ v])
qed

end
