(* ===== verification/Dns_Site.thy ===== *)
theory Dns_Site
  imports Dns_Cache Dns_Updater
begin

text \<open>
  The DNS server of a small network: a library that reads and splits names as host names are written, and a cache
  that is an association list of bounded length with the entry used last in front.
\<close>

section \<open>A DNS library\<close>

fun split_labels :: "string \<Rightarrow> string \<Rightarrow> string list" where
  "split_labels l [] = (if l = [] then [] else [l])"
| "split_labels l (c # cs) = (if c = CHR ''.'' then l # split_labels [] cs else split_labels (l @ [c]) cs)"

fun parse_rr :: "string \<Rightarrow> rr res" where
  "parse_rr s =
     (case cut_byte CHR '' '' s of None \<Rightarrow> Inl (Err ''no ttl'') | Some (name, s) \<Rightarrow>
      case cut_byte CHR '' '' s of None \<Rightarrow> Inl (Err ''no class'') | Some (ttl, s) \<Rightarrow>
      case cut_byte CHR '' '' s of None \<Rightarrow> Inl (Err ''no type'') | Some (cl, s) \<Rightarrow>
      case cut_byte CHR '' '' s of None \<Rightarrow> Inl (Err ''no data'') | Some (ty, s) \<Rightarrow>
        Inr \<lparr>rrType = (if ty = ''A'' then TypeA else if ty = ''AAAA'' then TypeAAAA else TypeCNAME), rrTtl = 300, rrData = s\<rparr>)"

definition host_dns :: dns_lib where
  "host_dns =
     (let reply = (\<lambda>m r. m\<lparr>msgOpcode := msgOpcode r, msgRcode := 0, msgCheckingDisabled := msgCheckingDisabled r,
        msgQuestion := take 1 (msgQuestion r)\<rparr>) in
      \<lparr>dlSetReply = reply, dlSetRcode = (\<lambda>m r c. (reply m r)\<lparr>msgRcode := c\<rparr>), dlNewRR = parse_rr,
       dlSplitDomainName = split_labels [], dlClassToString = (\<lambda>c. ''IN''),
       dlTypeToString = (\<lambda>t. if t = TypeA then ''A'' else if t = TypeAAAA then ''AAAA'' else ''CNAME''),
       dlSetEdns0 = (\<lambda>m n b. m\<lparr>msgOpt := Some \<lparr>optUDPSize = n, optDo = b, optOptions = []\<rparr>\<rparr>), dlTruncate = (\<lambda>m n. m)\<rparr>)"

lemma split_labels_label: "CHR ''.'' \<notin> set l \<Longrightarrow> split_labels p (l @ CHR ''.'' # s) = (p @ l) # split_labels [] s"
  by (induction l arbitrary: p) auto

lemma plain_label_chars:
  assumes "plain_label l"
  shows "CHR ''.'' \<notin> set l \<and> CHR '' '' \<notin> set l"
proof -
  have "\<not> plain_char CHR ''.''" "\<not> plain_char CHR '' ''" by code_simp+
  then show ?thesis using assms unfolding plain_label_def list_all_iff by metis
qed

lemma split_dotted: "list_all plain_label ls \<Longrightarrow> split_labels [] (dotted ls) = ls"
  by (induction ls) (simp_all add: dotted_def split_labels_label plain_label_chars)

lemma dotted_no_blank: "list_all plain_label ls \<Longrightarrow> CHR '' '' \<notin> set (dotted ls)"
  by (induction ls) (auto simp: dotted_def dest: plain_label_chars)

lemma newRR_host:
  assumes "CHR '' '' \<notin> set n" "t = TypeA \<or> t = TypeAAAA"
  shows "newRR host_dns n ClassINET t s = Inr \<lparr>rrType = t, rrTtl = 300, rrData = s\<rparr>"
proof -
  have ttl: "itoa authoritativeTTL = ''300''" by code_simp
  have ne: "TypeA \<noteq> TypeAAAA" by (simp add: TypeA_def TypeAAAA_def)
  have "cut_byte CHR '' '' (n @ CHR '' '' # r) = Some (n, r)" for r by (rule cut_byte_append [OF assms(1)])
  then show ?thesis using assms(2) ne by (auto simp: newRR_def host_dns_def Let_def ttl)
qed

lemma host_dns_laws: "dns_laws host_dns"
proof -
  have "newRR host_dns (dotted ls) ClassINET t (addr_string a) = Inr \<lparr>rrType = t, rrTtl = 300, rrData = addr_string a\<rparr>"
    if "plain_labels ls" "t = TypeA \<or> t = TypeAAAA" for ls t a
    using that by (intro newRR_host dotted_no_blank) (auto simp: plain_labels_def)
  then show ?thesis
    unfolding dns_laws_def by (auto simp: plain_labels_def split_dotted host_dns_def Let_def)
qed

definition home_dns :: dns_auth where
  "home_dns = \<lparr>daLower = id, daFold = id, daDomain = ''vpn.home.'', daZone = []\<rparr>"

definition phone_query :: dns_msg where
  "phone_query = new_msg\<lparr>msgQuestion := [\<lparr>quName = ''Phone.ALICE.vpn.HOME.'', quType = TypeA, quClass = ClassINET\<rparr>]\<rparr>"

theorem device_resolves_witness:
  "\<exists>r. auth_Lookup host_dns (PushZone (generateZone one_device [V4 1]) home_dns) phone_query = Inr r \<and> msgRcode r = 0 \<and>
     map rrData (msgAnswer r) = [''10.44.0.2'']"
proof -
  let ?q = "\<lparr>quName = ''Phone.ALICE.vpn.HOME.'', quType = TypeA, quClass = ClassINET\<rparr>"
  have hit: "fold_key id (''alice'', ''phone'') = fold_key id (''ALICE'', ''Phone'')" by code_simp
  have only: "d = hd one_device" if "d \<in> set one_device" for d using that by (simp add: one_device_def)
  have addrs: "fst (ParseAddresses (devAddress (hd one_device))) = [V4 170655746]" by code_simp
  have shown: "addr_string (V4 170655746) = ''10.44.0.2''" by code_simp
  have home [simp]: "daLower home_dns = id" "daFold home_dns = id" "daDomain home_dns = ''vpn.home.''" by (simp_all add: home_dns_def)
  have apart: "names_apart (daLower home_dns) one_device" unfolding names_apart_def by code_simp
  have ok: "fst (ParseAddresses (devAddress d)) \<noteq> [] \<and> list_all (\<lambda>a. zone_of a = []) (fst (ParseAddresses (devAddress d)))"
    if "d \<in> set one_device" for d
    using addrs only [OF that] by simp
  have q: "msgQuestion phone_query = [?q]" "quClass ?q = ClassINET" "quName ?q = dotted [''Phone'', ''ALICE''] @ dotted [''vpn'', ''HOME'']"
    by (simp_all add: phone_query_def dotted_def)
  have n: "plain_labels ([''Phone'', ''ALICE''] @ [''vpn'', ''HOME''])" "length (dotted [''vpn'', ''HOME'']) = length (daDomain home_dns)"
    "equal_fold (daFold home_dns) (dotted [''vpn'', ''HOME'']) (daDomain home_dns)"
    "fold_key (daLower home_dns) (''ALICE'', ''Phone'') \<noteq> fold_key (daLower home_dns) ([], [])"
    by code_simp+
  have me: "hd one_device \<in> set one_device"
    "fold_key (daLower home_dns) (devOwner (hd one_device), devName (hd one_device)) = fold_key (daLower home_dns) (''ALICE'', ''Phone'')"
    using hit by (simp_all add: one_device_def)
  then have ex: "\<exists>d \<in> set one_device. fold_key (daLower home_dns) (devOwner d, devName d) = fold_key (daLower home_dns) (''ALICE'', ''Phone'')"
    by blast
  obtain r where r: "auth_Lookup host_dns (PushZone (generateZone one_device [V4 1]) home_dns) phone_query = Inr r" "msgRcode r = 0"
    "map rrData (msgAnswer r) = map addr_string (filter (\<lambda>a. (is4 a \<and> quType ?q \<in> {TypeA, TypeANY}) \<or>
      (is6 a \<and> quType ?q \<in> {TypeAAAA, TypeANY})) (fst (ParseAddresses (devAddress (hd one_device)))))"
    using device_resolves [OF host_dns_laws apart ok q n, of "[V4 1]", unfolded if_P [OF ex]] me by blast
  then show ?thesis using shown by (simp add: addrs)
qed

section \<open>A cache\<close>

type_synonym entries = "nat \<times> (string \<times> cached_response) list"

definition front_get :: "string \<Rightarrow> entries \<Rightarrow> cached_response option \<times> entries" where
  "front_get k c =
     (case map_of (snd c) k of None \<Rightarrow> (None, c) | Some v \<Rightarrow> (Some v, fst c, (k, v) # AList.delete k (snd c)))"

definition front_add :: "string \<Rightarrow> cached_response \<Rightarrow> entries \<Rightarrow> entries" where
  "front_add k v c = (fst c, take (fst c) ((k, v) # AList.delete k (snd c)))"

definition front_lru :: "entries lru" where
  "front_lru = \<lparr>lruGet = front_get, lruAdd = front_add, lruRemove = (\<lambda>k c. (fst c, AList.delete k (snd c)))\<rparr>"

definition new_entries :: "nat \<Rightarrow> entries res" where
  "new_entries n = Inr (n, [])"

lemma map_of_take: "map_of (take n xs) \<subseteq>\<^sub>m map_of xs"
proof (induction xs arbitrary: n)
  case (Cons x xs)
  obtain k v where x: "x = (k, v)" by fastforce
  have "map_of (take j xs) a = Some y \<Longrightarrow> map_of xs a = Some y" for j a y using map_leD [OF Cons.IH] .
  then show ?case by (cases n) (auto simp: map_le_def x)
qed simp

lemma front_lru_laws: "lru_laws front_lru new_entries (\<lambda>c. map_of (snd c))"
proof -
  have get: "fst (front_get k c) = map_of (snd c) k" "map_of (snd (snd (front_get k c))) = map_of (snd c)" for k c
    by (auto simp: front_get_def delete_conv fun_eq_iff split: option.splits)
  have add: "map_of (snd (front_add k v c)) \<subseteq>\<^sub>m (map_of (snd c))(k \<mapsto> v)" for k v c
    using map_of_take [of "fst c" "(k, v) # AList.delete k (snd c)"]
    by (simp add: front_add_def delete_conv' restrict_complement_singleton_eq)
  show ?thesis using get add by (simp add: lru_laws_def front_lru_def new_entries_def delete_conv')
qed

definition web_query :: dns_msg where
  "web_query = new_msg\<lparr>msgQuestion := [\<lparr>quName = ''example.org.'', quType = TypeA, quClass = ClassINET\<rparr>]\<rparr>"

definition web_answer :: dns_msg where
  "web_answer = web_query\<lparr>msgAnswer := [\<lparr>rrType = TypeA, rrTtl = 60, rrData = ''192.0.2.7''\<rparr>]\<rparr>"

text \<open>Two upstreams, of which the first never answers; then a network that is down.\<close>

definition half_net :: network_reply where
  "half_net =
     \<lparr>nrUDP = (\<lambda>m a. if a = ''9.9.9.9:53'' then Inr web_answer else Inl (Err ''timeout'')), nrTCP = (\<lambda>m a. Inl (Err ''timeout'')),
      nrTime = 5 * second\<rparr>"

definition no_net :: network_reply where
  "no_net = \<lparr>nrUDP = (\<lambda>m a. Inl (Err ''timeout'')), nrTCP = (\<lambda>m a. Inl (Err ''timeout'')), nrTime = 64 * second\<rparr>"

definition two_upstreams :: "entries dns_proxy" where
  "two_upstreams = \<lparr>dpCache = Some (10, []), dpUpstream = [''192.0.2.1'', ''9.9.9.9''], dpFailedAt = []\<rparr>"

definition after_web :: "entries dns_proxy" where
  "after_web =
     \<lparr>dpCache = Some (10, [(''example.org.:1:1:0'', \<lparr>crResponse = web_answer, crExpiresAt = 65 * second\<rparr>)]),
      dpUpstream = [''192.0.2.1'', ''9.9.9.9''], dpFailedAt = [(''192.0.2.1'', 5 * second)]\<rparr>"

theorem lookup_answers_witness: "\<exists>response. fst (proxy_Lookup front_lru (\<lambda>i. half_net) 0 web_query two_upstreams) = Inr response"
proof -
  have "proxy_exchange half_net web_query ''9.9.9.9'' = Inr web_answer" by code_simp
  then show ?thesis
    using lookup_answers [of web_query "''9.9.9.9''" two_upstreams "\<lambda>i. half_net" front_lru 0]
    by (simp add: web_query_def two_upstreams_def)
qed

lemma web_lookup: "proxy_Lookup front_lru (\<lambda>i. half_net) 0 web_query two_upstreams = (Inr web_answer, after_web)"
  by code_simp

text \<open>The answer of the first lookup is good for sixty seconds, also while no upstream answers.\<close>

lemma after_web_reachable: "\<exists>seen. proxy_reachable front_lru new_entries (after_web, seen)"
proof -
  have "dnsproxy_New new_entries [''192.0.2.1'', ''9.9.9.9''] 10 = Inr two_upstreams"
    by (simp add: dnsproxy_New_def new_entries_def two_upstreams_def)
  then show ?thesis
    using Lookup_steps [of "{}" front_lru two_upstreams "\<lambda>i. half_net" 0 web_query] unfolding web_lookup proxy_reachable_def by auto
qed

theorem answers_fresh_witness:
  "\<exists>seen response m' t. proxy_reachable front_lru new_entries (after_web, seen) \<and>
     fst (proxy_Lookup front_lru (\<lambda>i. no_net) (64 * second) web_query after_web) = Inr response \<and>
     (m', response, t) \<in> seen \<and> 64 * second < t + 60 * second"
proof -
  have hit: "fst (proxy_Lookup front_lru (\<lambda>i. no_net) (64 * second) web_query after_web) = Inr web_answer" by code_simp
  have down: "proxy_exchange no_net web_query u \<noteq> Inr web_answer" for u by (simp add: proxy_exchange_def no_net_def)
  have ttl: "set (msg_records web_answer) = {\<lparr>rrType = TypeA, rrTtl = 60, rrData = ''192.0.2.7''\<rparr>}"
    by (simp add: msg_records_def web_answer_def web_query_def new_msg_def TypeA_def TypeOPT_def)
  obtain seen where seen: "proxy_reachable front_lru new_entries (after_web, seen)" using after_web_reachable by blast
  obtain m' t where "(m', web_answer, t) \<in> seen" "64 * second < t + 60 * second"
    using answers_fresh [OF front_lru_laws seen hit] down ttl by auto
  then show ?thesis using seen hit by blast
qed

end
