(* ===== verification/Server_Site.thy ===== *)
theory Server_Site
  imports Server_Firewall Api_Site Server_Start Dns_Site
begin

text \<open>
  A server with one access policy, from its configuration to its ruleset.
\<close>

definition staff_vpn :: vpn_config where
  "staff_vpn =
     \<lparr>vcAllowedIPs = [''0.0.0.0/0''], vcCIDR = ''10.44.0.0/24'', vcCIDRv6 = ''0'', vcGatewayInterface = [], vcNAT44 = True,
      vcNAT66 = True, vcClientIsolation = True, vcPolicies = [(''staff'', [''192.168.5.0/24''])], vcFirewall = ''nftables'',
      vcDisableIPTables = False\<rparr>"

definition staff_config :: app_config where
  "staff_config =
     \<lparr>cfLogLevel = [], cfAdminUsername = ''admin'', cfAdminPassword = ''secret'', cfPort = 8000, cfHttpHost = [], cfHttpEnabled = True,
      cfExternalHost = ''vpn'', cfTrustedProxies = [], cfStorage = ''memory://'', cfEnableMetadata = True, cfEnableDeviceMetrics = False,
      cfEnableInactiveDeviceDeletion = False, cfInactiveDeviceGracePeriod = 0, cfMaxDevicesPerUser = 0, cfEnableAPITokens = False,
      cfFilename = [],
      cfWireGuard = \<lparr>wcEnabled = True, wcInterface = ''wg0'', wcPrivateKey = ''key'', wcPort = 51820, wcMTU = 1420, wcPreUp = [],
        wcPostUp = [], wcPreDown = [], wcPostDown = []\<rparr>,
      cfVPN = staff_vpn,
      cfDNS = \<lparr>dcEnabled = False, dcUpstream = [], dcCacheSize = 0, dcDomain = []\<rparr>,
      cfClientConfig = \<lparr>ccDNSServers = [], ccDNSSearchDomain = [], ccMTU = 0, ccPersistentKeepalive = 0\<rparr>,
      cfMetrics = \<lparr>mcUsername = [], mcPasswordHash = [], mcMaxDeviceSeries = 0\<rparr>,
      cfAuth = \<lparr>auSessionStore = None, auProvider = no_providers, auMultiple = []\<rparr>,
      cfHTTPS = \<lparr>hcEnabled = False, hcCertFile = [], hcKeyFile = [], hcPort = 0, hcHost = []\<rparr>\<rparr>"

definition staff_cmd :: servecmd where
  "staff_cmd = \<lparr>cmConfigFilePath = [], cmAdminPasswordFile = [], cmWireGuardPrivateKeyFile = [], cmAppConfig = staff_config\<rparr>"

definition staff_env :: os_env where
  "staff_env =
     \<lparr>osReadFile = (\<lambda>_. Inl (Err ''no such file'')), osConfigured = (\<lambda>_. Inr False), osUnmarshal = (\<lambda>_ c. Inr c),
      osBcrypt = (\<lambda>p. Inr (CHR ''$'' # p)), osPrivateKey = Inr ''key'', osURLParse = (\<lambda>_. Inl (Err ''bad URL''))\<rparr>"

definition staff_read :: app_config where
  "staff_read = staff_config\<lparr>cfVPN := staff_vpn\<lparr>vcCIDRv6 := []\<rparr>,
     cfAuth := \<lparr>auSessionStore = None, auProvider = no_providers\<lparr>pcSimple := Some [''admin:$secret'']\<rparr>, auMultiple = []\<rparr>\<rparr>"

lemma staff_reads: "ReadConfig staff_env staff_cmd = Inr staff_read"
  by code_simp

theorem config_accepted_witness: "config_ok staff_env staff_read"
  by (rule config_accepted [OF staff_reads])

definition dollar_htpasswd :: htpasswd where
  "dollar_htpasswd =
     \<lparr>AcceptBcrypt = (\<lambda>h. case h of c # p \<Rightarrow> Some (\<lambda>q. q = p) | [] \<Rightarrow> None), AcceptSha = (\<lambda>_. None), AcceptSsha = (\<lambda>_. None),
      AcceptMd5 = (\<lambda>_. None)\<rparr>"

theorem admin_signs_in_witness:
  "\<exists>us entry. us @ [entry] \<in> set (lists_of (auProvider (cfAuth staff_read))) \<and>
    checkCreds dollar_htpasswd (\<lambda>_ _. False) (\<lambda>_. ([], [])) (us @ [entry]) ''admin'' ''secret''"
proof -
  have bc: "bcrypt_entries staff_env dollar_htpasswd" by (simp add: bcrypt_entries_def staff_env_def dollar_htpasswd_def)
  have ad: "cfAdminPassword staff_read = ''secret''" "cfAdminUsername staff_read = ''admin''" by (simp_all add: staff_read_def staff_config_def)
  have "cfAdminPassword staff_read \<noteq> []" "cfAdminUsername staff_read \<noteq> []" "CHR '':'' \<notin> set (cfAdminUsername staff_read)"
    by (simp_all add: ad)
  note signs = admin_signs_in [OF staff_reads bc this, of "\<lambda>_ _. False" "''secret''", unfolded ad simp_thms]
  obtain us entry where l: "us @ [entry] \<in> set (lists_of (auProvider (cfAuth staff_read)))"
    "entry_in ''admin'' us = None \<longrightarrow> checkCreds dollar_htpasswd (\<lambda>_ _. False) (\<lambda>_. ([], [])) (us @ [entry]) ''admin'' ''secret''"
    using signs by (elim exE conjE)
  have "lists_of (auProvider (cfAuth staff_read)) = [[''admin:$secret'']]" by code_simp
  then have "us = []" using l(1) by (cases us) auto
  then have none: "entry_in ''admin'' us = None" by simp
  show ?thesis
    by (rule exI [of _ us], rule exI [of _ entry], rule conjI [OF l(1) l(2) [THEN mp, OF none]])
qed

section \<open>A packet\<close>

definition staff_site :: "peer list manager" where
  "staff_site = site2\<lparr>storage := (storage site2)\<lparr>users := [(''alice'', Users_Passwords.alice\<lparr>usrPolicies := ''staff''\<rparr>)]\<rparr>\<rparr>"

lemma staff_site_ok: "mgr_ok staff_site"
proof -
  have site: "mgr_ok site2" by (rule reachable_ok [OF site_reachable])
  then have "store_ok (storage staff_site)"
    using mgr_db_ok(1) [OF site] by (simp add: staff_site_def store_ok_def table_ok_def amap_ok_def Users_Passwords.alice_def)
  then have "devices_kept (storage site2) (storage staff_site)" by (simp add: devices_kept_def staff_site_def)
  moreover have "staff_site = site2\<lparr>storage := storage staff_site\<rparr>" by (simp add: staff_site_def)
  ultimately show ?thesis using devices_kept_ok [OF site] by metis
qed

definition staff_addressing :: vpn_addressing where
  "staff_addressing = \<lparr>vaIPv4 = Prefix (V4 170655745) 24, vaIPv6 = NoPrefix, vaPrefixes = [''10.44.0.1/24''], vaAddrs = [V4 170655745]\<rparr>"

definition staff_started :: app_config where
  "staff_started = staff_read\<lparr>cfVPN := (cfVPN staff_read)\<lparr>vcAllowedIPs := [''0.0.0.0/0'', ''10.44.0.1/32'']\<rparr>\<rparr>"

definition staff_options :: forwarding_options where
  "staff_options = \<lparr>foGatewayIface = [], foCIDR = ''10.44.0.0/24'', foCIDRv6 = [], foNAT44 = True, foNAT66 = True,
     foClientIsolation = True, foAllowedIPs = [''0.0.0.0/0'', ''10.44.0.1/32''], foAllowedIPv4s = [''0.0.0.0/0'', ''10.44.0.1/32''],
     foAllowedIPv6s = [],
     foPolicies = [\<lparr>polName = ''staff'', polAllowedIPs = [''192.168.5.0/24''], polMembers = [''10.44.0.2/32'', ''10.44.0.3/32'']\<rparr>],
     foServerAddresses = [''10.44.0.1''], foFirewall = ''nftables''\<rparr>"

definition staff_parts :: nft_parts where
  "staff_parts = \<lparr>
     ptSets = [\<lparr>setName = ''policy_staff_ip'', setKind = ''ipv4_addr'', setElements = [''10.44.0.2'', ''10.44.0.3'']\<rparr>,
               \<lparr>setName = ''policy_members_ip'', setKind = ''ipv4_addr'', setElements = [''10.44.0.2'', ''10.44.0.3'']\<rparr>],
     ptForward =
       [rule4 ''ip'' (Net ''10.44.0.0/24'') (Net ''10.44.0.0/24'') Reject,
        rule4 ''ip'' (Net ''10.44.0.0/24'') (Net ''10.44.0.1'') Accept,
        rule4 ''ip'' (NamedSet ''policy_staff_ip'') (Net ''192.168.5.0/24'') Accept,
        source_rule ''ip'' (NamedSet ''policy_members_ip'') Reject,
        rule4 ''ip'' (Net ''10.44.0.0/24'') (Net ''0.0.0.0/0'') Accept,
        rule4 ''ip'' (Net ''10.44.0.0/24'') (Net ''10.44.0.1/32'') Accept,
        source_rule ''ip'' (Net ''10.44.0.0/24'') Reject],
     ptPostrouting = []\<rparr>"

definition staff_family :: family where
  "staff_family = \<lparr>famProtocol = ProtocolIPv4, famKeyword = ''ip'', famCidr = ''10.44.0.0/24'',
     famAllowed = [''0.0.0.0/0'', ''10.44.0.1/32''], famNat = True\<rparr>"

lemma staff_vpn_facts:
  "vpnAddresses staff_read = Inr (staff_addressing, staff_started)"
  by code_simp

lemma staff_policy_facts:
  "amap_ok (vcPolicies (cfVPN staff_read))" "''members'' \<notin> fst ` set (vcPolicies (cfVPN staff_read))"
  by code_simp+

lemma staff_state:
  "firewallState 0 (ListAllDevices (storage staff_site)) (storage staff_site) =
     \<lparr>Routed = [], Policies = [(''staff'', [''10.44.0.2/32'', ''10.44.0.3/32''])]\<rparr>"
  by code_simp

lemma staff_split:
  "splitAllowedIPs (forwardingOptions staff_started staff_addressing
     (firewallState 0 (ListAllDevices (storage staff_site)) (storage staff_site))) = Inr staff_options"
  unfolding staff_state by code_simp

lemma staff_ruleset: "ruleset_parts (\<lambda>_. True) staff_options = Inr staff_parts"
  by code_simp

lemma staff_family_facts:
  "staff_family \<in> set (families staff_options)" "famNat staff_family"
  "famKeyword staff_family = keyword_of (V4 170655746)"
  by code_simp+

lemma staff_unmapped: "list_all (\<lambda>b. \<not> is4in6 b) (all_addresses (storage staff_site))"
  by code_simp

lemmas staff_facts = staff_vpn_facts staff_policy_facts staff_split staff_ruleset staff_family_facts staff_unmapped

definition staff_phone :: device where
  "staff_phone = snd (site_device ''laptop'' CHR ''B'' ''10.44.0.2/32'')"

lemma staff_device_facts:
  "staff_phone \<in> stored (storage staff_site)" "AccessAllowed staff_phone 0" "V4 170655746 \<in> set (fst (ParseAddresses (devAddress staff_phone)))"
  "map_of (users (storage staff_site)) (devOwner staff_phone) = Some (Users_Passwords.alice\<lparr>usrPolicies := ''staff''\<rparr>)"
  "''staff'' \<in> set (PolicyList (Users_Passwords.alice\<lparr>usrPolicies := ''staff''\<rparr>))" "''staff'' \<in> fst ` set (vcPolicies (cfVPN staff_read))"
  "nft_verdict staff_parts (V4 170655746) (V4 3232236801) = Accept"
  unfolding stored_def by code_simp+

theorem policies_enforced_witness:
  "in_nets (addressesOfFamily (map addr_string (vaAddrs staff_addressing)) staff_family) (V4 3232236801) \<or>
    (\<exists>m ns net. m \<in> set (PolicyList (Users_Passwords.alice\<lparr>usrPolicies := ''staff''\<rparr>)) \<and> (m, ns) \<in> set (vcPolicies (cfVPN staff_read)) \<and>
       net \<in> set ns \<and> net_matches net (V4 3232236801))"
proof -
  have "\<not> is4in6 b" if "b \<in> set (all_addresses (storage staff_site))" for b
    using staff_facts(9) that by (simp add: list_all_iff)
  then show ?thesis
    by (rule policies_enforced [OF staff_reads staff_facts(1-3) staff_site_ok _ staff_facts(4-8) staff_device_facts])
qed

section \<open>Starting it\<close>

definition hooked_config :: app_config where
  "hooked_config = staff_read\<lparr>cfWireGuard := (cfWireGuard staff_read)\<lparr>wcPreUp := [''ip link show %i'']\<rparr>,
     cfDNS := (cfDNS staff_read)\<lparr>dcEnabled := True\<rparr>\<rparr>"

definition root_file :: "string \<Rightarrow> file_info res" where
  "root_file path = Inr \<lparr>fiMode = 384, fiOwner = Some 0\<rparr>"

definition plain_vpn :: vpn_addressing where
  "plain_vpn = \<lparr>vaIPv4 = NoPrefix, vaIPv6 = NoPrefix, vaPrefixes = [], vaAddrs = []\<rparr>"

theorem lifecycle_guarded_witness:
  "\<exists>tr. startWireGuard (\<lambda>_. None) root_file 1000 ''/config.yaml'' hooked_config plain_vpn [] = (Up, tr) \<and>
     hd tr = Shell ''preUp'' ''ip link show wg0'' \<and> trusted_file root_file 1000 ''/config.yaml''"
proof -
  let ?start = "startWireGuard (\<lambda>_. None) root_file 1000 ''/config.yaml'' hooked_config plain_vpn []"
  have up: "fst ?start = Up" "hd (snd ?start) = Shell ''preUp'' ''ip link show wg0''" "snd ?start \<noteq> []" by code_simp+
  then obtain tr where tr: "?start = (Up, tr)" "hd tr = Shell ''preUp'' ''ip link show wg0''" "tr \<noteq> []" by (cases ?start) auto
  have "Shell ''preUp'' ''ip link show wg0'' \<in> set tr" using tr(2,3) hd_in_set by metis
  then show ?thesis using lifecycle_guarded [OF tr(1), of "''preUp''" "''ip link show wg0''"] tr by blast
qed

theorem dns_has_upstream_witness:
  "\<exists>vpn c srv. vpnAddresses hooked_config = Inr (vpn, c) \<and>
     startDNS new_entries (\<lambda>_. Inl (Err ''no such file'')) c vpn = Inr (Some srv) \<and> dpUpstream (dsProxy srv) \<noteq> []"
proof -
  have "is_ok (vpnAddresses hooked_config)" by code_simp
  then obtain vpn c where v: "vpnAddresses hooked_config = Inr (vpn, c)"
    by (cases "vpnAddresses hooked_config") auto
  have "dcEnabled (cfDNS hooked_config)" by (simp add: hooked_config_def)
  moreover have "\<exists>k. new_entries n = Inr k" for n by (simp add: new_entries_def)
  ultimately show ?thesis using dns_has_upstream [OF v, of new_entries "\<lambda>_. Inl (Err ''no such file'')"] v by blast
qed

end
