(* ===== verification/Api_Info.thy ===== *)
theory Api_Info
  imports Api Server_Config
begin

text \<open>
  What the web interface is told about the server (\<^verbatim>\<open>internal/api/server_service.go\<close>).  The public key of the
  interface, the version and the commit are arguments.
\<close>

record info_message =
  imHost :: "string option"
  imPublicKey :: string
  imPort :: int32
  imMetadataEnabled :: bool
  imInactiveDeviceDeletionEnabled :: bool
  imInactiveDeviceGracePeriod :: "duration option"
  imIsAdmin :: bool
  imAllowedIps :: string
  imDnsEnabled :: bool
  imDnsAddress :: string
  imFilename :: string
  imClientConfigDnsServers :: string
  imClientConfigDnsSearchDomain :: string
  imClientConfigMtu :: int32
  imClientConfigPersistentKeepalive :: int32
  imBuildInfo :: "string \<times> string"
  imMtu :: int32
  imApiTokensEnabled :: bool
  imSubject :: string
  imPasswordChangeEnabled :: bool
  imTwoFactorEnabled :: bool
  imRecoveryCodesLeft :: int32
  imPasskeys :: int32

definition stringValue :: "string option \<Rightarrow> string option" where
  "stringValue value = (case value of None \<Rightarrow> None | Some s \<Rightarrow> Some s)"

definition durationToDurationpb :: "duration option \<Rightarrow> duration option" where
  "durationToDurationpb value = (case value of None \<Rightarrow> None | Some d \<Rightarrow> Some d)"

definition passkeyCount :: "('w, 'p) services \<Rightarrow> string \<Rightarrow> 'w server \<Rightarrow> int32" where
  "passkeyCount S subject st =
     (if svcWebauthn S = None then 0 else of_nat (length (ListPasskeys subject (svStore st))))"

definition recoveryCodesLeft :: "('w, 'p) services \<Rightarrow> string \<Rightarrow> 'w server \<Rightarrow> int32" where
  "recoveryCodesLeft S subject st =
     (if svcIssuer S = None then 0 else of_nat (RecoveryCodesLeft subject (svStore st)))"

text \<open>An IPv6 address gets the brackets it lacks.\<close>

definition bracketed :: "string \<Rightarrow> string" where
  "bracketed host =
     (if CHR '':'' \<in> set host then
        (let front = (if has_prefix host ''['' then host else CHR ''['' # host) in
         if front \<noteq> [] \<and> last front = CHR '']'' then front else front @ '']'')
      else host)"

fun add_routed :: "string list \<Rightarrow> string list \<Rightarrow> string list" where
  "add_routed allowed [] = allowed"
| "add_routed allowed (routed # rs) = add_routed (if List.member allowed routed then allowed else allowed @ [routed]) rs"

definition allowedIPs :: "app_config \<Rightarrow> 'w server \<Rightarrow> string" where
  "allowedIPs c st = go_join '', '' (add_routed (vcAllowedIPs (cfVPN c)) (RoutedNetworks (svManager st)))"

definition clientConfigDnsServers :: "app_config \<Rightarrow> string" where
  "clientConfigDnsServers c = go_join '', '' (ccDNSServers (cfClientConfig c))"

definition api_Info ::
  "('w, 'p) services \<Rightarrow> app_config \<Rightarrow> string res \<Rightarrow> string \<times> string \<Rightarrow> api_call \<Rightarrow> 'w server \<Rightarrow> info_message rpc \<times> 'w server" where
  "api_Info S conf pub build c =
     checked (current_user c) (\<lambda>user st.
       (case pub of
          Inl e \<Rightarrow> (Inl (internalError c ''failed to get public key'' e), st)
        | Inr publicKey \<Rightarrow>
            (case ServerVPNIPs (vcCIDR (cfVPN conf)) (vcCIDRv6 (cfVPN conf)) of
               Inl e \<Rightarrow> (Inl (internalError c ''failed to get server IPs'' e), st)
             | Inr (vpnip, vpnipv6) \<Rightarrow>
                 (Inr \<lparr>imHost = stringValue (Some (bracketed (cfExternalHost conf))), imPublicKey = publicKey,
                    imPort = of_int (wcPort (cfWireGuard conf)), imMetadataEnabled = cfEnableMetadata conf,
                    imInactiveDeviceDeletionEnabled = cfEnableInactiveDeviceDeletion conf,
                    imInactiveDeviceGracePeriod = durationToDurationpb (Some (cfInactiveDeviceGracePeriod conf)),
                    imIsAdmin = IsAdmin (idClaims user), imAllowedIps = allowedIPs conf st, imDnsEnabled = dcEnabled (cfDNS conf),
                    imDnsAddress = StringJoinIPs vpnip vpnipv6, imFilename = cfFilename conf,
                    imClientConfigDnsServers = clientConfigDnsServers conf,
                    imClientConfigDnsSearchDomain = ccDNSSearchDomain (cfClientConfig conf),
                    imClientConfigMtu = of_int (ccMTU (cfClientConfig conf)),
                    imClientConfigPersistentKeepalive = of_int (ccPersistentKeepalive (cfClientConfig conf)),
                    imBuildInfo = build, imMtu = of_int (wcMTU (cfWireGuard conf)), imApiTokensEnabled = cfEnableAPITokens conf,
                    imSubject = idSubject user,
                    imPasswordChangeEnabled = (svcPasswords S \<noteq> None \<and> HasPassword (idProvider user)),
                    imTwoFactorEnabled = (svcIssuer S \<noteq> None \<and> Enabled (svcWebauthn S \<noteq> None) (idSubject user) (svStore st)),
                    imRecoveryCodesLeft = recoveryCodesLeft S (idSubject user) st,
                    imPasskeys = passkeyCount S (idSubject user) st\<rparr>, st))))"

section \<open>What a client tunnels\<close>

lemma add_routed_set: "set (add_routed allowed rs) = set allowed \<union> set rs"
  by (induction allowed rs rule: add_routed.induct) auto

lemma add_routed_prefix: "\<exists>more. add_routed allowed rs = allowed @ more \<and> distinct more \<and> set more \<inter> set allowed = {}"
proof (induction allowed rs rule: add_routed.induct)
  case (2 allowed routed rs)
  then show ?case by (auto split: if_splits)
qed simp

text \<open>A client is told to tunnel what is configured, as it is configured, and after that every network behind a
  device once.\<close>

lemma allowedIPs_complete:
  "\<exists>xs. allowedIPs c st = go_join '', '' xs \<and> set xs = set (vcAllowedIPs (cfVPN c)) \<union> set (RoutedNetworks (svManager st)) \<and>
     take (length (vcAllowedIPs (cfVPN c))) xs = vcAllowedIPs (cfVPN c)"
  using add_routed_prefix [of "vcAllowedIPs (cfVPN c)" "RoutedNetworks (svManager st)"]
    add_routed_set [of "vcAllowedIPs (cfVPN c)" "RoutedNetworks (svManager st)"]
  by (auto simp: allowedIPs_def)

end
