(* ===== verification/Provider_Github.thy ===== *)
theory Provider_Github
  imports Login_Properties Netip_Lemmas
begin

text \<open>
  Signing in with GitHub (\<^verbatim>\<open>internal/authnz/authconfig/github.go\<close>).  The OAuth library and GitHub are arguments: exchanging a
  code yields the replies GitHub gives on behalf of whoever consented.  \<^verbatim>\<open>FormValue\<close> reads the form of the request,
  which holds the parameters of the query.  Lines of the log are left out.
\<close>

section \<open>The REST API\<close>














section \<open>Who may sign in\<close>





definition github_scopes :: "github_config \<Rightarrow> string list" where
  "github_scopes c =
     [''user:email''] @ (if ghOrganizations c \<noteq> [] \<or> ghTeams c \<noteq> [] \<or> ghAdminTeams c \<noteq> [] then [''read:org''] else [])"





record github_env =
  geFold :: "nat \<Rightarrow> nat"
  geEscape :: "string \<Rightarrow> string"
  geURLParse :: "string \<Rightarrow> (string \<times> string) res"
  geSessions :: session_env


section \<open>The handlers\<close>

text \<open>\<^verbatim>\<open>Invoke\<close>: a state goes into the cookie and to GitHub, whose page the browser is sent to.\<close>

definition github_Invoke ::
  "github_env \<Rightarrow> (string \<Rightarrow> string) \<Rightarrow> string \<Rightarrow> exchange \<Rightarrow> instant \<Rightarrow> memory \<Rightarrow> response \<times> auth_session option \<times> memory" where
  "github_Invoke G authCodeURL state x now s =
     (case runtime_SetSession (geSessions G) x (empty_session\<lparr>asState := Some state\<rparr>) now s of
        (Inl e, c, s) \<Rightarrow> (HttpError 401 ''No session'', c, s)
      | (Inr _, c, s) \<Rightarrow> (Redirect 307 (authCodeURL state), c, s))"


section \<open>What a sign-in takes\<close>














lemma IsAdmin_none [simp]: "\<not> IsAdmin []"
  by (simp add: IsAdmin_def claims_Has_def)




end
