(* ===== verification/Provider_Oidc.thy ===== *)
theory Provider_Oidc
  imports Provider_Github Firewall
begin

text \<open>
  Signing in with OpenID Connect (\<^verbatim>\<open>internal/authnz/authconfig/oidc.go\<close>), and with GitLab, which is configured more
  briefly (\<^verbatim>\<open>gitlab.go\<close>).  The OAuth and OpenID libraries, the identity provider and the language of the rules are
  arguments.  Of a claim the code tells booleans and strings from everything else.
\<close>

section \<open>Claims of the provider\<close>

datatype claim_value = Flag bool | Text string | Other string

type_synonym oidc_claims = "(string, claim_value) amap"

definition text_claim :: "oidc_claims \<Rightarrow> string \<Rightarrow> string option" where
  "text_claim claims name = (case map_of claims name of Some (Text t) \<Rightarrow> Some t | _ \<Rightarrow> None)"

definition nameClaims :: "string list" where
  "nameClaims = [''name'', ''preferred_username'', ''nickname'', ''given_name'']"

fun first_name :: "oidc_claims \<Rightarrow> string list \<Rightarrow> string" where
  "first_name claims [] = []"
| "first_name claims (c # cs) =
     (case text_claim claims c of
        Some name \<Rightarrow> if trim_space name \<noteq> [] then trim_space name else first_name claims cs
      | None \<Rightarrow> first_name claims cs)"

definition displayName :: "oidc_claims \<Rightarrow> string" where
  "displayName claims = first_name claims nameClaims"

definition ensureScopes :: "string list \<Rightarrow> string list \<Rightarrow> string list" where
  "ensureScopes configured emailDomains =
     (let scopes = (if configured = [] then [''openid'', ''profile''] else configured) in
      if emailDomains = [] \<or> List.member scopes ''email'' then scopes else scopes @ [''email''])"

text \<open>Whether the address is verified, and whether the provider said so at all.\<close>

definition emailVerified :: "(nat \<Rightarrow> nat) \<Rightarrow> oidc_claims \<Rightarrow> bool \<times> bool" where
  "emailVerified ufold claims =
     (case map_of claims ''email_verified'' of
        Some (Flag b) \<Rightarrow> (b, True)
      | Some (Text t) \<Rightarrow> (equal_fold ufold t ''true'', True)
      | _ \<Rightarrow> (False, False))"

definition verifyEmailDomain :: "(nat \<Rightarrow> nat) \<Rightarrow> string list \<Rightarrow> string \<Rightarrow> string option" where
  "verifyEmailDomain ufold allowed email =
     (if allowed = [] then None
      else (case split_byte CHR ''@'' email of
          [who, domain] \<Rightarrow>
            if list_ex (\<lambda>d. equal_fold ufold d domain) allowed then None else Some ''Email domain not authorized''
        | _ \<Rightarrow> Some ''Missing or invalid email address''))"

section \<open>Rules\<close>

text \<open>A rule is evaluated by the library; the claims of the person are added in the order in which the map is gone
  through, those of the policies in the order of their names.\<close>

type_synonym rule_eval = "string \<Rightarrow> oidc_claims \<Rightarrow> claim_value res"

fun evaluateClaimMapping :: "rule_eval \<Rightarrow> (string \<times> string) list \<Rightarrow> oidc_claims \<Rightarrow> claims \<Rightarrow> claims res" where
  "evaluateClaimMapping ev [] oidcClaims claims = Inr claims"
| "evaluateClaimMapping ev ((cname, rule) # rules) oidcClaims claims =
     (case ev rule oidcClaims of
        Inl e \<Rightarrow> Inl e
      | Inr result \<Rightarrow>
          evaluateClaimMapping ev rules oidcClaims
            (case result of
               Flag b \<Rightarrow> if b then claims_Add cname ''true'' claims else claims
             | Text t \<Rightarrow> if t \<noteq> [] then claims_Add cname t claims else claims
             | Other t \<Rightarrow> claims))"

fun policy_claims :: "rule_eval \<Rightarrow> (string, string) amap \<Rightarrow> oidc_claims \<Rightarrow> string list \<Rightarrow> claims \<Rightarrow> claims res" where
  "policy_claims ev policyMapping oidcClaims [] claims = Inr claims"
| "policy_claims ev policyMapping oidcClaims (name # names) claims =
     (case ev (the (map_of policyMapping name)) oidcClaims of
        Inl e \<Rightarrow> Inl (wrap_err (''failed to evaluate the rule of policy '' @ quoted name) e)
      | Inr result \<Rightarrow>
          policy_claims ev policyMapping oidcClaims names (if result = Flag True then claims_Add PolicyClaim name claims else claims))"

definition evaluatePolicyMapping :: "rule_eval \<Rightarrow> claims \<Rightarrow> (string, string) amap \<Rightarrow> oidc_claims \<Rightarrow> claims res" where
  "evaluatePolicyMapping ev claims policyMapping oidcClaims =
     policy_claims ev policyMapping oidcClaims (sort (map fst policyMapping)) claims"

section \<open>The handlers\<close>

text \<open>What an exchanged code gives: the claims of the UserInfo endpoint, fetched and decoded; the raw ID token, if there is
  one; and what verifying it gives, its nonce and its claims as they decode.\<close>

record oidc_env =
  oeFold :: "nat \<Rightarrow> nat"
  oeEval :: rule_eval
  oeSessions :: session_env
  oeExchange :: "string \<Rightarrow> string option \<Rightarrow> string res"
  oeUserInfo :: "string \<Rightarrow> oidc_claims res res"
  oeIDToken :: "string \<Rightarrow> string option"
  oeVerify :: "string \<Rightarrow> (string \<times> oidc_claims res) res"

definition signInFailed :: response where
  "signInFailed = HttpError 502 ''The sign-in with the identity provider failed''"

definition oidc_login ::
  "oidc_env \<Rightarrow> (string \<Rightarrow> string \<Rightarrow> string option \<Rightarrow> string) \<Rightarrow> bool \<Rightarrow> string \<Rightarrow> string \<Rightarrow> string \<Rightarrow> exchange \<Rightarrow> instant \<Rightarrow> memory
     \<Rightarrow> response \<times> auth_session option \<times> memory" where
  "oidc_login V authCodeURL pkce state nonce verifier x now s =
     (let v = (if pkce then Some verifier else None);
          session = empty_session\<lparr>asState := Some state, asNonce := Some nonce, asVerifier := v\<rparr> in
      case runtime_SetSession (oeSessions V) x session now s of
        (Inl e, c, s) \<Rightarrow> (HttpError 401 ''No session'', c, s)
      | (Inr _, c, s) \<Rightarrow> (Redirect 307 (authCodeURL state nonce v), c, s))"

text \<open>The claims a sign-in rests on, or the answer that ends it.\<close>

definition oidc_claims_of :: "oidc_env \<Rightarrow> oidc_config \<Rightarrow> auth_session \<Rightarrow> string \<Rightarrow> response + oidc_claims" where
  "oidc_claims_of V c session token =
     (if \<not> oiClaimsFromIDToken c then
        (case oeUserInfo V token of
           Inr (Inr claims) \<Rightarrow> Inr claims
         | _ \<Rightarrow> Inl signInFailed)
      else
        (case oeIDToken V token of
           None \<Rightarrow> Inl signInFailed
         | Some raw \<Rightarrow>
             (case oeVerify V raw of
                Inl e \<Rightarrow> Inl signInFailed
              | Inr (nonce, decoded) \<Rightarrow>
                  (case asNonce session of
                     None \<Rightarrow> Inl (HttpError 400 ''No nonce associated with session'')
                   | Some n \<Rightarrow>
                       if nonce \<noteq> n then Inl (HttpError 400 ''Bad nonce value in ID token'')
                       else (case decoded of Inl e \<Rightarrow> Inl signInFailed | Inr claims \<Rightarrow> Inr claims)))))"

definition email_of :: "oidc_claims \<Rightarrow> string" where
  "email_of oidcClaims = (case text_claim oidcClaims ''email'' of None \<Rightarrow> [] | Some t \<Rightarrow> t)"

text \<open>The text of an error of a rule, which is shown to the browser, is an argument of no interest here.\<close>

definition oidc_identity :: "oidc_env \<Rightarrow> (go_error \<Rightarrow> string) \<Rightarrow> oidc_config \<Rightarrow> oidc_claims \<Rightarrow> response + identity" where
  "oidc_identity V message c oidcClaims =
     (if oiEmailDomains c \<noteq> [] \<and> emailVerified (oeFold V) oidcClaims = (False, True)
      then Inl (HttpError 403 ''Email address is not verified'')
      else (case verifyEmailDomain (oeFold V) (oiEmailDomains c) (email_of oidcClaims) of
          Some msg \<Rightarrow> Inl (HttpError 403 msg)
        | None \<Rightarrow>
            (case evaluateClaimMapping (oeEval V) (oiClaimMapping c) oidcClaims [] of
               Inl e \<Rightarrow> Inl (HttpError 400 (message e))
             | Inr claims \<Rightarrow>
                 (case evaluatePolicyMapping (oeEval V) claims (oiPolicyMapping c) oidcClaims of
                    Inl e \<Rightarrow> Inl (HttpError 400 (message e))
                  | Inr claims \<Rightarrow>
                      (case text_claim oidcClaims ''sub'' of
                         None \<Rightarrow> Inl signInFailed
                       | Some subject \<Rightarrow>
                           Inr \<lparr>idProvider = oiName c, idSubject = subject, idName = displayName oidcClaims,
                                idEmail = email_of oidcClaims, idClaims = claims\<rparr>)))))"

definition oidc_callback ::
  "oidc_env \<Rightarrow> (go_error \<Rightarrow> string) \<Rightarrow> oidc_config \<Rightarrow> exchange \<Rightarrow> instant \<Rightarrow> memory \<Rightarrow> response \<times> auth_session option \<times> memory" where
  "oidc_callback V message c x now s =
     (let r = exRequest x in
      case GetSession (oeSessions V) r now s of
        (Inl e, s) \<Rightarrow> (HttpError 400 ''No session'', None, s)
      | (Inr session, s) \<Rightarrow>
          (case asState session of
             None \<Rightarrow> (HttpError 400 ''No state associated with session'', None, s)
           | Some state \<Rightarrow>
               if state \<noteq> form_get r ''state'' then (HttpError 400 ''Bad state value'', None, s)
               else
                 (case oeExchange V (form_get r ''code'') (asVerifier session) of
                    Inl e \<Rightarrow> (signInFailed, None, s)
                  | Inr token \<Rightarrow>
                      (case oidc_claims_of V c session token of
                         Inl answer \<Rightarrow> (answer, None, s)
                       | Inr oidcClaims \<Rightarrow>
                           (case oidc_identity V message c oidcClaims of
                              Inl answer \<Rightarrow> (answer, None, s)
                            | Inr identity \<Rightarrow>
                                (case runtime_SetSession (oeSessions V) x (empty_session\<lparr>asIdentity := Some identity\<rparr>) now s of
                                   (Inl e, k, s) \<Rightarrow> (sessionNotStarted e, k, s)
                                 | (Inr _, k, s) \<Rightarrow> (Redirect 303 ''/'', k, s)))))))"

text \<open>GitLab is the same with its address as the issuer and nothing mapped.\<close>

definition gitlab_oidc :: "gitlab_config \<Rightarrow> oidc_config" where
  "gitlab_oidc c =
     \<lparr>oiName = glName c, oiIssuer = glBaseURL c, oiClientID = glClientID c, oiClientSecret = glClientSecret c,
      oiScopes = [], oiRedirectURL = glRedirectURL c, oiEmailDomains = glEmailDomains c, oiClaimMapping = [],
      oiPolicyMapping = [], oiClaimsFromIDToken = False, oiAccessClaim = []\<rparr>"

section \<open>Policies and claims of an identity\<close>

lemma policy_claims_values:
  assumes "policy_claims ev m oc names claims = Inr out"
  shows "claims_Values out PolicyClaim = claims_Values claims PolicyClaim @ filter (\<lambda>n. ev (the (map_of m n)) oc = Inr (Flag True)) names"
    "IsAdmin out \<longleftrightarrow> IsAdmin claims"
  using assms by (induction ev m oc names claims rule: policy_claims.induct)
    (auto simp: claims_Values_def claims_Add_def IsAdmin_def claims_Has_def AdminClaim_def PolicyClaim_def split: sum.splits if_splits)

lemma evaluateClaimMapping_values:
  assumes "evaluateClaimMapping ev rules oc claims = Inr out" "name \<notin> fst ` set rules"
  shows "claims_Values out name = claims_Values claims name"
  using assms by (induction ev rules oc claims rule: evaluateClaimMapping.induct)
    (auto simp: claims_Values_def claims_Add_def split: sum.splits claim_value.splits if_splits)


section \<open>What a sign-in takes\<close>

lemma GetSession_cookie:
  assumes "GetSession E r now s = (Inr x, s')"
  obtains cookie where "rqCookie r = Some cookie" "asState x = asState cookie" "asNonce x = asNonce cookie" "asVerifier x = asVerifier cookie"
  using assms by (auto simp: GetSession_def Let_def cookie_of_def split: option.splits if_splits prod.splits sum.splits)

lemma split_two: "split_byte c s = [a, b] \<Longrightarrow> s = a @ [c] @ b \<and> c \<notin> set a \<and> c \<notin> set b"
  using split_byte_join [of c s] split_byte_pieces [of _ c s] by auto

definition address_in :: "(nat \<Rightarrow> nat) \<Rightarrow> string list \<Rightarrow> string \<Rightarrow> bool" where
  "address_in ufold domains email \<longleftrightarrow>
     (\<exists>who domain d. email = who @ ''@'' @ domain \<and> CHR ''@'' \<notin> set who \<and> CHR ''@'' \<notin> set domain \<and> d \<in> set domains \<and> equal_fold ufold d domain)"

lemma verifyEmailDomain_None: "verifyEmailDomain ufold domains email = None \<Longrightarrow> domains \<noteq> [] \<Longrightarrow> address_in ufold domains email"
  unfolding verifyEmailDomain_def address_in_def
  by (auto simp: list_ex_iff dest!: split_two split: list.splits if_splits) blast

definition claims_source :: "oidc_env \<Rightarrow> oidc_config \<Rightarrow> auth_session \<Rightarrow> string \<Rightarrow> oidc_claims \<Rightarrow> bool" where
  "claims_source V c cookie token oidcClaims \<longleftrightarrow>
     (if oiClaimsFromIDToken c
      then \<exists>raw n. oeIDToken V token = Some raw \<and> asNonce cookie = Some n \<and> oeVerify V raw = Inr (n, Inr oidcClaims)
      else oeUserInfo V token = Inr (Inr oidcClaims))"

lemma oidc_claims_of_source:
  assumes "oidc_claims_of V c session token = Inr oidcClaims" "asNonce session = asNonce cookie"
  shows "claims_source V c cookie token oidcClaims"
  using assms by (auto simp: oidc_claims_of_def claims_source_def split: if_splits sum.splits option.splits prod.splits)

lemma oidc_identityD:
  assumes "oidc_identity V message c oidcClaims = Inr i"
  obtains claims where "oiEmailDomains c \<noteq> [] \<Longrightarrow> address_in (oeFold V) (oiEmailDomains c) (email_of oidcClaims)"
    "oiEmailDomains c \<noteq> [] \<Longrightarrow> emailVerified (oeFold V) oidcClaims \<noteq> (False, True)"
    "evaluateClaimMapping (oeEval V) (oiClaimMapping c) oidcClaims [] = Inr claims"
    "evaluatePolicyMapping (oeEval V) claims (oiPolicyMapping c) oidcClaims = Inr (idClaims i)"
    "text_claim oidcClaims ''sub'' = Some (idSubject i)"
  using assms verifyEmailDomain_None by (auto simp: oidc_identity_def split: if_splits option.splits sum.splits)

text \<open>The stages of a request that is given a session.\<close>

lemma oidc_callbackD:
  assumes "store_ok s" "oidc_callback V message c x now s = (r, Some k, s')"
  obtains cookie token oidcClaims i y t where
    "rqCookie (exRequest x) = Some cookie" "asState cookie = Some (form_get (exRequest x) ''state'')"
    "oeExchange V (form_get (exRequest x) ''code'') (asVerifier cookie) = Inr token" "claims_source V c cookie token oidcClaims"
    "oidc_identity V message c oidcClaims = Inr i" "session_of (asID k) s' = Some y" "sesOwner y = idSubject i" "s' = recordLogin i now t"
proof -
  obtain session s1 where g: "GetSession (oeSessions V) (exRequest x) now s = (Inr session, s1)"
    and state: "asState session = Some (form_get (exRequest x) ''state'')"
    using assms(2) by (auto simp: oidc_callback_def Let_def split: prod.splits sum.splits option.splits if_splits)
  obtain token oidcClaims i where st: "oeExchange V (form_get (exRequest x) ''code'') (asVerifier session) = Inr token"
    "oidc_claims_of V c session token = Inr oidcClaims" "oidc_identity V message c oidcClaims = Inr i"
    and set: "runtime_SetSession (oeSessions V) x (empty_session\<lparr>asIdentity := Some i\<rparr>) now s1 = (Inr (), Some k, s')"
    using assms(2) by (auto simp: oidc_callback_def Let_def g state dest: runtime_SetSession_none split: prod.splits sum.splits if_splits)
  have "store_ok s1" using GetSession_store_ok [OF assms(1), of "oeSessions V" "exRequest x" now] g by simp
  then obtain y where y: "session_of (asID k) s' = Some y" "sesOwner y = idSubject i"
    using runtime_SetSession_identity set by blast
  obtain t where t: "s' = recordLogin i now t"
    using set by (auto simp: runtime_SetSession_def split: prod.splits sum.splits option.splits)
  obtain cookie where ck: "rqCookie (exRequest x) = Some cookie" "asState session = asState cookie" "asNonce session = asNonce cookie"
    "asVerifier session = asVerifier cookie" using GetSession_cookie [OF g] by metis
  have src: "claims_source V c cookie token oidcClaims" by (rule oidc_claims_of_source [OF st(2) ck(3)])
  show thesis by (rule that [OF ck(1) _ _ src st(3) y t]) (use ck state st(1) in simp_all)
qed


section \<open>Policies\<close>

lemma word_char_graphic: "word_char c \<Longrightarrow> graphic c \<and> c \<noteq> CHR '',''"
  by (auto simp: word_char_def graphic_def byte_def is_dec_def)

lemma valid_policy_clean: "ValidPolicyName n \<Longrightarrow> clean_entry n"
  using word_char_graphic by (auto simp: ValidPolicyName_def clean_entry_def list_all_iff)

lemma policiesOf_set: "set (policiesOf i) = set (claims_Values (idClaims i) PolicyClaim) - {[]}"
proof -
  have "set (foldl (\<lambda>ps policy. if policy = [] \<or> policy \<in> set ps then ps else ps @ [policy]) acc xs) = set acc \<union> (set xs - {[]})" for acc xs :: "string list"
    by (induction xs arbitrary: acc) auto
  then show ?thesis by (simp add: policiesOf_def)
qed

lemma recordLogin_policies: "\<exists>u. map_of (users (recordLogin i now s)) (idSubject i) = Some u \<and> usrPolicies u = go_join '', '' (policiesOf i)"
  by (auto simp: recordLogin_def SaveUser_def login_user_def Let_def update_conv' split: option.splits)

text \<open>
  C32. As long as the operator maps no claim of the name \<^verbatim>\<open>policy\<close> (no entry of \<^verbatim>\<open>claimMapping\<close> is called that; one
  that is adds whatever string its rule returns as a policy) and the policies of the rules have valid names, as the
  check of the configuration demands, the policies somebody is in after a sign-in are the
  configured ones whose rule says yes about the claims of this sign-in, and no others: a claim of the provider
  cannot name a policy.
\<close>

theorem oidc_policies:
  assumes "store_ok s" "oidc_callback V message c x now s = (r, Some k, s')"
    and "amap_ok (oiPolicyMapping c)" "PolicyClaim \<notin> fst ` set (oiClaimMapping c)" "\<forall>n \<in> fst ` set (oiPolicyMapping c). ValidPolicyName n"
  shows "\<exists>cookie token oidcClaims subject u.
    rqCookie (exRequest x) = Some cookie \<and> oeExchange V (form_get (exRequest x) ''code'') (asVerifier cookie) = Inr token \<and>
    claims_source V c cookie token oidcClaims \<and> text_claim oidcClaims ''sub'' = Some subject \<and> map_of (users s') subject = Some u \<and>
    set (PolicyList u) = {n. \<exists>rule. (n, rule) \<in> set (oiPolicyMapping c) \<and> oeEval V rule oidcClaims = Inr (Flag True)}"
proof -
  obtain cookie token oidcClaims i y t where d: "claims_source V c cookie token oidcClaims"
    "oidc_identity V message c oidcClaims = Inr i" "s' = recordLogin i now t"
    and ck: "rqCookie (exRequest x) = Some cookie" "oeExchange V (form_get (exRequest x) ''code'') (asVerifier cookie) = Inr token"
    using oidc_callbackD [OF assms(1,2)] by metis
  obtain claims where cl: "evaluateClaimMapping (oeEval V) (oiClaimMapping c) oidcClaims [] = Inr claims"
    "evaluatePolicyMapping (oeEval V) claims (oiPolicyMapping c) oidcClaims = Inr (idClaims i)"
    "text_claim oidcClaims ''sub'' = Some (idSubject i)" using oidc_identityD [OF d(2)] by metis
  have "claims_Values claims PolicyClaim = []" using evaluateClaimMapping_values [OF cl(1) assms(4)] by (simp add: claims_Values_def)
  then have pol: "n \<in> set (policiesOf i) \<longleftrightarrow>
      n \<noteq> [] \<and> n \<in> fst ` set (oiPolicyMapping c) \<and> oeEval V (the (map_of (oiPolicyMapping c) n)) oidcClaims = Inr (Flag True)" for n
    using policy_claims_values(1) [OF cl(2) [unfolded evaluatePolicyMapping_def]] by (auto simp: policiesOf_set)
  have key: "n \<noteq> [] \<and> map_of (oiPolicyMapping c) n = Some rule" if "(n, rule) \<in> set (oiPolicyMapping c)" for n rule
    using assms(3) bspec [OF assms(5), of n] that by (force simp: amap_ok_def ValidPolicyName_def)
  have ps: "n \<in> set (policiesOf i) \<longleftrightarrow> (\<exists>rule. (n, rule) \<in> set (oiPolicyMapping c) \<and> oeEval V rule oidcClaims = Inr (Flag True))" for n
  proof
    assume "n \<in> set (policiesOf i)"
    then obtain rule where "(n, rule) \<in> set (oiPolicyMapping c)" "oeEval V (the (map_of (oiPolicyMapping c) n)) oidcClaims = Inr (Flag True)"
      unfolding pol by auto
    then show "\<exists>rule. (n, rule) \<in> set (oiPolicyMapping c) \<and> oeEval V rule oidcClaims = Inr (Flag True)"
      using key [of n rule] by auto
  next
    assume "\<exists>rule. (n, rule) \<in> set (oiPolicyMapping c) \<and> oeEval V rule oidcClaims = Inr (Flag True)"
    then obtain rule where r: "(n, rule) \<in> set (oiPolicyMapping c)" "oeEval V rule oidcClaims = Inr (Flag True)" by blast
    then show "n \<in> set (policiesOf i)" unfolding pol using key [OF r(1)] by force
  qed
  obtain u where u: "map_of (users s') (idSubject i) = Some u" "usrPolicies u = go_join '', '' (policiesOf i)"
    using recordLogin_policies [of i now t] d(3) by auto
  have "clean_entry n" if "n \<in> set (policiesOf i)" for n
    using that bspec [OF assms(5), of n] pol valid_policy_clean by blast
  then have "PolicyList u = policiesOf i" by (simp add: PolicyList_def u(2) splitList_join)
  then have list: "set (PolicyList u) = {n. \<exists>rule. (n, rule) \<in> set (oiPolicyMapping c) \<and> oeEval V rule oidcClaims = Inr (Flag True)}"
    using ps by (intro set_eqI) simp
  show ?thesis
    by (intro exI [of _ cookie] exI [of _ token] exI [of _ oidcClaims] exI [of _ "idSubject i"] exI [of _ u] conjI ck d(1) cl(3) u(1) list)
qed

end
