(* ===== verification/Provider_Site.thy ===== *)
theory Provider_Site
  imports Provider_Oidc
begin

text \<open>
  Browsers that come back from GitHub and from an identity provider, with accounts that may sign in.
\<close>

definition back_exchange :: exchange where
  "back_exchange = demo_exchange\<lparr>exRequest := (exRequest demo_exchange)\<lparr>rqForm := [(''state'', ''s1''), (''code'', ''c1'')],
     rqCookie := Some (empty_session\<lparr>asState := Some ''s1'', asNonce := Some ''n1''\<rparr>)\<rparr>\<rparr>"

definition site_sessions :: session_env where
  "site_sessions = \<lparr>seCodec = subject_codec, seMaxAge = hour\<rparr>"

lemma back_cookie:
  "GetSession site_sessions (exRequest back_exchange) 0 NewMemoryStorage =
     (Inr (empty_session\<lparr>asState := Some ''s1'', asNonce := Some ''n1''\<rparr>), NewMemoryStorage)"
  by (simp add: GetSession_def back_exchange_def cookie_of_def empty_session_def)

lemma back_form: "form_get (exRequest back_exchange) ''state'' = ''s1''" "form_get (exRequest back_exchange) ''code'' = ''c1''"
  "form_get (exRequest back_exchange) ''error'' = []"
  by code_simp+

lemma back_SetSession:
  "\<exists>k s'. runtime_SetSession site_sessions back_exchange (empty_session\<lparr>asIdentity := Some i\<rparr>) 0 NewMemoryStorage = (Inr (), Some k, s')"
  by (simp add: runtime_SetSession_def SetSession_def empty_session_def back_exchange_def demo_exchange_def site_sessions_def checkLogin_def
      GetUser_def List_devices_def NewMemoryStorage_def end_previous_def GetSession_def cookie_of_def
      session_Create_def subject_codec_def newID_def SaveSession_def)

section \<open>GitHub\<close>






section \<open>An identity provider\<close>

definition corp_claims :: oidc_claims where
  "corp_claims = [(''sub'', Text ''u-17''), (''email'', Text ''ann@corp.example''), (''email_verified'', Flag True), (''name'', Text ''Ann'')]"

text \<open>A rule is the name of a claim, and says yes when the claim is there.\<close>

definition corp_env :: oidc_env where
  "corp_env = \<lparr>oeFold = id, oeEval = (\<lambda>rule claims. Inr (Flag (map_of claims rule \<noteq> None))), oeSessions = site_sessions,
     oeExchange = (\<lambda>code verifier. Inr ''token''), oeUserInfo = (\<lambda>token. Inl (Err ''not asked'')), oeIDToken = (\<lambda>token. Some ''raw''),
     oeVerify = (\<lambda>raw. Inr (''n1'', Inr corp_claims))\<rparr>"

definition corp_config :: oidc_config where
  "corp_config = \<lparr>oiName = ''corp'', oiIssuer = ''https://id.corp.example'', oiClientID = ''id'', oiClientSecret = ''secret'', oiScopes = [],
     oiRedirectURL = ''https://vpn/callback'', oiEmailDomains = [''corp.example''], oiClaimMapping = [],
     oiPolicyMapping = [(''staff'', ''email''), (''ops'', ''on_call'')], oiClaimsFromIDToken = True, oiAccessClaim = []\<rparr>"

definition ann :: identity where
  "ann = \<lparr>idProvider = ''corp'', idSubject = ''u-17'', idName = ''Ann'', idEmail = ''ann@corp.example'', idClaims = claims_Add PolicyClaim ''staff'' []\<rparr>"

lemma ann_identity:
  "oidc_claims_of corp_env corp_config (empty_session\<lparr>asState := Some ''s1'', asNonce := Some ''n1''\<rparr>) ''token'' = Inr corp_claims"
  "oidc_identity corp_env (\<lambda>e. []) corp_config corp_claims = Inr ann"
  by code_simp+

lemma corp_callback: "\<exists>k s'. oidc_callback corp_env (\<lambda>e. []) corp_config back_exchange 0 NewMemoryStorage = (Redirect 303 ''/'', Some k, s')"
proof -
  obtain k s' where "runtime_SetSession site_sessions back_exchange (empty_session\<lparr>asIdentity := Some ann\<rparr>) 0 NewMemoryStorage = (Inr (), Some k, s')"
    using back_SetSession by blast
  moreover have "oeSessions corp_env = site_sessions" "oeExchange corp_env code v = Inr ''token''" for code v by (simp_all add: corp_env_def)
  ultimately show ?thesis by (simp add: oidc_callback_def back_cookie back_form ann_identity)
qed


theorem oidc_policies_witness:
  "\<exists>k s' u. oidc_callback corp_env (\<lambda>e. []) corp_config back_exchange 0 NewMemoryStorage = (Redirect 303 ''/'', Some k, s') \<and>
     map_of (users s') ''u-17'' = Some u \<and> set (PolicyList u) = {''staff''}"
proof -
  obtain k s' where cb: "oidc_callback corp_env (\<lambda>e. []) corp_config back_exchange 0 NewMemoryStorage = (Redirect 303 ''/'', Some k, s')"
    using corp_callback by blast
  have cfg: "oiClaimMapping corp_config = []" "oiPolicyMapping corp_config = [(''staff'', ''email''), (''ops'', ''on_call'')]"
    "oiClaimsFromIDToken corp_config" by (simp_all add: corp_config_def)
  have env: "oeVerify corp_env raw = Inr (''n1'', Inr corp_claims)" "oeEval corp_env rule claims = Inr (Flag (map_of claims rule \<noteq> None))"
    for raw rule claims by (simp_all add: corp_env_def)
  have valid: "ValidPolicyName ''staff''" "ValidPolicyName ''ops''" by code_simp+
  have pre: "amap_ok (oiPolicyMapping corp_config)" "PolicyClaim \<notin> fst ` set (oiClaimMapping corp_config)"
    "\<forall>n \<in> fst ` set (oiPolicyMapping corp_config). ValidPolicyName n"
    using valid by (auto simp: cfg amap_ok_def)
  have sub: "text_claim corp_claims ''sub'' = Some ''u-17''" "map_of corp_claims ''email'' \<noteq> None" "map_of corp_claims ''on_call'' = None"
    by code_simp+
  obtain cookie token oidcClaims subject u where o: "claims_source corp_env corp_config cookie token oidcClaims"
    "text_claim oidcClaims ''sub'' = Some subject" "map_of (users s') subject = Some u"
    "set (PolicyList u) = {n. \<exists>rule. (n, rule) \<in> set (oiPolicyMapping corp_config) \<and> oeEval corp_env rule oidcClaims = Inr (Flag True)}"
    using oidc_policies [OF store_ok_new cb pre] by (elim exE conjE) (rule that, assumption, assumption, assumption, assumption)
  have e: "oidcClaims = corp_claims" using o(1) by (auto simp: claims_source_def cfg(3) env(1))
  have "subject = ''u-17''" using o(2) sub(1) by (simp add: e)
  moreover have "set (PolicyList u) = {''staff''}" unfolding o(4) cfg env e using sub(2,3) by auto
  ultimately show ?thesis using cb o(3) by blast
qed

end
