(* ===== verification/Client_Addr.thy ===== *)
theory Client_Addr
  imports Http Netip_Lemmas
begin

text \<open>
  The address a request is reported under (\<^verbatim>\<open>internal/web/clientaddr.go\<close>): that of the connection, or what a proxy that is
  trusted says it is.  A missing set of proxies is the empty one.
\<close>

section \<open>Proxies\<close>

fun ParseTrustedProxies :: "string list \<Rightarrow> prefix list res" where
  "ParseTrustedProxies [] = Inr []"
| "ParseTrustedProxies (entry # es) =
     (let entry = trim_space entry in
      if entry = [] then ParseTrustedProxies es
      else (case (case parse_prefix entry of
             Some p \<Rightarrow> Inr (masked p)
           | None \<Rightarrow>
               (case parse_addr entry of
                  None \<Rightarrow> Inl (Err (quoted entry @ '' is neither a network nor an address''))
                | Some a \<Rightarrow> Inr (prefix_from a (bit_len a)))) of
          Inl e \<Rightarrow> Inl e
        | Inr net \<Rightarrow> (case ParseTrustedProxies es of Inl e \<Rightarrow> Inl e | Inr nets \<Rightarrow> Inr (net # nets))))"

definition proxies_Any :: "prefix list \<Rightarrow> bool" where
  "proxies_Any nets = (nets \<noteq> [])"

definition proxies_contains :: "prefix list \<Rightarrow> addr \<Rightarrow> bool" where
  "proxies_contains nets a = (proxies_Any nets \<and> list_ex (\<lambda>net. prefix_contains net (unmap a)) nets)"

section \<open>The client\<close>

definition addrOf :: "string \<Rightarrow> addr option" where
  "addrOf v =
     (let v = trim_space v in
      if v = [] then None
      else (case parse_addr v of
          Some a \<Rightarrow> Some (with_zone a [])
        | None \<Rightarrow>
            (case SplitHostPort v of
               None \<Rightarrow> None
             | Some (host, port) \<Rightarrow> map_option (\<lambda>a. with_zone a []) (parse_addr host))))"

definition forwardedFor :: "request \<Rightarrow> string list" where
  "forwardedFor r =
     filter (\<lambda>entry. entry \<noteq> [])
       (concat (map (\<lambda>header. map trim_space (split_byte CHR '','' header))
         (case map_of (rqHeader r) ''X-Forwarded-For'' of None \<Rightarrow> [] | Some vs \<Rightarrow> vs)))"

text \<open>The loop over the chain, from its end.\<close>

fun last_client :: "prefix list \<Rightarrow> string list \<Rightarrow> addr option" where
  "last_client nets [] = None"
| "last_client nets (entry # rest) =
     (case addrOf entry of
        None \<Rightarrow> last_client nets rest
      | Some a \<Rightarrow> if proxies_contains nets a then last_client nets rest else Some a)"

definition clientAddr :: "prefix list \<Rightarrow> request \<Rightarrow> string" where
  "clientAddr nets r =
     (if \<not> proxies_Any nets then []
      else (case addrOf (rqRemoteAddr r) of
          None \<Rightarrow> []
        | Some peer \<Rightarrow>
            if \<not> proxies_contains nets peer then []
            else (case last_client nets (rev (forwardedFor r)) of
                Some a \<Rightarrow> addr_string (unmap a)
              | None \<Rightarrow>
                  (case addrOf (header_get r ''X-Real-Ip'') of
                     None \<Rightarrow> []
                   | Some a \<Rightarrow> if proxies_contains nets a then [] else addr_string (unmap a)))))"

definition ClientAddrMiddleware :: "prefix list \<Rightarrow> request \<Rightarrow> request" where
  "ClientAddrMiddleware nets r = (if clientAddr nets r \<noteq> [] then r\<lparr>rqRemoteAddr := clientAddr nets r\<rparr> else r)"

section \<open>Headers of a proxy\<close>

text \<open>An entry nobody but a proxy has written behind: unreadable, or the address of a proxy.\<close>

definition of_proxy :: "prefix list \<Rightarrow> string \<Rightarrow> bool" where
  "of_proxy nets entry \<longleftrightarrow> (case addrOf entry of None \<Rightarrow> True | Some a \<Rightarrow> proxies_contains nets a)"

lemma last_client_skip: "list_all (of_proxy nets) xs \<Longrightarrow> last_client nets (xs @ ys) = last_client nets ys"
  by (induction xs) (auto simp: of_proxy_def split: option.splits)

lemma last_client_None: "last_client nets xs = None \<longleftrightarrow> list_all (of_proxy nets) xs"
  by (induction xs) (auto simp: of_proxy_def split: option.splits)

lemma addr_string_ne: "addr_string (unmap a) \<noteq> []"
proof (cases a)
  case (V6 w z)
  have "string6 w \<noteq> []" if "\<not> drop_bit 32 w = 0xFFFF"
    using parse_addr_string [of "V6 w []"] that by (auto simp: parse_addr_def zone_suffix_def)
  moreover have "string4 v \<noteq> []" for v using parse_addr_string4 [of v] by (auto simp: parse_addr_def)
  ultimately show ?thesis using V6 by auto
next
  case (V4 w)
  then show ?thesis using parse_addr_string4 [of w] by (auto simp: parse_addr_def)
qed simp

text \<open>
  C33. A header is believed only from a proxy that is trusted, and only as far as proxies wrote it.  A request that does not
  come from a trusted proxy keeps its address, whatever it says; one that does is reported under the last
  address of the chain that is not that of a proxy, whatever stands in front of it.
\<close>

theorem client_address_not_forged:
  "(case addrOf (rqRemoteAddr r) of
      None \<Rightarrow> ClientAddrMiddleware nets r = r
    | Some peer \<Rightarrow>
        if \<not> proxies_contains nets peer then ClientAddrMiddleware nets r = r
        else \<forall>forged entry behind a.
          forwardedFor r = forged @ entry # behind \<and> addrOf entry = Some a \<and> \<not> proxies_contains nets a \<and> list_all (of_proxy nets) behind \<longrightarrow>
          ClientAddrMiddleware nets r = r\<lparr>rqRemoteAddr := addr_string (unmap a)\<rparr>)"
proof -
  have "ClientAddrMiddleware nets r = r\<lparr>rqRemoteAddr := addr_string (unmap a)\<rparr>"
    if "addrOf (rqRemoteAddr r) = Some peer" "proxies_contains nets peer" "forwardedFor r = forged @ entry # behind" "addrOf entry = Some a"
      "\<not> proxies_contains nets a" "list_all (of_proxy nets) behind" for peer forged entry behind a
  proof -
    have "list_all (of_proxy nets) (rev behind)" using that(6) by simp
    then have "last_client nets (rev (forwardedFor r)) = Some a"
      using that(3-5) last_client_skip [of nets "rev behind" "entry # rev forged"] by simp
    moreover have "proxies_Any nets" using that(2) by (simp add: proxies_contains_def)
    ultimately have "clientAddr nets r = addr_string (unmap a)" using that(1,2) by (simp add: clientAddr_def)
    then show ?thesis by (simp add: ClientAddrMiddleware_def addr_string_ne)
  qed
  then show ?thesis by (auto simp: ClientAddrMiddleware_def clientAddr_def split: option.splits)
qed

text \<open>
  An IPv4 proxy written in IPv6 form is never recognized: the address of a connection is reduced to IPv4, the network is not.
\<close>

theorem mapped_proxy_ignored:
  assumes "is4in6 p"
  shows "\<not> proxies_contains [prefix_from p (bit_len p)] a"
proof
  assume "proxies_contains [prefix_from p (bit_len p)] a"
  then have c: "prefix_contains (prefix_from p (bit_len p)) (unmap a)" by (simp add: proxies_contains_def)
  obtain w z where p: "p = V6 w z" "drop_bit 32 w = 0xFFFF" using assms by (cases p) auto
  have c': "prefix_contains (Prefix (V6 w []) 128) (unmap a)" using c by (simp add: prefix_from_def p(1) del: prefix_contains.simps)
  obtain v where v: "unmap a = V6 v []" using contains_same_family(2) [OF c'] by blast
  then have "drop_bit 32 v \<noteq> 0xFFFF" by (cases a) (auto split: if_splits)
  moreover have "v = w" using c' by (simp add: v contains_V6 word_unat_eq_iff del: prefix_contains.simps)
  ultimately show False using p(2) by simp
qed

definition proxy_request :: request where
  "proxy_request = \<lparr>rqMethod = ''GET'', rqPath = ''/'', rqHost = ''vpn'', rqRemoteAddr = ''[::ffff:10.0.0.1]:443'', rqTLS = False,
     rqHeader = [(''X-Forwarded-For'', [''1.1.1.1, 192.0.2.7'', ''10.0.0.9''])], rqForm = [], rqCookie = None\<rparr>"

theorem client_address_not_forged_witness:
  "\<exists>nets. ParseTrustedProxies [''10.0.0.0/8''] = Inr nets \<and> rqRemoteAddr (ClientAddrMiddleware nets proxy_request) = ''192.0.2.7''"
proof -
  have nets: "ParseTrustedProxies [''10.0.0.0/8''] = Inr [Prefix (V4 0x0A000000) 8]" by code_simp
  have peer: "addrOf (rqRemoteAddr proxy_request) = Some (V6 0xFFFF0A000001 [])" "proxies_contains [Prefix (V4 0x0A000000) 8] (V6 0xFFFF0A000001 [])"
    by code_simp+
  have chain: "forwardedFor proxy_request = [''1.1.1.1''] @ ''192.0.2.7'' # [''10.0.0.9'']" "addrOf ''192.0.2.7'' = Some (V4 0xC0000207)"
    "\<not> proxies_contains [Prefix (V4 0x0A000000) 8] (V4 0xC0000207)" "list_all (of_proxy [Prefix (V4 0x0A000000) 8]) [''10.0.0.9'']"
    by code_simp+
  have shown: "addr_string (unmap (V4 0xC0000207)) = ''192.0.2.7''" by code_simp
  have seen: "\<not> \<not> proxies_contains [Prefix (V4 0x0A000000) 8] (V6 0xFFFF0A000001 [])" using peer(2) by blast
  note all = client_address_not_forged [where r = proxy_request and nets = "[Prefix (V4 0x0A000000) 8]", unfolded peer(1) option.case if_not_P [OF seen]]
  have "ClientAddrMiddleware [Prefix (V4 0x0A000000) 8] proxy_request = proxy_request\<lparr>rqRemoteAddr := addr_string (unmap (V4 0xC0000207))\<rparr>"
    by (rule all [rule_format, OF conjI [OF chain(1) conjI [OF chain(2) conjI [OF chain(3,4)]]]])
  then show ?thesis using nets shown by simp
qed

end
