(* ===== verification/Sql_Database.thy ===== *)
theory Sql_Database
  imports Storage_Laws
begin

text \<open>
  The database behind the SQL storage, as GORM presents it.  GORM and the database are parameters: a \<open>handle\<close> has what the
  storage does with one table, \<open>gorm\<close> the five tables and the transactions.  The statements are data (the columns
  they test and assign), and the schemas say which columns the structs of \<^verbatim>\<open>internal/storage\<close> have.  What is assumed of
  the parameters is \<open>db_laws\<close>: a table is a multiset of rows, a statement does what it says or fails and changes
  nothing, and a transaction is undone as a whole.  Text is compared byte by byte, instants are kept as they are, an
  update counts the rows it matches, as SQLite does, and no column holds a null that the code does not write.
\<close>

section \<open>Statements\<close>

text \<open>The content of a column.  A column that may be null holds an instant or none.\<close>

datatype cell = CText string | CBool bool | CTime "instant option" | CInt int64

text \<open>A condition is a conjunction of tests.  An assignment puts a value, or adds to a number.\<close>

datatype test = ColEq string cell | ColLe string cell

datatype assign = Put cell | Plus int64

datatype order = Unordered | Asc string | Desc string

text \<open>What an insert does about a row that is there: fail, nothing, or assign the named columns.\<close>

datatype conflict = Refuse | DoNothing | DoUpdates "string list"

section \<open>Schemas\<close>

type_synonym 'row column = "string \<times> ('row \<Rightarrow> cell) \<times> (cell \<Rightarrow> 'row \<Rightarrow> 'row)"

record 'row schema =
  scColumns :: "'row column list"
  scPrimary :: "string list"
  scUnique :: "string list"
  scStamped :: "'row \<Rightarrow> bool"

definition text_column :: "string \<Rightarrow> ('row \<Rightarrow> string) \<Rightarrow> ((string \<Rightarrow> string) \<Rightarrow> 'row \<Rightarrow> 'row) \<Rightarrow> 'row column" where
  "text_column c get upd = (c, (\<lambda>r. CText (get r)), (\<lambda>x r. case x of CText t \<Rightarrow> upd (\<lambda>_. t) r | _ \<Rightarrow> r))"

definition bool_column :: "string \<Rightarrow> ('row \<Rightarrow> bool) \<Rightarrow> ((bool \<Rightarrow> bool) \<Rightarrow> 'row \<Rightarrow> 'row) \<Rightarrow> 'row column" where
  "bool_column c get upd = (c, (\<lambda>r. CBool (get r)), (\<lambda>x r. case x of CBool t \<Rightarrow> upd (\<lambda>_. t) r | _ \<Rightarrow> r))"

definition int_column :: "string \<Rightarrow> ('row \<Rightarrow> int64) \<Rightarrow> ((int64 \<Rightarrow> int64) \<Rightarrow> 'row \<Rightarrow> 'row) \<Rightarrow> 'row column" where
  "int_column c get upd = (c, (\<lambda>r. CInt (get r)), (\<lambda>x r. case x of CInt t \<Rightarrow> upd (\<lambda>_. t) r | _ \<Rightarrow> r))"

definition null_column ::
  "string \<Rightarrow> ('row \<Rightarrow> instant option) \<Rightarrow> ((instant option \<Rightarrow> instant option) \<Rightarrow> 'row \<Rightarrow> 'row) \<Rightarrow> 'row column" where
  "null_column c get upd = (c, (\<lambda>r. CTime (get r)), (\<lambda>x r. case x of CTime t \<Rightarrow> upd (\<lambda>_. t) r | _ \<Rightarrow> r))"

definition time_column :: "string \<Rightarrow> ('row \<Rightarrow> instant) \<Rightarrow> ((instant \<Rightarrow> instant) \<Rightarrow> 'row \<Rightarrow> 'row) \<Rightarrow> 'row column" where
  "time_column c get upd =
     (c, (\<lambda>r. CTime (Some (get r))), (\<lambda>x r. case x of CTime (Some t) \<Rightarrow> upd (\<lambda>_. t) r | _ \<Rightarrow> r))"

lemmas column_defs = text_column_def bool_column_def int_column_def null_column_def time_column_def

text \<open>The tables.  GORM fills in a \<^verbatim>\<open>CreatedAt\<close> that is zero, so a row is kept as it is only when it is stamped.\<close>

definition device_schema :: "device schema" where
  "device_schema =
     \<lparr>scColumns =
        [text_column ''owner'' devOwner devOwner_update,
         text_column ''owner_name'' devOwnerName devOwnerName_update,
         text_column ''owner_email'' devOwnerEmail devOwnerEmail_update,
         text_column ''owner_provider'' devOwnerProvider devOwnerProvider_update,
         text_column ''name'' devName devName_update,
         text_column ''public_key'' devPublicKey devPublicKey_update,
         text_column ''preshared_key'' devPresharedKey devPresharedKey_update,
         text_column ''address'' devAddress devAddress_update,
         time_column ''created_at'' devCreatedAt devCreatedAt_update,
         bool_column ''disabled'' devDisabled devDisabled_update,
         null_column ''expires_at'' devExpiresAt devExpiresAt_update,
         text_column ''routes'' devRoutes devRoutes_update,
         null_column ''last_handshake_time'' devLastHandshakeTime devLastHandshakeTime_update,
         int_column ''receive_bytes'' devReceiveBytes devReceiveBytes_update,
         int_column ''transmit_bytes'' devTransmitBytes devTransmitBytes_update,
         text_column ''endpoint'' devEndpoint devEndpoint_update],
      scPrimary = [''owner'', ''name''], scUnique = [''public_key''],
      scStamped = (\<lambda>d. devCreatedAt d \<noteq> zero_time)\<rparr>"

definition user_schema :: "user schema" where
  "user_schema =
     \<lparr>scColumns =
        [text_column ''subject'' usrSubject usrSubject_update,
         text_column ''provider'' usrProvider usrProvider_update,
         text_column ''name'' usrName usrName_update,
         text_column ''email'' usrEmail usrEmail_update,
         text_column ''policies'' usrPolicies usrPolicies_update,
         time_column ''last_login'' usrLastLogin usrLastLogin_update,
         text_column ''password_hash'' usrPasswordHash usrPasswordHash_update,
         text_column ''webauthn_challenge'' usrWebauthnChallenge usrWebauthnChallenge_update,
         null_column ''webauthn_challenge_until'' usrWebauthnChallengeUntil usrWebauthnChallengeUntil_update,
         text_column ''totp_secret'' usrTotpSecret usrTotpSecret_update,
         null_column ''totp_enabled_at'' usrTotpEnabledAt usrTotpEnabledAt_update,
         text_column ''totp_recovery'' usrTotpRecovery usrTotpRecovery_update,
         int_column ''totp_last_step'' usrTotpLastStep usrTotpLastStep_update,
         text_column ''password_from'' usrPasswordFrom usrPasswordFrom_update],
      scPrimary = [''subject''], scUnique = [], scStamped = (\<lambda>u. True)\<rparr>"

definition token_schema :: "api_token schema" where
  "token_schema =
     \<lparr>scColumns =
        [text_column ''id'' tokID tokID_update,
         text_column ''owner'' tokOwner tokOwner_update,
         text_column ''name'' tokName tokName_update,
         text_column ''hash'' tokHash tokHash_update,
         text_column ''identity'' tokIdentity tokIdentity_update,
         time_column ''created_at'' tokCreatedAt tokCreatedAt_update,
         null_column ''expires_at'' tokExpiresAt tokExpiresAt_update,
         null_column ''last_used_at'' tokLastUsedAt tokLastUsedAt_update],
      scPrimary = [''id''], scUnique = [''hash''], scStamped = (\<lambda>t. tokCreatedAt t \<noteq> zero_time)\<rparr>"

definition session_schema :: "session schema" where
  "session_schema =
     \<lparr>scColumns =
        [text_column ''id'' sesID sesID_update,
         text_column ''owner'' sesOwner sesOwner_update,
         text_column ''hash'' sesHash sesHash_update,
         text_column ''identity'' sesIdentity sesIdentity_update,
         text_column ''user_agent'' sesUserAgent sesUserAgent_update,
         text_column ''remote_addr'' sesRemoteAddr sesRemoteAddr_update,
         time_column ''created_at'' sesCreatedAt sesCreatedAt_update,
         time_column ''expires_at'' sesExpiresAt sesExpiresAt_update,
         time_column ''last_seen_at'' sesLastSeenAt sesLastSeenAt_update],
      scPrimary = [''id''], scUnique = [''hash''], scStamped = (\<lambda>x. sesCreatedAt x \<noteq> zero_time)\<rparr>"

definition passkey_schema :: "passkey schema" where
  "passkey_schema =
     \<lparr>scColumns =
        [text_column ''id'' pkID pkID_update,
         text_column ''owner'' pkOwner pkOwner_update,
         text_column ''name'' pkName pkName_update,
         text_column ''data'' pkData pkData_update,
         time_column ''created_at'' pkCreatedAt pkCreatedAt_update,
         null_column ''last_used_at'' pkLastUsedAt pkLastUsedAt_update],
      scPrimary = [''id''], scUnique = [], scStamped = (\<lambda>p. pkCreatedAt p \<noteq> zero_time)\<rparr>"

lemmas schema_defs = device_schema_def user_schema_def token_schema_def session_schema_def passkey_schema_def

section \<open>Handles\<close>

text \<open>What the storage asks of a table.  \<open>hFirst\<close> gives \<open>None\<close> for \<^verbatim>\<open>gorm.ErrRecordNotFound\<close>; a statement that writes gives
  the rows affected.  \<open>hReplace\<close> is \<^verbatim>\<open>Model(row).Select("*").Updates(row)\<close>, \<open>hDeleteRow\<close> is \<^verbatim>\<open>Delete(row)\<close>.\<close>

record ('row, 'db) handle =
  hFind :: "test list \<Rightarrow> order \<Rightarrow> 'db \<Rightarrow> 'row list res"
  hFirst :: "test list \<Rightarrow> 'db \<Rightarrow> 'row option res"
  hCount :: "test list \<Rightarrow> 'db \<Rightarrow> nat res"
  hCreate :: "conflict \<Rightarrow> 'row \<Rightarrow> 'db \<Rightarrow> nat res \<times> 'db"
  hUpdate :: "test list \<Rightarrow> (string \<times> assign) list \<Rightarrow> 'db \<Rightarrow> nat res \<times> 'db"
  hReplace :: "'row \<Rightarrow> 'db \<Rightarrow> nat res \<times> 'db"
  hDelete :: "test list \<Rightarrow> 'db \<Rightarrow> nat res \<times> 'db"
  hDeleteRow :: "'row \<Rightarrow> 'db \<Rightarrow> nat res \<times> 'db"

record 'db gorm =
  qDevices :: "(device, 'db) handle"
  qUsers :: "(user, 'db) handle"
  qTokens :: "(api_token, 'db) handle"
  qSessions :: "(session, 'db) handle"
  qPasskeys :: "(passkey, 'db) handle"
  qPluckAddress :: "'db \<Rightarrow> string list res"
  qBegin :: "'db \<Rightarrow> unit res \<times> 'db"
  qCommit :: "'db \<Rightarrow> unit res \<times> 'db"
  qRollback :: "'db \<Rightarrow> 'db"

section \<open>What statements mean\<close>

definition cell_of :: "'row schema \<Rightarrow> string \<Rightarrow> 'row \<Rightarrow> cell option" where
  "cell_of sc c r = map_option (\<lambda>(get, put). get r) (map_of (scColumns sc) c)"

fun test_ok :: "'row schema \<Rightarrow> 'row \<Rightarrow> test \<Rightarrow> bool" where
  "test_ok sc r (ColEq c x) = (cell_of sc c r = Some x)"
| "test_ok sc r (ColLe c x) =
     (case (cell_of sc c r, x) of (Some (CTime (Some t)), CTime (Some u)) \<Rightarrow> t \<le> u | _ \<Rightarrow> False)"

definition row_matches :: "'row schema \<Rightarrow> test list \<Rightarrow> 'row \<Rightarrow> bool" where
  "row_matches sc ts r = list_all (test_ok sc r) ts"

definition put_cell :: "'row schema \<Rightarrow> string \<Rightarrow> cell \<Rightarrow> 'row \<Rightarrow> 'row" where
  "put_cell sc c x r = (case map_of (scColumns sc) c of None \<Rightarrow> r | Some (get, put) \<Rightarrow> put x r)"

fun assigned :: "cell option \<Rightarrow> assign \<Rightarrow> cell" where
  "assigned old (Put x) = x"
| "assigned old (Plus n) = (case old of Some (CInt m) \<Rightarrow> CInt (m + n) | _ \<Rightarrow> CInt n)"

definition row_set :: "'row schema \<Rightarrow> (string \<times> assign) list \<Rightarrow> 'row \<Rightarrow> 'row" where
  "row_set sc sets r = foldl (\<lambda>r (c, a). put_cell sc c (assigned (cell_of sc c r) a) r) r sets"

text \<open>A sum that fits: the database does not wrap around.\<close>

definition sum_fits :: "int64 \<Rightarrow> int64 \<Rightarrow> bool" where
  "sum_fits m n = (- (2 ^ 63) \<le> sint m + sint n \<and> sint m + sint n < 2 ^ 63)"

fun assign_fits :: "'row schema \<Rightarrow> 'row \<Rightarrow> string \<times> assign \<Rightarrow> bool" where
  "assign_fits sc r (c, Put x) = True"
| "assign_fits sc r (c, Plus n) = (case cell_of sc c r of Some (CInt m) \<Rightarrow> sum_fits m n | _ \<Rightarrow> True)"

definition primary :: "'row schema \<Rightarrow> 'row \<Rightarrow> cell option list" where
  "primary sc r = map (\<lambda>c. cell_of sc c r) (scPrimary sc)"

text \<open>Two rows that cannot both be there.\<close>

definition collide :: "'row schema \<Rightarrow> 'row \<Rightarrow> 'row \<Rightarrow> bool" where
  "collide sc r x = (primary sc r = primary sc x \<or> (\<exists>c \<in> set (scUnique sc). cell_of sc c r = cell_of sc c x))"

definition rows_ok :: "'row schema \<Rightarrow> 'row multiset \<Rightarrow> bool" where
  "rows_ok sc M = (\<forall>r \<in># M. \<forall>x \<in># M - {#r#}. \<not> collide sc r x)"

definition instant_of :: "'row schema \<Rightarrow> string \<Rightarrow> 'row \<Rightarrow> instant" where
  "instant_of sc c r = (case cell_of sc c r of Some (CTime (Some t)) \<Rightarrow> t | _ \<Rightarrow> 0)"

fun in_order :: "'row schema \<Rightarrow> order \<Rightarrow> 'row list \<Rightarrow> bool" where
  "in_order sc Unordered rs = True"
| "in_order sc (Asc c) rs = sorted (map (instant_of sc c) rs)"
| "in_order sc (Desc c) rs = sorted (map (\<lambda>r. - instant_of sc c r) rs)"

section \<open>Laws\<close>

record tables =
  tDevices :: "device multiset"
  tUsers :: "user multiset"
  tTokens :: "api_token multiset"
  tSessions :: "session multiset"
  tPasskeys :: "passkey multiset"

text \<open>
  What is seen of a database: its tables, and in a transaction also what they were when it began.  A write that fails
  leaves both, one that succeeds leaves the latter and every other table.
\<close>

type_synonym 'db seen = "'db \<Rightarrow> tables \<times> tables option"

definition writes ::
  "'db seen \<Rightarrow> (tables \<Rightarrow> 'row multiset) \<Rightarrow> (('row multiset \<Rightarrow> 'row multiset) \<Rightarrow> tables \<Rightarrow> tables) \<Rightarrow> 'db
   \<Rightarrow> nat res \<times> 'db \<Rightarrow> (nat \<Rightarrow> 'row multiset \<Rightarrow> bool) \<Rightarrow> bool" where
  "writes seen get upd x result P =
     (case result of
        (Inl e, x') \<Rightarrow> seen x' = seen x
      | (Inr n, x') \<Rightarrow> \<exists>M. P n M \<and> seen x' = (upd (\<lambda>_. M) (fst (seen x)), snd (seen x)))"

definition created :: "'row schema \<Rightarrow> conflict \<Rightarrow> 'row \<Rightarrow> 'row multiset \<Rightarrow> nat \<Rightarrow> 'row multiset \<Rightarrow> bool" where
  "created sc how r M n M' =
     (case how of
        Refuse \<Rightarrow> (\<forall>x \<in># M. \<not> collide sc r x) \<and> M' = add_mset r M
      | DoNothing \<Rightarrow> if \<exists>x \<in># M. collide sc r x then n = 0 \<and> M' = M else n = 1 \<and> M' = add_mset r M
      | DoUpdates cs \<Rightarrow>
          if \<exists>x \<in># M. primary sc r = primary sc x
          then M' = image_mset (\<lambda>x. if primary sc r = primary sc x
                 then row_set sc (map (\<lambda>c. (c, Put (the (cell_of sc c r)))) cs) x else x) M
          else (\<forall>x \<in># M. \<not> collide sc r x) \<and> M' = add_mset r M)"

text \<open>With \<open>live\<close> the database also answers: reads and transactions always, a write unless it would break a key.\<close>

definition handle_reads :: "bool \<Rightarrow> 'row schema \<Rightarrow> 'db seen \<Rightarrow> (tables \<Rightarrow> 'row multiset) \<Rightarrow> ('row, 'db) handle \<Rightarrow> bool" where
  "handle_reads live sc seen get H \<longleftrightarrow>
     (\<forall>ts ord x. case hFind H ts ord x of
        Inl e \<Rightarrow> \<not> live
      | Inr rs \<Rightarrow> mset rs = filter_mset (row_matches sc ts) (get (fst (seen x))) \<and> in_order sc ord rs) \<and>
     (\<forall>ts x. case hFirst H ts x of
        Inl e \<Rightarrow> \<not> live
      | Inr None \<Rightarrow> filter_mset (row_matches sc ts) (get (fst (seen x))) = {#}
      | Inr (Some r) \<Rightarrow> r \<in># filter_mset (row_matches sc ts) (get (fst (seen x)))) \<and>
     (\<forall>ts x. case hCount H ts x of
        Inl e \<Rightarrow> \<not> live
      | Inr n \<Rightarrow> n = size (filter_mset (row_matches sc ts) (get (fst (seen x)))))"

definition set_where :: "'row schema \<Rightarrow> test list \<Rightarrow> (string \<times> assign) list \<Rightarrow> 'row multiset \<Rightarrow> 'row multiset" where
  "set_where sc ts sets M = image_mset (\<lambda>r. if row_matches sc ts r then row_set sc sets r else r) M"

type_synonym ('row, 'db) law =
  "bool \<Rightarrow> 'row schema \<Rightarrow> 'db seen \<Rightarrow> (tables \<Rightarrow> 'row multiset) \<Rightarrow> (('row multiset \<Rightarrow> 'row multiset) \<Rightarrow> tables \<Rightarrow> tables)
   \<Rightarrow> ('row, 'db) handle \<Rightarrow> bool"

definition create_law :: "('row, 'db) law" where
  "create_law live sc seen get upd H \<longleftrightarrow>
     (\<forall>how r x. scStamped sc r \<longrightarrow>
        writes seen get upd x (hCreate H how r x) (created sc how r (get (fst (seen x)))) \<and>
        (live \<longrightarrow> (\<exists>n M. created sc how r (get (fst (seen x))) n M) \<longrightarrow> is_ok (fst (hCreate H how r x))))"

definition update_law :: "('row, 'db) law" where
  "update_law live sc seen get upd H \<longleftrightarrow>
     (\<forall>ts sets x. (\<forall>r \<in># get (fst (seen x)). row_matches sc ts r \<longrightarrow> list_all (assign_fits sc r) sets) \<longrightarrow>
        writes seen get upd x (hUpdate H ts sets x)
          (\<lambda>n M. n = size (filter_mset (row_matches sc ts) (get (fst (seen x)))) \<and>
                 M = set_where sc ts sets (get (fst (seen x))) \<and> rows_ok sc M) \<and>
        (live \<longrightarrow> rows_ok sc (set_where sc ts sets (get (fst (seen x)))) \<longrightarrow> is_ok (fst (hUpdate H ts sets x))))"

definition replace_law :: "('row, 'db) law" where
  "replace_law live sc seen get upd H \<longleftrightarrow>
     (\<forall>r x. writes seen get upd x (hReplace H r x)
        (\<lambda>n M. M = image_mset (\<lambda>y. if primary sc y = primary sc r then r else y) (get (fst (seen x))) \<and> rows_ok sc M))"

definition delete_law :: "('row, 'db) law" where
  "delete_law live sc seen get upd H \<longleftrightarrow>
     (\<forall>ts x. writes seen get upd x (hDelete H ts x)
          (\<lambda>n M. n = size (filter_mset (row_matches sc ts) (get (fst (seen x)))) \<and>
                 M = filter_mset (\<lambda>r. \<not> row_matches sc ts r) (get (fst (seen x)))) \<and>
        (live \<longrightarrow> ts \<noteq> [] \<longrightarrow> is_ok (fst (hDelete H ts x))))"

text \<open>GORM refuses to delete a row whose primary key is blank.\<close>

definition delete_row_law :: "('row, 'db) law" where
  "delete_row_law live sc seen get upd H \<longleftrightarrow>
     (\<forall>r x. writes seen get upd x (hDeleteRow H r x)
          (\<lambda>n M. M = filter_mset (\<lambda>y. primary sc y \<noteq> primary sc r) (get (fst (seen x)))) \<and>
        (live \<longrightarrow> (\<exists>c \<in> set (primary sc r). c \<noteq> Some (CText [])) \<longrightarrow> is_ok (fst (hDeleteRow H r x))))"

definition handle_writes :: "('row, 'db) law" where
  "handle_writes live sc seen get upd H \<longleftrightarrow>
     create_law live sc seen get upd H \<and> update_law live sc seen get upd H \<and> replace_law live sc seen get upd H \<and>
     delete_law live sc seen get upd H \<and> delete_row_law live sc seen get upd H"

definition transactions_ok :: "bool \<Rightarrow> 'db seen \<Rightarrow> 'db gorm \<Rightarrow> bool" where
  "transactions_ok live seen G \<longleftrightarrow>
     (\<forall>x. case qBegin G x of
        (Inl e, x') \<Rightarrow> \<not> live \<and> seen x' = seen x
      | (Inr _, x') \<Rightarrow> seen x' = (fst (seen x), Some (fst (seen x)))) \<and>
     (\<forall>x. case qCommit G x of
        (Inl e, x') \<Rightarrow> \<not> live \<and> snd (seen x') = None \<and> (fst (seen x') = fst (seen x) \<or> Some (fst (seen x')) = snd (seen x))
      | (Inr _, x') \<Rightarrow> seen x' = (fst (seen x), None)) \<and>
     (\<forall>x t. snd (seen x) = Some t \<longrightarrow> seen (qRollback G x) = (t, None))"

definition db_laws :: "bool \<Rightarrow> 'db seen \<Rightarrow> 'db gorm \<Rightarrow> bool" where
  "db_laws live seen G \<longleftrightarrow>
     handle_reads live device_schema seen tDevices (qDevices G) \<and>
     handle_writes live device_schema seen tDevices tDevices_update (qDevices G) \<and>
     handle_reads live user_schema seen tUsers (qUsers G) \<and>
     handle_writes live user_schema seen tUsers tUsers_update (qUsers G) \<and>
     handle_reads live token_schema seen tTokens (qTokens G) \<and>
     handle_writes live token_schema seen tTokens tTokens_update (qTokens G) \<and>
     handle_reads live session_schema seen tSessions (qSessions G) \<and>
     handle_writes live session_schema seen tSessions tSessions_update (qSessions G) \<and>
     handle_reads live passkey_schema seen tPasskeys (qPasskeys G) \<and>
     handle_writes live passkey_schema seen tPasskeys tPasskeys_update (qPasskeys G) \<and>
     (\<forall>x. case qPluckAddress G x of Inl e \<Rightarrow> \<not> live | Inr as \<Rightarrow> mset as = image_mset devAddress (tDevices (fst (seen x)))) \<and>
     transactions_ok live seen G"

end
