(* ===== verification/Sql_Storage.thy ===== *)
theory Sql_Storage
  imports Sql_Database
begin

text \<open>
  The SQL storage (\<^verbatim>\<open>internal/storage/sql.go\<close>, and the SQL halves of \<^verbatim>\<open>tokens.go\<close>, \<^verbatim>\<open>sessions.go\<close> and \<^verbatim>\<open>passkeys.go\<close>), one
  function per method over the handles of \<open>Sql_Database\<close>.  The state is the database and the events this process was
  told about, by the hooks of the GORM watcher (\<^verbatim>\<open>gormwatcher.go\<close>) or by the storage; on Postgres the storage tells
  nobody, since the triggers of the database do.
\<close>

section \<open>State and events\<close>

datatype watcher = GormWatcher | PgWatcher

record 'db sql_storage =
  sqDB :: 'db
  sqWatcher :: watcher
  sqEmitted :: "event list"

text \<open>The hooks after an insert and a delete, which a silent statement does not run, and what the storage reports itself.\<close>

definition gorm_hook :: "watcher \<Rightarrow> bool \<Rightarrow> event \<Rightarrow> event list" where
  "gorm_hook w silent e = (if silent then [] else case w of GormWatcher \<Rightarrow> [e] | PgWatcher \<Rightarrow> [])"

definition EmitAdd :: "watcher \<Rightarrow> device \<Rightarrow> event list" where
  "EmitAdd w d = []"

definition EmitUpdate :: "watcher \<Rightarrow> device \<Rightarrow> event list" where
  "EmitUpdate w d = (case w of GormWatcher \<Rightarrow> [Updated d] | PgWatcher \<Rightarrow> [])"

definition EmitDelete :: "watcher \<Rightarrow> device \<Rightarrow> event list" where
  "EmitDelete w d = (case w of GormWatcher \<Rightarrow> [Deleted d] | PgWatcher \<Rightarrow> [])"

definition sql_told :: "(watcher \<Rightarrow> event list) \<Rightarrow> 'db sql_storage \<Rightarrow> 'db sql_storage" where
  "sql_told f s = s\<lparr>sqEmitted := sqEmitted s @ f (sqWatcher s)\<rparr>"

text \<open>A statement that writes, with what follows its error, its success without a row and its success.\<close>

definition after ::
  "nat res \<times> 'db \<Rightarrow> 'db sql_storage \<Rightarrow> (go_error \<Rightarrow> 'a res)
   \<Rightarrow> (nat \<Rightarrow> 'db sql_storage \<Rightarrow> 'a res \<times> 'db sql_storage) \<Rightarrow> 'a res \<times> 'db sql_storage" where
  "after q s failed go =
     (case q of
        (Inl e, x) \<Rightarrow> (failed e, s\<lparr>sqDB := x\<rparr>)
      | (Inr n, x) \<Rightarrow> go n (s\<lparr>sqDB := x\<rparr>))"

text \<open>\<^verbatim>\<open>db.Transaction\<close>: what the function did stays, or is rolled back with its error.\<close>

definition transaction :: "'db gorm \<Rightarrow> ('db \<Rightarrow> 'a res \<times> 'db) \<Rightarrow> 'db \<Rightarrow> 'a res \<times> 'db" where
  "transaction G f x =
     (case qBegin G x of
        (Inl e, x) \<Rightarrow> (Inl e, x)
      | (Inr _, tx) \<Rightarrow>
          (case f tx of
             (Inl e, tx) \<Rightarrow> (Inl e, qRollback G tx)
           | (Inr a, tx) \<Rightarrow>
               (case qCommit G tx of
                  (Inl e, x) \<Rightarrow> (Inl e, x)
                | (Inr _, x) \<Rightarrow> (Inr a, x))))"

section \<open>Devices\<close>

definition device_named :: "string \<Rightarrow> string \<Rightarrow> test list" where
  "device_named owner name = [ColEq ''owner'' (CText owner), ColEq ''name'' (CText name)]"

definition no_longer :: "device \<Rightarrow> go_error" where
  "no_longer d = Err (''device '' @ quoted (devName d) @ '' of user '' @ quoted (devOwner d) @ '' no longer exists'')"

definition record_not_found :: go_error where
  "record_not_found = Err ''record not found''"

definition sql_Save :: "'db gorm \<Rightarrow> device \<Rightarrow> 'db sql_storage \<Rightarrow> unit res \<times> 'db sql_storage" where
  "sql_Save G d s =
     (case hCount (qDevices G) (device_named (devOwner d) (devName d)) (sqDB s) of
        Inl e \<Rightarrow> (Inl (wrap_err ''failed to look up the device'' e), s)
      | Inr existing \<Rightarrow>
          if existing = 0 then
            after (hCreate (qDevices G) Refuse d (sqDB s)) s (\<lambda>e. Inl (wrap_err ''failed to write device'' e))
              (\<lambda>n s. (Inr (), sql_told (\<lambda>w. gorm_hook w False (Added d) @ EmitAdd w d) s))
          else
            after (hReplace (qDevices G) d (sqDB s)) s (\<lambda>e. Inl (wrap_err ''failed to write device'' e))
              (\<lambda>n s. (Inr (), sql_told (\<lambda>w. EmitAdd w d) s)))"

definition metadata_columns :: "metadata_update \<Rightarrow> (string \<times> assign) list" where
  "metadata_columns u =
     (if updReceiveBytes u \<noteq> 0 then [(''receive_bytes'', Plus (updReceiveBytes u))] else []) @
     (if updTransmitBytes u \<noteq> 0 then [(''transmit_bytes'', Plus (updTransmitBytes u))] else []) @
     (case updConnection u of
        None \<Rightarrow> []
      | Some c \<Rightarrow> [(''endpoint'', Put (CText (connEndpoint c))),
                    (''last_handshake_time'', Put (CTime (Some (connLastHandshakeTime c))))])"

fun record_updates :: "'db gorm \<Rightarrow> metadata_update list \<Rightarrow> 'db \<Rightarrow> unit res \<times> 'db" where
  "record_updates G [] tx = (Inr (), tx)"
| "record_updates G (u # us) tx =
     (if metadata_columns u = [] then record_updates G us tx
      else (case hUpdate (qDevices G) [ColEq ''public_key'' (CText (updPublicKey u))] (metadata_columns u) tx of
          (Inl e, tx) \<Rightarrow> (Inl (wrap_err ''failed to record device metadata'' e), tx)
        | (Inr n, tx) \<Rightarrow> record_updates G us tx))"

definition sql_RecordMetadata :: "'db gorm \<Rightarrow> metadata_update list \<Rightarrow> 'db sql_storage \<Rightarrow> unit res \<times> 'db sql_storage" where
  "sql_RecordMetadata G us s =
     (if us = [] then (Inr (), s)
      else (case qBegin G (sqDB s) of
          (Inl e, x) \<Rightarrow> (Inl (wrap_err ''failed to begin metadata transaction'' e), s\<lparr>sqDB := x\<rparr>)
        | (Inr _, tx) \<Rightarrow>
            (case record_updates G us tx of
               (Inl e, tx) \<Rightarrow> (Inl e, s\<lparr>sqDB := qRollback G tx\<rparr>)
             | (Inr _, tx) \<Rightarrow>
                 (case qCommit G tx of
                    (Inl e, x) \<Rightarrow> (Inl (wrap_err ''failed to commit device metadata'' e), s\<lparr>sqDB := x\<rparr>)
                  | (Inr _, x) \<Rightarrow> (Inr (), s\<lparr>sqDB := x\<rparr>)))))"

definition sql_Rename :: "'db gorm \<Rightarrow> device \<Rightarrow> string \<Rightarrow> 'db sql_storage \<Rightarrow> device res \<times> 'db sql_storage" where
  "sql_Rename G d newName s =
     after (hUpdate (qDevices G) (device_named (devOwner d) (devName d)) [(''name'', Put (CText newName))] (sqDB s)) s
       (\<lambda>e. Inl (wrap_err ''failed to rename device'' e))
       (\<lambda>n s. if n = 0 then (Inl (no_longer d), s)
              else (let renamed = d\<lparr>devName := newName\<rparr> in (Inr renamed, sql_told (\<lambda>w. EmitUpdate w renamed) s)))"

definition sql_SetAccess :: "'db gorm \<Rightarrow> device \<Rightarrow> bool \<Rightarrow> instant option \<Rightarrow> 'db sql_storage \<Rightarrow> device res \<times> 'db sql_storage" where
  "sql_SetAccess G d disabled expiresAt s =
     after (hUpdate (qDevices G) (device_named (devOwner d) (devName d))
              [(''disabled'', Put (CBool disabled)), (''expires_at'', Put (CTime expiresAt))] (sqDB s)) s
       (\<lambda>e. Inl (wrap_err ''failed to change the access of the device'' e))
       (\<lambda>n s. if n = 0 then (Inl (no_longer d), s)
              else (let changed = d\<lparr>devDisabled := disabled, devExpiresAt := expiresAt\<rparr> in
                    (Inr changed, sql_told (\<lambda>w. EmitUpdate w changed) s)))"

definition sql_SetRoutes :: "'db gorm \<Rightarrow> device \<Rightarrow> string \<Rightarrow> 'db sql_storage \<Rightarrow> device res \<times> 'db sql_storage" where
  "sql_SetRoutes G d routes s =
     after (hUpdate (qDevices G) (device_named (devOwner d) (devName d)) [(''routes'', Put (CText routes))] (sqDB s)) s
       (\<lambda>e. Inl (wrap_err ''failed to change the routes of the device'' e))
       (\<lambda>n s. if n = 0 then (Inl (no_longer d), s)
              else (let changed = d\<lparr>devRoutes := routes\<rparr> in (Inr changed, sql_told (\<lambda>w. EmitUpdate w changed) s)))"

definition sql_SetKeys :: "'db gorm \<Rightarrow> device \<Rightarrow> string \<Rightarrow> string \<Rightarrow> 'db sql_storage \<Rightarrow> device res \<times> 'db sql_storage" where
  "sql_SetKeys G d publicKey presharedKey s =
     after (hUpdate (qDevices G) (device_named (devOwner d) (devName d))
              [(''public_key'', Put (CText publicKey)), (''preshared_key'', Put (CText presharedKey))] (sqDB s)) s
       (\<lambda>e. Inl (wrap_err ''failed to change the keys of the device'' e))
       (\<lambda>n s. if n = 0 then (Inl (no_longer d), s)
              else (let changed = d\<lparr>devPublicKey := publicKey, devPresharedKey := presharedKey\<rparr> in
                    (Inr changed, sql_told (\<lambda>w. EmitUpdate w changed) s)))"

definition sql_Addresses :: "'db gorm \<Rightarrow> 'db sql_storage \<Rightarrow> string list res" where
  "sql_Addresses G s =
     (case qPluckAddress G (sqDB s) of
        Inl e \<Rightarrow> Inl (wrap_err ''failed to read device addresses from sql'' e)
      | Inr addresses \<Rightarrow> Inr addresses)"

definition sql_List :: "'db gorm \<Rightarrow> string \<Rightarrow> 'db sql_storage \<Rightarrow> device list res" where
  "sql_List G username s =
     (case hFind (qDevices G) (if username \<noteq> [] then [ColEq ''owner'' (CText username)] else []) Unordered (sqDB s) of
        Inl e \<Rightarrow> Inl (wrap_err ''failed to read devices from sql'' e)
      | Inr devices \<Rightarrow> Inr devices)"

definition sql_first_device :: "'db gorm \<Rightarrow> test list \<Rightarrow> 'db sql_storage \<Rightarrow> device res" where
  "sql_first_device G ts s =
     (case hFirst (qDevices G) ts (sqDB s) of
        Inl e \<Rightarrow> Inl (wrap_err ''failed to read device'' e)
      | Inr None \<Rightarrow> Inl (wrap_err ''failed to read device'' record_not_found)
      | Inr (Some d) \<Rightarrow> Inr d)"

definition sql_Get :: "'db gorm \<Rightarrow> string \<Rightarrow> string \<Rightarrow> 'db sql_storage \<Rightarrow> device res" where
  "sql_Get G owner name s = sql_first_device G (device_named owner name) s"

definition sql_GetByPublicKey :: "'db gorm \<Rightarrow> string \<Rightarrow> 'db sql_storage \<Rightarrow> device res" where
  "sql_GetByPublicKey G publicKey s = sql_first_device G [ColEq ''public_key'' (CText publicKey)] s"

definition sql_Delete :: "'db gorm \<Rightarrow> device \<Rightarrow> 'db sql_storage \<Rightarrow> unit res \<times> 'db sql_storage" where
  "sql_Delete G d s =
     after (hDeleteRow (qDevices G) d (sqDB s)) s (\<lambda>e. Inl (wrap_err ''failed to delete device file'' e))
       (\<lambda>n s. (Inr (), sql_told (\<lambda>w. gorm_hook w False (Deleted d) @ EmitDelete w d) s))"

fun delete_each :: "'db gorm \<Rightarrow> device list \<Rightarrow> 'db \<Rightarrow> unit res \<times> 'db" where
  "delete_each G [] tx = (Inr (), tx)"
| "delete_each G (d # ds) tx =
     (case hDeleteRow (qDevices G) d tx of
        (Inl e, tx) \<Rightarrow> (Inl (wrap_err (''failed to delete device '' @ quoted (devName d)) e), tx)
      | (Inr n, tx) \<Rightarrow> delete_each G ds tx)"

definition sql_DeleteForOwner :: "'db gorm \<Rightarrow> string \<Rightarrow> 'db sql_storage \<Rightarrow> device list res \<times> 'db sql_storage" where
  "sql_DeleteForOwner G owner s =
     (case transaction G (\<lambda>tx.
         case hFind (qDevices G) [ColEq ''owner'' (CText owner)] Unordered tx of
           Inl e \<Rightarrow> (Inl (wrap_err ''failed to list the devices of the user'' e), tx)
         | Inr deleted \<Rightarrow>
             (case delete_each G deleted tx of (Inl e, tx) \<Rightarrow> (Inl e, tx) | (Inr _, tx) \<Rightarrow> (Inr deleted, tx))) (sqDB s) of
        (Inl e, x) \<Rightarrow> (Inl e, s\<lparr>sqDB := x\<rparr>)
      | (Inr deleted, x) \<Rightarrow> (Inr deleted, sql_told (\<lambda>w. concat (map (EmitDelete w) deleted)) (s\<lparr>sqDB := x\<rparr>)))"

fun block_each :: "'db gorm \<Rightarrow> device list \<Rightarrow> 'db \<Rightarrow> unit res \<times> 'db" where
  "block_each G [] tx = (Inr (), tx)"
| "block_each G (d # ds) tx =
     (case hUpdate (qDevices G) (device_named (devOwner d) (devName d)) [(''disabled'', Put (CBool True))] tx of
        (Inl e, tx) \<Rightarrow> (Inl (wrap_err (''failed to block device '' @ quoted (devName d)) e), tx)
      | (Inr n, tx) \<Rightarrow> block_each G ds tx)"

definition sql_BlockForOwner :: "'db gorm \<Rightarrow> string \<Rightarrow> 'db sql_storage \<Rightarrow> device list res \<times> 'db sql_storage" where
  "sql_BlockForOwner G owner s =
     (case transaction G (\<lambda>tx.
         case hFind (qDevices G) [ColEq ''owner'' (CText owner), ColEq ''disabled'' (CBool False)] Unordered tx of
           Inl e \<Rightarrow> (Inl (wrap_err ''failed to list the devices of the user'' e), tx)
         | Inr blocked \<Rightarrow>
             (case block_each G blocked tx of (Inl e, tx) \<Rightarrow> (Inl e, tx) | (Inr _, tx) \<Rightarrow> (Inr blocked, tx))) (sqDB s) of
        (Inl e, x) \<Rightarrow> (Inl e, s\<lparr>sqDB := x\<rparr>)
      | (Inr blocked, x) \<Rightarrow>
          (let blocked = map (\<lambda>d. d\<lparr>devDisabled := True\<rparr>) blocked in
           (Inr blocked, sql_told (\<lambda>w. concat (map (EmitUpdate w) blocked)) (s\<lparr>sqDB := x\<rparr>))))"

section \<open>Users\<close>

definition sql_SaveUser :: "'db gorm \<Rightarrow> user \<Rightarrow> 'db sql_storage \<Rightarrow> unit res \<times> 'db sql_storage" where
  "sql_SaveUser G u s =
     after (hCreate (qUsers G) (DoUpdates [''provider'', ''name'', ''email'', ''policies'', ''last_login'']) u (sqDB s)) s
       (\<lambda>e. Inl (wrap_err ''failed to write user'' e)) (\<lambda>n s. (Inr (), s))"

definition sql_SetUserTOTP :: "'db gorm \<Rightarrow> string \<Rightarrow> totp_state \<Rightarrow> 'db sql_storage \<Rightarrow> unit res \<times> 'db sql_storage" where
  "sql_SetUserTOTP G subject st s =
     after (hUpdate (qUsers G) [ColEq ''subject'' (CText subject)]
              [(''totp_secret'', Put (CText (totpSecret st))), (''totp_enabled_at'', Put (CTime (totpEnabledAt st))),
               (''totp_recovery'', Put (CText (totpRecovery st))), (''totp_last_step'', Put (CInt (totpLastStep st)))] (sqDB s)) s
       (\<lambda>e. Inl (wrap_err (''failed to write the second factor of user '' @ quoted subject) e))
       (\<lambda>n s. if n = 0 then (Inl (no_such_user subject), s) else (Inr (), s))"

definition sql_SetUserPassword :: "'db gorm \<Rightarrow> string \<Rightarrow> string \<Rightarrow> string \<Rightarrow> 'db sql_storage \<Rightarrow> unit res \<times> 'db sql_storage" where
  "sql_SetUserPassword G subject hash from s =
     after (hUpdate (qUsers G) [ColEq ''subject'' (CText subject)]
              [(''password_hash'', Put (CText hash)), (''password_from'', Put (CText from))] (sqDB s)) s
       (\<lambda>e. Inl (wrap_err (''failed to write the password of user '' @ quoted subject) e))
       (\<lambda>n s. if n = 0 then (Inl (no_such_user subject), s) else (Inr (), s))"

definition sql_GetUser :: "'db gorm \<Rightarrow> string \<Rightarrow> 'db sql_storage \<Rightarrow> user res" where
  "sql_GetUser G subject s =
     (case hFirst (qUsers G) [ColEq ''subject'' (CText subject)] (sqDB s) of
        Inl e \<Rightarrow> Inl (wrap_err ''failed to read user'' e)
      | Inr None \<Rightarrow> Inl (Sentinel ErrUserNotFound)
      | Inr (Some u) \<Rightarrow> Inr u)"

definition sql_Users :: "'db gorm \<Rightarrow> 'db sql_storage \<Rightarrow> user list res" where
  "sql_Users G s =
     (case hFind (qUsers G) [] Unordered (sqDB s) of
        Inl e \<Rightarrow> Inl (wrap_err ''failed to read users from sql'' e)
      | Inr us \<Rightarrow> Inr us)"

definition sql_DeleteUser :: "'db gorm \<Rightarrow> string \<Rightarrow> 'db sql_storage \<Rightarrow> unit res \<times> 'db sql_storage" where
  "sql_DeleteUser G subject s =
     (case transaction G (\<lambda>tx.
         case hDelete (qPasskeys G) [ColEq ''owner'' (CText subject)] tx of
           (Inl e, tx) \<Rightarrow> (Inl e, tx)
         | (Inr n, tx) \<Rightarrow> hDelete (qUsers G) [ColEq ''subject'' (CText subject)] tx) (sqDB s) of
        (Inl e, x) \<Rightarrow> (Inl (wrap_err ''failed to delete user'' e), s\<lparr>sqDB := x\<rparr>)
      | (Inr n, x) \<Rightarrow> (Inr (), s\<lparr>sqDB := x\<rparr>))"

section \<open>API tokens\<close>

definition sql_SaveToken :: "'db gorm \<Rightarrow> api_token \<Rightarrow> 'db sql_storage \<Rightarrow> unit res \<times> 'db sql_storage" where
  "sql_SaveToken G t s =
     after (hCreate (qTokens G) Refuse t (sqDB s)) s (\<lambda>e. Inl (wrap_err ''failed to write api token'' e)) (\<lambda>n s. (Inr (), s))"

definition sql_ListTokens :: "'db gorm \<Rightarrow> string \<Rightarrow> 'db sql_storage \<Rightarrow> api_token list res" where
  "sql_ListTokens G owner s =
     (case hFind (qTokens G) (if owner \<noteq> [] then [ColEq ''owner'' (CText owner)] else []) (Asc ''created_at'') (sqDB s) of
        Inl e \<Rightarrow> Inl (wrap_err ''failed to read api tokens'' e)
      | Inr ts \<Rightarrow> Inr ts)"

definition firstToken :: "'db gorm \<Rightarrow> string \<Rightarrow> string \<Rightarrow> 'db sql_storage \<Rightarrow> api_token res" where
  "firstToken G column value s =
     (case hFirst (qTokens G) [ColEq column (CText value)] (sqDB s) of
        Inl e \<Rightarrow> Inl (wrap_err ''failed to read api token'' e)
      | Inr None \<Rightarrow> Inl (Sentinel ErrTokenNotFound)
      | Inr (Some t) \<Rightarrow> Inr t)"

definition sql_GetToken :: "'db gorm \<Rightarrow> string \<Rightarrow> 'db sql_storage \<Rightarrow> api_token res" where
  "sql_GetToken G i s = firstToken G ''id'' i s"

definition sql_GetTokenByHash :: "'db gorm \<Rightarrow> string \<Rightarrow> 'db sql_storage \<Rightarrow> api_token res" where
  "sql_GetTokenByHash G hash s = firstToken G ''hash'' hash s"

definition sql_TouchToken :: "'db gorm \<Rightarrow> string \<Rightarrow> instant \<Rightarrow> 'db sql_storage \<Rightarrow> unit res \<times> 'db sql_storage" where
  "sql_TouchToken G i at s =
     after (hUpdate (qTokens G) [ColEq ''id'' (CText i)] [(''last_used_at'', Put (CTime (Some at)))] (sqDB s)) s
       (\<lambda>e. Inl (wrap_err ''failed to record the use of an api token'' e)) (\<lambda>n s. (Inr (), s))"

definition sql_DeleteToken :: "'db gorm \<Rightarrow> string \<Rightarrow> 'db sql_storage \<Rightarrow> unit res \<times> 'db sql_storage" where
  "sql_DeleteToken G i s =
     after (hDelete (qTokens G) [ColEq ''id'' (CText i)] (sqDB s)) s (\<lambda>e. Inl (wrap_err ''failed to delete api token'' e))
       (\<lambda>n s. if n = 0 then (Inl (Sentinel ErrTokenNotFound), s) else (Inr (), s))"

definition sql_DeleteTokensForOwner :: "'db gorm \<Rightarrow> string \<Rightarrow> 'db sql_storage \<Rightarrow> nat res \<times> 'db sql_storage" where
  "sql_DeleteTokensForOwner G owner s =
     after (hDelete (qTokens G) [ColEq ''owner'' (CText owner)] (sqDB s)) s
       (\<lambda>e. Inl (wrap_err ''failed to delete the api tokens of the user'' e)) (\<lambda>n s. (Inr n, s))"

section \<open>Browser sessions\<close>

definition sql_SaveSession :: "'db gorm \<Rightarrow> session \<Rightarrow> 'db sql_storage \<Rightarrow> unit res \<times> 'db sql_storage" where
  "sql_SaveSession G x s =
     after (hCreate (qSessions G) Refuse x (sqDB s)) s (\<lambda>e. Inl (wrap_err ''failed to write session'' e)) (\<lambda>n s. (Inr (), s))"

definition sql_GetSessionByHash :: "'db gorm \<Rightarrow> string \<Rightarrow> 'db sql_storage \<Rightarrow> session res" where
  "sql_GetSessionByHash G hash s =
     (case hFirst (qSessions G) [ColEq ''hash'' (CText hash)] (sqDB s) of
        Inl e \<Rightarrow> Inl (wrap_err ''failed to read session'' e)
      | Inr None \<Rightarrow> Inl (Sentinel ErrSessionNotFound)
      | Inr (Some x) \<Rightarrow> Inr x)"

definition sql_ListSessions :: "'db gorm \<Rightarrow> string \<Rightarrow> 'db sql_storage \<Rightarrow> session list res" where
  "sql_ListSessions G owner s =
     (case hFind (qSessions G) [ColEq ''owner'' (CText owner)] (Desc ''created_at'') (sqDB s) of
        Inl e \<Rightarrow> Inl (wrap_err ''failed to read sessions'' e)
      | Inr xs \<Rightarrow> Inr xs)"

definition sql_TouchSession :: "'db gorm \<Rightarrow> string \<Rightarrow> instant \<Rightarrow> 'db sql_storage \<Rightarrow> unit res \<times> 'db sql_storage" where
  "sql_TouchSession G i at s =
     after (hUpdate (qSessions G) [ColEq ''id'' (CText i)] [(''last_seen_at'', Put (CTime (Some at)))] (sqDB s)) s
       (\<lambda>e. Inl (wrap_err ''failed to record the use of a session'' e))
       (\<lambda>n s. if n = 0 then (Inl (Sentinel ErrSessionNotFound), s) else (Inr (), s))"

definition sql_DeleteSession :: "'db gorm \<Rightarrow> string \<Rightarrow> 'db sql_storage \<Rightarrow> unit res \<times> 'db sql_storage" where
  "sql_DeleteSession G i s =
     after (hDelete (qSessions G) [ColEq ''id'' (CText i)] (sqDB s)) s (\<lambda>e. Inl (wrap_err ''failed to delete session'' e))
       (\<lambda>n s. (Inr (), s))"

definition sql_DeleteSessionsForOwner :: "'db gorm \<Rightarrow> string \<Rightarrow> 'db sql_storage \<Rightarrow> nat res \<times> 'db sql_storage" where
  "sql_DeleteSessionsForOwner G owner s =
     after (hDelete (qSessions G) [ColEq ''owner'' (CText owner)] (sqDB s)) s
       (\<lambda>e. Inl (wrap_err ''failed to delete the sessions of the user'' e)) (\<lambda>n s. (Inr n, s))"

definition sql_DeleteExpiredSessions :: "'db gorm \<Rightarrow> instant \<Rightarrow> 'db sql_storage \<Rightarrow> nat res \<times> 'db sql_storage" where
  "sql_DeleteExpiredSessions G now s =
     after (hDelete (qSessions G) [ColLe ''expires_at'' (CTime (Some now))] (sqDB s)) s
       (\<lambda>e. Inl (wrap_err ''failed to delete expired sessions'' e)) (\<lambda>n s. (Inr n, s))"

section \<open>Passkeys\<close>

definition sql_AddPasskey :: "'db gorm \<Rightarrow> passkey \<Rightarrow> 'db sql_storage \<Rightarrow> unit res \<times> 'db sql_storage" where
  "sql_AddPasskey G p s =
     after (hCreate (qPasskeys G) DoNothing p (sqDB s)) s (\<lambda>e. Inl (wrap_err ''failed to write the passkey'' e))
       (\<lambda>n s. if n = 0 then (Inl (Sentinel ErrPasskeyExists), s) else (Inr (), s))"

definition sql_UpdatePasskey :: "'db gorm \<Rightarrow> passkey \<Rightarrow> 'db sql_storage \<Rightarrow> unit res \<times> 'db sql_storage" where
  "sql_UpdatePasskey G p s =
     after (hUpdate (qPasskeys G) [ColEq ''id'' (CText (pkID p)), ColEq ''owner'' (CText (pkOwner p))]
              [(''name'', Put (CText (pkName p))), (''data'', Put (CText (pkData p))), (''last_used_at'', Put (CTime (pkLastUsedAt p)))]
              (sqDB s)) s
       (\<lambda>e. Inl (wrap_err ''failed to write the passkey'' e))
       (\<lambda>n s. if n = 0 then (Inl (Sentinel ErrPasskeyNotFound), s) else (Inr (), s))"

definition sql_RenamePasskey :: "'db gorm \<Rightarrow> string \<Rightarrow> string \<Rightarrow> string \<Rightarrow> 'db sql_storage \<Rightarrow> unit res \<times> 'db sql_storage" where
  "sql_RenamePasskey G owner i name s =
     after (hUpdate (qPasskeys G) [ColEq ''id'' (CText i), ColEq ''owner'' (CText owner)] [(''name'', Put (CText name))] (sqDB s)) s
       (\<lambda>e. Inl (wrap_err ''failed to rename the passkey'' e))
       (\<lambda>n s. if n = 0 then (Inl (Sentinel ErrPasskeyNotFound), s) else (Inr (), s))"

definition sql_ListPasskeys :: "'db gorm \<Rightarrow> string \<Rightarrow> 'db sql_storage \<Rightarrow> passkey list res" where
  "sql_ListPasskeys G owner s =
     (case hFind (qPasskeys G) [ColEq ''owner'' (CText owner)] Unordered (sqDB s) of
        Inl e \<Rightarrow> Inl (wrap_err ''failed to list the passkeys'' e)
      | Inr ps \<Rightarrow> Inr (sortPasskeys ps))"

definition sql_GetPasskey :: "'db gorm \<Rightarrow> string \<Rightarrow> 'db sql_storage \<Rightarrow> passkey res" where
  "sql_GetPasskey G i s =
     (case hFirst (qPasskeys G) [ColEq ''id'' (CText i)] (sqDB s) of
        Inl e \<Rightarrow> Inl (wrap_err ''failed to read the passkey'' e)
      | Inr None \<Rightarrow> Inl (Sentinel ErrPasskeyNotFound)
      | Inr (Some p) \<Rightarrow> Inr p)"

definition sql_DeletePasskey :: "'db gorm \<Rightarrow> string \<Rightarrow> string \<Rightarrow> 'db sql_storage \<Rightarrow> unit res \<times> 'db sql_storage" where
  "sql_DeletePasskey G owner i s =
     after (hDelete (qPasskeys G) [ColEq ''owner'' (CText owner), ColEq ''id'' (CText i)] (sqDB s)) s
       (\<lambda>e. Inl (wrap_err ''failed to delete the passkey'' e))
       (\<lambda>n s. if n = 0 then (Inl (Sentinel ErrPasskeyNotFound), s) else (Inr (), s))"

definition sql_SetWebauthnChallenge :: "'db gorm \<Rightarrow> string \<Rightarrow> string \<Rightarrow> instant option \<Rightarrow> 'db sql_storage \<Rightarrow> unit res \<times> 'db sql_storage" where
  "sql_SetWebauthnChallenge G subject data until s =
     after (hUpdate (qUsers G) [ColEq ''subject'' (CText subject)]
              [(''webauthn_challenge'', Put (CText data)), (''webauthn_challenge_until'', Put (CTime until))] (sqDB s)) s
       (\<lambda>e. Inl (wrap_err ''failed to write the webauthn challenge'' e))
       (\<lambda>n s. if n = 0 then (Inl (no_such_user subject), s) else (Inr (), s))"

end
