(* ===== verification/Sql_Tables.thy ===== *)
theory Sql_Tables
  imports Sql_Storage
begin

text \<open>
  The tables of the database and the maps of the in-memory storage: \<open>tables_of\<close> is what a database holds that stores the
  same, and the locale \<open>stored_table\<close>, interpreted for the five tables, carries every statement over.  \<open>sim\<close> is
  the relation a method of the SQL storage has to its counterpart.
\<close>

section \<open>The same contents\<close>

definition tables_of :: "memory \<Rightarrow> tables" where
  "tables_of m =
     \<lparr>tDevices = mset (map snd (db m)), tUsers = mset (map snd (users m)), tTokens = mset (map snd (tokens m)),
      tSessions = mset (map snd (sessions m)), tPasskeys = mset (map snd (passkeys m))\<rparr>"

text \<open>In a database no two devices share a public key, the empty one included, and a device without owner and name is not
  deleted; neither of them is ever stored.\<close>

definition sql_ok :: "memory \<Rightarrow> bool" where
  "sql_ok m \<longleftrightarrow> store_ok m \<and> (\<forall>(k, d) \<in> set (db m). devPublicKey d \<noteq> [] \<and> k \<noteq> ([], []))"

section \<open>Maps and multisets\<close>

lemma table_rows:
  assumes "table_ok kf uf m"
  shows "x \<in># mset (map snd m) \<longleftrightarrow> map_of m (kf x) = Some x"
  using map_of_iff [OF table_okD(1) [OF assms]] table_okD(2) [OF assms] by force

lemma rows_new:
  assumes "map_of m k = None"
  shows "mset (map snd (AList.update k v m)) = add_mset v (mset (map snd m))"
  using assms by (induction m) (auto split: if_splits)

lemma snd_update:
  assumes "amap_ok m" "\<And>j x. (j, x) \<in> set m \<Longrightarrow> j = kf x" "k \<in> fst ` set m"
  shows "map snd (AList.update k v m) = map (\<lambda>x. if kf x = k then v else x) (map snd m)"
  using assms
proof (induction m)
  case (Cons a n)
  obtain j x where a: "a = (j, x)" by fastforce
  have j: "j = kf x" using Cons.prems(2) a by auto
  have rest: "amap_ok n" "\<And>j x. (j, x) \<in> set n \<Longrightarrow> j = kf x" using Cons.prems by (auto simp: amap_ok_def)
  show ?case
  proof (cases "j = k")
    case True
    have "k \<notin> fst ` set n" using Cons.prems(1) a True by (simp add: amap_ok_def)
    then have "\<And>y. y \<in> set n \<Longrightarrow> kf (snd y) \<noteq> k" using rest(2) by force
    then show ?thesis using True a j by simp
  next
    case False
    then have "k \<in> fst ` set n" using Cons.prems(3) a by auto
    then show ?thesis using Cons.IH [OF rest] False a j by simp
  qed
qed simp

lemma rows_change:
  assumes "table_ok kf uf m" "map_of m k = Some old"
  shows "mset (map snd (AList.update k v m)) = image_mset (\<lambda>x. if kf x = k then v else x) (mset (map snd m))"
proof -
  have "k \<in> fst ` set m" using assms(2) by (metis map_of_SomeD fst_conv imageI)
  then have "map snd (AList.update k v m) = map (\<lambda>x. if kf x = k then v else x) (map snd m)"
    using table_okD [OF assms(1)] by (intro snd_update) auto
  then show ?thesis by (metis mset_map)
qed

lemma rows_kept: "mset (map snd (filter (\<lambda>(k, x). P x) m)) = filter_mset P (mset (map snd m))"
  by (induction m) auto

lemma rows_drop:
  assumes "table_ok kf uf m"
  shows "mset (map snd (AList.delete k m)) = filter_mset (\<lambda>x. kf x \<noteq> k) (mset (map snd m))"
proof -
  have "AList.delete k m = filter (\<lambda>(j, x). kf x \<noteq> k) m"
    unfolding delete_as_filter using table_okD(2) [OF assms] by (intro filter_cong) auto
  then show ?thesis using rows_kept [of "\<lambda>x. kf x \<noteq> k" m] by simp
qed

lemma rows_mapped: "mset (map snd (map (\<lambda>(k, x). (k, f x)) m)) = image_mset f (mset (map snd m))"
  by (induction m) auto

lemma keyed_rows:
  assumes "table_ok kf uf m"
  shows "filter_mset (\<lambda>x. kf x = k) (mset (map snd m)) = (case map_of m k of None \<Rightarrow> {#} | Some v \<Rightarrow> {#v#})"
proof (cases "map_of m k")
  case None
  then show ?thesis using table_rows [OF assms] by auto
next
  case (Some v)
  have "filter_mset (\<lambda>x. kf x = k) (mset (map snd n)) = {#v#}"
    if "amap_ok n" "\<And>j x. (j, x) \<in> set n \<Longrightarrow> j = kf x" "map_of n k = Some v" for n
    using that
  proof (induction n)
    case (Cons a n)
    obtain j x where a: "a = (j, x)" by fastforce
    have j: "j = kf x" using Cons.prems(2) a by auto
    have rest: "amap_ok n" "\<And>j x. (j, x) \<in> set n \<Longrightarrow> j = kf x" using Cons.prems by (auto simp: amap_ok_def)
    show ?case
    proof (cases "j = k")
      case True
      have "k \<notin> fst ` set n" using Cons.prems(1) a True by (simp add: amap_ok_def)
      then have "filter_mset (\<lambda>x. kf x = k) (mset (map snd n)) = {#}" using rest(2) by force
      then show ?thesis using True a j Cons.prems(3) by simp
    next
      case False
      then show ?thesis using Cons.IH [OF rest] Cons.prems(3) a j by simp
    qed
  qed simp
  then show ?thesis using Some table_okD [OF assms] by simp
qed

lemma rows_replaced:
  assumes "table_ok kf uf m" "map_of m k = Some old"
  shows "mset (map snd (AList.update k v m)) = add_mset v (filter_mset (\<lambda>x. kf x \<noteq> k) (mset (map snd m)))"
proof -
  let ?R = "mset (map snd m)" and ?f = "\<lambda>x. if kf x = k then v else x"
  let ?B = "filter_mset (\<lambda>x. kf x \<noteq> k) ?R"
  have "image_mset ?f ?B = image_mset (\<lambda>x. x) ?B" by (intro image_mset_cong) auto
  then have keep: "image_mset ?f ?B = ?B" by (simp only: image_mset.identity id_apply image_mset_id)
  have A: "filter_mset (\<lambda>x. kf x = k) ?R = {#old#}" using keyed_rows [OF assms(1), of k] assms(2) by simp
  have "?R = filter_mset (\<lambda>x. kf x = k) ?R + ?B" by (rule multiset_partition)
  then have "image_mset ?f ?R = image_mset ?f ({#old#} + ?B)" unfolding A by (rule arg_cong)
  also have "\<dots> = add_mset v ?B" using keep table_ok_key [OF assms] by (simp only: image_mset_union) simp
  finally show ?thesis using rows_change [OF assms, of v] by simp
qed

lemma indexed_rows:
  assumes "table_ok kf (\<lambda>x. Some (g x)) m"
  shows "filter_mset (\<lambda>x. g x = u) (mset (map snd m)) = (case find (\<lambda>x. g x = u) (map snd m) of None \<Rightarrow> {#} | Some v \<Rightarrow> {#v#})"
proof (cases "find (\<lambda>x. g x = u) (map snd m)")
  case None
  then have "filter_mset (\<lambda>x. g x = u) (mset (map snd m)) = {#}" by (auto simp: find_None_iff)
  then show ?thesis using None by simp
next
  case (Some v)
  then have v: "(kf v, v) \<in> set m" "g v = u" using find_by_hash [OF assms] by simp_all
  have "(g x = u) = (kf x = kf v)" if "x \<in># mset (map snd m)" for x
  proof -
    have "(kf x, x) \<in> set m" using that table_rows [OF assms] by (simp add: map_of_SomeD)
    then show ?thesis
      using table_okD(3) [OF assms, of "kf x" x "kf v" v] v amap_ok_inj [OF table_okD(1) [OF assms], of "kf v" x v] by auto
  qed
  then have "filter_mset (\<lambda>x. g x = u) (mset (map snd m)) = filter_mset (\<lambda>x. kf x = kf v) (mset (map snd m))"
    by (intro filter_mset_cong) auto
  also have "\<dots> = {#v#}"
  proof -
    have "map_of m (kf v) = Some v" using map_of_iff [OF table_okD(1) [OF assms]] v(1) by simp
    then show ?thesis using keyed_rows [OF assms, of "kf v"] by simp
  qed
  finally show ?thesis using Some by simp
qed

section \<open>Simulation\<close>

text \<open>
  A method on a database that holds what the in-memory storage does, and its counterpart there.  With a result, the
  in-memory storage gives the same, both hold the same afterwards, and the same events were told as often.  With an error
  nobody was told anything, and the database is as before; only when a commit fails it may be as after.  A database
  that answers leaves no other errors than those of the in-memory storage.
\<close>

definition sim ::
  "bool \<Rightarrow> 'db seen \<Rightarrow> ('a \<Rightarrow> 'b \<Rightarrow> bool) \<Rightarrow> 'db sql_storage \<Rightarrow> memory
   \<Rightarrow> 'a res \<times> 'db sql_storage \<Rightarrow> 'b res \<times> memory \<Rightarrow> bool" where
  "sim live seen same s m q p \<longleftrightarrow>
     sqWatcher (snd q) = sqWatcher s \<and> snd (seen (sqDB (snd q))) = None \<and>
     (case fst q of
        Inr a \<Rightarrow>
          (\<exists>b. fst p = Inr b \<and> same a b) \<and> fst (seen (sqDB (snd q))) = tables_of (snd p) \<and>
          (\<exists>es es'. sqEmitted (snd q) = sqEmitted s @ es \<and> emitted (snd p) = emitted m @ es' \<and> mset es = mset es')
      | Inl e \<Rightarrow>
          sqEmitted (snd q) = sqEmitted s \<and>
          (fst (seen (sqDB (snd q))) = tables_of m \<or> fst (seen (sqDB (snd q))) = tables_of (snd p))) \<and>
     (live \<longrightarrow> is_ok (fst q) = is_ok (fst p))"

lemma sql_told_simps [simp]:
  "sqDB (sql_told f s) = sqDB s" "sqWatcher (sql_told f s) = sqWatcher s"
  "sqEmitted (sql_told f s) = sqEmitted s @ f (sqWatcher s)" "sql_told (\<lambda>w. []) s = s"
  by (simp_all add: sql_told_def)

lemma sim_write_ok:
  assumes w: "writes seen get upd (sqDB s) result P" and s: "seen (sqDB s) = (tables_of m, None)"
    and live: "live \<Longrightarrow> is_ok (fst result)"
    and go: "\<And>n M. P n M \<Longrightarrow> tables_of m' = upd (\<lambda>_. M) (tables_of m) \<and> (\<forall>s. go n s = (Inr a, sql_told f s))"
    and ab: "same a b" and ev: "emitted m' = emitted m @ es" "mset (f (sqWatcher s)) = mset es"
  shows "sim live seen same s m (after result s (\<lambda>e. Inl (failed e)) go) (Inr b, m')"
proof (cases result)
  case (Pair r x)
  show ?thesis
  proof (cases r)
    case (Inl e)
    then have "\<not> live" "seen x = seen (sqDB s)" using w live Pair by (auto simp: writes_def)
    then show ?thesis using s Pair Inl by (simp add: sim_def after_def)
  next
    case (Inr n)
    then obtain M where M: "P n M" "seen x = (upd (\<lambda>_. M) (tables_of m), None)"
      using w Pair s by (auto simp: writes_def)
    then show ?thesis using go [OF M(1)] ab ev Pair Inr by (auto simp: sim_def after_def)
  qed
qed

lemma sim_write_not:
  assumes w: "writes seen get upd (sqDB s) result P" and s: "seen (sqDB s) = (tables_of m, None)"
    and go: "\<And>n M. P n M \<Longrightarrow> upd (\<lambda>_. M) (tables_of m) = tables_of m \<and> (\<forall>s. go n s = (Inl e, s))"
  shows "sim live seen same s m (after result s (\<lambda>e. Inl (failed e)) go) (Inl e', m)"
proof (cases result)
  case (Pair r x)
  show ?thesis
  proof (cases r)
    case (Inl e)
    then show ?thesis using w s Pair by (simp add: sim_def after_def writes_def)
  next
    case (Inr n)
    then obtain M where M: "P n M" "seen x = (upd (\<lambda>_. M) (tables_of m), None)"
      using w Pair s by (auto simp: writes_def)
    then show ?thesis using go [OF M(1)] Pair Inr by (simp add: sim_def after_def)
  qed
qed

lemma handle_writesD:
  assumes "handle_writes live sc seen get upd H" "fst (seen x) = T"
  shows "scStamped sc r \<Longrightarrow> writes seen get upd x (hCreate H how r x) (created sc how r (get T))"
    and "scStamped sc r \<Longrightarrow> live \<Longrightarrow> created sc how r (get T) n M \<Longrightarrow> is_ok (fst (hCreate H how r x))"
    and "\<forall>r \<in># get T. row_matches sc ts r \<longrightarrow> list_all (assign_fits sc r) sets \<Longrightarrow>
      writes seen get upd x (hUpdate H ts sets x) (\<lambda>n M. n = size (filter_mset (row_matches sc ts) (get T)) \<and>
        M = set_where sc ts sets (get T) \<and> rows_ok sc M)"
    and "\<forall>r \<in># get T. row_matches sc ts r \<longrightarrow> list_all (assign_fits sc r) sets \<Longrightarrow> live \<Longrightarrow>
      rows_ok sc (set_where sc ts sets (get T)) \<Longrightarrow> is_ok (fst (hUpdate H ts sets x))"
    and "writes seen get upd x (hDelete H ts x) (\<lambda>n M. n = size (filter_mset (row_matches sc ts) (get T)) \<and>
        M = filter_mset (\<lambda>r. \<not> row_matches sc ts r) (get T))"
    and "live \<Longrightarrow> ts \<noteq> [] \<Longrightarrow> is_ok (fst (hDelete H ts x))"
    and "writes seen get upd x (hDeleteRow H r x) (\<lambda>n M. M = filter_mset (\<lambda>y. primary sc y \<noteq> primary sc r) (get T))"
    and "live \<Longrightarrow> \<exists>c \<in> set (primary sc r). c \<noteq> Some (CText []) \<Longrightarrow> is_ok (fst (hDeleteRow H r x))"
proof -
  have laws: "create_law live sc seen get upd H" "update_law live sc seen get upd H" "delete_law live sc seen get upd H"
    "delete_row_law live sc seen get upd H"
    using assms(1) by (simp_all add: handle_writes_def)
  show "scStamped sc r \<Longrightarrow> writes seen get upd x (hCreate H how r x) (created sc how r (get T))"
    and "scStamped sc r \<Longrightarrow> live \<Longrightarrow> created sc how r (get T) n M \<Longrightarrow> is_ok (fst (hCreate H how r x))"
    using laws(1) unfolding create_law_def assms(2) [symmetric] by blast+
  show "\<forall>r \<in># get T. row_matches sc ts r \<longrightarrow> list_all (assign_fits sc r) sets \<Longrightarrow>
      writes seen get upd x (hUpdate H ts sets x) (\<lambda>n M. n = size (filter_mset (row_matches sc ts) (get T)) \<and>
        M = set_where sc ts sets (get T) \<and> rows_ok sc M)"
    and "\<forall>r \<in># get T. row_matches sc ts r \<longrightarrow> list_all (assign_fits sc r) sets \<Longrightarrow> live \<Longrightarrow>
      rows_ok sc (set_where sc ts sets (get T)) \<Longrightarrow> is_ok (fst (hUpdate H ts sets x))"
    using laws(2) unfolding update_law_def assms(2) [symmetric] by blast+
  show "writes seen get upd x (hDelete H ts x) (\<lambda>n M. n = size (filter_mset (row_matches sc ts) (get T)) \<and>
        M = filter_mset (\<lambda>r. \<not> row_matches sc ts r) (get T))"
    and "live \<Longrightarrow> ts \<noteq> [] \<Longrightarrow> is_ok (fst (hDelete H ts x))"
    using laws(3) unfolding delete_law_def assms(2) [symmetric] by blast+
  show "writes seen get upd x (hDeleteRow H r x) (\<lambda>n M. M = filter_mset (\<lambda>y. primary sc y \<noteq> primary sc r) (get T))"
    and "live \<Longrightarrow> \<exists>c \<in> set (primary sc r). c \<noteq> Some (CText []) \<Longrightarrow> is_ok (fst (hDeleteRow H r x))"
    using laws(4) unfolding delete_row_law_def assms(2) [symmetric] by blast+
qed

text \<open>A method that reads, on both sides.\<close>

lemma sim_read:
  assumes "seen (sqDB s) = (tables_of m, None)"
    and "\<And>a. r = Inr a \<Longrightarrow> \<exists>b. r' = Inr b \<and> same a b" "live \<Longrightarrow> is_ok r = is_ok r'"
  shows "sim live seen same s m (r, s) (r', m)"
  using assms by (cases r) (auto simp: sim_def)

section \<open>Statements on stored tables\<close>

text \<open>
  A table of the database and the map that stores the same: the primary key is the key of the map, and rows collide
  that share it or an indexed value.
\<close>

locale stored_table =
  fixes sc :: "'row schema" and get :: "tables \<Rightarrow> 'row multiset"
    and upd :: "('row multiset \<Rightarrow> 'row multiset) \<Rightarrow> tables \<Rightarrow> tables"
    and rows :: "memory \<Rightarrow> ('k, 'row) amap" and kf :: "'row \<Rightarrow> 'k" and uf :: "'row \<Rightarrow> 'u option"
  assumes upd_same: "upd (\<lambda>_. get T) T = T"
    and stored: "get (tables_of m) = mset (map snd (rows m))"
    and table: "sql_ok m \<Longrightarrow> table_ok kf uf (rows m)"
    and primary: "primary sc r = primary sc x \<longleftrightarrow> kf r = kf x"
    and collides: "collide sc r x \<longleftrightarrow> kf r = kf x \<or> uf r \<noteq> None \<and> uf r = uf x"
begin

lemma rows_ok_table:
  assumes "table_ok kf uf n"
  shows "rows_ok sc (mset (map snd n))"
proof -
  have once: "count (mset (map snd n)) r \<le> 1" for r
  proof -
    have "count (mset (map snd n)) r = size (filter_mset (\<lambda>x. x = r) (mset (map snd n)))"
      by (simp add: filter_eq_replicate_mset)
    also have "\<dots> \<le> size (filter_mset (\<lambda>x. kf x = kf r) (mset (map snd n)))"
      by (intro size_mset_mono filter_mset_mono_strong) auto
    also have "\<dots> \<le> 1" unfolding keyed_rows [OF assms] by (auto split: option.splits)
    finally show ?thesis .
  qed
  show ?thesis unfolding rows_ok_def collides
  proof (intro ballI notI)
    fix r x
    assume r: "r \<in># mset (map snd n)" and x: "x \<in># mset (map snd n) - {#r#}"
      and c: "kf r = kf x \<or> uf r \<noteq> None \<and> uf r = uf x"
    have x': "x \<in># mset (map snd n)" using x by (rule in_diffD)
    have "map_of n (kf r) = Some r" "map_of n (kf x) = Some x" using r x' table_rows [OF assms] by simp_all
    then have "r = x" using c table_okD(3) [OF assms, of "kf r" r "kf x" x] by (metis map_of_SomeD option.inject)
    then have "count (mset (map snd n)) x \<ge> 2" using r x by (simp add: in_diff_count)
    then show False using once [of x] by simp
  qed
qed

lemma update_ok:
  assumes H: "handle_writes live sc seen get upd H" and s: "seen (sqDB s) = (tables_of m, None)"
    and fits: "\<forall>r \<in># get (tables_of m). row_matches sc ts r \<longrightarrow> list_all (assign_fits sc r) sets"
    and m': "tables_of m' = upd (\<lambda>_. set_where sc ts sets (get (tables_of m))) (tables_of m)"
    and ok: "get (tables_of m') = set_where sc ts sets (get (tables_of m))" "sql_ok m'"
    and go: "\<And>s. go (size (filter_mset (row_matches sc ts) (get (tables_of m)))) s = (Inr a, sql_told f s)"
    and same: "same a b" and ev: "emitted m' = emitted m @ es" "mset (f (sqWatcher s)) = mset es"
  shows "sim live seen same s m (after (hUpdate H ts sets (sqDB s)) s (\<lambda>e. Inl (failed e)) go) (Inr b, m')"
proof -
  have "rows_ok sc (set_where sc ts sets (get (tables_of m)))"
    using rows_ok_table [OF table [OF ok(2)]] ok(1) by (simp add: stored)
  moreover have "fst (seen (sqDB s)) = tables_of m" using s by simp
  note w = handle_writesD(3,4) [OF H this fits]
  ultimately show ?thesis by (intro sim_write_ok [where es = es and f = f and a = a, OF w(1) s]) (auto simp: m' go same ev intro: w(2))
qed

lemma update_not:
  assumes H: "handle_writes live sc seen get upd H" and s: "seen (sqDB s) = (tables_of m, None)"
    and fits: "\<forall>r \<in># get (tables_of m). row_matches sc ts r \<longrightarrow> list_all (assign_fits sc r) sets"
    and none: "\<not> rows_ok sc (set_where sc ts sets (get (tables_of m))) \<or>
      filter_mset (row_matches sc ts) (get (tables_of m)) = {#} \<and> (\<forall>s. go 0 s = (Inl e, s))"
  shows "sim live seen same s m (after (hUpdate H ts sets (sqDB s)) s (\<lambda>e. Inl (failed e)) go) (Inl e', m)"
proof -
  have "set_where sc ts sets (get (tables_of m)) = get (tables_of m)"
    if "filter_mset (row_matches sc ts) (get (tables_of m)) = {#}"
    using that by (auto simp: set_where_def intro: image_mset_cong [THEN trans])
  moreover have "fst (seen (sqDB s)) = tables_of m" using s by simp
  ultimately show ?thesis
    using none by (intro sim_write_not [where e = e, OF handle_writesD(3) [OF H _ fits] s])
      (auto simp: upd_same simp del: filter_mset_eq_mempty_iff)
qed

lemma delete_ok:
  assumes H: "handle_writes live sc seen get upd H" and s: "seen (sqDB s) = (tables_of m, None)" and ts: "ts \<noteq> []"
    and m': "tables_of m' = upd (\<lambda>_. filter_mset (\<lambda>r. \<not> row_matches sc ts r) (get (tables_of m))) (tables_of m)"
    and go: "\<And>s. go (size (filter_mset (row_matches sc ts) (get (tables_of m)))) s = (Inr a, sql_told f s)"
    and same: "same a b" and ev: "emitted m' = emitted m @ es" "mset (f (sqWatcher s)) = mset es"
  shows "sim live seen same s m (after (hDelete H ts (sqDB s)) s (\<lambda>e. Inl (failed e)) go) (Inr b, m')"
proof -
  have "fst (seen (sqDB s)) = tables_of m" using s by simp
  note w = handle_writesD(5,6) [OF H this]
  show ?thesis by (intro sim_write_ok [where es = es and f = f and a = a, OF w(1) s]) (auto simp: m' go same ev ts intro: w(2))
qed

lemma delete_not:
  assumes H: "handle_writes live sc seen get upd H" and s: "seen (sqDB s) = (tables_of m, None)"
    and none: "filter_mset (row_matches sc ts) (get (tables_of m)) = {#}" and go: "\<And>s. go 0 s = (Inl e, s)"
  shows "sim live seen same s m (after (hDelete H ts (sqDB s)) s (\<lambda>e. Inl (failed e)) go) (Inl e', m)"
proof -
  have "filter_mset (\<lambda>r. \<not> row_matches sc ts r) (get (tables_of m)) = get (tables_of m)"
    using none by (auto simp: filter_mset_eq_conv)
  moreover have "fst (seen (sqDB s)) = tables_of m" using s by simp
  ultimately show ?thesis
    using none go by (intro sim_write_not [where e = e, OF handle_writesD(5) [OF H] s])
      (auto simp: upd_same simp del: filter_mset_eq_mempty_iff)
qed

lemma create_ok:
  assumes H: "handle_writes live sc seen get upd H" and s: "seen (sqDB s) = (tables_of m, None)" and r: "scStamped sc r"
    and c: "\<And>n M. created sc how r (get (tables_of m)) n M \<Longrightarrow>
       tables_of m' = upd (\<lambda>_. M) (tables_of m) \<and> (\<forall>s. go n s = (Inr a, sql_told f s))"
    and some: "created sc how r (get (tables_of m)) n M"
    and same: "same a b" and ev: "emitted m' = emitted m @ es" "mset (f (sqWatcher s)) = mset es"
  shows "sim live seen same s m (after (hCreate H how r (sqDB s)) s (\<lambda>e. Inl (failed e)) go) (Inr b, m')"
proof -
  have w: "writes seen get upd (sqDB s) (hCreate H how r (sqDB s)) (created sc how r (get (tables_of m)))"
    "live \<Longrightarrow> is_ok (fst (hCreate H how r (sqDB s)))"
    using handle_writesD(1,2) [OF H, of "sqDB s"] r some s by auto
  show ?thesis
    by (rule sim_write_ok [where es = es and f = f and a = a, OF w(1) s w(2)]) (assumption | rule c same ev)+
qed

lemma create_not:
  assumes H: "handle_writes live sc seen get upd H" and s: "seen (sqDB s) = (tables_of m, None)" and r: "scStamped sc r"
    and c: "\<And>n M. created sc how r (get (tables_of m)) n M \<Longrightarrow> M = get (tables_of m) \<and> (\<forall>s. go n s = (Inl e, s))"
  shows "sim live seen same s m (after (hCreate H how r (sqDB s)) s (\<lambda>e. Inl (failed e)) go) (Inl e', m)"
proof -
  have w: "writes seen get upd (sqDB s) (hCreate H how r (sqDB s)) (created sc how r (get (tables_of m)))"
    using handle_writesD(1) [OF H] r s by simp
  show ?thesis by (rule sim_write_not [where e = e, OF w s]) (use c upd_same in blast)
qed

lemma find_of:
  assumes "handle_reads live sc seen get H" "seen x = (tables_of m, t)"
  shows "hFind H ts ord x = Inr rs \<Longrightarrow> mset rs = filter_mset (row_matches sc ts) (get (tables_of m)) \<and> in_order sc ord rs"
    and "live \<Longrightarrow> is_ok (hFind H ts ord x)"
proof -
  have *: "case hFind H ts ord x of Inl e \<Rightarrow> \<not> live
      | Inr rs \<Rightarrow> mset rs = filter_mset (row_matches sc ts) (get (fst (seen x))) \<and> in_order sc ord rs"
    using assms(1) unfolding handle_reads_def by blast
  show "hFind H ts ord x = Inr rs \<Longrightarrow> mset rs = filter_mset (row_matches sc ts) (get (tables_of m)) \<and> in_order sc ord rs"
    using * assms(2) by simp
  show "live \<Longrightarrow> is_ok (hFind H ts ord x)" using * by (cases "hFind H ts ord x") auto
qed

lemma count_of:
  assumes "handle_reads live sc seen get H" "seen x = (tables_of m, t)"
  shows "case hCount H ts x of Inl e \<Rightarrow> \<not> live | Inr n \<Rightarrow> n = size (filter_mset (row_matches sc ts) (get (tables_of m)))"
proof -
  have "case hCount H ts x of Inl e \<Rightarrow> \<not> live | Inr n \<Rightarrow> n = size (filter_mset (row_matches sc ts) (get (fst (seen x))))"
    using assms(1) unfolding handle_reads_def by blast
  then show ?thesis unfolding assms(2) fst_conv .
qed

text \<open>A lookup that at most one row matches.\<close>

lemma first_of:
  assumes H: "handle_reads live sc seen get H" and x: "seen x = (tables_of m, t)"
    and v: "filter_mset (row_matches sc ts) (get (tables_of m)) = (case v of None \<Rightarrow> {#} | Some r \<Rightarrow> {#r#})"
  shows "hFirst H ts x = Inr w \<Longrightarrow> w = v" and "live \<Longrightarrow> is_ok (hFirst H ts x)"
proof -
  have *: "case hFirst H ts x of Inl e \<Rightarrow> \<not> live
      | Inr None \<Rightarrow> filter_mset (row_matches sc ts) (get (fst (seen x))) = {#}
      | Inr (Some r) \<Rightarrow> r \<in># filter_mset (row_matches sc ts) (get (fst (seen x)))"
    using H unfolding handle_reads_def by blast
  have x': "fst (seen x) = tables_of m" using x by simp
  show "hFirst H ts x = Inr w \<Longrightarrow> w = v" using * unfolding x' v by (auto split: option.splits)
  show "live \<Longrightarrow> is_ok (hFirst H ts x)" using * by (cases "hFirst H ts x") auto
qed

text \<open>Statements that name a row by its key.\<close>

lemma keyed_hit:
  assumes "sql_ok m" "\<And>r. row_matches sc ts r \<longleftrightarrow> kf r = k \<and> P r" "map_of (rows m) k = Some v" "P v"
  shows "filter_mset (row_matches sc ts) (get (tables_of m)) = {#v#}"
    and "set_where sc ts sets (get (tables_of m)) = mset (map snd (AList.update k (row_set sc sets v) (rows m)))"
proof -
  note ok = table [OF assms(1)]
  have v: "x = v" if "x \<in># get (tables_of m)" "kf x = k" for x
    using that table_rows [OF ok] assms(3) unfolding stored by auto
  have "filter_mset (row_matches sc ts) (get (tables_of m)) = filter_mset (\<lambda>r. kf r = k) (get (tables_of m))"
    using v assms(2,4) by (intro filter_mset_cong) auto
  then show "filter_mset (row_matches sc ts) (get (tables_of m)) = {#v#}"
    using keyed_rows [OF ok, of k] assms(3) by (simp add: stored)
  have "set_where sc ts sets (get (tables_of m)) = image_mset (\<lambda>x. if kf x = k then row_set sc sets v else x) (get (tables_of m))"
    unfolding set_where_def using v assms(2,4) by (intro image_mset_cong) auto
  then show "set_where sc ts sets (get (tables_of m)) = mset (map snd (AList.update k (row_set sc sets v) (rows m)))"
    using rows_change [OF ok assms(3)] by (simp add: stored)
qed

lemma keyed_miss:
  assumes "sql_ok m" "\<And>r. row_matches sc ts r \<longleftrightarrow> kf r = k \<and> P r" "\<And>v. map_of (rows m) k = Some v \<Longrightarrow> \<not> P v"
  shows "filter_mset (row_matches sc ts) (get (tables_of m)) = {#}"
  using assms table_rows [OF table [OF assms(1)]] unfolding stored by auto

lemma puts_fit: "list_all (\<lambda>(c, a). \<exists>x. a = Put x) sets \<Longrightarrow> list_all (assign_fits sc r) sets"
  by (induction sets) auto

lemma update_keyed:
  assumes H: "handle_writes live sc seen get upd H" and s: "seen (sqDB s) = (tables_of m, None)" and ok: "sql_ok m"
    and put: "list_all (\<lambda>(c, a). \<exists>x. a = Put x) sets"
    and ts: "\<And>r. row_matches sc ts r \<longleftrightarrow> kf r = k \<and> P r" and v: "map_of (rows m) k = Some v" "P v"
    and m': "tables_of m' = upd (\<lambda>_. mset (map snd (AList.update k (row_set sc sets v) (rows m)))) (tables_of m)"
      "get (tables_of m') = mset (map snd (AList.update k (row_set sc sets v) (rows m)))" "sql_ok m'"
    and go: "\<And>s. go 1 s = (Inr a, sql_told f s)"
    and same: "same a b" and ev: "emitted m' = emitted m @ es" "mset (f (sqWatcher s)) = mset es"
  shows "sim live seen same s m (after (hUpdate H ts sets (sqDB s)) s (\<lambda>e. Inl (failed e)) go) (Inr b, m')"
proof (rule update_ok [where a = a and f = f and es = es, OF H s])
  note hit = keyed_hit [OF ok ts v]
  show "\<forall>r \<in># get (tables_of m). row_matches sc ts r \<longrightarrow> list_all (assign_fits sc r) sets"
    using puts_fit [OF put] by blast
  show "sql_ok m'" "same a b" "emitted m' = emitted m @ es" "mset (f (sqWatcher s)) = mset es" by (fact m'(3) same ev)+
  show "tables_of m' = upd (\<lambda>_. set_where sc ts sets (get (tables_of m))) (tables_of m)"
    "get (tables_of m') = set_where sc ts sets (get (tables_of m))"
    using m' hit(2) by simp_all
  show "go (size (filter_mset (row_matches sc ts) (get (tables_of m)))) s = (Inr a, sql_told f s)" for s
    unfolding hit(1) using go by simp
qed

lemma update_missed:
  assumes H: "handle_writes live sc seen get upd H" and s: "seen (sqDB s) = (tables_of m, None)" and ok: "sql_ok m"
    and put: "list_all (\<lambda>(c, a). \<exists>x. a = Put x) sets"
    and ts: "\<And>r. row_matches sc ts r \<longleftrightarrow> kf r = k \<and> P r" and v: "\<And>v. map_of (rows m) k = Some v \<Longrightarrow> \<not> P v"
    and go: "\<And>s. go 0 s = (Inl e, s)"
  shows "sim live seen same s m (after (hUpdate H ts sets (sqDB s)) s (\<lambda>e. Inl (failed e)) go) (Inl e', m)"
proof (rule update_not [OF H s])
  show "\<forall>r \<in># get (tables_of m). row_matches sc ts r \<longrightarrow> list_all (assign_fits sc r) sets"
    using puts_fit [OF put] by blast
qed (use keyed_miss [OF ok ts v] go in blast)

lemma lookup_keyed:
  assumes "sql_ok m" "\<And>r. row_matches sc ts r \<longleftrightarrow> kf r = k"
  shows "filter_mset (row_matches sc ts) (get (tables_of m)) = (case map_of (rows m) k of None \<Rightarrow> {#} | Some v \<Rightarrow> {#v#})"
proof -
  have "row_matches sc ts = (\<lambda>r. kf r = k)" using assms(2) by blast
  then show ?thesis using keyed_rows [OF table [OF assms(1)], of k] by (simp add: stored)
qed

end

section \<open>The five tables\<close>

lemma sql_okD: "sql_ok m \<Longrightarrow> store_ok m"
  by (simp add: sql_ok_def)

lemma sql_ok_devices:
  assumes "sql_ok m"
  shows "table_ok key (\<lambda>d. Some (devPublicKey d)) (db m)"
proof (rule table_okI)
  have ok: "db_ok (db m)" using assms by (simp add: sql_ok_def store_ok_def)
  show "amap_ok (db m)" "\<And>k v. (k, v) \<in> set (db m) \<Longrightarrow> k = key v" using table_okD(1,2) [OF ok] by auto
  fix k v j w
  assume "(k, v) \<in> set (db m)" "(j, w) \<in> set (db m)" "Some (devPublicKey v) = Some (devPublicKey w)"
  moreover from this have "devPublicKey v \<noteq> []" using assms by (auto simp: sql_ok_def)
  ultimately show "k = j" using pub_unique [OF ok, of k v j w] by simp
qed

lemmas cell_simps = cell_of_def put_cell_def schema_defs column_defs

interpretation sqlDev: stored_table device_schema tDevices tDevices_update db key "\<lambda>d. Some (devPublicKey d)"
proof unfold_locales
  show "sql_ok m \<Longrightarrow> table_ok key (\<lambda>d. Some (devPublicKey d)) (db m)" for m by (rule sql_ok_devices)
  show "primary device_schema r = primary device_schema x \<longleftrightarrow> key r = key x" for r x
    by (simp add: primary_def cell_simps key_def)
  then show "collide device_schema r x \<longleftrightarrow> key r = key x \<or> Some (devPublicKey r) \<noteq> None \<and> Some (devPublicKey r) = Some (devPublicKey x)" for r x
    by (simp add: collide_def) (simp add: cell_simps)
qed (simp_all add: tables_of_def)

interpretation sqlUsr: stored_table user_schema tUsers tUsers_update users usrSubject "\<lambda>_. None :: unit option"
proof unfold_locales
  show "sql_ok m \<Longrightarrow> table_ok usrSubject (\<lambda>_. None :: unit option) (users m)" for m
    by (rule store_okD(2) [OF sql_okD])
  show "primary user_schema r = primary user_schema x \<longleftrightarrow> usrSubject r = usrSubject x" for r x
    by (simp add: primary_def cell_simps)
  then show "collide user_schema r x \<longleftrightarrow> usrSubject r = usrSubject x \<or> (None :: unit option) \<noteq> None \<and> (None :: unit option) = None" for r x
    by (simp add: collide_def) (simp add: cell_simps)
qed (simp_all add: tables_of_def)

interpretation sqlTok: stored_table token_schema tTokens tTokens_update tokens tokID "\<lambda>t. Some (tokHash t)"
proof unfold_locales
  show "sql_ok m \<Longrightarrow> table_ok tokID (\<lambda>t. Some (tokHash t)) (tokens m)" for m
    by (rule store_okD(4) [OF sql_okD])
  show "primary token_schema r = primary token_schema x \<longleftrightarrow> tokID r = tokID x" for r x
    by (simp add: primary_def cell_simps)
  then show "collide token_schema r x \<longleftrightarrow> tokID r = tokID x \<or> Some (tokHash r) \<noteq> None \<and> Some (tokHash r) = Some (tokHash x)" for r x
    by (simp add: collide_def) (simp add: cell_simps)
qed (simp_all add: tables_of_def)

interpretation sqlSes: stored_table session_schema tSessions tSessions_update sessions sesID "\<lambda>x. Some (sesHash x)"
proof unfold_locales
  show "sql_ok m \<Longrightarrow> table_ok sesID (\<lambda>x. Some (sesHash x)) (sessions m)" for m
    by (rule store_okD(5) [OF sql_okD])
  show "primary session_schema r = primary session_schema x \<longleftrightarrow> sesID r = sesID x" for r x
    by (simp add: primary_def cell_simps)
  then show "collide session_schema r x \<longleftrightarrow> sesID r = sesID x \<or> Some (sesHash r) \<noteq> None \<and> Some (sesHash r) = Some (sesHash x)" for r x
    by (simp add: collide_def) (simp add: cell_simps)
qed (simp_all add: tables_of_def)

interpretation sqlPk: stored_table passkey_schema tPasskeys tPasskeys_update passkeys pkID "\<lambda>_. None :: unit option"
proof unfold_locales
  show "sql_ok m \<Longrightarrow> table_ok pkID (\<lambda>_. None :: unit option) (passkeys m)" for m
    by (rule store_okD(3) [OF sql_okD])
  show "primary passkey_schema r = primary passkey_schema x \<longleftrightarrow> pkID r = pkID x" for r x
    by (simp add: primary_def cell_simps)
  then show "collide passkey_schema r x \<longleftrightarrow> pkID r = pkID x \<or> (None :: unit option) \<noteq> None \<and> (None :: unit option) = None" for r x
    by (simp add: collide_def) (simp add: cell_simps)
qed (simp_all add: tables_of_def)

end
