(* ===== verification/Sql_Devices.thy ===== *)
theory Sql_Devices
  imports Sql_Tables
begin

text \<open>
  The methods of the SQL storage on devices simulate those of the in-memory storage.  Where the two differ, a hypothesis says
  so: a device is given as it is stored, since SQL answers with the device it was given, and a name is not in use.
\<close>

section \<open>Rows of devices\<close>

lemma db_lawsD:
  assumes "db_laws live seen G"
  shows "handle_reads live device_schema seen tDevices (qDevices G)"
    "handle_writes live device_schema seen tDevices tDevices_update (qDevices G)"
    "handle_reads live user_schema seen tUsers (qUsers G)"
    "handle_writes live user_schema seen tUsers tUsers_update (qUsers G)"
    "handle_reads live token_schema seen tTokens (qTokens G)"
    "handle_writes live token_schema seen tTokens tTokens_update (qTokens G)"
    "handle_reads live session_schema seen tSessions (qSessions G)"
    "handle_writes live session_schema seen tSessions tSessions_update (qSessions G)"
    "handle_reads live passkey_schema seen tPasskeys (qPasskeys G)"
    "handle_writes live passkey_schema seen tPasskeys tPasskeys_update (qPasskeys G)"
    "transactions_ok live seen G"
  using assms by (simp_all add: db_laws_def)

lemma device_named_matches: "row_matches device_schema (device_named owner name) d \<longleftrightarrow> key d = (owner, name) \<and> True"
  by (simp add: row_matches_def device_named_def cell_simps key_def)

lemma device_row_set:
  "row_set device_schema [(''name'', Put (CText n))] d = d\<lparr>devName := n\<rparr>"
  "row_set device_schema [(''disabled'', Put (CBool b)), (''expires_at'', Put (CTime t))] d = d\<lparr>devDisabled := b, devExpiresAt := t\<rparr>"
  "row_set device_schema [(''disabled'', Put (CBool b))] d = d\<lparr>devDisabled := b\<rparr>"
  "row_set device_schema [(''routes'', Put (CText r))] d = d\<lparr>devRoutes := r\<rparr>"
  "row_set device_schema [(''public_key'', Put (CText p)), (''preshared_key'', Put (CText q))] d = d\<lparr>devPublicKey := p, devPresharedKey := q\<rparr>"
  by (simp_all add: row_set_def cell_simps)

text \<open>A device as the caller knows it: as it is stored, if it is.\<close>

definition current_device :: "device \<Rightarrow> memory \<Rightarrow> bool" where
  "current_device d m = (case map_of (db m) (key d) of None \<Rightarrow> True | Some stored \<Rightarrow> stored = d)"

lemma sql_ok_db:
  assumes "sql_ok m" "store_ok m'" "\<And>k d. (k, d) \<in> set (db m') \<Longrightarrow> devPublicKey d \<noteq> [] \<and> k \<noteq> ([], [])"
  shows "sql_ok m'"
  using assms by (auto simp: sql_ok_def)

lemma sql_ok_same: "sql_ok m \<Longrightarrow> store_ok m' \<Longrightarrow> db m' = db m \<Longrightarrow> sql_ok m'"
  by (auto simp: sql_ok_def)

lemma sql_ok_put:
  assumes "sql_ok m" "store_ok m'" "db m' = AList.update k d (db m)" "devPublicKey d \<noteq> []" "k \<noteq> ([], [])"
  shows "sql_ok m'"
proof (rule sql_ok_db [OF assms(1,2)])
  fix j e
  assume "(j, e) \<in> set (db m')"
  moreover have "amap_ok (db m)" using assms(1) by (simp add: sql_ok_def store_ok_def table_ok_def)
  ultimately show "devPublicKey e \<noteq> [] \<and> j \<noteq> ([], [])"
    using assms by (auto simp: mem_update_iff sql_ok_def split: if_splits)
qed

lemma tables_of_simps [simp]:
  "tables_of (m\<lparr>db := x\<rparr>) = tDevices_update (\<lambda>_. mset (map snd x)) (tables_of m)"
  "tables_of (m\<lparr>users := u\<rparr>) = tUsers_update (\<lambda>_. mset (map snd u)) (tables_of m)"
  "tables_of (m\<lparr>tokens := t\<rparr>) = tTokens_update (\<lambda>_. mset (map snd t)) (tables_of m)"
  "tables_of (m\<lparr>sessions := y\<rparr>) = tSessions_update (\<lambda>_. mset (map snd y)) (tables_of m)"
  "tables_of (m\<lparr>passkeys := p\<rparr>) = tPasskeys_update (\<lambda>_. mset (map snd p)) (tables_of m)"
  "tables_of (emit es m) = tables_of m"
  by (simp_all add: tables_of_def emit_def)

section \<open>One device\<close>

lemma device_change:
  assumes laws: "db_laws live seen G" and s: "seen (sqDB s) = (tables_of m, None)" and ok: "sql_ok m" and w: "sqWatcher s = GormWatcher"
    and put: "list_all (\<lambda>(c, a). \<exists>x. a = Put x) sets" and d: "map_of (db m) (key d) = Some d"
    and c: "c = row_set device_schema sets d"
    and m': "m' = emit [Updated c] (m\<lparr>db := AList.update (key d) c (db m)\<rparr>)" "sql_ok m'"
    and go: "\<And>s. go 1 s = (Inr c, sql_told (\<lambda>w. EmitUpdate w c) s)"
  shows "sim live seen (=) s m
     (after (hUpdate (qDevices G) (device_named (devOwner d) (devName d)) sets (sqDB s)) s (\<lambda>e. Inl (failed e)) go) (Inr c, m')"
proof -
  have k: "key d = (devOwner d, devName d)" by (simp add: key_def)
  show ?thesis
    by (rule sqlDev.update_keyed [where a = c and f = "\<lambda>w. EmitUpdate w c" and es = "[Updated c]" and k = "key d" and v = d
          and P = "\<lambda>_. True", OF db_lawsD(2) [OF laws] s ok put])
      (simp_all add: m'(1) m'(2) [unfolded m'(1)] go [unfolded EmitUpdate_def, simplified] c [symmetric] EmitUpdate_def w d
        device_named_matches k [symmetric])
qed

lemma device_gone:
  assumes laws: "db_laws live seen G" and s: "seen (sqDB s) = (tables_of m, None)" and ok: "sql_ok m"
    and put: "list_all (\<lambda>(c, a). \<exists>x. a = Put x) sets" and d: "map_of (db m) (key d) = None"
    and go: "\<And>s. go 0 s = (Inl (no_longer d), s)"
  shows "sim live seen same s m
     (after (hUpdate (qDevices G) (device_named (devOwner d) (devName d)) sets (sqDB s)) s (\<lambda>e. Inl (failed e)) go) (Inl e', m)"
  by (rule sqlDev.update_missed [where k = "key d" and P = "\<lambda>_. True", OF db_lawsD(2) [OF laws] s ok put])
    (simp_all add: device_named_matches key_def d [unfolded key_def] go)

lemma sim_SetAccess:
  assumes "db_laws live seen G" "seen (sqDB s) = (tables_of m, None)" "sql_ok m" "sqWatcher s = GormWatcher" "current_device d m"
  shows "sim live seen (=) s m (sql_SetAccess G d b t s) (SetAccess d b t m) \<and> sql_ok (snd (SetAccess d b t m))"
proof (cases "map_of (db m) (key d)")
  case None
  then show ?thesis
    unfolding sql_SetAccess_def using assms by (auto simp: SetAccess_def Let_def intro!: device_gone)
next
  case (Some x)
  then have d: "map_of (db m) (key d) = Some d" using assms(5) by (simp add: current_device_def)
  have ok: "sql_ok (snd (SetAccess d b t m))"
    using assms(3) d store_ok_SetAccess [OF sql_okD [OF assms(3)], of d b t]
    by (intro sql_ok_put [OF assms(3)]) (auto simp: SetAccess_def Let_def sql_ok_def dest!: map_of_SomeD)
  show ?thesis
    unfolding sql_SetAccess_def
    using device_change [OF assms(1-4) _ d device_row_set(2) [symmetric], of b t] ok d by (simp add: SetAccess_def Let_def)
qed

lemma sim_SetRoutes:
  assumes "db_laws live seen G" "seen (sqDB s) = (tables_of m, None)" "sql_ok m" "sqWatcher s = GormWatcher" "current_device d m"
  shows "sim live seen (=) s m (sql_SetRoutes G d r s) (SetRoutes d r m) \<and> sql_ok (snd (SetRoutes d r m))"
proof (cases "map_of (db m) (key d)")
  case None
  then show ?thesis
    unfolding sql_SetRoutes_def using assms by (auto simp: SetRoutes_def Let_def intro!: device_gone)
next
  case (Some x)
  then have d: "map_of (db m) (key d) = Some d" using assms(5) by (simp add: current_device_def)
  have ok: "sql_ok (snd (SetRoutes d r m))"
    using assms(3) d store_ok_SetRoutes [OF sql_okD [OF assms(3)], of d r]
    by (intro sql_ok_put [OF assms(3)]) (auto simp: SetRoutes_def Let_def sql_ok_def dest!: map_of_SomeD)
  show ?thesis
    unfolding sql_SetRoutes_def
    using device_change [OF assms(1-4) _ d device_row_set(4) [symmetric], of r] ok d by (simp add: SetRoutes_def Let_def)
qed

text \<open>A key in use is refused on both sides: here by a check, there by the unique index.\<close>

lemma sim_SetKeys:
  assumes "db_laws live seen G" "seen (sqDB s) = (tables_of m, None)" "sql_ok m" "sqWatcher s = GormWatcher" "current_device d m"
    and p: "p \<noteq> []"
  shows "sim live seen (=) s m (sql_SetKeys G d p q s) (SetKeys d p q m) \<and> sql_ok (snd (SetKeys d p q m))"
proof (cases "map_of (db m) (key d)")
  case None
  then show ?thesis
    unfolding sql_SetKeys_def using assms by (auto simp: SetKeys_def Let_def intro!: device_gone)
next
  case (Some x)
  then have d: "map_of (db m) (key d) = Some d" using assms(5) by (simp add: current_device_def)
  let ?c = "d\<lparr>devPublicKey := p, devPresharedKey := q\<rparr>"
  show ?thesis
  proof (cases "list_ex (\<lambda>(k, other). devPublicKey other = p \<and> k \<noteq> key d) (db m)")
    case False
    have ok: "sql_ok (snd (SetKeys d p q m))"
      using assms(3) d False p store_ok_SetKeys [OF sql_okD [OF assms(3)], of d p q]
      by (intro sql_ok_put [OF assms(3)]) (auto simp: SetKeys_def Let_def sql_ok_def dest!: map_of_SomeD)
    show ?thesis
      unfolding sql_SetKeys_def
      using device_change [OF assms(1-4) _ d device_row_set(5) [symmetric], of p q] ok d False by (simp add: SetKeys_def Let_def)
  next
    case True
    then obtain k e where e: "(k, e) \<in> set (db m)" "devPublicKey e = p" "k \<noteq> key d" by (auto simp: list_ex_iff)
    let ?M = "set_where device_schema (device_named (devOwner d) (devName d))
      [(''public_key'', Put (CText p)), (''preshared_key'', Put (CText q))] (tDevices (tables_of m))"
    have M: "?M = mset (map snd (AList.update (key d) ?c (db m)))"
      using sqlDev.keyed_hit(2) [OF assms(3) _ d, of "device_named (devOwner d) (devName d)" "\<lambda>_. True"]
      by (simp add: device_named_matches key_def device_row_set)
    note ok = sqlDev.table [OF assms(3)]
    have "?c \<in># ?M" "e \<in># ?M - {#?c#}"
    proof -
      have "key e \<noteq> key ?c" using e table_okD(2) [OF ok] by auto
      moreover have "(key d, ?c) \<in> set (AList.update (key d) ?c (db m))" "(k, e) \<in> set (AList.update (key d) ?c (db m))"
        using e table_okD(1) [OF ok] by (auto simp: mem_update_iff)
      ultimately show "?c \<in># ?M" "e \<in># ?M - {#?c#}"
        unfolding M by (force simp: in_diff_count image_iff)+
    qed
    moreover have "collide device_schema ?c e" using e(2) by (simp add: sqlDev.collides)
    ultimately have "\<not> rows_ok device_schema ?M" unfolding rows_ok_def by blast
    then show ?thesis
      unfolding sql_SetKeys_def using d True assms(3)
      by (auto simp: SetKeys_def intro!: sqlDev.update_not [OF db_lawsD(2) [OF assms(1)] assms(2)])
  qed
qed

lemma sim_Rename:
  assumes "db_laws live seen G" "seen (sqDB s) = (tables_of m, None)" "sql_ok m" "sqWatcher s = GormWatcher" "current_device d m"
    and n: "n \<noteq> []" "n = devName d \<or> map_of (db m) (devOwner d, n) = None"
  shows "sim live seen (=) s m (sql_Rename G d n s) (Rename d n m) \<and> sql_ok (snd (Rename d n m))"
proof (cases "map_of (db m) (key d)")
  case None
  then show ?thesis
    unfolding sql_Rename_def using assms by (auto simp: Rename_def Let_def intro!: device_gone)
next
  case (Some x)
  then have d: "map_of (db m) (key d) = Some d" using assms(5) by (simp add: current_device_def)
  let ?c = "d\<lparr>devName := n\<rparr>"
  note ok = sqlDev.table [OF assms(3)]
  have pub: "devPublicKey d \<noteq> []" using d assms(3) by (auto simp: sql_ok_def dest!: map_of_SomeD)
  have ok': "sql_ok (snd (Rename d n m))"
  proof (rule sql_ok_db [OF assms(3) store_ok_Rename [OF sql_okD [OF assms(3)]]])
    fix k e
    assume "(k, e) \<in> set (db (snd (Rename d n m)))"
    then show "devPublicKey e \<noteq> [] \<and> k \<noteq> ([], [])"
      using d n pub assms(3) table_okD(1) [OF ok]
      by (auto simp: Rename_def Let_def sql_ok_def mem_update_iff amap_ok_delete mem_delete_iff split: if_splits)
  qed
  have rows: "mset (map snd (AList.update (devOwner d, n) ?c (AList.delete (key d) (db m))))
    = mset (map snd (AList.update (key d) ?c (db m)))"
  proof -
    have "map_of (AList.delete (key d) (db m)) (devOwner d, n) = None"
      using n(2) by (auto simp: delete_conv' key_def)
    then have "mset (map snd (AList.update (devOwner d, n) ?c (AList.delete (key d) (db m)))) =
      add_mset ?c (filter_mset (\<lambda>x. key x \<noteq> key d) (mset (map snd (db m))))"
      using rows_new rows_drop [OF ok] by metis
    then show ?thesis using rows_replaced [OF ok d, of ?c] by simp
  qed
  have "sim live seen (=) s m (sql_Rename G d n s) (Inr ?c, snd (Rename d n m))"
    unfolding sql_Rename_def
    by (rule sqlDev.update_keyed [where a = ?c and f = "\<lambda>w. EmitUpdate w ?c" and es = "[Updated ?c]" and k = "key d" and v = d
          and P = "\<lambda>_. True", OF db_lawsD(2) [OF assms(1)] assms(2,3)])
      (use ok' d rows in \<open>simp_all add: Rename_def Let_def EmitUpdate_def assms(4) device_named_matches key_def device_row_set\<close>)
  then show ?thesis using ok' d by (simp add: Rename_def Let_def)
qed

lemma sim_Save:
  assumes "db_laws live seen G" "seen (sqDB s) = (tables_of m, None)" "sql_ok m" "sqWatcher s = GormWatcher"
    and d: "map_of (db m) (key d) = None" "devPublicKey d \<noteq> []" "key d \<noteq> ([], [])" "devCreatedAt d \<noteq> zero_time"
  shows "sim live seen (=) s m (sql_Save G d s) (Save d m) \<and> sql_ok (snd (Save d m))"
proof -
  note ok = sqlDev.table [OF assms(3)]
  have none: "filter_mset (row_matches device_schema (device_named (devOwner d) (devName d))) (tDevices (tables_of m)) = {#}"
    by (rule sqlDev.keyed_miss [where k = "key d" and P = "\<lambda>_. True", OF assms(3)]) (simp_all add: device_named_matches key_def d [unfolded key_def])
  have count: "case hCount (qDevices G) (device_named (devOwner d) (devName d)) (sqDB s) of Inl e \<Rightarrow> \<not> live | Inr n \<Rightarrow> n = 0"
    using sqlDev.count_of [OF db_lawsD(1) [OF assms(1)] assms(2), of "device_named (devOwner d) (devName d)"] unfolding none size_empty .
  have ok': "sql_ok (snd (Save d m))"
  proof (cases "fst (Save d m) = Inr ()")
    case True
    then show ?thesis
      using store_ok_Save [OF sql_okD [OF assms(3)], of d] d
      by (intro sql_ok_put [OF assms(3)]) (auto simp: Save_def split: if_splits)
  next
    case False
    then show ?thesis using assms(3) by (auto simp: Save_def split: if_splits)
  qed
  let ?taken = "list_ex (\<lambda>(k, e). devPublicKey e = devPublicKey d \<and> k \<noteq> key d) (db m)"
  have taken: "?taken \<longleftrightarrow> (\<exists>x \<in># tDevices (tables_of m). collide device_schema d x)"
  proof -
    have "map_of (db m) (key x) = Some x" if "x \<in># tDevices (tables_of m)" for x
      using that table_rows [OF ok] unfolding sqlDev.stored by blast
    then have "key d \<noteq> key x" if "x \<in># tDevices (tables_of m)" for x using that d(1) by (metis option.distinct(1))
    then have "(\<exists>x \<in># tDevices (tables_of m). collide device_schema d x) \<longleftrightarrow>
      (\<exists>x \<in># tDevices (tables_of m). devPublicKey d = devPublicKey x)" by (auto simp: sqlDev.collides)
    also have "\<dots> \<longleftrightarrow> ?taken"
      using d(1) by (force simp: sqlDev.stored list_ex_iff map_of_eq_None_iff eq_commute [of "devPublicKey d"])
    finally show ?thesis by simp
  qed
  have stamped: "scStamped device_schema d" using d(4) by (simp add: schema_defs)
  let ?go = "\<lambda>n s. (Inr (), sql_told (\<lambda>w. gorm_hook w False (Added d) @ EmitAdd w d) s)"
  have "sim live seen (=) s m
    (after (hCreate (qDevices G) Refuse d (sqDB s)) s (\<lambda>e. Inl (wrap_err ''failed to write device'' e)) ?go) (Save d m)"
  proof (cases ?taken)
    case True
    then have "\<not> created device_schema Refuse d (tDevices (tables_of m)) n M" for n M
      using taken by (auto simp: created_def)
    then show ?thesis
      using True d(2) sqlDev.create_not [OF db_lawsD(2) [OF assms(1)] assms(2) stamped, of Refuse] by (simp add: Save_def)
  next
    case False
    then have c: "created device_schema Refuse d (tDevices (tables_of m)) n M \<longleftrightarrow> M = add_mset d (tDevices (tables_of m))" for n M
      using taken by (auto simp: created_def)
    have "Save d m = (Inr (), emit [Added d] (m\<lparr>db := AList.update (key d) d (db m)\<rparr>))"
      using False by (simp add: Save_def)
    moreover have "image_mset snd (mset (AList.update (key d) d (db m))) = add_mset d (tDevices (tables_of m))"
      using rows_new [OF d(1), of d] by (simp add: sqlDev.stored)
    ultimately show ?thesis
      using assms(4)
      by (auto intro!: sqlDev.create_ok [where a = "()" and es = "[Added d]" and f = "\<lambda>w. gorm_hook w False (Added d) @ EmitAdd w d"
            and n = 0 and M = "add_mset d (tDevices (tables_of m))", OF db_lawsD(2) [OF assms(1)] assms(2) stamped]
          simp: c gorm_hook_def EmitAdd_def)
  qed
  then have "sim live seen (=) s m (sql_Save G d s) (Save d m)"
    unfolding sql_Save_def using count assms(2)
    by (cases "hCount (qDevices G) (device_named (devOwner d) (devName d)) (sqDB s)") (simp_all add: sim_def)
  then show ?thesis using ok' by blast
qed

text \<open>A delete is told twice, by the hook and by the storage: it is as if the in-memory storage told its events twice.\<close>

definition told_twice :: "memory \<Rightarrow> 'b \<times> memory \<Rightarrow> 'b \<times> memory" where
  "told_twice m p = (fst p, (snd p)\<lparr>emitted := emitted (snd p) @ drop (length (emitted m)) (emitted (snd p))\<rparr>)"

lemma tables_of_emitted [simp]: "tables_of (m\<lparr>emitted := es\<rparr>) = tables_of m"
  by (simp add: tables_of_def)

lemma sim_Delete:
  assumes "db_laws live seen G" "seen (sqDB s) = (tables_of m, None)" "sql_ok m" "sqWatcher s = GormWatcher" and k: "key d \<noteq> ([], [])"
  shows "sim live seen (=) s m (sql_Delete G d s) (told_twice m (Delete d m)) \<and> sql_ok (snd (Delete d m))"
proof -
  have s: "fst (seen (sqDB s)) = tables_of m" using assms(2) by simp
  note w = handle_writesD(7,8) [OF db_lawsD(2) [OF assms(1)] s, of d]
  have rows: "mset (map snd (AList.delete (key d) (db m))) = filter_mset (\<lambda>y. primary device_schema y \<noteq> primary device_schema d) (tDevices (tables_of m))"
    using rows_drop [OF sqlDev.table [OF assms(3)], of "key d"] by (simp add: sqlDev.stored sqlDev.primary)
  have "\<exists>c \<in> set (primary device_schema d). c \<noteq> Some (CText [])"
    using k by (auto simp: primary_def cell_simps key_def)
  then have "sim live seen (=) s m (sql_Delete G d s) (Inr (), snd (told_twice m (Delete d m)))"
    unfolding sql_Delete_def
    using w rows assms(4)
    by (intro sim_write_ok [where a = "()" and es = "[Deleted d, Deleted d]" and f = "\<lambda>w. gorm_hook w False (Deleted d) @ EmitDelete w d", OF w(1) assms(2)])
      (auto simp: told_twice_def Delete_def gorm_hook_def EmitDelete_def)
  moreover have "sql_ok (snd (Delete d m))"
    using store_ok_Delete [OF sql_okD [OF assms(3)], of d] assms(3)
    by (intro sql_ok_db [OF assms(3)]) (auto simp: Delete_def mem_delete_iff sql_ok_def)
  ultimately show ?thesis by (simp add: told_twice_def Delete_def)
qed

section \<open>Reading devices\<close>

lemma sim_List:
  assumes "db_laws live seen G" "seen (sqDB s) = (tables_of m, None)"
  shows "sim live seen (\<lambda>ds es. mset ds = mset es) s m (sql_List G owner s, s) (Inr (List_devices owner m), m)"
proof (rule sim_read)
  show "seen (sqDB s) = (tables_of m, None)" by (rule assms(2))
  let ?ts = "if owner \<noteq> [] then [ColEq ''owner'' (CText owner)] else []"
  have m: "row_matches device_schema ?ts = (\<lambda>d. owner = [] \<or> devOwner d = owner)"
    by (auto simp: row_matches_def cell_simps fun_eq_iff)
  note f = sqlDev.find_of [OF db_lawsD(1) [OF assms(1)] assms(2), of ?ts Unordered]
  show "\<exists>b. Inr (List_devices owner m) = Inr b \<and> mset a = mset b" if "sql_List G owner s = Inr a" for a
    using that f(1) [of a] unfolding m
    by (auto simp: sql_List_def List_devices_def sqlDev.stored mset_filter split: sum.splits simp del: mset_map)
  show "live \<Longrightarrow> is_ok (sql_List G owner s) = is_ok (Inr (List_devices owner m))"
    using f(2) unfolding sql_List_def by (cases "hFind (qDevices G) ?ts Unordered (sqDB s)") auto
qed

lemma sim_Addresses:
  assumes "db_laws live seen G" "seen (sqDB s) = (tables_of m, None)"
  shows "sim live seen (\<lambda>xs ys. mset xs = mset ys) s m (sql_Addresses G s, s) (Inr (Addresses m), m)"
proof (rule sim_read)
  show "seen (sqDB s) = (tables_of m, None)" by (rule assms(2))
  have p: "case qPluckAddress G (sqDB s) of Inl e \<Rightarrow> \<not> live | Inr as \<Rightarrow> mset as = image_mset devAddress (tDevices (fst (seen (sqDB s))))"
    using assms(1) unfolding db_laws_def by blast
  have a: "mset (Addresses m) = image_mset devAddress (tDevices (fst (seen (sqDB s))))"
  proof -
    have "Addresses m = map devAddress (map snd (db m))" by (simp add: Addresses_def case_prod_beta)
    then show ?thesis using assms(2) by (simp add: tables_of_def image_mset.compositionality comp_def)
  qed
  show "\<exists>b. Inr (Addresses m) = Inr b \<and> mset x = mset b" if "sql_Addresses G s = Inr x" for x
    using that p a by (auto simp: sql_Addresses_def split: sum.splits)
  show "live \<Longrightarrow> is_ok (sql_Addresses G s) = is_ok (Inr (Addresses m))"
    using p by (auto simp: sql_Addresses_def split: sum.splits)
qed

text \<open>A lookup gives the row, or says that there is none.\<close>

definition looked_up :: "'a option \<Rightarrow> 'a res \<Rightarrow> bool" where
  "looked_up v r = (case v of None \<Rightarrow> \<not> is_ok r | Some x \<Rightarrow> r = Inr x)"

lemma sim_lookup:
  assumes "seen (sqDB s) = (tables_of m, None)" "looked_up v r'" "is_ok r \<Longrightarrow> looked_up v r" "live \<Longrightarrow> looked_up v r"
  shows "sim live seen (=) s m (r, s) (r', m)"
  using assms by (intro sim_read) (auto simp: looked_up_def split: option.splits)

lemma sim_Get:
  assumes "db_laws live seen G" "seen (sqDB s) = (tables_of m, None)" "sql_ok m"
  shows "sim live seen (=) s m (sql_Get G owner name s, s) (Get owner name m, m)"
proof -
  let ?v = "map_of (db m) (owner, name)"
  have "filter_mset (row_matches device_schema (device_named owner name)) (tDevices (tables_of m)) = (case ?v of None \<Rightarrow> {#} | Some v \<Rightarrow> {#v#})"
    by (rule sqlDev.lookup_keyed [OF assms(3)]) (simp add: device_named_matches)
  note f = sqlDev.first_of [OF db_lawsD(1) [OF assms(1)] assms(2) this]
  show ?thesis
    by (rule sim_lookup [where v = ?v], rule assms(2))
      (use f in \<open>auto simp: sql_Get_def Get_def sql_first_device_def looked_up_def split: sum.splits option.splits\<close>)
qed

lemma sim_GetByPublicKey:
  assumes "db_laws live seen G" "seen (sqDB s) = (tables_of m, None)" "sql_ok m"
  shows "sim live seen (=) s m (sql_GetByPublicKey G p s, s) (GetByPublicKey p m, m)"
proof -
  let ?v = "find (\<lambda>d. devPublicKey d = p) (map snd (db m))" and ?ts = "[ColEq ''public_key'' (CText p)]"
  have m: "row_matches device_schema ?ts = (\<lambda>d. devPublicKey d = p)"
    by (auto simp: row_matches_def cell_simps fun_eq_iff)
  have "filter_mset (row_matches device_schema ?ts) (tDevices (tables_of m)) = (case ?v of None \<Rightarrow> {#} | Some v \<Rightarrow> {#v#})"
    using indexed_rows [OF sqlDev.table [OF assms(3)], of p] unfolding m sqlDev.stored by simp
  note f = sqlDev.first_of [OF db_lawsD(1) [OF assms(1)] assms(2) this]
  have g: "GetByPublicKey p m = (case ?v of None \<Rightarrow> Inl (Err ''device doesn't exist'') | Some d \<Rightarrow> Inr d)"
    by (simp add: GetByPublicKey_def List_devices_def)
  show ?thesis unfolding g
    by (rule sim_lookup [where v = ?v], rule assms(2))
      (use f in \<open>auto simp: sql_GetByPublicKey_def sql_first_device_def looked_up_def split: sum.splits option.splits\<close>)
qed

end
