(* ===== verification/Sql_Batches.thy ===== *)
theory Sql_Batches
  imports Sql_Devices
begin

text \<open>
  The methods of the SQL storage that take several statements: each runs in a transaction, so that it happens as a whole or
  not at all.  They simulate the in-memory storage, which holds its mutex instead.
\<close>

section \<open>Transactions\<close>

lemma transaction_cases:
  assumes G: "transactions_ok live seen G" and x: "seen x = (T, None)"
    and f: "\<And>tx. seen tx = (T, Some T) \<Longrightarrow>
      (case f tx of (Inl e, tx') \<Rightarrow> \<not> live \<and> snd (seen tx') = Some T | (Inr a, tx') \<Rightarrow> P a \<and> seen tx' = (T', Some T))"
  shows "case transaction G f x of
      (Inl e, x') \<Rightarrow> \<not> live \<and> snd (seen x') = None \<and> (fst (seen x') = T \<or> fst (seen x') = T')
    | (Inr a, x') \<Rightarrow> P a \<and> seen x' = (T', None)"
proof -
  obtain r tx where b: "qBegin G x = (r, tx)" by fastforce
  have start: "case r of Inl e \<Rightarrow> \<not> live \<and> seen tx = seen x | Inr _ \<Rightarrow> seen tx = (fst (seen x), Some (fst (seen x)))"
    using G b unfolding transactions_ok_def by (metis (no_types, lifting) case_prod_conv)
  obtain q ty where fq: "f tx = (q, ty)" by fastforce
  obtain c tz where cz: "qCommit G ty = (c, tz)" by fastforce
  have commit: "case c of
      Inl e \<Rightarrow> \<not> live \<and> snd (seen tz) = None \<and> (fst (seen tz) = fst (seen ty) \<or> Some (fst (seen tz)) = snd (seen ty))
    | Inr _ \<Rightarrow> seen tz = (fst (seen ty), None)"
    using G cz unfolding transactions_ok_def by (metis (no_types, lifting) case_prod_conv)
  have rollback: "snd (seen ty) = Some t \<Longrightarrow> seen (qRollback G ty) = (t, None)" for t
    using G unfolding transactions_ok_def by blast
  show ?thesis
  proof (cases r)
    case (Inl e)
    then show ?thesis using b start x by (simp add: transaction_def)
  next
    case (Inr u)
    then have tx: "seen tx = (T, Some T)" using start x by simp
    note run = f [OF tx, unfolded fq]
    show ?thesis
    proof (cases q)
      case (Inl e)
      then have "seen (qRollback G ty) = (T, None)" "\<not> live" using run rollback [of T] by simp_all
      then show ?thesis using b Inr fq Inl by (simp add: transaction_def)
    next
      case Inr': (Inr a)
      then show ?thesis using run b Inr fq cz commit by (auto simp: transaction_def split: sum.splits)
    qed
  qed
qed

lemma sim_transaction:
  assumes t: "case q of
      (Inl e, x') \<Rightarrow> \<not> live \<and> snd (seen x') = None \<and> (fst (seen x') = tables_of m \<or> fst (seen x') = tables_of m')
    | (Inr a, x') \<Rightarrow> P a \<and> seen x' = (tables_of m', None)"
    and go: "\<And>e x. q = (Inl e, x) \<Longrightarrow> \<exists>e'. p = (Inl e', s\<lparr>sqDB := x\<rparr>)"
      "\<And>a x. q = (Inr a, x) \<Longrightarrow> P a \<Longrightarrow> \<exists>a'. p = (Inr a', sql_told (f a) (s\<lparr>sqDB := x\<rparr>)) \<and> same a' b
        \<and> (\<exists>es. emitted m' = emitted m @ es \<and> mset (f a (sqWatcher s)) = mset es)"
  shows "sim live seen same s m p (Inr b, m')"
proof (cases q)
  case (Pair r x)
  show ?thesis
  proof (cases r)
    case (Inl e)
    then obtain e' where "p = (Inl e', s\<lparr>sqDB := x\<rparr>)" using go(1) Pair by blast
    then show ?thesis using t Pair Inl by (simp add: sim_def)
  next
    case (Inr a)
    then have "P a" "seen x = (tables_of m', None)" using t Pair by simp_all
    moreover from this obtain a' es where "p = (Inr a', sql_told (f a) (s\<lparr>sqDB := x\<rparr>))" "same a' b"
      "emitted m' = emitted m @ es" "mset (f a (sqWatcher s)) = mset es" using go(2) Pair Inr by blast
    ultimately show ?thesis by (auto simp: sim_def)
  qed
qed

lemma told_each:
  "concat (map (EmitDelete GormWatcher) ds) = map Deleted ds" "concat (map (EmitUpdate GormWatcher) ds) = map Updated ds"
  "concat (map (\<lambda>d. EmitUpdate GormWatcher (g d)) ds) = map (\<lambda>d. Updated (g d)) ds"
  by (induction ds) (simp_all add: EmitDelete_def EmitUpdate_def)

section \<open>Keys are kept\<close>

lemma rows_ok_image:
  assumes "rows_ok sc M" "\<And>r x. collide sc (g r) (g x) \<longleftrightarrow> collide sc r x"
  shows "rows_ok sc (image_mset g M)"
  unfolding rows_ok_def
proof (intro ballI)
  fix r' x'
  assume r': "r' \<in># image_mset g M" and x': "x' \<in># image_mset g M - {#r'#}"
  then obtain r where r: "r \<in># M" "r' = g r" by auto
  then have "image_mset g M - {#r'#} = image_mset g (M - {#r#})"
    by (simp add: image_mset_Diff)
  then obtain x where "x \<in># M - {#r#}" "x' = g x" using x' by auto
  then show "\<not> collide sc r' x'" using assms r unfolding rows_ok_def by blast
qed

lemma sql_ok_row:
  assumes "sql_ok m" "d \<in># tDevices (tables_of m)"
  shows "devPublicKey d \<noteq> [] \<and> key d \<noteq> ([], [])"
proof -
  have "(key d, d) \<in> set (db m)"
    using assms(2) table_rows [OF sqlDev.table [OF assms(1)]] unfolding sqlDev.stored by (simp add: map_of_SomeD)
  then show ?thesis using assms(1) by (auto simp: sql_ok_def)
qed

lemma rows_ok_devices: "sql_ok m \<Longrightarrow> rows_ok device_schema (tDevices (tables_of m))"
  using sqlDev.rows_ok_table [OF sqlDev.table] by (simp add: sqlDev.stored)

section \<open>Deleting the devices of an owner\<close>

lemma delete_each_devices:
  assumes H: "handle_writes live device_schema seen tDevices tDevices_update (qDevices G)"
    and k: "\<forall>d \<in> set ds. key d \<noteq> ([], [])" and x: "seen tx = (T, t)"
  shows "case delete_each G ds tx of
      (Inl e, tx') \<Rightarrow> \<not> live \<and> snd (seen tx') = t
    | (Inr _, tx') \<Rightarrow> seen tx' = (tDevices_update (\<lambda>_. filter_mset (\<lambda>x. key x \<notin> key ` set ds) (tDevices T)) T, t)"
  using k x
proof (induction ds arbitrary: tx T)
  case (Cons d ds)
  have x: "fst (seen tx) = T" using Cons.prems by simp
  note w = handle_writesD(7,8) [OF H x, of d]
  have ne: "\<exists>c \<in> set (primary device_schema d). c \<noteq> Some (CText [])"
    using Cons.prems by (auto simp: primary_def cell_simps key_def)
  obtain r ty where q: "hDeleteRow (qDevices G) d tx = (r, ty)" by fastforce
  show ?case
  proof (cases r)
    case (Inl e)
    then show ?thesis using w(1) w(2) [OF _ ne] q Cons.prems by (auto simp: writes_def)
  next
    case (Inr n)
    let ?T = "tDevices_update (\<lambda>_. filter_mset (\<lambda>y. key y \<noteq> key d) (tDevices T)) T"
    have "seen ty = (?T, t)" using w(1) q Inr Cons.prems by (auto simp: writes_def sqlDev.primary)
    moreover have "filter_mset (\<lambda>x. key x \<notin> key ` set ds) (filter_mset (\<lambda>y. key y \<noteq> key d) (tDevices T))
      = filter_mset (\<lambda>x. key x \<notin> key ` set (d # ds)) (tDevices T)"
      by (auto simp: filter_filter_mset intro: filter_mset_cong)
    ultimately show ?thesis using Cons.IH [of ty ?T] Cons.prems(1) q Inr by (auto split: prod.splits sum.splits)
  qed
qed simp

lemma sim_DeleteForOwner:
  assumes "db_laws live seen G" "seen (sqDB s) = (tables_of m, None)" "sql_ok m" "sqWatcher s = GormWatcher"
  shows "sim live seen (\<lambda>ds es. mset ds = mset es) s m (sql_DeleteForOwner G owner s) (DeleteForOwner owner m)
    \<and> sql_ok (snd (DeleteForOwner owner m))"
proof
  let ?ts = "[ColEq ''owner'' (CText owner)]" and ?m' = "snd (DeleteForOwner owner m)"
  let ?f = "\<lambda>tx. case hFind (qDevices G) ?ts Unordered tx of
      Inl e \<Rightarrow> (Inl (wrap_err ''failed to list the devices of the user'' e), tx)
    | Inr deleted \<Rightarrow> (case delete_each G deleted tx of (Inl e, tx) \<Rightarrow> (Inl e, tx) | (Inr _, tx) \<Rightarrow> (Inr deleted, tx))"
  let ?P = "\<lambda>ds. mset ds = filter_mset (\<lambda>d. devOwner d = owner) (tDevices (tables_of m))"
  have row: "row_matches device_schema ?ts = (\<lambda>d. devOwner d = owner)" by (auto simp: row_matches_def cell_simps fun_eq_iff)
  have m': "tables_of ?m' = tDevices_update (\<lambda>_. filter_mset (\<lambda>d. devOwner d \<noteq> owner) (tDevices (tables_of m))) (tables_of m)"
    using rows_kept [of "\<lambda>d. devOwner d \<noteq> owner" "db m"] by (simp add: DeleteForOwner_def Let_def sqlDev.stored)
  have "case transaction G ?f (sqDB s) of
      (Inl e, x') \<Rightarrow> \<not> live \<and> snd (seen x') = None \<and> (fst (seen x') = tables_of m \<or> fst (seen x') = tables_of ?m')
    | (Inr a, x') \<Rightarrow> ?P a \<and> seen x' = (tables_of ?m', None)"
  proof (rule transaction_cases [OF db_lawsD(11) [OF assms(1)] assms(2)])
    fix tx
    assume tx: "seen tx = (tables_of m, Some (tables_of m))"
    note find = sqlDev.find_of [OF db_lawsD(1) [OF assms(1)] tx, of ?ts Unordered, unfolded row]
    show "case ?f tx of (Inl e, tx') \<Rightarrow> \<not> live \<and> snd (seen tx') = Some (tables_of m)
      | (Inr a, tx') \<Rightarrow> ?P a \<and> seen tx' = (tables_of ?m', Some (tables_of m))"
    proof (cases "hFind (qDevices G) ?ts Unordered tx")
      case (Inl e)
      then show ?thesis using find(2) tx by auto
    next
      case (Inr ds)
      then have ds: "?P ds" using find(1) by blast
      have in_ds: "d \<in> set ds \<longleftrightarrow> d \<in># tDevices (tables_of m) \<and> devOwner d = owner" for d
        using arg_cong [OF ds, of set_mset] by auto
      then have "\<forall>d \<in> set ds. key d \<noteq> ([], [])"
        using sql_ok_row [OF assms(3)] by blast
      note del = delete_each_devices [OF db_lawsD(2) [OF assms(1)] this tx]
      have "key x \<notin> key ` set ds \<longleftrightarrow> devOwner x \<noteq> owner" if "x \<in># tDevices (tables_of m)" for x
        using that in_ds by (auto simp: key_def)
      then have "filter_mset (\<lambda>x. key x \<notin> key ` set ds) (tDevices (tables_of m)) = filter_mset (\<lambda>d. devOwner d \<noteq> owner) (tDevices (tables_of m))"
        by (intro filter_mset_cong) auto
      then show ?thesis using del ds Inr unfolding m' by (auto split: prod.splits sum.splits)
    qed
  qed
  then have "sim live seen (\<lambda>ds es. mset ds = mset es) s m (sql_DeleteForOwner G owner s)
    (Inr (filter (\<lambda>d. devOwner d = owner) (map snd (db m))), ?m')"
  proof (rule sim_transaction [where f = "\<lambda>deleted w. concat (map (EmitDelete w) deleted)"])
    fix e x
    assume "transaction G ?f (sqDB s) = (Inl e, x)"
    then show "\<exists>e'. sql_DeleteForOwner G owner s = (Inl e', s\<lparr>sqDB := x\<rparr>)" by (simp add: sql_DeleteForOwner_def)
  next
    fix a x
    assume t: "transaction G ?f (sqDB s) = (Inr a, x)" and a: "?P a"
    have eq: "mset a = mset (filter (\<lambda>d. devOwner d = owner) (map snd (db m)))" using a by (simp add: sqlDev.stored mset_filter)
    then have "mset (map Deleted a) = mset (map Deleted (filter (\<lambda>d. devOwner d = owner) (map snd (db m))))" by (simp only: mset_map)
    then show "\<exists>a'. sql_DeleteForOwner G owner s = (Inr a', sql_told (\<lambda>w. concat (map (EmitDelete w) a)) (s\<lparr>sqDB := x\<rparr>)) \<and>
        mset a' = mset (filter (\<lambda>d. devOwner d = owner) (map snd (db m))) \<and>
        (\<exists>es. emitted ?m' = emitted m @ es \<and> mset (concat (map (EmitDelete (sqWatcher s)) a)) = mset es)"
      using t eq by (auto simp: sql_DeleteForOwner_def DeleteForOwner_def Let_def told_each assms(4) simp del: mset_map mset_filter)
  qed
  then show "sim live seen (\<lambda>ds es. mset ds = mset es) s m (sql_DeleteForOwner G owner s) (DeleteForOwner owner m)"
    by (simp add: DeleteForOwner_def Let_def)
  show "sql_ok ?m'"
    using store_ok_DeleteForOwner [OF sql_okD [OF assms(3)], of owner] assms(3)
    by (intro sql_ok_db [OF assms(3)]) (auto simp: DeleteForOwner_def Let_def sql_ok_def)
qed

section \<open>Blocking the devices of an owner\<close>

definition disable_in :: "dev_key set \<Rightarrow> device \<Rightarrow> device" where
  "disable_in K d = (if key d \<in> K then d\<lparr>devDisabled := True\<rparr> else d)"

lemma disable_in_simps [simp]: "key (disable_in K d) = key d" "devPublicKey (disable_in K d) = devPublicKey d"
  by (simp_all add: disable_in_def)

lemma block_each_devices:
  assumes H: "handle_writes live device_schema seen tDevices tDevices_update (qDevices G)"
    and ok: "rows_ok device_schema (tDevices T)" and x: "seen tx = (T, t)"
  shows "case block_each G ds tx of
      (Inl e, tx') \<Rightarrow> \<not> live \<and> snd (seen tx') = t
    | (Inr _, tx') \<Rightarrow> seen tx' = (tDevices_update (\<lambda>_. image_mset (disable_in (key ` set ds)) (tDevices T)) T, t)"
  using ok x
proof (induction ds arbitrary: tx T)
  case Nil
  have "disable_in {} = id" by (auto simp: disable_in_def fun_eq_iff)
  then show ?case using Nil by simp
next
  case (Cons d ds)
  let ?ts = "device_named (devOwner d) (devName d)" and ?sets = "[(''disabled'', Put (CBool True))]"
  have "fst (seen tx) = T" using Cons.prems by simp
  note w = handle_writesD(3,4) [OF H this, of ?ts ?sets, simplified]
  have sw: "set_where device_schema ?ts ?sets (tDevices T) = image_mset (disable_in {key d}) (tDevices T)"
    unfolding set_where_def by (intro image_mset_cong) (simp add: device_named_matches disable_in_def key_def device_row_set)
  have ok': "rows_ok device_schema (image_mset (disable_in {key d}) (tDevices T))"
    by (rule rows_ok_image [OF Cons.prems(1)]) (simp add: sqlDev.collides)
  obtain r ty where q: "hUpdate (qDevices G) ?ts ?sets tx = (r, ty)" by fastforce
  show ?case
  proof (cases r)
    case (Inl e)
    then show ?thesis using w ok' q Cons.prems unfolding sw by (auto simp: writes_def)
  next
    case (Inr n)
    let ?T = "tDevices_update (\<lambda>_. image_mset (disable_in {key d}) (tDevices T)) T"
    have "seen ty = (?T, t)" using w(1) q Inr Cons.prems unfolding sw by (auto simp: writes_def)
    moreover have "disable_in (key ` set ds) (disable_in {key d} x) = disable_in (key ` set (d # ds)) x" for x
      by (auto simp: disable_in_def key_def)
    ultimately show ?thesis
      using Cons.IH [of ?T ty] ok' q Inr by (auto simp: image_mset.compositionality comp_def split: prod.splits sum.splits)
  qed
qed

lemma sim_BlockForOwner:
  assumes "db_laws live seen G" "seen (sqDB s) = (tables_of m, None)" "sql_ok m" "sqWatcher s = GormWatcher"
  shows "sim live seen (\<lambda>ds es. mset ds = mset es) s m (sql_BlockForOwner G owner s) (BlockForOwner owner m)
    \<and> sql_ok (snd (BlockForOwner owner m))"
proof
  let ?ts = "[ColEq ''owner'' (CText owner), ColEq ''disabled'' (CBool False)]" and ?m' = "snd (BlockForOwner owner m)"
  let ?hit = "\<lambda>d. devOwner d = owner \<and> \<not> devDisabled d" and ?b = "\<lambda>d. d\<lparr>devDisabled := True\<rparr>"
  let ?f = "\<lambda>tx. case hFind (qDevices G) ?ts Unordered tx of
      Inl e \<Rightarrow> (Inl (wrap_err ''failed to list the devices of the user'' e), tx)
    | Inr blocked \<Rightarrow> (case block_each G blocked tx of (Inl e, tx) \<Rightarrow> (Inl e, tx) | (Inr _, tx) \<Rightarrow> (Inr blocked, tx))"
  let ?P = "\<lambda>ds. mset ds = filter_mset ?hit (tDevices (tables_of m))"
  have row: "row_matches device_schema ?ts = ?hit" by (auto simp: row_matches_def cell_simps fun_eq_iff)
  have m': "tables_of ?m' = tDevices_update (\<lambda>_. image_mset (\<lambda>d. if ?hit d then ?b d else d) (tDevices (tables_of m))) (tables_of m)"
    using rows_mapped [of "\<lambda>d. if ?hit d then ?b d else d" "db m"] by (simp add: BlockForOwner_def Let_def sqlDev.stored)
  have "case transaction G ?f (sqDB s) of
      (Inl e, x') \<Rightarrow> \<not> live \<and> snd (seen x') = None \<and> (fst (seen x') = tables_of m \<or> fst (seen x') = tables_of ?m')
    | (Inr a, x') \<Rightarrow> ?P a \<and> seen x' = (tables_of ?m', None)"
  proof (rule transaction_cases [OF db_lawsD(11) [OF assms(1)] assms(2)])
    fix tx
    assume tx: "seen tx = (tables_of m, Some (tables_of m))"
    note find = sqlDev.find_of [OF db_lawsD(1) [OF assms(1)] tx, of ?ts Unordered, unfolded row]
    show "case ?f tx of (Inl e, tx') \<Rightarrow> \<not> live \<and> snd (seen tx') = Some (tables_of m)
      | (Inr a, tx') \<Rightarrow> ?P a \<and> seen tx' = (tables_of ?m', Some (tables_of m))"
    proof (cases "hFind (qDevices G) ?ts Unordered tx")
      case (Inl e)
      then show ?thesis using find(2) tx by auto
    next
      case (Inr ds)
      then have ds: "?P ds" using find(1) by blast
      have in_ds: "d \<in> set ds \<longleftrightarrow> d \<in># tDevices (tables_of m) \<and> ?hit d" for d
        using arg_cong [OF ds, of set_mset] by auto
      note blk = block_each_devices [OF db_lawsD(2) [OF assms(1)] rows_ok_devices [OF assms(3)] tx, of ds]
      have "disable_in (key ` set ds) x = (if ?hit x then ?b x else x)" if "x \<in># tDevices (tables_of m)" for x
      proof -
        have "d = x" if "d \<in># tDevices (tables_of m)" "key d = key x" for d
          using that \<open>x \<in># tDevices (tables_of m)\<close> table_rows [OF sqlDev.table [OF assms(3)]] unfolding sqlDev.stored by auto
        then have "key x \<in> key ` set ds \<longleftrightarrow> ?hit x" using in_ds that by (metis (no_types, lifting) imageE imageI)
        then show ?thesis by (simp add: disable_in_def)
      qed
      then have "image_mset (disable_in (key ` set ds)) (tDevices (tables_of m)) = image_mset (\<lambda>d. if ?hit d then ?b d else d) (tDevices (tables_of m))"
        by (intro image_mset_cong) auto
      then show ?thesis using blk ds Inr unfolding m' by (auto split: prod.splits sum.splits)
    qed
  qed
  then have "sim live seen (\<lambda>ds es. mset ds = mset es) s m (sql_BlockForOwner G owner s)
    (Inr (map ?b (filter ?hit (map snd (db m)))), ?m')"
  proof (rule sim_transaction [where f = "\<lambda>blocked w. concat (map (EmitUpdate w) (map ?b blocked))"])
    fix e x
    assume "transaction G ?f (sqDB s) = (Inl e, x)"
    then show "\<exists>e'. sql_BlockForOwner G owner s = (Inl e', s\<lparr>sqDB := x\<rparr>)" by (simp add: sql_BlockForOwner_def)
  next
    fix a x
    assume t: "transaction G ?f (sqDB s) = (Inr a, x)" and a: "?P a"
    have eq: "mset a = mset (filter ?hit (map snd (db m)))" using a by (simp add: sqlDev.stored mset_filter)
    have "mset (map ?b a) = mset (map ?b (filter ?hit (map snd (db m))))" unfolding mset_map [of ?b] eq ..
    moreover have "mset (map (\<lambda>d. Updated (?b d)) a) = mset (map (\<lambda>d. Updated (?b d)) (filter ?hit (map snd (db m))))"
      unfolding mset_map eq ..
    ultimately show "\<exists>a'. sql_BlockForOwner G owner s = (Inr a', sql_told (\<lambda>w. concat (map (EmitUpdate w) (map ?b a))) (s\<lparr>sqDB := x\<rparr>)) \<and>
        mset a' = mset (map ?b (filter ?hit (map snd (db m)))) \<and>
        (\<exists>es. emitted ?m' = emitted m @ es \<and> mset (concat (map (EmitUpdate (sqWatcher s)) (map ?b a))) = mset es)"
      using t by (auto simp: sql_BlockForOwner_def BlockForOwner_def Let_def told_each assms(4) comp_def simp del: mset_map mset_filter)
  qed
  then show "sim live seen (\<lambda>ds es. mset ds = mset es) s m (sql_BlockForOwner G owner s) (BlockForOwner owner m)"
    by (simp add: BlockForOwner_def Let_def)
  show "sql_ok ?m'"
    using store_ok_BlockForOwner [OF sql_okD [OF assms(3)], of owner] assms(3)
    by (intro sql_ok_db [OF assms(3)]) (auto simp: BlockForOwner_def Let_def sql_ok_def if_distrib [of devPublicKey] split: if_splits)
qed

section \<open>Metadata\<close>

text \<open>No sum of traffic passes what the column holds.\<close>

fun metadata_fits :: "metadata_update list \<Rightarrow> device \<Rightarrow> bool" where
  "metadata_fits [] d = True"
| "metadata_fits (u # us) d =
     (if updPublicKey u = devPublicKey d
      then sum_fits (devReceiveBytes d) (updReceiveBytes u) \<and> sum_fits (devTransmitBytes d) (updTransmitBytes u) \<and>
           metadata_fits us (apply_update u d)
      else metadata_fits us d)"

definition update_named :: "metadata_update \<Rightarrow> device \<Rightarrow> device" where
  "update_named u d = (if updPublicKey u = devPublicKey d then apply_update u d else d)"

lemma update_named_simps [simp]: "key (update_named u d) = key d" "devPublicKey (update_named u d) = devPublicKey d"
  by (simp_all add: update_named_def)

lemma metadata_of_step: "metadata_of us (update_named u d) = metadata_of (u # us) d"
  by (simp add: metadata_of_def update_named_def)

lemma metadata_fits_step: "metadata_fits (u # us) d \<Longrightarrow> metadata_fits us (update_named u d)"
  by (auto simp: update_named_def split: if_splits)

lemma metadata_cells:
  "cell_of device_schema ''receive_bytes'' d = Some (CInt (devReceiveBytes d))"
  "cell_of device_schema ''transmit_bytes'' d = Some (CInt (devTransmitBytes d))"
  "put_cell device_schema ''receive_bytes'' (CInt n) d = d\<lparr>devReceiveBytes := n\<rparr>"
  "put_cell device_schema ''transmit_bytes'' (CInt n) d = d\<lparr>devTransmitBytes := n\<rparr>"
  "put_cell device_schema ''endpoint'' (CText e) d = d\<lparr>devEndpoint := e\<rparr>"
  "put_cell device_schema ''last_handshake_time'' (CTime t) d = d\<lparr>devLastHandshakeTime := t\<rparr>"
  by (simp_all add: cell_simps)

lemma metadata_columns_set: "row_set device_schema (metadata_columns u) d = apply_update u d"
  by (cases "updConnection u") (simp_all add: row_set_def metadata_columns_def apply_update_def metadata_cells)

lemma metadata_columns_none: "metadata_columns u = [] \<Longrightarrow> apply_update u d = d"
  by (auto simp: metadata_columns_def apply_update_def split: option.splits if_splits)

lemma metadata_columns_fit:
  "sum_fits (devReceiveBytes d) (updReceiveBytes u) \<Longrightarrow> sum_fits (devTransmitBytes d) (updTransmitBytes u) \<Longrightarrow>
     list_all (assign_fits device_schema d) (metadata_columns u)"
  by (cases "updConnection u") (simp_all add: metadata_columns_def metadata_cells)

lemma record_updates_devices:
  assumes H: "handle_writes live device_schema seen tDevices tDevices_update (qDevices G)"
    and ok: "rows_ok device_schema (tDevices T)" and x: "seen tx = (T, t)"
    and fits: "\<forall>d \<in># tDevices T. metadata_fits us d"
  shows "case record_updates G us tx of
      (Inl e, tx') \<Rightarrow> \<not> live \<and> snd (seen tx') = t
    | (Inr _, tx') \<Rightarrow> seen tx' = (tDevices_update (\<lambda>_. image_mset (metadata_of us) (tDevices T)) T, t)"
  using ok x fits
proof (induction us arbitrary: tx T)
  case Nil
  have "metadata_of [] = id" by (auto simp: metadata_of_def fun_eq_iff)
  then show ?case using Nil by simp
next
  case (Cons u us)
  let ?ts = "[ColEq ''public_key'' (CText (updPublicKey u))]" and ?sets = "metadata_columns u"
  let ?M = "image_mset (update_named u) (tDevices T)"
  have row: "row_matches device_schema ?ts r \<longleftrightarrow> updPublicKey u = devPublicKey r" for r
    by (auto simp: row_matches_def cell_simps)
  have ok': "rows_ok device_schema ?M" by (rule rows_ok_image [OF Cons.prems(1)]) (simp add: sqlDev.collides)
  have steps: "image_mset (metadata_of us) ?M = image_mset (metadata_of (u # us)) (tDevices T)"
    by (simp add: image_mset.compositionality comp_def metadata_of_step)
  have fits': "\<forall>d \<in># ?M. metadata_fits us d" using Cons.prems(3) metadata_fits_step by fastforce
  show ?case
  proof (cases "?sets = []")
    case True
    then have "update_named u = id" using metadata_columns_none by (auto simp: update_named_def fun_eq_iff)
    then have "?M = tDevices T" by simp
    then show ?thesis using Cons.IH [OF Cons.prems(1,2)] fits' steps True by (auto split: prod.splits sum.splits)
  next
    case False
    have "fst (seen tx) = T" using Cons.prems by simp
    note w = handle_writesD(3,4) [OF H this]
    have f: "\<forall>r \<in># tDevices T. row_matches device_schema ?ts r \<longrightarrow> list_all (assign_fits device_schema r) ?sets"
      using Cons.prems(3) metadata_columns_fit unfolding row by (auto split: if_splits)
    have sw: "set_where device_schema ?ts ?sets (tDevices T) = ?M"
      unfolding set_where_def row metadata_columns_set update_named_def ..
    obtain r ty where q: "hUpdate (qDevices G) ?ts ?sets tx = (r, ty)" by fastforce
    show ?thesis
    proof (cases r)
      case (Inl e)
      then show ?thesis using w(1,2) [OF f] ok' q Cons.prems(2) False unfolding sw by (auto simp: writes_def)
    next
      case (Inr n)
      let ?T = "tDevices_update (\<lambda>_. ?M) T"
      have "seen ty = (?T, t)" using w(1) [OF f] q Inr Cons.prems(2) unfolding sw by (auto simp: writes_def)
      then show ?thesis using Cons.IH [of ?T ty] ok' fits' steps q Inr False by (auto split: prod.splits sum.splits)
    qed
  qed
qed

lemma sim_RecordMetadata:
  assumes "db_laws live seen G" "seen (sqDB s) = (tables_of m, None)" "sql_ok m"
    and us: "\<forall>u \<in> set us. updPublicKey u \<noteq> []" and fits: "\<forall>(k, d) \<in> set (db m). metadata_fits us d"
  shows "sim live seen (=) s m (sql_RecordMetadata G us s) (RecordMetadata us m) \<and> sql_ok (snd (RecordMetadata us m))"
proof
  let ?m' = "snd (RecordMetadata us m)"
  have db: "db ?m' = map (\<lambda>(k, d). (k, metadata_of us d)) (db m)"
    using RecordMetadata_db [OF sql_okD [OF assms(3)]] us by blast
  have m': "tables_of ?m' = tDevices_update (\<lambda>_. image_mset (metadata_of us) (tDevices (tables_of m))) (tables_of m)"
    using rows_mapped [of "metadata_of us" "db m"] db by (simp add: RecordMetadata_def sqlDev.stored)
  have pub: "devPublicKey (metadata_of us d) = devPublicKey d" for d
  proof -
    have "devPublicKey (foldl (\<lambda>d u. apply_update u d) d vs) = devPublicKey d" for vs d
      by (induction vs arbitrary: d) simp_all
    then show ?thesis by (simp add: metadata_of_def)
  qed
  show "sql_ok ?m'"
    using store_ok_RecordMetadata [OF sql_okD [OF assms(3)], of us] assms(3) db pub
    by (intro sql_ok_db [OF assms(3)]) (auto simp: sql_ok_def)
  show "sim live seen (=) s m (sql_RecordMetadata G us s) (RecordMetadata us m)"
  proof (cases "us = []")
    case True
    then show ?thesis using assms(2) by (simp add: sql_RecordMetadata_def RecordMetadata_def sim_def)
  next
    case False
    have "case transaction G (record_updates G us) (sqDB s) of
        (Inl e, x') \<Rightarrow> \<not> live \<and> snd (seen x') = None \<and> (fst (seen x') = tables_of m \<or> fst (seen x') = tables_of ?m')
      | (Inr a, x') \<Rightarrow> True \<and> seen x' = (tables_of ?m', None)"
    proof (rule transaction_cases [OF db_lawsD(11) [OF assms(1)] assms(2)])
      fix tx
      assume tx: "seen tx = (tables_of m, Some (tables_of m))"
      have "\<forall>d \<in># tDevices (tables_of m). metadata_fits us d" using fits by (auto simp: sqlDev.stored)
      from record_updates_devices [OF db_lawsD(2) [OF assms(1)] rows_ok_devices [OF assms(3)] tx this]
      show "case record_updates G us tx of (Inl e, tx') \<Rightarrow> \<not> live \<and> snd (seen tx') = Some (tables_of m)
        | (Inr a, tx') \<Rightarrow> True \<and> seen tx' = (tables_of ?m', Some (tables_of m))"
        unfolding m' by (auto split: prod.splits sum.splits)
    qed
    then have "sim live seen (=) s m (sql_RecordMetadata G us s) (Inr (), ?m')"
      by (rule sim_transaction [where f = "\<lambda>_ _. []"])
        (use False in \<open>auto simp: sql_RecordMetadata_def transaction_def RecordMetadata_def split: prod.splits sum.splits\<close>)
    then show ?thesis by (simp add: RecordMetadata_def)
  qed
qed

section \<open>Deleting a user\<close>

lemma sim_DeleteUser:
  assumes "db_laws live seen G" "seen (sqDB s) = (tables_of m, None)" "sql_ok m"
  shows "sim live seen (=) s m (sql_DeleteUser G subject s) (DeleteUser subject m) \<and> sql_ok (snd (DeleteUser subject m))"
proof
  let ?m' = "snd (DeleteUser subject m)" and ?own = "[ColEq ''owner'' (CText subject)]" and ?sub = "[ColEq ''subject'' (CText subject)]"
  let ?f = "\<lambda>tx. case hDelete (qPasskeys G) ?own tx of (Inl e, tx) \<Rightarrow> (Inl e, tx) | (Inr n, tx) \<Rightarrow> hDelete (qUsers G) ?sub tx"
  let ?T = "tPasskeys_update (\<lambda>_. filter_mset (\<lambda>p. pkOwner p \<noteq> subject) (tPasskeys (tables_of m))) (tables_of m)"
  have own: "row_matches passkey_schema ?own = (\<lambda>p. pkOwner p = subject)"
    and sub: "row_matches user_schema ?sub = (\<lambda>u. usrSubject u = subject)"
    by (auto simp: row_matches_def cell_simps fun_eq_iff)
  have m': "tables_of ?m' = tUsers_update (\<lambda>_. filter_mset (\<lambda>u. usrSubject u \<noteq> subject) (tUsers (tables_of m))) ?T"
    using rows_drop [OF sqlUsr.table [OF assms(3)], of subject] rows_kept [of "\<lambda>p. pkOwner p \<noteq> subject" "passkeys m"]
    by (simp add: DeleteUser_def sqlPk.stored sqlUsr.stored)
  have "case transaction G ?f (sqDB s) of
      (Inl e, x') \<Rightarrow> \<not> live \<and> snd (seen x') = None \<and> (fst (seen x') = tables_of m \<or> fst (seen x') = tables_of ?m')
    | (Inr a, x') \<Rightarrow> True \<and> seen x' = (tables_of ?m', None)"
  proof (rule transaction_cases [OF db_lawsD(11) [OF assms(1)] assms(2)])
    fix tx
    assume tx: "seen tx = (tables_of m, Some (tables_of m))"
    then have "fst (seen tx) = tables_of m" by simp
    note p = handle_writesD(5,6) [OF db_lawsD(10) [OF assms(1)] this, of ?own, unfolded own]
    obtain r ty where q: "hDelete (qPasskeys G) ?own tx = (r, ty)" by fastforce
    show "case ?f tx of (Inl e, tx') \<Rightarrow> \<not> live \<and> snd (seen tx') = Some (tables_of m)
      | (Inr a, tx') \<Rightarrow> True \<and> seen tx' = (tables_of ?m', Some (tables_of m))"
    proof (cases r)
      case (Inl e)
      then show ?thesis using p q tx by (auto simp: writes_def)
    next
      case (Inr n)
      then have ty: "seen ty = (?T, Some (tables_of m))" using p(1) q tx by (auto simp: writes_def)
      then have "fst (seen ty) = ?T" by simp
      note u = handle_writesD(5,6) [OF db_lawsD(4) [OF assms(1)] this, of ?sub, unfolded sub]
      show ?thesis using u q Inr ty unfolding m' by (cases "hDelete (qUsers G) ?sub ty") (auto simp: writes_def split: sum.splits)
    qed
  qed
  then have "sim live seen (=) s m (sql_DeleteUser G subject s) (Inr (), ?m')"
    by (rule sim_transaction [where f = "\<lambda>_ _. []"])
      (auto simp: sql_DeleteUser_def DeleteUser_def)
  then show "sim live seen (=) s m (sql_DeleteUser G subject s) (DeleteUser subject m)" by (simp add: DeleteUser_def)
  show "sql_ok ?m'" by (rule sql_ok_same [OF assms(3) store_ok_DeleteUser [OF sql_okD [OF assms(3)]]]) (simp add: DeleteUser_def)
qed

end
