(* ===== verification/Sql_Accounts.thy ===== *)
theory Sql_Accounts
  imports Sql_Batches
begin

text \<open>
  The methods of the SQL storage on users, API tokens, sessions and passkeys simulate those of the in-memory storage.
\<close>

section \<open>Users\<close>

lemma subject_matches: "row_matches user_schema [ColEq ''subject'' (CText i)] u \<longleftrightarrow> usrSubject u = i \<and> True"
  by (simp add: row_matches_def cell_simps)

lemma user_row_set:
  "row_set user_schema [(''totp_secret'', Put (CText a)), (''totp_enabled_at'', Put (CTime b)),
     (''totp_recovery'', Put (CText c)), (''totp_last_step'', Put (CInt n))] u =
   u\<lparr>usrTotpSecret := a, usrTotpEnabledAt := b, usrTotpRecovery := c, usrTotpLastStep := n\<rparr>"
  "row_set user_schema [(''password_hash'', Put (CText a)), (''password_from'', Put (CText c))] u =
   u\<lparr>usrPasswordHash := a, usrPasswordFrom := c\<rparr>"
  "row_set user_schema [(''webauthn_challenge'', Put (CText a)), (''webauthn_challenge_until'', Put (CTime b))] u =
   u\<lparr>usrWebauthnChallenge := a, usrWebauthnChallengeUntil := b\<rparr>"
  by (simp_all add: row_set_def cell_simps)

lemma sim_set_user:
  assumes laws: "db_laws live seen G" "seen (sqDB s) = (tables_of m, None)" "sql_ok m"
    and put: "list_all (\<lambda>(c, a). \<exists>x. a = Put x) sets"
    and mem: "p = (case map_of (users m) i of None \<Rightarrow> (Inl (no_such_user i), m)
      | Some u \<Rightarrow> (Inr (), m\<lparr>users := AList.update i (row_set user_schema sets u) (users m)\<rparr>))" "store_ok (snd p)"
  shows "sim live seen (=) s m (after (hUpdate (qUsers G) [ColEq ''subject'' (CText i)] sets (sqDB s)) s (\<lambda>e. Inl (failed e))
      (\<lambda>n s. if n = 0 then (Inl (no_such_user i), s) else (Inr (), s))) p \<and> sql_ok (snd p)"
proof (cases "map_of (users m) i")
  case None
  then show ?thesis
    using mem(1) laws
    by (auto intro!: sqlUsr.update_missed [where k = i and P = "\<lambda>_. True", OF db_lawsD(4) [OF laws(1)] laws(2,3) put]
        simp: subject_matches)
next
  case (Some u)
  let ?m' = "m\<lparr>users := AList.update i (row_set user_schema sets u) (users m)\<rparr>"
  have ok: "sql_ok ?m'" using sql_ok_same [OF laws(3), of ?m'] mem Some by simp
  have "sim live seen (=) s m (after (hUpdate (qUsers G) [ColEq ''subject'' (CText i)] sets (sqDB s)) s (\<lambda>e. Inl (failed e))
      (\<lambda>n s. if n = 0 then (Inl (no_such_user i), s) else (Inr (), s))) (Inr (), ?m')"
    by (rule sqlUsr.update_keyed [where k = i and P = "\<lambda>_. True" and v = u and a = "()" and f = "\<lambda>_. []" and es = "[]",
          OF db_lawsD(4) [OF laws(1)] laws(2,3) put])
      (use ok Some in \<open>simp_all add: subject_matches\<close>)
  then show ?thesis using mem(1) Some ok by simp
qed

lemma sim_SetUserTOTP:
  assumes "db_laws live seen G" "seen (sqDB s) = (tables_of m, None)" "sql_ok m"
  shows "sim live seen (=) s m (sql_SetUserTOTP G i st s) (SetUserTOTP i st m) \<and> sql_ok (snd (SetUserTOTP i st m))"
  unfolding sql_SetUserTOTP_def
  by (rule sim_set_user [OF assms _ _ store_ok_SetUserTOTP [OF sql_okD [OF assms(3)]]]) (auto simp: SetUserTOTP_def user_row_set split: option.splits)

lemma sim_SetUserPassword:
  assumes "db_laws live seen G" "seen (sqDB s) = (tables_of m, None)" "sql_ok m"
  shows "sim live seen (=) s m (sql_SetUserPassword G i h f s) (SetUserPassword i h f m) \<and> sql_ok (snd (SetUserPassword i h f m))"
  unfolding sql_SetUserPassword_def
  by (rule sim_set_user [OF assms _ _ store_ok_SetUserPassword [OF sql_okD [OF assms(3)]]]) (auto simp: SetUserPassword_def user_row_set split: option.splits)

lemma sim_SetWebauthnChallenge:
  assumes "db_laws live seen G" "seen (sqDB s) = (tables_of m, None)" "sql_ok m"
  shows "sim live seen (=) s m (sql_SetWebauthnChallenge G i c t s) (SetWebauthnChallenge i c t m)
    \<and> sql_ok (snd (SetWebauthnChallenge i c t m))"
  unfolding sql_SetWebauthnChallenge_def
  by (rule sim_set_user [OF assms _ _ store_ok_SetWebauthnChallenge [OF sql_okD [OF assms(3)]]]) (auto simp: SetWebauthnChallenge_def user_row_set split: option.splits)

text \<open>
  Both keep what a sign-in does not carry.  SQL keeps every other column; the in-memory storage keeps the password and the
  secret when the user given has none, and takes the challenge and the last step from the user given, so the two agree
  where these are as they are stored.
\<close>

definition login_keeps :: "user \<Rightarrow> memory \<Rightarrow> bool" where
  "login_keeps u m =
     (case map_of (users m) (usrSubject u) of
        None \<Rightarrow> True
      | Some p \<Rightarrow> usrPasswordHash u = [] \<and> usrTotpSecret u = [] \<and> usrWebauthnChallenge u = usrWebauthnChallenge p \<and>
          usrWebauthnChallengeUntil u = usrWebauthnChallengeUntil p \<and> usrTotpLastStep u = usrTotpLastStep p)"

definition login_columns :: "string list" where
  "login_columns = [''provider'', ''name'', ''email'', ''policies'', ''last_login'']"

definition signed_in :: "user \<Rightarrow> user \<Rightarrow> user" where
  "signed_in u p = p\<lparr>usrProvider := usrProvider u, usrName := usrName u, usrEmail := usrEmail u,
     usrPolicies := usrPolicies u, usrLastLogin := usrLastLogin u\<rparr>"

lemma login_row_set: "row_set user_schema (map (\<lambda>c. (c, Put (the (cell_of user_schema c u)))) login_columns) p = signed_in u p"
  by (simp add: row_set_def login_columns_def signed_in_def cell_simps)

lemma SaveUser_signed_in:
  assumes "sql_ok m" "login_keeps u m"
  shows "SaveUser u m = (Inr (), m\<lparr>users := AList.update (usrSubject u)
     (case map_of (users m) (usrSubject u) of None \<Rightarrow> u | Some p \<Rightarrow> signed_in u p) (users m)\<rparr>)"
proof (cases "map_of (users m) (usrSubject u)")
  case (Some p)
  have "usrSubject p = usrSubject u" using store_keys(2) [OF sql_okD [OF assms(1)] Some] .
  then show ?thesis
    using assms(2) Some by (cases u; cases p) (simp add: SaveUser_def signed_in_def login_keeps_def Let_def)
qed (simp add: SaveUser_def)

lemma sim_SaveUser:
  assumes laws: "db_laws live seen G" "seen (sqDB s) = (tables_of m, None)" "sql_ok m" and u: "login_keeps u m"
  shows "sim live seen (=) s m (sql_SaveUser G u s) (SaveUser u m) \<and> sql_ok (snd (SaveUser u m))"
proof
  note ok = sqlUsr.table [OF laws(3)]
  let ?M = "tUsers (tables_of m)" and ?k = "usrSubject u"
  have stamped: "scStamped user_schema u" by (simp add: schema_defs)
  have key: "(\<exists>x \<in># ?M. primary user_schema u = primary user_schema x) \<longleftrightarrow> map_of (users m) ?k \<noteq> None"
  proof -
    have "(\<exists>x \<in># ?M. usrSubject x = ?k) \<longleftrightarrow> filter_mset (\<lambda>x. usrSubject x = ?k) ?M \<noteq> {#}" by auto
    also have "\<dots> \<longleftrightarrow> map_of (users m) ?k \<noteq> None"
      unfolding sqlUsr.stored keyed_rows [OF ok] by (auto split: option.splits)
    finally show ?thesis by (simp only: sqlUsr.primary eq_commute [of ?k])
  qed
  have c: "created user_schema (DoUpdates login_columns) u ?M n M \<longleftrightarrow> M = mset (map snd (users (snd (SaveUser u m))))" for n M
  proof (cases "map_of (users m) ?k")
    case None
    then have "\<forall>x \<in># ?M. \<not> collide user_schema u x" using key by (auto simp: sqlUsr.collides sqlUsr.primary)
    then show ?thesis
      using None key rows_new [OF None, of u]
      by (simp add: created_def SaveUser_signed_in [OF laws(3) u] sqlUsr.stored del: mset_map)
  next
    case (Some p)
    have "image_mset (\<lambda>x. if primary user_schema u = primary user_schema x
        then row_set user_schema (map (\<lambda>c. (c, Put (the (cell_of user_schema c u)))) login_columns) x else x) ?M
      = image_mset (\<lambda>x. if usrSubject x = ?k then signed_in u p else x) ?M"
    proof (rule image_mset_cong)
      fix x
      assume "x \<in># ?M"
      then have "usrSubject x = ?k \<Longrightarrow> x = p" using table_rows [OF ok] Some unfolding sqlUsr.stored by auto
      then show "(if primary user_schema u = primary user_schema x
        then row_set user_schema (map (\<lambda>c. (c, Put (the (cell_of user_schema c u)))) login_columns) x else x)
        = (if usrSubject x = ?k then signed_in u p else x)" by (auto simp: sqlUsr.primary login_row_set)
    qed
    then show ?thesis
      using Some key rows_change [OF ok Some, of "signed_in u p"]
      by (simp add: created_def SaveUser_signed_in [OF laws(3) u] sqlUsr.stored del: mset_map)
  qed
  have t: "tables_of (snd (SaveUser u m)) = tUsers_update (\<lambda>_. mset (map snd (users (snd (SaveUser u m))))) (tables_of m)"
    by (simp add: SaveUser_signed_in [OF laws(3) u])
  have e: "emitted (snd (SaveUser u m)) = emitted m" by (simp add: SaveUser_signed_in [OF laws(3) u])
  have "sim live seen (=) s m (sql_SaveUser G u s) (Inr (), snd (SaveUser u m))"
    unfolding sql_SaveUser_def
    by (rule sqlUsr.create_ok [where a = "()" and f = "\<lambda>_. []" and es = "[]" and n = 0
          and M = "mset (map snd (users (snd (SaveUser u m))))", OF db_lawsD(4) [OF laws(1)] laws(2) stamped])
      (use c t e in \<open>simp_all add: login_columns_def\<close>)
  then show "sim live seen (=) s m (sql_SaveUser G u s) (SaveUser u m)" by (simp add: SaveUser_signed_in [OF laws(3) u])
  show "sql_ok (snd (SaveUser u m))"
    by (rule sql_ok_same [OF laws(3) store_ok_SaveUser [OF sql_okD [OF laws(3)]]]) (simp add: SaveUser_signed_in [OF laws(3) u])
qed

lemma sim_GetUser:
  assumes "db_laws live seen G" "seen (sqDB s) = (tables_of m, None)" "sql_ok m"
  shows "sim live seen (=) s m (sql_GetUser G i s, s) (GetUser i m, m)"
proof -
  let ?v = "map_of (users m) i"
  have "filter_mset (row_matches user_schema [ColEq ''subject'' (CText i)]) (tUsers (tables_of m)) = (case ?v of None \<Rightarrow> {#} | Some v \<Rightarrow> {#v#})"
    by (rule sqlUsr.lookup_keyed [OF assms(3)]) (simp add: subject_matches)
  note f = sqlUsr.first_of [OF db_lawsD(3) [OF assms(1)] assms(2) this]
  show ?thesis
    by (rule sim_lookup [where v = ?v], rule assms(2))
      (use f in \<open>auto simp: sql_GetUser_def GetUser_def looked_up_def split: sum.splits option.splits\<close>)
qed

lemma sim_Users:
  assumes "db_laws live seen G" "seen (sqDB s) = (tables_of m, None)"
  shows "sim live seen (\<lambda>us vs. mset us = mset vs) s m (sql_Users G s, s) (Inr (Users m), m)"
proof (rule sim_read)
  have row: "row_matches user_schema [] = (\<lambda>_. True)" by (simp add: row_matches_def fun_eq_iff)
  note f = sqlUsr.find_of [OF db_lawsD(3) [OF assms(1)] assms(2), of "[]" Unordered, unfolded row]
  show "seen (sqDB s) = (tables_of m, None)" by (rule assms(2))
  show "\<exists>b. Inr (Users m) = Inr b \<and> mset a = mset b" if "sql_Users G s = Inr a" for a
    using that f(1) [of a] by (auto simp: sql_Users_def Users_def sqlUsr.stored split: sum.splits)
  show "live \<Longrightarrow> is_ok (sql_Users G s) = is_ok (Inr (Users m))"
    using f(2) by (auto simp: sql_Users_def split: sum.splits)
qed

end
