(* ===== verification/Sql_Credentials.thy ===== *)
theory Sql_Credentials
  imports Sql_Accounts
begin

text \<open>
  The methods of the SQL storage on API tokens, sessions and passkeys simulate those of the in-memory storage.  A token
  or a session has an id nobody has used yet.
\<close>

section \<open>Rows\<close>

lemma credential_matches:
  "row_matches token_schema [ColEq ''id'' (CText i)] t \<longleftrightarrow> tokID t = i \<and> True"
  "row_matches token_schema [ColEq ''hash'' (CText h)] t \<longleftrightarrow> tokHash t = h"
  "row_matches token_schema [ColEq ''owner'' (CText c)] t \<longleftrightarrow> tokOwner t = c"
  "row_matches session_schema [ColEq ''id'' (CText i)] x \<longleftrightarrow> sesID x = i \<and> True"
  "row_matches session_schema [ColEq ''hash'' (CText h)] x \<longleftrightarrow> sesHash x = h"
  "row_matches session_schema [ColEq ''owner'' (CText c)] x \<longleftrightarrow> sesOwner x = c"
  "row_matches session_schema [ColLe ''expires_at'' (CTime (Some now))] x \<longleftrightarrow> session_Expired x now"
  "row_matches passkey_schema [ColEq ''id'' (CText i)] p \<longleftrightarrow> pkID p = i"
  "row_matches passkey_schema [ColEq ''id'' (CText i), ColEq ''owner'' (CText c)] p \<longleftrightarrow> pkID p = i \<and> pkOwner p = c"
  "row_matches passkey_schema [ColEq ''owner'' (CText c), ColEq ''id'' (CText i)] p \<longleftrightarrow> pkID p = i \<and> pkOwner p = c"
  "row_matches passkey_schema [ColEq ''owner'' (CText c)] p \<longleftrightarrow> pkOwner p = c"
  by (auto simp: row_matches_def cell_simps session_Expired_def)

lemma credential_row_set:
  "row_set token_schema [(''last_used_at'', Put (CTime (Some at)))] t = t\<lparr>tokLastUsedAt := Some at\<rparr>"
  "row_set session_schema [(''last_seen_at'', Put (CTime (Some at)))] x = x\<lparr>sesLastSeenAt := at\<rparr>"
  "row_set passkey_schema [(''name'', Put (CText n))] p = p\<lparr>pkName := n\<rparr>"
  "row_set passkey_schema [(''name'', Put (CText n)), (''data'', Put (CText d)), (''last_used_at'', Put (CTime l))] p =
     p\<lparr>pkName := n, pkData := d, pkLastUsedAt := l\<rparr>"
  by (simp_all add: row_set_def cell_simps)

context stored_table
begin

text \<open>A row under a new key.\<close>

lemma insert_new:
  assumes H: "handle_writes live sc seen get upd H" and s: "seen (sqDB s) = (tables_of m, None)" and ok: "sql_ok m"
    and r: "scStamped sc r" "map_of (rows m) (kf r) = None"
    and p: "p = (if list_ex (\<lambda>(k, x). uf r \<noteq> None \<and> uf x = uf r \<and> kf x \<noteq> kf r) (rows m) then (Inl e, m) else (Inr (), m'))"
    and m': "tables_of m' = upd (\<lambda>_. mset (map snd (AList.update (kf r) r (rows m)))) (tables_of m)" "emitted m' = emitted m"
  shows "sim live seen (=) s m (after (hCreate H Refuse r (sqDB s)) s (\<lambda>e. Inl (failed e)) (\<lambda>n s. (Inr (), s))) p"
proof -
  have other: "kf x \<noteq> kf r" if "x \<in># get (tables_of m)" for x
    using that r(2) table_rows [OF table [OF ok]] unfolding stored by (metis option.distinct(1))
  have clash: "list_ex (\<lambda>(k, x). uf r \<noteq> None \<and> uf x = uf r \<and> kf x \<noteq> kf r) (rows m) \<longleftrightarrow> (\<exists>x \<in># get (tables_of m). collide sc r x)"
    using other by (force simp: list_ex_iff stored collides)
  show ?thesis
  proof (cases "\<exists>x \<in># get (tables_of m). collide sc r x")
    case True
    then have "\<not> created sc Refuse r (get (tables_of m)) n M" for n M by (auto simp: created_def)
    then show ?thesis using create_not [OF H s r(1), of Refuse] True p clash by simp
  next
    case False
    then have c: "created sc Refuse r (get (tables_of m)) n M \<longleftrightarrow> M = add_mset r (get (tables_of m))" for n M
      by (auto simp: created_def)
    have "mset (map snd (AList.update (kf r) r (rows m))) = add_mset r (get (tables_of m))"
      using rows_new [OF r(2), of r] by (simp add: stored)
    then have "sim live seen (=) s m (after (hCreate H Refuse r (sqDB s)) s (\<lambda>e. Inl (failed e)) (\<lambda>n s. (Inr (), s))) (Inr (), m')"
      by (intro create_ok [where a = "()" and f = "\<lambda>_. []" and es = "[]" and n = 0 and M = "add_mset r (get (tables_of m))", OF H s r(1)])
        (simp_all add: c m')
    then show ?thesis using p False clash by simp
  qed
qed

text \<open>Lists in an order.\<close>

lemma listed:
  assumes "handle_reads live sc seen get H" "seen (sqDB s) = (tables_of m, None)"
    and r: "r = (case hFind H ts ord (sqDB s) of Inl e \<Rightarrow> Inl (failed e) | Inr rs \<Rightarrow> Inr (arrange rs))"
    and same: "\<And>rs. mset rs = filter_mset (row_matches sc ts) (get (tables_of m)) \<Longrightarrow> in_order sc ord rs \<Longrightarrow> same (arrange rs) b"
  shows "sim live seen same s m (r, s) (Inr b, m)"
proof (rule sim_read)
  note f = find_of [OF assms(1,2), of ts ord]
  show "seen (sqDB s) = (tables_of m, None)" by (rule assms(2))
  show "\<exists>c. Inr b = Inr c \<and> same a c" if "r = Inr a" for a
    using that f(1) same r by (auto split: sum.splits)
  show "live \<Longrightarrow> is_ok r = is_ok (Inr b)" using f(2) r by (cases "hFind H ts ord (sqDB s)") auto
qed

end

lemma sorted_same:
  fixes f :: "'a \<Rightarrow> 'b::linorder"
  assumes "mset xs = mset ys" "sorted (map f xs)" "sorted (map f ys)"
  shows "map f xs = map f ys"
proof -
  have "sort (map f xs) = map f ys" using assms by (intro properties_for_sort) simp_all
  then show ?thesis using assms(2) by (simp add: sorted_sort_id)
qed

definition same_order :: "('a \<Rightarrow> 'b) \<Rightarrow> 'a list \<Rightarrow> 'a list \<Rightarrow> bool" where
  "same_order f xs ys \<longleftrightarrow> mset xs = mset ys \<and> map f xs = map f ys"

section \<open>API tokens\<close>

lemma sim_SaveToken:
  assumes laws: "db_laws live seen G" "seen (sqDB s) = (tables_of m, None)" "sql_ok m"
    and t: "map_of (tokens m) (tokID t) = None" "tokCreatedAt t \<noteq> zero_time"
  shows "sim live seen (=) s m (sql_SaveToken G t s) (SaveToken t m) \<and> sql_ok (snd (SaveToken t m))"
proof
  have "scStamped token_schema t" using t(2) by (simp add: schema_defs)
  then show "sim live seen (=) s m (sql_SaveToken G t s) (SaveToken t m)"
    unfolding sql_SaveToken_def
    by (rule sqlTok.insert_new [where m' = "m\<lparr>tokens := AList.update (tokID t) t (tokens m)\<rparr>"
          and e = "Err ''an api token with this hash already exists''", OF db_lawsD(6) [OF laws(1)] laws(2,3) _ t(1)])
      (simp_all add: SaveToken_def)
  show "sql_ok (snd (SaveToken t m))"
    by (rule sql_ok_same [OF laws(3) store_ok_SaveToken [OF sql_okD [OF laws(3)]]]) (simp add: SaveToken_def)
qed

lemma sim_ListTokens:
  assumes "db_laws live seen G" "seen (sqDB s) = (tables_of m, None)"
  shows "sim live seen (same_order tokCreatedAt) s m (sql_ListTokens G c s, s) (Inr (ListTokens c m), m)"
proof -
  let ?ts = "if c \<noteq> [] then [ColEq ''owner'' (CText c)] else []"
  have row: "row_matches token_schema ?ts = (\<lambda>t. c = [] \<or> tokOwner t = c)"
    by (cases "c = []") (simp_all add: fun_eq_iff credential_matches, simp add: row_matches_def)
  show ?thesis
  proof (rule sqlTok.listed [where arrange = "\<lambda>rs. rs", OF db_lawsD(5) [OF assms(1)] assms(2)])
    show "sql_ListTokens G c s = (case hFind (qTokens G) ?ts (Asc ''created_at'') (sqDB s) of
      Inl e \<Rightarrow> Inl (wrap_err ''failed to read api tokens'' e) | Inr rs \<Rightarrow> Inr rs)" by (simp add: sql_ListTokens_def)
    fix rs
    assume rs: "mset rs = filter_mset (row_matches token_schema ?ts) (tTokens (tables_of m))" "in_order token_schema (Asc ''created_at'') rs"
    have o: "instant_of token_schema ''created_at'' = tokCreatedAt" by (auto simp: instant_of_def cell_simps fun_eq_iff)
    have "mset rs = mset (ListTokens c m)" using rs(1) unfolding row by (simp add: ListTokens_def sqlTok.stored mset_filter)
    moreover have "sorted (map tokCreatedAt rs)" using rs(2) by (simp add: o)
    moreover have "sorted (map tokCreatedAt (ListTokens c m))" by (simp add: ListTokens_def)
    ultimately show "same_order tokCreatedAt rs (ListTokens c m)" unfolding same_order_def using sorted_same by blast
  qed
qed

lemma sim_GetToken:
  assumes "db_laws live seen G" "seen (sqDB s) = (tables_of m, None)" "sql_ok m"
  shows "sim live seen (=) s m (sql_GetToken G i s, s) (GetToken i m, m)"
proof -
  let ?v = "map_of (tokens m) i"
  have "filter_mset (row_matches token_schema [ColEq ''id'' (CText i)]) (tTokens (tables_of m)) = (case ?v of None \<Rightarrow> {#} | Some v \<Rightarrow> {#v#})"
    by (rule sqlTok.lookup_keyed [OF assms(3)]) (simp add: credential_matches)
  note f = sqlTok.first_of [OF db_lawsD(5) [OF assms(1)] assms(2) this]
  show ?thesis
    by (rule sim_lookup [where v = ?v], rule assms(2))
      (use f in \<open>auto simp: sql_GetToken_def firstToken_def GetToken_def looked_up_def split: sum.splits option.splits\<close>)
qed

lemma sim_GetTokenByHash:
  assumes "db_laws live seen G" "seen (sqDB s) = (tables_of m, None)" "sql_ok m"
  shows "sim live seen (=) s m (sql_GetTokenByHash G h s, s) (GetTokenByHash h m, m)"
proof -
  let ?v = "find (\<lambda>t. tokHash t = h) (map snd (tokens m))"
  have row: "row_matches token_schema [ColEq ''hash'' (CText h)] = (\<lambda>t. tokHash t = h)" by (simp add: fun_eq_iff credential_matches)
  have "filter_mset (row_matches token_schema [ColEq ''hash'' (CText h)]) (tTokens (tables_of m)) = (case ?v of None \<Rightarrow> {#} | Some v \<Rightarrow> {#v#})"
    unfolding row sqlTok.stored by (rule indexed_rows [OF sqlTok.table [OF assms(3)]])
  note f = sqlTok.first_of [OF db_lawsD(5) [OF assms(1)] assms(2) this]
  show ?thesis
    by (rule sim_lookup [where v = ?v], rule assms(2))
      (use f in \<open>auto simp: sql_GetTokenByHash_def firstToken_def GetTokenByHash_def looked_up_def split: sum.splits option.splits\<close>)
qed

lemma sim_TouchToken:
  assumes "db_laws live seen G" "seen (sqDB s) = (tables_of m, None)" "sql_ok m"
  shows "sim live seen (=) s m (sql_TouchToken G i at s) (TouchToken i at m) \<and> sql_ok (snd (TouchToken i at m))"
proof
  let ?m' = "snd (TouchToken i at m)"
  show ok: "sql_ok ?m'"
    by (rule sql_ok_same [OF assms(3) store_ok_TouchToken [OF sql_okD [OF assms(3)]]]) (simp add: TouchToken_def)
  let ?f = "\<lambda>t. if tokID t = i then t\<lparr>tokLastUsedAt := Some at\<rparr> else t"
  have "map snd (tokens ?m') = map ?f (map snd (tokens m))"
    using table_okD(2) [OF sqlTok.table [OF assms(3)]] by (auto simp: TouchToken_def)
  then have rows: "tTokens (tables_of ?m') = image_mset ?f (tTokens (tables_of m))"
    unfolding sqlTok.stored by (metis mset_map)
  have sw: "set_where token_schema [ColEq ''id'' (CText i)] [(''last_used_at'', Put (CTime (Some at)))] (tTokens (tables_of m))
    = image_mset ?f (tTokens (tables_of m))"
    unfolding set_where_def by (intro image_mset_cong) (simp add: credential_matches credential_row_set)
  have "tables_of ?m' = tTokens_update (\<lambda>_. tTokens (tables_of ?m')) (tables_of m)"
    by (simp add: TouchToken_def sqlTok.stored)
  then have t: "tables_of ?m' = tTokens_update (\<lambda>_. set_where token_schema [ColEq ''id'' (CText i)]
      [(''last_used_at'', Put (CTime (Some at)))] (tTokens (tables_of m))) (tables_of m)" unfolding rows sw .
  have "sim live seen (=) s m (sql_TouchToken G i at s) (Inr (), ?m')"
    unfolding sql_TouchToken_def
    by (rule sqlTok.update_ok [where a = "()" and f = "\<lambda>_. []" and es = "[]", OF db_lawsD(6) [OF assms(1)] assms(2)])
      (use ok t rows sw in \<open>simp_all add: TouchToken_def\<close>)
  then show "sim live seen (=) s m (sql_TouchToken G i at s) (TouchToken i at m)" by (simp add: TouchToken_def)
qed

text \<open>Deletes by key and by condition.\<close>

context stored_table
begin

lemma delete_keyed:
  assumes H: "handle_writes live sc seen get upd H" and s: "seen (sqDB s) = (tables_of m, None)" and ok: "sql_ok m"
    and ts: "\<And>r. row_matches sc ts r \<longleftrightarrow> kf r = k \<and> P r" "ts \<noteq> []" and v: "map_of (rows m) k = Some v" "P v"
    and m': "tables_of m' = upd (\<lambda>_. mset (map snd (AList.delete k (rows m)))) (tables_of m)" "emitted m' = emitted m"
    and go: "\<And>s. go 1 s = (Inr (), s)"
  shows "sim live seen (=) s m (after (hDelete H ts (sqDB s)) s (\<lambda>e. Inl (failed e)) go) (Inr (), m')"
proof (rule delete_ok [where a = "()" and f = "\<lambda>_. []" and es = "[]", OF H s ts(2)])
  have "\<not> row_matches sc ts x \<longleftrightarrow> kf x \<noteq> k" if "x \<in># get (tables_of m)" for x
    using that ts(1) v table_rows [OF table [OF ok]] unfolding stored by auto
  then have "filter_mset (\<lambda>r. \<not> row_matches sc ts r) (get (tables_of m)) = filter_mset (\<lambda>x. kf x \<noteq> k) (get (tables_of m))"
    by (intro filter_mset_cong) auto
  then show "tables_of m' = upd (\<lambda>_. filter_mset (\<lambda>r. \<not> row_matches sc ts r) (get (tables_of m))) (tables_of m)"
    using rows_drop [OF table [OF ok], of k] m'(1) by (simp add: stored)
  show "go (size (filter_mset (row_matches sc ts) (get (tables_of m)))) s = (Inr (), sql_told (\<lambda>_. []) s)" for s
    unfolding keyed_hit(1) [OF ok ts(1) v] using go by simp
qed (simp_all add: m'(2))

lemma delete_missed:
  assumes H: "handle_writes live sc seen get upd H" and s: "seen (sqDB s) = (tables_of m, None)" and ok: "sql_ok m"
    and ts: "\<And>r. row_matches sc ts r \<longleftrightarrow> kf r = k \<and> P r" and v: "\<And>v. map_of (rows m) k = Some v \<Longrightarrow> \<not> P v"
    and go: "\<And>s. go 0 s = (Inl e, s)"
  shows "sim live seen (=) s m (after (hDelete H ts (sqDB s)) s (\<lambda>e. Inl (failed e)) go) (Inl e', m)"
  by (rule delete_not [where e = e, OF H s]) (use keyed_miss [OF ok ts v] go in blast)+

lemma delete_where:
  assumes H: "handle_writes live sc seen get upd H" and s: "seen (sqDB s) = (tables_of m, None)"
    and ts: "row_matches sc ts = P" "ts \<noteq> []"
    and m': "tables_of m' = upd (\<lambda>_. mset (map snd (filter (\<lambda>(k, x). \<not> P x) (rows m)))) (tables_of m)" "emitted m' = emitted m"
  shows "sim live seen (=) s m (after (hDelete H ts (sqDB s)) s (\<lambda>e. Inl (failed e)) (\<lambda>n s. (Inr n, s)))
      (Inr (length (filter (\<lambda>(k, x). P x) (rows m))), m')"
proof (rule delete_ok [where f = "\<lambda>_. []" and es = "[]", OF H s ts(2)])
  show "tables_of m' = upd (\<lambda>_. filter_mset (\<lambda>r. \<not> row_matches sc ts r) (get (tables_of m))) (tables_of m)"
    using rows_kept [of "\<lambda>x. \<not> P x" "rows m"] m'(1) by (simp add: stored ts(1))
  have "size (filter_mset (row_matches sc ts) (get (tables_of m))) = length (filter (\<lambda>(k, x). P x) (rows m))"
    using rows_kept [of P "rows m"] unfolding ts(1) stored by (metis length_map size_mset)
  then show "(Inr (size (filter_mset (row_matches sc ts) (get (tables_of m)))), s) =
      (Inr (length (filter (\<lambda>(k, x). P x) (rows m))), sql_told (\<lambda>_. []) s)" for s :: "'x sql_storage" by simp
qed (simp_all add: m'(2))

end

lemma sim_DeleteToken:
  assumes "db_laws live seen G" "seen (sqDB s) = (tables_of m, None)" "sql_ok m"
  shows "sim live seen (=) s m (sql_DeleteToken G i s) (DeleteToken i m) \<and> sql_ok (snd (DeleteToken i m))"
proof
  show "sim live seen (=) s m (sql_DeleteToken G i s) (DeleteToken i m)"
  proof (cases "map_of (tokens m) i")
    case None
    then show ?thesis
      unfolding sql_DeleteToken_def
      by (auto simp: DeleteToken_def credential_matches
          intro!: sqlTok.delete_missed [where k = i and P = "\<lambda>_. True", OF db_lawsD(6) [OF assms(1)] assms(2,3)])
  next
    case (Some t)
    then show ?thesis
      unfolding sql_DeleteToken_def
      by (auto simp: DeleteToken_def credential_matches
          intro!: sqlTok.delete_keyed [where k = i and P = "\<lambda>_. True" and v = t, OF db_lawsD(6) [OF assms(1)] assms(2,3)])
  qed
  show "sql_ok (snd (DeleteToken i m))"
    by (rule sql_ok_same [OF assms(3) store_ok_DeleteToken [OF sql_okD [OF assms(3)]]]) (simp add: DeleteToken_def split: option.splits)
qed

lemma sim_DeleteTokensForOwner:
  assumes "db_laws live seen G" "seen (sqDB s) = (tables_of m, None)" "sql_ok m"
  shows "sim live seen (=) s m (sql_DeleteTokensForOwner G c s) (DeleteTokensForOwner c m) \<and> sql_ok (snd (DeleteTokensForOwner c m))"
proof
  show "sim live seen (=) s m (sql_DeleteTokensForOwner G c s) (DeleteTokensForOwner c m)"
    unfolding sql_DeleteTokensForOwner_def DeleteTokensForOwner_def
    by (rule sqlTok.delete_where [OF db_lawsD(6) [OF assms(1)] assms(2)]) (simp_all add: credential_matches fun_eq_iff)
  show "sql_ok (snd (DeleteTokensForOwner c m))"
    by (rule sql_ok_same [OF assms(3) store_ok_DeleteTokensForOwner [OF sql_okD [OF assms(3)]]]) (simp add: DeleteTokensForOwner_def)
qed

section \<open>Sessions\<close>

lemma sim_SaveSession:
  assumes laws: "db_laws live seen G" "seen (sqDB s) = (tables_of m, None)" "sql_ok m"
    and x: "map_of (sessions m) (sesID x) = None" "sesCreatedAt x \<noteq> zero_time"
  shows "sim live seen (=) s m (sql_SaveSession G x s) (SaveSession x m) \<and> sql_ok (snd (SaveSession x m))"
proof
  have "scStamped session_schema x" using x(2) by (simp add: schema_defs)
  then show "sim live seen (=) s m (sql_SaveSession G x s) (SaveSession x m)"
    unfolding sql_SaveSession_def
    by (rule sqlSes.insert_new [where m' = "m\<lparr>sessions := AList.update (sesID x) x (sessions m)\<rparr>"
          and e = "Err ''a session with this hash already exists''", OF db_lawsD(8) [OF laws(1)] laws(2,3) _ x(1)])
      (simp_all add: SaveSession_def)
  show "sql_ok (snd (SaveSession x m))"
    by (rule sql_ok_same [OF laws(3) store_ok_SaveSession [OF sql_okD [OF laws(3)]]]) (simp add: SaveSession_def)
qed

lemma sim_GetSessionByHash:
  assumes "db_laws live seen G" "seen (sqDB s) = (tables_of m, None)" "sql_ok m"
  shows "sim live seen (=) s m (sql_GetSessionByHash G h s, s) (GetSessionByHash h m, m)"
proof -
  let ?v = "find (\<lambda>t. sesHash t = h) (map snd (sessions m))"
  have row: "row_matches session_schema [ColEq ''hash'' (CText h)] = (\<lambda>x. sesHash x = h)" by (simp add: fun_eq_iff credential_matches)
  have "filter_mset (row_matches session_schema [ColEq ''hash'' (CText h)]) (tSessions (tables_of m)) = (case ?v of None \<Rightarrow> {#} | Some v \<Rightarrow> {#v#})"
    unfolding row sqlSes.stored by (rule indexed_rows [OF sqlSes.table [OF assms(3)]])
  note f = sqlSes.first_of [OF db_lawsD(7) [OF assms(1)] assms(2) this]
  show ?thesis
    by (rule sim_lookup [where v = ?v], rule assms(2))
      (use f in \<open>auto simp: sql_GetSessionByHash_def GetSessionByHash_def looked_up_def split: sum.splits option.splits\<close>)
qed

lemma sim_ListSessions:
  assumes "db_laws live seen G" "seen (sqDB s) = (tables_of m, None)"
  shows "sim live seen (same_order sesCreatedAt) s m (sql_ListSessions G c s, s) (Inr (ListSessions c m), m)"
proof (rule sqlSes.listed [where arrange = "\<lambda>rs. rs", OF db_lawsD(7) [OF assms(1)] assms(2)])
  let ?ts = "[ColEq ''owner'' (CText c)]"
  show "sql_ListSessions G c s = (case hFind (qSessions G) ?ts (Desc ''created_at'') (sqDB s) of
      Inl e \<Rightarrow> Inl (wrap_err ''failed to read sessions'' e) | Inr rs \<Rightarrow> Inr rs)" by (simp add: sql_ListSessions_def)
  fix rs
  assume rs: "mset rs = filter_mset (row_matches session_schema ?ts) (tSessions (tables_of m))" "in_order session_schema (Desc ''created_at'') rs"
  have o: "instant_of session_schema ''created_at'' = sesCreatedAt" by (auto simp: instant_of_def cell_simps fun_eq_iff)
  have row: "row_matches session_schema ?ts = (\<lambda>x. sesOwner x = c)" by (simp add: fun_eq_iff credential_matches)
  have eq: "mset rs = mset (ListSessions c m)" using rs(1) unfolding row by (simp add: ListSessions_def sqlSes.stored mset_filter)
  moreover have "sorted (map (\<lambda>x. - sesCreatedAt x) rs)" using rs(2) by (simp add: o)
  moreover have "sorted (map (\<lambda>x. - sesCreatedAt x) (ListSessions c m))" unfolding ListSessions_def by (rule sorted_sort_key)
  ultimately have "map (\<lambda>x. - sesCreatedAt x) rs = map (\<lambda>x. - sesCreatedAt x) (ListSessions c m)" by (rule sorted_same)
  then have "map uminus (map (\<lambda>x. - sesCreatedAt x) rs) = map uminus (map (\<lambda>x. - sesCreatedAt x) (ListSessions c m))" by (rule arg_cong)
  then have "map sesCreatedAt rs = map sesCreatedAt (ListSessions c m)" by (simp add: comp_def)
  then show "same_order sesCreatedAt rs (ListSessions c m)" using eq by (simp add: same_order_def)
qed

lemma sim_TouchSession:
  assumes "db_laws live seen G" "seen (sqDB s) = (tables_of m, None)" "sql_ok m"
  shows "sim live seen (=) s m (sql_TouchSession G i at s) (TouchSession i at m) \<and> sql_ok (snd (TouchSession i at m))"
proof
  show ok: "sql_ok (snd (TouchSession i at m))"
    by (rule sql_ok_same [OF assms(3) store_ok_TouchSession [OF sql_okD [OF assms(3)]]]) (simp add: TouchSession_def split: option.splits)
  show "sim live seen (=) s m (sql_TouchSession G i at s) (TouchSession i at m)"
  proof (cases "map_of (sessions m) i")
    case None
    then show ?thesis
      unfolding sql_TouchSession_def
      by (auto simp: TouchSession_def credential_matches
          intro!: sqlSes.update_missed [where k = i and P = "\<lambda>_. True", OF db_lawsD(8) [OF assms(1)] assms(2,3)])
  next
    case (Some x)
    let ?x = "x\<lparr>sesLastSeenAt := at\<rparr>" and ?n = "map (\<lambda>(j, t). (j, if j = i then t\<lparr>sesLastSeenAt := at\<rparr> else t)) (sessions m)"
    note t = sqlSes.table [OF assms(3)]
    have "map snd ?n = map (\<lambda>y. if sesID y = i then ?x else y) (map snd (sessions m))"
    proof -
      have "j = sesID y \<and> (j = i \<longrightarrow> y = x)" if "(j, y) \<in> set (sessions m)" for j y
        using table_okD(2) [OF t that] amap_ok_inj [OF table_okD(1) [OF t] that] map_of_SomeD [OF Some] by auto
      then show ?thesis by auto
    qed
    then have rows: "mset (map snd ?n) = mset (map snd (AList.update i ?x (sessions m)))"
      using rows_change [OF t Some, of ?x] by (metis mset_map)
    have "sim live seen (=) s m (sql_TouchSession G i at s) (Inr (), m\<lparr>sessions := ?n\<rparr>)"
      unfolding sql_TouchSession_def
      by (rule sqlSes.update_keyed [where k = i and P = "\<lambda>_. True" and v = x and a = "()" and f = "\<lambda>_. []" and es = "[]",
            OF db_lawsD(8) [OF assms(1)] assms(2,3)])
        (use ok Some rows in \<open>simp_all add: TouchSession_def credential_matches credential_row_set\<close>)
    then show ?thesis using Some by (simp add: TouchSession_def)
  qed
qed

lemma sim_DeleteSession:
  assumes "db_laws live seen G" "seen (sqDB s) = (tables_of m, None)" "sql_ok m"
  shows "sim live seen (=) s m (sql_DeleteSession G i s) (DeleteSession i m) \<and> sql_ok (snd (DeleteSession i m))"
proof
  have row: "row_matches session_schema [ColEq ''id'' (CText i)] = (\<lambda>x. sesID x = i)" by (simp add: fun_eq_iff credential_matches)
  have "sim live seen (=) s m (sql_DeleteSession G i s) (Inr (), snd (DeleteSession i m))"
    unfolding sql_DeleteSession_def
    by (rule sqlSes.delete_ok [where a = "()" and f = "\<lambda>_. []" and es = "[]", OF db_lawsD(8) [OF assms(1)] assms(2)])
      (use rows_drop [OF sqlSes.table [OF assms(3)], of i] in \<open>simp_all add: DeleteSession_def row sqlSes.stored\<close>)
  then show "sim live seen (=) s m (sql_DeleteSession G i s) (DeleteSession i m)" by (simp add: DeleteSession_def)
  show "sql_ok (snd (DeleteSession i m))"
    by (rule sql_ok_same [OF assms(3) store_ok_DeleteSession [OF sql_okD [OF assms(3)]]]) (simp add: DeleteSession_def)
qed

lemma sim_DeleteSessionsForOwner:
  assumes "db_laws live seen G" "seen (sqDB s) = (tables_of m, None)" "sql_ok m"
  shows "sim live seen (=) s m (sql_DeleteSessionsForOwner G c s) (DeleteSessionsForOwner c m)
    \<and> sql_ok (snd (DeleteSessionsForOwner c m))"
proof
  show "sim live seen (=) s m (sql_DeleteSessionsForOwner G c s) (DeleteSessionsForOwner c m)"
    unfolding sql_DeleteSessionsForOwner_def DeleteSessionsForOwner_def
    by (rule sqlSes.delete_where [OF db_lawsD(8) [OF assms(1)] assms(2)]) (simp_all add: credential_matches fun_eq_iff)
  show "sql_ok (snd (DeleteSessionsForOwner c m))"
    by (rule sql_ok_same [OF assms(3) store_ok_DeleteSessionsForOwner [OF sql_okD [OF assms(3)]]]) (simp add: DeleteSessionsForOwner_def)
qed

lemma sim_DeleteExpiredSessions:
  assumes "db_laws live seen G" "seen (sqDB s) = (tables_of m, None)" "sql_ok m"
  shows "sim live seen (=) s m (sql_DeleteExpiredSessions G now s) (DeleteExpiredSessions now m)
    \<and> sql_ok (snd (DeleteExpiredSessions now m))"
proof
  show "sim live seen (=) s m (sql_DeleteExpiredSessions G now s) (DeleteExpiredSessions now m)"
    unfolding sql_DeleteExpiredSessions_def DeleteExpiredSessions_def
    by (rule sqlSes.delete_where [OF db_lawsD(8) [OF assms(1)] assms(2)]) (simp_all add: credential_matches fun_eq_iff)
  show "sql_ok (snd (DeleteExpiredSessions now m))"
    by (rule sql_ok_same [OF assms(3) store_ok_DeleteExpiredSessions [OF sql_okD [OF assms(3)]]]) (simp add: DeleteExpiredSessions_def)
qed

section \<open>Passkeys\<close>

lemma sim_AddPasskey:
  assumes laws: "db_laws live seen G" "seen (sqDB s) = (tables_of m, None)" "sql_ok m" and p: "pkCreatedAt p \<noteq> zero_time"
  shows "sim live seen (=) s m (sql_AddPasskey G p s) (AddPasskey p m) \<and> sql_ok (snd (AddPasskey p m))"
proof
  note t = sqlPk.table [OF laws(3)]
  let ?M = "tPasskeys (tables_of m)" and ?go = "\<lambda>n s. if n = 0 then (Inl (Sentinel ErrPasskeyExists), s) else (Inr (), s)"
  have stamped: "scStamped passkey_schema p" using p by (simp add: schema_defs)
  have taken: "(\<exists>x \<in># ?M. collide passkey_schema p x) \<longleftrightarrow> map_of (passkeys m) (pkID p) \<noteq> None"
  proof -
    have "(\<exists>x \<in># ?M. pkID x = pkID p) \<longleftrightarrow> filter_mset (\<lambda>x. pkID x = pkID p) ?M \<noteq> {#}" by auto
    also have "\<dots> \<longleftrightarrow> map_of (passkeys m) (pkID p) \<noteq> None"
      unfolding sqlPk.stored keyed_rows [OF t] by (auto split: option.splits)
    finally show ?thesis by (simp add: sqlPk.collides eq_commute [of "pkID p"])
  qed
  show "sim live seen (=) s m (sql_AddPasskey G p s) (AddPasskey p m)"
  proof (cases "map_of (passkeys m) (pkID p)")
    case (Some q)
    then have c: "created passkey_schema DoNothing p ?M n M \<longleftrightarrow> n = 0 \<and> M = ?M" for n M
      using taken by (auto simp: created_def)
    have "sim live seen (=) s m (sql_AddPasskey G p s) (Inl (Sentinel ErrPasskeyExists), m)"
      unfolding sql_AddPasskey_def
      by (rule sqlPk.create_not [where e = "Sentinel ErrPasskeyExists", OF db_lawsD(10) [OF laws(1)] laws(2) stamped]) (simp add: c)
    then show ?thesis using Some by (simp add: AddPasskey_def)
  next
    case None
    then have c: "created passkey_schema DoNothing p ?M n M \<longleftrightarrow> n = 1 \<and> M = add_mset p ?M" for n M
      using taken by (auto simp: created_def)
    have "mset (map snd (AList.update (pkID p) p (passkeys m))) = add_mset p ?M"
      using rows_new [OF None, of p] by (simp add: sqlPk.stored)
    then have "sim live seen (=) s m (sql_AddPasskey G p s) (Inr (), m\<lparr>passkeys := AList.update (pkID p) p (passkeys m)\<rparr>)"
      unfolding sql_AddPasskey_def
      by (intro sqlPk.create_ok [where a = "()" and f = "\<lambda>_. []" and es = "[]" and n = 1 and M = "add_mset p ?M",
            OF db_lawsD(10) [OF laws(1)] laws(2) stamped]) (simp_all add: c)
    then show ?thesis using None by (simp add: AddPasskey_def)
  qed
  show "sql_ok (snd (AddPasskey p m))"
    by (rule sql_ok_same [OF laws(3) store_ok_AddPasskey [OF sql_okD [OF laws(3)]]]) (simp add: AddPasskey_def split: option.splits)
qed

lemma sim_set_passkey:
  assumes laws: "db_laws live seen G" "seen (sqDB s) = (tables_of m, None)" "sql_ok m"
    and put: "list_all (\<lambda>(c, a). \<exists>x. a = Put x) sets"
    and mem: "q = (case map_of (passkeys m) i of
        None \<Rightarrow> (Inl (Sentinel ErrPasskeyNotFound), m)
      | Some p \<Rightarrow> if pkOwner p \<noteq> c then (Inl (Sentinel ErrPasskeyNotFound), m)
          else (Inr (), m\<lparr>passkeys := AList.update i (row_set passkey_schema sets p) (passkeys m)\<rparr>))" "store_ok (snd q)"
  shows "sim live seen (=) s m
      (after (hUpdate (qPasskeys G) [ColEq ''id'' (CText i), ColEq ''owner'' (CText c)] sets (sqDB s)) s (\<lambda>e. Inl (failed e))
        (\<lambda>n s. if n = 0 then (Inl (Sentinel ErrPasskeyNotFound), s) else (Inr (), s))) q \<and> sql_ok (snd q)"
proof (cases "\<exists>p. map_of (passkeys m) i = Some p \<and> pkOwner p = c")
  case False
  then have q: "q = (Inl (Sentinel ErrPasskeyNotFound), m)" using mem(1) by (auto split: option.splits)
  show ?thesis unfolding q
    by (rule conjI, rule sqlPk.update_missed [where k = i and P = "\<lambda>p. pkOwner p = c", OF db_lawsD(10) [OF laws(1)] laws(2,3) put])
      (use False laws(3) in \<open>auto simp: credential_matches\<close>)
next
  case True
  then obtain p where p: "map_of (passkeys m) i = Some p" "pkOwner p = c" by blast
  let ?m' = "m\<lparr>passkeys := AList.update i (row_set passkey_schema sets p) (passkeys m)\<rparr>"
  have q: "q = (Inr (), ?m')" using mem(1) p by simp
  have ok: "sql_ok ?m'" using sql_ok_same [OF laws(3), of ?m'] mem(2) q by simp
  have "sim live seen (=) s m
      (after (hUpdate (qPasskeys G) [ColEq ''id'' (CText i), ColEq ''owner'' (CText c)] sets (sqDB s)) s (\<lambda>e. Inl (failed e))
        (\<lambda>n s. if n = 0 then (Inl (Sentinel ErrPasskeyNotFound), s) else (Inr (), s))) (Inr (), ?m')"
    by (rule sqlPk.update_keyed [where k = i and P = "\<lambda>p. pkOwner p = c" and v = p and a = "()" and f = "\<lambda>_. []" and es = "[]",
          OF db_lawsD(10) [OF laws(1)] laws(2,3) put])
      (use ok p in \<open>simp_all add: credential_matches\<close>)
  then show ?thesis using q ok by simp
qed

text \<open>SQL leaves the time a passkey was added alone, which the in-memory storage takes from the passkey given.\<close>

definition same_creation :: "passkey \<Rightarrow> memory \<Rightarrow> bool" where
  "same_creation p m = (case map_of (passkeys m) (pkID p) of None \<Rightarrow> True | Some q \<Rightarrow> pkCreatedAt p = pkCreatedAt q)"

lemma sim_UpdatePasskey:
  assumes laws: "db_laws live seen G" "seen (sqDB s) = (tables_of m, None)" "sql_ok m" and p: "same_creation p m"
  shows "sim live seen (=) s m (sql_UpdatePasskey G p s) (UpdatePasskey p m) \<and> sql_ok (snd (UpdatePasskey p m))"
proof -
  have "p = q\<lparr>pkName := pkName p, pkData := pkData p, pkLastUsedAt := pkLastUsedAt p\<rparr>"
    if "map_of (passkeys m) (pkID p) = Some q" "pkOwner q = pkOwner p" for q
    using that p store_keys(3) [OF sql_okD [OF laws(3)] that(1)] by (cases p; cases q) (auto simp: same_creation_def)
  then show ?thesis
    unfolding sql_UpdatePasskey_def
    by (intro sim_set_passkey [OF laws _ _ store_ok_UpdatePasskey [OF sql_okD [OF laws(3)]]])
      (auto simp: UpdatePasskey_def credential_row_set split: option.splits)
qed

lemma sim_RenamePasskey:
  assumes laws: "db_laws live seen G" "seen (sqDB s) = (tables_of m, None)" "sql_ok m"
  shows "sim live seen (=) s m (sql_RenamePasskey G c i n s) (RenamePasskey c i n m) \<and> sql_ok (snd (RenamePasskey c i n m))"
  unfolding sql_RenamePasskey_def
  by (rule sim_set_passkey [OF laws _ _ store_ok_RenamePasskey [OF sql_okD [OF laws(3)]]])
    (auto simp: RenamePasskey_def credential_row_set split: option.splits)

lemma sim_ListPasskeys:
  assumes "db_laws live seen G" "seen (sqDB s) = (tables_of m, None)"
  shows "sim live seen (same_order pkCreatedAt) s m (sql_ListPasskeys G c s, s) (Inr (ListPasskeys c m), m)"
proof (rule sqlPk.listed [where arrange = sortPasskeys, OF db_lawsD(9) [OF assms(1)] assms(2)])
  let ?ts = "[ColEq ''owner'' (CText c)]"
  show "sql_ListPasskeys G c s = (case hFind (qPasskeys G) ?ts Unordered (sqDB s) of
      Inl e \<Rightarrow> Inl (wrap_err ''failed to list the passkeys'' e) | Inr rs \<Rightarrow> Inr (sortPasskeys rs))" by (simp add: sql_ListPasskeys_def)
  fix rs
  assume rs: "mset rs = filter_mset (row_matches passkey_schema ?ts) (tPasskeys (tables_of m))"
  have row: "row_matches passkey_schema ?ts = (\<lambda>x. pkOwner x = c)" by (simp add: fun_eq_iff credential_matches)
  have eq: "mset (sortPasskeys rs) = mset (ListPasskeys c m)"
    using rs unfolding row by (simp add: ListPasskeys_def sortPasskeys_mset sqlPk.stored mset_filter)
  have "map pkCreatedAt (rev (sortPasskeys rs)) = map pkCreatedAt (rev (ListPasskeys c m))"
    using eq sortPasskeys_sorted unfolding ListPasskeys_def by (intro sorted_same) (simp_all add: rev_map)
  then show "same_order pkCreatedAt (sortPasskeys rs) (ListPasskeys c m)" using eq by (simp add: same_order_def rev_map [symmetric])
qed

lemma sim_GetPasskey:
  assumes "db_laws live seen G" "seen (sqDB s) = (tables_of m, None)" "sql_ok m"
  shows "sim live seen (=) s m (sql_GetPasskey G i s, s) (GetPasskey i m, m)"
proof -
  let ?v = "map_of (passkeys m) i"
  have "filter_mset (row_matches passkey_schema [ColEq ''id'' (CText i)]) (tPasskeys (tables_of m)) = (case ?v of None \<Rightarrow> {#} | Some v \<Rightarrow> {#v#})"
    by (rule sqlPk.lookup_keyed [OF assms(3)]) (simp add: credential_matches)
  note f = sqlPk.first_of [OF db_lawsD(9) [OF assms(1)] assms(2) this]
  show ?thesis
    by (rule sim_lookup [where v = ?v], rule assms(2))
      (use f in \<open>auto simp: sql_GetPasskey_def GetPasskey_def looked_up_def split: sum.splits option.splits\<close>)
qed

lemma sim_DeletePasskey:
  assumes "db_laws live seen G" "seen (sqDB s) = (tables_of m, None)" "sql_ok m"
  shows "sim live seen (=) s m (sql_DeletePasskey G c i s) (DeletePasskey c i m) \<and> sql_ok (snd (DeletePasskey c i m))"
proof
  show "sim live seen (=) s m (sql_DeletePasskey G c i s) (DeletePasskey c i m)"
  proof (cases "\<exists>p. map_of (passkeys m) i = Some p \<and> pkOwner p = c")
    case False
    then have "DeletePasskey c i m = (Inl (Sentinel ErrPasskeyNotFound), m)" by (auto simp: DeletePasskey_def split: option.splits)
    then show ?thesis
      unfolding sql_DeletePasskey_def using False
      by (auto simp: credential_matches
          intro!: sqlPk.delete_missed [where k = i and P = "\<lambda>p. pkOwner p = c", OF db_lawsD(10) [OF assms(1)] assms(2,3)])
  next
    case True
    then obtain p where "map_of (passkeys m) i = Some p" "pkOwner p = c" by blast
    then show ?thesis
      unfolding sql_DeletePasskey_def
      by (auto simp: DeletePasskey_def credential_matches
          intro!: sqlPk.delete_keyed [where k = i and P = "\<lambda>p. pkOwner p = c" and v = p, OF db_lawsD(10) [OF assms(1)] assms(2,3)])
  qed
  show "sql_ok (snd (DeletePasskey c i m))"
    by (rule sql_ok_same [OF assms(3) store_ok_DeletePasskey [OF sql_okD [OF assms(3)]]]) (simp add: DeletePasskey_def split: option.splits)
qed

end
