(* ===== verification/Sql_Refinement.thy ===== *)
theory Sql_Refinement
  imports Sql_Credentials
begin

text \<open>
  The SQL storage as a whole against the in-memory storage: every method of the interface \<^verbatim>\<open>Storage\<close> that works on the data is a
  call, \<open>sql_call\<close> and \<open>mem_call\<close> run it, and \<open>proper\<close> says when the two agree.
\<close>

section \<open>Calls\<close>

datatype store_call =
    DoSave device
  | DoRecordMetadata "metadata_update list"
  | DoRename device string
  | DoSetAccess device bool "instant option"
  | DoSetRoutes device string
  | DoSetKeys device string string
  | DoAddresses
  | DoList string
  | DoGet string string
  | DoGetByPublicKey string
  | DoDelete device
  | DoDeleteForOwner string
  | DoBlockForOwner string
  | DoSaveUser user
  | DoSetUserTOTP string totp_state
  | DoSetUserPassword string string string
  | DoGetUser string
  | DoUsers
  | DoDeleteUser string
  | DoSaveToken api_token
  | DoListTokens string
  | DoGetToken string
  | DoGetTokenByHash string
  | DoTouchToken string instant
  | DoDeleteToken string
  | DoDeleteTokensForOwner string
  | DoSaveSession session
  | DoGetSessionByHash string
  | DoListSessions string
  | DoTouchSession string instant
  | DoDeleteSession string
  | DoDeleteSessionsForOwner string
  | DoDeleteExpiredSessions instant
  | DoAddPasskey passkey
  | DoUpdatePasskey passkey
  | DoRenamePasskey string string string
  | DoListPasskeys string
  | DoGetPasskey string
  | DoDeletePasskey string string
  | DoSetWebauthnChallenge string string "instant option"

datatype store_answer =
    ADone | ACount nat | AAddresses "string list" | ADevice device | ADevices "device list" | AUser user | AUsers "user list"
  | AToken api_token | ATokens "api_token list" | ASession session | ASessions "session list" | APasskey passkey | APasskeys "passkey list"

definition answered :: "('a \<Rightarrow> 'b) \<Rightarrow> 'a res \<times> 's \<Rightarrow> 'b res \<times> 's" where
  "answered f q = (case q of (Inl e, s) \<Rightarrow> (Inl e, s) | (Inr a, s) \<Rightarrow> (Inr (f a), s))"

fun sql_call :: "'db gorm \<Rightarrow> store_call \<Rightarrow> 'db sql_storage \<Rightarrow> store_answer res \<times> 'db sql_storage" where
  "sql_call G (DoSave a) s = answered (\<lambda>_. ADone) (sql_Save G a s)"
| "sql_call G (DoRecordMetadata a) s = answered (\<lambda>_. ADone) (sql_RecordMetadata G a s)"
| "sql_call G (DoRename a b) s = answered ADevice (sql_Rename G a b s)"
| "sql_call G (DoSetAccess a b c) s = answered ADevice (sql_SetAccess G a b c s)"
| "sql_call G (DoSetRoutes a b) s = answered ADevice (sql_SetRoutes G a b s)"
| "sql_call G (DoSetKeys a b c) s = answered ADevice (sql_SetKeys G a b c s)"
| "sql_call G DoAddresses s = answered AAddresses (sql_Addresses G s, s)"
| "sql_call G (DoList a) s = answered ADevices (sql_List G a s, s)"
| "sql_call G (DoGet a b) s = answered ADevice (sql_Get G a b s, s)"
| "sql_call G (DoGetByPublicKey a) s = answered ADevice (sql_GetByPublicKey G a s, s)"
| "sql_call G (DoDelete a) s = answered (\<lambda>_. ADone) (sql_Delete G a s)"
| "sql_call G (DoDeleteForOwner a) s = answered ADevices (sql_DeleteForOwner G a s)"
| "sql_call G (DoBlockForOwner a) s = answered ADevices (sql_BlockForOwner G a s)"
| "sql_call G (DoSaveUser a) s = answered (\<lambda>_. ADone) (sql_SaveUser G a s)"
| "sql_call G (DoSetUserTOTP a b) s = answered (\<lambda>_. ADone) (sql_SetUserTOTP G a b s)"
| "sql_call G (DoSetUserPassword a b c) s = answered (\<lambda>_. ADone) (sql_SetUserPassword G a b c s)"
| "sql_call G (DoGetUser a) s = answered AUser (sql_GetUser G a s, s)"
| "sql_call G DoUsers s = answered AUsers (sql_Users G s, s)"
| "sql_call G (DoDeleteUser a) s = answered (\<lambda>_. ADone) (sql_DeleteUser G a s)"
| "sql_call G (DoSaveToken a) s = answered (\<lambda>_. ADone) (sql_SaveToken G a s)"
| "sql_call G (DoListTokens a) s = answered ATokens (sql_ListTokens G a s, s)"
| "sql_call G (DoGetToken a) s = answered AToken (sql_GetToken G a s, s)"
| "sql_call G (DoGetTokenByHash a) s = answered AToken (sql_GetTokenByHash G a s, s)"
| "sql_call G (DoTouchToken a b) s = answered (\<lambda>_. ADone) (sql_TouchToken G a b s)"
| "sql_call G (DoDeleteToken a) s = answered (\<lambda>_. ADone) (sql_DeleteToken G a s)"
| "sql_call G (DoDeleteTokensForOwner a) s = answered ACount (sql_DeleteTokensForOwner G a s)"
| "sql_call G (DoSaveSession a) s = answered (\<lambda>_. ADone) (sql_SaveSession G a s)"
| "sql_call G (DoGetSessionByHash a) s = answered ASession (sql_GetSessionByHash G a s, s)"
| "sql_call G (DoListSessions a) s = answered ASessions (sql_ListSessions G a s, s)"
| "sql_call G (DoTouchSession a b) s = answered (\<lambda>_. ADone) (sql_TouchSession G a b s)"
| "sql_call G (DoDeleteSession a) s = answered (\<lambda>_. ADone) (sql_DeleteSession G a s)"
| "sql_call G (DoDeleteSessionsForOwner a) s = answered ACount (sql_DeleteSessionsForOwner G a s)"
| "sql_call G (DoDeleteExpiredSessions a) s = answered ACount (sql_DeleteExpiredSessions G a s)"
| "sql_call G (DoAddPasskey a) s = answered (\<lambda>_. ADone) (sql_AddPasskey G a s)"
| "sql_call G (DoUpdatePasskey a) s = answered (\<lambda>_. ADone) (sql_UpdatePasskey G a s)"
| "sql_call G (DoRenamePasskey a b c) s = answered (\<lambda>_. ADone) (sql_RenamePasskey G a b c s)"
| "sql_call G (DoListPasskeys a) s = answered APasskeys (sql_ListPasskeys G a s, s)"
| "sql_call G (DoGetPasskey a) s = answered APasskey (sql_GetPasskey G a s, s)"
| "sql_call G (DoDeletePasskey a b) s = answered (\<lambda>_. ADone) (sql_DeletePasskey G a b s)"
| "sql_call G (DoSetWebauthnChallenge a b c) s = answered (\<lambda>_. ADone) (sql_SetWebauthnChallenge G a b c s)"

fun mem_call :: "store_call \<Rightarrow> memory \<Rightarrow> store_answer res \<times> memory" where
  "mem_call (DoSave a) m = answered (\<lambda>_. ADone) (Save a m)"
| "mem_call (DoRecordMetadata a) m = answered (\<lambda>_. ADone) (RecordMetadata a m)"
| "mem_call (DoRename a b) m = answered ADevice (Rename a b m)"
| "mem_call (DoSetAccess a b c) m = answered ADevice (SetAccess a b c m)"
| "mem_call (DoSetRoutes a b) m = answered ADevice (SetRoutes a b m)"
| "mem_call (DoSetKeys a b c) m = answered ADevice (SetKeys a b c m)"
| "mem_call DoAddresses m = answered AAddresses (Inr (Addresses m), m)"
| "mem_call (DoList a) m = answered ADevices (Inr (List_devices a m), m)"
| "mem_call (DoGet a b) m = answered ADevice (Get a b m, m)"
| "mem_call (DoGetByPublicKey a) m = answered ADevice (GetByPublicKey a m, m)"
| "mem_call (DoDelete a) m = answered (\<lambda>_. ADone) (Delete a m)"
| "mem_call (DoDeleteForOwner a) m = answered ADevices (DeleteForOwner a m)"
| "mem_call (DoBlockForOwner a) m = answered ADevices (BlockForOwner a m)"
| "mem_call (DoSaveUser a) m = answered (\<lambda>_. ADone) (SaveUser a m)"
| "mem_call (DoSetUserTOTP a b) m = answered (\<lambda>_. ADone) (SetUserTOTP a b m)"
| "mem_call (DoSetUserPassword a b c) m = answered (\<lambda>_. ADone) (SetUserPassword a b c m)"
| "mem_call (DoGetUser a) m = answered AUser (GetUser a m, m)"
| "mem_call DoUsers m = answered AUsers (Inr (Users m), m)"
| "mem_call (DoDeleteUser a) m = answered (\<lambda>_. ADone) (DeleteUser a m)"
| "mem_call (DoSaveToken a) m = answered (\<lambda>_. ADone) (SaveToken a m)"
| "mem_call (DoListTokens a) m = answered ATokens (Inr (ListTokens a m), m)"
| "mem_call (DoGetToken a) m = answered AToken (GetToken a m, m)"
| "mem_call (DoGetTokenByHash a) m = answered AToken (GetTokenByHash a m, m)"
| "mem_call (DoTouchToken a b) m = answered (\<lambda>_. ADone) (TouchToken a b m)"
| "mem_call (DoDeleteToken a) m = answered (\<lambda>_. ADone) (DeleteToken a m)"
| "mem_call (DoDeleteTokensForOwner a) m = answered ACount (DeleteTokensForOwner a m)"
| "mem_call (DoSaveSession a) m = answered (\<lambda>_. ADone) (SaveSession a m)"
| "mem_call (DoGetSessionByHash a) m = answered ASession (GetSessionByHash a m, m)"
| "mem_call (DoListSessions a) m = answered ASessions (Inr (ListSessions a m), m)"
| "mem_call (DoTouchSession a b) m = answered (\<lambda>_. ADone) (TouchSession a b m)"
| "mem_call (DoDeleteSession a) m = answered (\<lambda>_. ADone) (DeleteSession a m)"
| "mem_call (DoDeleteSessionsForOwner a) m = answered ACount (DeleteSessionsForOwner a m)"
| "mem_call (DoDeleteExpiredSessions a) m = answered ACount (DeleteExpiredSessions a m)"
| "mem_call (DoAddPasskey a) m = answered (\<lambda>_. ADone) (AddPasskey a m)"
| "mem_call (DoUpdatePasskey a) m = answered (\<lambda>_. ADone) (UpdatePasskey a m)"
| "mem_call (DoRenamePasskey a b c) m = answered (\<lambda>_. ADone) (RenamePasskey a b c m)"
| "mem_call (DoListPasskeys a) m = answered APasskeys (Inr (ListPasskeys a m), m)"
| "mem_call (DoGetPasskey a) m = answered APasskey (GetPasskey a m, m)"
| "mem_call (DoDeletePasskey a b) m = answered (\<lambda>_. ADone) (DeletePasskey a b m)"
| "mem_call (DoSetWebauthnChallenge a b c) m = answered (\<lambda>_. ADone) (SetWebauthnChallenge a b c m)"

text \<open>The same answer, up to the order of a list that has none, and of rows that were added at the same instant.\<close>

definition same_answer :: "store_answer \<Rightarrow> store_answer \<Rightarrow> bool" where
  "same_answer x y =
     (case x of
        AAddresses xs \<Rightarrow> \<exists>ys. y = AAddresses ys \<and> mset xs = mset ys
      | ADevices xs \<Rightarrow> \<exists>ys. y = ADevices ys \<and> mset xs = mset ys
      | AUsers xs \<Rightarrow> \<exists>ys. y = AUsers ys \<and> mset xs = mset ys
      | ATokens xs \<Rightarrow> \<exists>ys. y = ATokens ys \<and> same_order tokCreatedAt xs ys
      | ASessions xs \<Rightarrow> \<exists>ys. y = ASessions ys \<and> same_order sesCreatedAt xs ys
      | APasskeys xs \<Rightarrow> \<exists>ys. y = APasskeys ys \<and> same_order pkCreatedAt xs ys
      | _ \<Rightarrow> x = y)"

lemma same_answer_simps [simp]:
  "same_answer (AAddresses xs) (AAddresses ys) = (mset xs = mset ys)"
  "same_answer (ADevices ds) (ADevices es) = (mset ds = mset es)"
  "same_answer (AUsers us) (AUsers vs) = (mset us = mset vs)"
  "same_answer (ATokens ts) (ATokens rs) = same_order tokCreatedAt ts rs"
  "same_answer (ASessions ps) (ASessions qs) = same_order sesCreatedAt ps qs"
  "same_answer (APasskeys ks) (APasskeys ls) = same_order pkCreatedAt ks ls"
  "same_answer ADone ADone" "same_answer (ADevice d) (ADevice e) = (d = e)"
  by (simp_all add: same_answer_def)

text \<open>
  The calls on which the two storages agree: a device is new when it is saved, and as it is stored when it is changed; a new
  name is free; public keys are not empty and sums of traffic fit; a sign-in carries the challenge and the last step that
  are stored; a token or a session has a new id, a passkey keeps the time it was added.
\<close>

fun proper :: "store_call \<Rightarrow> memory \<Rightarrow> bool" where
  "proper (DoSave d) m = (map_of (db m) (key d) = None \<and> devPublicKey d \<noteq> [] \<and> key d \<noteq> ([], []) \<and> devCreatedAt d \<noteq> zero_time)"
| "proper (DoRecordMetadata us) m =
     (list_all (\<lambda>u. updPublicKey u \<noteq> []) us \<and> list_all (\<lambda>(k, d). metadata_fits us d) (db m))"
| "proper (DoRename d n) m = (current_device d m \<and> n \<noteq> [] \<and> (n = devName d \<or> map_of (db m) (devOwner d, n) = None))"
| "proper (DoSetAccess d b t) m = current_device d m"
| "proper (DoSetRoutes d r) m = current_device d m"
| "proper (DoSetKeys d p q) m = (current_device d m \<and> p \<noteq> [])"
| "proper (DoDelete d) m = (key d \<noteq> ([], []))"
| "proper (DoSaveUser u) m = login_keeps u m"
| "proper (DoSaveToken t) m = (map_of (tokens m) (tokID t) = None \<and> tokCreatedAt t \<noteq> zero_time)"
| "proper (DoSaveSession x) m = (map_of (sessions m) (sesID x) = None \<and> sesCreatedAt x \<noteq> zero_time)"
| "proper (DoAddPasskey p) m = (pkCreatedAt p \<noteq> zero_time)"
| "proper (DoUpdatePasskey p) m = same_creation p m"
| "proper c m = True"

section \<open>One call\<close>

lemma sim_answered:
  assumes "sim live seen same s m q p" "\<And>a b. same a b \<Longrightarrow> same' (f a) (g b)"
  shows "sim live seen same' s m (answered f q) (answered g p)"
proof -
  obtain r s' r' m' where q: "q = (r, s')" and p: "p = (r', m')" by fastforce
  show ?thesis using assms unfolding q p by (cases r; cases r') (auto simp: sim_def answered_def)
qed

lemma snd_answered [simp]: "snd (answered f q) = snd q"
  by (simp add: answered_def split: prod.splits sum.splits)

lemma answered_Inl: "fst (answered f q) = Inl e \<longleftrightarrow> fst q = Inl e"
  by (simp add: answered_def split: prod.splits sum.splits)

lemma same_answer_refl [simp]: "same_answer a a"
  by (cases a) (simp_all add: same_answer_def same_order_def)

lemma answered_sim:
  assumes "sim live seen (=) s m q p \<and> sql_ok (snd p)"
  shows "sim live seen same_answer s m (answered f q) (answered f p) \<and> sql_ok (snd (answered f p))"
  using assms by (auto intro: sim_answered)

text \<open>What the SQL storage tells of a call: a delete twice (its hook and the storage both do), everything else once.\<close>

fun told_in_sql :: "store_call \<Rightarrow> memory \<Rightarrow> 'b \<times> memory \<Rightarrow> 'b \<times> memory" where
  "told_in_sql (DoDelete d) m p = told_twice m p"
| "told_in_sql c m p = p"

lemma told_twice_answered: "told_twice m (answered f p) = answered f (told_twice m p)"
  by (simp add: told_twice_def answered_def split: prod.splits sum.splits)

lemma told_in_sql_simps:
  "fst (told_in_sql c m p) = fst p" "tables_of (snd (told_in_sql c m p)) = tables_of (snd p)"
  by (cases c; simp add: told_twice_def)+

lemma sim_call:
  assumes laws: "db_laws live seen G" "seen (sqDB s) = (tables_of m, None)" "sql_ok m" "sqWatcher s = GormWatcher" and p: "proper c m"
  shows "sim live seen same_answer s m (sql_call G c s) (told_in_sql c m (mem_call c m)) \<and> sql_ok (snd (mem_call c m))"
proof (cases c)
  case (DoSave x1)
  show ?thesis unfolding DoSave sql_call.simps mem_call.simps told_in_sql.simps
    by (rule answered_sim, rule sim_Save [OF laws]) (use p DoSave in \<open>auto simp: list_all_iff\<close>)
next
  case (DoRecordMetadata x1)
  show ?thesis unfolding DoRecordMetadata sql_call.simps mem_call.simps told_in_sql.simps
    by (rule answered_sim, rule sim_RecordMetadata [OF laws(1-3)]) (use p DoRecordMetadata in \<open>auto simp: list_all_iff\<close>)
next
  case (DoRename x1 x2)
  show ?thesis unfolding DoRename sql_call.simps mem_call.simps told_in_sql.simps
    by (rule answered_sim, rule sim_Rename [OF laws]) (use p DoRename in \<open>auto simp: list_all_iff\<close>)
next
  case (DoSetAccess x1 x2 x3)
  show ?thesis unfolding DoSetAccess sql_call.simps mem_call.simps told_in_sql.simps
    by (rule answered_sim, rule sim_SetAccess [OF laws]) (use p DoSetAccess in \<open>auto simp: list_all_iff\<close>)
next
  case (DoSetRoutes x1 x2)
  show ?thesis unfolding DoSetRoutes sql_call.simps mem_call.simps told_in_sql.simps
    by (rule answered_sim, rule sim_SetRoutes [OF laws]) (use p DoSetRoutes in \<open>auto simp: list_all_iff\<close>)
next
  case (DoSetKeys x1 x2 x3)
  show ?thesis unfolding DoSetKeys sql_call.simps mem_call.simps told_in_sql.simps
    by (rule answered_sim, rule sim_SetKeys [OF laws]) (use p DoSetKeys in \<open>auto simp: list_all_iff\<close>)
next
  case DoAddresses
  show ?thesis unfolding DoAddresses sql_call.simps mem_call.simps told_in_sql.simps snd_answered
    by (rule conjI, rule sim_answered [OF sim_Addresses [OF laws(1,2)]]) (simp_all add: laws(3))
next
  case (DoList x1)
  show ?thesis unfolding DoList sql_call.simps mem_call.simps told_in_sql.simps snd_answered
    by (rule conjI, rule sim_answered [OF sim_List [OF laws(1,2)]]) (simp_all add: laws(3))
next
  case (DoGet x1 x2)
  show ?thesis unfolding DoGet sql_call.simps mem_call.simps told_in_sql.simps snd_answered
    by (rule conjI, rule sim_answered [OF sim_Get [OF laws(1-3)]]) (simp_all add: laws(3))
next
  case (DoGetByPublicKey x1)
  show ?thesis unfolding DoGetByPublicKey sql_call.simps mem_call.simps told_in_sql.simps snd_answered
    by (rule conjI, rule sim_answered [OF sim_GetByPublicKey [OF laws(1-3)]]) (simp_all add: laws(3))
next
  case (DoDelete x1)
  have "sim live seen (=) s m (sql_Delete G x1 s) (told_twice m (Delete x1 m)) \<and> sql_ok (snd (Delete x1 m))"
    by (rule sim_Delete [OF laws]) (use p DoDelete in simp)
  then show ?thesis unfolding DoDelete sql_call.simps mem_call.simps told_in_sql.simps told_twice_answered snd_answered
    by (auto intro: sim_answered)
next
  case (DoDeleteForOwner x1)
  show ?thesis unfolding DoDeleteForOwner sql_call.simps mem_call.simps told_in_sql.simps snd_answered
    by (rule conjI, rule sim_answered [OF conjunct1 [OF sim_DeleteForOwner [OF laws]]]) (simp_all add: sim_DeleteForOwner [OF laws])
next
  case (DoBlockForOwner x1)
  show ?thesis unfolding DoBlockForOwner sql_call.simps mem_call.simps told_in_sql.simps snd_answered
    by (rule conjI, rule sim_answered [OF conjunct1 [OF sim_BlockForOwner [OF laws]]]) (simp_all add: sim_BlockForOwner [OF laws])
next
  case (DoSaveUser x1)
  show ?thesis unfolding DoSaveUser sql_call.simps mem_call.simps told_in_sql.simps
    by (rule answered_sim, rule sim_SaveUser [OF laws(1-3)]) (use p DoSaveUser in \<open>auto simp: list_all_iff\<close>)
next
  case (DoSetUserTOTP x1 x2)
  show ?thesis unfolding DoSetUserTOTP sql_call.simps mem_call.simps told_in_sql.simps
    by (rule answered_sim, rule sim_SetUserTOTP [OF laws(1-3)])
next
  case (DoSetUserPassword x1 x2 x3)
  show ?thesis unfolding DoSetUserPassword sql_call.simps mem_call.simps told_in_sql.simps
    by (rule answered_sim, rule sim_SetUserPassword [OF laws(1-3)])
next
  case (DoGetUser x1)
  show ?thesis unfolding DoGetUser sql_call.simps mem_call.simps told_in_sql.simps snd_answered
    by (rule conjI, rule sim_answered [OF sim_GetUser [OF laws(1-3)]]) (simp_all add: laws(3))
next
  case DoUsers
  show ?thesis unfolding DoUsers sql_call.simps mem_call.simps told_in_sql.simps snd_answered
    by (rule conjI, rule sim_answered [OF sim_Users [OF laws(1,2)]]) (simp_all add: laws(3))
next
  case (DoDeleteUser x1)
  show ?thesis unfolding DoDeleteUser sql_call.simps mem_call.simps told_in_sql.simps
    by (rule answered_sim, rule sim_DeleteUser [OF laws(1-3)])
next
  case (DoSaveToken x1)
  show ?thesis unfolding DoSaveToken sql_call.simps mem_call.simps told_in_sql.simps
    by (rule answered_sim, rule sim_SaveToken [OF laws(1-3)]) (use p DoSaveToken in \<open>auto simp: list_all_iff\<close>)
next
  case (DoListTokens x1)
  show ?thesis unfolding DoListTokens sql_call.simps mem_call.simps told_in_sql.simps snd_answered
    by (rule conjI, rule sim_answered [OF sim_ListTokens [OF laws(1,2)]]) (simp_all add: laws(3))
next
  case (DoGetToken x1)
  show ?thesis unfolding DoGetToken sql_call.simps mem_call.simps told_in_sql.simps snd_answered
    by (rule conjI, rule sim_answered [OF sim_GetToken [OF laws(1-3)]]) (simp_all add: laws(3))
next
  case (DoGetTokenByHash x1)
  show ?thesis unfolding DoGetTokenByHash sql_call.simps mem_call.simps told_in_sql.simps snd_answered
    by (rule conjI, rule sim_answered [OF sim_GetTokenByHash [OF laws(1-3)]]) (simp_all add: laws(3))
next
  case (DoTouchToken x1 x2)
  show ?thesis unfolding DoTouchToken sql_call.simps mem_call.simps told_in_sql.simps
    by (rule answered_sim, rule sim_TouchToken [OF laws(1-3)])
next
  case (DoDeleteToken x1)
  show ?thesis unfolding DoDeleteToken sql_call.simps mem_call.simps told_in_sql.simps
    by (rule answered_sim, rule sim_DeleteToken [OF laws(1-3)])
next
  case (DoDeleteTokensForOwner x1)
  show ?thesis unfolding DoDeleteTokensForOwner sql_call.simps mem_call.simps told_in_sql.simps
    by (rule answered_sim, rule sim_DeleteTokensForOwner [OF laws(1-3)])
next
  case (DoSaveSession x1)
  show ?thesis unfolding DoSaveSession sql_call.simps mem_call.simps told_in_sql.simps
    by (rule answered_sim, rule sim_SaveSession [OF laws(1-3)]) (use p DoSaveSession in \<open>auto simp: list_all_iff\<close>)
next
  case (DoGetSessionByHash x1)
  show ?thesis unfolding DoGetSessionByHash sql_call.simps mem_call.simps told_in_sql.simps snd_answered
    by (rule conjI, rule sim_answered [OF sim_GetSessionByHash [OF laws(1-3)]]) (simp_all add: laws(3))
next
  case (DoListSessions x1)
  show ?thesis unfolding DoListSessions sql_call.simps mem_call.simps told_in_sql.simps snd_answered
    by (rule conjI, rule sim_answered [OF sim_ListSessions [OF laws(1,2)]]) (simp_all add: laws(3))
next
  case (DoTouchSession x1 x2)
  show ?thesis unfolding DoTouchSession sql_call.simps mem_call.simps told_in_sql.simps
    by (rule answered_sim, rule sim_TouchSession [OF laws(1-3)])
next
  case (DoDeleteSession x1)
  show ?thesis unfolding DoDeleteSession sql_call.simps mem_call.simps told_in_sql.simps
    by (rule answered_sim, rule sim_DeleteSession [OF laws(1-3)])
next
  case (DoDeleteSessionsForOwner x1)
  show ?thesis unfolding DoDeleteSessionsForOwner sql_call.simps mem_call.simps told_in_sql.simps
    by (rule answered_sim, rule sim_DeleteSessionsForOwner [OF laws(1-3)])
next
  case (DoDeleteExpiredSessions x1)
  show ?thesis unfolding DoDeleteExpiredSessions sql_call.simps mem_call.simps told_in_sql.simps
    by (rule answered_sim, rule sim_DeleteExpiredSessions [OF laws(1-3)])
next
  case (DoAddPasskey x1)
  show ?thesis unfolding DoAddPasskey sql_call.simps mem_call.simps told_in_sql.simps
    by (rule answered_sim, rule sim_AddPasskey [OF laws(1-3)]) (use p DoAddPasskey in \<open>auto simp: list_all_iff\<close>)
next
  case (DoUpdatePasskey x1)
  show ?thesis unfolding DoUpdatePasskey sql_call.simps mem_call.simps told_in_sql.simps
    by (rule answered_sim, rule sim_UpdatePasskey [OF laws(1-3)]) (use p DoUpdatePasskey in \<open>auto simp: list_all_iff\<close>)
next
  case (DoRenamePasskey x1 x2 x3)
  show ?thesis unfolding DoRenamePasskey sql_call.simps mem_call.simps told_in_sql.simps
    by (rule answered_sim, rule sim_RenamePasskey [OF laws(1-3)])
next
  case (DoListPasskeys x1)
  show ?thesis unfolding DoListPasskeys sql_call.simps mem_call.simps told_in_sql.simps snd_answered
    by (rule conjI, rule sim_answered [OF sim_ListPasskeys [OF laws(1,2)]]) (simp_all add: laws(3))
next
  case (DoGetPasskey x1)
  show ?thesis unfolding DoGetPasskey sql_call.simps mem_call.simps told_in_sql.simps snd_answered
    by (rule conjI, rule sim_answered [OF sim_GetPasskey [OF laws(1-3)]]) (simp_all add: laws(3))
next
  case (DoDeletePasskey x1 x2)
  show ?thesis unfolding DoDeletePasskey sql_call.simps mem_call.simps told_in_sql.simps
    by (rule answered_sim, rule sim_DeletePasskey [OF laws(1-3)])
next
  case (DoSetWebauthnChallenge x1 x2 x3)
  show ?thesis unfolding DoSetWebauthnChallenge sql_call.simps mem_call.simps told_in_sql.simps
    by (rule answered_sim, rule sim_SetWebauthnChallenge [OF laws(1-3)])
qed

text \<open>A call the in-memory storage refuses changes nothing.\<close>

lemma mem_call_refused:
  assumes "fst (mem_call c m) = Inl e"
  shows "snd (mem_call c m) = m"
  using assms
  by (cases c)
    (auto simp: answered_Inl Save_def RecordMetadata_def Rename_def SetAccess_def SetRoutes_def SetKeys_def Delete_def DeleteForOwner_def
      BlockForOwner_def SaveUser_def SetUserTOTP_def SetUserPassword_def DeleteUser_def SaveToken_def TouchToken_def DeleteToken_def
      DeleteTokensForOwner_def SaveSession_def TouchSession_def DeleteSession_def DeleteSessionsForOwner_def DeleteExpiredSessions_def
      AddPasskey_def UpdatePasskey_def RenamePasskey_def DeletePasskey_def SetWebauthnChallenge_def Let_def
      split: option.splits if_splits)

text \<open>How often the events of a call are told.\<close>

fun repeated :: "store_call \<Rightarrow> nat" where
  "repeated (DoDelete d) = 2"
| "repeated c = 1"

lemma told_in_sql_events:
  assumes "emitted (snd (told_in_sql c m (mem_call c m))) = emitted m @ es"
  shows "\<exists>es'. emitted (snd (mem_call c m)) = emitted m @ es' \<and> es = concat (replicate (repeated c) es')"
  using assms by (cases c) (auto simp: told_twice_def Delete_def numeral_2_eq_2)

text \<open>
  C19. The SQL storage does what the in-memory storage does, whatever the database does, with the watcher of SQLite and
  MySQL and for every call that is \<open>proper\<close>: one on which the two agree at all.  That leaves out saving a device that is stored already, a sign-in
  whose user record carries another challenge or last step of the second factor than are stored (there the in-memory
  storage forgets what the tables keep), changes of a device that is not as it is stored, and ids used twice.
  A call that gives a result gives the one of the in-memory storage, the tables hold the same afterwards, and
  the same changes of devices were told equally often, but for the delete of a device, which is told twice.
  With an error nobody was told anything, and the tables are as before (or, when the commit of a transaction fails, as
  they would be after): never half of it.  A database that answers leaves only the errors of the in-memory storage.
\<close>

theorem sql_refines_memory:
  assumes "db_laws live seen G" "seen (sqDB s) = (tables_of m, None)" "sql_ok m" "sqWatcher s = GormWatcher" "proper c m"
    and "sql_call G c s = (r, s')" "mem_call c m = (r', m')"
  shows "(case r of
      Inr a \<Rightarrow>
        (\<exists>b. r' = Inr b \<and> same_answer a b) \<and> seen (sqDB s') = (tables_of m', None) \<and>
        (\<exists>es es'. sqEmitted s' = sqEmitted s @ es \<and> emitted m' = emitted m @ es' \<and>
           mset es = mset (concat (replicate (repeated c) es')))
    | Inl e \<Rightarrow>
        sqEmitted s' = sqEmitted s \<and> (seen (sqDB s') = (tables_of m, None) \<or> seen (sqDB s') = (tables_of m', None))) \<and>
    (live \<longrightarrow> is_ok r = is_ok r') \<and> sql_ok m'"
proof -
  have *: "sim live seen same_answer s m (r, s') (told_in_sql c m (r', m')) \<and> sql_ok m'"
    using sim_call [OF assms(1-5)] assms(6,7) by simp
  have tables: "fst (told_in_sql c m (r', m')) = r'" "tables_of (snd (told_in_sql c m (r', m'))) = tables_of m'"
    by (simp_all add: told_in_sql_simps)
  show ?thesis
  proof (cases r)
    case (Inl e)
    then show ?thesis using * by (auto simp: sim_def prod_eq_iff tables)
  next
    case (Inr a)
    then obtain es es'' where es: "sqEmitted s' = sqEmitted s @ es" "mset es = mset es''"
      "emitted (snd (told_in_sql c m (mem_call c m))) = emitted m @ es''"
      using * assms(7) by (auto simp: sim_def)
    then show ?thesis using told_in_sql_events [OF es(3)] * Inr assms(7) by (auto simp: sim_def prod_eq_iff tables)
  qed
qed

section \<open>Many calls\<close>

fun sql_run :: "'db gorm \<Rightarrow> store_call list \<Rightarrow> 'db sql_storage \<Rightarrow> store_answer res list \<times> 'db sql_storage" where
  "sql_run G [] s = ([], s)"
| "sql_run G (c # cs) s = (let (r, s) = sql_call G c s; (rs, s) = sql_run G cs s in (r # rs, s))"

fun mem_run :: "store_call list \<Rightarrow> memory \<Rightarrow> store_answer res list \<times> memory" where
  "mem_run [] m = ([], m)"
| "mem_run (c # cs) m = (let (r, m) = mem_call c m; (rs, m) = mem_run cs m in (r # rs, m))"

fun proper_run :: "store_call list \<Rightarrow> memory \<Rightarrow> bool" where
  "proper_run [] m = True"
| "proper_run (c # cs) m = (proper c m \<and> proper_run cs (snd (mem_call c m)))"

definition same_result :: "store_answer res \<Rightarrow> store_answer res \<Rightarrow> bool" where
  "same_result r r' = (case r of Inl e \<Rightarrow> \<not> is_ok r' | Inr a \<Rightarrow> \<exists>b. r' = Inr b \<and> same_answer a b)"

lemma call_live:
  assumes "db_laws True seen G" "seen (sqDB s) = (tables_of m, None)" "sql_ok m" "sqWatcher s = GormWatcher" "proper c m"
  shows "same_result (fst (sql_call G c s)) (fst (mem_call c m))"
    "seen (sqDB (snd (sql_call G c s))) = (tables_of (snd (mem_call c m)), None)"
    "sql_ok (snd (mem_call c m))" "sqWatcher (snd (sql_call G c s)) = GormWatcher"
proof -
  obtain r s' where q: "sql_call G c s = (r, s')" by fastforce
  obtain r' m' where p: "mem_call c m = (r', m')" by fastforce
  have *: "sim True seen same_answer s m (r, s') (told_in_sql c m (r', m'))" "sql_ok m'" using sim_call [OF assms] q p by simp_all
  have m': "m' = m" if "r' = Inl e" for e using mem_call_refused [of c m e] that p by simp
  show "same_result (fst (sql_call G c s)) (fst (mem_call c m))"
    using * unfolding q p by (auto simp: sim_def same_result_def told_in_sql_simps split: sum.splits)
  show "seen (sqDB (snd (sql_call G c s))) = (tables_of (snd (mem_call c m)), None)"
    using * m' unfolding q p by (cases r; cases r') (auto simp: sim_def prod_eq_iff told_in_sql_simps)
  show "sql_ok (snd (mem_call c m))" "sqWatcher (snd (sql_call G c s)) = GormWatcher"
    using * assms(4) unfolding q p by (simp_all add: sim_def)
qed

text \<open>
  C20. A server does not notice which storage it has.  On a database that answers, any sequence of proper calls gives
  the same results as on the in-memory storage, call by call, and the tables hold at the end what it holds.
\<close>

theorem sql_runs_as_memory:
  assumes "db_laws True seen G" "seen (sqDB s) = (tables_of m, None)" "sql_ok m" "sqWatcher s = GormWatcher" "proper_run cs m"
  shows "list_all2 same_result (fst (sql_run G cs s)) (fst (mem_run cs m)) \<and>
    seen (sqDB (snd (sql_run G cs s))) = (tables_of (snd (mem_run cs m)), None)"
  using assms(2-5)
proof (induction cs arbitrary: s m)
  case (Cons c cs)
  then have c: "proper c m" "proper_run cs (snd (mem_call c m))" by simp_all
  note step = call_live [OF assms(1) Cons.prems(1-3) c(1)]
  show ?case using Cons.IH [OF step(2-4) c(2)] step(1) by (simp add: case_prod_beta Let_def)
qed simp

end
