(* ===== verification/Sql_Site.thy ===== *)
theory Sql_Site
  imports Sql_Refinement
begin

text \<open>
  A database that satisfies what the SQL storage relies on: tables as lists of rows, every statement computed, and a
  transaction that remembers what the tables were.  The refinement applies to it.
\<close>

section \<open>A database\<close>

record row_lists =
  rlDevices :: "device list"
  rlUsers :: "user list"
  rlTokens :: "api_token list"
  rlSessions :: "session list"
  rlPasskeys :: "passkey list"

type_synonym list_db = "row_lists \<times> row_lists option"

definition rl_tables :: "row_lists \<Rightarrow> tables" where
  "rl_tables t = \<lparr>tDevices = mset (rlDevices t), tUsers = mset (rlUsers t), tTokens = mset (rlTokens t),
     tSessions = mset (rlSessions t), tPasskeys = mset (rlPasskeys t)\<rparr>"

definition rl_seen :: "list_db seen" where
  "rl_seen x = (rl_tables (fst x), map_option rl_tables (snd x))"

fun no_clash :: "'row schema \<Rightarrow> 'row list \<Rightarrow> bool" where
  "no_clash sc [] = True"
| "no_clash sc (r # rs) = (list_all (\<lambda>x. \<not> collide sc r x) rs \<and> no_clash sc rs)"

fun arranged :: "'row schema \<Rightarrow> order \<Rightarrow> 'row list \<Rightarrow> 'row list" where
  "arranged sc Unordered rs = rs"
| "arranged sc (Asc c) rs = sort_key (instant_of sc c) rs"
| "arranged sc (Desc c) rs = sort_key (\<lambda>r. - instant_of sc c r) rs"

definition refused :: go_error where "refused = Err ''constraint failed''"

definition rl_create :: "'row schema \<Rightarrow> conflict \<Rightarrow> 'row \<Rightarrow> 'row list \<Rightarrow> (nat \<times> 'row list) res" where
  "rl_create sc how r rs =
     (case how of
        Refuse \<Rightarrow> if list_ex (collide sc r) rs then Inl refused else Inr (1, rs @ [r])
      | DoNothing \<Rightarrow> if list_ex (collide sc r) rs then Inr (0, rs) else Inr (1, rs @ [r])
      | DoUpdates cs \<Rightarrow>
          if list_ex (\<lambda>x. primary sc r = primary sc x) rs
          then Inr (1, map (\<lambda>x. if primary sc r = primary sc x
                 then row_set sc (map (\<lambda>c. (c, Put (the (cell_of sc c r)))) cs) x else x) rs)
          else if list_ex (collide sc r) rs then Inl refused else Inr (1, rs @ [r]))"

definition rl_write :: "((nat \<times> 'row list) res) \<Rightarrow> ('row list \<Rightarrow> row_lists \<Rightarrow> row_lists) \<Rightarrow> list_db \<Rightarrow> nat res \<times> list_db" where
  "rl_write r put x = (case r of Inl e \<Rightarrow> (Inl e, x) | Inr (n, rs) \<Rightarrow> (Inr n, (put rs (fst x), snd x)))"

definition rl_checked :: "'row schema \<Rightarrow> nat \<Rightarrow> 'row list \<Rightarrow> (nat \<times> 'row list) res" where
  "rl_checked sc n rs = (if no_clash sc rs then Inr (n, rs) else Inl refused)"

definition rl_handle :: "'row schema \<Rightarrow> (row_lists \<Rightarrow> 'row list) \<Rightarrow> ('row list \<Rightarrow> row_lists \<Rightarrow> row_lists) \<Rightarrow> ('row, list_db) handle" where
  "rl_handle sc get put =
     \<lparr>hFind = (\<lambda>ts ord x. Inr (arranged sc ord (filter (row_matches sc ts) (get (fst x))))),
      hFirst = (\<lambda>ts x. Inr (find (row_matches sc ts) (get (fst x)))),
      hCount = (\<lambda>ts x. Inr (length (filter (row_matches sc ts) (get (fst x))))),
      hCreate = (\<lambda>how r x. rl_write (rl_create sc how r (get (fst x))) put x),
      hUpdate = (\<lambda>ts sets x. rl_write (rl_checked sc (length (filter (row_matches sc ts) (get (fst x))))
        (map (\<lambda>r. if row_matches sc ts r then row_set sc sets r else r) (get (fst x)))) put x),
      hReplace = (\<lambda>r x. rl_write (rl_checked sc 1 (map (\<lambda>y. if primary sc y = primary sc r then r else y) (get (fst x)))) put x),
      hDelete = (\<lambda>ts x. rl_write (if ts = [] then Inl refused
        else Inr (length (filter (row_matches sc ts) (get (fst x))), filter (\<lambda>r. \<not> row_matches sc ts r) (get (fst x)))) put x),
      hDeleteRow = (\<lambda>r x. rl_write (if list_all (\<lambda>c. c = Some (CText [])) (primary sc r) then Inl refused
        else Inr (1, filter (\<lambda>y. primary sc y \<noteq> primary sc r) (get (fst x)))) put x)\<rparr>"

definition rl_gorm :: "list_db gorm" where
  "rl_gorm =
     \<lparr>qDevices = rl_handle device_schema rlDevices (\<lambda>rs. rlDevices_update (\<lambda>_. rs)),
      qUsers = rl_handle user_schema rlUsers (\<lambda>rs. rlUsers_update (\<lambda>_. rs)),
      qTokens = rl_handle token_schema rlTokens (\<lambda>rs. rlTokens_update (\<lambda>_. rs)),
      qSessions = rl_handle session_schema rlSessions (\<lambda>rs. rlSessions_update (\<lambda>_. rs)),
      qPasskeys = rl_handle passkey_schema rlPasskeys (\<lambda>rs. rlPasskeys_update (\<lambda>_. rs)),
      qPluckAddress = (\<lambda>x. Inr (map devAddress (rlDevices (fst x)))),
      qBegin = (\<lambda>x. (Inr (), (fst x, Some (fst x)))),
      qCommit = (\<lambda>x. (Inr (), (fst x, None))),
      qRollback = (\<lambda>x. (case snd x of None \<Rightarrow> x | Some t \<Rightarrow> (t, None)))\<rparr>"

section \<open>Its laws\<close>

lemma collide_sym: "collide sc r x = collide sc x r"
  unfolding collide_def by metis

lemma no_clash_rows: "no_clash sc rs = rows_ok sc (mset rs)"
proof (induction rs)
  case (Cons r rs)
  have "rows_ok sc (add_mset r M) \<longleftrightarrow> (\<forall>x \<in># M. \<not> collide sc r x) \<and> rows_ok sc M" for M
  proof
    assume ok: "rows_ok sc (add_mset r M)"
    have "\<not> collide sc y x" if "y \<in># M" "x \<in># M - {#y#}" for x y
    proof -
      have "x \<in># add_mset r M - {#y#}" using that by (cases "y = r") (auto simp: add_mset_remove_trivial_If dest: in_diffD)
      then show ?thesis using ok that(1) unfolding rows_ok_def by auto
    qed
    moreover have "\<forall>x \<in># M. \<not> collide sc r x" using ok unfolding rows_ok_def by auto
    ultimately show "(\<forall>x \<in># M. \<not> collide sc r x) \<and> rows_ok sc M" unfolding rows_ok_def by blast
  next
    assume ok: "(\<forall>x \<in># M. \<not> collide sc r x) \<and> rows_ok sc M"
    show "rows_ok sc (add_mset r M)"
      unfolding rows_ok_def
    proof (intro ballI)
      fix y x
      assume y: "y \<in># add_mset r M" and x: "x \<in># add_mset r M - {#y#}"
      show "\<not> collide sc y x"
      proof (cases "y = r")
        case True
        then show ?thesis using x ok by simp
      next
        case False
        then have "y \<in># M" "x = r \<or> x \<in># M - {#y#}" using y x by (auto simp: diff_add_mset_swap)
        then show ?thesis using ok collide_sym [of sc y r] unfolding rows_ok_def by auto
      qed
    qed
  qed
  then show ?case using Cons by (simp add: list_all_iff)
qed (simp add: rows_ok_def)

lemma arranged_ok: "mset (arranged sc ord rs) = mset rs \<and> in_order sc ord (arranged sc ord rs)"
  by (cases ord) simp_all

lemma rl_handle_reads:
  assumes "\<And>t. mset (get t) = tget (rl_tables t)"
  shows "handle_reads live sc rl_seen tget (rl_handle sc get put)"
  unfolding handle_reads_def
  by (auto simp: rl_handle_def rl_seen_def arranged_ok assms [symmetric] mset_filter [symmetric] find_None_iff find_Some_iff
      split: option.splits simp del: mset_filter)

lemma rl_write_writes:
  assumes "\<And>rs t. rl_tables (put rs t) = upd (\<lambda>_. mset rs) (rl_tables t)" "\<And>n rs. r = Inr (n, rs) \<Longrightarrow> P n (mset rs)"
  shows "writes rl_seen get upd x (rl_write r put x) P"
  using assms by (cases r) (auto simp: writes_def rl_write_def rl_seen_def)

lemma rl_write_ok: "is_ok (fst (rl_write r put x)) = is_ok r"
  by (auto simp: rl_write_def split: sum.splits)

lemma rl_create_created:
  "rl_create sc how r rs = Inr (n, rs') \<Longrightarrow> created sc how r (mset rs) n (mset rs')"
  "created sc how r (mset rs) n M \<Longrightarrow> is_ok (rl_create sc how r rs)"
  by (cases how; force simp: rl_create_def created_def list_ex_iff split: if_splits)+

lemma rl_handle_writes:
  fixes get :: "row_lists \<Rightarrow> 'row list"
  assumes g: "\<And>t. mset (get t) = tget (rl_tables t)" and p: "\<And>rs t. rl_tables (put rs t) = upd (\<lambda>_. mset rs) (rl_tables t)"
  shows "handle_writes live sc rl_seen tget upd (rl_handle sc get put)"
proof -
  have s: "tget (fst (rl_seen x)) = mset (get (fst x))" for x by (simp add: rl_seen_def g)
  note w = rl_write_writes [where put = put and upd = upd, OF p]
  have "create_law live sc rl_seen tget upd (rl_handle sc get put)"
    unfolding create_law_def s by (auto simp: rl_handle_def rl_write_ok intro!: w rl_create_created(1) dest: rl_create_created(2))
  moreover have "update_law live sc rl_seen tget upd (rl_handle sc get put)"
    unfolding update_law_def s
    by (auto simp: rl_handle_def rl_write_ok rl_checked_def no_clash_rows set_where_def mset_filter [symmetric] simp del: mset_filter
        intro!: w split: if_splits)
  moreover have "replace_law live sc rl_seen tget upd (rl_handle sc get put)"
    unfolding replace_law_def s by (auto simp: rl_handle_def rl_checked_def no_clash_rows intro!: w split: if_splits)
  moreover have "delete_law live sc rl_seen tget upd (rl_handle sc get put)"
    unfolding delete_law_def s
    by (auto simp: rl_handle_def rl_write_ok mset_filter [symmetric] simp del: mset_filter intro!: w split: if_splits)
  moreover have "delete_row_law live sc rl_seen tget upd (rl_handle sc get put)"
    unfolding delete_row_law_def s
    by (auto simp: rl_handle_def rl_write_ok list_all_iff intro!: w split: if_splits)
  ultimately show ?thesis by (simp add: handle_writes_def)
qed

lemma rl_laws: "db_laws True rl_seen rl_gorm"
proof -
  have "transactions_ok True rl_seen rl_gorm"
    by (auto simp: transactions_ok_def rl_gorm_def rl_seen_def split: option.splits)
  then show ?thesis
    unfolding db_laws_def
    by (auto simp: rl_gorm_def intro!: rl_handle_reads rl_handle_writes) (auto simp: rl_tables_def rl_seen_def)
qed

section \<open>The refinement on it\<close>

definition laptop :: device where
  "laptop = \<lparr>devOwner = ''ada'', devOwnerName = ''Ada'', devOwnerEmail = [], devOwnerProvider = ''simple'', devName = ''laptop'',
     devPublicKey = ''k1'', devPresharedKey = [], devAddress = ''10.0.0.2/32'', devCreatedAt = 1, devDisabled = False,
     devExpiresAt = None, devRoutes = [], devLastHandshakeTime = None, devReceiveBytes = 0, devTransmitBytes = 0, devEndpoint = []\<rparr>"

definition rl_empty :: "list_db sql_storage" where
  "rl_empty = \<lparr>sqDB = (\<lparr>rlDevices = [], rlUsers = [], rlTokens = [], rlSessions = [], rlPasskeys = []\<rparr>, None),
     sqWatcher = GormWatcher, sqEmitted = []\<rparr>"

lemma rl_empty_related:
  "rl_seen (sqDB rl_empty) = (tables_of NewMemoryStorage, None)" "sql_ok NewMemoryStorage" "sqWatcher rl_empty = GormWatcher"
  by (simp_all add: rl_seen_def rl_empty_def rl_tables_def tables_of_def NewMemoryStorage_def sql_ok_def store_ok_def)

lemma laptop_proper: "proper (DoSave laptop) NewMemoryStorage"
  by (simp add: laptop_def NewMemoryStorage_def key_def zero_time_def)

theorem sql_refines_memory_witness:
  "is_ok (fst (sql_call rl_gorm (DoSave laptop) rl_empty)) = is_ok (fst (mem_call (DoSave laptop) NewMemoryStorage)) \<and>
   sql_ok (snd (mem_call (DoSave laptop) NewMemoryStorage))"
  using sql_refines_memory [OF rl_laws rl_empty_related laptop_proper surjective_pairing surjective_pairing] by blast

definition device_life :: "store_call list" where
  "device_life = [DoSave laptop, DoSetAccess laptop True None, DoBlockForOwner ''ada'', DoList [],
     DoDeleteForOwner ''ada'', DoSetRoutes laptop ''10.1.0.0/16'']"

lemma device_life_proper: "proper_run device_life NewMemoryStorage"
  by code_simp

theorem sql_runs_as_memory_witness:
  "list_all2 same_result (fst (sql_run rl_gorm device_life rl_empty)) (fst (mem_run device_life NewMemoryStorage)) \<and>
   rl_seen (sqDB (snd (sql_run rl_gorm device_life rl_empty))) = (tables_of (snd (mem_run device_life NewMemoryStorage)), None)"
  by (rule sql_runs_as_memory [OF rl_laws rl_empty_related device_life_proper])

end
