(* ===== verification/Migrate_Command.thy ===== *)
theory Migrate_Command
  imports Sql_Site
begin

text \<open>
  The command that moves a server from one storage to another (\<^verbatim>\<open>cmd/migrate/main.go\<close>).  A backend is what answers the
  calls of \<open>Sql_Refinement\<close>.  From one database that answers to another one that is empty, nothing is lost:
  the destination ends up with the devices, tokens and users of the source and the passkeys of these users.
\<close>

section \<open>Copying\<close>

type_synonym 's backend = "store_call \<Rightarrow> 's \<Rightarrow> store_answer res \<times> 's"

text \<open>A loop that writes, and ends at the first error it does not tolerate.\<close>

fun write_each :: "'d backend \<Rightarrow> string \<Rightarrow> (go_error \<Rightarrow> bool) \<Rightarrow> store_call list \<Rightarrow> 'd \<Rightarrow> unit res \<times> 'd" where
  "write_each D msg fine [] d = (Inr (), d)"
| "write_each D msg fine (c # cs) d =
     (case D c d of
        (Inl e, d) \<Rightarrow> if fine e then write_each D msg fine cs d else (Inl (wrap_err msg e), d)
      | (Inr _, d) \<Rightarrow> write_each D msg fine cs d)"

definition passkeys_of :: "store_answer \<Rightarrow> passkey list" where
  "passkeys_of a = (case a of APasskeys ps \<Rightarrow> ps | _ \<Rightarrow> [])"

fun copy_users :: "'s backend \<Rightarrow> 'd backend \<Rightarrow> user list \<Rightarrow> 's \<Rightarrow> 'd \<Rightarrow> unit res \<times> 'd" where
  "copy_users S D [] s d = (Inr (), d)"
| "copy_users S D (u # us) s d =
     (case D (DoSaveUser u) d of
        (Inl e, d) \<Rightarrow> (Inl (wrap_err ''failed to write user to destination storage backend'' e), d)
      | (Inr _, d) \<Rightarrow>
     (case D (DoSetUserPassword (usrSubject u) (usrPasswordHash u) (usrPasswordFrom u)) d of
        (Inl e, d) \<Rightarrow> (Inl (wrap_err ''failed to write the password of a user to destination storage backend'' e), d)
      | (Inr _, d) \<Rightarrow>
     (case D (DoSetUserTOTP (usrSubject u) (user_TOTP u)) d of
        (Inl e, d) \<Rightarrow> (Inl (wrap_err ''failed to write the second factor of a user to destination storage backend'' e), d)
      | (Inr _, d) \<Rightarrow>
     (case S (DoListPasskeys (usrSubject u)) s of
        (Inl e, s) \<Rightarrow> (Inl (wrap_err ''failed to list the passkeys of a user from source storage backend'' e), d)
      | (Inr owned, s) \<Rightarrow>
     (case write_each D ''failed to write a passkey to destination storage backend'' (\<lambda>e. err_is e ErrPasskeyExists)
             (map DoAddPasskey (passkeys_of owned)) d of
        (Inl e, d) \<Rightarrow> (Inl e, d)
      | (Inr _, d) \<Rightarrow> copy_users S D us s d)))))"

definition copyUsers :: "'s backend \<Rightarrow> 'd backend \<Rightarrow> 's \<Rightarrow> 'd \<Rightarrow> unit res \<times> 'd" where
  "copyUsers S D s d =
     (case S DoUsers s of
        (Inr (AUsers us), s) \<Rightarrow> copy_users S D us s d
      | (Inr _, s) \<Rightarrow> copy_users S D [] s d
      | (Inl e, s) \<Rightarrow> (Inl (wrap_err ''failed to list all users from source storage backend'' e), d))"

definition copyAll :: "'s backend \<Rightarrow> 'd backend \<Rightarrow> 's \<Rightarrow> 'd \<Rightarrow> unit res \<times> 'd" where
  "copyAll S D s d =
     (case copyUsers S D s d of
        (Inl e, d) \<Rightarrow> (Inl e, d)
      | (Inr _, d) \<Rightarrow>
     (case fst (S (DoList []) s) of
        Inl e \<Rightarrow> (Inl (wrap_err ''failed to list all devices from source storage backend'' e), d)
      | Inr devices \<Rightarrow>
     (case fst (S (DoListTokens []) s) of
        Inl e \<Rightarrow> (Inl (wrap_err ''failed to list all api tokens from source storage backend'' e), d)
      | Inr tokens' \<Rightarrow>
     (case write_each D ''failed to write device to destination storage backend'' (\<lambda>_. False)
             (case devices of ADevices ds \<Rightarrow> map DoSave ds | _ \<Rightarrow> []) d of
        (Inl e, d) \<Rightarrow> (Inl e, d)
      | (Inr _, d) \<Rightarrow>
          write_each D ''failed to write api token to destination storage backend'' (\<lambda>_. False)
            (case tokens' of ATokens ts \<Rightarrow> map DoSaveToken ts | _ \<Rightarrow> []) d))))"

section \<open>The calls of a copy\<close>

definition user_calls :: "(user \<Rightarrow> passkey list) \<Rightarrow> user \<Rightarrow> store_call list" where
  "user_calls ps u =
     [DoSaveUser u, DoSetUserPassword (usrSubject u) (usrPasswordHash u) (usrPasswordFrom u), DoSetUserTOTP (usrSubject u) (user_TOTP u)]
     @ map DoAddPasskey (ps u)"

definition copy_calls :: "(user \<Rightarrow> passkey list) \<Rightarrow> user list \<Rightarrow> device list \<Rightarrow> api_token list \<Rightarrow> store_call list" where
  "copy_calls ps us ds ts = concat (map (user_calls ps) us) @ map DoSave ds @ map DoSaveToken ts"

text \<open>Calls that are all answered, and what they leave.\<close>

fun done_by :: "'d backend \<Rightarrow> store_call list \<Rightarrow> 'd \<Rightarrow> 'd \<Rightarrow> bool" where
  "done_by D [] d d' = (d' = d)"
| "done_by D (c # cs) d d' = (is_ok (fst (D c d)) \<and> done_by D cs (snd (D c d)) d')"

lemma done_by_append: "done_by D (xs @ ys) d d' \<longleftrightarrow> (\<exists>e. done_by D xs d e \<and> done_by D ys e d')"
  by (induction xs arbitrary: d) auto

lemma is_ok_cases: "is_ok (fst q) \<Longrightarrow> \<exists>a. q = (Inr a, snd q)"
  by (cases q; cases "fst q") auto

lemma write_each_done: "done_by D cs d d' \<Longrightarrow> write_each D msg fine cs d = (Inr (), d')"
proof (induction cs arbitrary: d)
  case (Cons c cs)
  then obtain a where "D c d = (Inr a, snd (D c d))" using is_ok_cases [of "D c d"] by auto
  then have "write_each D msg fine (c # cs) d = write_each D msg fine cs (snd (D c d))" by (metis (no_types, lifting) case_prod_conv old.sum.simps(6) write_each.simps(2))
  then show ?case using Cons.IH [of "snd (D c d)"] Cons.prems by simp
qed simp

lemma copy_user_step:
  assumes "S (DoListPasskeys (usrSubject u)) s = (Inr (APasskeys ps), s)" "done_by D (user_calls (\<lambda>_. ps) u) d e"
  shows "copy_users S D (u # us) s d = copy_users S D us s e"
proof -
  let ?p = "DoSetUserPassword (usrSubject u) (usrPasswordHash u) (usrPasswordFrom u)" and ?t = "DoSetUserTOTP (usrSubject u) (user_TOTP u)"
  obtain d1 a where 1: "D (DoSaveUser u) d = (Inr a, d1)" "done_by D (?p # ?t # map DoAddPasskey ps) d1 e"
    using assms(2) is_ok_cases [of "D (DoSaveUser u) d"] by (auto simp: user_calls_def)
  obtain d2 b where 2: "D ?p d1 = (Inr b, d2)" "done_by D (?t # map DoAddPasskey ps) d2 e"
    using 1(2) is_ok_cases [of "D ?p d1"] by auto
  obtain d3 c where 3: "D ?t d2 = (Inr c, d3)" "done_by D (map DoAddPasskey ps) d3 e"
    using 2(2) is_ok_cases [of "D ?t d2"] by auto
  show ?thesis using 1(1) 2(1) 3(1) write_each_done [OF 3(2)] assms(1) by (simp add: passkeys_of_def)
qed

lemma copy_users_done:
  assumes "\<And>u. u \<in> set us \<Longrightarrow> S (DoListPasskeys (usrSubject u)) s = (Inr (APasskeys (ps u)), s)"
    and "done_by D (concat (map (user_calls ps) us)) d d'"
  shows "copy_users S D us s d = (Inr (), d')"
  using assms
proof (induction us arbitrary: d)
  case (Cons u us)
  obtain e where e: "done_by D (user_calls ps u) d e" "done_by D (concat (map (user_calls ps) us)) e d'"
    using Cons.prems(2) by (auto simp: done_by_append)
  have "user_calls ps u = user_calls (\<lambda>_. ps u) u" by (simp add: user_calls_def)
  then have "copy_users S D (u # us) s d = copy_users S D us s e"
    using copy_user_step [of S u s "ps u" D d e us] Cons.prems(1) [of u] e(1) by simp
  then show ?case using Cons.IH [OF _ e(2)] Cons.prems(1) by simp
qed simp

lemma copyAll_done:
  assumes "S DoUsers s = (Inr (AUsers us), s)" "\<And>u. u \<in> set us \<Longrightarrow> S (DoListPasskeys (usrSubject u)) s = (Inr (APasskeys (ps u)), s)"
    "fst (S (DoList []) s) = Inr (ADevices ds)" "fst (S (DoListTokens []) s) = Inr (ATokens ts)"
    and d: "done_by D (copy_calls ps us ds ts) d d'"
  shows "copyAll S D s d = (Inr (), d')"
proof -
  obtain e f where e: "done_by D (concat (map (user_calls ps) us)) d e" "done_by D (map DoSave ds) e f" "done_by D (map DoSaveToken ts) f d'"
    using d by (auto simp: copy_calls_def done_by_append)
  have "copy_users S D us s d = (Inr (), e)" by (rule copy_users_done [where ps = ps]) (use assms(2) e(1) in auto)
  then show ?thesis
    using assms(1,3,4) write_each_done [OF e(2)] write_each_done [OF e(3)] by (simp add: copyAll_def copyUsers_def)
qed

section \<open>The destination\<close>

text \<open>Calls on the in-memory storage that are proper and answered.\<close>

fun clean :: "store_call list \<Rightarrow> memory \<Rightarrow> memory \<Rightarrow> bool" where
  "clean [] m m' = (m' = m)"
| "clean (c # cs) m m' = (proper c m \<and> is_ok (fst (mem_call c m)) \<and> clean cs (snd (mem_call c m)) m')"

lemma clean_append: "clean xs m e \<Longrightarrow> clean ys e m' \<Longrightarrow> clean (xs @ ys) m m'"
  by (induction xs arbitrary: m) auto

lemma clean_done:
  assumes "db_laws True seen G" "seen (sqDB s) = (tables_of m, None)" "sql_ok m" "sqWatcher s = GormWatcher" "clean cs m m'"
  shows "\<exists>s'. done_by (sql_call G) cs s s' \<and> seen (sqDB s') = (tables_of m', None)"
  using assms(2-5)
proof (induction cs arbitrary: s m)
  case (Cons c cs)
  then have c: "proper c m" "is_ok (fst (mem_call c m))" "clean cs (snd (mem_call c m)) m'" by simp_all
  note step = call_live [OF assms(1) Cons.prems(1-3) c(1)]
  have "is_ok (fst (sql_call G c s))" using step(1) c(2) by (auto simp: same_result_def is_ok_def split: sum.splits)
  then show ?case using Cons.IH [OF step(2-4) c(3)] by auto
qed auto

lemma update_fresh: "k \<notin> fst ` set m \<Longrightarrow> AList.update k v m = m @ [(k, v)]"
  by (induction m) auto

lemma update_last: "k \<notin> fst ` set m \<Longrightarrow> AList.update k v (m @ [(k, w)]) = m @ [(k, v)]"
  by (induction m) auto

lemma fresh_lookup: "k \<notin> fst ` set m \<Longrightarrow> map_of (m @ [(k, v)]) k = Some v"
  by (induction m) auto

text \<open>Values with new keys are appended; the keys that are left to write stay new.\<close>

lemma still_fresh:
  assumes "distinct (map f (xs @ ys))" "f ` set (xs @ ys) \<inter> fst ` set m = {}"
  shows "f ` set ys \<inter> fst ` set (m @ map (\<lambda>x. (f x, g x)) xs) = {}"
proof -
  have "fst ` set (m @ map (\<lambda>x. (f x, g x)) xs) = fst ` set m \<union> f ` set xs" by (simp add: image_Un image_image)
  then show ?thesis using assms by auto
qed

lemma unused_index:
  assumes "f ` set (x # xs) \<inter> f ` snd ` set m = {}"
  shows "\<forall>(k, y) \<in> set m. f y \<noteq> f x"
proof -
  have new: "f x \<notin> f ` snd ` set m" using assms by simp
  have "f y \<noteq> f x" if "(k, y) \<in> set m" for k y
  proof
    assume "f y = f x"
    then have "f x \<in> f ` snd ` set m" using that by (metis image_eqI snd_conv)
    then show False using new by blast
  qed
  then show ?thesis by auto
qed

lemma clean_user:
  assumes "usrSubject u \<notin> fst ` set (users m)"
  shows "clean [DoSaveUser u, DoSetUserPassword (usrSubject u) (usrPasswordHash u) (usrPasswordFrom u),
      DoSetUserTOTP (usrSubject u) (user_TOTP u)] m (m\<lparr>users := users m @ [(usrSubject u, u)]\<rparr>)"
proof -
  have none: "map_of (users m) (usrSubject u) = None" using assms by (simp add: map_of_eq_None_iff)
  have save: "SaveUser u m = (Inr (), m\<lparr>users := users m @ [(usrSubject u, u)]\<rparr>)"
    using none assms by (simp add: SaveUser_def update_fresh)
  have pass: "SetUserPassword (usrSubject u) (usrPasswordHash u) (usrPasswordFrom u) (m\<lparr>users := users m @ [(usrSubject u, u)]\<rparr>) =
      (Inr (), m\<lparr>users := users m @ [(usrSubject u, u)]\<rparr>)"
    using fresh_lookup [OF assms] by (simp add: SetUserPassword_def update_last [OF assms])
  have totp: "SetUserTOTP (usrSubject u) (user_TOTP u) (m\<lparr>users := users m @ [(usrSubject u, u)]\<rparr>) =
      (Inr (), m\<lparr>users := users m @ [(usrSubject u, u)]\<rparr>)"
    using fresh_lookup [OF assms] by (simp add: SetUserTOTP_def user_TOTP_def update_last [OF assms])
  show ?thesis using none by (simp add: login_keeps_def save pass totp answered_def)
qed

lemma clean_passkeys:
  assumes "distinct (map pkID ps)" "pkID ` set ps \<inter> fst ` set (passkeys m) = {}" "\<And>p. p \<in> set ps \<Longrightarrow> pkCreatedAt p \<noteq> zero_time"
  shows "clean (map DoAddPasskey ps) m (m\<lparr>passkeys := passkeys m @ map (\<lambda>p. (pkID p, p)) ps\<rparr>)"
  using assms
proof (induction ps arbitrary: m)
  case (Cons p ps)
  have new: "pkID p \<notin> fst ` set (passkeys m)" using Cons.prems(2) by auto
  then have none: "map_of (passkeys m) (pkID p) = None" by (simp add: map_of_eq_None_iff)
  have "clean (map DoAddPasskey ps) (m\<lparr>passkeys := passkeys m @ [(pkID p, p)]\<rparr>) (m\<lparr>passkeys := passkeys m @ map (\<lambda>p. (pkID p, p)) (p # ps)\<rparr>)"
    using Cons.IH [of "m\<lparr>passkeys := passkeys m @ [(pkID p, p)]\<rparr>"] Cons.prems by auto
  then show ?case using Cons.prems(3) by (simp add: AddPasskey_def none update_fresh [OF new] answered_def)
qed simp

lemma clean_users:
  assumes "distinct (map usrSubject us)" "usrSubject ` set us \<inter> fst ` set (users m) = {}"
    and "distinct (map pkID (concat (map ps us)))" "pkID ` set (concat (map ps us)) \<inter> fst ` set (passkeys m) = {}"
    and "\<And>p. p \<in> set (concat (map ps us)) \<Longrightarrow> pkCreatedAt p \<noteq> zero_time"
  shows "clean (concat (map (user_calls ps) us)) m
     (m\<lparr>users := users m @ map (\<lambda>u. (usrSubject u, u)) us, passkeys := passkeys m @ map (\<lambda>p. (pkID p, p)) (concat (map ps us))\<rparr>)"
  using assms
proof (induction us arbitrary: m)
  case (Cons u us)
  let ?m1 = "m\<lparr>users := users m @ [(usrSubject u, u)]\<rparr>" and ?new = "\<lambda>ps. map (\<lambda>p. (pkID p, p)) ps"
  let ?m2 = "?m1\<lparr>passkeys := passkeys m @ ?new (ps u)\<rparr>"
  have "clean (map DoAddPasskey (ps u)) ?m1 ?m2"
    using clean_passkeys [of "ps u" ?m1] Cons.prems(3-5) by auto
  then have one: "clean (user_calls ps u) m ?m2"
    unfolding user_calls_def using clean_append [OF clean_user [of u m]] Cons.prems(2) by auto
  have "clean (concat (map (user_calls ps) us)) ?m2
     (?m2\<lparr>users := users ?m2 @ map (\<lambda>u. (usrSubject u, u)) us, passkeys := passkeys ?m2 @ ?new (concat (map ps us))\<rparr>)"
  proof (rule Cons.IH)
    show "pkID ` set (concat (map ps us)) \<inter> fst ` set (passkeys ?m2) = {}"
      using still_fresh [of pkID "ps u" "concat (map ps us)" "passkeys m" "\<lambda>p. p"] Cons.prems(3,4) by simp
    show "usrSubject ` set us \<inter> fst ` set (users ?m2) = {}" using Cons.prems(1,2) by auto
  qed (use Cons.prems(1,3,5) in auto)
  then show ?case using clean_append [OF one] by simp
qed simp

text \<open>A device or a token is new, and so is its public key or hash.\<close>

lemma clean_devices:
  assumes "distinct (map key ds)" "key ` set ds \<inter> fst ` set (db m) = {}"
    and "distinct (map devPublicKey ds)" "devPublicKey ` set ds \<inter> devPublicKey ` snd ` set (db m) = {}"
    and "\<And>d. d \<in> set ds \<Longrightarrow> devPublicKey d \<noteq> [] \<and> key d \<noteq> ([], []) \<and> devCreatedAt d \<noteq> zero_time"
  shows "clean (map DoSave ds) m (emit (map Added ds) (m\<lparr>db := db m @ map (\<lambda>d. (key d, d)) ds\<rparr>))"
  using assms
proof (induction ds arbitrary: m)
  case (Cons d ds)
  have new: "key d \<notin> fst ` set (db m)" "map_of (db m) (key d) = None" using Cons.prems(2) by (auto simp: map_of_eq_None_iff)
  note pub = unused_index [OF Cons.prems(4)]
  have "\<not> list_ex (\<lambda>(k, e). devPublicKey e = devPublicKey d \<and> k \<noteq> key d) (db m)" using pub by (auto simp: list_ex_iff)
  then have save: "Save d m = (Inr (), emit [Added d] (m\<lparr>db := db m @ [(key d, d)]\<rparr>))"
    by (auto simp: Save_def update_fresh [OF new(1)])
  have "clean (map DoSave ds) (emit [Added d] (m\<lparr>db := db m @ [(key d, d)]\<rparr>))
     (emit (map Added (d # ds)) (m\<lparr>db := db m @ map (\<lambda>d. (key d, d)) (d # ds)\<rparr>))"
    using Cons.IH [of "emit [Added d] (m\<lparr>db := db m @ [(key d, d)]\<rparr>)"] Cons.prems(1-4) Cons.prems(5) [OF list.set_intros(2)]
    by (simp add: emit_def disjoint_insert)
  then show ?case using Cons.prems(5) [of d] new(2) by (simp add: save answered_def)
qed (simp add: emit_def)

lemma clean_tokens:
  assumes "distinct (map tokID ts)" "tokID ` set ts \<inter> fst ` set (tokens m) = {}"
    and "distinct (map tokHash ts)" "tokHash ` set ts \<inter> tokHash ` snd ` set (tokens m) = {}"
    and "\<And>t. t \<in> set ts \<Longrightarrow> tokCreatedAt t \<noteq> zero_time"
  shows "clean (map DoSaveToken ts) m (m\<lparr>tokens := tokens m @ map (\<lambda>t. (tokID t, t)) ts\<rparr>)"
  using assms
proof (induction ts arbitrary: m)
  case (Cons t ts)
  have new: "tokID t \<notin> fst ` set (tokens m)" "map_of (tokens m) (tokID t) = None" using Cons.prems(2) by (auto simp: map_of_eq_None_iff)
  note hash = unused_index [OF Cons.prems(4)]
  have "\<not> list_ex (\<lambda>(i, stored). tokHash stored = tokHash t \<and> tokID stored \<noteq> tokID t) (tokens m)" using hash by (auto simp: list_ex_iff)
  then have save: "SaveToken t m = (Inr (), m\<lparr>tokens := tokens m @ [(tokID t, t)]\<rparr>)"
    by (simp add: SaveToken_def update_fresh [OF new(1)])
  have "clean (map DoSaveToken ts) (m\<lparr>tokens := tokens m @ [(tokID t, t)]\<rparr>) (m\<lparr>tokens := tokens m @ map (\<lambda>t. (tokID t, t)) (t # ts)\<rparr>)"
    using Cons.IH [of "m\<lparr>tokens := tokens m @ [(tokID t, t)]\<rparr>"] Cons.prems(1-4) Cons.prems(5) [OF list.set_intros(2)]
    by (simp add: disjoint_insert)
  then show ?case using Cons.prems(5) [of t] new(2) by (simp add: save answered_def)
qed simp

section \<open>Nothing is lost\<close>

text \<open>Rows are written with the time they were made; a time of zero the database would fill in itself.\<close>

definition dated :: "tables \<Rightarrow> bool" where
  "dated T \<longleftrightarrow>
     (\<forall>d \<in># tDevices T. devCreatedAt d \<noteq> zero_time) \<and> (\<forall>t \<in># tTokens T. tokCreatedAt t \<noteq> zero_time) \<and>
     (\<forall>p \<in># tPasskeys T. pkCreatedAt p \<noteq> zero_time)"

lemma distinct_sub:
  assumes "mset xs \<subseteq># mset ys" "distinct (map f ys)"
  shows "distinct (map f xs)"
proof -
  have "mset (map f xs) \<subseteq># mset (map f ys)" using image_mset_subseteq_mono [OF assms(1), of f] by simp
  then have "count (mset (map f xs)) x \<le> count (mset (map f ys)) x" for x by (rule mset_subset_eq_count)
  moreover have "count (mset (map f ys)) x \<le> 1" for x using assms(2) by (metis distinct_count_atmost_1 le_numeral_extra(4) zero_le_one)
  ultimately have "count (mset (map f xs)) x \<le> 1" for x using le_trans by blast
  then show ?thesis unfolding distinct_count_atmost_1 by (metis count_greater_eq_one_iff count_mset_0_iff le_antisym set_mset_mset)
qed

lemma table_distinct:
  assumes "table_ok kf uf m" "mset xs = mset (map snd m)"
  shows "distinct (map kf xs)"
proof (rule distinct_sub [where ys = "map snd m"])
  have "map kf (map snd m) = map fst m" using table_okD(2) [OF assms(1)] by auto
  then show "distinct (map kf (map snd m))" using table_okD(1) [OF assms(1)] unfolding amap_ok_def by (simp only:)
qed (simp add: assms(2))

lemma owned_passkeys:
  assumes "distinct (map usrSubject us)" "\<And>u. u \<in> set us \<Longrightarrow> mset (ps u) = filter_mset (\<lambda>p. pkOwner p = usrSubject u) P"
  shows "mset (concat (map ps us)) = filter_mset (\<lambda>p. pkOwner p \<in> usrSubject ` set us) P"
  using assms
proof (induction us)
  case (Cons u us)
  have "mset (concat (map ps (u # us))) = filter_mset (\<lambda>p. pkOwner p = usrSubject u) P + filter_mset (\<lambda>p. pkOwner p \<in> usrSubject ` set us) P"
    using Cons by simp
  also have "\<dots> = filter_mset (\<lambda>p. pkOwner p \<in> usrSubject ` set (u # us)) P"
    using Cons.prems(1) by (induction P) auto
  finally show ?case .
qed simp

lemma index_distinct:
  assumes "table_ok kf uf m" "mset xs = mset (map snd m)" "\<And>k v. (k, v) \<in> set m \<Longrightarrow> uf v = Some (g v)"
  shows "distinct (map g xs)"
proof (rule distinct_sub [where ys = "map snd m"])
  have "distinct m" using table_okD(1) [OF assms(1)] by (simp add: amap_ok_def distinct_map)
  moreover have "inj_on (\<lambda>x. g (snd x)) (set m)"
  proof (rule inj_onI)
    fix x y
    assume xy: "x \<in> set m" "y \<in> set m" "g (snd x) = g (snd y)"
    then have "(fst x, snd x) \<in> set m" "(fst y, snd y) \<in> set m" by simp_all
    then show "x = y" using table_okD(3) [OF assms(1)] assms(3) xy(3) by (metis option.distinct(1) prod.collapse)
  qed
  ultimately show "distinct (map g (map snd m))" by (simp add: distinct_map comp_def)
qed (simp add: assms(2))

text \<open>What the source answers.\<close>

lemma read_users:
  assumes "db_laws True seen G" "seen (sqDB s) = (tables_of m, None)" "sql_ok m" "sqWatcher s = GormWatcher"
  shows "\<exists>us. sql_call G DoUsers s = (Inr (AUsers us), s) \<and> mset us = tUsers (tables_of m)"
proof -
  have "snd (sql_call G DoUsers s) = s" by simp
  moreover have "\<exists>us. fst (sql_call G DoUsers s) = Inr (AUsers us) \<and> mset us = tUsers (tables_of m)"
    using call_live(1) [OF assms, of DoUsers]
    by (auto simp: same_result_def is_ok_def answered_def same_answer_def Users_def tables_of_def split: sum.splits store_answer.splits)
  ultimately show ?thesis by (metis prod.collapse)
qed

lemma read_passkeys:
  assumes "db_laws True seen G" "seen (sqDB s) = (tables_of m, None)" "sql_ok m" "sqWatcher s = GormWatcher"
  shows "\<exists>ps. sql_call G (DoListPasskeys u) s = (Inr (APasskeys ps), s) \<and> mset ps = filter_mset (\<lambda>p. pkOwner p = u) (tPasskeys (tables_of m))"
proof -
  have "snd (sql_call G (DoListPasskeys u) s) = s" by simp
  moreover have "\<exists>ps. fst (sql_call G (DoListPasskeys u) s) = Inr (APasskeys ps) \<and> mset ps = mset (ListPasskeys u m)"
    using call_live(1) [OF assms, of "DoListPasskeys u"]
    by (auto simp: same_result_def is_ok_def answered_def same_answer_def same_order_def split: sum.splits store_answer.splits)
  moreover have "mset (ListPasskeys u m) = filter_mset (\<lambda>p. pkOwner p = u) (tPasskeys (tables_of m))"
    by (simp add: ListPasskeys_def sortPasskeys_mset tables_of_def mset_filter del: mset_map)
  ultimately show ?thesis by (metis prod.collapse)
qed

lemma read_devices:
  assumes "db_laws True seen G" "seen (sqDB s) = (tables_of m, None)" "sql_ok m" "sqWatcher s = GormWatcher"
  shows "\<exists>ds. fst (sql_call G (DoList []) s) = Inr (ADevices ds) \<and> mset ds = tDevices (tables_of m)"
  using call_live(1) [OF assms, of "DoList []"]
  by (auto simp: same_result_def is_ok_def answered_def same_answer_def List_devices_def tables_of_def split: sum.splits store_answer.splits)

lemma read_tokens:
  assumes "db_laws True seen G" "seen (sqDB s) = (tables_of m, None)" "sql_ok m" "sqWatcher s = GormWatcher"
  shows "\<exists>ts. fst (sql_call G (DoListTokens []) s) = Inr (ATokens ts) \<and> mset ts = tTokens (tables_of m)"
  using call_live(1) [OF assms, of "DoListTokens []"]
  by (auto simp: same_result_def is_ok_def answered_def same_answer_def same_order_def ListTokens_def tables_of_def
      split: sum.splits store_answer.splits)

text \<open>
  Migrating to an empty database loses nothing: the command succeeds, and the destination has the devices, the
  users with their passwords and second factors, the tokens and the passkeys of the users, all as they are in
  the source.  Sessions are left behind, and so are passkeys of nobody.
\<close>

theorem migration_complete:
  assumes G: "db_laws True seen G" "seen (sqDB s) = (tables_of m, None)" "sql_ok m" "sqWatcher s = GormWatcher"
    and D: "db_laws True seen' G'" "seen' (sqDB d) = (tables_of NewMemoryStorage, None)" "sqWatcher d = GormWatcher"
    and dated: "dated (tables_of m)"
  shows "\<exists>d'. copyAll (sql_call G) (sql_call G') s d = (Inr (), d') \<and>
    seen' (sqDB d') = ((tables_of m)\<lparr>tSessions := {#},
      tPasskeys := filter_mset (\<lambda>p. pkOwner p \<in> usrSubject ` set_mset (tUsers (tables_of m))) (tPasskeys (tables_of m))\<rparr>, None)"
proof -
  let ?T = "tables_of m"
  obtain us where us: "sql_call G DoUsers s = (Inr (AUsers us), s)" "mset us = tUsers ?T" using read_users [OF G] by blast
  obtain ps where ps: "sql_call G (DoListPasskeys (usrSubject u)) s = (Inr (APasskeys (ps u)), s)"
    "mset (ps u) = filter_mset (\<lambda>p. pkOwner p = usrSubject u) (tPasskeys ?T)" for u :: user
  proof -
    let ?Q = "\<lambda>(u :: user) xs. sql_call G (DoListPasskeys (usrSubject u)) s = (Inr (APasskeys xs), s) \<and>
      mset xs = filter_mset (\<lambda>p. pkOwner p = usrSubject u) (tPasskeys ?T)"
    have "\<forall>u. \<exists>xs. ?Q u xs" using read_passkeys [OF G] by blast
    then obtain f where "\<forall>u. ?Q u (f u)" using choice [of ?Q] by blast
    then show thesis using that [of f] by blast
  qed
  obtain ds where ds: "fst (sql_call G (DoList []) s) = Inr (ADevices ds)" "mset ds = tDevices ?T" using read_devices [OF G] by blast
  obtain ts where ts: "fst (sql_call G (DoListTokens []) s) = Inr (ATokens ts)" "mset ts = tTokens ?T" using read_tokens [OF G] by blast
  have "store_ok m" using G(3) by (simp add: sql_ok_def)
  note ok = store_okD(1-4) [OF this]
  have keyed: "devPublicKey d \<noteq> [] \<and> k \<noteq> ([], [])" if "(k, d) \<in> set (db m)" for k d
    using G(3) that unfolding sql_ok_def by blast
  have rows: "mset us = mset (map snd (users m))" "mset ds = mset (map snd (db m))" "mset ts = mset (map snd (tokens m))"
    using us(2) ds(2) ts(2) by (simp_all add: tables_of_def)
  have subjects: "distinct (map usrSubject us)" by (rule table_distinct [OF ok(2) rows(1)])
  let ?P = "concat (map ps us)"
  have owned: "mset ?P = filter_mset (\<lambda>p. pkOwner p \<in> usrSubject ` set us) (tPasskeys ?T)"
    by (rule owned_passkeys [OF subjects ps(2)])
  have "map pkID (map snd (passkeys m)) = map fst (passkeys m)" using table_okD(2) [OF ok(3)] by auto
  then have "distinct (map pkID (map snd (passkeys m)))" using table_okD(1) [OF ok(3)] unfolding amap_ok_def by (simp only:)
  then have ids: "distinct (map pkID ?P)"
    by (rule distinct_sub [rotated]) (simp only: owned tables_of_def tables.simps multiset_filter_subset)
  have in_ds: "d \<in># tDevices ?T \<and> devPublicKey d \<noteq> [] \<and> key d \<noteq> ([], [])" if "d \<in> set ds" for d
  proof -
    have "d \<in># mset (map snd (db m))" using that rows(2) by (metis set_mset_mset)
    then obtain k where "(k, d) \<in> set (db m)" by auto
    then show ?thesis using keyed table_okD(2) [OF ok(1)] that ds(2) by (metis set_mset_mset)
  qed
  have times: "\<And>p. p \<in> set ?P \<Longrightarrow> pkCreatedAt p \<noteq> zero_time" "\<And>t. t \<in> set ts \<Longrightarrow> tokCreatedAt t \<noteq> zero_time"
    "\<And>d. d \<in> set ds \<Longrightarrow> devCreatedAt d \<noteq> zero_time"
  proof -
    show "pkCreatedAt p \<noteq> zero_time" if "p \<in> set ?P" for p
    proof -
      have "p \<in># filter_mset (\<lambda>p. pkOwner p \<in> usrSubject ` set us) (tPasskeys ?T)" unfolding owned [symmetric] using that by simp
      then show ?thesis using dated by (simp add: dated_def)
    qed
    show "tokCreatedAt t \<noteq> zero_time" if "t \<in> set ts" for t using dated that ts(2) unfolding dated_def by (metis set_mset_mset)
    show "devCreatedAt d \<noteq> zero_time" if "d \<in> set ds" for d using dated in_ds [OF that] unfolding dated_def by blast
  qed
  let ?row = "\<lambda>f xs. map (\<lambda>x. (f x, x)) xs"
  let ?m1 = "NewMemoryStorage\<lparr>users := ?row usrSubject us, passkeys := ?row pkID ?P\<rparr>"
  let ?m2 = "emit (map Added ds) (?m1\<lparr>db := ?row key ds\<rparr>)" let ?m3 = "?m2\<lparr>tokens := ?row tokID ts\<rparr>"
  have 1: "clean (concat (map (user_calls ps) us)) NewMemoryStorage ?m1"
    using clean_users [OF subjects _ ids _ times(1), of NewMemoryStorage] by (simp add: NewMemoryStorage_def)
  have pub: "distinct (map devPublicKey ds)"
    by (rule index_distinct [OF ok(1) rows(2)]) (use keyed in \<open>auto simp: pub_index_def\<close>)
  have 2: "clean (map DoSave ds) ?m1 ?m2"
    using clean_devices [OF table_distinct [OF ok(1) rows(2)] _ pub, of ?m1] in_ds times(3) by (simp add: NewMemoryStorage_def)
  have hash: "distinct (map tokHash ts)" by (rule index_distinct [OF ok(4) rows(3)]) simp
  have 3: "clean (map DoSaveToken ts) ?m2 ?m3"
    using clean_tokens [OF table_distinct [OF ok(4) rows(3)] _ hash _ times(2), of ?m2] by (simp add: NewMemoryStorage_def emit_def)
  have calls: "clean (copy_calls ps us ds ts) NewMemoryStorage ?m3"
    unfolding copy_calls_def by (rule clean_append [OF 1 clean_append [OF 2 3]])
  have empty: "sql_ok NewMemoryStorage" by (simp add: sql_ok_def store_ok_def NewMemoryStorage_def table_ok_def)
  obtain d' where d': "done_by (sql_call G') (copy_calls ps us ds ts) d d'" "seen' (sqDB d') = (tables_of ?m3, None)"
    using clean_done [OF D(1,2) empty D(3) calls] by blast
  have "copyAll (sql_call G) (sql_call G') s d = (Inr (), d')"
    by (rule copyAll_done [where S = "sql_call G" and s = s and ps = ps, OF us(1) ps(1) ds(1) ts(1) d'(1)])
  moreover have "tables_of ?m3 = ?T\<lparr>tSessions := {#},
      tPasskeys := filter_mset (\<lambda>p. pkOwner p \<in> usrSubject ` set_mset (tUsers ?T)) (tPasskeys ?T)\<rparr>"
  proof -
    have "tables_of ?m3 = \<lparr>tDevices = mset ds, tUsers = mset us, tTokens = mset ts, tSessions = {#}, tPasskeys = mset ?P\<rparr>"
      by (simp add: tables_of_def NewMemoryStorage_def emit_def comp_def)
    moreover have "set us = set_mset (tUsers ?T)" using us(2) by (metis set_mset_mset)
    ultimately show ?thesis using us(2) ds(2) ts(2) owned by simp
  qed
  ultimately show ?thesis using d'(2) by auto
qed

text \<open>A source with one device.\<close>

definition ada_memory :: memory where
  "ada_memory = NewMemoryStorage\<lparr>db := [(key laptop, laptop)]\<rparr>"

definition ada_database :: "list_db sql_storage" where
  "ada_database = \<lparr>sqDB = (\<lparr>rlDevices = [laptop], rlUsers = [], rlTokens = [], rlSessions = [], rlPasskeys = []\<rparr>, None),
     sqWatcher = GormWatcher, sqEmitted = []\<rparr>"

lemma ada_related:
  "rl_seen (sqDB ada_database) = (tables_of ada_memory, None)" "sql_ok ada_memory" "sqWatcher ada_database = GormWatcher"
  "dated (tables_of ada_memory)"
  by (simp_all add: rl_seen_def ada_database_def rl_tables_def tables_of_def ada_memory_def NewMemoryStorage_def sql_ok_def
      store_ok_def table_ok_def amap_ok_def dated_def laptop_def key_def zero_time_def)

theorem migration_complete_witness:
  "\<exists>d'. copyAll (sql_call rl_gorm) (sql_call rl_gorm) ada_database rl_empty = (Inr (), d') \<and>
     tDevices (fst (rl_seen (sqDB d'))) = {#laptop#}"
  using migration_complete [OF rl_laws ada_related(1-3) rl_laws rl_empty_related(1,3) ada_related(4)]
  by (auto simp: tables_of_def ada_memory_def NewMemoryStorage_def)

end
