(* ===== verification/Spec2Isabelle.thy ===== *)
theory Spec2Isabelle
  imports Device_Listing Firewall_Properties Login_Properties Requests Server_Site Api_Info Provider_Site Client_Addr Migrate_Command
begin

text \<open>
  A verification of the wg-access-server: a WireGuard VPN server with a web interface, written in Go.  Users sign
  in (with a password and a second factor, or through an identity provider), add devices, and the server keeps
  the peers of the WireGuard interface and the rules of the firewall in line with what is stored.

  \<^bold>\<open>How the program is put together.\<close>  The device manager (\<^verbatim>\<open>internal/devices\<close>) owns the devices: it hands out
  addresses, stores devices and reacts to the events of the storage by changing peers.  The storage
  (\<^verbatim>\<open>internal/storage\<close>) keeps devices, users, tokens, sessions and passkeys.  The firewall
  (\<^verbatim>\<open>internal/network\<close>) is built from the networks behind devices and from the policies of users.  The sign-in
  (\<^verbatim>\<open>internal/authnz\<close>, \<^verbatim>\<open>internal/users\<close>, \<^verbatim>\<open>internal/websessions\<close>) turns a request into an identity with claims,
  as do API tokens (\<^verbatim>\<open>internal/apitokens\<close>).  The server (\<^verbatim>\<open>cmd/serve\<close>) wires them together.

  \<^bold>\<open>Foundations.\<close>  \<open>Prelude\<close>: errors as values (\<open>go_error\<close>, \<open>'a res\<close>), Go maps as association lists with
  distinct keys, instants and durations as integers of nanoseconds, and the shared lemmas.
  \<open>Go_Strings\<close>, \<open>Go_Quote\<close>, \<open>Go_Crypto\<close>, \<open>Http\<close>: what the code uses of the standard library, on strings as
  sequences of bytes: runes, trimming, splitting, quoting, SHA-1, SHA-256, HMAC, base32 and base64, requests.
  \<open>Netip\<close>, \<open>Netip_Lemmas\<close>: addresses and prefixes on 32 and 128 bit words, with their parsers and printers.

  \<^bold>\<open>Storage.\<close>  \<open>Storage_Contracts\<close> holds the records of \<^verbatim>\<open>contracts.go\<close> and its neighbours, \<open>Storage_Memory\<close> every
  method of the in-memory storage as a function on the record \<open>memory\<close>, whose events are collected in
  \<open>emitted\<close>, and \<open>Storage_Laws\<close> its invariant \<open>store_ok\<close> and the locale \<open>credential_store\<close>, interpreted for tokens
  and for sessions.  \<open>Sql_Database\<close> describes the statements and tables of the SQL storage and what is assumed of GORM and the
  database, \<open>Sql_Storage\<close> models every method of it on the data, and \<open>Sql_Tables\<close> (with the locale \<open>stored_table\<close>,
  interpreted for the five tables), \<open>Sql_Devices\<close>, \<open>Sql_Batches\<close>, \<open>Sql_Accounts\<close>, \<open>Sql_Credentials\<close> and \<open>Sql_Refinement\<close> show that
  it refines the in-memory storage; \<open>Sql_Site\<close> is a database that satisfies what is assumed.  \<open>Migrate_Command\<close> models the command
  that copies one storage to another (\<^verbatim>\<open>cmd/migrate\<close>) and shows that nothing is lost.

  \<^bold>\<open>Devices.\<close>  \<open>Device_Manager\<close>, \<open>Device_Routes\<close> and \<open>Device_Sync\<close> model \<^verbatim>\<open>devices.go\<close>, \<^verbatim>\<open>routes.go\<close>, \<^verbatim>\<open>access.go\<close>,
  \<^verbatim>\<open>metadata.go\<close> and \<^verbatim>\<open>inactive.go\<close>: every operation, and one round of every loop.  \<open>Device_Alloc\<close> is about the
  search for a free address (the locale \<open>address_family\<close>, interpreted for both families),
  \<open>Device_Invariants\<close> about what every operation keeps, \<open>Device_Peers\<close> about the peers of the interface.
  \<open>Device_Properties\<close>, \<open>Device_Loops\<close> and \<open>Device_Listing\<close> state the results: unique addresses in every reachable
  state, the lowest free address, quotas, disjoint routes, peers in line with the devices that may connect.

  \<^bold>\<open>Firewall.\<close>  \<open>Network\<close> and \<open>Firewall\<close> model \<^verbatim>\<open>network.go\<close> and \<^verbatim>\<open>nftables.go\<close>; \<open>Firewall_Semantics\<close> gives the rules a
  first-match meaning on packets, and \<open>Firewall_Properties\<close> shows that both backends decide as the
  specification does.

  \<^bold>\<open>Accounts and sign-in.\<close>  \<open>Claims\<close>, \<open>Web_Sessions\<close>, \<open>Auth_Session\<close>: identities, sessions and the cookie.
  \<open>Users_Totp\<close>, \<open>Users_Passwords\<close>, \<open>Users_TwoFactor\<close>, \<open>Users_TwoFactor_Laws\<close>, \<open>Users_Passkeys\<close>: what an account is
  protected by.  \<open>Limiter\<close> is the locale of a limit on attempts, interpreted for passwords and for the
  second step.  \<open>Auth_Config\<close>, \<open>Login_Throttle\<close>, \<open>Login\<close>, \<open>Login_Properties\<close>: the configuration of providers, the
  throttle, the form and basic authentication.  \<open>Api_Tokens\<close> and \<open>Requests\<close>: tokens, and who a request acts as
  behind the chain of middlewares.  \<open>Audit_Trail\<close>: the entries of the audit log.  \<open>Provider_Github\<close> and \<open>Provider_Oidc\<close>:
  the handlers of a sign-in with GitHub, with an OpenID Connect provider and with GitLab, whom they let in, as whom, and
  with which policies; \<open>Provider_Site\<close> has providers on which this applies.  \<open>Client_Addr\<close>: the address a request is
  reported under behind trusted proxies.

  \<^bold>\<open>API.\<close>  \<open>Api\<close>, \<open>Api_Account\<close> and \<open>Api_Info\<close> model every handler of \<^verbatim>\<open>internal/api\<close> on the state of the server; \<open>api_serve\<close>
  dispatches a call.  \<open>Api_Laws\<close> holds what the handlers keep, \<open>Api_Properties\<close> and \<open>Api_Access\<close> state who may change what,
  what a revocation leaves and what is audited, and \<open>Api_Site\<close> is a site on which they apply.

  \<^bold>\<open>Configuration.\<close>  \<open>Server_Config\<close> models \<^verbatim>\<open>ReadConfig\<close> (file, secret files, checks, the admin entry, the private key) and
  \<^verbatim>\<open>forwardingOptions\<close>; \<open>Server_Firewall\<close> follows the access policies from the configuration to the verdict on a packet.
  \<open>Server_Start\<close> models what brings the server up: the interface with the commands the operator configured (as a trace
  of actions on the host), the reconciliation of the firewall, the nameservers of the host and the DNS server; and
  \<open>Server_Site\<close> has a configured server.

  \<^bold>\<open>DNS.\<close>  \<open>Dns\<close> models the zone of the devices and its lookups (\<^verbatim>\<open>auth.go\<close>), \<open>Dns_Updater\<close> the goroutine that keeps it in
  step as a step relation, \<open>Dns_Proxy\<close> the cache and the upstreams (\<^verbatim>\<open>proxy.go\<close>), \<open>Dns_Cache\<close> concurrent lookups, and
  \<open>Dns_Site\<close> a DNS library and a cache that satisfy what is assumed.

  \<^bold>\<open>Bounds.\<close>  Every loop is a total function: the search for a free address ends because addresses of a prefix are
  finitely many (a measure), the other loops follow lists.  Background loops are modelled as one round.  Counters
  and time steps keep their 64 bits, addresses their width.

  \<^bold>\<open>Parameters.\<close>  Code outside the repository is an argument of the definitions that use it: the WireGuard
  interface, iptables and the nft command, bcrypt and the htpasswd formats, the JSON codec of an identity, the
  WebAuthn library, the cache of the throttle, the tables of the \<^verbatim>\<open>unicode\<close> package, URL parsing, the DNS library and the
  LRU cache of the DNS proxy, the files and the YAML decoder, the OAuth and OpenID Connect libraries, the replies of GitHub,
  the rule language of claim mappings, and the outcome of actions on the host, GORM and the database.  What is assumed of
  them is a named predicate.  Random bytes, uuids and the time are arguments.

  \<^bold>\<open>What the results leave out.\<close>  Some hold only beside behaviour that is a flaw or a peculiarity of the program, which
  their texts name: a policy called \<^verbatim>\<open>members\<close> breaks the confinement of policies (\<open>members_policy_leaks\<close>), names that
  differ only in case share an entry of the zone, an entry of \<^verbatim>\<open>claimMapping\<close> called \<^verbatim>\<open>policy\<close> adds policies, no nonce is
  checked without \<^verbatim>\<open>claimsFromIDToken\<close>, the two storages agree on the calls that are \<open>proper\<close>, and two preparations
  leave no entry in the audit trail.  The predicates that say what is promised (such as \<open>forward_spec\<close>, \<open>config_ok\<close>,
  \<open>only_prepares\<close>, \<open>action_of\<close>) are specifications of this development and no code of the program.

  \<^bold>\<open>Not modelled.\<close>  Connecting to a database, its migrations, the lock across replicas and the triggers of Postgres, generated
  protocol code, templates, metrics, TLS and listeners, the definition of the command line flags.
\<close>

end
